(* ===== verification/Prelude.thy ===== *)
theory Prelude
  imports Main "HOL-Library.Word" "HOL-Library.Char_ord" "HOL-Library.List_Lexorder"
    "HOL-Library.Product_Lexorder" "HOL-Library.Multiset"
begin

text \<open>
  What the services share: Go's integers and strings, the results of Postgres statements and
  commits, gRPC status codes, HTTP answers, rows of tables, and the lemma collections the component
  theories use.

  \<^item> A Go \<open>int64\<close> (and a Postgres BIGINT) is an \<open>int\<close>; \<open>in_int64\<close> is its range. Go's arithmetic
    wraps around (\<open>wrap64\<close>), Postgres' raises an error where the result leaves the range.
  \<^item> A Go string is a list of bytes. A time is an \<open>int\<close>, microseconds since the epoch.
  \<^item> \<open>runtime\<close> collects the functions of other programs that the services call: Postgres' input
    function of the type uuid, the Unicode case mappings for text that is not ASCII, MD5.
  \<^item> \<open>env\<close> is what one call of an operation meets: the transaction's \<open>now()\<close>, Go's \<open>time.Now()\<close>,
    the serialized trace of the context (empty without one), the values that
    \<open>gen_random_uuid()\<close> and crypto/rand return, and for each statement of the operation (numbered
    in the order of the source) whether the connection fails there.
\<close>

subsection \<open>Lemma collections\<close>

named_theorems db_simps \<open>unfolding of statement and transaction results\<close>
named_theorems row_simps \<open>facts on rows changed in place\<close>

subsection \<open>Integers\<close>

definition in_int64 :: "int \<Rightarrow> bool" where
  "in_int64 x \<longleftrightarrow> - (2 ^ 63) \<le> x \<and> x < 2 ^ 63"

definition wrap64 :: "int \<Rightarrow> int" where
  "wrap64 x = (x + 2 ^ 63) mod 2 ^ 64 - 2 ^ 63"

lemma wrap64_id: "in_int64 x \<Longrightarrow> wrap64 x = x"
  by (simp add: in_int64_def wrap64_def)

lemma in_int64_wrap64 [simp]: "in_int64 (wrap64 x)"
proof -
  have "0 \<le> (x + 2 ^ 63) mod 2 ^ 64" "(x + 2 ^ 63) mod 2 ^ 64 < (2 ^ 64 :: int)"
    by simp_all
  then show ?thesis by (simp add: in_int64_def wrap64_def)
qed

lemma in_int64_0 [simp]: "in_int64 0"
  by (simp add: in_int64_def)

subsection \<open>Strings\<close>

type_synonym byte = "8 word"

definition is_ascii :: "string \<Rightarrow> bool" where
  "is_ascii s \<longleftrightarrow> list_all (\<lambda>c. of_char c < (128 :: nat)) s"

definition upper_char :: "char \<Rightarrow> char" where
  "upper_char c = (if CHR ''a'' \<le> c \<and> c \<le> CHR ''z'' then char_of (of_char c - (32 :: nat)) else c)"

definition lower_char :: "char \<Rightarrow> char" where
  "lower_char c = (if CHR ''A'' \<le> c \<and> c \<le> CHR ''Z'' then char_of (of_char c + (32 :: nat)) else c)"

record runtime =
  uuid_in :: "string \<Rightarrow> string option"
  unicode_upper :: "string \<Rightarrow> string"
  unicode_lower :: "string \<Rightarrow> string"
  md5_sum :: "string \<Rightarrow> byte list"

text \<open>Go's \<open>strings.ToUpper\<close> and \<open>strings.ToLower\<close>.\<close>

definition ToUpper :: "runtime \<Rightarrow> string \<Rightarrow> string" where
  "ToUpper rt s = (if is_ascii s then map upper_char s else unicode_upper rt s)"

definition ToLower :: "runtime \<Rightarrow> string \<Rightarrow> string" where
  "ToLower rt s = (if is_ascii s then map lower_char s else unicode_lower rt s)"

text \<open>Go's \<open>strings.Split\<close> at a separator of one byte.\<close>

fun split_at :: "char \<Rightarrow> string \<Rightarrow> string list" where
  "split_at sep [] = [[]]"
| "split_at sep (c # cs) =
     (if c = sep then [] # split_at sep cs
      else case split_at sep cs of [] \<Rightarrow> [[c]] | w # ws \<Rightarrow> (c # w) # ws)"

lemma split_at_sep: "sep \<notin> set s \<Longrightarrow> split_at sep (s @ sep # r) = s # split_at sep r"
  by (induction s) auto

lemma split_at_word: "sep \<notin> set s \<Longrightarrow> split_at sep s = [s]"
  by (induction s) auto

text \<open>Postgres prints and parses uuid values: parsing gives the canonical text, which parses to itself.\<close>

definition canonical_uuids :: "runtime \<Rightarrow> bool" where
  "canonical_uuids rt \<longleftrightarrow> (\<forall>s u. uuid_in rt s = Some u \<longrightarrow> uuid_in rt u = Some u)"

lemma canonical_uuidsD: "canonical_uuids rt \<Longrightarrow> uuid_in rt s = Some u \<Longrightarrow> uuid_in rt u = Some u"
  by (auto simp: canonical_uuids_def)

text \<open>A runtime for examples, in which every text is its own canonical uuid.\<close>

definition plain_runtime :: runtime where
  "plain_runtime = \<lparr>uuid_in = Some, unicode_upper = id, unicode_lower = id, md5_sum = (\<lambda>_. [])\<rparr>"

lemma plain_runtime_sel [simp]:
  "uuid_in plain_runtime = Some" "canonical_uuids plain_runtime" "md5_sum plain_runtime s = []"
  by (simp_all add: plain_runtime_def canonical_uuids_def)

subsection \<open>Statements, transactions and their failures\<close>

datatype fault =
    NoFault        \<comment> \<open>the statement or commit is carried out and answered\<close>
  | Lost           \<comment> \<open>it fails and has no effect\<close>
  | AppliedLost    \<comment> \<open>it is carried out, but the answer is lost and the client sees an error\<close>

record env =
  now :: int
  clock :: int
  trace_ctx :: string
  gen_random_uuid :: "nat \<Rightarrow> string"
  crand_read :: "nat \<Rightarrow> byte list option"
  fault_at :: "nat \<Rightarrow> fault"

definition fails :: "env \<Rightarrow> nat \<Rightarrow> bool" where
  "fails e i \<longleftrightarrow> fault_at e i \<noteq> NoFault"

text \<open>
  A commit, or a writing statement outside a transaction, at site \<open>i\<close>: from \<open>db\<close> to \<open>db'\<close>, with
  the result \<open>r\<close> when it is answered and the error \<open>err\<close> when it is not.
\<close>

definition persist :: "env \<Rightarrow> nat \<Rightarrow> 'db \<Rightarrow> 'db \<Rightarrow> 'err \<Rightarrow> 'r \<Rightarrow> 'db \<times> ('err + 'r)" where
  "persist e i db db' err r =
     (case fault_at e i of
        NoFault \<Rightarrow> (db', Inr r)
      | Lost \<Rightarrow> (db, Inl err)
      | AppliedLost \<Rightarrow> (db', Inl err))"

lemma persist_cases:
  assumes "persist e i db db' err r = (d, x)"
  obtains (ok) "fault_at e i = NoFault" "d = db'" "x = Inr r"
    | (lost) "fault_at e i = Lost" "d = db" "x = Inl err"
    | (applied) "fault_at e i = AppliedLost" "d = db'" "x = Inl err"
  using assms by (auto simp: persist_def split: fault.splits)

lemma fst_persist: "fst (persist e i db db' err r) = (if fault_at e i = Lost then db else db')"
  by (simp add: persist_def split: fault.splits)

lemma snd_persist: "snd (persist e i db db' err r) = (if fails e i then Inl err else Inr r)"
  by (simp add: persist_def fails_def split: fault.splits)

lemma persist_NoFault: "\<not> fails e i \<Longrightarrow> persist e i db db' err r = (db', Inr r)"
  by (simp add: persist_def fails_def)

lemma persist_keeps: "P db \<Longrightarrow> P db' \<Longrightarrow> P (fst (persist e i db db' err r))"
  by (simp add: fst_persist)

text \<open>An environment without failures, for examples.\<close>

definition calm :: "int \<Rightarrow> (nat \<Rightarrow> string) \<Rightarrow> env" where
  "calm t g = \<lparr>now = t, clock = t, trace_ctx = [], gen_random_uuid = g, crand_read = (\<lambda>_. Some (replicate 16 0)), fault_at = (\<lambda>_. NoFault)\<rparr>"

lemma calm_sel [simp]:
  "now (calm t g) = t" "clock (calm t g) = t" "trace_ctx (calm t g) = []" "gen_random_uuid (calm t g) = g" "\<not> fails (calm t g) i"
  "crand_read (calm t g) i = Some (replicate 16 0)" "fault_at (calm t g) i = NoFault"
  by (simp_all add: calm_def fails_def)

subsection \<open>Status codes and answers\<close>

datatype codes = Canceled | Unknown | InvalidArgument | DeadlineExceeded | NotFound
  | AlreadyExists | PermissionDenied | ResourceExhausted | FailedPrecondition | Aborted
  | OutOfRange | Unimplemented | Internal | Unavailable | DataLoss | Unauthenticated

text \<open>\<open>status.Error(code, message)\<close>; a nil error is the \<open>Inr\<close> side of a result.\<close>

type_synonym grpc_status = "codes \<times> string"

text \<open>
  How a unary call of another service goes: carried out and answered, lost before the service saw
  it, or carried out with the answer lost. In the last two the client library makes up the status,
  one that the services themselves never return.
\<close>

datatype transport_error = ConnUnavailable | ConnDeadline | ConnUnknown | ConnCanceled

fun transport_code :: "transport_error \<Rightarrow> codes" where
  "transport_code ConnUnavailable = Unavailable"
| "transport_code ConnDeadline = DeadlineExceeded"
| "transport_code ConnUnknown = Unknown"
| "transport_code ConnCanceled = Canceled"

datatype delivery = Delivered | RequestLost transport_error | ReplyLost transport_error

fun call :: "delivery \<Rightarrow> ('s \<Rightarrow> 's \<times> (grpc_status + 'r)) \<Rightarrow> 's \<Rightarrow> 's \<times> (grpc_status + 'r)" where
  "call Delivered f s = f s"
| "call (RequestLost c) f s = (s, Inl (transport_code c, ''transport''))"
| "call (ReplyLost c) f s = (fst (f s), Inl (transport_code c, ''transport''))"

lemma call_cases:
  assumes "call n f s = (s', r)"
  obtains (delivered) "n = Delivered" "f s = (s', r)"
    | (request_lost) c where "n = RequestLost c" "s' = s" "r = Inl (transport_code c, ''transport'')"
    | (reply_lost) c q where "n = ReplyLost c" "f s = (s', q)" "r = Inl (transport_code c, ''transport'')"
  using assms by (cases n) (auto simp: prod_eq_iff)

lemma transport_code_not [simp]:
  "transport_code c \<noteq> FailedPrecondition" "transport_code c \<noteq> NotFound" "transport_code c \<noteq> InvalidArgument"
  "transport_code c \<noteq> Internal" "transport_code c \<noteq> ResourceExhausted"
  by (cases c; simp)+

lemmas not_transport_code [simp] = transport_code_not [THEN not_sym]

lemma call_keeps:
  assumes "\<And>s' q. f s = (s', q) \<Longrightarrow> P s'" "P s" "call n f s = (s', r)"
  shows "P s'"
  using assms(3) by (cases rule: call_cases) (use assms(1,2) in auto)

record 'b http_response =
  http_status :: nat
  http_body :: 'b

subsection \<open>Rows\<close>

definition update_where :: "('r \<Rightarrow> bool) \<Rightarrow> ('r \<Rightarrow> 'r) \<Rightarrow> 'r list \<Rightarrow> 'r list" where
  "update_where p f rs = map (\<lambda>r. if p r then f r else r) rs"

definition rows_affected :: "('r \<Rightarrow> bool) \<Rightarrow> 'r list \<Rightarrow> nat" where
  "rows_affected p rs = length (filter p rs)"

lemma length_update_where [simp]: "length (update_where p f rs) = length rs"
  by (simp add: update_where_def)

lemma in_set_update_where:
  "x \<in> set (update_where p f rs) \<longleftrightarrow> (\<exists>r\<in>set rs. x = (if p r then f r else r))"
  by (auto simp: update_where_def)

lemma map_update_where [row_simps]:
  assumes "\<And>r. g (f r) = g r"
  shows "map g (update_where p f rs) = map g rs"
  by (simp add: update_where_def assms)

lemma update_where_none: "(\<And>r. r \<in> set rs \<Longrightarrow> \<not> p r) \<Longrightarrow> update_where p f rs = rs"
  by (induction rs) (auto simp: update_where_def)

lemma rows_affected_0: "rows_affected p rs = 0 \<longleftrightarrow> (\<forall>r\<in>set rs. \<not> p r)"
  by (auto simp: rows_affected_def filter_empty_conv)

lemma find_Some_in: "find p xs = Some x \<Longrightarrow> x \<in> set xs \<and> p x"
  by (induction xs) (auto split: if_splits)

lemma find_None_in: "find p xs = None \<longleftrightarrow> (\<forall>x\<in>set xs. \<not> p x)"
  by (induction xs) auto

lemma find_unique:
  assumes "distinct (map k xs)" "x \<in> set xs" "k x = a"
  shows "find (\<lambda>y. k y = a) xs = Some x"
  using assms by (induction xs) (auto simp: rev_image_eqI)

subsection \<open>Descending order by a key\<close>

definition sort_desc :: "('r \<Rightarrow> 'k::linorder) \<Rightarrow> 'r list \<Rightarrow> 'r list" where
  "sort_desc k rs = rev (sort_key k rs)"

lemma set_sort_desc [simp]: "set (sort_desc k rs) = set rs"
  by (simp add: sort_desc_def)

lemma length_sort_desc [simp]: "length (sort_desc k rs) = length rs"
  by (simp add: sort_desc_def)

lemma sorted_sort_desc: "sorted_wrt (\<lambda>a b. k b \<le> k a) (sort_desc k rs)"
  using sorted_sort_key [of k rs] by (simp add: sort_desc_def sorted_wrt_rev sorted_map)

lemma distinct_map_sort_desc [simp]: "distinct (map k (sort_desc j rs)) = distinct (map k rs)"
proof -
  have "mset (map k (sort_desc j rs)) = mset (map k rs)"
    by (simp add: sort_desc_def)
  then show ?thesis by (rule mset_eq_imp_distinct_iff)
qed

end
