(* ===== verification/Outbox.thy ===== *)
theory Outbox
  imports Prelude
begin

text \<open>
  pkg/outbox: the transactional outbox. \<open>InsertEvent\<close> is a statement of the caller's transaction,
  \<open>RelayBatch\<close> publishes unpublished rows to Kafka and marks them, \<open>CleanupPublished\<close> deletes old
  published rows.

  A row's payload is the message the producer marshals; proto.Marshal is total and its bytes are not
  modelled. The table's BIGSERIAL column counts up with every inserted row (an aborted insert leaves
  no gap here; the ids stay ascending either way). The Kafka topic is the list of messages the
  broker has accepted. Log lines, spans and the trace headers of a message are left out.
\<close>

subsection \<open>Event ids\<close>

definition hexdigit :: "nat \<Rightarrow> char" where
  "hexdigit n = ''0123456789abcdef'' ! n"

definition hex_byte :: "byte \<Rightarrow> string" where
  "hex_byte b = [hexdigit (unat b div 16), hexdigit (unat b mod 16)]"

definition hex_bytes :: "byte list \<Rightarrow> string" where
  "hex_bytes bs = concat (map hex_byte bs)"

definition uuid_format :: "byte list \<Rightarrow> string" where
  "uuid_format b = hex_bytes (take 4 b) @ ''-'' @ hex_bytes (take 2 (drop 4 b)) @ ''-'' @
     hex_bytes (take 2 (drop 6 b)) @ ''-'' @ hex_bytes (take 2 (drop 8 b)) @ ''-'' @ hex_bytes (take 6 (drop 10 b))"

unbundle bit_operations_syntax

text \<open>\<open>crand.Read\<close> fills the buffer made of 16 zero bytes.\<close>

definition uuid_v4_bytes :: "byte list \<Rightarrow> byte list" where
  "uuid_v4_bytes r =
     (let b = take 16 (r @ replicate 16 0);
          b1 = b[6 := (b ! 6 AND 0x0f) OR 0x40]
      in b1[8 := (b1 ! 8 AND 0x3f) OR 0x80])"

definition GenerateEventID :: "env \<Rightarrow> nat \<Rightarrow> string option" where
  "GenerateEventID e i = map_option (\<lambda>r. uuid_format (uuid_v4_bytes r)) (crand_read e i)"

subsection \<open>The table\<close>

record 'p outbox_row =
  o_id :: int
  o_event_id :: string
  o_event_type :: string
  o_partition_key :: string
  o_payload :: 'p
  o_trace_context :: "string option"
  o_created_at :: int
  o_published_at :: "int option"

record 'p outbox_table =
  ob_next :: int
  ob_rows :: "'p outbox_row list"

definition empty_outbox :: "'p outbox_table" where
  "empty_outbox = \<lparr>ob_next = 1, ob_rows = []\<rparr>"

definition new_row :: "env \<Rightarrow> int \<Rightarrow> string \<Rightarrow> string \<Rightarrow> string \<Rightarrow> 'p \<Rightarrow> 'p outbox_row" where
  "new_row e i u eventType partitionKey payload =
     \<lparr>o_id = i, o_event_id = u, o_event_type = eventType, o_partition_key = partitionKey, o_payload = payload,
      o_trace_context = (if trace_ctx e \<noteq> '''' then Some (trace_ctx e) else None),
      o_created_at = now e, o_published_at = None\<rparr>"

definition InsertEvent ::
  "runtime \<Rightarrow> env \<Rightarrow> nat \<Rightarrow> string \<Rightarrow> string \<Rightarrow> string \<Rightarrow> 'p \<Rightarrow> 'p outbox_table \<Rightarrow> 'p outbox_table option" where
  "InsertEvent rt e i eventID eventType partitionKey payload ob =
     (if fails e i then None
      else case uuid_in rt eventID of
        None \<Rightarrow> None
      | Some u \<Rightarrow>
          if u \<in> o_event_id ` set (ob_rows ob) then None
          else Some \<lparr>ob_next = ob_next ob + 1,
                     ob_rows = ob_rows ob @ [new_row e (ob_next ob) u eventType partitionKey payload]\<rparr>)"

subsection \<open>The relay\<close>

record 'p kafka_message =
  km_key :: string
  km_value :: 'p
  km_event_type :: string

definition message_of :: "'p outbox_row \<Rightarrow> 'p kafka_message" where
  "message_of r = \<lparr>km_key = o_partition_key r, km_value = o_payload r, km_event_type = o_event_type r\<rparr>"

text \<open>\<open>SELECT ... WHERE published_at IS NULL ORDER BY id LIMIT n FOR UPDATE SKIP LOCKED\<close>, with the rows another instance holds.\<close>

definition claim :: "(int \<Rightarrow> bool) \<Rightarrow> nat \<Rightarrow> 'p outbox_table \<Rightarrow> 'p outbox_row list" where
  "claim locked batchSize ob =
     take batchSize (filter (\<lambda>r. o_published_at r = None \<and> \<not> locked (o_id r)) (sort_key o_id (ob_rows ob)))"

definition mark_published :: "int \<Rightarrow> int \<Rightarrow> 'p outbox_table \<Rightarrow> 'p outbox_table" where
  "mark_published t i ob = ob\<lparr>ob_rows := update_where (\<lambda>r. o_id r = i) (\<lambda>r. r\<lparr>o_published_at := Some t\<rparr>) (ob_rows ob)\<rparr>"

text \<open>
  The loop over the batch. \<open>w k\<close> says what \<open>WriteMessages\<close> does with the \<open>k\<close>-th row; site \<open>3 + k\<close> is
  its UPDATE. The last result says whether the transaction can still commit: after a failed
  statement Postgres answers COMMIT with a rollback.
\<close>

fun relay_loop ::
  "env \<Rightarrow> (nat \<Rightarrow> fault) \<Rightarrow> nat \<Rightarrow> 'p outbox_row list \<Rightarrow> 'p kafka_message list \<Rightarrow> 'p outbox_table
   \<Rightarrow> 'p kafka_message list \<times> 'p outbox_table \<times> bool" where
  "relay_loop e w k [] topic ob = (topic, ob, True)"
| "relay_loop e w k (r # batch) topic ob =
     (let topic' = (if w k = Lost then topic else topic @ [message_of r]) in
      if w k \<noteq> NoFault then (topic', ob, True)
      else if fails e (3 + k) then (topic', ob, False)
      else relay_loop e w (Suc k) batch topic' (mark_published (now e) (o_id r) ob))"

definition RelayBatch ::
  "env \<Rightarrow> (nat \<Rightarrow> fault) \<Rightarrow> (int \<Rightarrow> bool) \<Rightarrow> nat \<Rightarrow> 'p kafka_message list \<times> 'p outbox_table
   \<Rightarrow> 'p kafka_message list \<times> 'p outbox_table" where
  "RelayBatch e w locked batchSize s =
     (case s of (topic, ob) \<Rightarrow>
        if fails e 0 then (topic, ob)
        else if fails e 1 then (topic, ob)
        else case relay_loop e w 0 (claim locked batchSize ob) topic ob of
          (topic', ob', ok) \<Rightarrow> (topic', if ok then fst (persist e 2 ob ob' () ()) else ob))"

subsection \<open>Cleanup\<close>

definition cleanup_candidate :: "env \<Rightarrow> int \<Rightarrow> 'p outbox_row \<Rightarrow> bool" where
  "cleanup_candidate e retention r = (case o_published_at r of None \<Rightarrow> False | Some p \<Rightarrow> p < now e - retention)"

definition CleanupPublished :: "env \<Rightarrow> int \<Rightarrow> 'p outbox_table \<Rightarrow> 'p outbox_table \<times> (unit + nat)" where
  "CleanupPublished e retention ob =
     persist e 0 ob (ob\<lparr>ob_rows := filter (\<lambda>r. \<not> cleanup_candidate e retention r) (ob_rows ob)\<rparr>)
       () (rows_affected (cleanup_candidate e retention) (ob_rows ob))"

subsection \<open>Rows and their order\<close>

definition outbox_inv :: "'p outbox_table \<Rightarrow> bool" where
  "outbox_inv ob \<longleftrightarrow> sorted_wrt (<) (map o_id (ob_rows ob)) \<and> (\<forall>r\<in>set (ob_rows ob). o_id r < ob_next ob) \<and>
     distinct (map o_event_id (ob_rows ob))"

lemma InsertEvent_SomeD:
  assumes "InsertEvent rt e i eventID ty k p ob = Some ob'"
  obtains u where "uuid_in rt eventID = Some u" "u \<notin> o_event_id ` set (ob_rows ob)" "ob_next ob' = ob_next ob + 1"
    "ob_rows ob' = ob_rows ob @ [new_row e (ob_next ob) u ty k p]" "\<not> fails e i"
  using assms by (auto simp: InsertEvent_def split: if_splits option.splits)

lemma InsertEvent_inv:
  assumes "outbox_inv ob" "InsertEvent rt e i eventID ty k p ob = Some ob'"
  shows "outbox_inv ob'"
  using assms(2)
proof (rule InsertEvent_SomeD)
  fix u
  assume u: "u \<notin> o_event_id ` set (ob_rows ob)" "ob_next ob' = ob_next ob + 1"
    "ob_rows ob' = ob_rows ob @ [new_row e (ob_next ob) u ty k p]"
  from assms(1) show ?thesis
    unfolding outbox_inv_def u(2,3) using u(1) by (auto simp: sorted_wrt_append new_row_def)
qed

lemma mark_published_rows:
  "map o_id (ob_rows (mark_published t i ob)) = map o_id (ob_rows ob)"
  "map o_event_id (ob_rows (mark_published t i ob)) = map o_event_id (ob_rows ob)"
  "map message_of (ob_rows (mark_published t i ob)) = map message_of (ob_rows ob)"
  "ob_next (mark_published t i ob) = ob_next ob"
  by (simp_all add: mark_published_def map_update_where message_of_def)

lemma sorted_rows: "outbox_inv ob \<Longrightarrow> sort_key o_id (ob_rows ob) = ob_rows ob"
  unfolding outbox_inv_def by (metis sort_key_id_if_sorted strict_sorted_iff)

subsection \<open>Event ids are version 4 UUIDs\<close>

definition hex_chars :: "char set" where
  "hex_chars = set ''0123456789abcdef''"

lemma hexdigit_in: "n < 16 \<Longrightarrow> hexdigit n \<in> hex_chars"
  unfolding hexdigit_def hex_chars_def by (rule nth_mem) simp

lemma hexdigit_inj: "m < 16 \<Longrightarrow> n < 16 \<Longrightarrow> hexdigit m = hexdigit n \<longleftrightarrow> m = n"
  unfolding hexdigit_def by (intro nth_eq_iff_index_eq) auto

lemma unat_byte_div: "unat (b :: byte) div 16 < 16"
  using unsigned_less [of b, where ?'a = nat] by (simp add: div_less_iff_less_mult)

lemma length_hex_bytes [simp]: "length (hex_bytes bs) = 2 * length bs"
  by (induction bs) (simp_all add: hex_bytes_def hex_byte_def)

lemma hex_bytes_simps [simp]:
  "hex_bytes [] = []" "hex_bytes (b # bs) = hexdigit (unat b div 16) # hexdigit (unat b mod 16) # hex_bytes bs"
  by (simp_all add: hex_bytes_def hex_byte_def)

lemma set_hex_bytes: "set (hex_bytes bs) \<subseteq> hex_chars"
  by (induction bs) (auto intro: hexdigit_in unat_byte_div)

lemma hex_bytes_inj: "hex_bytes bs = hex_bytes cs \<Longrightarrow> bs = cs"
proof (induction bs arbitrary: cs)
  case Nil
  then show ?case by (cases cs) simp_all
next
  case (Cons b bs)
  then obtain c cs' where cs: "cs = c # cs'" by (cases cs) simp_all
  with Cons.prems have "unat b div 16 = unat c div 16" "unat b mod 16 = unat c mod 16"
    by (simp_all add: hexdigit_inj unat_byte_div)
  then have "unat b = unat c" by (metis div_mult_mod_eq)
  then have "b = c" by (rule unsigned_word_eqI)
  with Cons cs show ?case by simp
qed

lemma uuid_format_inj:
  assumes "length b = 16" "length c = 16" "uuid_format b = uuid_format c"
  shows "b = c"
proof -
  have "hex_bytes (take 4 b) = hex_bytes (take 4 c)" "hex_bytes (take 2 (drop 4 b)) = hex_bytes (take 2 (drop 4 c))"
    "hex_bytes (take 2 (drop 6 b)) = hex_bytes (take 2 (drop 6 c))" "hex_bytes (take 2 (drop 8 b)) = hex_bytes (take 2 (drop 8 c))"
    "hex_bytes (take 6 (drop 10 b)) = hex_bytes (take 6 (drop 10 c))"
    using assms by (auto simp: uuid_format_def)
  then have "take 4 b = take 4 c" "take 2 (drop 4 b) = take 2 (drop 4 c)" "take 2 (drop 6 b) = take 2 (drop 6 c)"
    "take 2 (drop 8 b) = take 2 (drop 8 c)" "take 6 (drop 10 b) = take 6 (drop 10 c)"
    by (auto dest: hex_bytes_inj)
  moreover have "x = take 4 x @ take 2 (drop 4 x) @ take 2 (drop 6 x) @ take 2 (drop 8 x) @ take 6 (drop 10 x)"
    if "length x = 16" for x :: "byte list"
  proof -
    have "x = take (4 + (2 + (2 + (2 + 6)))) x" using that by simp
    also have "\<dots> = take 4 x @ take 2 (drop 4 x) @ take 2 (drop 6 x) @ take 2 (drop 8 x) @ take 6 (drop 10 x)"
      unfolding take_add drop_drop by simp
    finally show ?thesis .
  qed
  ultimately show ?thesis using assms(1,2) by metis
qed

lemma version_nibble: "unat ((x AND 0x0f) OR 0x40 :: byte) div 16 = 4"
proof -
  have "drop_bit 4 ((x AND 0x0f) OR 0x40 :: byte) = 4"
    by (simp add: drop_bit_and drop_bit_or)
  then show ?thesis
    using unat_drop_bit_eq [of 4 "(x AND 0x0f) OR 0x40 :: byte"] by (simp add: drop_bit_eq_div)
qed

lemma variant_nibble: "unat ((x AND 0x3f) OR 0x80 :: byte) div 16 \<in> {8, 9, 10, 11}"
proof -
  let ?y = "drop_bit 4 x :: byte"
  have "?y AND 3 = take_bit 2 ?y" by (simp add: take_bit_eq_mask numeral_2_eq_2 mask_Suc_exp)
  then have "unat (?y AND 3) = take_bit 2 (unat ?y)"
    by (simp only: unsigned_take_bit_eq)
  also have "\<dots> = unat ?y mod 4"
    by (simp add: take_bit_eq_mod)
  finally have "unat (?y AND 3) = unat ?y mod 4" .
  then have "unat (?y AND 3) \<in> unat ` ({0, 1, 2, 3} :: byte set)" by auto
  then have y: "?y AND 3 \<in> {0, 1, 2, 3}" unfolding image_iff using unsigned_word_eqI by blast
  have "drop_bit 4 ((x AND 0x3f) OR 0x80 :: byte) = (?y AND 3) OR 8"
    by (simp add: drop_bit_and drop_bit_or)
  with y have "unat (drop_bit 4 ((x AND 0x3f) OR 0x80 :: byte)) \<in> {8, 9, 10, 11}" by auto
  moreover have "drop_bit 4 (unat b) = unat b div 16" for b :: byte
    by (simp add: drop_bit_eq_div)
  ultimately show ?thesis by (simp only: unat_drop_bit_eq)
qed

lemma length_uuid_v4_bytes [simp]: "length (uuid_v4_bytes r) = 16"
  by (simp add: uuid_v4_bytes_def Let_def)

lemma uuid_v4_bytes_version: "unat (uuid_v4_bytes r ! 6) div 16 = 4"
  by (simp add: uuid_v4_bytes_def Let_def nth_list_update version_nibble)

lemma uuid_v4_bytes_variant: "unat (uuid_v4_bytes r ! 8) div 16 \<in> {8, 9, 10, 11}"
  using variant_nibble by (simp add: uuid_v4_bytes_def Let_def nth_list_update)

lemma length_16E:
  assumes "length b = 16"
  obtains b0 b1 b2 b3 b4 b5 b6 b7 b8 b9 b10 b11 b12 b13 b14 b15
  where "b = [b0, b1, b2, b3, b4, b5, b6, b7, b8, b9, b10, b11, b12, b13, b14, b15]"
proof -
  have "length b = Suc (Suc (Suc (Suc (Suc (Suc (Suc (Suc (Suc (Suc (Suc (Suc (Suc (Suc (Suc (Suc 0)))))))))))))))"
    using assms by simp
  then show thesis using that unfolding length_Suc_conv length_0_conv by blast
qed

text \<open>The characters of the textual form, by position.\<close>

definition is_uuid_v4 :: "string \<Rightarrow> bool" where
  "is_uuid_v4 s \<longleftrightarrow> length s = 36 \<and>
     (\<forall>i<36. if i \<in> {8, 13, 18, 23} then s ! i = CHR ''-'' else s ! i \<in> hex_chars) \<and>
     s ! 14 = CHR ''4'' \<and> s ! 19 \<in> set ''89ab''"

lemma all_less_36:
  "(\<forall>i<36. P i) \<longleftrightarrow> (\<forall>i\<in>set [0..<36]. P i)"
  by auto

lemma uuid_format_shape:
  assumes "length b = 16"
  shows "length (uuid_format b) = 36"
    and "\<forall>i<36. if i \<in> {8, 13, 18, 23} then uuid_format b ! i = CHR ''-'' else uuid_format b ! i \<in> hex_chars"
    and "uuid_format b ! 14 = hexdigit (unat (b ! 6) div 16)" "uuid_format b ! 19 = hexdigit (unat (b ! 8) div 16)"
proof -
  from assms show "length (uuid_format b) = 36" by (simp add: uuid_format_def)
  from assms obtain b0 b1 b2 b3 b4 b5 b6 b7 b8 b9 b10 b11 b12 b13 b14 b15
    where b: "b = [b0, b1, b2, b3, b4, b5, b6, b7, b8, b9, b10, b11, b12, b13, b14, b15]"
    by (rule length_16E)
  have n: "[0..<36] = [0, 1, 2, 3, 4, 5, 6, 7, 8, 9, 10, 11, 12, 13, 14, 15, 16, 17, 18, 19, 20, 21, 22, 23, 24,
      25, 26, 27, 28, 29, 30, 31, 32, 33, 34, 35 :: nat]"
    by (simp add: upt_rec)
  show "\<forall>i<36. if i \<in> {8, 13, 18, 23} then uuid_format b ! i = CHR ''-'' else uuid_format b ! i \<in> hex_chars"
    unfolding all_less_36 n by (simp add: b uuid_format_def hexdigit_in unat_byte_div)
  show "uuid_format b ! 14 = hexdigit (unat (b ! 6) div 16)" "uuid_format b ! 19 = hexdigit (unat (b ! 8) div 16)"
    by (simp_all add: b uuid_format_def)
qed

text \<open>
  Every event id is the text of a random UUID of version 4 (RFC 4122): 36 characters, dashes at
  the four places, lower-case hex digits elsewhere, version digit 4 and variant digit 8, 9, a or b.
  Two calls produce the same id only if crypto/rand returned bytes that agree outside the six fixed bits.
\<close>

theorem event_id_is_v4:
  assumes "GenerateEventID e i = Some s" "GenerateEventID e' j = Some s'"
  shows "is_uuid_v4 s \<and>
    (s = s' \<longleftrightarrow> uuid_v4_bytes (the (crand_read e i)) = uuid_v4_bytes (the (crand_read e' j)))"
proof -
  from assms obtain r r' where r: "crand_read e i = Some r" "s = uuid_format (uuid_v4_bytes r)"
    "crand_read e' j = Some r'" "s' = uuid_format (uuid_v4_bytes r')"
    by (auto simp: GenerateEventID_def)
  have "hexdigit k \<in> set ''89ab''" if "k \<in> {8, 9, 10, 11}" for k
    using that by (auto simp: hexdigit_def)
  then have "is_uuid_v4 s"
    using uuid_format_shape [of "uuid_v4_bytes r"] uuid_v4_bytes_version uuid_v4_bytes_variant
    unfolding is_uuid_v4_def r(2) by (simp add: hexdigit_def)
  with r show ?thesis by (auto dest: uuid_format_inj [rotated 2])
qed

theorem event_id_is_v4_witness:
  "GenerateEventID (calm 0 (\<lambda>_. [])) 0 = Some ''00000000-0000-4000-8000-000000000000'' \<and>
   is_uuid_v4 ''00000000-0000-4000-8000-000000000000''"
proof -
  have g: "GenerateEventID (calm 0 (\<lambda>_. [])) 0 = Some ''00000000-0000-4000-8000-000000000000''"
    by code_simp
  from event_id_is_v4 [OF g g] g show ?thesis by simp
qed

subsection \<open>What a relay pass does\<close>

text \<open>
  A pass publishes a prefix of the claimed rows and marks a prefix of those: all of them, or all but
  the last when a failure stopped the loop.
\<close>

definition mark_rows :: "int \<Rightarrow> 'p outbox_row list \<Rightarrow> 'p outbox_table \<Rightarrow> 'p outbox_table" where
  "mark_rows t rs ob = fold (\<lambda>r. mark_published t (o_id r)) rs ob"

lemma relay_loop_prefix:
  assumes "relay_loop e w k batch topic ob = (topic', ob', ok)"
  shows "\<exists>n m. n \<le> m \<and> m \<le> length batch \<and> topic' = topic @ map message_of (take m batch) \<and>
    ob' = mark_rows (now e) (take n batch) ob"
  using assms
proof (induction e w k batch topic ob rule: relay_loop.induct)
  case (1 e w k topic ob)
  then show ?case by (auto simp: mark_rows_def)
next
  case (2 e w k r batch topic ob)
  consider (stop) "w k \<noteq> NoFault \<or> fails e (3 + k)" | (go) "w k = NoFault" "\<not> fails e (3 + k)" by blast
  then show ?case
  proof cases
    case stop
    with "2.prems" have "ob' = ob" "topic' = topic \<or> topic' = topic @ [message_of r]"
      by (auto simp: Let_def split: if_splits)
    then show ?thesis
      by (intro exI [of _ 0] exI [of _ "if topic' = topic then 0 else 1"]) (auto simp: mark_rows_def)
  next
    case go
    with "2.prems" have "relay_loop e w (Suc k) batch (topic @ [message_of r]) (mark_published (now e) (o_id r) ob) = (topic', ob', ok)"
      by simp
    with "2.IH" [OF refl] go obtain n m where "n \<le> m" "m \<le> length batch"
      "topic' = topic @ map message_of (take (Suc m) (r # batch))"
      "ob' = mark_rows (now e) (take (Suc n) (r # batch)) ob"
      by (auto simp: mark_rows_def)
    then show ?thesis by (intro exI [of _ "Suc n"] exI [of _ "Suc m"]) simp
  qed
qed

lemma relay_loop_calm:
  assumes "\<And>i. w i = NoFault" "\<And>i. \<not> fails e i"
  shows "relay_loop e w k batch topic ob = (topic @ map message_of batch, mark_rows (now e) batch ob, True)"
  using assms by (induction e w k batch topic ob rule: relay_loop.induct) (simp_all add: mark_rows_def)

lemma mark_rows_eq:
  "mark_rows t rs ob = ob\<lparr>ob_rows := update_where (\<lambda>r. o_id r \<in> o_id ` set rs) (\<lambda>r. r\<lparr>o_published_at := Some t\<rparr>) (ob_rows ob)\<rparr>"
proof (induction rs arbitrary: ob)
  case Nil
  then show ?case by (simp add: mark_rows_def update_where_def)
next
  case (Cons a rs)
  have "mark_rows t (a # rs) ob = mark_rows t rs (mark_published t (o_id a) ob)"
    by (simp add: mark_rows_def)
  also have "\<dots> = ob\<lparr>ob_rows := update_where (\<lambda>r. o_id r \<in> o_id ` set (a # rs)) (\<lambda>r. r\<lparr>o_published_at := Some t\<rparr>) (ob_rows ob)\<rparr>"
    unfolding Cons.IH by (auto simp: mark_published_def update_where_def)
  finally show ?case .
qed

lemma RelayBatch_cases:
  assumes "RelayBatch e w locked b (topic, ob) = (topic', ob')"
  obtains n m where "n \<le> m" "topic' = topic @ map message_of (take m (claim locked b ob))"
    "ob' = mark_rows (now e) (take n (claim locked b ob)) ob"
proof -
  obtain t2 o2 ok where l: "relay_loop e w 0 (claim locked b ob) topic ob = (t2, o2, ok)"
    using prod_cases3 by blast
  from relay_loop_prefix [OF this] obtain n m where nm: "n \<le> m"
    "t2 = topic @ map message_of (take m (claim locked b ob))" "o2 = mark_rows (now e) (take n (claim locked b ob)) ob"
    by blast
  have 0: "topic = topic @ map message_of (take 0 (claim locked b ob))" "ob = mark_rows (now e) (take 0 (claim locked b ob)) ob"
    by (simp_all add: mark_rows_def)
  from assms l have "topic' = topic \<and> ob' = ob \<or> topic' = t2 \<and> (ob' = o2 \<or> ob' = ob)"
    by (auto simp: RelayBatch_def fst_persist split: if_splits)
  then show thesis using that nm 0 by blast
qed

lemma claim_sub: "set (claim locked b ob) \<subseteq> set (ob_rows ob)"
  by (auto simp: claim_def dest: in_set_takeD)

lemma mark_rows_inv: "outbox_inv ob \<Longrightarrow> outbox_inv (mark_rows t rs ob)"
  by (auto simp: mark_rows_eq outbox_inv_def map_update_where in_set_update_where)

lemma outbox_inv_inj: "outbox_inv ob \<Longrightarrow> r \<in> set (ob_rows ob) \<Longrightarrow> q \<in> set (ob_rows ob) \<Longrightarrow> o_id r = o_id q \<Longrightarrow> r = q"
  unfolding outbox_inv_def by (metis distinct_map inj_onD strict_sorted_iff)

subsection \<open>No event is lost\<close>

text \<open>
  Runs of an outbox: committed transactions insert events, relay passes of any instance meet any
  failures and locks, cleanup runs at any time. \<open>sent\<close> collects every row ever inserted.
\<close>

inductive outbox_run ::
  "runtime \<Rightarrow> 'p kafka_message list \<Rightarrow> 'p outbox_table \<Rightarrow> 'p outbox_row list \<Rightarrow> bool" for rt where
  run_start: "outbox_run rt [] empty_outbox []"
| run_insert: "outbox_run rt topic ob sent \<Longrightarrow> InsertEvent rt e i eventID ty k p ob = Some ob' \<Longrightarrow>
    outbox_run rt topic ob' (sent @ [last (ob_rows ob')])"
| run_relay: "outbox_run rt topic ob sent \<Longrightarrow> RelayBatch e w locked b (topic, ob) = (topic', ob') \<Longrightarrow>
    outbox_run rt topic' ob' sent"
| run_cleanup: "outbox_run rt topic ob sent \<Longrightarrow> outbox_run rt topic (fst (CleanupPublished e retention ob)) sent"

definition waiting :: "'p outbox_table \<Rightarrow> 'p outbox_row list" where
  "waiting ob = filter (\<lambda>r. o_published_at r = None) (ob_rows ob)"

definition outbox_safe :: "'p kafka_message list \<Rightarrow> 'p outbox_table \<Rightarrow> 'p outbox_row list \<Rightarrow> bool" where
  "outbox_safe topic ob sent \<longleftrightarrow> outbox_inv ob \<and> set (waiting ob) \<subseteq> set sent \<and>
     (\<forall>r\<in>set sent. message_of r \<in> set topic \<or> r \<in> set (waiting ob)) \<and>
     (\<forall>m\<in>set topic. m \<in> message_of ` set sent)"

lemma waiting_mark_rows:
  "waiting (mark_rows t rs ob) = filter (\<lambda>r. o_id r \<notin> o_id ` set rs) (waiting ob)"
proof -
  have "filter (\<lambda>r. o_published_at r = None) (update_where p (\<lambda>r. r\<lparr>o_published_at := Some t\<rparr>) xs)
      = filter (\<lambda>r. \<not> p r) (filter (\<lambda>r. o_published_at r = None) xs)" for p and xs :: "'a outbox_row list"
    by (induction xs) (simp_all add: update_where_def)
  then show ?thesis by (simp add: waiting_def mark_rows_eq)
qed

lemma claim_waiting: "set (claim locked b ob) \<subseteq> set (waiting ob)"
  by (auto simp: claim_def waiting_def dest: in_set_takeD)

lemma RelayBatch_safe:
  assumes "outbox_safe topic ob sent" "RelayBatch e w locked b (topic, ob) = (topic', ob')"
  shows "outbox_safe topic' ob' sent"
  using assms(2)
proof (rule RelayBatch_cases)
  fix n m
  let ?c = "claim locked b ob"
  assume nm: "n \<le> m" "topic' = topic @ map message_of (take m ?c)" "ob' = mark_rows (now e) (take n ?c) ob"
  have sub: "set (take n ?c) \<subseteq> set (take m ?c)" "set (take m ?c) \<subseteq> set (waiting ob)"
    using nm(1) claim_waiting [of locked b ob] by (auto dest: in_set_takeD intro: set_take_subset_set_take [THEN subsetD])
  have w: "set (waiting ob') = {r \<in> set (waiting ob). o_id r \<notin> o_id ` set (take n ?c)}"
    by (auto simp: nm(3) waiting_mark_rows)
  have out: "message_of r \<in> set topic'" if "r \<in> set (waiting ob)" "r \<notin> set (waiting ob')" for r
  proof -
    from that w obtain q where q: "q \<in> set (take n ?c)" "o_id r = o_id q" by auto
    then have "r = q"
      using outbox_inv_inj [of ob r q] that(1) sub assms(1) by (auto simp: outbox_safe_def waiting_def)
    with q sub nm(2) show ?thesis by auto
  qed
  have topic: "set topic \<subseteq> set topic'" using nm(2) by simp
  have "\<forall>r\<in>set sent. message_of r \<in> set topic' \<or> r \<in> set (waiting ob')"
    using assms(1) out topic unfolding outbox_safe_def by blast
  moreover have "set topic' \<subseteq> message_of ` set sent"
    using assms(1) sub(2) unfolding outbox_safe_def nm(2) by auto
  ultimately show ?thesis
    using assms(1) w unfolding outbox_safe_def by (auto simp: nm(3) mark_rows_inv)
qed

lemma InsertEvent_safe:
  assumes "outbox_safe topic ob sent" "InsertEvent rt e i eventID ty k p ob = Some ob'"
  shows "outbox_safe topic ob' (sent @ [last (ob_rows ob')])"
  using assms(2)
proof (rule InsertEvent_SomeD)
  fix u
  assume "ob_rows ob' = ob_rows ob @ [new_row e (ob_next ob) u ty k p]"
  then have "waiting ob' = waiting ob @ [last (ob_rows ob')]"
    by (simp add: waiting_def new_row_def)
  with assms InsertEvent_inv show ?thesis by (auto simp: outbox_safe_def)
qed

lemma CleanupPublished_waiting: "waiting (fst (CleanupPublished e retention ob)) = waiting ob"
proof -
  have "filter (\<lambda>r. o_published_at r = None) (filter (\<lambda>r. \<not> cleanup_candidate e retention r) xs)
      = filter (\<lambda>r. o_published_at r = None) xs" for xs :: "'a outbox_row list"
    by (induction xs) (auto simp: cleanup_candidate_def)
  then show ?thesis by (simp add: waiting_def CleanupPublished_def fst_persist)
qed

lemma CleanupPublished_safe:
  assumes "outbox_safe topic ob sent"
  shows "outbox_safe topic (fst (CleanupPublished e retention ob)) sent"
proof -
  have "outbox_inv (fst (CleanupPublished e retention ob))"
    using assms by (auto simp: outbox_safe_def outbox_inv_def CleanupPublished_def fst_persist
        distinct_map_filter sorted_wrt_map sorted_wrt_filter)
  with assms show ?thesis by (simp add: outbox_safe_def CleanupPublished_waiting)
qed

text \<open>
  C11: at-least-once delivery. In every run, with inserts, relay passes and cleanups in any order and
  failures of Kafka, statements and commits anywhere, every event that was ever inserted is either
  accepted by the broker or still waiting in the table, unpublished; and the broker holds nothing but
  messages of inserted events.
\<close>

theorem no_event_lost:
  assumes "outbox_run rt topic ob sent"
  shows "(\<forall>r\<in>set sent. message_of r \<in> set topic \<or> r \<in> set (waiting ob)) \<and>
    set topic \<subseteq> message_of ` set sent"
proof -
  from assms have "outbox_safe topic ob sent"
  proof (induction rule: outbox_run.induct)
    case run_start
    then show ?case by (simp add: outbox_safe_def outbox_inv_def empty_outbox_def waiting_def)
  qed (simp_all add: InsertEvent_safe RelayBatch_safe CleanupPublished_safe)
  then show ?thesis by (auto simp: outbox_safe_def)
qed

definition sample_outbox :: "string kafka_message list \<times> string outbox_table" where
  "sample_outbox =
     (let e = calm 5 (\<lambda>_. []);
          ob1 = the (InsertEvent plain_runtime e 0 ''e1'' ''T'' ''k'' ''p1'' empty_outbox);
          ob2 = the (InsertEvent plain_runtime e 0 ''e2'' ''T'' ''k'' ''p2'' ob1)
      in RelayBatch e (\<lambda>i. if i = 1 then Lost else NoFault) (\<lambda>_. False) 10 ([], ob2))"

theorem no_event_lost_witness:
  "\<exists>topic ob sent. outbox_run plain_runtime topic ob sent \<and> map km_value topic = [''p1''] \<and>
     map o_payload (waiting ob) = [''p2''] \<and> map o_payload sent = [''p1'', ''p2''] \<and>
     set topic \<subseteq> message_of ` set sent"
proof -
  define e where "e = calm 5 (\<lambda>_. [])"
  define ob1 where "ob1 = the (InsertEvent plain_runtime e 0 ''e1'' ''T'' ''k'' ''p1'' empty_outbox)"
  define ob2 where "ob2 = the (InsertEvent plain_runtime e 0 ''e2'' ''T'' ''k'' ''p2'' ob1)"
  have 1: "InsertEvent plain_runtime e 0 ''e1'' ''T'' ''k'' ''p1'' empty_outbox = Some ob1"
    by (simp add: ob1_def e_def InsertEvent_def empty_outbox_def)
  have 2: "InsertEvent plain_runtime e 0 ''e2'' ''T'' ''k'' ''p2'' ob1 = Some ob2"
    by (simp add: ob2_def ob1_def e_def InsertEvent_def empty_outbox_def new_row_def)
  have run: "outbox_run plain_runtime (fst sample_outbox) (snd sample_outbox)
      (([] @ [last (ob_rows ob1)]) @ [last (ob_rows ob2)])"
    by (rule run_relay [OF run_insert [OF run_insert [OF run_start 1] 2],
          where e = e and w = "\<lambda>i. if i = 1 then Lost else NoFault" and locked = "\<lambda>_. False" and b = 10])
      (simp add: sample_outbox_def Let_def ob2_def ob1_def e_def)
  have "map km_value (fst sample_outbox) = [''p1'']" "map o_payload (waiting (snd sample_outbox)) = [''p2'']"
    by code_simp+
  moreover have "map o_payload (([] @ [last (ob_rows ob1)]) @ [last (ob_rows ob2)]) = [''p1'', ''p2'']"
    unfolding ob2_def ob1_def e_def by code_simp
  ultimately show ?thesis using run no_event_lost [OF run] by (intro exI conjI) (assumption | blast)+
qed

subsection \<open>Every event is delivered\<close>

fun relay_passes ::
  "(nat \<Rightarrow> env) \<Rightarrow> nat \<Rightarrow> nat \<Rightarrow> 'p kafka_message list \<times> 'p outbox_table \<Rightarrow> 'p kafka_message list \<times> 'p outbox_table" where
  "relay_passes es b 0 s = s"
| "relay_passes es b (Suc n) s = relay_passes es b n (RelayBatch (es n) (\<lambda>_. NoFault) (\<lambda>_. False) b s)"

lemma filter_out_taken:
  assumes "distinct (map k xs)"
  shows "filter (\<lambda>r. k r \<notin> k ` set (take n xs)) xs = drop n xs"
proof -
  have d: "k ` set (take n xs) \<inter> k ` set (drop n xs) = {}"
    using assms by (metis append_take_drop_id distinct_append map_append set_map)
  have "filter (\<lambda>r. k r \<notin> k ` set (take n xs)) (take n xs @ drop n xs) = drop n xs"
    unfolding filter_append using d by (auto simp: filter_empty_conv filter_id_conv)
  then show ?thesis by simp
qed

lemma outbox_inv_distinct: "outbox_inv ob \<Longrightarrow> distinct (map o_id (ob_rows ob))"
  by (simp add: outbox_inv_def strict_sorted_iff)

lemma RelayBatch_calm:
  assumes "outbox_inv ob" "\<And>i. \<not> fails e i"
  shows "\<exists>ob'. RelayBatch e (\<lambda>_. NoFault) (\<lambda>_. False) b (topic, ob) = (topic @ map message_of (take b (waiting ob)), ob') \<and>
    outbox_inv ob' \<and> waiting ob' = drop b (waiting ob)"
proof -
  let ?ob = "mark_rows (now e) (take b (waiting ob)) ob"
  have "claim (\<lambda>_. False) b ob = take b (waiting ob)"
    by (simp add: claim_def sorted_rows [OF assms(1)] waiting_def)
  then have "RelayBatch e (\<lambda>_. NoFault) (\<lambda>_. False) b (topic, ob) = (topic @ map message_of (take b (waiting ob)), ?ob)"
    using assms(2) by (simp add: RelayBatch_def relay_loop_calm persist_NoFault)
  moreover have "waiting ?ob = drop b (waiting ob)"
    unfolding waiting_mark_rows using outbox_inv_distinct [OF assms(1)]
    by (intro filter_out_taken) (simp add: waiting_def distinct_map_filter)
  ultimately show ?thesis using mark_rows_inv [OF assms(1)] by blast
qed

text \<open>
  C22: the relay delivers. From any table the service can reach, enough passes without failures
  (the waiting rows divided by the batch size) leave no event waiting, and add each waiting event to
  the topic exactly once, in the order of insertion.
\<close>

theorem relay_delivers:
  assumes "outbox_inv ob" "\<And>n i. \<not> fails (es n) i" "length (waiting ob) \<le> n * b"
  shows "case relay_passes es b n (topic, ob) of
     (topic', ob') \<Rightarrow> waiting ob' = [] \<and> topic' = topic @ map message_of (waiting ob)"
  using assms(1,3)
proof (induction n arbitrary: topic ob)
  case 0
  then show ?case by simp
next
  case (Suc n)
  from RelayBatch_calm [OF Suc.prems(1) assms(2)] obtain ob' where ob':
    "RelayBatch (es n) (\<lambda>_. NoFault) (\<lambda>_. False) b (topic, ob) = (topic @ map message_of (take b (waiting ob)), ob')"
    "outbox_inv ob'" "waiting ob' = drop b (waiting ob)" by blast
  have "length (waiting ob') \<le> n * b" using Suc.prems(2) ob'(3) by simp
  from Suc.IH [OF ob'(2) this, of "topic @ map message_of (take b (waiting ob))"] show ?case
    by (auto simp: ob'(1,3) append_take_drop_id simp flip: map_append split: prod.splits)
qed

theorem relay_delivers_witness:
  "map km_value (fst (relay_passes (\<lambda>_. calm 9 (\<lambda>_. [])) 1 2 ([], \<lparr>ob_next = 8, ob_rows =
     [new_row (calm 1 (\<lambda>_. [])) 3 ''e1'' ''T'' ''k'' ''p1'', new_row (calm 1 (\<lambda>_. [])) 5 ''e2'' ''T'' ''k'' ''p2'']\<rparr>)))
   = [''p1'', ''p2'']"
proof -
  let ?ob = "\<lparr>ob_next = 8, ob_rows =
     [new_row (calm 1 (\<lambda>_. [])) 3 ''e1'' ''T'' ''k'' ''p1'', new_row (calm 1 (\<lambda>_. [])) 5 ''e2'' ''T'' ''k'' ''p2'']\<rparr>"
  have "outbox_inv ?ob" "length (waiting ?ob) \<le> 2 * 1" "map o_payload (waiting ?ob) = [''p1'', ''p2'']"
    by (simp_all add: outbox_inv_def new_row_def waiting_def)
  with relay_delivers [of ?ob "\<lambda>_. calm 9 (\<lambda>_. [])" 2 1 "[]"] show ?thesis
    by (auto simp: message_of_def comp_def split: prod.splits)
qed

end
