(* ===== verification/Transfers_DB.thy ===== *)
theory Transfers_DB
  imports Outbox
begin

text \<open>
  The tables of transfers-svc (migrations 1 to 10) as rows of Go's structs, the events it publishes,
  the errors its functions return, and the service interfaces it calls. A column that only feeds
  spans (\<open>trace_context\<close>) is left out. Columns of type TEXT hold any string; the CHECK constraints
  are part of the statements that could violate them.
\<close>

subsection \<open>Rows\<close>

record Transfer =
  t_ID :: string
  t_IdempotencyKey :: string
  t_SenderAccountID :: string
  t_RecipientAccountID :: string
  t_Amount :: int
  t_Status :: string
  t_FailureReason :: "string option"
  t_LedgerTransactionID :: "string option"
  t_CreatedAt :: int
  t_UpdatedAt :: int

definition zero_Transfer :: Transfer where
  "zero_Transfer = \<lparr>t_ID = '''', t_IdempotencyKey = '''', t_SenderAccountID = '''', t_RecipientAccountID = '''',
     t_Amount = 0, t_Status = '''', t_FailureReason = None, t_LedgerTransactionID = None, t_CreatedAt = 0, t_UpdatedAt = 0\<rparr>"

record Deposit =
  d_ID :: string
  d_AccountID :: string
  d_Amount :: int
  d_Currency :: string
  d_Status :: string
  d_StripePaymentIntentID :: "string option"
  d_LedgerTransactionID :: "string option"
  d_FailureReason :: "string option"
  d_CreatedAt :: int
  d_UpdatedAt :: int

record Withdrawal =
  w_ID :: string
  w_AccountID :: string
  w_Amount :: int
  w_Status :: string
  w_LedgerTransactionID :: "string option"
  w_FailureReason :: "string option"
  w_CreatedAt :: int
  w_UpdatedAt :: int

datatype event =
    TransferCompleted (ev_EventId: string) (ev_TransferId: string) (ev_SenderAccountId: string)
      (ev_RecipientAccountId: string) (ev_Amount: int) (ev_LedgerTransactionId: string) (ev_OccurredAt: int)
  | TransferFailed (ev_EventId: string) (ev_TransferId: string) (ev_SenderAccountId: string)
      (ev_RecipientAccountId: string) (ev_Amount: int) (ev_Reason: string) (ev_OccurredAt: int)
  | TransferRejected (ev_EventId: string) (ev_TransferId: string) (ev_SenderAccountId: string)
      (ev_RecipientAccountId: string) (ev_Amount: int) (ev_TriggeredRule: string) (ev_OccurredAt: int)
  | DepositCredited (ev_EventId: string) (ev_DepositId: string) (ev_AccountId: string)
      (ev_Amount: int) (ev_LedgerTransactionId: string) (ev_OccurredAt: int)

record transfers_db =
  transfers :: "Transfer list"
  outbox :: "event outbox_table"
  deposits :: "Deposit list"
  processed_stripe_events :: "(string \<times> string) list"
  withdrawals :: "Withdrawal list"

definition migrated_transfers :: transfers_db where
  "migrated_transfers = \<lparr>transfers = [], outbox = empty_outbox, deposits = [], processed_stripe_events = [], withdrawals = []\<rparr>"

subsection \<open>Errors and clients\<close>

datatype svc_error = ErrStatement | ErrCall codes | ErrInvalidCursor | ErrDuplicateStripeEvent | ErrPayload

text \<open>\<open>accountsv1.AccountsServiceClient\<close>, as transfers-svc uses it: the account id and the status of the response,
  and from \<open>ResolveAccountsByIds\<close> pairs of account id and IBAN.\<close>

record account_ref =
  ar_AccountId :: string
  ar_Status :: string

record 'a accounts_client =
  ac_ResolveAccountByIban :: "nat \<Rightarrow> string \<Rightarrow> string \<Rightarrow> 'a \<Rightarrow> 'a \<times> (grpc_status + account_ref)"
  ac_GetAccountByID :: "nat \<Rightarrow> string \<Rightarrow> 'a \<Rightarrow> 'a \<times> (grpc_status + account_ref)"
  ac_GetAccountByUserID :: "nat \<Rightarrow> string \<Rightarrow> 'a \<Rightarrow> 'a \<times> (grpc_status + account_ref)"
  ac_ResolveAccountsByIds :: "nat \<Rightarrow> string list \<Rightarrow> 'a \<Rightarrow> 'a \<times> (grpc_status + (string \<times> string) list)"

text \<open>\<open>fraudv1.FraudServiceClient\<close>.\<close>

record CheckTransferResponse =
  cr_Decision :: string
  cr_TriggeredRule :: string

record 'f fraud_client =
  fc_CheckTransfer :: "nat \<Rightarrow> string \<Rightarrow> string \<Rightarrow> int \<Rightarrow> 'f \<Rightarrow> 'f \<times> (grpc_status + CheckTransferResponse)"

definition accountStatusActive :: string where "accountStatusActive = ''active''"
definition accountStatusClosed :: string where "accountStatusClosed = ''closed''"

end
