(* ===== verification/Ledger.thy ===== *)
theory Ledger
  imports Prelude "HOL-Library.Monad_Syntax"
begin

text \<open>
  services/ledger-svc/ledger.go: the append-only double-entry log and its balance cache.

  A \<open>ledger_db\<close> holds the three tables. A column of type uuid holds canonical text, so binding a
  string to it goes through \<open>uuid_in\<close>, and a malformed string is an error of the statement.
  \<open>account_balances\<close> maps the primary key to the balance; its column \<open>updated_at\<close> is written and
  never read, and is left out. Each operation takes the environment of its call and returns the new
  database with Go's results: \<open>Inl\<close> the error, \<open>Inr\<close> the values returned with a nil error. A
  transaction works on its own copy of the database, which becomes the new one when \<open>tx.Commit\<close>
  succeeds, and is dropped by the deferred \<open>tx.Rollback\<close> on every other path. Statement sites are
  numbered from 0 in the order of the source.
\<close>

subsection \<open>Tables\<close>

record ledger_account_row =
  la_id :: string
  la_account_id :: string
  la_created_at :: int

record entry_row =
  e_id :: string
  e_transaction_id :: string
  e_ledger_account_id :: string
  e_amount :: int
  e_reference :: "string option"
  e_created_at :: int

record ledger_db =
  ledger_accounts :: "ledger_account_row list"
  entries :: "entry_row list"
  account_balances :: "string \<rightharpoonup> int"

datatype ledger_error = ErrDB | ErrLedgerAccountNotFound | ErrInvalidPagination

definition genesisAccountID :: string where
  "genesisAccountID = ''00000000-0000-0000-0000-000000000001''"

text \<open>The database after the migrations: no account but the genesis account.\<close>

definition migrated_ledger :: ledger_db where
  "migrated_ledger = \<lparr>ledger_accounts = [\<lparr>la_id = genesisAccountID, la_account_id = genesisAccountID, la_created_at = 0\<rparr>],
     entries = [], account_balances = Map.empty\<rparr>"

subsection \<open>Statements\<close>

definition find_account :: "ledger_db \<Rightarrow> string \<Rightarrow> ledger_account_row option" where
  "find_account db u = find (\<lambda>la. la_account_id la = u) (ledger_accounts db)"

definition sum_entries :: "entry_row list \<Rightarrow> string \<Rightarrow> int" where
  "sum_entries es lid = sum_list (map e_amount (filter (\<lambda>x. e_ledger_account_id x = lid) es))"

text \<open>The cast \<open>::bigint\<close> of a numeric sum, and addition of BIGINT values: out of range is an error.\<close>

definition bigint :: "int \<Rightarrow> int option" where
  "bigint x = (if in_int64 x then Some x else None)"

definition guard_ok :: "env \<Rightarrow> nat \<Rightarrow> unit option" where
  "guard_ok e i = (if fails e i then None else Some ())"

definition insert_entry ::
  "env \<Rightarrow> nat \<Rightarrow> string \<Rightarrow> string \<Rightarrow> int \<Rightarrow> string option \<Rightarrow> ledger_db \<Rightarrow> ledger_db option" where
  "insert_entry e g txid lid amount ref db =
     (if gen_random_uuid e g \<in> e_id ` set (entries db) then None
      else Some (db\<lparr>entries := entries db @
        [\<lparr>e_id = gen_random_uuid e g, e_transaction_id = txid, e_ledger_account_id = lid,
          e_amount = amount, e_reference = ref, e_created_at = now e\<rparr>]\<rparr>))"

definition applyBalanceDelta :: "string \<Rightarrow> int \<Rightarrow> ledger_db \<Rightarrow> ledger_db option" where
  "applyBalanceDelta lid delta db =
     (case account_balances db lid of
        None \<Rightarrow> Some (db\<lparr>account_balances := (account_balances db)(lid \<mapsto> delta)\<rparr>)
      | Some b \<Rightarrow> map_option (\<lambda>b'. db\<lparr>account_balances := (account_balances db)(lid \<mapsto> b')\<rparr>) (bigint (b + delta)))"

subsection \<open>Reads\<close>

definition getBalance :: "runtime \<Rightarrow> env \<Rightarrow> ledger_db \<Rightarrow> string \<Rightarrow> ledger_error + int" where
  "getBalance rt e db accountID =
     (if fails e 0 then Inl ErrDB
      else case uuid_in rt accountID of
        None \<Rightarrow> Inl ErrDB
      | Some u \<Rightarrow>
          (case find_account db u of
             None \<Rightarrow> Inl ErrLedgerAccountNotFound
           | Some la \<Rightarrow> Inr (case account_balances db (la_id la) of None \<Rightarrow> 0 | Some b \<Rightarrow> b)))"

record LedgerEntry =
  le_TransactionID :: string
  le_Amount :: int
  le_CreatedAt :: int

definition entry_key :: "entry_row \<Rightarrow> int \<times> string" where
  "entry_key x = (e_created_at x, e_id x)"

definition account_entries :: "ledger_db \<Rightarrow> string \<Rightarrow> entry_row list" where
  "account_entries db lid = filter (\<lambda>x. e_ledger_account_id x = lid) (entries db)"

definition to_LedgerEntry :: "entry_row \<Rightarrow> LedgerEntry" where
  "to_LedgerEntry x = \<lparr>le_TransactionID = e_transaction_id x, le_Amount = e_amount x, le_CreatedAt = e_created_at x\<rparr>"

definition getHistory ::
  "runtime \<Rightarrow> env \<Rightarrow> ledger_db \<Rightarrow> string \<Rightarrow> int \<Rightarrow> int \<Rightarrow> ledger_error + LedgerEntry list" where
  "getHistory rt e db accountID limit offset =
     (if limit \<le> 0 then Inl ErrInvalidPagination
      else if offset < 0 then Inl ErrInvalidPagination
      else if fails e 0 then Inl ErrDB
      else case uuid_in rt accountID of
        None \<Rightarrow> Inl ErrDB
      | Some u \<Rightarrow>
          (case find_account db u of
             None \<Rightarrow> Inl ErrLedgerAccountNotFound
           | Some la \<Rightarrow>
               if fails e 1 then Inl ErrDB
               else Inr (map to_LedgerEntry
                 (take (nat limit) (drop (nat offset) (sort_desc entry_key (account_entries db (la_id la))))))))"

record BalancePoint =
  bp_Date :: int
  bp_Balance :: int

definition day_us :: int where
  "day_us = 24 * 60 * 60 * 1000000"

definition day_of :: "int \<Rightarrow> int" where
  "day_of t = t div day_us"

text \<open>\<open>GROUP BY 1 ORDER BY 1\<close>: one row per day with its sum, oldest first; a sum outside BIGINT is an error.\<close>

definition daily_deltas :: "entry_row list \<Rightarrow> (int \<times> int) list option" where
  "daily_deltas es =
     (let rows = map (\<lambda>d. (d, sum_list (map e_amount (filter (\<lambda>x. day_of (e_created_at x) = d) es))))
                     (sorted_list_of_set ((day_of \<circ> e_created_at) ` set es))
      in if list_all (in_int64 \<circ> snd) rows then Some rows else None)"

fun running_points :: "int \<Rightarrow> (int \<times> int) list \<Rightarrow> BalancePoint list" where
  "running_points running [] = []"
| "running_points running ((day, delta) # rows) =
     (let r = wrap64 (running + delta)
      in \<lparr>bp_Date = day * day_us, bp_Balance = r\<rparr> # running_points r rows)"

definition getBalanceHistory ::
  "runtime \<Rightarrow> env \<Rightarrow> ledger_db \<Rightarrow> string \<Rightarrow> int option \<Rightarrow> ledger_error + BalancePoint list" where
  "getBalanceHistory rt e db accountID from =
     (if fails e 0 then Inl ErrDB
      else case uuid_in rt accountID of
        None \<Rightarrow> Inl ErrDB
      | Some u \<Rightarrow>
          (case find_account db u of
             None \<Rightarrow> Inl ErrLedgerAccountNotFound
           | Some la \<Rightarrow>
               let es = account_entries db (la_id la) in
               (case (case from of
                        None \<Rightarrow> Some 0
                      | Some f \<Rightarrow> if fails e 1 then None
                                   else bigint (sum_list (map e_amount (filter (\<lambda>x. e_created_at x < f) es)))) of
                  None \<Rightarrow> Inl ErrDB
                | Some balanceBefore \<Rightarrow>
                    if fails e 2 then Inl ErrDB
                    else (case daily_deltas (case from of None \<Rightarrow> es | Some f \<Rightarrow> filter (\<lambda>x. f \<le> e_created_at x) es) of
                            None \<Rightarrow> Inl ErrDB
                          | Some rows \<Rightarrow>
                              Inr ((case from of
                                      None \<Rightarrow> []
                                    | Some f \<Rightarrow> [\<lparr>bp_Date = day_of f * day_us, bp_Balance = balanceBefore\<rparr>])
                                   @ running_points balanceBefore rows)))))"

definition getTransactionByReference ::
  "runtime \<Rightarrow> env \<Rightarrow> ledger_db \<Rightarrow> string \<Rightarrow> ledger_error + string option" where
  "getTransactionByReference rt e db reference =
     (if fails e 0 then Inl ErrDB
      else case uuid_in rt reference of
        None \<Rightarrow> Inl ErrDB
      | Some r \<Rightarrow> Inr (map_option e_transaction_id (find (\<lambda>x. e_reference x = Some r) (entries db))))"

subsection \<open>Writes\<close>

record LedgerAccount =
  lac_AccountID :: string
  lac_CreatedAt :: int

definition createLedgerAccount ::
  "runtime \<Rightarrow> env \<Rightarrow> ledger_db \<Rightarrow> string \<Rightarrow> ledger_db \<times> (ledger_error + LedgerAccount)" where
  "createLedgerAccount rt e db accountID =
     (case uuid_in rt accountID of
        None \<Rightarrow> (db, Inl ErrDB)
      | Some u \<Rightarrow>
          (case find_account db u of
             Some la \<Rightarrow> persist e 0 db db ErrDB \<lparr>lac_AccountID = la_account_id la, lac_CreatedAt = la_created_at la\<rparr>
           | None \<Rightarrow>
               if gen_random_uuid e 0 \<in> la_id ` set (ledger_accounts db) then (db, Inl ErrDB)
               else persist e 0 db
                 (db\<lparr>ledger_accounts := ledger_accounts db @
                    [\<lparr>la_id = gen_random_uuid e 0, la_account_id = u, la_created_at = now e\<rparr>]\<rparr>)
                 ErrDB \<lparr>lac_AccountID = u, lac_CreatedAt = now e\<rparr>))"

definition lockLedgerAccount ::
  "runtime \<Rightarrow> env \<Rightarrow> nat \<Rightarrow> ledger_db \<Rightarrow> string \<Rightarrow> ledger_error + string option" where
  "lockLedgerAccount rt e i db accountID =
     (if fails e i then Inl ErrDB
      else case uuid_in rt accountID of
        None \<Rightarrow> Inl ErrDB
      | Some u \<Rightarrow> Inr (map_option la_id (find_account db u)))"

definition rebuildBalance ::
  "runtime \<Rightarrow> env \<Rightarrow> ledger_db \<Rightarrow> string \<Rightarrow> ledger_db \<times> (ledger_error + int)" where
  "rebuildBalance rt e db accountID =
     (if fails e 0 then (db, Inl ErrDB)
      else case lockLedgerAccount rt e 1 db accountID of
        Inl err \<Rightarrow> (db, Inl err)
      | Inr None \<Rightarrow> (db, Inl ErrLedgerAccountNotFound)
      | Inr (Some lid) \<Rightarrow>
          if fails e 2 then (db, Inl ErrDB)
          else (case bigint (sum_entries (entries db) lid) of
                  None \<Rightarrow> (db, Inl ErrDB)
                | Some balance \<Rightarrow>
                    if fails e 3 then (db, Inl ErrDB)
                    else persist e 4 db (db\<lparr>account_balances := (account_balances db)(lid \<mapsto> balance)\<rparr>)
                           ErrDB balance))"

text \<open>
  The loop that locks the two rows in ascending order of their lower-case account ids: the
  outcome is an error, the first id without a row, or the map \<open>locked\<close>.
\<close>

fun lock_loop ::
  "runtime \<Rightarrow> env \<Rightarrow> nat \<Rightarrow> ledger_db \<Rightarrow> string list \<Rightarrow> (string \<rightharpoonup> string)
   \<Rightarrow> ledger_error + (string + (string \<rightharpoonup> string))" where
  "lock_loop rt e i db [] locked = Inr (Inr locked)"
| "lock_loop rt e i db (accountID # rest) locked =
     (case lockLedgerAccount rt e i db accountID of
        Inl err \<Rightarrow> Inl err
      | Inr None \<Rightarrow> Inr (Inl accountID)
      | Inr (Some lid) \<Rightarrow> lock_loop rt e (Suc i) db rest (locked(accountID \<mapsto> lid)))"

definition lock_order :: "runtime \<Rightarrow> string \<Rightarrow> string \<Rightarrow> string list" where
  "lock_order rt fromAccountID toAccountID =
     (if ToLower rt toAccountID < ToLower rt fromAccountID then [toAccountID, fromAccountID]
      else [fromAccountID, toAccountID])"

text \<open>Reading the Go map: a missing key would give the empty string.\<close>

definition locked_id :: "(string \<rightharpoonup> string) \<Rightarrow> string \<Rightarrow> string" where
  "locked_id locked a = (case locked a of None \<Rightarrow> '''' | Some l \<Rightarrow> l)"

definition reference_param :: "runtime \<Rightarrow> string \<Rightarrow> string option option" where
  "reference_param rt reference =
     (if reference = '''' then Some None else map_option Some (uuid_in rt reference))"

text \<open>
  The part both posting functions share after the locks: debit entry, credit entry, the two cache
  updates, each a statement of the transaction (sites \<open>k\<close> to \<open>k + 3\<close>).
\<close>

definition post_entries ::
  "runtime \<Rightarrow> env \<Rightarrow> nat \<Rightarrow> ledger_db \<Rightarrow> string \<Rightarrow> string \<Rightarrow> int \<Rightarrow> string \<Rightarrow> (string \<times> ledger_db) option" where
  "post_entries rt e k db fromLid toLid amount reference =
     do {
       guard_ok e k;
       ref \<leftarrow> reference_param rt reference;
       let txid = gen_random_uuid e 0;
       db1 \<leftarrow> insert_entry e 1 txid fromLid (- amount) ref db;
       guard_ok e (k + 1);
       db2 \<leftarrow> insert_entry e 2 txid toLid amount ref db1;
       guard_ok e (k + 2);
       db3 \<leftarrow> applyBalanceDelta fromLid (- amount) db2;
       guard_ok e (k + 3);
       db4 \<leftarrow> applyBalanceDelta toLid amount db3;
       Some (txid, db4)
     }"

datatype transferOutcome = TransferOK | TransferInvalidAmount | TransferFromAccountNotFound
  | TransferToAccountNotFound | TransferInsufficientFunds

fun transferOutcome_String :: "transferOutcome \<Rightarrow> string" where
  "transferOutcome_String TransferOK = ''posted''"
| "transferOutcome_String TransferInvalidAmount = ''invalid_amount''"
| "transferOutcome_String TransferFromAccountNotFound = ''from_account_not_found''"
| "transferOutcome_String TransferToAccountNotFound = ''to_account_not_found''"
| "transferOutcome_String TransferInsufficientFunds = ''insufficient_funds''"

definition executeTransfer ::
  "runtime \<Rightarrow> env \<Rightarrow> ledger_db \<Rightarrow> string \<Rightarrow> string \<Rightarrow> int \<Rightarrow> string
   \<Rightarrow> ledger_db \<times> (ledger_error + string \<times> transferOutcome)" where
  "executeTransfer rt e db fromAccountID toAccountID amount reference =
     (if amount \<le> 0 then (db, Inr ('''', TransferInvalidAmount))
      else if fails e 0 then (db, Inl ErrDB)
      else case lock_loop rt e 1 db (lock_order rt fromAccountID toAccountID) Map.empty of
        Inl err \<Rightarrow> (db, Inl err)
      | Inr (Inl missing) \<Rightarrow>
          (db, Inr ('''', if missing = fromAccountID then TransferFromAccountNotFound else TransferToAccountNotFound))
      | Inr (Inr locked) \<Rightarrow>
          let fromLid = locked_id locked fromAccountID; toLid = locked_id locked toAccountID in
          if fails e 3 then (db, Inl ErrDB)
          else (case bigint (sum_entries (entries db) fromLid) of
                  None \<Rightarrow> (db, Inl ErrDB)
                | Some fromBalance \<Rightarrow>
                    if fromBalance < amount then (db, Inr ('''', TransferInsufficientFunds))
                    else (case post_entries rt e 4 db fromLid toLid amount reference of
                            None \<Rightarrow> (db, Inl ErrDB)
                          | Some (txid, db') \<Rightarrow> persist e 8 db db' ErrDB (txid, TransferOK))))"

datatype depositOutcome = DepositOK | DepositInvalidAmount | DepositAccountNotFound

definition postUncheckedTransfer ::
  "runtime \<Rightarrow> env \<Rightarrow> ledger_db \<Rightarrow> string \<Rightarrow> string \<Rightarrow> int \<Rightarrow> string
   \<Rightarrow> ledger_db \<times> (ledger_error + string \<times> depositOutcome)" where
  "postUncheckedTransfer rt e db fromAccountID toAccountID amount reference =
     (if amount \<le> 0 then (db, Inr ('''', DepositInvalidAmount))
      else if fails e 0 then (db, Inl ErrDB)
      else
       (let post =
          (case lock_loop rt e 3 db (lock_order rt fromAccountID toAccountID) Map.empty of
             Inl err \<Rightarrow> (db, Inl err)
           | Inr (Inl missing) \<Rightarrow> (db, Inr ('''', DepositAccountNotFound))
           | Inr (Inr locked) \<Rightarrow>
               (case post_entries rt e 5 db (locked_id locked fromAccountID) (locked_id locked toAccountID) amount reference of
                  None \<Rightarrow> (db, Inl ErrDB)
                | Some (txid, db') \<Rightarrow> persist e 9 db db' ErrDB (txid, DepositOK)))
        in
        if reference = '''' then post
        else if fails e 1 then (db, Inl ErrDB)
        else if fails e 2 then (db, Inl ErrDB)
        else (case uuid_in rt reference of
                None \<Rightarrow> (db, Inl ErrDB)
              | Some r \<Rightarrow>
                  (case find (\<lambda>x. e_reference x = Some r) (entries db) of
                     Some x \<Rightarrow> (db, Inr (e_transaction_id x, DepositOK))
                   | None \<Rightarrow> post))))"

definition deposit ::
  "runtime \<Rightarrow> env \<Rightarrow> ledger_db \<Rightarrow> string \<Rightarrow> int \<Rightarrow> string \<Rightarrow> ledger_db \<times> (ledger_error + string \<times> depositOutcome)" where
  "deposit rt e db toAccountID amount reference =
     postUncheckedTransfer rt e db genesisAccountID toAccountID amount reference"

definition reverseDeposit ::
  "runtime \<Rightarrow> env \<Rightarrow> ledger_db \<Rightarrow> string \<Rightarrow> int \<Rightarrow> string \<Rightarrow> ledger_db \<times> (ledger_error + string \<times> depositOutcome)" where
  "reverseDeposit rt e db fromAccountID amount reference =
     postUncheckedTransfer rt e db fromAccountID genesisAccountID amount reference"

subsection \<open>Sums over the log\<close>

definition tx_sum :: "entry_row list \<Rightarrow> string \<Rightarrow> int" where
  "tx_sum es t = sum_list (map e_amount (filter (\<lambda>x. e_transaction_id x = t) es))"

definition cached :: "ledger_db \<Rightarrow> string \<Rightarrow> int" where
  "cached db l = (case account_balances db l of None \<Rightarrow> 0 | Some b \<Rightarrow> b)"

lemma sum_entries_Nil [simp]: "sum_entries [] l = 0"
  by (simp add: sum_entries_def)

lemma sum_entries_snoc [simp]:
  "sum_entries (es @ [x]) l = sum_entries es l + (if e_ledger_account_id x = l then e_amount x else 0)"
  by (simp add: sum_entries_def)

lemma sum_entries_append: "sum_entries (es @ fs) l = sum_entries es l + sum_entries fs l"
  by (simp add: sum_entries_def)

lemma sum_entries_Cons [simp]:
  "sum_entries (x # es) l = (if e_ledger_account_id x = l then e_amount x else 0) + sum_entries es l"
  by (simp add: sum_entries_def)

lemma tx_sum_simps [simp]:
  "tx_sum [] t = 0"
  "tx_sum (x # es) t = (if e_transaction_id x = t then e_amount x else 0) + tx_sum es t"
  "tx_sum (es @ fs) t = tx_sum es t + tx_sum fs t"
  by (simp_all add: tx_sum_def)

lemma sum_entries_outside: "l \<notin> e_ledger_account_id ` set es \<Longrightarrow> sum_entries es l = 0"
  by (induction es) auto

subsection \<open>What a posting does\<close>

text \<open>
  \<open>posted e fl tol a ref db db'\<close>: from \<open>db\<close> to \<open>db'\<close> exactly one balanced pair of entries is added to
  the log and the cache moves with it.
\<close>

definition pair_entries :: "env \<Rightarrow> string \<Rightarrow> string \<Rightarrow> int \<Rightarrow> string option \<Rightarrow> entry_row list" where
  "pair_entries e fl tol a ref =
     [\<lparr>e_id = gen_random_uuid e 1, e_transaction_id = gen_random_uuid e 0, e_ledger_account_id = fl,
       e_amount = - a, e_reference = ref, e_created_at = now e\<rparr>,
      \<lparr>e_id = gen_random_uuid e 2, e_transaction_id = gen_random_uuid e 0, e_ledger_account_id = tol,
       e_amount = a, e_reference = ref, e_created_at = now e\<rparr>]"

definition posted :: "env \<Rightarrow> string \<Rightarrow> string \<Rightarrow> int \<Rightarrow> string option \<Rightarrow> ledger_db \<Rightarrow> ledger_db \<Rightarrow> bool" where
  "posted e fl tol a ref db db' \<longleftrightarrow>
     ledger_accounts db' = ledger_accounts db \<and>
     entries db' = entries db @ pair_entries e fl tol a ref \<and>
     distinct (map e_id (pair_entries e fl tol a ref)) \<and>
     e_id ` set (pair_entries e fl tol a ref) \<inter> e_id ` set (entries db) = {} \<and>
     (\<forall>l. cached db' l = cached db l + sum_entries (pair_entries e fl tol a ref) l) \<and>
     (in_int64 a \<longrightarrow> in_int64 (- a) \<longrightarrow> (\<forall>l. in_int64 (cached db l)) \<longrightarrow> (\<forall>l. in_int64 (cached db' l)))"

lemma applyBalanceDelta_SomeD:
  assumes "applyBalanceDelta l d db = Some db'"
  shows "ledger_accounts db' = ledger_accounts db" "entries db' = entries db"
    "\<And>m. cached db' m = cached db m + (if m = l then d else 0)"
    "in_int64 d \<Longrightarrow> (\<forall>m. in_int64 (cached db m)) \<Longrightarrow> in_int64 (cached db' m)"
  using assms
  by (auto simp: applyBalanceDelta_def cached_def bigint_def split: option.splits if_splits)

lemma insert_entry_SomeD:
  assumes "insert_entry e g t l a ref db = Some db'"
  shows "ledger_accounts db' = ledger_accounts db" "account_balances db' = account_balances db"
    "entries db' = entries db @ [\<lparr>e_id = gen_random_uuid e g, e_transaction_id = t,
       e_ledger_account_id = l, e_amount = a, e_reference = ref, e_created_at = now e\<rparr>]"
    "gen_random_uuid e g \<notin> e_id ` set (entries db)"
  using assms by (auto simp: insert_entry_def split: if_splits)

lemma post_entries_SomeE:
  assumes "post_entries rt e k db fl tol a reference = Some (txid, db')"
  obtains ref where "reference_param rt reference = Some ref" "txid = gen_random_uuid e 0"
    "posted e fl tol a ref db db'"
proof -
  from assms obtain ref db1 db2 db3 where ref: "reference_param rt reference = Some ref"
    and t: "txid = gen_random_uuid e 0"
    and s1: "insert_entry e 1 txid fl (- a) ref db = Some db1"
    and s2: "insert_entry e 2 txid tol a ref db1 = Some db2"
    and s3: "applyBalanceDelta fl (- a) db2 = Some db3"
    and s4: "applyBalanceDelta tol a db3 = Some db'"
    by (auto simp: post_entries_def bind_eq_Some_conv Let_def)
  note d1 = insert_entry_SomeD [OF s1] and d2 = insert_entry_SomeD [OF s2]
    and d3 = applyBalanceDelta_SomeD [OF s3] and d4 = applyBalanceDelta_SomeD [OF s4]
  have c2: "cached db2 l = cached db l" for l
    by (simp add: cached_def d1(2) d2(2))
  have "entries db' = entries db @ pair_entries e fl tol a ref"
    by (simp add: d1(3) d2(3) d3(2) d4(2) pair_entries_def t)
  moreover have "cached db' l = cached db l + sum_entries (pair_entries e fl tol a ref) l" for l
    by (auto simp: d3(3) d4(3) c2 pair_entries_def)
  moreover have "gen_random_uuid e 2 \<notin> insert (gen_random_uuid e 1) (e_id ` set (entries db))"
    using d2(4) by (simp add: d1(3))
  moreover have "in_int64 (cached db' l)"
    if "in_int64 a" "in_int64 (- a)" "\<forall>l. in_int64 (cached db l)" for l
    using that d3(4) d4(4) c2 by metis
  ultimately have "posted e fl tol a ref db db'"
    using d1(4) by (auto simp: posted_def d1(1) d2(1) d3(1) d4(1)) (auto simp: pair_entries_def)
  with ref t show thesis by (rule that)
qed

text \<open>The ledger row a string names, as the locking query finds it.\<close>

definition account_of :: "runtime \<Rightarrow> ledger_db \<Rightarrow> string \<Rightarrow> string option" where
  "account_of rt db a = (case uuid_in rt a of None \<Rightarrow> None | Some u \<Rightarrow> map_option la_id (find_account db u))"

lemma lockLedgerAccount_Some:
  "lockLedgerAccount rt e i db a = Inr (Some l) \<Longrightarrow> account_of rt db a = Some l"
  by (auto simp: lockLedgerAccount_def account_of_def split: if_splits option.splits)

lemma lock_loop_locked:
  assumes "lock_loop rt e i db (lock_order rt f t) Map.empty = Inr (Inr locked)"
  shows "account_of rt db f = Some (locked_id locked f)" "account_of rt db t = Some (locked_id locked t)"
  using assms
  by (auto simp: lock_order_def locked_id_def split: if_splits sum.splits option.splits
      dest!: lockLedgerAccount_Some)

lemma account_of_in: "account_of rt db a = Some l \<Longrightarrow> l \<in> la_id ` set (ledger_accounts db)"
  by (auto simp: account_of_def find_account_def split: option.splits dest!: find_Some_in)

lemma executeTransfer_cases:
  assumes "executeTransfer rt e db f t a reference = (db', r)"
  obtains (unchanged) "db' = db" "\<And>tx. r \<noteq> Inr (tx, TransferOK)"
    | (posted) fl tol ref where "0 < a" "account_of rt db f = Some fl" "account_of rt db t = Some tol"
        "a \<le> sum_entries (entries db) fl" "reference_param rt reference = Some ref"
        "posted e fl tol a ref db db'"
        "r = Inr (gen_random_uuid e 0, TransferOK) \<or> r = Inl ErrDB \<and> fault_at e 8 = AppliedLost"
proof -
  consider (no) "db' = db" "\<forall>tx. r \<noteq> Inr (tx, TransferOK)"
    | (yes) locked txid db'' where "0 < a"
      "lock_loop rt e 1 db (lock_order rt f t) Map.empty = Inr (Inr locked)"
      "a \<le> sum_entries (entries db) (locked_id locked f)"
      "post_entries rt e 4 db (locked_id locked f) (locked_id locked t) a reference = Some (txid, db'')"
      "persist e 8 db db'' ErrDB (txid, TransferOK) = (db', r)"
    using assms
    by (auto simp: executeTransfer_def Let_def bigint_def not_le split: if_splits sum.splits option.splits)
  then show thesis
  proof cases
    case no
    then show ?thesis using unchanged by blast
  next
    case yes
    note l = lock_loop_locked [OF yes(2)]
    from yes(4) obtain ref where p: "reference_param rt reference = Some ref"
      "txid = gen_random_uuid e 0" "posted e (locked_id locked f) (locked_id locked t) a ref db db''"
      by (rule post_entries_SomeE)
    from yes(5) show ?thesis
    proof (cases rule: persist_cases)
      case lost
      then show ?thesis using unchanged by simp
    next
      case ok
      then show ?thesis using posted [OF yes(1) l yes(3) p(1)] p by blast
    next
      case applied
      then show ?thesis using posted [OF yes(1) l yes(3) p(1)] p by blast
    qed
  qed
qed

lemma postUncheckedTransfer_cases:
  assumes "postUncheckedTransfer rt e db f t a reference = (db', r)"
  obtains (unchanged) "db' = db" "\<And>tx. r \<noteq> Inr (tx, DepositOK)"
    | (replay) u x where "db' = db" "0 < a" "reference \<noteq> ''''" "uuid_in rt reference = Some u"
        "find (\<lambda>x. e_reference x = Some u) (entries db) = Some x" "r = Inr (e_transaction_id x, DepositOK)"
    | (posted) fl tol ref where "0 < a" "account_of rt db f = Some fl" "account_of rt db t = Some tol"
        "reference_param rt reference = Some ref"
        "\<And>u x. ref = Some u \<Longrightarrow> x \<in> set (entries db) \<Longrightarrow> e_reference x \<noteq> Some u"
        "posted e fl tol a ref db db'"
        "r = Inr (gen_random_uuid e 0, DepositOK) \<or> r = Inl ErrDB \<and> fault_at e 9 = AppliedLost"
proof -
  consider (no) "db' = db" "\<forall>tx. r \<noteq> Inr (tx, DepositOK)"
    | (rep) u x where "db' = db" "0 < a" "reference \<noteq> ''''" "uuid_in rt reference = Some u"
        "find (\<lambda>x. e_reference x = Some u) (entries db) = Some x" "r = Inr (e_transaction_id x, DepositOK)"
    | (yes) locked txid db'' where "0 < a"
      "lock_loop rt e 3 db (lock_order rt f t) Map.empty = Inr (Inr locked)"
      "post_entries rt e 5 db (locked_id locked f) (locked_id locked t) a reference = Some (txid, db'')"
      "persist e 9 db db'' ErrDB (txid, DepositOK) = (db', r)"
      "\<forall>u. reference \<noteq> '''' \<longrightarrow> uuid_in rt reference = Some u \<longrightarrow> find (\<lambda>x. e_reference x = Some u) (entries db) = None"
    using assms
    by (auto simp: postUncheckedTransfer_def Let_def not_le split: if_splits sum.splits option.splits)
  then show thesis
  proof cases
    case no
    then show ?thesis using unchanged by blast
  next
    case rep
    then show ?thesis using replay by blast
  next
    case yes
    note l = lock_loop_locked [OF yes(2)]
    from yes(3) obtain ref where p: "reference_param rt reference = Some ref"
      "txid = gen_random_uuid e 0" "posted e (locked_id locked f) (locked_id locked t) a ref db db''"
      by (rule post_entries_SomeE)
    have fresh: "e_reference x \<noteq> Some u" if "ref = Some u" "x \<in> set (entries db)" for u x
      using yes(5) p(1) that
      by (auto simp: reference_param_def find_None_in split: if_splits)
    from yes(4) show ?thesis
    proof (cases rule: persist_cases)
      case lost
      then show ?thesis using unchanged by simp
    next
      case ok
      then show ?thesis using posted [OF yes(1) l p(1) fresh] p by blast
    next
      case applied
      then show ?thesis using posted [OF yes(1) l p(1) fresh] p by blast
    qed
  qed
qed

subsection \<open>The invariant\<close>

definition ledger_keys :: "ledger_db \<Rightarrow> bool" where
  "ledger_keys db \<longleftrightarrow> distinct (map la_id (ledger_accounts db)) \<and>
     distinct (map la_account_id (ledger_accounts db)) \<and> distinct (map e_id (entries db)) \<and>
     (\<forall>x\<in>set (entries db). e_ledger_account_id x \<in> la_id ` set (ledger_accounts db))"

definition ledger_books :: "ledger_db \<Rightarrow> bool" where
  "ledger_books db \<longleftrightarrow> (\<forall>l. cached db l = sum_entries (entries db) l) \<and>
     (\<forall>t. tx_sum (entries db) t = 0) \<and> sum_list (map e_amount (entries db)) = 0 \<and>
     (\<forall>l. in_int64 (cached db l))"

definition ledger_inv :: "ledger_db \<Rightarrow> bool" where
  "ledger_inv db \<longleftrightarrow> ledger_keys db \<and> ledger_books db"

lemma posted_keeps_inv:
  assumes "ledger_inv db" "posted e fl tol a ref db db'" "0 < a" "in_int64 a"
    and "fl \<in> la_id ` set (ledger_accounts db)" "tol \<in> la_id ` set (ledger_accounts db)"
  shows "ledger_inv db'"
proof -
  have tx: "tx_sum (pair_entries e fl tol a ref) t = 0"
    "sum_list (map e_amount (pair_entries e fl tol a ref)) = 0" for t
    by (simp_all add: pair_entries_def)
  have "in_int64 (- a)" using assms(3,4) by (simp add: in_int64_def)
  with assms(1,2,4) have "\<forall>l. in_int64 (cached db' l)"
    unfolding ledger_inv_def ledger_books_def posted_def by metis
  with assms(1,2) have "ledger_books db'"
    unfolding ledger_inv_def ledger_books_def posted_def by (simp add: sum_entries_append tx)
  moreover from assms have "ledger_keys db'"
    by (auto simp: ledger_inv_def ledger_keys_def posted_def pair_entries_def)
  ultimately show ?thesis by (simp add: ledger_inv_def)
qed

lemma posted_sum: "posted e fl tol a ref db db' \<Longrightarrow>
  sum_entries (entries db') l = sum_entries (entries db) l + sum_entries (pair_entries e fl tol a ref) l"
  by (simp add: posted_def sum_entries_append)

lemma sum_pair_entries:
  "sum_entries (pair_entries e fl tol a ref) l = (if l = fl then - a else 0) + (if l = tol then a else 0)"
  by (auto simp: pair_entries_def)

lemma executeTransfer_inv:
  assumes "ledger_inv db" "in_int64 a"
  shows "ledger_inv (fst (executeTransfer rt e db f t a reference))"
proof -
  obtain db' r where x: "executeTransfer rt e db f t a reference = (db', r)" by fastforce
  then show ?thesis
  proof (cases rule: executeTransfer_cases)
    case unchanged
    with x assms show ?thesis by simp
  next
    case (posted fl tol ref)
    with x assms show ?thesis by (auto intro: posted_keeps_inv account_of_in)
  qed
qed

lemma postUncheckedTransfer_inv:
  assumes "ledger_inv db" "in_int64 a"
  shows "ledger_inv (fst (postUncheckedTransfer rt e db f t a reference))"
proof -
  obtain db' r where x: "postUncheckedTransfer rt e db f t a reference = (db', r)" by fastforce
  then show ?thesis
  proof (cases rule: postUncheckedTransfer_cases)
    case unchanged
    with x assms show ?thesis by simp
  next
    case replay
    with x assms show ?thesis by simp
  next
    case (posted fl tol ref)
    with x assms show ?thesis by (auto intro: posted_keeps_inv account_of_in)
  qed
qed

lemma createLedgerAccount_inv:
  assumes "ledger_inv db"
  shows "ledger_inv (fst (createLedgerAccount rt e db a))"
proof -
  have "ledger_inv (db\<lparr>ledger_accounts := ledger_accounts db @ [\<lparr>la_id = i, la_account_id = u, la_created_at = t\<rparr>]\<rparr>)"
    if "find_account db u = None" "i \<notin> la_id ` set (ledger_accounts db)" for u i t
    using assms that
    by (auto simp: ledger_inv_def ledger_keys_def ledger_books_def find_account_def find_None_in cached_def)
  with assms show ?thesis
    by (auto simp: createLedgerAccount_def fst_persist split: option.splits)
qed

lemma rebuildBalance_inv:
  assumes "ledger_inv db"
  shows "ledger_inv (fst (rebuildBalance rt e db a))"
proof -
  have "ledger_inv (db\<lparr>account_balances := (account_balances db)(l \<mapsto> sum_entries (entries db) l)\<rparr>)"
    if "in_int64 (sum_entries (entries db) l)" for l
    using assms that by (auto simp: ledger_inv_def ledger_keys_def ledger_books_def cached_def)
  with assms show ?thesis
    by (auto simp: rebuildBalance_def fst_persist bigint_def split: option.splits sum.splits)
qed

subsection \<open>Runs of the service\<close>

datatype ledger_op =
    OpCreate string
  | OpTransfer string string int string
  | OpDeposit string int string
  | OpReverse string int string
  | OpRebuild string

fun ledger_step :: "runtime \<Rightarrow> env \<Rightarrow> ledger_op \<Rightarrow> ledger_db \<Rightarrow> ledger_db" where
  "ledger_step rt e (OpCreate a) db = fst (createLedgerAccount rt e db a)"
| "ledger_step rt e (OpTransfer f t a ref) db = fst (executeTransfer rt e db f t a ref)"
| "ledger_step rt e (OpDeposit t a ref) db = fst (deposit rt e db t a ref)"
| "ledger_step rt e (OpReverse f a ref) db = fst (reverseDeposit rt e db f a ref)"
| "ledger_step rt e (OpRebuild a) db = fst (rebuildBalance rt e db a)"

fun op_int64 :: "ledger_op \<Rightarrow> bool" where
  "op_int64 (OpTransfer f t a ref) = in_int64 a"
| "op_int64 (OpDeposit t a ref) = in_int64 a"
| "op_int64 (OpReverse f a ref) = in_int64 a"
| "op_int64 _ = True"

fun is_reverse :: "ledger_op \<Rightarrow> bool" where
  "is_reverse (OpReverse f a ref) = True"
| "is_reverse _ = False"

text \<open>
  The states a run of the service can reach from the migrated database, with the operations that
  satisfy \<open>P\<close>, in any order, each meeting any failures.
\<close>

inductive ledger_reach :: "runtime \<Rightarrow> (ledger_op \<Rightarrow> bool) \<Rightarrow> ledger_db \<Rightarrow> bool" for rt P where
  ledger_start: "ledger_reach rt P migrated_ledger"
| ledger_next: "ledger_reach rt P db \<Longrightarrow> P op \<Longrightarrow> op_int64 op \<Longrightarrow> ledger_reach rt P (ledger_step rt e op db)"

lemma migrated_ledger_inv: "ledger_inv migrated_ledger"
  by (simp add: migrated_ledger_def ledger_inv_def ledger_keys_def ledger_books_def cached_def)

lemma ledger_step_inv: "ledger_inv db \<Longrightarrow> op_int64 op \<Longrightarrow> ledger_inv (ledger_step rt e op db)"
  by (cases op) (simp_all add: deposit_def reverseDeposit_def createLedgerAccount_inv
      executeTransfer_inv postUncheckedTransfer_inv rebuildBalance_inv)

lemma ledger_reach_inv: "ledger_reach rt P db \<Longrightarrow> ledger_inv db"
  by (induction rule: ledger_reach.induct) (simp_all add: migrated_ledger_inv ledger_step_inv)

lemma ledger_keys_id_inj:
  assumes "ledger_keys db" "la \<in> set (ledger_accounts db)" "lb \<in> set (ledger_accounts db)" "la_id la = la_id lb"
  shows "la = lb"
  using assms by (auto simp: ledger_keys_def distinct_map inj_on_def)

text \<open>The log is append-only: no step removes or changes an entry or an account.\<close>

lemma executeTransfer_append:
  "\<exists>new. entries (fst (executeTransfer rt e db f t a reference)) = entries db @ new"
proof -
  obtain db' r where x: "executeTransfer rt e db f t a reference = (db', r)" by fastforce
  then show ?thesis by (cases rule: executeTransfer_cases) (use x in \<open>simp_all add: posted_def\<close>)
qed

lemma postUncheckedTransfer_append:
  "\<exists>new. entries (fst (postUncheckedTransfer rt e db f t a reference)) = entries db @ new"
proof -
  obtain db' r where x: "postUncheckedTransfer rt e db f t a reference = (db', r)" by fastforce
  then show ?thesis by (cases rule: postUncheckedTransfer_cases) (use x in \<open>simp_all add: posted_def\<close>)
qed

lemma ledger_step_append:
  "\<exists>new. entries (ledger_step rt e op db) = entries db @ new"
  by (cases op) (simp_all add: executeTransfer_append postUncheckedTransfer_append deposit_def
      reverseDeposit_def createLedgerAccount_def rebuildBalance_def fst_persist
      split: option.splits sum.splits)

inductive ledger_later :: "runtime \<Rightarrow> ledger_db \<Rightarrow> ledger_db \<Rightarrow> bool" for rt db where
  later_refl: "ledger_later rt db db"
| later_step: "ledger_later rt db db' \<Longrightarrow> ledger_later rt db (ledger_step rt e op db')"

lemma ledger_later_append: "ledger_later rt db db' \<Longrightarrow> \<exists>new. entries db' = entries db @ new"
proof (induction rule: ledger_later.induct)
  case (later_step db' e op)
  then show ?case using ledger_step_append [of rt e op db'] by fastforce
qed simp

lemma find_append: "find p (xs @ ys) = (case find p xs of None \<Rightarrow> find p ys | Some x \<Rightarrow> Some x)"
  by (induction xs) auto

subsection \<open>No account is overdrawn\<close>

definition genesis_canonical :: "runtime \<Rightarrow> bool" where
  "genesis_canonical rt \<longleftrightarrow> uuid_in rt genesisAccountID = Some genesisAccountID"

definition solvent :: "string set \<Rightarrow> ledger_db \<Rightarrow> bool" where
  "solvent exempt db \<longleftrightarrow> (\<forall>la\<in>set (ledger_accounts db). la_account_id la \<notin> exempt \<longrightarrow>
     0 \<le> sum_entries (entries db) (la_id la))"

lemma executeTransfer_solvent:
  assumes "solvent A db"
  shows "solvent A (fst (executeTransfer rt e db f t a reference))"
proof -
  obtain db' r where x: "executeTransfer rt e db f t a reference = (db', r)" by fastforce
  then show ?thesis
  proof (cases rule: executeTransfer_cases)
    case unchanged
    with x assms show ?thesis by simp
  next
    case (posted fl tol ref)
    have "sum_entries (entries db') l = sum_entries (entries db) l + ((if l = fl then - a else 0) + (if l = tol then a else 0))" for l
      using posted_sum [OF posted(6)] by (simp add: sum_pair_entries)
    with posted x assms show ?thesis by (auto simp: solvent_def posted_def)
  qed
qed

lemma deposit_solvent:
  assumes "genesis_canonical rt" "ledger_keys db" "solvent A db" "genesisAccountID \<in> A"
  shows "solvent A (fst (deposit rt e db t a reference))"
proof -
  obtain db' r where x: "postUncheckedTransfer rt e db genesisAccountID t a reference = (db', r)" by fastforce
  then show ?thesis
  proof (cases rule: postUncheckedTransfer_cases)
    case unchanged
    with x assms show ?thesis by (simp add: deposit_def)
  next
    case replay
    with x assms show ?thesis by (simp add: deposit_def)
  next
    case (posted fl tol ref)
    from posted(2) assms(1) obtain g where g: "g \<in> set (ledger_accounts db)"
      "la_account_id g = genesisAccountID" "la_id g = fl"
      by (auto simp: account_of_def genesis_canonical_def find_account_def dest!: find_Some_in)
    have "sum_entries (entries db') l = sum_entries (entries db) l + ((if l = fl then - a else 0) + (if l = tol then a else 0))" for l
      using posted_sum [OF posted(6)] by (simp add: sum_pair_entries)
    moreover have "la_id la \<noteq> fl" if "la \<in> set (ledger_accounts db)" "la_account_id la \<notin> A" for la
      using that g assms(4) ledger_keys_id_inj [OF assms(2)] by metis
    ultimately show ?thesis
      using posted x assms(3) by (auto simp: solvent_def posted_def deposit_def)
  qed
qed

lemma createLedgerAccount_solvent:
  assumes "ledger_keys db" "solvent A db"
  shows "solvent A (fst (createLedgerAccount rt e db a))"
proof -
  have "solvent A (db\<lparr>ledger_accounts := ledger_accounts db @ [\<lparr>la_id = i, la_account_id = u, la_created_at = t\<rparr>]\<rparr>)"
    if "i \<notin> la_id ` set (ledger_accounts db)" for u i t
  proof -
    have "i \<notin> e_ledger_account_id ` set (entries db)"
      using assms(1) that by (auto simp: ledger_keys_def)
    then show ?thesis using assms(2) by (simp add: solvent_def sum_entries_outside)
  qed
  with assms show ?thesis
    by (auto simp: createLedgerAccount_def fst_persist split: option.splits)
qed

lemma rebuildBalance_solvent: "solvent A db \<Longrightarrow> solvent A (fst (rebuildBalance rt e db a))"
  by (simp add: solvent_def rebuildBalance_def fst_persist split: option.splits sum.splits)

lemma ledger_step_solvent:
  assumes "genesis_canonical rt" "ledger_keys db" "solvent A db" "genesisAccountID \<in> A" "\<not> is_reverse op"
  shows "solvent A (ledger_step rt e op db)"
  using assms
  by (cases op) (simp_all add: executeTransfer_solvent deposit_solvent createLedgerAccount_solvent
      rebuildBalance_solvent)

lemma ledger_reach_solvent:
  assumes "genesis_canonical rt" "ledger_reach rt (\<lambda>op. \<not> is_reverse op) db" "genesisAccountID \<in> A"
  shows "solvent A db"
  using assms(2)
proof (induction rule: ledger_reach.induct)
  case ledger_start
  then show ?case by (simp add: migrated_ledger_def solvent_def)
next
  case (ledger_next db op e)
  then have "ledger_keys db" using ledger_reach_inv by (auto simp: ledger_inv_def)
  with ledger_next assms(1,3) show ?case by (intro ledger_step_solvent)
qed

end
