(* ===== verification/Ledger_Properties.thy ===== *)
theory Ledger_Properties
  imports Ledger
begin

text \<open>
  What ledger.go guarantees: the books always balance and the cache agrees with the log, no account
  is overdrawn by transfers, a transfer moves exactly its amount or nothing and succeeds when its
  preconditions hold, a posting with a reference happens once, and the read operations return what
  the log says.
\<close>

subsection \<open>An example run\<close>

definition sample_ids :: "nat \<Rightarrow> nat \<Rightarrow> string" where
  "sample_ids n k = replicate (3 * n + k + 1) CHR ''u''"

definition sample_env :: "nat \<Rightarrow> env" where
  "sample_env n = calm (int n) (sample_ids n)"

text \<open>Two accounts are created, the first is funded with 100, and 30 move to the second.\<close>

definition sample_ledger :: ledger_db where
  "sample_ledger =
     ledger_step plain_runtime (sample_env 4) (OpTransfer ''a'' ''b'' 30 ''t1'')
      (ledger_step plain_runtime (sample_env 3) (OpDeposit ''a'' 100 ''d1'')
       (ledger_step plain_runtime (sample_env 2) (OpCreate ''b'')
        (ledger_step plain_runtime (sample_env 1) (OpCreate ''a'') migrated_ledger)))"

lemma sample_ledger_reach: "ledger_reach plain_runtime (\<lambda>op. \<not> is_reverse op) sample_ledger"
  unfolding sample_ledger_def
  by (intro ledger_reach.intros) (simp_all add: in_int64_def)

lemma genesis_canonical_plain [simp]: "genesis_canonical plain_runtime"
  by (simp add: genesis_canonical_def)

lemma sample_ledger_accounts:
  "map la_id (ledger_accounts sample_ledger) = [genesisAccountID, sample_ids 1 0, sample_ids 2 0]"
  by code_simp

lemma sample_ledger_sums:
  "sum_entries (entries sample_ledger) (sample_ids 1 0) = 70"
  by code_simp

subsection \<open>The books\<close>

text \<open>
  C1: in every state that ledger-svc can reach, with any operations in any order and any failures
  of statements and commits, every transaction of the log sums to zero and so does the whole log,
  the cached balance of every account equals the sum of its entries, and no balance leaves the
  64-bit range.
\<close>

theorem books_always_balance:
  assumes "ledger_reach rt P db"
  shows "(\<forall>t. tx_sum (entries db) t = 0) \<and> sum_list (map e_amount (entries db)) = 0 \<and>
    (\<forall>l. cached db l = sum_entries (entries db) l) \<and> (\<forall>l. in_int64 (cached db l))"
  using ledger_reach_inv [OF assms] unfolding ledger_inv_def ledger_books_def by blast

theorem books_always_balance_witness:
  "ledger_reach plain_runtime (\<lambda>op. \<not> is_reverse op) sample_ledger \<and>
   length (entries sample_ledger) = 4 \<and> cached sample_ledger (sample_ids 1 0) = 70"
proof -
  have "length (entries sample_ledger) = 4" by code_simp
  then show ?thesis
    using sample_ledger_reach books_always_balance [OF sample_ledger_reach] sample_ledger_sums by simp
qed

text \<open>
  C2: no sequence of account creations, transfers, deposits and rebuilds, whatever fails on the way,
  takes the balance of an account other than genesis below zero (reversals of refunded deposits are
  the one documented exception).
\<close>

theorem no_account_overdrawn:
  assumes "genesis_canonical rt" "ledger_reach rt (\<lambda>op. \<not> is_reverse op) db"
    and "getBalance rt e db accountID = Inr balance" "uuid_in rt accountID \<noteq> Some genesisAccountID"
  shows "0 \<le> balance"
proof -
  from assms(3) obtain u la where u: "uuid_in rt accountID = Some u" "find_account db u = Some la"
    and b: "balance = cached db (la_id la)"
    by (auto simp: getBalance_def cached_def split: if_splits option.splits)
  from u(2) have la: "la \<in> set (ledger_accounts db)" "la_account_id la = u"
    by (auto simp: find_account_def dest: find_Some_in)
  have "0 \<le> sum_entries (entries db) (la_id la)"
    using ledger_reach_solvent [OF assms(1,2) singletonI] la u(1) assms(4) by (auto simp: solvent_def)
  with ledger_reach_inv [OF assms(2)] b show ?thesis by (simp add: ledger_inv_def ledger_books_def)
qed

theorem no_account_overdrawn_witness:
  "getBalance plain_runtime (sample_env 5) sample_ledger ''a'' = Inr 70 \<and> (0 :: int) \<le> 70"
proof -
  have b: "getBalance plain_runtime (sample_env 5) sample_ledger ''a'' = Inr 70" by code_simp
  have "uuid_in plain_runtime ''a'' \<noteq> Some genesisAccountID" by (simp add: genesisAccountID_def)
  from no_account_overdrawn [OF genesis_canonical_plain sample_ledger_reach b this] b
  show ?thesis by simp
qed

subsection \<open>Transfers\<close>

text \<open>
  C6: what \<open>executeTransfer\<close> does on every path. A posted transfer had a positive amount covered by
  the sender's log balance, adds one debit and one credit entry with a common transaction id, and
  changes the two balances by exactly the amount and no other balance. Every refusal leaves the
  database as it was. An error leaves it as it was, or, only when the answer to the commit was lost,
  has posted the transfer.
\<close>

theorem executeTransfer_effect:
  "case executeTransfer rt e db f t a reference of (db', r) \<Rightarrow>
     let transferred = (\<exists>fl tol ref. 0 < a \<and> account_of rt db f = Some fl \<and> account_of rt db t = Some tol \<and>
           a \<le> sum_entries (entries db) fl \<and>
           entries db' = entries db @ pair_entries e fl tol a ref \<and>
           (\<forall>l. sum_entries (entries db') l = sum_entries (entries db) l
              + (if l = fl then - a else 0) + (if l = tol then a else 0)) \<and>
           ledger_accounts db' = ledger_accounts db)
     in (case r of
           Inr (tx, out) \<Rightarrow> if out = TransferOK then transferred \<and> tx = gen_random_uuid e 0 else db' = db
         | Inl err \<Rightarrow> db' = db \<or> fault_at e 8 = AppliedLost \<and> transferred)"
proof -
  obtain db' r where x: "executeTransfer rt e db f t a reference = (db', r)" by fastforce
  then show ?thesis
  proof (cases rule: executeTransfer_cases)
    case unchanged
    then show ?thesis by (auto simp: x split: sum.splits prod.splits)
  next
    case (posted fl tol ref)
    have "sum_entries (entries db') l = sum_entries (entries db) l
        + (if l = fl then - a else 0) + (if l = tol then a else 0)" for l
      using posted_sum [OF posted(6)] by (simp add: sum_pair_entries)
    moreover have "entries db' = entries db @ pair_entries e fl tol a ref"
      "ledger_accounts db' = ledger_accounts db"
      using posted(6) by (simp_all add: posted_def)
    ultimately have "\<exists>fl tol ref. 0 < a \<and> account_of rt db f = Some fl \<and> account_of rt db t = Some tol \<and>
           a \<le> sum_entries (entries db) fl \<and>
           entries db' = entries db @ pair_entries e fl tol a ref \<and>
           (\<forall>l. sum_entries (entries db') l = sum_entries (entries db) l
              + (if l = fl then - a else 0) + (if l = tol then a else 0)) \<and>
           ledger_accounts db' = ledger_accounts db"
      using posted(1-4) by blast
    with posted(7) show ?thesis by (auto simp: x Let_def)
  qed
qed

text \<open>The success path of the statements.\<close>

lemma lock_loop_succeeds:
  assumes "\<forall>i. \<not> fails e i" "account_of rt db f = Some fl" "account_of rt db t = Some tol"
  shows "\<exists>locked. lock_loop rt e i db (lock_order rt f t) Map.empty = Inr (Inr locked)
    \<and> locked_id locked f = fl \<and> locked_id locked t = tol"
proof -
  have l: "lockLedgerAccount rt e j db f = Inr (Some fl)" "lockLedgerAccount rt e j db t = Inr (Some tol)" for j
    using assms by (auto simp: lockLedgerAccount_def account_of_def split: option.splits)
  show ?thesis
    using assms(2,3) by (auto simp: lock_order_def l locked_id_def)
qed

definition fresh_entry_ids :: "env \<Rightarrow> ledger_db \<Rightarrow> bool" where
  "fresh_entry_ids e db \<longleftrightarrow> gen_random_uuid e 1 \<notin> e_id ` set (entries db) \<and>
     gen_random_uuid e 2 \<notin> e_id ` set (entries db) \<and> gen_random_uuid e 1 \<noteq> gen_random_uuid e 2"

lemma applyBalanceDelta_succeeds:
  assumes "in_int64 (cached db l + d)"
  obtains db' where "applyBalanceDelta l d db = Some db'"
  using assms by (auto simp: applyBalanceDelta_def cached_def bigint_def split: option.splits)

lemma post_entries_succeeds:
  assumes "\<forall>i. \<not> fails e i" "fresh_entry_ids e db" "reference_param rt reference = Some ref"
    and "in_int64 (cached db fl - a)"
    and "in_int64 (cached db tol + a - (if fl = tol then a else 0))"
  shows "\<exists>db'. post_entries rt e k db fl tol a reference = Some (gen_random_uuid e 0, db')"
proof -
  define tx where "tx = gen_random_uuid e 0"
  from assms(2) obtain db1 where 1: "insert_entry e 1 tx fl (- a) ref db = Some db1"
    by (auto simp: insert_entry_def fresh_entry_ids_def)
  note d1 = insert_entry_SomeD [OF 1]
  have "gen_random_uuid e 2 \<notin> e_id ` set (entries db1)"
    using assms(2) unfolding fresh_entry_ids_def by (auto simp: d1(3))
  then obtain db2 where 2: "insert_entry e 2 tx tol a ref db1 = Some db2"
    by (auto simp: insert_entry_def)
  note d2 = insert_entry_SomeD [OF 2]
  have c: "cached db2 l = cached db l" for l by (simp add: cached_def d1(2) d2(2))
  obtain db3 where 3: "applyBalanceDelta fl (- a) db2 = Some db3"
    using applyBalanceDelta_succeeds [of db2 fl "- a"] assms(4) c by auto
  have "in_int64 (cached db3 tol + a)"
    using assms(5) by (simp add: applyBalanceDelta_SomeD(3) [OF 3] c split: if_splits)
  then obtain db4 where 4: "applyBalanceDelta tol a db3 = Some db4"
    by (rule applyBalanceDelta_succeeds)
  show ?thesis
    using assms(1,3) 1 2 3 4 by (simp add: post_entries_def guard_ok_def tx_def Let_def)
qed

text \<open>
  A transfer that should succeed does: with no failure, existing accounts, a positive amount
  within the sender's balance, a well-formed reference, new entry ids and a credit that stays within
  64 bits, \<open>executeTransfer\<close> answers \<open>transferOK\<close>.
\<close>

theorem executeTransfer_succeeds:
  assumes "ledger_reach rt P db" "\<forall>i. \<not> fails e i" "fresh_entry_ids e db"
    and "account_of rt db f = Some fl" "account_of rt db t = Some tol"
    and "0 < a" "a \<le> sum_entries (entries db) fl"
    and "reference_param rt reference \<noteq> None" "in_int64 (sum_entries (entries db) tol + a)"
  shows "\<exists>db'. executeTransfer rt e db f t a reference = (db', Inr (gen_random_uuid e 0, TransferOK))"
proof -
  have inv: "cached db l = sum_entries (entries db) l" "in_int64 (sum_entries (entries db) l)" for l
    using ledger_reach_inv [OF assms(1)] by (auto simp: ledger_inv_def ledger_books_def)
  obtain ref where ref: "reference_param rt reference = Some ref" using assms(8) by blast
  obtain locked where l: "lock_loop rt e 1 db (lock_order rt f t) Map.empty = Inr (Inr locked)"
    "locked_id locked f = fl" "locked_id locked t = tol"
    using lock_loop_succeeds [OF assms(2,4,5)] by metis
  have "in_int64 (cached db fl - a)" "in_int64 (cached db tol + a - (if fl = tol then a else 0))"
    using inv(2) [of fl] assms(6,7,9) by (auto simp: inv(1) in_int64_def)
  from post_entries_succeeds [OF assms(2,3) ref this] obtain db' where
    "post_entries rt e 4 db fl tol a reference = Some (gen_random_uuid e 0, db')" by blast
  with assms(2,6,7) l inv(2) [of fl] show ?thesis
    by (simp add: executeTransfer_def bigint_def persist_NoFault)
qed

theorem executeTransfer_succeeds_witness:
  "\<exists>db'. executeTransfer plain_runtime (sample_env 6) sample_ledger ''b'' ''a'' 30 ''t2''
     = (db', Inr (gen_random_uuid (sample_env 6) 0, TransferOK))"
proof (rule executeTransfer_succeeds [OF sample_ledger_reach])
  show "\<forall>i. \<not> fails (sample_env 6) i" by (simp add: sample_env_def)
  show "fresh_entry_ids (sample_env 6) sample_ledger" by code_simp
  show "account_of plain_runtime sample_ledger ''b'' = Some (sample_ids 2 0)" by code_simp
  show "account_of plain_runtime sample_ledger ''a'' = Some (sample_ids 1 0)" by code_simp
  show "(30 :: int) \<le> sum_entries (entries sample_ledger) (sample_ids 2 0)" by code_simp
  show "in_int64 (sum_entries (entries sample_ledger) (sample_ids 1 0) + 30)"
    unfolding sample_ledger_sums by (simp add: in_int64_def)
qed (simp_all add: reference_param_def)

subsection \<open>References\<close>

definition ref_entries :: "ledger_db \<Rightarrow> string \<Rightarrow> entry_row list" where
  "ref_entries db r = filter (\<lambda>x. e_reference x = Some r) (entries db)"

lemma find_filter_hd: "find p xs = (case filter p xs of [] \<Rightarrow> None | x # _ \<Rightarrow> Some x)"
  by (induction xs) auto

lemma ref_entries_posted:
  assumes "posted e fl tol a ref db db'"
  shows "ref_entries db' r = ref_entries db r @ (if ref = Some r then pair_entries e fl tol a ref else [])"
  using assms by (simp add: posted_def ref_entries_def pair_entries_def)

text \<open>Once a reference is in the log, a posting with that reference answers the same transaction and changes nothing.\<close>

lemma postUncheckedTransfer_replays:
  assumes "find (\<lambda>x. e_reference x = Some u) (entries db) = Some x" "uuid_in rt reference = Some u"
    and "reference \<noteq> ''''" "0 < a" "\<forall>i<3. \<not> fails e i"
  shows "postUncheckedTransfer rt e db f t a reference = (db, Inr (e_transaction_id x, DepositOK))"
  using assms by (simp add: postUncheckedTransfer_def)

lemma postUncheckedTransfer_found:
  assumes "postUncheckedTransfer rt e db f t a reference = (db1, r)" "reference \<noteq> ''''"
    and "r = Inr (tx, DepositOK) \<or> db1 \<noteq> db \<and> tx = gen_random_uuid e 0"
  obtains u x where "uuid_in rt reference = Some u" "e_transaction_id x = tx"
    "find (\<lambda>x. e_reference x = Some u) (entries db1) = Some x"
  using assms(1)
proof (cases rule: postUncheckedTransfer_cases)
  case unchanged
  then show ?thesis using assms(3) by auto
next
  case (replay u x)
  then show ?thesis using assms(3) that by auto
next
  case (posted fl tol ref)
  then obtain u where u: "uuid_in rt reference = Some u" "ref = Some u"
    using assms(2) by (auto simp: reference_param_def)
  have "find (\<lambda>x. e_reference x = Some u) (entries db) = None"
    using posted(5) u(2) by (auto simp: find_None_in)
  then have "find (\<lambda>x. e_reference x = Some u) (entries db1) = Some (hd (pair_entries e fl tol a ref))"
    using posted(6) u(2) by (simp add: posted_def find_append pair_entries_def)
  moreover have "tx = gen_random_uuid e 0" using posted(7) assms(3) by auto
  ultimately show ?thesis by (intro that [OF u(1)]) (simp_all add: pair_entries_def)
qed

text \<open>
  A deposit with a reference is idempotent. Once a call has posted it (whether its answer
  arrived or was lost) or has answered it, every later call with that reference, in any later state
  of the ledger and whatever amount and account it carries, answers the same transaction id and
  leaves the database unchanged.
\<close>

theorem deposit_replay:
  assumes "deposit rt e db t a reference = (db1, r)" "reference \<noteq> ''''"
    and "r = Inr (tx, DepositOK) \<or> db1 \<noteq> db \<and> tx = gen_random_uuid e 0"
    and "ledger_later rt db1 db2" "0 < a'" "\<forall>i<3. \<not> fails e' i"
  shows "deposit rt e' db2 t' a' reference = (db2, Inr (tx, DepositOK))"
proof -
  obtain u x where x: "uuid_in rt reference = Some u" "e_transaction_id x = tx"
    "find (\<lambda>x. e_reference x = Some u) (entries db1) = Some x"
    using postUncheckedTransfer_found assms(1-3) unfolding deposit_def by metis
  moreover obtain new where "entries db2 = entries db1 @ new"
    using ledger_later_append [OF assms(4)] by blast
  ultimately have "find (\<lambda>x. e_reference x = Some u) (entries db2) = Some x"
    by (simp add: find_append)
  from postUncheckedTransfer_replays [OF this x(1) assms(2,5,6)] show ?thesis
    by (simp add: deposit_def x(2))
qed

definition funded_ledger :: ledger_db where
  "funded_ledger = ledger_step plain_runtime (sample_env 2) (OpCreate ''b'')
     (ledger_step plain_runtime (sample_env 1) (OpCreate ''a'') migrated_ledger)"

text \<open>The first call commits but its answer is lost; then 30 move on; the client tries again.\<close>

theorem deposit_replay_witness:
  "let e = (sample_env 3)\<lparr>fault_at := (\<lambda>i. if i = 9 then AppliedLost else NoFault)\<rparr>;
       first = deposit plain_runtime e funded_ledger ''a'' 100 ''d1'';
       db2 = ledger_step plain_runtime (sample_env 4) (OpTransfer ''a'' ''b'' 30 ''t1'') (fst first)
   in snd first = Inl ErrDB \<and>
      deposit plain_runtime (sample_env 5) db2 ''a'' 100 ''d1'' = (db2, Inr (sample_ids 3 0, DepositOK))"
proof -
  define e where "e = (sample_env 3)\<lparr>fault_at := (\<lambda>i. if i = 9 then AppliedLost else NoFault)\<rparr>"
  define db1 where "db1 = fst (deposit plain_runtime e funded_ledger ''a'' 100 ''d1'')"
  define db2 where "db2 = ledger_step plain_runtime (sample_env 4) (OpTransfer ''a'' ''b'' 30 ''t1'') db1"
  have s: "snd (deposit plain_runtime e funded_ledger ''a'' 100 ''d1'') = Inl ErrDB"
    unfolding e_def by code_simp
  then have d: "deposit plain_runtime e funded_ledger ''a'' 100 ''d1'' = (db1, Inl ErrDB)"
    by (simp add: db1_def prod_eq_iff)
  have "length (entries db1) = 2" "length (entries funded_ledger) = 0"
    unfolding db1_def e_def by code_simp+
  then have n: "db1 \<noteq> funded_ledger" by auto
  have g: "sample_ids 3 0 = gen_random_uuid e 0" by (simp add: e_def sample_env_def)
  have later: "ledger_later plain_runtime db1 db2"
    unfolding db2_def by (intro ledger_later.intros)
  have "deposit plain_runtime (sample_env 5) db2 ''a'' 100 ''d1'' = (db2, Inr (sample_ids 3 0, DepositOK))"
    by (rule deposit_replay [OF d _ _ later]) (use n g in \<open>auto simp: sample_env_def\<close>)
  then show ?thesis using s unfolding Let_def db2_def db1_def e_def by blast
qed

fun transfer_reference :: "ledger_op \<Rightarrow> string option" where
  "transfer_reference (OpTransfer f t a ref) = Some ref"
| "transfer_reference _ = None"

definition posted_once :: "ledger_db \<Rightarrow> string \<Rightarrow> bool" where
  "posted_once db r = (case ref_entries db r of
       [] \<Rightarrow> True
     | [x, y] \<Rightarrow> e_transaction_id x = e_transaction_id y \<and> e_amount x < 0 \<and> e_amount y = - e_amount x
     | _ \<Rightarrow> False)"

lemma postUncheckedTransfer_once:
  assumes "posted_once db r"
  shows "posted_once (fst (postUncheckedTransfer rt e db f t a reference)) r"
proof -
  obtain db' res where x: "postUncheckedTransfer rt e db f t a reference = (db', res)" by fastforce
  then show ?thesis
  proof (cases rule: postUncheckedTransfer_cases)
    case (posted fl tol ref)
    have "ref_entries db r = []" if "ref = Some r"
      using posted(5) that by (simp add: ref_entries_def filter_empty_conv)
    with assms x posted(1) ref_entries_posted [OF posted(6)] show ?thesis
      by (auto simp: posted_once_def pair_entries_def)
  qed (use x assms in simp_all)
qed

lemma executeTransfer_other_reference:
  assumes "uuid_in rt reference \<noteq> Some r"
  shows "ref_entries (fst (executeTransfer rt e db f t a reference)) r = ref_entries db r"
proof -
  obtain db' res where x: "executeTransfer rt e db f t a reference = (db', res)" by fastforce
  then show ?thesis
  proof (cases rule: executeTransfer_cases)
    case (posted fl tol ref)
    have "ref \<noteq> Some r" using posted(5) assms by (auto simp: reference_param_def split: if_splits)
    with x ref_entries_posted [OF posted(6)] show ?thesis by simp
  qed (use x in simp_all)
qed

lemma rows_only_once:
  "ref_entries (fst (createLedgerAccount rt e db a)) r = ref_entries db r"
  "ref_entries (fst (rebuildBalance rt e db a)) r = ref_entries db r"
  by (simp_all add: ref_entries_def createLedgerAccount_def rebuildBalance_def fst_persist
      split: option.splits sum.splits)

lemma ledger_step_once:
  assumes "posted_once db r" "\<And>s. transfer_reference op = Some s \<Longrightarrow> uuid_in rt s \<noteq> Some r"
  shows "posted_once (ledger_step rt e op db) r"
  using assms
proof (cases op)
  case OpTransfer
  with assms show ?thesis by (simp add: posted_once_def executeTransfer_other_reference)
next
  case OpCreate
  with assms show ?thesis by (simp add: posted_once_def rows_only_once)
next
  case OpRebuild
  with assms show ?thesis by (simp add: posted_once_def rows_only_once)
qed (simp_all add: deposit_def reverseDeposit_def postUncheckedTransfer_once)

text \<open>
  A reference that only deposits and reversals use is posted at most once in the whole history
  of the ledger: the log holds either no entry with it, or exactly one debit and one credit entry of
  one transaction.
\<close>

theorem reference_posted_once:
  assumes "ledger_reach rt (\<lambda>op. \<forall>s. transfer_reference op = Some s \<longrightarrow> uuid_in rt s \<noteq> Some r) db"
  shows "posted_once db r"
  using assms
proof (induction rule: ledger_reach.induct)
  case ledger_start
  then show ?case by (simp add: posted_once_def ref_entries_def migrated_ledger_def)
next
  case (ledger_next db op e)
  then show ?case by (intro ledger_step_once) auto
qed

theorem reference_posted_once_witness:
  "posted_once sample_ledger ''d1'' \<and> length (ref_entries sample_ledger ''d1'') = 2"
proof -
  have "ledger_reach plain_runtime
    (\<lambda>op. \<forall>s. transfer_reference op = Some s \<longrightarrow> uuid_in plain_runtime s \<noteq> Some ''d1'') sample_ledger"
    unfolding sample_ledger_def by (intro ledger_reach.intros) (simp_all add: in_int64_def)
  from reference_posted_once [OF this] show ?thesis by code_simp
qed

subsection \<open>Reads\<close>

text \<open>
  Reads and repair. Whatever the cache holds, a successful \<open>rebuildBalance\<close> returns the sum of the
  account's entries, and from then on \<open>getBalance\<close> of any spelling of that account id answers that
  sum, with the log and every other account's balance untouched.
\<close>

theorem rebuildBalance_repairs:
  assumes "rebuildBalance rt e db accountID = (db', Inr balance)"
    and "\<not> fails e' 0" "uuid_in rt spelling = uuid_in rt accountID"
  shows "\<exists>lid. account_of rt db accountID = Some lid \<and> balance = sum_entries (entries db) lid \<and>
    getBalance rt e' db' spelling = Inr balance \<and> entries db' = entries db \<and>
    (\<forall>l. l \<noteq> lid \<longrightarrow> cached db' l = cached db l)"
proof -
  from assms(1) obtain lid where l: "lockLedgerAccount rt e 1 db accountID = Inr (Some lid)"
    and b: "balance = sum_entries (entries db) lid"
    and d: "db' = db\<lparr>account_balances := (account_balances db)(lid \<mapsto> balance)\<rparr>"
    by (auto simp: rebuildBalance_def bigint_def split: if_splits sum.splits option.splits
        elim!: persist_cases)
  from lockLedgerAccount_Some [OF l] have a: "account_of rt db accountID = Some lid" .
  then have "getBalance rt e' db' spelling = Inr balance"
    using assms(2,3) by (auto simp: getBalance_def account_of_def d find_account_def split: option.splits)
  with a b d show ?thesis by (simp add: cached_def)
qed

definition drifted_ledger :: ledger_db where
  "drifted_ledger = sample_ledger\<lparr>account_balances := [sample_ids 1 0 \<mapsto> 999]\<rparr>"

theorem rebuildBalance_repairs_witness:
  "getBalance plain_runtime (sample_env 7) drifted_ledger ''a'' = Inr 999 \<and>
   getBalance plain_runtime (sample_env 8) (fst (rebuildBalance plain_runtime (sample_env 7) drifted_ledger ''a'')) ''a'' = Inr 70"
proof -
  have "snd (rebuildBalance plain_runtime (sample_env 7) drifted_ledger ''a'') = Inr 70" by code_simp
  then have "rebuildBalance plain_runtime (sample_env 7) drifted_ledger ''a'' =
      (fst (rebuildBalance plain_runtime (sample_env 7) drifted_ledger ''a''), Inr 70)"
    by (simp add: prod_eq_iff)
  from rebuildBalance_repairs [OF this, of "sample_env 8" "''a''"]
  have "getBalance plain_runtime (sample_env 8) (fst (rebuildBalance plain_runtime (sample_env 7) drifted_ledger ''a'')) ''a'' = Inr 70"
    by (auto simp: sample_env_def)
  moreover have "getBalance plain_runtime (sample_env 7) drifted_ledger ''a'' = Inr 999" by code_simp
  ultimately show ?thesis by blast
qed

lemma concat_pages:
  assumes "length xs \<le> n * k"
  shows "concat (map (\<lambda>i. take k (drop (i * k) xs)) [0..<n]) = xs"
proof -
  have "concat (map (\<lambda>i. take k (drop (i * k) xs)) [0..<m]) = take (m * k) xs" for m
  proof (induction m)
    case (Suc m)
    then show ?case using take_add [of "m * k" k xs] by (simp add: add.commute)
  qed simp
  with assms show ?thesis by simp
qed

definition right_values :: "('a + 'b list) list \<Rightarrow> 'b list" where
  "right_values rs = concat (map (\<lambda>r. case r of Inl _ \<Rightarrow> [] | Inr xs \<Rightarrow> xs) rs)"

text \<open>
  Paging through the history of an account shows every entry exactly once, newest first: asking
  for the pages at offsets 0, limit, 2 limit, ... until the pages cover the entries, and putting
  them together, gives all entries of the account in descending order of (created\_at, id).
\<close>

theorem getHistory_pages:
  assumes "account_of rt db accountID = Some lid" "\<And>i. \<not> fails e i" "0 < limit"
    and "length (account_entries db lid) \<le> n * nat limit"
  shows "right_values (map (\<lambda>i. getHistory rt e db accountID limit (int i * limit)) [0..<n])
      = map to_LedgerEntry (sort_desc entry_key (account_entries db lid)) \<and>
    sorted_wrt (\<lambda>x y. entry_key y \<le> entry_key x) (sort_desc entry_key (account_entries db lid)) \<and>
    mset (sort_desc entry_key (account_entries db lid)) = mset (account_entries db lid)"
proof -
  let ?xs = "sort_desc entry_key (account_entries db lid)"
  have "getHistory rt e db accountID limit (int i * limit)
      = Inr (map to_LedgerEntry (take (nat limit) (drop (i * nat limit) ?xs)))" for i
    using assms(1-3)
    by (auto simp: getHistory_def account_of_def nat_mult_distrib not_less [symmetric] split: option.splits)
      (simp add: mult_less_0_iff)
  then have "right_values (map (\<lambda>i. getHistory rt e db accountID limit (int i * limit)) [0..<n])
      = concat (map (\<lambda>i. map to_LedgerEntry (take (nat limit) (drop (i * nat limit) ?xs))) [0..<n])"
    by (simp add: right_values_def comp_def)
  also have "\<dots> = map to_LedgerEntry (concat (map (\<lambda>i. take (nat limit) (drop (i * nat limit) ?xs)) [0..<n]))"
    by (simp add: map_concat comp_def)
  also have "\<dots> = map to_LedgerEntry ?xs"
    using assms(4) by (simp add: concat_pages)
  finally show ?thesis by (simp add: sorted_sort_desc) (simp add: sort_desc_def)
qed

theorem getHistory_pages_witness:
  "map le_Amount (right_values (map (\<lambda>i. getHistory plain_runtime (sample_env 7) sample_ledger ''a'' 1 (int i * 1)) [0..<2])) = [-30, 100]"
proof -
  have a: "account_of plain_runtime sample_ledger ''a'' = Some (sample_ids 1 0)" by code_simp
  have l: "length (account_entries sample_ledger (sample_ids 1 0)) \<le> 2 * nat 1" by code_simp
  have "map le_Amount (map to_LedgerEntry (sort_desc entry_key (account_entries sample_ledger (sample_ids 1 0)))) = [-30, 100]"
    by code_simp
  moreover have "right_values (map (\<lambda>i. getHistory plain_runtime (sample_env 7) sample_ledger ''a'' 1 (int i * 1)) [0..<2])
      = map to_LedgerEntry (sort_desc entry_key (account_entries sample_ledger (sample_ids 1 0)))"
    using getHistory_pages [OF a _ _ l, of "sample_env 7"] by (simp add: sample_env_def)
  ultimately show ?thesis by simp
qed

lemma wrap64_add: "wrap64 (wrap64 x + y) = wrap64 (x + y)"
proof -
  have "((x + 2 ^ 63) mod 2 ^ 64 + y) mod 2 ^ 64 = (x + 2 ^ 63 + y) mod (2 ^ 64 :: int)"
    by (simp add: mod_add_left_eq)
  then show ?thesis by (simp add: wrap64_def algebra_simps)
qed

text \<open>The running total over rows whose days ascend.\<close>

lemma running_points_sound:
  assumes "sorted ds" "distinct ds" "p \<in> set (running_points b (map (\<lambda>d. (d, g d)) ds))"
  shows "\<exists>d\<in>set ds. p = \<lparr>bp_Date = d * day_us, bp_Balance = wrap64 (b + (\<Sum>x | x \<in> set ds \<and> x \<le> d. g x))\<rparr>"
  using assms
proof (induction ds arbitrary: b)
  case (Cons d ds)
  have less: "d < x" if "x \<in> set ds" for x
    using Cons.prems(1,2) that by (auto simp: less_le)
  show ?case
  proof (cases "p \<in> set (running_points (wrap64 (b + g d)) (map (\<lambda>d. (d, g d)) ds))")
    case True
    then obtain d' where d': "d' \<in> set ds"
      "p = \<lparr>bp_Date = d' * day_us, bp_Balance = wrap64 (wrap64 (b + g d) + (\<Sum>x | x \<in> set ds \<and> x \<le> d'. g x))\<rparr>"
      using Cons by force
    have "{x. x \<in> set (d # ds) \<and> x \<le> d'} = insert d {x. x \<in> set ds \<and> x \<le> d'}"
      using less [OF d'(1)] by auto
    moreover have "d \<notin> {x. x \<in> set ds \<and> x \<le> d'}" using less by auto
    ultimately have "(\<Sum>x | x \<in> set (d # ds) \<and> x \<le> d'. g x) = g d + (\<Sum>x | x \<in> set ds \<and> x \<le> d'. g x)"
      by simp
    with d' show ?thesis by (auto simp: wrap64_add ac_simps intro!: bexI [of _ d'])
  next
    case False
    then have "p = \<lparr>bp_Date = d * day_us, bp_Balance = wrap64 (b + g d)\<rparr>"
      using Cons.prems(3) by (simp add: Let_def)
    moreover have "{x. x \<in> set (d # ds) \<and> x \<le> d} = {d}" using less by force
    ultimately show ?thesis by auto
  qed
qed simp

lemma running_points_dates: "map bp_Date (running_points b rows) = map (\<lambda>r. fst r * day_us) rows"
  by (induction b rows rule: running_points.induct) (simp_all add: Let_def)

lemma sum_over_days:
  assumes "finite D"
  shows "(\<Sum>d\<in>D. sum_list (map e_amount (filter (\<lambda>x. day_of (e_created_at x) = d) es)))
    = sum_list (map e_amount (filter (\<lambda>x. day_of (e_created_at x) \<in> D) es))"
proof (induction es)
  case (Cons x es)
  let ?d = "day_of (e_created_at x)"
  have "(\<Sum>d\<in>D. sum_list (map e_amount (filter (\<lambda>x. day_of (e_created_at x) = d) (x # es))))
      = (\<Sum>d\<in>D. (if d = ?d then e_amount x else 0) + sum_list (map e_amount (filter (\<lambda>x. day_of (e_created_at x) = d) es)))"
    by (intro sum.cong) auto
  then show ?case using Cons assms by (simp add: sum.distrib sum.delta)
qed simp

lemma day_us_pos: "0 < day_us"
  by (simp add: day_us_def)

lemma day_of_mono: "a \<le> b \<Longrightarrow> day_of a \<le> day_of b"
  by (simp add: day_of_def zdiv_mono1 day_us_pos)

lemma sum_list_split: "sum_list (map f (filter p xs)) + sum_list (map f (filter (\<lambda>x. \<not> p x) xs)) = (sum_list (map f xs) :: int)"
  by (induction xs) auto

definition balance_at_end_of :: "entry_row list \<Rightarrow> int \<Rightarrow> int" where
  "balance_at_end_of es d = sum_list (map e_amount (filter (\<lambda>x. day_of (e_created_at x) \<le> d) es))"

lemma daily_deltas_points:
  assumes "daily_deltas es = Some rows" "p \<in> set (running_points b rows)"
  shows "bp_Balance p = wrap64 (b + balance_at_end_of es (bp_Date p div day_us)) \<and>
    bp_Date p div day_us \<in> (day_of \<circ> e_created_at) ` set es"
proof -
  let ?ds = "sorted_list_of_set ((day_of \<circ> e_created_at) ` set es)"
  let ?g = "\<lambda>d. sum_list (map e_amount (filter (\<lambda>x. day_of (e_created_at x) = d) es))"
  from assms have "p \<in> set (running_points b (map (\<lambda>d. (d, ?g d)) ?ds))"
    by (auto simp: daily_deltas_def Let_def split: if_splits)
  from running_points_sound [OF _ _ this] obtain d where d: "d \<in> set ?ds"
    "p = \<lparr>bp_Date = d * day_us, bp_Balance = wrap64 (b + (\<Sum>x | x \<in> set ?ds \<and> x \<le> d. ?g x))\<rparr>"
    by auto
  have "(\<Sum>x | x \<in> set ?ds \<and> x \<le> d. ?g x)
      = sum_list (map e_amount (filter (\<lambda>x. day_of (e_created_at x) \<in> {x. x \<in> set ?ds \<and> x \<le> d}) es))"
    by (intro sum_over_days) simp
  also have "\<dots> = balance_at_end_of es d"
    unfolding balance_at_end_of_def by (intro arg_cong [where f = sum_list] arg_cong [where f = "map e_amount"] filter_cong) auto
  finally show ?thesis using d day_us_pos by simp
qed

definition since :: "int option \<Rightarrow> entry_row list \<Rightarrow> entry_row list" where
  "since from es = (case from of None \<Rightarrow> es | Some f \<Rightarrow> filter (\<lambda>x. f \<le> e_created_at x) es)"

definition sum_before :: "int option \<Rightarrow> entry_row list \<Rightarrow> int" where
  "sum_before from es = (case from of None \<Rightarrow> 0 | Some f \<Rightarrow> sum_list (map e_amount (filter (\<lambda>x. e_created_at x < f) es)))"

definition opening_point :: "int option \<Rightarrow> int \<Rightarrow> BalancePoint list" where
  "opening_point from b = (case from of None \<Rightarrow> [] | Some f \<Rightarrow> [\<lparr>bp_Date = day_of f * day_us, bp_Balance = b\<rparr>])"

lemma getBalanceHistory_InrE:
  assumes "getBalanceHistory rt e db accountID from = Inr pts"
  obtains lid rows where "account_of rt db accountID = Some lid" "in_int64 (sum_before from (account_entries db lid))"
    "daily_deltas (since from (account_entries db lid)) = Some rows"
    "pts = opening_point from (sum_before from (account_entries db lid)) @ running_points (sum_before from (account_entries db lid)) rows"
  using assms
  by (cases "from") (auto simp: getBalanceHistory_def account_of_def bigint_def since_def sum_before_def opening_point_def Let_def
      split: if_splits option.splits)

lemma sum_before_since:
  assumes "x \<in> set (since from es)" "day_of (e_created_at x) \<le> d"
  shows "sum_before from es + balance_at_end_of (since from es) d = balance_at_end_of es d"
proof (cases "from")
  case None
  then show ?thesis by (simp add: sum_before_def since_def)
next
  case (Some f)
  from assms(1) Some have "f \<le> e_created_at x" by (simp add: since_def)
  from day_of_mono [OF this] assms(2) have "day_of f \<le> d" by simp
  then have before: "day_of (e_created_at y) \<le> d" if "e_created_at y < f" for y
    using day_of_mono [of "e_created_at y" f] that by simp
  let ?upto = "filter (\<lambda>x. day_of (e_created_at x) \<le> d) es"
  have 1: "filter (\<lambda>y. e_created_at y < f) ?upto = filter (\<lambda>y. e_created_at y < f) es"
    unfolding filter_filter by (rule filter_cong) (use before in auto)
  have 2: "filter (\<lambda>x. day_of (e_created_at x) \<le> d) (filter (\<lambda>x. f \<le> e_created_at x) es)
      = filter (\<lambda>y. \<not> e_created_at y < f) ?upto"
    unfolding filter_filter by (rule filter_cong) auto
  show ?thesis
    unfolding Some since_def sum_before_def balance_at_end_of_def option.case 2
    using sum_list_split [of e_amount "\<lambda>y. e_created_at y < f" ?upto] unfolding 1 .
qed

text \<open>
  the balance history. Without a start date every point, and with one every point after the
  opening one, carries the account's balance at the end of its day, computed from the log (in
  64-bit arithmetic); the opening point carries the balance before the start; and there is exactly
  one closing point for each day with entries, in ascending order.
\<close>

theorem getBalanceHistory_points:
  assumes "getBalanceHistory rt e db accountID from = Inr pts"
  shows "\<exists>lid series. account_of rt db accountID = Some lid \<and>
    pts = opening_point from (sum_before from (account_entries db lid)) @ series \<and>
    (\<forall>p\<in>set series. bp_Balance p = wrap64 (balance_at_end_of (account_entries db lid) (bp_Date p div day_us))) \<and>
    map bp_Date series = map (\<lambda>d. d * day_us)
      (sorted_list_of_set ((day_of \<circ> e_created_at) ` set (since from (account_entries db lid))))"
proof -
  from assms obtain lid rows where l: "account_of rt db accountID = Some lid"
    and rows: "daily_deltas (since from (account_entries db lid)) = Some rows"
    and pts: "pts = opening_point from (sum_before from (account_entries db lid)) @ running_points (sum_before from (account_entries db lid)) rows"
    by (rule getBalanceHistory_InrE)
  let ?es = "account_entries db lid" and ?series = "running_points (sum_before from (account_entries db lid)) rows"
  have "bp_Balance p = wrap64 (balance_at_end_of ?es (bp_Date p div day_us))" if p: "p \<in> set ?series" for p
  proof -
    note d = daily_deltas_points [OF rows p]
    then obtain x where "x \<in> set (since from ?es)" "day_of (e_created_at x) \<le> bp_Date p div day_us" by force
    from sum_before_since [OF this] d show ?thesis by simp
  qed
  moreover have "map bp_Date ?series = map (\<lambda>d. d * day_us) (sorted_list_of_set ((day_of \<circ> e_created_at) ` set (since from ?es)))"
    using rows by (auto simp: running_points_dates daily_deltas_def Let_def comp_def split: if_splits)
  ultimately show ?thesis using l pts by blast
qed

theorem getBalanceHistory_points_witness:
  "map bp_Balance (case getBalanceHistory plain_runtime (sample_env 7) sample_ledger ''a'' None of Inr pts \<Rightarrow> pts | Inl _ \<Rightarrow> []) = [70] \<and>
   (\<exists>lid. account_of plain_runtime sample_ledger ''a'' = Some lid)"
proof -
  have b: "getBalanceHistory plain_runtime (sample_env 7) sample_ledger ''a'' None = Inr [\<lparr>bp_Date = 0, bp_Balance = 70\<rparr>]"
    by code_simp
  from getBalanceHistory_points [OF this] b show ?thesis by auto
qed

end
