(* ===== verification/Iban.thy ===== *)
theory Iban
  imports Prelude
begin

text \<open>
  The package pkg/iban: generation and validation of Irish IBANs with the ISO 7064 mod-97-10 check
  digits. The theory models every function of \<open>iban.go\<close>, shows that generated IBANs validate and
  carry their parts, that one character replaced by another of its kind (in an Irish IBAN, by any other
  capital letter or digit) is found, and that display formatting
  can be undone.
\<close>

subsection \<open>Decimal numbers\<close>

definition digit_char :: "nat \<Rightarrow> char" where
  "digit_char d = char_of (48 + d)"

definition digit_val :: "char \<Rightarrow> nat" where
  "digit_val c = of_char c - 48"

fun decimal :: "nat \<Rightarrow> string" where
  "decimal n = (if n < 10 then [digit_char n] else decimal (n div 10) @ [digit_char (n mod 10)])"

declare decimal.simps [simp del]

text \<open>The same on an \<open>int\<close>, for larger numbers, and Go's \<open>%d\<close>.\<close>

function show_digits :: "int \<Rightarrow> string" where
  "show_digits i = (if i < 10 then [digit_char (nat i)] else show_digits (i div 10) @ [digit_char (nat (i mod 10))])"
  by auto
termination by (relation "measure nat") auto

declare show_digits.simps [simp del]

definition show_int :: "int \<Rightarrow> string" where
  "show_int i = (if i < 0 then CHR ''-'' # show_digits (- i) else show_digits i)"

text \<open>Go's \<open>%0wd\<close> on a number that is not negative.\<close>

definition decimal_pad :: "nat \<Rightarrow> nat \<Rightarrow> string" where
  "decimal_pad w n = (let d = decimal n in replicate (w - length d) CHR ''0'' @ d)"

definition num_of :: "string \<Rightarrow> nat" where
  "num_of s = foldl (\<lambda>a c. 10 * a + digit_val c) 0 s"

subsection \<open>iban.go\<close>

definition CountryIE :: string where
  "CountryIE = ''IE''"

definition bankCodeLength :: nat where "bankCodeLength = 4"
definition sortCodeLength :: nat where "sortCodeLength = 6"
definition bbanAccountNumberLength :: nat where "bbanAccountNumberLength = 8"
definition mod97Modulus :: nat where "mod97Modulus = 97"

definition IELength :: nat where
  "IELength = 2 + 2 + bankCodeLength + sortCodeLength + bbanAccountNumberLength"

datatype iban_error = ErrBankCode | ErrSortCode | ErrAccountNumber | ErrTooShort | ErrCountryCode
  | ErrCheckDigits | ErrCharacters | ErrIELength | ErrChecksum | ErrInvalidCharacter | ErrNotANumber

definition is_letter :: "char \<Rightarrow> bool" where
  "is_letter r \<longleftrightarrow> CHR ''A'' \<le> r \<and> r \<le> CHR ''Z''"

definition is_digit :: "char \<Rightarrow> bool" where
  "is_digit r \<longleftrightarrow> CHR ''0'' \<le> r \<and> r \<le> CHR ''9''"

definition isAllLetters :: "string \<Rightarrow> bool" where
  "isAllLetters s \<longleftrightarrow> s \<noteq> [] \<and> list_all is_letter s"

definition isAllDigits :: "string \<Rightarrow> bool" where
  "isAllDigits s \<longleftrightarrow> s \<noteq> [] \<and> list_all is_digit s"

definition isAllLettersOrDigits :: "string \<Rightarrow> bool" where
  "isAllLettersOrDigits s \<longleftrightarrow> list_all (\<lambda>r. is_letter r \<or> is_digit r) s"

fun lettersToDigits :: "string \<Rightarrow> iban_error + string" where
  "lettersToDigits [] = Inr []"
| "lettersToDigits (r # s) =
     (if is_digit r then map_sum id (\<lambda>d. r # d) (lettersToDigits s)
      else if is_letter r then map_sum id (\<lambda>d. decimal (of_char r - 65 + 10) @ d) (lettersToDigits s)
      else Inl ErrInvalidCharacter)"

text \<open>\<open>big.Int.SetString\<close> in base 10 on a string of digits; the empty string is not a number.\<close>

definition SetString :: "string \<Rightarrow> nat option" where
  "SetString s = (if isAllDigits s then Some (num_of s) else None)"

definition mod97Remainder :: "string \<Rightarrow> iban_error + nat" where
  "mod97Remainder s =
     (case lettersToDigits s of
        Inl err \<Rightarrow> Inl err
      | Inr digits \<Rightarrow>
          (case SetString digits of
             None \<Rightarrow> Inl ErrNotANumber
           | Some n \<Rightarrow> Inr (n mod mod97Modulus)))"

definition Generate :: "runtime \<Rightarrow> string \<Rightarrow> string \<Rightarrow> string \<Rightarrow> iban_error + string" where
  "Generate rt bankCode0 sortCode accountNumber =
     (let bankCode = ToUpper rt bankCode0 in
      if length bankCode \<noteq> bankCodeLength \<or> \<not> isAllLetters bankCode then Inl ErrBankCode
      else if length sortCode \<noteq> sortCodeLength \<or> \<not> isAllDigits sortCode then Inl ErrSortCode
      else if length accountNumber \<noteq> bbanAccountNumberLength \<or> \<not> isAllDigits accountNumber
      then Inl ErrAccountNumber
      else let bban = bankCode @ sortCode @ accountNumber in
           (case mod97Remainder (bban @ CountryIE @ ''00'') of
              Inl err \<Rightarrow> Inl err
            | Inr remainder \<Rightarrow> Inr (CountryIE @ decimal_pad 2 (98 - remainder) @ bban)))"

definition Normalize :: "runtime \<Rightarrow> string \<Rightarrow> string" where
  "Normalize rt s = ToUpper rt (filter (\<lambda>c. c \<noteq> CHR '' '') s)"

definition Validate :: "runtime \<Rightarrow> string \<Rightarrow> iban_error + unit" where
  "Validate rt s =
     (let n = Normalize rt s in
      if length n < 4 then Inl ErrTooShort
      else
       (let country = take 2 n; checkDigits = take 2 (drop 2 n); bban = drop 4 n in
        if \<not> isAllLetters country then Inl ErrCountryCode
        else if \<not> isAllDigits checkDigits then Inl ErrCheckDigits
        else if \<not> isAllLettersOrDigits bban then Inl ErrCharacters
        else if country = CountryIE \<and> length n \<noteq> IELength then Inl ErrIELength
        else if country = CountryIE \<and> \<not> isAllLetters (take bankCodeLength bban) then Inl ErrBankCode
        else if country = CountryIE \<and> \<not> isAllDigits (take sortCodeLength (drop bankCodeLength bban))
        then Inl ErrSortCode
        else if country = CountryIE \<and> \<not> isAllDigits (drop (bankCodeLength + sortCodeLength) bban)
        then Inl ErrAccountNumber
        else
         (case mod97Remainder (bban @ country @ checkDigits) of
            Inl err \<Rightarrow> Inl err
          | Inr remainder \<Rightarrow> if remainder \<noteq> 1 then Inl ErrChecksum else Inr ())))"

text \<open>The loop of \<open>Format\<close>: a space before every block of four but the first.\<close>

fun format_loop :: "bool \<Rightarrow> string \<Rightarrow> string" where
  "format_loop first n =
     (if n = [] then []
      else (if first then [] else '' '') @ take 4 n @ format_loop False (drop 4 n))"

declare format_loop.simps [simp del]

definition Format :: "runtime \<Rightarrow> string \<Rightarrow> string" where
  "Format rt s = format_loop True (Normalize rt s)"

subsection \<open>Characters and numbers\<close>

lemma char_le_conv: "(c :: char) \<le> d \<longleftrightarrow> (of_char c :: nat) \<le> of_char d"
  by (simp add: less_eq_char_def)

lemma is_digit_conv: "is_digit c \<longleftrightarrow> 48 \<le> (of_char c :: nat) \<and> (of_char c :: nat) \<le> 57"
  by (simp add: is_digit_def char_le_conv)

lemma is_letter_conv: "is_letter c \<longleftrightarrow> 65 \<le> (of_char c :: nat) \<and> (of_char c :: nat) \<le> 90"
  by (simp add: is_letter_def char_le_conv)

lemma of_digit_char: "d < 10 \<Longrightarrow> of_char (digit_char d) = (48 + d :: nat)"
  by (simp add: digit_char_def)

lemma is_digit_digit_char [simp]: "d < 10 \<Longrightarrow> is_digit (digit_char d)"
  by (simp add: is_digit_conv of_digit_char)

lemma digit_val_digit_char [simp]: "d < 10 \<Longrightarrow> digit_val (digit_char d) = d"
  by (simp add: digit_val_def of_digit_char)

lemma digit_not_letter: "is_digit c \<Longrightarrow> \<not> is_letter c"
  by (simp add: is_digit_conv is_letter_conv)

lemma decimal_lt10: "n < 10 \<Longrightarrow> decimal n = [digit_char n]"
  by (subst decimal.simps) simp

lemma decimal_two:
  assumes "10 \<le> n" "n < 100"
  shows "decimal n = [digit_char (n div 10), digit_char (n mod 10)]"
proof -
  from assms have "n div 10 < 10" by arith
  with assms show ?thesis by (subst decimal.simps) (simp add: decimal_lt10)
qed

lemma decimal_pad_two:
  assumes "n < 100"
  shows "decimal_pad 2 n = [digit_char (n div 10), digit_char (n mod 10)]"
proof (cases "n < 10")
  case True
  have "CHR ''0'' = digit_char 0" by code_simp
  with True show ?thesis by (simp add: decimal_pad_def decimal_lt10 Let_def)
next
  case False
  with assms show ?thesis by (simp add: decimal_pad_def decimal_two Let_def)
qed

lemma foldl_num: "foldl (\<lambda>a c. 10 * a + digit_val c) x s = x * 10 ^ length s + num_of s"
proof (induction s arbitrary: x)
  case Nil
  then show ?case by (simp add: num_of_def)
next
  case (Cons c s)
  have "num_of (c # s) = digit_val c * 10 ^ length s + num_of s"
    using Cons.IH [of "digit_val c"] by (simp add: num_of_def)
  then have "(10 * x + digit_val c) * 10 ^ length s + num_of s = x * 10 ^ length (c # s) + num_of (c # s)"
    by (simp add: algebra_simps)
  then show ?case by (simp only: foldl.simps Cons.IH)
qed

lemma num_of_append: "num_of (s @ t) = num_of s * 10 ^ length t + num_of t"
  by (metis foldl_append foldl_num num_of_def)

lemma num_of_Nil [simp]: "num_of [] = 0"
  by (simp add: num_of_def)

lemma num_of_single [simp]: "num_of [c] = digit_val c"
  by (simp add: num_of_def)

lemma num_of_two: "n < 100 \<Longrightarrow> num_of [digit_char (n div 10), digit_char (n mod 10)] = n"
  by (simp add: num_of_def)

text \<open>What a character contributes to the numeric form.\<close>

definition expand :: "char \<Rightarrow> string" where
  "expand r = (if is_digit r then [r] else decimal (of_char r - 65 + 10))"

definition numeric :: "string \<Rightarrow> nat" where
  "numeric s = num_of (concat (map expand s))"

definition width :: "string \<Rightarrow> nat" where
  "width s = length (concat (map expand s))"

lemma lettersToDigits_alnum:
  "isAllLettersOrDigits s \<Longrightarrow> lettersToDigits s = Inr (concat (map expand s))"
  by (induction s) (auto simp: isAllLettersOrDigits_def expand_def)

lemma expand_letter:
  assumes "is_letter r"
  shows "expand r = [digit_char ((of_char r - 55) div 10), digit_char ((of_char r - 55) mod 10)]"
proof -
  from assms have "of_char r - 65 + 10 = (of_char r - 55 :: nat)" "10 \<le> (of_char r - 55 :: nat)"
    "(of_char r - 55 :: nat) < 100"
    by (auto simp: is_letter_conv)
  with assms show ?thesis
    by (simp add: expand_def decimal_two digit_not_letter) (metis digit_not_letter)
qed

lemma num_of_expand_letter: "is_letter r \<Longrightarrow> num_of (expand r) = of_char r - 55"
  using num_of_two [of "of_char r - 55"] by (auto simp: expand_letter is_letter_conv)

lemma expand_digits: "is_letter r \<or> is_digit r \<Longrightarrow> list_all is_digit (expand r) \<and> expand r \<noteq> []"
proof (cases "is_letter r")
  case True
  then have "(of_char r - 55) div 10 < (10 :: nat)" by (auto simp: is_letter_conv)
  with True show ?thesis by (simp add: expand_letter)
next
  case False
  moreover assume "is_letter r \<or> is_digit r"
  ultimately show ?thesis by (simp add: expand_def)
qed

lemma numeric_append: "numeric (s @ t) = numeric s * 10 ^ width t + numeric t"
  by (simp add: numeric_def width_def num_of_append)

lemma width_append: "width (s @ t) = width s + width t"
  by (simp add: width_def)

lemma mod97Remainder_alnum:
  assumes "isAllLettersOrDigits s" "s \<noteq> []"
  shows "mod97Remainder s = Inr (numeric s mod 97)"
proof -
  from assms(1) have "list_all is_digit (concat (map expand s))"
    using expand_digits by (fastforce simp: isAllLettersOrDigits_def list_all_iff)
  moreover from assms have "concat (map expand s) \<noteq> []"
    using expand_digits by (cases s) (auto simp: isAllLettersOrDigits_def)
  ultimately have "isAllDigits (concat (map expand s))" by (simp add: isAllDigits_def)
  then show ?thesis
    by (simp add: mod97Remainder_def lettersToDigits_alnum [OF assms(1)] SetString_def numeric_def
        mod97Modulus_def)
qed

lemma upper_char_alnum: "is_letter c \<or> is_digit c \<Longrightarrow> upper_char c = c"
  by (auto simp: upper_char_def char_le_conv is_letter_conv is_digit_conv)

lemma Normalize_alnum:
  assumes "isAllLettersOrDigits s"
  shows "Normalize rt s = s"
proof -
  have sp: "\<not> is_letter CHR '' ''" "\<not> is_digit CHR '' ''"
    by (simp_all add: is_letter_conv is_digit_conv)
  with assms have f: "filter (\<lambda>c. c \<noteq> CHR '' '') s = s"
    by (auto simp: isAllLettersOrDigits_def list_all_iff intro!: filter_True)
  from assms have "is_ascii s"
    by (auto simp: isAllLettersOrDigits_def is_ascii_def list_all_iff is_letter_conv is_digit_conv)
  moreover from assms have "map upper_char s = s"
    by (auto simp: isAllLettersOrDigits_def list_all_iff upper_char_alnum intro!: map_idI)
  ultimately show ?thesis by (simp add: Normalize_def f ToUpper_def)
qed

lemma isAllLettersOrDigits_append [simp]:
  "isAllLettersOrDigits (s @ t) \<longleftrightarrow> isAllLettersOrDigits s \<and> isAllLettersOrDigits t"
  by (simp add: isAllLettersOrDigits_def)

lemma letters_alnum: "isAllLetters s \<Longrightarrow> isAllLettersOrDigits s"
  by (auto simp: isAllLetters_def isAllLettersOrDigits_def list_all_iff)

lemma digits_alnum: "isAllDigits s \<Longrightarrow> isAllLettersOrDigits s"
  by (auto simp: isAllDigits_def isAllLettersOrDigits_def list_all_iff)

lemma CountryIE_letters [simp]: "isAllLetters CountryIE"
  by (simp add: CountryIE_def isAllLetters_def is_letter_conv)

subsection \<open>Generated IBANs\<close>

lemma Generate_shape:
  assumes "Generate rt b s a = Inr x"
  obtains r where "ToUpper rt b \<noteq> []" "isAllLetters (ToUpper rt b)" "length (ToUpper rt b) = 4"
    "isAllDigits s" "length s = 6" "isAllDigits a" "length a = 8" "r < 97"
    "r = numeric ((ToUpper rt b @ s @ a) @ CountryIE @ ''00'') mod 97"
    "x = CountryIE @ decimal_pad 2 (98 - r) @ ToUpper rt b @ s @ a"
proof -
  have z: "isAllDigits ''00''" by (simp add: isAllDigits_def is_digit_conv)
  from assms have c: "isAllLetters (ToUpper rt b)" "length (ToUpper rt b) = 4"
    "isAllDigits s" "length s = 6" "isAllDigits a" "length a = 8"
    by (auto simp: Generate_def Let_def bankCodeLength_def sortCodeLength_def
        bbanAccountNumberLength_def split: if_splits)
  then have al: "isAllLettersOrDigits ((ToUpper rt b @ s @ a) @ CountryIE @ ''00'')"
    using z by (simp add: letters_alnum digits_alnum)
  show thesis
    by (rule that [of "numeric ((ToUpper rt b @ s @ a) @ CountryIE @ ''00'') mod 97"])
      (use assms c mod97Remainder_alnum [OF al] in
        \<open>auto simp: Generate_def Let_def bankCodeLength_def sortCodeLength_def
          bbanAccountNumberLength_def isAllLetters_def split: if_splits\<close>)
qed

lemma Generate_total:
  assumes "isAllLetters (ToUpper rt b)" "length (ToUpper rt b) = 4"
    and "isAllDigits s" "length s = 6" and "isAllDigits a" "length a = 8"
  shows "\<exists>x. Generate rt b s a = Inr x"
proof -
  have "isAllDigits ''00''" by (simp add: isAllDigits_def is_digit_conv)
  with assms have "isAllLettersOrDigits ((ToUpper rt b @ s @ a) @ CountryIE @ ''00'')"
    by (simp add: letters_alnum digits_alnum)
  from mod97Remainder_alnum [OF this] assms show ?thesis
    by (simp add: Generate_def Let_def bankCodeLength_def sortCodeLength_def
        bbanAccountNumberLength_def)
qed

lemma width_two_digits: "is_digit c \<Longrightarrow> is_digit d \<Longrightarrow> width [c, d] = 2"
  by (simp add: width_def expand_def)

lemma numeric_pad:
  assumes "n < 100"
  shows "numeric (decimal_pad 2 n) = n" "width (decimal_pad 2 n) = 2"
    "isAllDigits (decimal_pad 2 n)" "length (decimal_pad 2 n) = 2"
proof -
  from assms have "n div 10 < 10" by arith
  with assms num_of_two [OF assms] show "numeric (decimal_pad 2 n) = n"
    "width (decimal_pad 2 n) = 2" "isAllDigits (decimal_pad 2 n)" "length (decimal_pad 2 n) = 2"
    by (simp_all add: decimal_pad_two numeric_def width_def expand_def isAllDigits_def)
qed

lemma check_digits_congruent:
  fixes N r :: nat
  assumes "r = N * 100 mod 97"
  shows "(N * 100 + (98 - r)) mod 97 = 1"
proof -
  from assms have "r < 97" by simp
  have "N * 100 + (98 - r) = (N * 100 div 97) * 97 + 98"
    using div_mult_mod_eq [of "N * 100" 97] assms \<open>r < 97\<close> by linarith
  then show ?thesis by simp
qed

lemma Generate_parts:
  assumes "Generate rt b s a = Inr x"
  shows "length x = IELength" "take 2 x = CountryIE" "take 4 (drop 4 x) = ToUpper rt b"
    "take 6 (drop 8 x) = s" "drop 14 x = a" "isAllLettersOrDigits x"
    "isAllDigits (take 2 (drop 2 x))"
proof -
  from Generate_shape [OF assms] obtain r where g: "isAllLetters (ToUpper rt b)"
    "length (ToUpper rt b) = 4" "isAllDigits s" "length s = 6" "isAllDigits a" "length a = 8" "r < 97"
    and x: "x = CountryIE @ decimal_pad 2 (98 - r) @ ToUpper rt b @ s @ a"
    by metis
  then have p: "length (decimal_pad 2 (98 - r)) = 2" "isAllDigits (decimal_pad 2 (98 - r))"
    by (simp_all add: numeric_pad)
  have c: "length CountryIE = 2" by (simp add: CountryIE_def)
  show "length x = IELength" "take 2 x = CountryIE" "take 4 (drop 4 x) = ToUpper rt b"
    "take 6 (drop 8 x) = s" "drop 14 x = a" "isAllLettersOrDigits x"
    "isAllDigits (take 2 (drop 2 x))"
    using g p c by (simp_all add: x IELength_def bankCodeLength_def sortCodeLength_def
        bbanAccountNumberLength_def letters_alnum digits_alnum)
qed

lemma Generate_checksum:
  assumes "Generate rt b s a = Inr x"
  shows "mod97Remainder (drop 4 x @ take 2 x @ take 2 (drop 2 x)) = Inr 1"
proof -
  from Generate_shape [OF assms] obtain r where g: "length (ToUpper rt b) = 4" "r < 97"
    and r: "r = numeric ((ToUpper rt b @ s @ a) @ CountryIE @ ''00'') mod 97"
    and x: "x = CountryIE @ decimal_pad 2 (98 - r) @ ToUpper rt b @ s @ a"
    by metis
  define B where "B = (ToUpper rt b @ s @ a) @ CountryIE"
  have z: "numeric ''00'' = 0" "width ''00'' = 2"
    by (simp_all add: numeric_def width_def expand_def is_digit_conv num_of_def digit_val_def)
  have p: "numeric (decimal_pad 2 (98 - r)) = 98 - r" "width (decimal_pad 2 (98 - r)) = 2"
    "length (decimal_pad 2 (98 - r)) = 2"
    using g by (simp_all add: numeric_pad)
  have split: "drop 4 x @ take 2 x @ take 2 (drop 2 x) = B @ decimal_pad 2 (98 - r)"
    using p by (simp add: x B_def CountryIE_def)
  have "isAllLettersOrDigits (drop 4 x @ take 2 x @ take 2 (drop 2 x))"
    using Generate_parts(6) [OF assms]
    by (auto simp: isAllLettersOrDigits_def list_all_iff dest: in_set_dropD in_set_takeD)
  then have rem: "mod97Remainder (B @ decimal_pad 2 (98 - r)) = Inr (numeric (B @ decimal_pad 2 (98 - r)) mod 97)"
    unfolding split by (rule mod97Remainder_alnum) (simp add: B_def CountryIE_def)
  from r have "r = numeric B * 100 mod 97"
    by (simp add: B_def [symmetric] numeric_append [of B, unfolded B_def append_assoc] B_def z)
  then have "(numeric B * 100 + (98 - r)) mod 97 = 1" by (rule check_digits_congruent)
  then show ?thesis unfolding split rem by (simp add: numeric_append p)
qed

subsection \<open>Validation of normalized text\<close>

definition rearranged :: "string \<Rightarrow> string" where
  "rearranged n = drop 4 n @ take 4 n"

lemma take_2_2: "take 2 n @ take 2 (drop 2 n) = take 4 n"
  using take_add [of 2 2 n] by simp

lemma Validate_alnum:
  assumes "isAllLettersOrDigits n" "Validate rt n = Inr ()"
  shows "4 \<le> length n" "numeric (rearranged n) mod 97 = 1"
proof -
  from assms(2) have v: "\<not> length n < 4"
    "mod97Remainder (drop 4 n @ take 2 n @ take 2 (drop 2 n)) = Inr 1"
    unfolding Validate_def Let_def Normalize_alnum [OF assms(1)]
    by (simp_all split: if_split_asm sum.split_asm)
  then show "4 \<le> length n" by simp
  from assms(1) have "isAllLettersOrDigits (rearranged n)"
    by (auto simp: rearranged_def isAllLettersOrDigits_def list_all_iff dest: in_set_dropD in_set_takeD)
  moreover have "rearranged n \<noteq> []" using v(1) by (auto simp: rearranged_def)
  ultimately show "numeric (rearranged n) mod 97 = 1"
    using mod97Remainder_alnum [of "rearranged n"] v(2) by (simp add: rearranged_def take_2_2)
qed

lemma Validate_IE:
  assumes "isAllLettersOrDigits n" "take 2 n = CountryIE" "length n = IELength"
    and "isAllDigits (take 2 (drop 2 n))" "isAllLetters (take 4 (drop 4 n))"
    and "isAllDigits (take 6 (drop 8 n))" "isAllDigits (drop 14 n)"
    and "mod97Remainder (drop 4 n @ take 2 n @ take 2 (drop 2 n)) = Inr 1"
  shows "Validate rt n = Inr ()"
proof -
  from assms(1) have "isAllLettersOrDigits (drop 4 n)"
    by (auto simp: isAllLettersOrDigits_def list_all_iff dest: in_set_dropD)
  moreover have "\<not> length n < 4"
    using assms(3) by (simp add: IELength_def bankCodeLength_def sortCodeLength_def bbanAccountNumberLength_def)
  ultimately show ?thesis
    using assms by (simp add: Validate_def Let_def Normalize_alnum bankCodeLength_def sortCodeLength_def)
qed

text \<open>Two characters of the same kind.\<close>

definition same_kind :: "char \<Rightarrow> char \<Rightarrow> bool" where
  "same_kind c d \<longleftrightarrow> is_digit c \<and> is_digit d \<or> is_letter c \<and> is_letter d"

lemma digit_val_inject:
  assumes "is_digit c" "is_digit d" "digit_val c = digit_val d"
  shows "c = d"
proof -
  from assms have "(of_char c :: nat) = of_char d"
    unfolding is_digit_conv digit_val_def by linarith
  then show ?thesis by simp
qed

lemma letter_val_inject:
  assumes "is_letter c" "is_letter d" "(of_char c - 55 :: nat) = of_char d - 55"
  shows "c = d"
proof -
  from assms have "(of_char c :: nat) = of_char d"
    unfolding is_letter_conv by linarith
  then show ?thesis by simp
qed

lemma expand_same_kind:
  assumes "same_kind c d"
  shows "length (expand c) = length (expand d)"
    and "\<bar>int (num_of (expand c)) - int (num_of (expand d))\<bar> < 97"
    and "num_of (expand c) = num_of (expand d) \<Longrightarrow> c = d"
proof -
  consider "is_digit c" "is_digit d" | "is_letter c" "is_letter d"
    using assms by (auto simp: same_kind_def)
  then have "length (expand c) = length (expand d) \<and>
    \<bar>int (num_of (expand c)) - int (num_of (expand d))\<bar> < 97 \<and>
    (num_of (expand c) = num_of (expand d) \<longrightarrow> c = d)"
  proof cases
    case 1
    then have "digit_val c < 97" "digit_val d < 97" by (auto simp: digit_val_def is_digit_conv)
    with 1 show ?thesis by (auto simp: expand_def intro: digit_val_inject)
  next
    case 2
    then have "(of_char c - 55 :: nat) < 97" "(of_char d - 55 :: nat) < 97"
      by (auto simp: is_letter_conv)
    with 2 have "\<bar>int (num_of (expand c)) - int (num_of (expand d))\<bar> < 97"
      by (simp add: num_of_expand_letter)
    moreover have "num_of (expand c) = num_of (expand d) \<longrightarrow> c = d"
      using 2 by (auto simp: num_of_expand_letter intro: letter_val_inject)
    moreover have "length (expand c) = length (expand d)"
      using 2 by (simp add: expand_letter)
    ultimately show ?thesis by blast
  qed
  then show "length (expand c) = length (expand d)"
    and "\<bar>int (num_of (expand c)) - int (num_of (expand d))\<bar> < 97"
    and "num_of (expand c) = num_of (expand d) \<Longrightarrow> c = d"
    by auto
qed

lemma numeric_list_update:
  assumes "j < length s" "same_kind c (s ! j)"
  shows "int (numeric (s[j := c])) - int (numeric s) =
    (int (num_of (expand c)) - int (num_of (expand (s ! j)))) * 10 ^ width (drop (Suc j) s)"
proof -
  have one: "numeric (l @ [x] @ r) = numeric l * 10 ^ (length (expand x) + width r) + num_of (expand x) * 10 ^ width r + numeric r" for l x r
    by (simp add: numeric_append width_append) (simp add: numeric_def width_def num_of_append)
  have s: "s = take j s @ [s ! j] @ drop (Suc j) s"
    using assms(1) by (simp add: id_take_nth_drop)
  have u: "s[j := c] = take j s @ [c] @ drop (Suc j) s"
    using assms(1) by (simp add: upd_conv_take_nth_drop)
  have "numeric (s[j := c]) = numeric (take j s) * 10 ^ (length (expand c) + width (drop (Suc j) s)) + num_of (expand c) * 10 ^ width (drop (Suc j) s) + numeric (drop (Suc j) s)"
    unfolding u by (rule one)
  moreover have "numeric s = numeric (take j s) * 10 ^ (length (expand (s ! j)) + width (drop (Suc j) s)) + num_of (expand (s ! j)) * 10 ^ width (drop (Suc j) s) + numeric (drop (Suc j) s)"
    by (subst s) (rule one)
  ultimately show ?thesis
    using expand_same_kind(1) [OF assms(2)] by (simp add: algebra_simps)
qed

lemma coprime_97_10: "coprime (97 :: int) (10 ^ k)"
proof -
  have "coprime (97 :: int) 10" by (simp add: coprime_iff_gcd_eq_1) code_simp
  then show ?thesis by simp
qed

lemma numeric_update_changes:
  assumes "j < length s" "same_kind c (s ! j)" "numeric (s[j := c]) mod 97 = numeric s mod 97"
  shows "c = s ! j"
proof -
  from assms(3) have "int (numeric (s[j := c])) mod 97 = int (numeric s) mod 97"
    by (metis of_nat_mod of_nat_numeral)
  then have "97 dvd (int (num_of (expand c)) - int (num_of (expand (s ! j)))) * 10 ^ width (drop (Suc j) s)"
    unfolding numeric_list_update [OF assms(1,2), symmetric] by (simp add: mod_eq_dvd_iff)
  then have d: "97 dvd int (num_of (expand c)) - int (num_of (expand (s ! j)))"
    using coprime_dvd_mult_left_iff [OF coprime_97_10] by blast
  have "int (num_of (expand c)) - int (num_of (expand (s ! j))) = 0"
    using dvd_imp_le_int [OF _ d] expand_same_kind(2) [OF assms(2)] by linarith
  with expand_same_kind(3) [OF assms(2)] show ?thesis by simp
qed

lemma rearranged_update:
  assumes "i < length n" "4 \<le> length n"
  obtains j where "j < length (rearranged n)" "rearranged n ! j = n ! i"
    "rearranged (n[i := c]) = (rearranged n)[j := c]"
proof (cases "i < 4")
  case True
  obtain m where "length n = 4 + m" using assms(2) le_Suc_ex by blast
  then show ?thesis
    by (intro that [of "m + i"])
      (use True in \<open>simp_all add: rearranged_def nth_append list_update_append take_update_swap\<close>)
next
  case False
  show ?thesis
    by (rule that [of "i - 4"])
      (use False assms in \<open>auto simp: rearranged_def nth_append list_update_append drop_update_swap\<close>)
qed

text \<open>Display formatting inserts spaces only, which normalization drops again.\<close>

lemma filter_format_loop:
  "\<forall>c\<in>set n. c \<noteq> CHR '' '' \<Longrightarrow> filter (\<lambda>c. c \<noteq> CHR '' '') (format_loop first n) = n"
proof (induction first n rule: format_loop.induct)
  case (1 first n)
  show ?case
  proof (cases "n = []")
    case True
    then show ?thesis by (simp add: format_loop.simps)
  next
    case False
    have "filter (\<lambda>c. c \<noteq> CHR '' '') (format_loop False (drop 4 n)) = drop 4 n"
      using "1.prems" by (intro "1.IH" False) (auto dest: in_set_dropD)
    moreover have "filter (\<lambda>c. c \<noteq> CHR '' '') (take 4 n) = take 4 n"
      using "1.prems" by (auto dest: in_set_takeD intro!: filter_True)
    ultimately show ?thesis
      using False by (subst format_loop.simps) simp
  qed
qed

lemma set_format_loop: "set (format_loop first n) \<subseteq> insert CHR '' '' (set n)"
proof (induction first n rule: format_loop.induct)
  case (1 first n)
  show ?case
  proof (cases "n = []")
    case True
    then show ?thesis by (simp add: format_loop.simps)
  next
    case False
    have "set (format_loop False (drop 4 n)) \<subseteq> insert CHR '' '' (set n)"
      using "1.IH" [OF False] set_drop_subset [of 4 n] by blast
    with False show ?thesis
      using set_take_subset [of 4 n] by (subst format_loop.simps) auto
  qed
qed

lemma is_ascii_format_loop: "is_ascii n \<Longrightarrow> is_ascii (format_loop first n)"
  using set_format_loop [of first n] by (auto simp: is_ascii_def list_all_iff)

lemma of_upper_char:
  "(of_char (upper_char c) :: nat) = (if 97 \<le> (of_char c :: nat) \<and> (of_char c :: nat) \<le> 122 then of_char c - 32 else of_char c)"
  by (auto simp: upper_char_def char_le_conv)

lemma upper_char_idem: "upper_char (upper_char c) = upper_char c"
proof -
  have "(of_char (upper_char (upper_char c)) :: nat) = of_char (upper_char c)"
    unfolding of_upper_char by auto
  then show ?thesis by simp
qed

lemma upper_char_not_space: "c \<noteq> CHR '' '' \<Longrightarrow> upper_char c \<noteq> CHR '' ''"
proof
  assume c: "c \<noteq> CHR '' ''" and u: "upper_char c = CHR '' ''"
  have "(of_char (upper_char c) :: nat) = 32" by (simp add: u)
  then have "(of_char c :: nat) = of_char CHR '' ''"
    unfolding of_upper_char by (simp split: if_splits)
  with c show False by (simp only: of_char_eq_iff)
qed

lemma is_ascii_map_upper: "is_ascii s \<Longrightarrow> is_ascii (map upper_char s)"
  by (auto simp: is_ascii_def list_all_iff of_upper_char)

subsection \<open>Properties\<close>

lemma Generate_valid:
  assumes "Generate rt bankCode sortCode accountNumber = Inr x"
  shows "Validate rt x = Inr ()" "Normalize rt x = x"
proof -
  note parts = Generate_parts [OF assms]
  have "isAllLetters (ToUpper rt bankCode)" "isAllDigits sortCode" "isAllDigits accountNumber"
    using Generate_shape [OF assms] by metis+
  with parts Generate_checksum [OF assms] show "Validate rt x = Inr ()" by (intro Validate_IE) simp_all
  show "Normalize rt x = x" using parts by (simp add: Normalize_alnum)
qed

text \<open>
  C33: a generated IBAN validates, it has the fixed Irish length, and the bank code, the sort code
  and the account number can be read back from their positions in it.
\<close>

theorem generate_roundtrip:
  assumes "Generate rt bankCode sortCode accountNumber = Inr x"
  shows "Validate rt x = Inr () \<and> Normalize rt x = x \<and> length x = IELength \<and>
    take 2 x = CountryIE \<and> take 4 (drop 4 x) = ToUpper rt bankCode \<and>
    take 6 (drop 8 x) = sortCode \<and> drop 14 x = accountNumber"
  using Generate_valid [OF assms] Generate_parts [OF assms] by simp

lemma sample_iban: "\<exists>x. Generate plain_runtime ''zzzz'' ''000004'' ''17235968'' = Inr x"
proof -
  have "ToUpper plain_runtime ''zzzz'' = ''ZZZZ''"
    by (simp add: ToUpper_def is_ascii_def upper_char_def char_le_conv) code_simp
  then show ?thesis
    by (intro Generate_total)
      (simp_all add: isAllLetters_def isAllDigits_def is_letter_conv is_digit_conv)
qed

theorem generate_roundtrip_witness:
  "\<exists>x. Generate plain_runtime ''zzzz'' ''000004'' ''17235968'' = Inr x
     \<and> Validate plain_runtime x = Inr () \<and> drop 14 x = ''17235968''"
  using sample_iban generate_roundtrip [of plain_runtime "''zzzz''" "''000004''" "''17235968''"]
  by metis

lemma same_kind_substitution:
  assumes "isAllLettersOrDigits n" "Validate rt n = Inr ()"
    and "i < length n" "same_kind c (n ! i)" "c \<noteq> n ! i"
  shows "Validate rt (n[i := c]) \<noteq> Inr ()"
proof
  assume v: "Validate rt (n[i := c]) = Inr ()"
  have al: "isAllLettersOrDigits (n[i := c])"
    using assms(1,4) set_update_subset_insert [of n i c]
    by (auto simp: isAllLettersOrDigits_def list_all_iff same_kind_def)
  obtain j where j: "j < length (rearranged n)" "rearranged n ! j = n ! i"
    "rearranged (n[i := c]) = (rearranged n)[j := c]"
    using rearranged_update [OF assms(3)] Validate_alnum(1) [OF assms(1,2)] by metis
  have "numeric ((rearranged n)[j := c]) mod 97 = numeric (rearranged n) mod 97"
    using Validate_alnum(2) [OF assms(1,2)] Validate_alnum(2) [OF al v] j(3) by simp
  with numeric_update_changes [OF j(1)] assms(4,5) j(2) show False by simp
qed

text \<open>The layout fixes the kind of the first four characters of every IBAN and of all characters of an Irish one.\<close>

lemma kind_by_place:
  assumes "isAllLettersOrDigits n" "Validate rt n = Inr ()" "k < length n" "k < 4 \<or> take 2 n = CountryIE"
  shows "if k < 2 \<or> 4 \<le> k \<and> k < 8 then is_letter (n ! k) else is_digit (n ! k)"
proof -
  have four: "4 \<le> length n" by (rule Validate_alnum(1) [OF assms(1,2)])
  have v: "isAllLetters (take 2 n)" "isAllDigits (take 2 (drop 2 n))"
    "take 2 n = CountryIE \<Longrightarrow> isAllLetters (take 4 (drop 4 n)) \<and> isAllDigits (take 6 (drop 8 n)) \<and> isAllDigits (drop 14 n)"
    using assms(2) unfolding Validate_def Let_def Normalize_alnum [OF assms(1)]
    by (auto simp: bankCodeLength_def sortCodeLength_def split: if_split_asm)
  have at: "list_all P (take m (drop d n)) \<Longrightarrow> d \<le> k \<Longrightarrow> k < d + m \<Longrightarrow> P (n ! k)" for P m d
    using assms(3) by (auto simp: list_all_length dest!: spec [of _ "k - d"])
  have last: "list_all P (drop d n) \<Longrightarrow> d \<le> k \<Longrightarrow> P (n ! k)" for P d
    using assms(3) by (auto simp: list_all_length dest!: spec [of _ "k - d"])
  consider "k < 2" | "2 \<le> k" "k < 4" | "4 \<le> k" "k < 8" | "8 \<le> k" "k < 14" | "14 \<le> k" by linarith
  then show ?thesis
    using v assms(4) at [of is_letter 2 0] at [of is_digit 2 2] at [of is_letter 4 4] at [of is_digit 6 8] last [of is_digit 14]
    by cases (auto simp: isAllLetters_def isAllDigits_def)
qed

lemma other_kind_substitution:
  assumes "isAllLettersOrDigits n" "Validate rt n = Inr ()" "i < length n" "is_letter c \<or> is_digit c"
    and "i < 4 \<or> take 2 n = CountryIE" "Validate rt (n[i := c]) = Inr ()"
  shows "same_kind c (n ! i)"
proof -
  have al: "isAllLettersOrDigits (n[i := c])"
    using assms(1,4) set_update_subset_insert [of n i c]
    by (auto simp: isAllLettersOrDigits_def list_all_iff)
  have "i < 4 \<or> take 2 (n[i := c]) = CountryIE" using assms(5) by (cases "i < 2") (auto simp: take_update_cancel)
  from kind_by_place [OF al assms(6) _ this] kind_by_place [OF assms(1-3,5)] assms(3)
  show ?thesis by (auto simp: same_kind_def split: if_splits)
qed

text \<open>
  C34: in a valid IBAN in its normal form (capital letters and digits, what \<open>Normalize\<close> gives) one replaced
  character is found: validation fails when a character is replaced by a different capital letter or digit of the same
  kind (a letter by a letter, a digit by a digit), and it fails when it is replaced by any different capital letter or
  digit at all, of whichever kind, in an Irish IBAN (the only kind the bank gives out) and in the first four characters
  of every IBAN, because the layout fixes the kind of each place there. The checksum alone would not do: further on in
  the IBAN of another country a letter in place of a digit can pass, as \<open>substitution_of_other_kind\<close> shows.
\<close>

theorem validate_detects_substitution:
  assumes "isAllLettersOrDigits n" "Validate rt n = Inr ()"
    and "i < length n" "c \<noteq> n ! i"
    and "same_kind c (n ! i) \<or> (i < 4 \<or> take 2 n = CountryIE) \<and> (is_letter c \<or> is_digit c)"
  shows "\<exists>err. Validate rt (n[i := c]) = Inl err"
proof -
  have "Validate rt (n[i := c]) \<noteq> Inr ()"
    using assms same_kind_substitution other_kind_substitution by blast
  then show ?thesis by (cases "Validate rt (n[i := c])") auto
qed

lemma substitution_of_other_kind:
  "Validate plain_runtime ''GB82WEST12345698765432'' = Inr () \<and> Validate plain_runtime ''GB82WEST1234569D765432'' = Inr ()"
  by (simp add: Validate_def Let_def Normalize_alnum isAllLettersOrDigits_def isAllLetters_def isAllDigits_def is_letter_conv
      is_digit_conv mod97Remainder_alnum CountryIE_def numeric_def num_of_def expand_def digit_val_def decimal.simps digit_char_def)

theorem validate_detects_substitution_witness:
  "\<exists>x. Validate plain_runtime x = Inr () \<and> x ! 21 = CHR ''8'' \<and>
     (\<exists>err. Validate plain_runtime (x[21 := CHR ''7'']) = Inl err) \<and>
     (\<exists>err. Validate plain_runtime (x[21 := CHR ''D'']) = Inl err)"
proof -
  obtain x where x: "Generate plain_runtime ''zzzz'' ''000004'' ''17235968'' = Inr x"
    using sample_iban by blast
  note parts = Generate_parts [OF x]
  have len: "length x = 22"
    using parts(1) by (simp add: IELength_def bankCodeLength_def sortCodeLength_def bbanAccountNumberLength_def)
  have c: "x ! 21 = CHR ''8''"
    using nth_drop [of 14 x 7] len by (simp add: parts(5))
  have v: "Validate plain_runtime x = Inr ()"
    by (rule Validate_IE)
      (use parts Generate_shape [OF x] Generate_checksum [OF x] in \<open>auto\<close>)
  have "\<exists>err. Validate plain_runtime (x[21 := CHR ''7'']) = Inl err"
    "\<exists>err. Validate plain_runtime (x[21 := CHR ''D'']) = Inl err"
    by (rule validate_detects_substitution [OF parts(6) v];
        simp add: len c parts(2) same_kind_def is_letter_conv is_digit_conv)+
  with v c show ?thesis by blast
qed

text \<open>
  The display form of an IBAN is only a presentation: normalizing what \<open>Format\<close> returns gives
  the normalized form of its argument, for any ASCII text.
\<close>

theorem normalize_format:
  assumes "is_ascii s"
  shows "Normalize rt (Format rt s) = Normalize rt s"
proof -
  define f where "f = filter (\<lambda>c. c \<noteq> CHR '' '') s"
  have "is_ascii f" using assms by (auto simp: is_ascii_def f_def list_all_iff)
  then have n: "Normalize rt s = map upper_char f" "is_ascii (map upper_char f)"
    by (simp_all add: Normalize_def f_def [symmetric] ToUpper_def is_ascii_map_upper)
  have "\<forall>c\<in>set (map upper_char f). c \<noteq> CHR '' ''"
    by (auto simp: f_def dest: upper_char_not_space)
  from filter_format_loop [OF this] n show ?thesis
    by (simp add: Format_def Normalize_def [of rt "format_loop True _"] ToUpper_def upper_char_idem)
qed

theorem normalize_format_witness:
  "Normalize plain_runtime (Format plain_runtime ''ie29 AIBK'') = ''IE29AIBK''"
proof -
  have "Normalize plain_runtime ''ie29 AIBK'' = ''IE29AIBK''" "is_ascii ''ie29 AIBK''"
    by code_simp+
  then show ?thesis using normalize_format by metis
qed

end
