(* ===== verification/Ledger_Server.thy ===== *)
theory Ledger_Server
  imports Ledger_Properties Iban
begin

text \<open>
  services/ledger-svc/grpc\_server.go: the RPCs of ledger-svc over the operations of ledger.go, and
  the contract the other services rely on. A handler returns the new database and either the status
  error or the response; the log lines and span attributes are left out.
\<close>

subsection \<open>Handlers\<close>

definition internal_error :: grpc_status where
  "internal_error = (Internal, ''internal error'')"

definition GetBalance :: "runtime \<Rightarrow> env \<Rightarrow> ledger_db \<Rightarrow> string \<Rightarrow> grpc_status + int" where
  "GetBalance rt e db account_id =
     (case getBalance rt e db account_id of
        Inl err \<Rightarrow> if err = ErrLedgerAccountNotFound then Inl (NotFound, ''ledger account not found'')
                    else Inl internal_error
      | Inr balance \<Rightarrow> Inr balance)"

definition ExecuteTransfer ::
  "runtime \<Rightarrow> env \<Rightarrow> string \<Rightarrow> string \<Rightarrow> int \<Rightarrow> string \<Rightarrow> ledger_db \<Rightarrow> ledger_db \<times> (grpc_status + string)" where
  "ExecuteTransfer rt e from_account_id to_account_id amount reference db =
     (case executeTransfer rt e db from_account_id to_account_id amount reference of
        (db', Inl err) \<Rightarrow> (db', Inl internal_error)
      | (db', Inr (transactionID, outcome)) \<Rightarrow>
          (db', case outcome of
             TransferOK \<Rightarrow> Inr transactionID
           | TransferInvalidAmount \<Rightarrow> Inl (InvalidArgument, ''amount must be positive'')
           | TransferFromAccountNotFound \<Rightarrow> Inl (NotFound, ''from account not found'')
           | TransferToAccountNotFound \<Rightarrow> Inl (NotFound, ''to account not found'')
           | TransferInsufficientFunds \<Rightarrow> Inl (FailedPrecondition, ''insufficient funds'')))"

definition deposit_response ::
  "ledger_db \<times> (ledger_error + string \<times> depositOutcome) \<Rightarrow> ledger_db \<times> (grpc_status + string)" where
  "deposit_response res =
     (case res of
        (db', Inl err) \<Rightarrow> (db', Inl internal_error)
      | (db', Inr (transactionID, outcome)) \<Rightarrow>
          (db', case outcome of
             DepositOK \<Rightarrow> Inr transactionID
           | DepositInvalidAmount \<Rightarrow> Inl (InvalidArgument, ''amount must be positive'')
           | DepositAccountNotFound \<Rightarrow> Inl (NotFound, ''account not found'')))"

definition Deposit ::
  "runtime \<Rightarrow> env \<Rightarrow> string \<Rightarrow> int \<Rightarrow> string \<Rightarrow> ledger_db \<Rightarrow> ledger_db \<times> (grpc_status + string)" where
  "Deposit rt e account_id amount reference db = deposit_response (deposit rt e db account_id amount reference)"

definition ReverseDeposit ::
  "runtime \<Rightarrow> env \<Rightarrow> string \<Rightarrow> int \<Rightarrow> string \<Rightarrow> ledger_db \<Rightarrow> ledger_db \<times> (grpc_status + string)" where
  "ReverseDeposit rt e account_id amount reference db =
     deposit_response (reverseDeposit rt e db account_id amount reference)"

definition GetHistory ::
  "runtime \<Rightarrow> env \<Rightarrow> ledger_db \<Rightarrow> string \<Rightarrow> int \<Rightarrow> int \<Rightarrow> grpc_status + LedgerEntry list" where
  "GetHistory rt e db account_id limit offset =
     (case getHistory rt e db account_id limit offset of
        Inl err \<Rightarrow>
          if err = ErrLedgerAccountNotFound then Inl (NotFound, ''ledger account not found'')
          else if err = ErrInvalidPagination
          then Inl (InvalidArgument, ''invalid pagination: '' @
            (if limit \<le> 0 then ''limit must be positive, got '' @ show_int limit
             else ''offset must be non-negative, got '' @ show_int offset))
          else Inl internal_error
      | Inr es \<Rightarrow> Inr es)"

record GetTransactionByReferenceResponse =
  r_found :: bool
  r_transaction_id :: string

definition GetTransactionByReference ::
  "runtime \<Rightarrow> env \<Rightarrow> ledger_db \<Rightarrow> string \<Rightarrow> grpc_status + GetTransactionByReferenceResponse" where
  "GetTransactionByReference rt e db reference =
     (case getTransactionByReference rt e db reference of
        Inl err \<Rightarrow> Inl internal_error
      | Inr None \<Rightarrow> Inr \<lparr>r_found = False, r_transaction_id = ''''\<rparr>
      | Inr (Some tx) \<Rightarrow> Inr \<lparr>r_found = True, r_transaction_id = tx\<rparr>)"

definition GetBalanceHistory ::
  "runtime \<Rightarrow> env \<Rightarrow> ledger_db \<Rightarrow> string \<Rightarrow> int option \<Rightarrow> grpc_status + BalancePoint list" where
  "GetBalanceHistory rt e db account_id from =
     (case getBalanceHistory rt e db account_id from of
        Inl err \<Rightarrow> if err = ErrLedgerAccountNotFound then Inl (NotFound, ''ledger account not found'')
                    else Inl internal_error
      | Inr points \<Rightarrow> Inr points)"

definition CreateLedgerAccount ::
  "runtime \<Rightarrow> env \<Rightarrow> string \<Rightarrow> ledger_db \<Rightarrow> ledger_db \<times> (grpc_status + LedgerAccount)" where
  "CreateLedgerAccount rt e account_id db =
     (case createLedgerAccount rt e db account_id of
        (db', Inl err) \<Rightarrow> (db', Inl internal_error)
      | (db', Inr acc) \<Rightarrow> (db', Inr acc))"

subsection \<open>The client's view\<close>

text \<open>
  The methods of \<open>ledgerv1.LedgerServiceClient\<close> that other services call. The first argument numbers
  the calls an operation makes, so that each can meet its own conditions; the state of the ledger is
  threaded through.
\<close>

record 'l ledger_client =
  lc_ExecuteTransfer :: "nat \<Rightarrow> string \<Rightarrow> string \<Rightarrow> int \<Rightarrow> string \<Rightarrow> 'l \<Rightarrow> 'l \<times> (grpc_status + string)"
  lc_Deposit :: "nat \<Rightarrow> string \<Rightarrow> int \<Rightarrow> string \<Rightarrow> 'l \<Rightarrow> 'l \<times> (grpc_status + string)"
  lc_ReverseDeposit :: "nat \<Rightarrow> string \<Rightarrow> int \<Rightarrow> string \<Rightarrow> 'l \<Rightarrow> 'l \<times> (grpc_status + string)"
  lc_GetTransactionByReference :: "nat \<Rightarrow> string \<Rightarrow> 'l \<Rightarrow> 'l \<times> (grpc_status + GetTransactionByReferenceResponse)"
  lc_CreateLedgerAccount :: "nat \<Rightarrow> string \<Rightarrow> 'l \<Rightarrow> 'l \<times> (grpc_status + LedgerAccount)"
  lc_GetBalance :: "nat \<Rightarrow> string \<Rightarrow> 'l \<Rightarrow> 'l \<times> (grpc_status + int)"
  lc_GetBalanceHistory :: "nat \<Rightarrow> string \<Rightarrow> int option \<Rightarrow> 'l \<Rightarrow> 'l \<times> (grpc_status + BalancePoint list)"

text \<open>The client connected to ledger-svc: call \<open>i\<close> meets the environment \<open>es i\<close> and the network \<open>ns i\<close>.\<close>

definition ledger_rpc :: "runtime \<Rightarrow> (nat \<Rightarrow> env) \<Rightarrow> (nat \<Rightarrow> delivery) \<Rightarrow> ledger_db ledger_client" where
  "ledger_rpc rt es ns = \<lparr>
     lc_ExecuteTransfer = (\<lambda>i f t a r. call (ns i) (ExecuteTransfer rt (es i) f t a r)),
     lc_Deposit = (\<lambda>i acc a r. call (ns i) (Deposit rt (es i) acc a r)),
     lc_ReverseDeposit = (\<lambda>i acc a r. call (ns i) (ReverseDeposit rt (es i) acc a r)),
     lc_GetTransactionByReference = (\<lambda>i r. call (ns i) (\<lambda>db. (db, GetTransactionByReference rt (es i) db r))),
     lc_CreateLedgerAccount = (\<lambda>i acc. call (ns i) (CreateLedgerAccount rt (es i) acc)),
     lc_GetBalance = (\<lambda>i acc. call (ns i) (\<lambda>db. (db, GetBalance rt (es i) db acc))),
     lc_GetBalanceHistory = (\<lambda>i acc from. call (ns i) (\<lambda>db. (db, GetBalanceHistory rt (es i) db acc from)))\<rparr>"

text \<open>The transactions booked under a reference, by their debit entries.\<close>

definition booked :: "ledger_db \<Rightarrow> string \<Rightarrow> string list" where
  "booked db r = map e_transaction_id (filter (\<lambda>x. e_reference x = Some r \<and> e_amount x < 0) (entries db))"

text \<open>
  What the clients of the ledger rely on. \<open>refs\<close> lists the transactions booked under a reference;
  \<open>good\<close> are the references that are stored as they are sent, \<open>ok\<close> the states of the ledger.
\<close>

locale ledger_service =
  fixes lc :: "'l ledger_client" and refs :: "'l \<Rightarrow> string \<Rightarrow> string list" and good :: "string \<Rightarrow> bool" and ok :: "'l \<Rightarrow> bool"
  assumes execute_ok: "ok l \<Longrightarrow> good r \<Longrightarrow> lc_ExecuteTransfer lc i f t a r l = (l', Inr tx) \<Longrightarrow> refs l' r = refs l r @ [tx]"
    and execute_any: "ok l \<Longrightarrow> good r \<Longrightarrow> lc_ExecuteTransfer lc i f t a r l = (l', res) \<Longrightarrow>
      refs l' r = refs l r \<or> (\<exists>tx. refs l' r = refs l r @ [tx])"
    and execute_refused: "lc_ExecuteTransfer lc i f t a r l = (l', Inl (c, m)) \<Longrightarrow>
      c \<in> {FailedPrecondition, NotFound, InvalidArgument} \<Longrightarrow> l' = l"
    and execute_frame: "ok l \<Longrightarrow> good r \<Longrightarrow> r' \<noteq> r \<Longrightarrow> lc_ExecuteTransfer lc i f t a r l = (l', res) \<Longrightarrow> refs l' r' = refs l r'"
    and execute_keeps: "ok l \<Longrightarrow> in_int64 a \<Longrightarrow> lc_ExecuteTransfer lc i f t a r l = (l', res) \<Longrightarrow> ok l'"
    and lookup_true: "ok l \<Longrightarrow> good r \<Longrightarrow> lc_GetTransactionByReference lc i r l = (l', Inr resp) \<Longrightarrow>
      l' = l \<and> (case refs l r of [] \<Rightarrow> \<not> r_found resp | tx # _ \<Rightarrow> r_found resp \<and> r_transaction_id resp = tx)"
    and lookup_keeps: "lc_GetTransactionByReference lc i r l = (l', answer) \<Longrightarrow> l' = l"
    and deposit_ok: "ok l \<Longrightarrow> good r \<Longrightarrow> lc_Deposit lc i acc a r l = (l', Inr tx) \<Longrightarrow> refs l' r \<noteq> [] \<and> hd (refs l' r) = tx"
    and deposit_once: "ok l \<Longrightarrow> good r \<Longrightarrow> refs l r \<noteq> [] \<Longrightarrow> lc_Deposit lc i acc a r l = (l', res) \<Longrightarrow> l' = l"
    and deposit_one: "ok l \<Longrightarrow> good r \<Longrightarrow> lc_Deposit lc i acc a r l = (l', res) \<Longrightarrow>
      refs l' r = refs l r \<or> (\<exists>tx. refs l' r = refs l r @ [tx])"
    and deposit_frame: "ok l \<Longrightarrow> good r \<Longrightarrow> r' \<noteq> r \<Longrightarrow> lc_Deposit lc i acc a r l = (l', res) \<Longrightarrow> refs l' r' = refs l r'"
    and deposit_keeps: "ok l \<Longrightarrow> in_int64 a \<Longrightarrow> lc_Deposit lc i acc a r l = (l', res) \<Longrightarrow> ok l'"
    and reverse_ok: "ok l \<Longrightarrow> good r \<Longrightarrow> lc_ReverseDeposit lc i acc a r l = (l', Inr tx) \<Longrightarrow> refs l' r \<noteq> [] \<and> hd (refs l' r) = tx"
    and reverse_once: "ok l \<Longrightarrow> good r \<Longrightarrow> refs l r \<noteq> [] \<Longrightarrow> lc_ReverseDeposit lc i acc a r l = (l', res) \<Longrightarrow> l' = l"
    and reverse_one: "ok l \<Longrightarrow> good r \<Longrightarrow> lc_ReverseDeposit lc i acc a r l = (l', res) \<Longrightarrow>
      refs l' r = refs l r \<or> (\<exists>tx. refs l' r = refs l r @ [tx])"
    and reverse_frame: "ok l \<Longrightarrow> good r \<Longrightarrow> r' \<noteq> r \<Longrightarrow> lc_ReverseDeposit lc i acc a r l = (l', res) \<Longrightarrow> refs l' r' = refs l r'"
    and reverse_keeps: "ok l \<Longrightarrow> in_int64 a \<Longrightarrow> lc_ReverseDeposit lc i acc a r l = (l', res) \<Longrightarrow> ok l'"

subsection \<open>The ledger keeps the contract\<close>

text \<open>
  The state predicate: the ledger's invariant, and that the first entry of every reference is a
  debit entry, so that looking up a reference finds the first transaction booked under it.
\<close>

definition debit_first :: "ledger_db \<Rightarrow> bool" where
  "debit_first db \<longleftrightarrow> (\<forall>r x. find (\<lambda>x. e_reference x = Some r) (entries db) = Some x \<longrightarrow> e_amount x < 0)"

definition ledger_ok :: "ledger_db \<Rightarrow> bool" where
  "ledger_ok db \<longleftrightarrow> ledger_inv db \<and> debit_first db"

definition stored_reference :: "runtime \<Rightarrow> string \<Rightarrow> bool" where
  "stored_reference rt r \<longleftrightarrow> r \<noteq> '''' \<and> uuid_in rt r = Some r"

lemma booked_posted:
  assumes "posted e fl tol a ref db db'" "0 < a"
  shows "booked db' r = booked db r @ (if ref = Some r then [gen_random_uuid e 0] else [])"
  using assms by (simp add: posted_def booked_def pair_entries_def)

lemma debit_first_posted:
  assumes "posted e fl tol a ref db db'" "0 < a" "debit_first db"
  shows "debit_first db'"
  using assms
  by (auto simp: posted_def debit_first_def find_append pair_entries_def split: option.splits if_splits)

lemma booked_find:
  assumes "debit_first db"
  shows "case booked db r of [] \<Rightarrow> find (\<lambda>x. e_reference x = Some r) (entries db) = None
    | tx # _ \<Rightarrow> map_option e_transaction_id (find (\<lambda>x. e_reference x = Some r) (entries db)) = Some tx"
proof -
  have *: "case map e_transaction_id (filter (\<lambda>x. e_reference x = Some r \<and> e_amount x < 0) es) of
      [] \<Rightarrow> find (\<lambda>x. e_reference x = Some r) es = None
    | tx # _ \<Rightarrow> map_option e_transaction_id (find (\<lambda>x. e_reference x = Some r) es) = Some tx"
    if "\<And>x. find (\<lambda>x. e_reference x = Some r) es = Some x \<Longrightarrow> e_amount x < 0" for es
    using that by (induction es) (auto split: if_splits list.splits)
  show ?thesis unfolding booked_def by (rule *) (use assms in \<open>auto simp: debit_first_def\<close>)
qed

lemma ExecuteTransfer_cases:
  assumes "ExecuteTransfer rt e f t a reference db = (db', res)"
  obtains (refused) "db' = db" "\<And>tx. res \<noteq> Inr tx"
    | (posted) fl tol ref where "0 < a" "account_of rt db f = Some fl" "account_of rt db t = Some tol"
        "a \<le> sum_entries (entries db) fl" "reference_param rt reference = Some ref" "posted e fl tol a ref db db'"
        "res = Inr (gen_random_uuid e 0) \<or> res = Inl internal_error"
proof -
  obtain d r where x: "executeTransfer rt e db f t a reference = (d, r)" by fastforce
  with assms have d: "d = db'" by (auto simp: ExecuteTransfer_def split: sum.splits prod.splits)
  from x show thesis
  proof (cases rule: executeTransfer_cases)
    case unchanged
    have "res \<noteq> Inr tx" for tx
      using assms x unchanged(2)
      by (auto simp: ExecuteTransfer_def split: sum.splits prod.splits transferOutcome.splits)
    with refused unchanged d show ?thesis by auto
  next
    case (posted fl tol ref)
    then have "res = Inr (gen_random_uuid e 0) \<or> res = Inl internal_error"
      using assms x by (auto simp: ExecuteTransfer_def)
    with posted that(2) d show ?thesis by blast
  qed
qed

lemma deposit_response_cases:
  assumes "deposit_response (postUncheckedTransfer rt e db f t a reference) = (db', res)"
  obtains (refused) "db' = db" "\<And>tx. res \<noteq> Inr tx"
    | (replay) u x where "db' = db" "uuid_in rt reference = Some u" "reference \<noteq> ''''"
        "find (\<lambda>x. e_reference x = Some u) (entries db) = Some x" "res = Inr (e_transaction_id x)"
    | (posted) fl tol ref where "0 < a" "account_of rt db f = Some fl" "account_of rt db t = Some tol"
        "reference_param rt reference = Some ref"
        "\<And>u x. ref = Some u \<Longrightarrow> x \<in> set (entries db) \<Longrightarrow> e_reference x \<noteq> Some u"
        "posted e fl tol a ref db db'" "res = Inr (gen_random_uuid e 0) \<or> res = Inl internal_error"
proof -
  obtain d r where x: "postUncheckedTransfer rt e db f t a reference = (d, r)" by fastforce
  with assms have d: "d = db'" by (auto simp: deposit_response_def split: sum.splits prod.splits)
  from x show thesis
  proof (cases rule: postUncheckedTransfer_cases)
    case unchanged
    have "res \<noteq> Inr tx" for tx
      using assms x unchanged(2)
      by (auto simp: deposit_response_def split: sum.splits prod.splits depositOutcome.splits)
    with refused unchanged d show ?thesis by auto
  next
    case replay
    with assms x d that(2) show ?thesis by (auto simp: deposit_response_def)
  next
    case (posted fl tol ref)
    then have "res = Inr (gen_random_uuid e 0) \<or> res = Inl internal_error"
      using assms x by (auto simp: deposit_response_def)
    with posted that(3) d show ?thesis by blast
  qed
qed

text \<open>The contract of one call of \<open>ExecuteTransfer\<close>.\<close>

lemma ExecuteTransfer_contract:
  assumes "ExecuteTransfer rt e f t a r db = (db', res)" "stored_reference rt r"
  shows "res = Inr tx \<Longrightarrow> booked db' r = booked db r @ [tx]"
    and "booked db' r = booked db r \<or> (\<exists>tx. booked db' r = booked db r @ [tx])"
    and "r' \<noteq> r \<Longrightarrow> booked db' r' = booked db r'"
proof -
  have p: "reference_param rt r = Some (Some r)"
    using assms(2) by (simp add: stored_reference_def reference_param_def)
  show "res = Inr tx \<Longrightarrow> booked db' r = booked db r @ [tx]"
    "booked db' r = booked db r \<or> (\<exists>tx. booked db' r = booked db r @ [tx])"
    "r' \<noteq> r \<Longrightarrow> booked db' r' = booked db r'"
    using assms(1) by (cases rule: ExecuteTransfer_cases; use p in \<open>auto simp: booked_posted\<close>)+
qed

lemma ExecuteTransfer_refused:
  assumes "ExecuteTransfer rt e f t a r db = (db', Inl (c, m))" "c \<noteq> Internal"
  shows "db' = db"
  using assms(1) by (cases rule: ExecuteTransfer_cases) (use assms(2) in \<open>auto simp: internal_error_def\<close>)

lemma ExecuteTransfer_ok:
  assumes "ledger_ok db" "in_int64 a"
  shows "ledger_ok (fst (ExecuteTransfer rt e f t a r db))"
proof -
  obtain db' res where x: "ExecuteTransfer rt e f t a r db = (db', res)" by fastforce
  have "fst (executeTransfer rt e db f t a r) = db'"
    using x by (auto simp: ExecuteTransfer_def split: sum.splits prod.splits)
  then have "ledger_inv db'"
    using executeTransfer_inv [of db a rt e f t r] assms by (simp add: ledger_ok_def)
  moreover from x have "debit_first db'"
    by (cases rule: ExecuteTransfer_cases) (use assms in \<open>auto simp: ledger_ok_def debit_first_posted\<close>)
  ultimately show ?thesis by (simp add: x ledger_ok_def)
qed

text \<open>The contract of one posting without a balance check.\<close>

lemma deposit_response_contract:
  assumes "deposit_response (postUncheckedTransfer rt e db f t a r) = (db', res)" "stored_reference rt r" "ledger_ok db"
  shows "res = Inr tx \<Longrightarrow> booked db' r \<noteq> [] \<and> hd (booked db' r) = tx"
    and "booked db r \<noteq> [] \<Longrightarrow> db' = db"
    and "booked db' r = booked db r \<or> (\<exists>tx. booked db' r = booked db r @ [tx])"
    and "r' \<noteq> r \<Longrightarrow> booked db' r' = booked db r'"
proof -
  have r: "reference_param rt r = Some (Some r)" "uuid_in rt r = Some r"
    using assms(2) by (simp_all add: stored_reference_def reference_param_def)
  note b = booked_find [of db r]
  have none: "booked db r = []" if "\<And>u x. Some r = Some u \<Longrightarrow> x \<in> set (entries db) \<Longrightarrow> e_reference x \<noteq> Some u"
    using that by (auto simp: booked_def filter_empty_conv)
  show "res = Inr tx \<Longrightarrow> booked db' r \<noteq> [] \<and> hd (booked db' r) = tx"
    using assms(1)
  proof (cases rule: deposit_response_cases)
    case (replay u x)
    then show "res = Inr tx \<Longrightarrow> ?thesis" using b r assms(3) by (auto simp: ledger_ok_def split: list.splits)
  next
    case (posted fl tol ref)
    then show "res = Inr tx \<Longrightarrow> ?thesis" using r none by (auto simp: booked_posted)
  qed auto
  show "booked db r \<noteq> [] \<Longrightarrow> db' = db"
    using assms(1)
  proof (cases rule: deposit_response_cases)
    case (posted fl tol ref)
    then show "booked db r \<noteq> [] \<Longrightarrow> ?thesis" using r none by auto
  qed auto
  show "booked db' r = booked db r \<or> (\<exists>tx. booked db' r = booked db r @ [tx])"
    "r' \<noteq> r \<Longrightarrow> booked db' r' = booked db r'"
    using assms(1) by (cases rule: deposit_response_cases; use r in \<open>auto simp: booked_posted\<close>)+
qed

lemma deposit_response_ok:
  assumes "ledger_ok db" "in_int64 a"
  shows "ledger_ok (fst (deposit_response (postUncheckedTransfer rt e db f t a r)))"
proof -
  obtain db' res where x: "deposit_response (postUncheckedTransfer rt e db f t a r) = (db', res)" by fastforce
  have "fst (postUncheckedTransfer rt e db f t a r) = db'"
    using x by (auto simp: deposit_response_def split: sum.splits prod.splits)
  then have "ledger_inv db'"
    using postUncheckedTransfer_inv [of db a rt e f t r] assms by (simp add: ledger_ok_def)
  moreover from x have "debit_first db'"
    by (cases rule: deposit_response_cases) (use assms in \<open>auto simp: ledger_ok_def debit_first_posted\<close>)
  ultimately show ?thesis by (simp add: x ledger_ok_def)
qed

lemma Deposit_unfold: "Deposit rt e acc a r db = deposit_response (postUncheckedTransfer rt e db genesisAccountID acc a r)"
  by (simp add: Deposit_def deposit_def)

lemma ReverseDeposit_unfold: "ReverseDeposit rt e acc a r db = deposit_response (postUncheckedTransfer rt e db acc genesisAccountID a r)"
  by (simp add: ReverseDeposit_def reverseDeposit_def)

lemmas rpc_unfold = ledger_rpc_def Deposit_unfold ReverseDeposit_unfold

lemma GetTransactionByReference_true:
  assumes "ledger_ok db" "stored_reference rt r" "GetTransactionByReference rt e db r = Inr resp"
  shows "case booked db r of [] \<Rightarrow> \<not> r_found resp | tx # _ \<Rightarrow> r_found resp \<and> r_transaction_id resp = tx"
proof -
  have "debit_first db" using assms(1) by (simp add: ledger_ok_def)
  from booked_find [OF this, of r] assms(2,3) show ?thesis
    by (auto simp: GetTransactionByReference_def getTransactionByReference_def stored_reference_def
        split: if_splits option.splits list.splits)
qed

interpretation ledger_svc: ledger_service "ledger_rpc rt es ns" booked "stored_reference rt" ledger_ok for rt es ns
proof unfold_locales
  fix l r i f t a l' tx
  assume "ledger_ok l" "stored_reference rt r" "lc_ExecuteTransfer (ledger_rpc rt es ns) i f t a r l = (l', Inr tx)"
  then show "booked l' r = booked l r @ [tx]"
    by (auto simp: rpc_unfold elim!: call_cases dest: ExecuteTransfer_contract(1))
next
  fix l r i f t a l' res
  assume "ledger_ok l" "stored_reference rt r" "lc_ExecuteTransfer (ledger_rpc rt es ns) i f t a r l = (l', res)"
  then show "booked l' r = booked l r \<or> (\<exists>tx. booked l' r = booked l r @ [tx])"
    by (auto simp: rpc_unfold elim!: call_cases dest: ExecuteTransfer_contract(2))
next
  fix i f t a r l l' c m
  assume "lc_ExecuteTransfer (ledger_rpc rt es ns) i f t a r l = (l', Inl (c, m))" "c \<in> {FailedPrecondition, NotFound, InvalidArgument}"
  then show "l' = l"
    by (auto simp: rpc_unfold elim!: call_cases dest: ExecuteTransfer_refused)
next
  fix l r r' i f t a l' res
  assume "ledger_ok l" "stored_reference rt r" "r' \<noteq> r" "lc_ExecuteTransfer (ledger_rpc rt es ns) i f t a r l = (l', res)"
  then show "booked l' r' = booked l r'"
    by (auto simp: rpc_unfold elim!: call_cases dest: ExecuteTransfer_contract(3))
next
  fix l a i f t r l' res
  assume "ledger_ok l" "in_int64 a" "lc_ExecuteTransfer (ledger_rpc rt es ns) i f t a r l = (l', res)"
  then show "ledger_ok l'"
    using ExecuteTransfer_ok [of l a rt "es i" f t r] by (auto simp: rpc_unfold elim!: call_cases)
next
  fix l r i l' resp
  assume "ledger_ok l" "stored_reference rt r" "lc_GetTransactionByReference (ledger_rpc rt es ns) i r l = (l', Inr resp)"
  then show "l' = l \<and> (case booked l r of [] \<Rightarrow> \<not> r_found resp | tx # _ \<Rightarrow> r_found resp \<and> r_transaction_id resp = tx)"
    using GetTransactionByReference_true by (auto simp: rpc_unfold elim!: call_cases)
next
  fix i r l l' answer
  assume "lc_GetTransactionByReference (ledger_rpc rt es ns) i r l = (l', answer)"
  then show "l' = l" by (auto simp: rpc_unfold elim!: call_cases)
next
  fix l r i acc a l' tx
  assume "ledger_ok l" "stored_reference rt r" "lc_Deposit (ledger_rpc rt es ns) i acc a r l = (l', Inr tx)"
  then show "booked l' r \<noteq> [] \<and> hd (booked l' r) = tx"
    using deposit_response_contract(1) by (auto simp: rpc_unfold elim!: call_cases)
next
  fix l r i acc a l' tx
  assume "ledger_ok l" "stored_reference rt r" "lc_ReverseDeposit (ledger_rpc rt es ns) i acc a r l = (l', Inr tx)"
  then show "booked l' r \<noteq> [] \<and> hd (booked l' r) = tx"
    using deposit_response_contract(1) by (auto simp: rpc_unfold elim!: call_cases)
next
  fix l r i acc a l' res
  assume "ledger_ok l" "stored_reference rt r" "booked l r \<noteq> []" "lc_Deposit (ledger_rpc rt es ns) i acc a r l = (l', res)"
  then show "l' = l"
    using deposit_response_contract(2) by (auto simp: rpc_unfold elim!: call_cases)
next
  fix l r i acc a l' res
  assume "ledger_ok l" "stored_reference rt r" "booked l r \<noteq> []" "lc_ReverseDeposit (ledger_rpc rt es ns) i acc a r l = (l', res)"
  then show "l' = l"
    using deposit_response_contract(2) by (auto simp: rpc_unfold elim!: call_cases)
next
  fix l r i acc a l' res
  assume "ledger_ok l" "stored_reference rt r" "lc_Deposit (ledger_rpc rt es ns) i acc a r l = (l', res)"
  then show "booked l' r = booked l r \<or> (\<exists>tx. booked l' r = booked l r @ [tx])"
    by (auto simp: rpc_unfold elim!: call_cases) (metis deposit_response_contract(3))+
next
  fix l r i acc a l' res
  assume "ledger_ok l" "stored_reference rt r" "lc_ReverseDeposit (ledger_rpc rt es ns) i acc a r l = (l', res)"
  then show "booked l' r = booked l r \<or> (\<exists>tx. booked l' r = booked l r @ [tx])"
    by (auto simp: rpc_unfold elim!: call_cases) (metis deposit_response_contract(3))+
next
  fix l r r' i acc a l' res
  assume "ledger_ok l" "stored_reference rt r" "r' \<noteq> r" "lc_Deposit (ledger_rpc rt es ns) i acc a r l = (l', res)"
  then show "booked l' r' = booked l r'"
    by (auto simp: rpc_unfold elim!: call_cases dest: deposit_response_contract(4))
next
  fix l r r' i acc a l' res
  assume "ledger_ok l" "stored_reference rt r" "r' \<noteq> r" "lc_ReverseDeposit (ledger_rpc rt es ns) i acc a r l = (l', res)"
  then show "booked l' r' = booked l r'"
    by (auto simp: rpc_unfold elim!: call_cases dest: deposit_response_contract(4))
next
  fix l a i acc r l' res
  assume "ledger_ok l" "in_int64 a" "lc_Deposit (ledger_rpc rt es ns) i acc a r l = (l', res)"
  then show "ledger_ok l'"
    using deposit_response_ok [of l a rt "es i" genesisAccountID acc r] by (auto simp: rpc_unfold elim!: call_cases)
next
  fix l a i acc r l' res
  assume "ledger_ok l" "in_int64 a" "lc_ReverseDeposit (ledger_rpc rt es ns) i acc a r l = (l', res)"
  then show "ledger_ok l'"
    using deposit_response_ok [of l a rt "es i" acc genesisAccountID r] by (auto simp: rpc_unfold elim!: call_cases)
qed

end
