(* ===== verification/Transfers.thy ===== *)
theory Transfers
  imports Transfers_DB Ledger_Server
begin

text \<open>
  services/transfers-svc/transfer.go: creating a transfer under an idempotency key, the fraud check,
  settlement through the ledger, and the writers of the terminal statuses.

  Go's \<open>ctx\<close>, timeouts and spans are left out; a timeout is one of the transport's statuses. Where a
  function calls another service between two of its statements, an argument says what the other
  requests and workers do to the database meanwhile.
\<close>

subsection \<open>Outcomes\<close>

datatype createTransferOutcome = CreateTransferOK | CreateTransferInvalidAmount | CreateTransferInvalidRecipientIban
  | CreateTransferUnsupportedBank | CreateTransferRecipientNotFound | CreateTransferSelfTransfer
  | CreateTransferRecipientClosed | CreateTransferSenderNotActive | CreateTransferResolveRateLimited
  | CreateTransferReplayed | CreateTransferKeyReused

fun createTransferOutcome_String :: "createTransferOutcome \<Rightarrow> string" where
  "createTransferOutcome_String CreateTransferOK = ''ok''"
| "createTransferOutcome_String CreateTransferInvalidAmount = ''invalid_amount''"
| "createTransferOutcome_String CreateTransferInvalidRecipientIban = ''invalid_recipient_iban''"
| "createTransferOutcome_String CreateTransferUnsupportedBank = ''unsupported_bank''"
| "createTransferOutcome_String CreateTransferRecipientNotFound = ''recipient_not_found''"
| "createTransferOutcome_String CreateTransferSelfTransfer = ''self_transfer''"
| "createTransferOutcome_String CreateTransferRecipientClosed = ''recipient_closed''"
| "createTransferOutcome_String CreateTransferSenderNotActive = ''sender_not_active''"
| "createTransferOutcome_String CreateTransferResolveRateLimited = ''resolve_rate_limited''"
| "createTransferOutcome_String CreateTransferReplayed = ''replayed''"
| "createTransferOutcome_String CreateTransferKeyReused = ''idempotency_key_reused''"

datatype settlementOutcome = SettlementCompleted | SettlementFailed | SettlementUncertain

datatype fraudCheckOutcome = FraudCheckApproved | FraudCheckRejected | FraudCheckUncertain

fun fraudCheckOutcome_String :: "fraudCheckOutcome \<Rightarrow> string" where
  "fraudCheckOutcome_String FraudCheckApproved = ''approved''"
| "fraudCheckOutcome_String FraudCheckRejected = ''rejected''"
| "fraudCheckOutcome_String FraudCheckUncertain = ''uncertain''"

definition failureReasonInsufficientFunds :: string where "failureReasonInsufficientFunds = ''insufficient_funds''"
definition failureReasonAccountNotFound :: string where "failureReasonAccountNotFound = ''account_not_found''"
definition failureReasonInvalidAmount :: string where "failureReasonInvalidAmount = ''invalid_amount''"
definition failureReasonLedgerInternal :: string where "failureReasonLedgerInternal = ''ledger_internal_error''"
definition failureReasonTimeoutUnresolved :: string where "failureReasonTimeoutUnresolved = ''timeout_unresolved''"

subsection \<open>Creating a transfer\<close>

definition transfer_by_key :: "transfers_db \<Rightarrow> string \<Rightarrow> Transfer option" where
  "transfer_by_key db key = find (\<lambda>t. t_IdempotencyKey t = key) (transfers db)"

definition getTransferByIdempotencyKey :: "env \<Rightarrow> nat \<Rightarrow> transfers_db \<Rightarrow> string \<Rightarrow> svc_error + Transfer option" where
  "getTransferByIdempotencyKey e i db key = (if fails e i then Inl ErrStatement else Inr (transfer_by_key db key))"

definition reconcileReplay ::
  "'a accounts_client \<Rightarrow> nat \<Rightarrow> Transfer \<Rightarrow> string \<Rightarrow> string \<Rightarrow> string \<Rightarrow> int \<Rightarrow> 'a
   \<Rightarrow> 'a \<times> (svc_error + Transfer \<times> createTransferOutcome)" where
  "reconcileReplay ac i existing senderAccountID userID recipientIban amount s =
     (if t_SenderAccountID existing \<noteq> senderAccountID \<or> t_Amount existing \<noteq> amount
      then (s, Inr (zero_Transfer, CreateTransferKeyReused))
      else case ac_ResolveAccountByIban ac i recipientIban userID s of
        (s', Inl (c, m)) \<Rightarrow> (s', Inl (ErrCall c))
      | (s', Inr recipient) \<Rightarrow>
          if ar_AccountId recipient \<noteq> t_RecipientAccountID existing
          then (s', Inr (zero_Transfer, CreateTransferKeyReused))
          else (s', Inr (existing, CreateTransferReplayed)))"

definition pending_row :: "env \<Rightarrow> string \<Rightarrow> string \<Rightarrow> string \<Rightarrow> int \<Rightarrow> Transfer" where
  "pending_row e key sender recipient amount =
     \<lparr>t_ID = gen_random_uuid e 0, t_IdempotencyKey = key, t_SenderAccountID = sender, t_RecipientAccountID = recipient,
      t_Amount = amount, t_Status = ''pending'', t_FailureReason = None, t_LedgerTransactionID = None,
      t_CreatedAt = now e, t_UpdatedAt = now e\<rparr>"

text \<open>The INSERT of a pending row at site \<open>i\<close>: \<open>Inl None\<close> is the violation of the idempotency key's constraint.\<close>

definition insert_transfer ::
  "runtime \<Rightarrow> env \<Rightarrow> nat \<Rightarrow> transfers_db \<Rightarrow> string \<Rightarrow> string \<Rightarrow> string \<Rightarrow> int
   \<Rightarrow> transfers_db \<times> (svc_error option + Transfer)" where
  "insert_transfer rt e i db key sender recipient amount =
     (case (uuid_in rt sender, uuid_in rt recipient) of
        (Some su, Some ru) \<Rightarrow>
          if amount \<le> 0 \<or> gen_random_uuid e 0 \<in> t_ID ` set (transfers db) then (db, Inl (Some ErrStatement))
          else if key \<in> t_IdempotencyKey ` set (transfers db) then (db, Inl (if fails e i then Some ErrStatement else None))
          else persist e i db (db\<lparr>transfers := transfers db @ [pending_row e key su ru amount]\<rparr>)
                 (Some ErrStatement) (pending_row e key su ru amount)
      | _ \<Rightarrow> (db, Inl (Some ErrStatement)))"

definition resolve_outcome :: "codes \<Rightarrow> createTransferOutcome option" where
  "resolve_outcome c =
     (case c of
        InvalidArgument \<Rightarrow> Some CreateTransferInvalidRecipientIban
      | FailedPrecondition \<Rightarrow> Some CreateTransferUnsupportedBank
      | NotFound \<Rightarrow> Some CreateTransferRecipientNotFound
      | ResourceExhausted \<Rightarrow> Some CreateTransferResolveRateLimited
      | _ \<Rightarrow> None)"

text \<open>The checks before the INSERT: a final answer, or the recipient's account id.\<close>

definition validate_transfer ::
  "'a accounts_client \<Rightarrow> string \<Rightarrow> string \<Rightarrow> string \<Rightarrow> int \<Rightarrow> 'a
   \<Rightarrow> 'a \<times> ((svc_error + Transfer \<times> createTransferOutcome) + string)" where
  "validate_transfer ac senderAccountID userID recipientIban amount s =
     (if amount \<le> 0 then (s, Inl (Inr (zero_Transfer, CreateTransferInvalidAmount)))
      else case ac_ResolveAccountByIban ac 0 recipientIban userID s of
        (s1, Inl (c, m)) \<Rightarrow>
          (s1, Inl (case resolve_outcome c of Some out \<Rightarrow> Inr (zero_Transfer, out) | None \<Rightarrow> Inl (ErrCall c)))
      | (s1, Inr recipient) \<Rightarrow>
          if ar_AccountId recipient = senderAccountID then (s1, Inl (Inr (zero_Transfer, CreateTransferSelfTransfer)))
          else if ar_Status recipient = accountStatusClosed then (s1, Inl (Inr (zero_Transfer, CreateTransferRecipientClosed)))
          else (case ac_GetAccountByID ac 0 senderAccountID s1 of
                  (s2, Inl (c, m)) \<Rightarrow> (s2, Inl (Inl (ErrCall c)))
                | (s2, Inr sender) \<Rightarrow>
                    if ar_Status sender \<noteq> accountStatusActive
                    then (s2, Inl (Inr (zero_Transfer, CreateTransferSenderNotActive)))
                    else (s2, Inr (ar_AccountId recipient))))"

text \<open>Sites: 0 the SELECT by key, 1 the INSERT, 2 the SELECT after a lost race. \<open>meanwhile\<close> acts after site 0.\<close>

definition createTransfer ::
  "runtime \<Rightarrow> env \<Rightarrow> 'a accounts_client \<Rightarrow> (transfers_db \<Rightarrow> transfers_db) \<Rightarrow> transfers_db \<Rightarrow> 'a
   \<Rightarrow> string \<Rightarrow> string \<Rightarrow> string \<Rightarrow> string \<Rightarrow> int
   \<Rightarrow> transfers_db \<times> 'a \<times> (svc_error + Transfer \<times> createTransferOutcome)" where
  "createTransfer rt e ac meanwhile db s idempotencyKey senderAccountID userID recipientIban amount =
     (case getTransferByIdempotencyKey e 0 db idempotencyKey of
        Inl err \<Rightarrow> (db, s, Inl err)
      | Inr (Some existing) \<Rightarrow>
          (case reconcileReplay ac 0 existing senderAccountID userID recipientIban amount s of
             (s', r) \<Rightarrow> (meanwhile db, s', r))
      | Inr None \<Rightarrow>
          (case validate_transfer ac senderAccountID userID recipientIban amount s of
             (s', Inl r) \<Rightarrow> (meanwhile db, s', r)
           | (s', Inr recipient) \<Rightarrow>
               (case insert_transfer rt e 1 (meanwhile db) idempotencyKey senderAccountID recipient amount of
                  (db', Inr t) \<Rightarrow> (db', s', Inr (t, CreateTransferOK))
                | (db', Inl (Some err)) \<Rightarrow> (db', s', Inl err)
                | (db', Inl None) \<Rightarrow>
                    (case getTransferByIdempotencyKey e 2 db' idempotencyKey of
                       Inl err \<Rightarrow> (db', s', Inl err)
                     | Inr None \<Rightarrow> (db', s', Inl ErrStatement)
                     | Inr (Some winner) \<Rightarrow>
                         (case reconcileReplay ac 1 winner senderAccountID userID recipientIban amount s' of
                            (s'', r) \<Rightarrow> (db', s'', r))))))"

subsection \<open>Terminal statuses and their events\<close>

text \<open>
  The shape all writers share. Sites: 0 begin, 1 UPDATE, 2 the outbox INSERT, 3 commit.
  \<open>mark_row\<close> is the UPDATE ... RETURNING by id; \<open>mark_if_pending\<close> adds the guard on the status and
  takes the event's fields from the caller's copy of the transfer.
\<close>

definition insert_transfer_event ::
  "runtime \<Rightarrow> env \<Rightarrow> transfers_db \<Rightarrow> string \<Rightarrow> string \<Rightarrow> (string \<Rightarrow> event) \<Rightarrow> transfers_db option" where
  "insert_transfer_event rt e db eventType partitionKey payload =
     (case GenerateEventID e 0 of
        None \<Rightarrow> None
      | Some eventID \<Rightarrow> map_option (\<lambda>ob. db\<lparr>outbox := ob\<rparr>)
          (InsertEvent rt e 2 eventID eventType partitionKey (payload eventID) (outbox db)))"

definition mark_row ::
  "runtime \<Rightarrow> env \<Rightarrow> transfers_db \<Rightarrow> string \<Rightarrow> (Transfer \<Rightarrow> Transfer) \<Rightarrow> string \<Rightarrow> (Transfer \<Rightarrow> string \<Rightarrow> event)
   \<Rightarrow> transfers_db \<times> (svc_error + Transfer)" where
  "mark_row rt e db i upd eventType payload =
     (if fails e 0 \<or> fails e 1 then (db, Inl ErrStatement)
      else case uuid_in rt i of
        None \<Rightarrow> (db, Inl ErrStatement)
      | Some u \<Rightarrow>
          (case find (\<lambda>t. t_ID t = u) (transfers db) of
             None \<Rightarrow> (db, Inl ErrStatement)
           | Some t0 \<Rightarrow>
               (case insert_transfer_event rt e (db\<lparr>transfers := update_where (\<lambda>t. t_ID t = u) upd (transfers db)\<rparr>)
                       eventType (t_SenderAccountID (upd t0)) (payload (upd t0)) of
                  None \<Rightarrow> (db, Inl ErrStatement)
                | Some db' \<Rightarrow> persist e 3 db db' ErrStatement (upd t0))))"

definition mark_if_pending ::
  "runtime \<Rightarrow> env \<Rightarrow> transfers_db \<Rightarrow> Transfer \<Rightarrow> (Transfer \<Rightarrow> Transfer) \<Rightarrow> string \<Rightarrow> (string \<Rightarrow> event)
   \<Rightarrow> transfers_db \<times> (svc_error + bool)" where
  "mark_if_pending rt e db transfer upd eventType payload =
     (if fails e 0 \<or> fails e 1 then (db, Inl ErrStatement)
      else case uuid_in rt (t_ID transfer) of
        None \<Rightarrow> (db, Inl ErrStatement)
      | Some u \<Rightarrow>
          let hit = (\<lambda>t. t_ID t = u \<and> t_Status t = ''pending'') in
          if rows_affected hit (transfers db) = 0 then (db, Inr False)
          else (case insert_transfer_event rt e (db\<lparr>transfers := update_where hit upd (transfers db)\<rparr>)
                       eventType (t_SenderAccountID transfer) payload of
                  None \<Rightarrow> (db, Inl ErrStatement)
                | Some db' \<Rightarrow> persist e 3 db db' ErrStatement True))"

definition set_completed :: "env \<Rightarrow> string \<Rightarrow> Transfer \<Rightarrow> Transfer" where
  "set_completed e v t = t\<lparr>t_Status := ''completed'', t_LedgerTransactionID := Some v, t_UpdatedAt := now e\<rparr>"

definition set_failed :: "env \<Rightarrow> string \<Rightarrow> Transfer \<Rightarrow> Transfer" where
  "set_failed e reason t = t\<lparr>t_Status := ''failed'', t_FailureReason := Some reason, t_UpdatedAt := now e\<rparr>"

definition set_rejected :: "env \<Rightarrow> string \<Rightarrow> Transfer \<Rightarrow> Transfer" where
  "set_rejected e rule t = t\<lparr>t_Status := ''rejected'', t_FailureReason := Some rule, t_UpdatedAt := now e\<rparr>"

definition completed_event :: "env \<Rightarrow> string \<Rightarrow> Transfer \<Rightarrow> string \<Rightarrow> event" where
  "completed_event e ledgerTransactionID t eventID =
     TransferCompleted eventID (t_ID t) (t_SenderAccountID t) (t_RecipientAccountID t) (t_Amount t) ledgerTransactionID (clock e)"

definition failed_event :: "env \<Rightarrow> string \<Rightarrow> Transfer \<Rightarrow> string \<Rightarrow> event" where
  "failed_event e reason t eventID =
     TransferFailed eventID (t_ID t) (t_SenderAccountID t) (t_RecipientAccountID t) (t_Amount t) reason (clock e)"

definition rejected_event :: "env \<Rightarrow> string \<Rightarrow> Transfer \<Rightarrow> string \<Rightarrow> event" where
  "rejected_event e rule t eventID =
     TransferRejected eventID (t_ID t) (t_SenderAccountID t) (t_RecipientAccountID t) (t_Amount t) rule (clock e)"

definition markTransferCompleted ::
  "runtime \<Rightarrow> env \<Rightarrow> transfers_db \<Rightarrow> string \<Rightarrow> string \<Rightarrow> transfers_db \<times> (svc_error + Transfer)" where
  "markTransferCompleted rt e db i ledgerTransactionID =
     (case uuid_in rt ledgerTransactionID of
        None \<Rightarrow> (db, Inl ErrStatement)
      | Some v \<Rightarrow> mark_row rt e db i (set_completed e v) ''TransferCompleted'' (completed_event e ledgerTransactionID))"

definition markTransferFailed ::
  "runtime \<Rightarrow> env \<Rightarrow> transfers_db \<Rightarrow> string \<Rightarrow> string \<Rightarrow> transfers_db \<times> (svc_error + Transfer)" where
  "markTransferFailed rt e db i failureReason =
     mark_row rt e db i (set_failed e failureReason) ''TransferFailed'' (failed_event e failureReason)"

definition markTransferRejected ::
  "runtime \<Rightarrow> env \<Rightarrow> transfers_db \<Rightarrow> string \<Rightarrow> string \<Rightarrow> transfers_db \<times> (svc_error + Transfer)" where
  "markTransferRejected rt e db i triggeredRule =
     mark_row rt e db i (set_rejected e triggeredRule) ''TransferRejected'' (rejected_event e triggeredRule)"

definition markTransferCompletedIfPending ::
  "runtime \<Rightarrow> env \<Rightarrow> transfers_db \<Rightarrow> Transfer \<Rightarrow> string \<Rightarrow> transfers_db \<times> (svc_error + bool)" where
  "markTransferCompletedIfPending rt e db transfer ledgerTransactionID =
     (case uuid_in rt ledgerTransactionID of
        None \<Rightarrow> (db, Inl ErrStatement)
      | Some v \<Rightarrow> mark_if_pending rt e db transfer (set_completed e v) ''TransferCompleted''
                     (completed_event e ledgerTransactionID transfer))"

definition markTransferFailedIfPending ::
  "runtime \<Rightarrow> env \<Rightarrow> transfers_db \<Rightarrow> Transfer \<Rightarrow> string \<Rightarrow> transfers_db \<times> (svc_error + bool)" where
  "markTransferFailedIfPending rt e db transfer failureReason =
     mark_if_pending rt e db transfer (set_failed e failureReason) ''TransferFailed'' (failed_event e failureReason transfer)"

text \<open>\<open>updated_at < now() - make_interval(secs => staleAfter)\<close>, in the table's order; a missing ORDER BY allows any.\<close>

definition getStalePendingTransfers :: "env \<Rightarrow> transfers_db \<Rightarrow> int \<Rightarrow> svc_error + Transfer list" where
  "getStalePendingTransfers e db staleAfter =
     (if fails e 0 then Inl ErrStatement
      else Inr (filter (\<lambda>t. t_Status t = ''pending'' \<and> t_UpdatedAt t < now e - staleAfter) (transfers db)))"

subsection \<open>Settlement\<close>

text \<open>What settleTransfer concludes from the ledger's answer: write completed, write failed, or nothing.\<close>

datatype settle_decision = MarkCompleted string | MarkFailed string | LeavePending

definition settle_decide :: "grpc_status + string \<Rightarrow> settle_decision" where
  "settle_decide res =
     (case res of
        Inr transactionID \<Rightarrow> MarkCompleted transactionID
      | Inl (c, m) \<Rightarrow>
          (case c of
             FailedPrecondition \<Rightarrow> MarkFailed failureReasonInsufficientFunds
           | NotFound \<Rightarrow> MarkFailed failureReasonAccountNotFound
           | InvalidArgument \<Rightarrow> MarkFailed failureReasonInvalidAmount
           | Internal \<Rightarrow> MarkFailed failureReasonLedgerInternal
           | _ \<Rightarrow> LeavePending))"

definition settle_record ::
  "runtime \<Rightarrow> env \<Rightarrow> transfers_db \<Rightarrow> Transfer \<Rightarrow> settle_decision \<Rightarrow> transfers_db \<times> (svc_error + Transfer \<times> settlementOutcome)" where
  "settle_record rt e db transfer d =
     (case d of
        MarkCompleted tx \<Rightarrow>
          (case markTransferCompleted rt e db (t_ID transfer) tx of
             (db', Inl err) \<Rightarrow> (db', Inl err)
           | (db', Inr t) \<Rightarrow> (db', Inr (t, SettlementCompleted)))
      | MarkFailed reason \<Rightarrow>
          (case markTransferFailed rt e db (t_ID transfer) reason of
             (db', Inl err) \<Rightarrow> (db', Inl err)
           | (db', Inr t) \<Rightarrow> (db', Inr (t, SettlementFailed)))
      | LeavePending \<Rightarrow> (db, Inr (transfer, SettlementUncertain)))"

definition settleTransfer ::
  "runtime \<Rightarrow> env \<Rightarrow> 'l ledger_client \<Rightarrow> (transfers_db \<Rightarrow> transfers_db) \<Rightarrow> transfers_db \<Rightarrow> 'l \<Rightarrow> Transfer
   \<Rightarrow> transfers_db \<times> 'l \<times> (svc_error + Transfer \<times> settlementOutcome)" where
  "settleTransfer rt e lc meanwhile db l transfer =
     (case lc_ExecuteTransfer lc 0 (t_SenderAccountID transfer) (t_RecipientAccountID transfer) (t_Amount transfer) (t_ID transfer) l of
        (l', res) \<Rightarrow>
          (case settle_record rt e (meanwhile db) transfer (settle_decide res) of
             (db', r) \<Rightarrow> (db', l', r)))"

subsection \<open>The fraud check\<close>

definition checkTransferFraud ::
  "runtime \<Rightarrow> env \<Rightarrow> 'f fraud_client \<Rightarrow> (transfers_db \<Rightarrow> transfers_db) \<Rightarrow> transfers_db \<Rightarrow> 'f \<Rightarrow> Transfer
   \<Rightarrow> transfers_db \<times> 'f \<times> (svc_error + Transfer \<times> fraudCheckOutcome)" where
  "checkTransferFraud rt e fc meanwhile db s transfer =
     (case fc_CheckTransfer fc 0 (t_ID transfer) (t_SenderAccountID transfer) (t_Amount transfer) s of
        (s', Inl status) \<Rightarrow> (meanwhile db, s', Inr (transfer, FraudCheckUncertain))
      | (s', Inr resp) \<Rightarrow>
          if cr_Decision resp = ''approve'' then (meanwhile db, s', Inr (transfer, FraudCheckApproved))
          else if cr_Decision resp = ''reject'' then
            (case markTransferRejected rt e (meanwhile db) (t_ID transfer) (cr_TriggeredRule resp) of
               (db', Inl err) \<Rightarrow> (db', s', Inl err)
             | (db', Inr t) \<Rightarrow> (db', s', Inr (t, FraudCheckRejected)))
          else (meanwhile db, s', Inr (transfer, FraudCheckUncertain)))"

subsection \<open>What the writers do\<close>

text \<open>
  A status write: the transfers with id \<open>u\<close> that satisfy \<open>p\<close> are changed by \<open>upd\<close>, and exactly one
  event is appended to the outbox, in the same commit.
\<close>

definition status_write ::
  "runtime \<Rightarrow> env \<Rightarrow> (Transfer \<Rightarrow> bool) \<Rightarrow> (Transfer \<Rightarrow> Transfer) \<Rightarrow> string \<Rightarrow> string \<Rightarrow> (string \<Rightarrow> event)
   \<Rightarrow> transfers_db \<Rightarrow> transfers_db \<Rightarrow> bool" where
  "status_write rt e p upd eventType partitionKey payload db db' \<longleftrightarrow>
     transfers db' = update_where p upd (transfers db) \<and> (\<exists>t\<in>set (transfers db). p t) \<and>
     (\<exists>eventID ob. GenerateEventID e 0 = Some eventID \<and>
        InsertEvent rt e 2 eventID eventType partitionKey (payload eventID) (outbox db) = Some ob \<and> outbox db' = ob) \<and>
     deposits db' = deposits db \<and> processed_stripe_events db' = processed_stripe_events db \<and> withdrawals db' = withdrawals db"

lemma insert_transfer_event_SomeD:
  assumes "insert_transfer_event rt e db ty k payload = Some db'"
  obtains eventID ob where "GenerateEventID e 0 = Some eventID"
    "InsertEvent rt e 2 eventID ty k (payload eventID) (outbox db) = Some ob" "db' = db\<lparr>outbox := ob\<rparr>"
  using assms by (auto simp: insert_transfer_event_def split: option.splits)

lemma mark_row_cases:
  assumes "mark_row rt e db i upd ty payload = (db', res)"
  obtains (unchanged) "db' = db" "res = Inl ErrStatement"
    | (written) u t where "uuid_in rt i = Some u" "find (\<lambda>t. t_ID t = u) (transfers db) = Some t"
        "status_write rt e (\<lambda>t. t_ID t = u) upd ty (t_SenderAccountID (upd t)) (payload (upd t)) db db'"
        "res = Inr (upd t) \<or> res = Inl ErrStatement \<and> fault_at e 3 = AppliedLost"
proof -
  consider (no) "db' = db" "res = Inl ErrStatement"
    | (yes) u t db2 where "uuid_in rt i = Some u" "find (\<lambda>t. t_ID t = u) (transfers db) = Some t"
        "insert_transfer_event rt e (db\<lparr>transfers := update_where (\<lambda>t. t_ID t = u) upd (transfers db)\<rparr>)
           ty (t_SenderAccountID (upd t)) (payload (upd t)) = Some db2"
        "persist e 3 db db2 ErrStatement (upd t) = (db', res)"
    using assms by (auto simp: mark_row_def split: if_splits option.splits)
  then show thesis
  proof cases
    case no
    with unchanged show ?thesis by simp
  next
    case yes
    from yes(2) have "t \<in> set (transfers db)" "t_ID t = u" by (auto dest: find_Some_in)
    with yes(3) have w: "status_write rt e (\<lambda>t. t_ID t = u) upd ty (t_SenderAccountID (upd t)) (payload (upd t)) db db2"
      by (auto simp: status_write_def elim!: insert_transfer_event_SomeD)
    from yes(4) show ?thesis
      by (cases rule: persist_cases) (use w yes unchanged written in auto)
  qed
qed

lemma mark_if_pending_cases:
  assumes "mark_if_pending rt e db transfer upd ty payload = (db', res)"
  obtains (unchanged) "db' = db" "res \<noteq> Inr True"
    | (written) u where "uuid_in rt (t_ID transfer) = Some u"
        "status_write rt e (\<lambda>t. t_ID t = u \<and> t_Status t = ''pending'') upd ty (t_SenderAccountID transfer) payload db db'"
        "res = Inr True \<or> res = Inl ErrStatement \<and> fault_at e 3 = AppliedLost"
proof -
  consider (no) "db' = db" "res \<noteq> Inr True"
    | (yes) u db2 where "uuid_in rt (t_ID transfer) = Some u"
        "rows_affected (\<lambda>t. t_ID t = u \<and> t_Status t = ''pending'') (transfers db) \<noteq> 0"
        "insert_transfer_event rt e (db\<lparr>transfers := update_where (\<lambda>t. t_ID t = u \<and> t_Status t = ''pending'') upd (transfers db)\<rparr>)
           ty (t_SenderAccountID transfer) payload = Some db2"
        "persist e 3 db db2 ErrStatement True = (db', res)"
    using assms by (auto simp: mark_if_pending_def Let_def split: if_splits option.splits)
  then show thesis
  proof cases
    case no
    with unchanged show ?thesis by simp
  next
    case yes
    then have w: "status_write rt e (\<lambda>t. t_ID t = u \<and> t_Status t = ''pending'') upd ty (t_SenderAccountID transfer) payload db db2"
      by (auto simp: status_write_def rows_affected_0 elim!: insert_transfer_event_SomeD)
    from yes(4) show ?thesis
      by (cases rule: persist_cases) (use w yes unchanged written in auto)
  qed
qed

lemmas mark_defs = markTransferCompleted_def markTransferFailed_def markTransferRejected_def
lemmas mark_pending_defs = markTransferCompletedIfPending_def markTransferFailedIfPending_def
lemmas set_status_defs = set_completed_def set_failed_def set_rejected_def
lemmas event_defs = completed_event_def failed_event_def rejected_event_def

lemma set_status_immutable [simp]:
  "t_ID (set_completed e v t) = t_ID t" "t_ID (set_failed e r t) = t_ID t" "t_ID (set_rejected e r t) = t_ID t"
  "t_IdempotencyKey (set_completed e v t) = t_IdempotencyKey t" "t_IdempotencyKey (set_failed e r t) = t_IdempotencyKey t"
  "t_IdempotencyKey (set_rejected e r t) = t_IdempotencyKey t"
  "t_Amount (set_completed e v t) = t_Amount t" "t_Amount (set_failed e r t) = t_Amount t" "t_Amount (set_rejected e r t) = t_Amount t"
  "t_SenderAccountID (set_completed e v t) = t_SenderAccountID t" "t_SenderAccountID (set_failed e r t) = t_SenderAccountID t"
  "t_SenderAccountID (set_rejected e r t) = t_SenderAccountID t"
  "t_RecipientAccountID (set_completed e v t) = t_RecipientAccountID t" "t_RecipientAccountID (set_failed e r t) = t_RecipientAccountID t"
  "t_RecipientAccountID (set_rejected e r t) = t_RecipientAccountID t"
  "t_CreatedAt (set_completed e v t) = t_CreatedAt t" "t_CreatedAt (set_failed e r t) = t_CreatedAt t"
  "t_CreatedAt (set_rejected e r t) = t_CreatedAt t"
  "t_Status (set_completed e v t) = ''completed''" "t_Status (set_failed e r t) = ''failed''" "t_Status (set_rejected e r t) = ''rejected''"
  "t_LedgerTransactionID (set_completed e v t) = Some v" "t_FailureReason (set_failed e r t) = Some r"
  "t_FailureReason (set_rejected e r t) = Some r"
  by (simp_all add: set_status_defs)

lemma insert_transfer_cases:
  assumes "insert_transfer rt e i db key sender recipient amount = (db', res)"
  obtains (unchanged) "db' = db" "\<And>t. res \<noteq> Inr t"
    | (inserted) su ru where "uuid_in rt sender = Some su" "uuid_in rt recipient = Some ru" "0 < amount"
        "gen_random_uuid e 0 \<notin> t_ID ` set (transfers db)" "key \<notin> t_IdempotencyKey ` set (transfers db)"
        "db' = db\<lparr>transfers := transfers db @ [pending_row e key su ru amount]\<rparr>"
        "res = Inr (pending_row e key su ru amount) \<or> res = Inl (Some ErrStatement) \<and> fault_at e i = AppliedLost"
proof -
  consider (no) "db' = db" "\<forall>t. res \<noteq> Inr t"
    | (yes) su ru where "uuid_in rt sender = Some su" "uuid_in rt recipient = Some ru" "0 < amount"
        "gen_random_uuid e 0 \<notin> t_ID ` set (transfers db)" "key \<notin> t_IdempotencyKey ` set (transfers db)"
        "persist e i db (db\<lparr>transfers := transfers db @ [pending_row e key su ru amount]\<rparr>)
           (Some ErrStatement) (pending_row e key su ru amount) = (db', res)"
    using assms by (auto simp: insert_transfer_def not_le split: if_splits option.splits)
  then show thesis
  proof cases
    case no
    with unchanged show ?thesis by blast
  next
    case yes
    from yes(6) show ?thesis
      by (cases rule: persist_cases) (use yes unchanged inserted in auto)
  qed
qed

end
