(* ===== verification/Transfers_Properties.thy ===== *)
theory Transfers_Properties
  imports Transfers
begin

text \<open>
  What transfer.go guarantees: one row per idempotency key whatever races with it, replays that
  change nothing, status and event in one commit, a guard that never overwrites a final status,
  settlement that agrees with the ledger, and a fraud check that fails closed.
\<close>

subsection \<open>The table of transfers\<close>

definition transfer_statuses :: "string list" where
  "transfer_statuses = [''pending'', ''completed'', ''failed'', ''rejected'']"

definition transfers_inv :: "transfers_db \<Rightarrow> bool" where
  "transfers_inv db \<longleftrightarrow> distinct (map t_ID (transfers db)) \<and> distinct (map t_IdempotencyKey (transfers db)) \<and>
     (\<forall>t\<in>set (transfers db). 0 < t_Amount t \<and> t_Status t \<in> set transfer_statuses \<and>
        (t_Status t = ''completed'' \<longrightarrow> t_LedgerTransactionID t \<noteq> None) \<and>
        (t_Status t \<in> {''failed'', ''rejected''} \<longrightarrow> t_FailureReason t \<noteq> None))"

text \<open>The columns no statement changes.\<close>

definition same_transfer :: "Transfer \<Rightarrow> Transfer \<Rightarrow> bool" where
  "same_transfer t t' \<longleftrightarrow> t_ID t' = t_ID t \<and> t_IdempotencyKey t' = t_IdempotencyKey t \<and>
     t_SenderAccountID t' = t_SenderAccountID t \<and> t_RecipientAccountID t' = t_RecipientAccountID t \<and>
     t_Amount t' = t_Amount t \<and> t_CreatedAt t' = t_CreatedAt t"

definition rows_kept :: "transfers_db \<Rightarrow> transfers_db \<Rightarrow> bool" where
  "rows_kept db db' \<longleftrightarrow> (\<forall>t\<in>set (transfers db). \<exists>t'\<in>set (transfers db'). same_transfer t t')"

lemma same_transfer_refl [simp]: "same_transfer t t"
  by (simp add: same_transfer_def)

lemma same_transfer_trans: "same_transfer a b \<Longrightarrow> same_transfer b c \<Longrightarrow> same_transfer a c"
  by (simp add: same_transfer_def)

lemma rows_kept_refl [simp]: "rows_kept db db"
  unfolding rows_kept_def using same_transfer_refl by blast

lemma rows_kept_trans: "rows_kept a b \<Longrightarrow> rows_kept b c \<Longrightarrow> rows_kept a c"
  unfolding rows_kept_def by (meson same_transfer_trans)

text \<open>The statements that write the table: every writer is one of these, and the rest of the service leaves it alone.\<close>

inductive transfers_step :: "runtime \<Rightarrow> transfers_db \<Rightarrow> transfers_db \<Rightarrow> bool" for rt where
  step_insert: "insert_transfer rt e i db key sender recipient amount = (db', r) \<Longrightarrow> transfers_step rt db db'"
| step_completed: "markTransferCompleted rt e db i tx = (db', r2) \<Longrightarrow> transfers_step rt db db'"
| step_failed: "markTransferFailed rt e db i reason = (db', r2) \<Longrightarrow> transfers_step rt db db'"
| step_rejected: "markTransferRejected rt e db i rule = (db', r2) \<Longrightarrow> transfers_step rt db db'"
| step_completed_pending: "markTransferCompletedIfPending rt e db t tx = (db', r3) \<Longrightarrow> transfers_step rt db db'"
| step_failed_pending: "markTransferFailedIfPending rt e db t reason = (db', r3) \<Longrightarrow> transfers_step rt db db'"
| step_elsewhere: "transfers db' = transfers db \<Longrightarrow> transfers_step rt db db'"

definition status_update :: "env \<Rightarrow> (Transfer \<Rightarrow> Transfer) \<Rightarrow> bool" where
  "status_update e upd \<longleftrightarrow> (\<exists>x. upd \<in> {set_completed e x, set_failed e x, set_rejected e x})"

definition writes_status :: "runtime \<Rightarrow> transfers_db \<Rightarrow> transfers_db \<Rightarrow> bool" where
  "writes_status rt db db' \<longleftrightarrow>
     (\<exists>e p upd ty k payload. status_write rt e p upd ty k payload db db' \<and> status_update e upd)"

lemma status_update_intros [intro, simp]:
  "status_update e (set_completed e x)" "status_update e (set_failed e x)" "status_update e (set_rejected e x)"
  by (auto simp: status_update_def)

lemma mark_row_writes:
  "mark_row rt e db i upd ty payload = (db', r) \<Longrightarrow> status_update e upd \<Longrightarrow> db' = db \<or> writes_status rt db db'"
  unfolding writes_status_def by (erule mark_row_cases) blast+

lemma mark_if_pending_writes:
  "mark_if_pending rt e db t upd ty payload = (db', r) \<Longrightarrow> status_update e upd \<Longrightarrow> db' = db \<or> writes_status rt db db'"
  unfolding writes_status_def by (erule mark_if_pending_cases) blast+

lemma transfers_step_cases2:
  assumes "transfers_step rt db db'"
  obtains (same) "transfers db' = transfers db"
    | (insert) e i key sender recipient amount r where "insert_transfer rt e i db key sender recipient amount = (db', r)"
    | (written) "writes_status rt db db'"
proof -
  from assms have "transfers db' = transfers db \<or> writes_status rt db db' \<or>
    (\<exists>e i key sender recipient amount r. insert_transfer rt e i db key sender recipient amount = (db', r))"
    by cases (force simp: mark_defs mark_pending_defs split: option.splits dest: mark_row_writes mark_if_pending_writes)+
  then show thesis using that by blast
qed

lemma status_write_inv:
  assumes "transfers_inv db" "status_write rt e p upd ty k payload db db'" "status_update e upd"
  shows "transfers_inv db'"
proof -
  have t: "transfers db' = update_where p upd (transfers db)" using assms(2) by (simp add: status_write_def)
  have "map t_ID (transfers db') = map t_ID (transfers db)" "map t_IdempotencyKey (transfers db') = map t_IdempotencyKey (transfers db)"
    using assms(3) by (auto simp: t map_update_where status_update_def)
  moreover have "\<forall>r\<in>set (transfers db'). 0 < t_Amount r \<and> t_Status r \<in> set transfer_statuses \<and>
        (t_Status r = ''completed'' \<longrightarrow> t_LedgerTransactionID r \<noteq> None) \<and>
        (t_Status r \<in> {''failed'', ''rejected''} \<longrightarrow> t_FailureReason r \<noteq> None)"
    using assms(1,3) unfolding t
    by (auto simp: in_set_update_where transfers_inv_def transfer_statuses_def status_update_def split: if_splits)
  ultimately show ?thesis using assms(1) by (simp add: transfers_inv_def)
qed

lemma status_write_kept:
  assumes "status_write rt e p upd ty k payload db db'" "status_update e upd"
  shows "rows_kept db db'"
  unfolding rows_kept_def
proof
  fix t assume "t \<in> set (transfers db)"
  then have "(if p t then upd t else t) \<in> set (transfers db')"
    using assms(1) by (auto simp: status_write_def in_set_update_where)
  moreover have "same_transfer t (if p t then upd t else t)"
    using assms(2) by (auto simp: same_transfer_def status_update_def)
  ultimately show "\<exists>t'\<in>set (transfers db'). same_transfer t t'" by blast
qed

lemma transfers_step_inv:
  assumes "transfers_step rt db db'" "transfers_inv db"
  shows "transfers_inv db'"
  using assms(1)
proof (cases rule: transfers_step_cases2)
  case same
  with assms(2) show ?thesis by (simp add: transfers_inv_def)
next
  case insert
  then show ?thesis
    by (cases rule: insert_transfer_cases)
      (use assms(2) in \<open>auto simp: transfers_inv_def pending_row_def transfer_statuses_def\<close>)
next
  case written
  with assms(2) show ?thesis by (auto simp: writes_status_def intro: status_write_inv)
qed

lemma transfers_step_kept:
  assumes "transfers_step rt db db'"
  shows "rows_kept db db'"
  using assms
proof (cases rule: transfers_step_cases2)
  case same
  then show ?thesis unfolding rows_kept_def by (metis same_transfer_refl)
next
  case insert
  then show ?thesis
    by (cases rule: insert_transfer_cases) (auto simp: rows_kept_def intro: same_transfer_refl)
next
  case written
  then show ?thesis by (auto simp: writes_status_def intro: status_write_kept)
qed

abbreviation transfers_run :: "runtime \<Rightarrow> transfers_db \<Rightarrow> transfers_db \<Rightarrow> bool" where
  "transfers_run rt \<equiv> (transfers_step rt)\<^sup>*\<^sup>*"

lemma transfers_run_inv: "transfers_run rt db db' \<Longrightarrow> transfers_inv db \<Longrightarrow> transfers_inv db'"
  by (induction rule: rtranclp_induct) (auto intro: transfers_step_inv)

lemma transfers_run_kept: "transfers_run rt db db' \<Longrightarrow> rows_kept db db'"
  by (induction rule: rtranclp_induct) (auto intro: rows_kept_trans transfers_step_kept)

lemma migrated_transfers_inv: "transfers_inv migrated_transfers"
  by (simp add: transfers_inv_def migrated_transfers_def)

subsection \<open>Idempotency keys\<close>

lemma validate_transfer_InlD:
  "validate_transfer ac sender user iban amount s = (s', Inl r) \<Longrightarrow>
   r = Inr (t, out) \<Longrightarrow> t = zero_Transfer \<and> out \<notin> {CreateTransferOK, CreateTransferReplayed}"
  by (auto simp: validate_transfer_def resolve_outcome_def split: if_splits sum.splits prod.splits option.splits codes.splits)

lemma reconcileReplay_cases:
  assumes "reconcileReplay ac i existing sender user iban amount s = (s', r)" "r = Inr (t, out)"
  shows "out = CreateTransferReplayed \<and> t = existing \<and> t_SenderAccountID existing = sender \<and> t_Amount existing = amount
    \<or> out = CreateTransferKeyReused \<and> t = zero_Transfer"
  using assms by (auto simp: reconcileReplay_def split: if_splits sum.splits prod.splits)

lemma transfer_by_key_unique:
  assumes "transfers_inv db" "t \<in> set (transfers db)" "t_IdempotencyKey t = key"
  shows "transfer_by_key db key = Some t"
  using assms by (simp add: transfer_by_key_def transfers_inv_def find_unique)

text \<open>
  An idempotency key creates at most one transfer. When a row with the key exists by the time of
  the INSERT, whether it was there from the start or another request inserted it in between, a
  request with that key creates nothing and changes nothing: it answers a refusal, an error, or a
  replay of exactly that row, and the replay only for the same sender and amount.
\<close>

theorem idempotency_key_creates_once:
  assumes "transfers_inv db" "transfers_run rt db (meanwhile db)"
    and "t \<in> set (transfers (meanwhile db))" "t_IdempotencyKey t = key"
    and "createTransfer rt e ac meanwhile db s key sender user iban amount = (db', s', r)"
  shows "db' \<in> {db, meanwhile db} \<and>
    (\<forall>t' out. r = Inr (t', out) \<longrightarrow>
       out = CreateTransferReplayed \<and> same_transfer t t' \<and> sender = t_SenderAccountID t \<and> amount = t_Amount t
       \<or> out \<notin> {CreateTransferOK, CreateTransferReplayed} \<and> t' = zero_Transfer)"
proof (cases "getTransferByIdempotencyKey e 0 db key")
  case (Inl err)
  with assms(5) show ?thesis by (auto simp: createTransfer_def)
next
  case (Inr found)
  have inv: "transfers_inv (meanwhile db)" using assms(1,2) transfers_run_inv by blast
  note t = transfer_by_key_unique [OF inv assms(3,4)]
  show ?thesis
  proof (cases found)
    case (Some existing)
    with Inr have "transfer_by_key db key = Some existing"
      by (simp add: getTransferByIdempotencyKey_def split: if_splits)
    then have ex: "existing \<in> set (transfers db)" "t_IdempotencyKey existing = key"
      by (auto simp: transfer_by_key_def dest: find_Some_in)
    then obtain t2 where "t2 \<in> set (transfers (meanwhile db))" "same_transfer existing t2"
      using transfers_run_kept [OF assms(2)] by (auto simp: rows_kept_def)
    with ex transfer_by_key_unique [OF inv] t have same: "same_transfer existing t"
      by (auto simp: same_transfer_def)
    obtain s2 r2 where x: "reconcileReplay ac 0 existing sender user iban amount s = (s2, r2)" by fastforce
    with assms(5) Inr Some have "db' = meanwhile db" "r = r2" by (simp_all add: createTransfer_def)
    with reconcileReplay_cases [OF x] same show ?thesis by (auto simp: same_transfer_def)
  next
    case None
    obtain s2 v where x: "validate_transfer ac sender user iban amount s = (s2, v)" by fastforce
    show ?thesis
    proof (cases v)
      case (Inl r2)
      with assms(5) Inr None x have "db' = meanwhile db" "r = r2" by (simp_all add: createTransfer_def)
      with validate_transfer_InlD x Inl show ?thesis by (metis insertI1 insertI2)
    next
      case (Inr recipient)
      obtain d w where i: "insert_transfer rt e 1 (meanwhile db) key sender recipient amount = (d, w)" by fastforce
      then have d: "d = meanwhile db" "\<And>t. w \<noteq> Inr t"
        by (cases rule: insert_transfer_cases; use assms(3,4) in auto)+
      obtain s3 r3 where x2: "reconcileReplay ac 1 t sender user iban amount s2 = (s3, r3)" by fastforce
      from assms(5) \<open>getTransferByIdempotencyKey e 0 db key = Inr found\<close> None x Inr i d x2
      have "db' = meanwhile db \<and> ((\<exists>err. r = Inl err) \<or> r = r3)"
        by (auto simp: createTransfer_def getTransferByIdempotencyKey_def t split: sum.splits option.splits if_splits)
      with reconcileReplay_cases [OF x2] show ?thesis by auto
    qed
  qed
qed

text \<open>A client for examples: account ''a'' belongs to the sender, ''b'' to the IBAN ''IB''.\<close>

definition sample_accounts :: "unit accounts_client" where
  "sample_accounts = \<lparr>ac_ResolveAccountByIban = (\<lambda>i iban user s. (s, if iban = ''IB'' then Inr \<lparr>ar_AccountId = ''b'', ar_Status = ''active''\<rparr> else Inl (NotFound, '''' ))),
     ac_GetAccountByID = (\<lambda>i a s. (s, Inr \<lparr>ar_AccountId = a, ar_Status = ''active''\<rparr>)),
     ac_GetAccountByUserID = (\<lambda>i u s. (s, Inr \<lparr>ar_AccountId = ''a'', ar_Status = ''active''\<rparr>)),
     ac_ResolveAccountsByIds = (\<lambda>i ids s. (s, Inr (map (\<lambda>a. (a, ''IBAN of '' @ a)) ids)))\<rparr>"

definition sample_create :: "nat \<Rightarrow> (transfers_db \<Rightarrow> transfers_db) \<Rightarrow> transfers_db \<Rightarrow> transfers_db \<times> unit \<times> (svc_error + Transfer \<times> createTransferOutcome)" where
  "sample_create n meanwhile db =
     createTransfer plain_runtime (sample_env n) sample_accounts meanwhile db () ''key'' ''a'' ''user'' ''IB'' 30"

text \<open>Two requests with one key race: the second has passed its SELECT when the first inserts.\<close>

theorem idempotency_key_creates_once_witness:
  "let other = (\<lambda>db. fst (sample_create 4 id db)) in
   case sample_create 5 other migrated_transfers of
     (db', _, Inr (t', out)) \<Rightarrow> length (transfers db') = 1 \<and> out = CreateTransferReplayed \<and> t_ID t' = sample_ids 4 0
   | _ \<Rightarrow> False"
proof -
  define other where "other = (\<lambda>db. fst (sample_create 4 id db))"
  define t where "t = pending_row (sample_env 4) ''key'' ''a'' ''b'' 30"
  define res where "res = sample_create 5 other migrated_transfers"
  have o: "transfers (other migrated_transfers) = [t]"
    unfolding other_def t_def by code_simp
  have i: "insert_transfer plain_runtime (sample_env 4) 1 migrated_transfers ''key'' ''a'' ''b'' 30
      = (other migrated_transfers, Inr t)"
    unfolding other_def t_def sample_create_def
    by (simp add: createTransfer_def getTransferByIdempotencyKey_def transfer_by_key_def migrated_transfers_def sample_env_def
        validate_transfer_def sample_accounts_def accountStatusClosed_def accountStatusActive_def insert_transfer_def persist_NoFault)
  then have run: "transfers_run plain_runtime migrated_transfers (other migrated_transfers)"
    by (intro r_into_rtranclp transfers_step.step_insert)
  obtain db' s' r where r: "sample_create 5 other migrated_transfers = (db', s', r)" using prod_cases3 by blast
  have out: "(case snd (snd (sample_create 5 other migrated_transfers)) of Inr (t', out) \<Rightarrow> out | Inl _ \<Rightarrow> CreateTransferOK) = CreateTransferReplayed"
    unfolding other_def by code_simp
  have "t \<in> set (transfers (other migrated_transfers))" by (simp add: o)
  from idempotency_key_creates_once [OF migrated_transfers_inv run this _ r [unfolded sample_create_def]]
  have "db' \<in> {migrated_transfers, other migrated_transfers}"
    "\<forall>t' out. r = Inr (t', out) \<longrightarrow> out = CreateTransferReplayed \<and> same_transfer t t' \<or> out \<notin> {CreateTransferOK, CreateTransferReplayed} \<and> t' = zero_Transfer"
    by (auto simp: t_def pending_row_def)
  moreover have "length (transfers (fst (sample_create 5 other migrated_transfers))) = 1"
    unfolding other_def by code_simp
  moreover have "t_ID t = sample_ids 4 0"
    by (simp add: t_def pending_row_def sample_env_def)
  ultimately have "case sample_create 5 other migrated_transfers of
     (db', _, Inr (t', out)) \<Rightarrow> length (transfers db') = 1 \<and> out = CreateTransferReplayed \<and> t_ID t' = sample_ids 4 0
   | _ \<Rightarrow> False"
    using out r by (auto simp: same_transfer_def split: sum.splits)
  then show ?thesis unfolding other_def Let_def .
qed

lemma createTransfer_OKE:
  assumes "createTransfer rt e ac meanwhile db s key sender user iban amount = (db', s', Inr (t, CreateTransferOK))"
  obtains s1 recipient acc where "ac_ResolveAccountByIban ac 0 iban user s = (s1, Inr recipient)"
    "ar_AccountId recipient \<noteq> sender" "ar_Status recipient \<noteq> accountStatusClosed"
    "ac_GetAccountByID ac 0 sender s1 = (s', Inr acc)" "ar_Status acc = accountStatusActive"
    "insert_transfer rt e 1 (meanwhile db) key sender (ar_AccountId recipient) amount = (db', Inr t)"
proof -
  have no_replay: "reconcileReplay ac i x sender user iban amount s1 \<noteq> (s2, Inr (y, CreateTransferOK))" for i x s1 s2 y
    by (auto dest: reconcileReplay_cases)
  have no_val: "validate_transfer ac sender user iban amount s \<noteq> (s2, Inl (Inr (y, CreateTransferOK)))" for s2 y
    by (auto dest: validate_transfer_InlD)
  from assms obtain recipient where v: "validate_transfer ac sender user iban amount s = (s', Inr recipient)"
    and i: "insert_transfer rt e 1 (meanwhile db) key sender recipient amount = (db', Inr t)"
    using no_replay no_val
    by (auto simp: createTransfer_def split: sum.splits option.splits prod.splits)
  with that show thesis
    by (auto simp: validate_transfer_def split: if_splits sum.splits prod.splits)
qed

text \<open>
  A transfer is accepted only after every check. \<open>createTransferOK\<close> means that the amount is
  positive, the recipient resolved to a different account that is not closed, the sender's account is
  active, and no row had the key; the only change is one new pending row that carries exactly the
  request's data.
\<close>

theorem createTransfer_accepts:
  assumes "createTransfer rt e ac meanwhile db s key sender user iban amount = (db', s', Inr (t, CreateTransferOK))"
  shows "0 < amount \<and> key \<notin> t_IdempotencyKey ` set (transfers (meanwhile db)) \<and>
    db' = (meanwhile db)\<lparr>transfers := transfers (meanwhile db) @ [t]\<rparr> \<and>
    t_Status t = ''pending'' \<and> t_IdempotencyKey t = key \<and> t_Amount t = amount \<and>
    uuid_in rt sender = Some (t_SenderAccountID t) \<and>
    (\<exists>s1 recipient s2 acc. ac_ResolveAccountByIban ac 0 iban user s = (s1, Inr recipient) \<and>
       ar_AccountId recipient \<noteq> sender \<and> ar_Status recipient \<noteq> accountStatusClosed \<and>
       uuid_in rt (ar_AccountId recipient) = Some (t_RecipientAccountID t) \<and>
       ac_GetAccountByID ac 0 sender s1 = (s2, Inr acc) \<and> ar_Status acc = accountStatusActive)"
proof -
  from assms obtain s1 recipient acc where v: "ac_ResolveAccountByIban ac 0 iban user s = (s1, Inr recipient)"
    "ar_AccountId recipient \<noteq> sender" "ar_Status recipient \<noteq> accountStatusClosed"
    "ac_GetAccountByID ac 0 sender s1 = (s', Inr acc)" "ar_Status acc = accountStatusActive"
    and i: "insert_transfer rt e 1 (meanwhile db) key sender (ar_AccountId recipient) amount = (db', Inr t)"
    by (rule createTransfer_OKE)
  from i obtain su ru where t: "uuid_in rt sender = Some su" "uuid_in rt (ar_AccountId recipient) = Some ru" "0 < amount"
    "key \<notin> t_IdempotencyKey ` set (transfers (meanwhile db))" "t = pending_row e key su ru amount"
    "db' = (meanwhile db)\<lparr>transfers := transfers (meanwhile db) @ [pending_row e key su ru amount]\<rparr>"
    by (cases rule: insert_transfer_cases) auto
  with v show ?thesis by (auto simp: pending_row_def)
qed

theorem createTransfer_accepts_witness:
  "case sample_create 4 id migrated_transfers of
     (db', _, Inr (t, out)) \<Rightarrow> out = CreateTransferOK \<and> transfers db' = [t] \<and> t_Amount t = 30 \<and> t_RecipientAccountID t = ''b''
   | _ \<Rightarrow> False"
proof -
  obtain db' s' r where x: "sample_create 4 id migrated_transfers = (db', s', r)" using prod_cases3 by blast
  have "snd (snd (sample_create 4 id migrated_transfers)) = Inr (pending_row (sample_env 4) ''key'' ''a'' ''b'' 30, CreateTransferOK)"
    by code_simp
  with x have r: "sample_create 4 id migrated_transfers = (db', s', Inr (pending_row (sample_env 4) ''key'' ''a'' ''b'' 30, CreateTransferOK))"
    by simp
  from createTransfer_accepts [OF this [unfolded sample_create_def]] r show ?thesis
    by (simp add: migrated_transfers_def pending_row_def)
qed

subsection \<open>Status and event in one commit\<close>

definition status_event :: "runtime \<Rightarrow> env \<Rightarrow> string \<Rightarrow> (Transfer \<Rightarrow> string \<Rightarrow> event) \<Rightarrow> (Transfer \<Rightarrow> Transfer) \<Rightarrow> (Transfer \<Rightarrow> bool)
    \<Rightarrow> transfers_db \<Rightarrow> transfers_db \<Rightarrow> bool" where
  "status_event rt e eventType payload upd p db db' \<longleftrightarrow>
     (\<exists>t\<in>set (transfers db). \<exists>eventID u n. p t \<and> transfers db' = update_where (\<lambda>x. t_ID x = t_ID t) upd (transfers db) \<and>
        GenerateEventID e 0 = Some eventID \<and> uuid_in rt eventID = Some u \<and>
        ob_rows (outbox db') = ob_rows (outbox db) @ [new_row e n u eventType (t_SenderAccountID t) (payload (upd t) eventID)])"

lemma status_write_event:
  assumes "transfers_inv db" "status_write rt e p upd ty k payload db db'" "t \<in> set (transfers db)" "p t"
    and "\<And>x. p x \<Longrightarrow> t_ID x = t_ID t" "k = t_SenderAccountID t" "payload = f (upd t)"
  shows "status_event rt e ty f upd p db db'"
proof -
  have eq: "p x \<longleftrightarrow> t_ID x = t_ID t" if "x \<in> set (transfers db)" for x
  proof
    assume "t_ID x = t_ID t"
    with that assms(1,3) have "x = t" by (auto simp: transfers_inv_def distinct_map inj_on_def)
    with assms(4) show "p x" by simp
  qed (rule assms(5))
  then have "update_where p upd (transfers db) = update_where (\<lambda>x. t_ID x = t_ID t) upd (transfers db)"
    by (simp add: update_where_def)
  moreover from assms(2) obtain eventID ob where e: "GenerateEventID e 0 = Some eventID"
    and i: "InsertEvent rt e 2 eventID ty k (payload eventID) (outbox db) = Some ob" "outbox db' = ob"
    by (auto simp: status_write_def)
  moreover from i(1) obtain u where "uuid_in rt eventID = Some u"
    "ob_rows ob = ob_rows (outbox db) @ [new_row e (ob_next (outbox db)) u ty k (payload eventID)]"
    by (rule InsertEvent_SomeD)
  ultimately show ?thesis
    using assms(2,3,4,6,7) unfolding status_event_def status_write_def
    by (intro bexI [of _ t] exI [of _ eventID] exI [of _ u] exI [of _ "ob_next (outbox db)"]) auto
qed

lemma mark_row_event:
  assumes "transfers_inv db" "mark_row rt e db i upd ty f = (db', r)" "\<And>t. t_SenderAccountID (upd t) = t_SenderAccountID t"
  shows "db' = db \<or> status_event rt e ty f upd (\<lambda>t. uuid_in rt i = Some (t_ID t)) db db'"
  using assms(2)
proof (cases rule: mark_row_cases)
  case (written u t)
  then have t: "t \<in> set (transfers db)" "t_ID t = u" by (auto dest: find_Some_in)
  have "status_event rt e ty f upd (\<lambda>t. t_ID t = u) db db'"
    by (rule status_write_event [OF assms(1) written(3) t(1)]) (use t assms(3) in auto)
  with written(1) show ?thesis by (auto simp: status_event_def)
qed simp

lemma mark_if_pending_event:
  assumes "transfers_inv db" "mark_if_pending rt e db tr upd ty (f tr) = (db', r)"
    and "tr0 \<in> set (transfers db)" "same_transfer tr0 tr" "uuid_in rt (t_ID tr) = Some (t_ID tr)"
    and "\<And>a b. same_transfer a b \<Longrightarrow> f (upd a) = f b"
  shows "db' = db \<or> status_event rt e ty f upd (\<lambda>t. t_ID t = t_ID tr \<and> t_Status t = ''pending'') db db'"
  using assms(2)
proof (cases rule: mark_if_pending_cases)
  case (written u)
  with assms(5) have u: "u = t_ID tr" by simp
  from written(2) u obtain t where t: "t \<in> set (transfers db)" "t_ID t = t_ID tr" "t_Status t = ''pending''"
    by (auto simp: status_write_def)
  with assms(1,3,4) have "t = tr0" by (auto simp: transfers_inv_def distinct_map inj_on_def same_transfer_def)
  with assms(4) have "same_transfer t tr" by simp
  then have "status_event rt e ty f upd (\<lambda>t. t_ID t = t_ID tr \<and> t_Status t = ''pending'') db db'"
    by (intro status_write_event [OF assms(1) written(2) [unfolded u] t(1)])
      (use t assms(6) in \<open>auto simp: same_transfer_def\<close>)
  then show ?thesis by simp
qed simp

lemma same_transfer_event:
  assumes "same_transfer a b"
  shows "completed_event e tx (set_completed e v a) = completed_event e tx b"
    "failed_event e x (set_failed e x a) = failed_event e x b"
  using assms by (simp_all add: fun_eq_iff event_defs same_transfer_def)

text \<open>
  a status never changes without its event, nor an event without its status. Each of the five
  writers either leaves the database as it was or, in one commit, sets the final status of one
  transfer and appends exactly one outbox row, of the type of that status, keyed by the sender, with
  the transfer's own data; also when the answer to the commit is lost.
\<close>

theorem status_and_event_together:
  assumes "transfers_inv db" "t \<in> set (transfers db)" "same_transfer t copy" "uuid_in rt (t_ID t) = Some (t_ID t)"
  shows "(case fst (markTransferCompleted rt e db i tx) of db' \<Rightarrow>
       db' = db \<or> (\<exists>v. uuid_in rt tx = Some v \<and> status_event rt e ''TransferCompleted'' (completed_event e tx) (set_completed e v)
          (\<lambda>t. uuid_in rt i = Some (t_ID t)) db db'))
   \<and> (case fst (markTransferFailed rt e db i reason) of db' \<Rightarrow>
       db' = db \<or> status_event rt e ''TransferFailed'' (failed_event e reason) (set_failed e reason)
          (\<lambda>t. uuid_in rt i = Some (t_ID t)) db db')
   \<and> (case fst (markTransferRejected rt e db i rule) of db' \<Rightarrow>
       db' = db \<or> status_event rt e ''TransferRejected'' (rejected_event e rule) (set_rejected e rule)
          (\<lambda>t. uuid_in rt i = Some (t_ID t)) db db')
   \<and> (case fst (markTransferCompletedIfPending rt e db copy tx) of db' \<Rightarrow>
       db' = db \<or> (\<exists>v. uuid_in rt tx = Some v \<and> status_event rt e ''TransferCompleted'' (completed_event e tx) (set_completed e v)
          (\<lambda>x. t_ID x = t_ID t \<and> t_Status x = ''pending'') db db'))
   \<and> (case fst (markTransferFailedIfPending rt e db copy reason) of db' \<Rightarrow>
       db' = db \<or> status_event rt e ''TransferFailed'' (failed_event e reason) (set_failed e reason)
          (\<lambda>x. t_ID x = t_ID t \<and> t_Status x = ''pending'') db db')"
    (is "?A \<and> ?B \<and> ?C \<and> ?D \<and> ?E")
proof (intro conjI)
  note row = mark_row_event [OF assms(1) surjective_pairing]
  have copy: "uuid_in rt (t_ID copy) = Some (t_ID copy)" "t_ID copy = t_ID t"
    using assms(3,4) by (simp_all add: same_transfer_def)
  note pend = mark_if_pending_event [OF assms(1) surjective_pairing assms(2,3) copy(1)]
  show ?A by (auto simp: markTransferCompleted_def row split: option.splits)
  show ?B by (simp add: markTransferFailed_def row)
  show ?C by (simp add: markTransferRejected_def row)
  show ?D
    using pend [where f = "completed_event e tx"] copy(2) same_transfer_event
    by (auto simp: markTransferCompletedIfPending_def split: option.splits)
  show ?E
    using pend [where f = "failed_event e reason"] copy(2) same_transfer_event
    by (auto simp: markTransferFailedIfPending_def)
qed

definition sample_pending :: transfers_db where
  "sample_pending = fst (sample_create 4 id migrated_transfers)"

definition sample_transfer :: Transfer where
  "sample_transfer = pending_row (sample_env 4) ''key'' ''a'' ''b'' 30"

lemma sample_pending_rows: "transfers sample_pending = [sample_transfer]" "outbox sample_pending = empty_outbox"
  unfolding sample_pending_def sample_transfer_def by code_simp+

lemma sample_pending_inv: "transfers_inv sample_pending"
  by (simp add: transfers_inv_def sample_pending_rows sample_transfer_def pending_row_def transfer_statuses_def)

theorem status_and_event_together_witness:
  "let db' = fst (markTransferCompletedIfPending plain_runtime (sample_env 7) sample_pending sample_transfer ''tx'')
   in map t_Status (transfers db') = [''completed''] \<and>
      map o_event_type (ob_rows (outbox db')) = [''TransferCompleted''] \<and>
      status_event plain_runtime (sample_env 7) ''TransferCompleted'' (completed_event (sample_env 7) ''tx'')
        (set_completed (sample_env 7) ''tx'') (\<lambda>x. t_ID x = t_ID sample_transfer \<and> t_Status x = ''pending'') sample_pending db'"
proof -
  define db' where "db' = fst (markTransferCompletedIfPending plain_runtime (sample_env 7) sample_pending sample_transfer ''tx'')"
  have 1: "map t_Status (transfers db') = [''completed'']"
    and 2: "map o_event_type (ob_rows (outbox db')) = [''TransferCompleted'']"
    unfolding db'_def by code_simp+
  have "map t_Status (transfers sample_pending) = [''pending'']" by code_simp
  with 1 have "db' \<noteq> sample_pending" by auto
  with status_and_event_together [OF sample_pending_inv, where t = sample_transfer and copy = sample_transfer and
      rt = plain_runtime and e = "sample_env 7" and tx = "''tx''" and i = "''''" and reason = "''''" and rule = "''''"]
  have "status_event plain_runtime (sample_env 7) ''TransferCompleted'' (completed_event (sample_env 7) ''tx'')
        (set_completed (sample_env 7) ''tx'') (\<lambda>x. t_ID x = t_ID sample_transfer \<and> t_Status x = ''pending'') sample_pending db'"
    by (simp add: sample_pending_rows db'_def)
  with 1 2 show ?thesis unfolding Let_def db'_def by blast
qed

definition pending_write :: "runtime \<Rightarrow> env \<Rightarrow> Transfer \<Rightarrow> transfers_db \<Rightarrow> transfers_db \<Rightarrow> bool" where
  "pending_write rt e copy db db' \<longleftrightarrow> db' = db \<or> (\<exists>u upd ty payload. uuid_in rt (t_ID copy) = Some u \<and>
      status_write rt e (\<lambda>t. t_ID t = u \<and> t_Status t = ''pending'') upd ty (t_SenderAccountID copy) payload db db')"

lemma mark_if_pending_write [simp]: "pending_write rt e copy db (fst (mark_if_pending rt e db copy upd ty payload))"
proof -
  obtain db' r where x: "mark_if_pending rt e db copy upd ty payload = (db', r)" by fastforce
  then show ?thesis by (cases rule: mark_if_pending_cases) (auto simp: x pending_write_def)
qed

text \<open>
  the reconciliation worker's writers never overwrite a final status: every row that is not
  pending stays as it is, at most the worker's own transfer changes, and when that one is already
  final nothing is written at all, no event either.
\<close>

theorem if_pending_keeps_final:
  assumes "db' \<in> {fst (markTransferCompletedIfPending rt e db copy tx), fst (markTransferFailedIfPending rt e db copy reason)}"
  shows "length (transfers db') = length (transfers db)
    \<and> (\<forall>k<length (transfers db). transfers db' ! k \<noteq> transfers db ! k \<longrightarrow>
         t_Status (transfers db ! k) = ''pending'' \<and> uuid_in rt (t_ID copy) = Some (t_ID (transfers db ! k)))
    \<and> ((\<forall>t\<in>set (transfers db). uuid_in rt (t_ID copy) = Some (t_ID t) \<longrightarrow> t_Status t \<noteq> ''pending'') \<longrightarrow> db' = db)"
proof -
  have "pending_write rt e copy db db"
    by (simp add: pending_write_def)
  with assms have "pending_write rt e copy db db'"
    by (auto simp: mark_pending_defs split: option.splits)
  then show ?thesis
    by (auto simp: pending_write_def status_write_def update_where_def split: if_splits)
qed

theorem if_pending_keeps_final_witness:
  "let final = fst (markTransferCompleted plain_runtime (sample_env 7) sample_pending (t_ID sample_transfer) ''tx'') in
   map t_Status (transfers final) = [''completed''] \<and>
   fst (markTransferFailedIfPending plain_runtime (sample_env 8) final sample_transfer ''timeout_unresolved'') = final"
proof -
  define finished where "finished = fst (markTransferCompleted plain_runtime (sample_env 7) sample_pending (t_ID sample_transfer) ''tx'')"
  have 1: "map t_Status (transfers finished) = [''completed'']" unfolding finished_def by code_simp
  let ?db = "fst (markTransferFailedIfPending plain_runtime (sample_env 8) finished sample_transfer ''timeout_unresolved'')"
  from 1 have "\<forall>t\<in>set (transfers finished). t_Status t \<noteq> ''pending''" by auto
  with if_pending_keeps_final [of ?db plain_runtime "sample_env 8" finished sample_transfer "''tx''" "''timeout_unresolved''"]
  have "?db = finished" by auto
  with 1 show ?thesis unfolding Let_def finished_def by blast
qed

subsection \<open>The fraud check fails closed\<close>

text \<open>
  A transfer is approved only by fraud-svc's explicit answer \<open>approve\<close>. Any error of the call and
  any other answer leave the outcome uncertain and this function writes nothing; \<open>reject\<close> is the only
  answer that makes it write, and what it writes is the status rejected with the rule.
\<close>

theorem fraud_check_fails_closed:
  assumes "checkTransferFraud rt e fc meanwhile db s transfer = (db', s', res)"
    and "fc_CheckTransfer fc 0 (t_ID transfer) (t_SenderAccountID transfer) (t_Amount transfer) s = (s2, answer)"
  shows "(\<forall>t. res = Inr (t, FraudCheckApproved) \<longrightarrow>
       (\<exists>resp. answer = Inr resp \<and> cr_Decision resp = ''approve'') \<and> t = transfer \<and> db' = meanwhile db)
    \<and> (\<forall>t. res = Inr (t, FraudCheckUncertain) \<longrightarrow> t = transfer \<and> db' = meanwhile db)
    \<and> (\<forall>t. res = Inr (t, FraudCheckRejected) \<longrightarrow>
       (\<exists>resp. answer = Inr resp \<and> cr_Decision resp = ''reject'' \<and> t_Status t = ''rejected'' \<and> t_FailureReason t = Some (cr_TriggeredRule resp)))
    \<and> (transfers db' \<noteq> transfers (meanwhile db) \<longrightarrow> (\<exists>resp. answer = Inr resp \<and> cr_Decision resp = ''reject''))"
proof (cases answer)
  case (Inl err)
  with assms show ?thesis by (auto simp: checkTransferFraud_def)
next
  case (Inr resp)
  show ?thesis
  proof (cases "cr_Decision resp = ''reject''")
    case False
    with Inr assms show ?thesis by (auto simp: checkTransferFraud_def split: if_splits)
  next
    case True
    obtain d q where m: "markTransferRejected rt e (meanwhile db) (t_ID transfer) (cr_TriggeredRule resp) = (d, q)" by fastforce
    from m have q: "t_Status t = ''rejected'' \<and> t_FailureReason t = Some (cr_TriggeredRule resp)" if "q = Inr t" for t
      using that by (auto simp: mark_defs elim!: mark_row_cases)
    from True Inr assms m have "db' = d" "res = map_sum id (\<lambda>t. (t, FraudCheckRejected)) q"
      by (auto simp: checkTransferFraud_def split: sum.splits)
    with Inr True q show ?thesis by (cases q) auto
  qed
qed

definition sample_fraud :: "string \<Rightarrow> unit fraud_client" where
  "sample_fraud d = \<lparr>fc_CheckTransfer = (\<lambda>i t a amount s. (s, if d = '''' then Inl (Internal, ''internal error'') else Inr \<lparr>cr_Decision = d, cr_TriggeredRule = ''r''\<rparr>))\<rparr>"

theorem fraud_check_fails_closed_witness:
  "checkTransferFraud plain_runtime (sample_env 7) (sample_fraud '''') id sample_pending () sample_transfer
     = (sample_pending, (), Inr (sample_transfer, FraudCheckUncertain)) \<and>
   (case checkTransferFraud plain_runtime (sample_env 7) (sample_fraud ''reject'') id sample_pending () sample_transfer of
      (db', _, Inr (t, FraudCheckRejected)) \<Rightarrow> t_FailureReason t = Some ''r'' | _ \<Rightarrow> False)"
proof -
  let ?c = "checkTransferFraud plain_runtime (sample_env 7) (sample_fraud ''reject'') id sample_pending () sample_transfer"
  obtain db' s' res where c: "?c = (db', s', res)" using prod_cases3 by blast
  have "(case snd (snd ?c) of Inr (t, out) \<Rightarrow> out | _ \<Rightarrow> FraudCheckApproved) = FraudCheckRejected" by code_simp
  with c obtain t where r: "res = Inr (t, FraudCheckRejected)" by (auto split: sum.splits)
  have "fc_CheckTransfer (sample_fraud ''reject'') 0 (t_ID sample_transfer) (t_SenderAccountID sample_transfer) (t_Amount sample_transfer) ()
      = ((), Inr \<lparr>cr_Decision = ''reject'', cr_TriggeredRule = ''r''\<rparr>)"
    by (simp add: sample_fraud_def)
  from fraud_check_fails_closed [OF c this] r have "t_FailureReason t = Some ''r''" by simp
  with c r show ?thesis by (simp add: checkTransferFraud_def sample_fraud_def)
qed

end
