(* ===== verification/Reconcile.thy ===== *)
theory Reconcile
  imports Transfers_Properties
begin

text \<open>
  services/transfers-svc/reconcile.go: the worker that resolves transfers left pending by asking the
  ledger, and settlement seen from the ledger: what the status of a transfer says about the money.
\<close>

subsection \<open>The worker\<close>

definition reconcileTransfer ::
  "runtime \<Rightarrow> env \<Rightarrow> 'l ledger_client \<Rightarrow> nat \<Rightarrow> (transfers_db \<Rightarrow> transfers_db) \<Rightarrow> transfers_db \<Rightarrow> 'l \<Rightarrow> Transfer \<Rightarrow> transfers_db \<times> 'l" where
  "reconcileTransfer rt e lc i meanwhile db l transfer =
     (case lc_GetTransactionByReference lc i (t_ID transfer) l of
        (l', Inl err) \<Rightarrow> (meanwhile db, l')
      | (l', Inr resp) \<Rightarrow>
          if r_found resp
          then (fst (markTransferCompletedIfPending rt e (meanwhile db) transfer (r_transaction_id resp)), l')
          else (fst (markTransferFailedIfPending rt e (meanwhile db) transfer failureReasonTimeoutUnresolved), l'))"

text \<open>The loop over the stale transfers: transfer \<open>i\<close> meets the environment \<open>es i\<close>.\<close>

fun reconcile_loop ::
  "runtime \<Rightarrow> (nat \<Rightarrow> env) \<Rightarrow> 'l ledger_client \<Rightarrow> nat \<Rightarrow> transfers_db \<Rightarrow> 'l \<Rightarrow> Transfer list \<Rightarrow> transfers_db \<times> 'l" where
  "reconcile_loop rt es lc i db l [] = (db, l)"
| "reconcile_loop rt es lc i db l (transfer # stale) =
     (case reconcileTransfer rt (es i) lc i id db l transfer of
        (db', l') \<Rightarrow> reconcile_loop rt es lc (Suc i) db' l' stale)"

definition reconcileOnce ::
  "runtime \<Rightarrow> env \<Rightarrow> (nat \<Rightarrow> env) \<Rightarrow> 'l ledger_client \<Rightarrow> transfers_db \<Rightarrow> 'l \<Rightarrow> int \<Rightarrow> transfers_db \<times> 'l" where
  "reconcileOnce rt e es lc db l staleAfter =
     (case getStalePendingTransfers e db staleAfter of
        Inl err \<Rightarrow> (db, l)
      | Inr stale \<Rightarrow> reconcile_loop rt es lc 0 db l stale)"

subsection \<open>Settlement agrees with the ledger\<close>

definition definite_reasons :: "string set" where
  "definite_reasons = {failureReasonInsufficientFunds, failureReasonAccountNotFound, failureReasonInvalidAmount}"

lemma settle_decide_MarkFailed:
  assumes "settle_decide res = MarkFailed reason" "reason \<in> definite_reasons"
  obtains c m where "res = Inl (c, m)" "c \<in> {FailedPrecondition, NotFound, InvalidArgument}"
  using assms
  by (auto simp: settle_decide_def definite_reasons_def failureReasonInsufficientFunds_def failureReasonAccountNotFound_def
      failureReasonInvalidAmount_def failureReasonLedgerInternal_def split: sum.splits codes.splits)

lemma settle_decide_MarkCompleted: "settle_decide res = MarkCompleted tx \<longleftrightarrow> res = Inr tx"
  by (auto simp: settle_decide_def split: sum.splits codes.splits)

lemma markTransferCompleted_InrD:
  "markTransferCompleted rt e db i tx = (db', Inr t) \<Longrightarrow> t_Status t = ''completed'' \<and> uuid_in rt tx = t_LedgerTransactionID t"
  by (auto simp: mark_defs split: option.splits elim!: mark_row_cases)

lemma markTransferFailed_InrD:
  "markTransferFailed rt e db i reason = (db', Inr t) \<Longrightarrow> t_Status t = ''failed'' \<and> t_FailureReason t = Some reason"
  by (auto simp: mark_defs elim!: mark_row_cases)

lemma settle_record_Inr:
  assumes "settle_record rt e db transfer d = (db', Inr (t, out))"
  shows "(out = SettlementCompleted \<longrightarrow> (\<exists>tx. d = MarkCompleted tx \<and> t_Status t = ''completed'' \<and> uuid_in rt tx = t_LedgerTransactionID t))
    \<and> (out = SettlementFailed \<longrightarrow> (\<exists>reason. d = MarkFailed reason \<and> t_Status t = ''failed'' \<and> t_FailureReason t = Some reason))
    \<and> (out = SettlementUncertain \<longrightarrow> d = LeavePending \<and> t = transfer \<and> db' = db)"
  using assms
  by (auto simp: settle_record_def split: settle_decision.splits sum.splits prod.splits
      dest!: markTransferCompleted_InrD markTransferFailed_InrD)

text \<open>What holds with any ledger that keeps the contract.\<close>

context ledger_service
begin

lemma settle_truthful:
  assumes "ok l" "good (t_ID transfer)" "settleTransfer rt e lc meanwhile db l transfer = (db', l', Inr (t, out))"
  shows "(out = SettlementCompleted \<longrightarrow> t_Status t = ''completed'' \<and>
        (\<exists>tx. refs l' (t_ID transfer) = refs l (t_ID transfer) @ [tx] \<and> uuid_in rt tx = t_LedgerTransactionID t))
    \<and> (out = SettlementFailed \<longrightarrow> t_Status t = ''failed'' \<and>
        (\<exists>reason. t_FailureReason t = Some reason \<and> (reason \<in> definite_reasons \<longrightarrow> l' = l)))
    \<and> (out = SettlementUncertain \<longrightarrow> t = transfer \<and> db' = meanwhile db)"
proof -
  obtain res where x: "lc_ExecuteTransfer lc 0 (t_SenderAccountID transfer) (t_RecipientAccountID transfer) (t_Amount transfer) (t_ID transfer) l = (l', res)"
    and r: "settle_record rt e (meanwhile db) transfer (settle_decide res) = (db', Inr (t, out))"
    using assms(3) by (auto simp: settleTransfer_def split: prod.splits)
  note s = settle_record_Inr [OF r]
  have "refs l' (t_ID transfer) = refs l (t_ID transfer) @ [tx]" if "settle_decide res = MarkCompleted tx" for tx
    using execute_ok [OF assms(1,2)] x that by (simp add: settle_decide_MarkCompleted)
  moreover have "l' = l" if "settle_decide res = MarkFailed reason" "reason \<in> definite_reasons" for reason
    using that x execute_refused by (elim settle_decide_MarkFailed) auto
  ultimately show ?thesis using s by blast
qed

lemma reconcile_truthful:
  assumes "ok l" "good (t_ID transfer)" "reconcileTransfer rt e lc i meanwhile db l transfer = (db', l')"
  shows "l' = l \<and> (db' = meanwhile db
    \<or> (\<exists>tx. refs l (t_ID transfer) \<noteq> [] \<and> tx = hd (refs l (t_ID transfer)) \<and>
         db' = fst (markTransferCompletedIfPending rt e (meanwhile db) transfer tx))
    \<or> refs l (t_ID transfer) = [] \<and>
         db' = fst (markTransferFailedIfPending rt e (meanwhile db) transfer failureReasonTimeoutUnresolved))"
proof -
  obtain res where x: "lc_GetTransactionByReference lc i (t_ID transfer) l = (l', res)"
    using assms(3) by (auto simp: reconcileTransfer_def split: prod.splits sum.splits if_splits)
  have l: "l' = l" by (rule lookup_keeps [OF x])
  show ?thesis
  proof (cases res)
    case (Inl err)
    with assms(3) x l show ?thesis by (simp add: reconcileTransfer_def)
  next
    case (Inr resp)
    from lookup_true [OF assms(1,2)] x Inr
    have "case refs l (t_ID transfer) of [] \<Rightarrow> \<not> r_found resp | tx # _ \<Rightarrow> r_found resp \<and> r_transaction_id resp = tx"
      by auto
    with assms(3) x Inr l show ?thesis by (auto simp: reconcileTransfer_def split: list.splits)
  qed
qed

end

text \<open>
  what the user is told agrees with the ledger. Over ledger-svc itself, with any failure of its
  statements and of the network: when settleTransfer reports completed, exactly one transaction was
  booked under this transfer's id, and its id is on the row; when it reports failed for insufficient
  funds, a missing account or an invalid amount, the ledger is exactly as before; and when the
  outcome is uncertain the row is left alone.
\<close>

theorem settlement_agrees_with_ledger:
  assumes "ledger_ok l" "stored_reference rt (t_ID transfer)"
    and "settleTransfer rt e (ledger_rpc rt es ns) meanwhile db l transfer = (db', l', Inr (t, out))"
  shows "(out = SettlementCompleted \<longrightarrow> t_Status t = ''completed'' \<and>
        (\<exists>tx. booked l' (t_ID transfer) = booked l (t_ID transfer) @ [tx] \<and> uuid_in rt tx = t_LedgerTransactionID t))
    \<and> (out = SettlementFailed \<longrightarrow> t_Status t = ''failed'' \<and>
        (\<exists>reason. t_FailureReason t = Some reason \<and> (reason \<in> definite_reasons \<longrightarrow> l' = l)))
    \<and> (out = SettlementUncertain \<longrightarrow> t = transfer \<and> db' = meanwhile db)"
  by (rule ledger_svc.settle_truthful [OF assms])

definition sample_rpc :: "nat \<Rightarrow> delivery \<Rightarrow> ledger_db ledger_client" where
  "sample_rpc n d = ledger_rpc plain_runtime (\<lambda>_. sample_env n) (\<lambda>_. d)"

lemma ledger_step_debit_first:
  assumes "debit_first db"
  shows "debit_first (ledger_step rt e op db)"
proof -
  have post: "debit_first (fst (postUncheckedTransfer rt e db f t a r))" for f t a r
  proof -
    obtain db' res where x: "postUncheckedTransfer rt e db f t a r = (db', res)" by fastforce
    then show ?thesis
      by (cases rule: postUncheckedTransfer_cases) (use x assms in \<open>auto simp: debit_first_posted\<close>)
  qed
  have exec: "debit_first (fst (executeTransfer rt e db f t a r))" for f t a r
  proof -
    obtain db' res where x: "executeTransfer rt e db f t a r = (db', res)" by fastforce
    then show ?thesis
      by (cases rule: executeTransfer_cases) (use x assms in \<open>auto simp: debit_first_posted\<close>)
  qed
  have rows: "debit_first (fst (createLedgerAccount rt e db a))" "debit_first (fst (rebuildBalance rt e db a))" for a
    using assms
    by (auto simp: debit_first_def createLedgerAccount_def rebuildBalance_def fst_persist split: option.splits sum.splits)
  show ?thesis
    by (cases op) (simp_all add: post exec rows deposit_def reverseDeposit_def)
qed

lemma ledger_step_ok: "ledger_ok db \<Longrightarrow> op_int64 op \<Longrightarrow> ledger_ok (ledger_step rt e op db)"
  by (simp add: ledger_ok_def ledger_step_inv ledger_step_debit_first)

text \<open>Accounts are only added, by every call.\<close>

lemma postUncheckedTransfer_accounts:
  "ledger_accounts (fst (postUncheckedTransfer rt e db f t a reference)) = ledger_accounts db"
proof -
  obtain db' r where x: "postUncheckedTransfer rt e db f t a reference = (db', r)" by fastforce
  then show ?thesis by (cases rule: postUncheckedTransfer_cases) (use x in \<open>simp_all add: posted_def\<close>)
qed

lemma executeTransfer_accounts:
  "ledger_accounts (fst (executeTransfer rt e db f t a reference)) = ledger_accounts db"
proof -
  obtain db' r where x: "executeTransfer rt e db f t a reference = (db', r)" by fastforce
  then show ?thesis by (cases rule: executeTransfer_cases) (use x in \<open>simp_all add: posted_def\<close>)
qed

lemma ledger_step_accounts:
  obtains new where "ledger_accounts (ledger_step rt e op db) = ledger_accounts db @ new"
proof -
  have "\<exists>new. ledger_accounts (ledger_step rt e op db) = ledger_accounts db @ new"
    by (cases op) (simp_all add: executeTransfer_accounts postUncheckedTransfer_accounts deposit_def reverseDeposit_def
        createLedgerAccount_def rebuildBalance_def fst_persist split: option.splits sum.splits)
  then show thesis using that by blast
qed

lemma ledger_reach_debit_first: "ledger_reach rt P db \<Longrightarrow> debit_first db"
  by (induction rule: ledger_reach.induct) (simp_all add: ledger_step_debit_first, simp add: debit_first_def migrated_ledger_def)

lemma ledger_reach_ok: "ledger_reach rt P db \<Longrightarrow> ledger_ok db"
  by (simp add: ledger_ok_def ledger_reach_inv ledger_reach_debit_first)

lemma sample_ledger_ok: "ledger_ok sample_ledger"
  by (rule ledger_reach_ok [OF sample_ledger_reach])

theorem settlement_agrees_with_ledger_witness:
  "case settleTransfer plain_runtime (sample_env 7) (sample_rpc 6 Delivered) id sample_pending sample_ledger sample_transfer of
     (db', l', Inr (t, out)) \<Rightarrow> out = SettlementCompleted \<and> t_Status t = ''completed'' \<and>
        (\<exists>tx. booked l' (t_ID sample_transfer) = [tx] \<and> Some tx = t_LedgerTransactionID t)
   | _ \<Rightarrow> False"
proof -
  let ?s = "settleTransfer plain_runtime (sample_env 7) (sample_rpc 6 Delivered) id sample_pending sample_ledger sample_transfer"
  obtain db' l' res where s: "?s = (db', l', res)" using prod_cases3 by blast
  have "(case snd (snd ?s) of Inr (t, out) \<Rightarrow> Some out | _ \<Rightarrow> None) = Some SettlementCompleted" by code_simp
  with s obtain t where r: "res = Inr (t, SettlementCompleted)" by (auto split: sum.splits)
  have ref: "stored_reference plain_runtime (t_ID sample_transfer)" by code_simp
  have b: "booked sample_ledger (t_ID sample_transfer) = []" by code_simp
  from settlement_agrees_with_ledger [OF sample_ledger_ok ref s [unfolded r sample_rpc_def]] b s r show ?thesis
    by auto
qed

subsection \<open>The worker resolves what is stuck\<close>

text \<open>What the row of a transfer says once the worker has resolved it.\<close>

definition resolved :: "runtime \<Rightarrow> ledger_db \<Rightarrow> Transfer \<Rightarrow> bool" where
  "resolved rt l t =
     (case booked l (t_ID t) of
        [] \<Rightarrow> t_Status t = ''failed'' \<and> t_FailureReason t = Some failureReasonTimeoutUnresolved
      | tx # _ \<Rightarrow> t_Status t = ''completed'' \<and> t_LedgerTransactionID t = uuid_in rt tx)"

definition fresh_event :: "runtime \<Rightarrow> env \<Rightarrow> transfers_db \<Rightarrow> bool" where
  "fresh_event rt e db \<longleftrightarrow> (\<exists>v. GenerateEventID e 0 = Some v \<and> uuid_in rt v = Some v \<and> v \<notin> o_event_id ` set (ob_rows (outbox db)))"

lemma mark_if_pending_succeeds:
  assumes "\<And>i. \<not> fails e i" "fresh_event rt e db" "uuid_in rt (t_ID copy) = Some (t_ID copy)"
    and "t \<in> set (transfers db)" "t_ID t = t_ID copy" "t_Status t = ''pending''"
  shows "\<exists>db'. mark_if_pending rt e db copy upd ty payload = (db', Inr True) \<and>
    transfers db' = update_where (\<lambda>t. t_ID t = t_ID copy \<and> t_Status t = ''pending'') upd (transfers db) \<and>
    o_event_id ` set (ob_rows (outbox db')) = insert (the (GenerateEventID e 0)) (o_event_id ` set (ob_rows (outbox db)))"
proof -
  from assms(2) obtain v where v: "GenerateEventID e 0 = Some v" "uuid_in rt v = Some v" "v \<notin> o_event_id ` set (ob_rows (outbox db))"
    by (auto simp: fresh_event_def)
  have "rows_affected (\<lambda>t. t_ID t = t_ID copy \<and> t_Status t = ''pending'') (transfers db) \<noteq> 0"
    using assms(4-6) by (auto simp: rows_affected_0)
  with assms(1,3) v show ?thesis
    by (simp add: mark_if_pending_def insert_transfer_event_def InsertEvent_def persist_NoFault Let_def new_row_def)
qed

text \<open>One transfer: its row is resolved, the others stay.\<close>

lemma reconcileTransfer_resolves:
  assumes "ledger_ok l" "transfers_inv db" "\<And>i. \<not> fails e i" "\<And>i. \<not> fails (es2 j) i" "fresh_event rt e db"
    and "stored_reference rt (t_ID t)" "t \<in> set (transfers db)" "t_Status t = ''pending''"
    and "\<forall>tx\<in>set (booked l (t_ID t)). uuid_in rt tx \<noteq> None"
  shows "\<exists>db' upd. reconcileTransfer rt e (ledger_rpc rt es2 (\<lambda>_. Delivered)) j id db l t = (db', l) \<and>
    status_update e upd \<and> resolved rt l (upd t) \<and> transfers db' = update_where (\<lambda>x. t_ID x = t_ID t) upd (transfers db) \<and>
    o_event_id ` set (ob_rows (outbox db')) = insert (the (GenerateEventID e 0)) (o_event_id ` set (ob_rows (outbox db)))"
proof -
  have u: "uuid_in rt (t_ID t) = Some (t_ID t)" using assms(6) by (simp add: stored_reference_def)
  have only: "x = t" if "x \<in> set (transfers db)" "t_ID x = t_ID t" for x
    using that assms(2,7) by (auto simp: transfers_inv_def distinct_map inj_on_def)
  have upd_eq: "update_where (\<lambda>x. t_ID x = t_ID t \<and> t_Status x = ''pending'') upd (transfers db)
      = update_where (\<lambda>x. t_ID x = t_ID t) upd (transfers db)" for upd
    using only assms(8) by (auto simp: update_where_def)
  note mark = mark_if_pending_succeeds [OF assms(3,5) u assms(7) refl assms(8), unfolded upd_eq]
  obtain resp where resp: "GetTransactionByReference rt (es2 j) l (t_ID t) = Inr resp"
    using assms(4) u
    by (cases "find (\<lambda>x. e_reference x = Some (t_ID t)) (entries l)")
      (auto simp: GetTransactionByReference_def getTransactionByReference_def)
  note true = GetTransactionByReference_true [OF assms(1,6) resp]
  show ?thesis
  proof (cases "booked l (t_ID t)")
    case Nil
    with true have "\<not> r_found resp" by simp
    with resp have r: "reconcileTransfer rt e (ledger_rpc rt es2 (\<lambda>_. Delivered)) j id db l t
        = (fst (markTransferFailedIfPending rt e db t failureReasonTimeoutUnresolved), l)"
      by (simp add: reconcileTransfer_def ledger_rpc_def)
    from mark [of "set_failed e failureReasonTimeoutUnresolved"] obtain db' where
      "fst (markTransferFailedIfPending rt e db t failureReasonTimeoutUnresolved) = db'"
      "transfers db' = update_where (\<lambda>x. t_ID x = t_ID t) (set_failed e failureReasonTimeoutUnresolved) (transfers db)"
      "o_event_id ` set (ob_rows (outbox db')) = insert (the (GenerateEventID e 0)) (o_event_id ` set (ob_rows (outbox db)))"
      by (metis fst_conv markTransferFailedIfPending_def)
    with r Nil show ?thesis
      by (intro exI [of _ db'] exI [of _ "set_failed e failureReasonTimeoutUnresolved"]) (simp add: resolved_def)
  next
    case (Cons tx rest)
    with true have f: "r_found resp" "r_transaction_id resp = tx" by simp_all
    from assms(9) Cons obtain v where v: "uuid_in rt tx = Some v" by auto
    from resp f have r: "reconcileTransfer rt e (ledger_rpc rt es2 (\<lambda>_. Delivered)) j id db l t
        = (fst (markTransferCompletedIfPending rt e db t tx), l)"
      by (simp add: reconcileTransfer_def ledger_rpc_def)
    from mark [of "set_completed e v"] v obtain db' where
      "fst (markTransferCompletedIfPending rt e db t tx) = db'"
      "transfers db' = update_where (\<lambda>x. t_ID x = t_ID t) (set_completed e v) (transfers db)"
      "o_event_id ` set (ob_rows (outbox db')) = insert (the (GenerateEventID e 0)) (o_event_id ` set (ob_rows (outbox db)))"
      by (simp add: markTransferCompletedIfPending_def) (metis fst_conv)
    with r Cons v show ?thesis
      by (intro exI [of _ db'] exI [of _ "set_completed e v"]) (simp add: resolved_def)
  qed
qed

text \<open>The loop: every stale transfer is resolved and every other row is untouched.\<close>

lemma reconcile_loop_resolves:
  assumes "ledger_ok l" "\<And>i k. \<not> fails (es i) k" "\<And>i k. \<not> fails (es2 i) k"
    and ids: "\<And>i. GenerateEventID (es i) 0 = Some (ev i)" "\<And>i. uuid_in rt (ev i) = Some (ev i)"
    and "transfers_inv db" "distinct (map t_ID stale)" "set stale \<subseteq> set (transfers db)"
    and "\<forall>t\<in>set stale. t_Status t = ''pending'' \<and> stored_reference rt (t_ID t) \<and> (\<forall>tx\<in>set (booked l (t_ID t)). uuid_in rt tx \<noteq> None)"
    and "inj_on ev {i..<i + length stale}" "ev ` {i..<i + length stale} \<inter> o_event_id ` set (ob_rows (outbox db)) = {}"
  shows "\<exists>db'. reconcile_loop rt es (ledger_rpc rt es2 (\<lambda>_. Delivered)) i db l stale = (db', l) \<and>
    (\<forall>t\<in>set (transfers db). \<exists>t'\<in>set (transfers db'). same_transfer t t' \<and> (if t \<in> set stale then resolved rt l t' else t' = t))"
  using assms(6-)
proof (induction stale arbitrary: db i)
  case Nil
  then show ?case by (auto intro: same_transfer_refl)
next
  case (Cons t stale)
  have "i \<in> {i..<i + length (t # stale)}" by simp
  then have "ev i \<notin> o_event_id ` set (ob_rows (outbox db))" using Cons.prems(6) by blast
  then have "fresh_event rt (es i) db" using ids by (simp add: fresh_event_def)
  with Cons.prems assms(1,2,3) obtain db1 upd where
    r: "reconcileTransfer rt (es i) (ledger_rpc rt es2 (\<lambda>_. Delivered)) i id db l t = (db1, l)"
    and upd: "status_update (es i) upd" "resolved rt l (upd t)"
    and t1: "transfers db1 = update_where (\<lambda>x. t_ID x = t_ID t) upd (transfers db)"
    and ev: "o_event_id ` set (ob_rows (outbox db1)) = insert (ev i) (o_event_id ` set (ob_rows (outbox db)))"
    using reconcileTransfer_resolves [of l db "es i" es2 i rt t] ids(1) by auto
  have step: "transfers_step rt db db1"
    using r by (auto simp: reconcileTransfer_def split: prod.splits sum.splits if_splits
        intro: transfers_step.intros(5,6) [OF surjective_pairing] transfers_step.step_elsewhere)
  have stay: "x \<in> set (transfers db1)" if "x \<in> set (transfers db)" "t_ID x \<noteq> t_ID t" for x
    using that by (auto simp: t1 in_set_update_where)
  have "set stale \<subseteq> set (transfers db1)" using Cons.prems(2,3) stay by (fastforce simp: image_iff)
  moreover
  define A where "A = {Suc i..<Suc i + length stale}"
  have split: "{i..<i + length (t # stale)} = insert i A" "i \<notin> A" by (auto simp: A_def)
  have inj: "inj_on ev (insert i A)" using Cons.prems(5) unfolding split(1) .
  have dis: "ev ` insert i A \<inter> o_event_id ` set (ob_rows (outbox db)) = {}" using Cons.prems(6) unfolding split(1) .
  have later: "inj_on ev A" using inj by (rule inj_on_subset) blast
  have out: "ev i \<notin> ev ` A" using inj split(2) by (simp add: inj_on_insert)
  have "ev ` A \<inter> o_event_id ` set (ob_rows (outbox db)) = {}" using dis by (simp only: image_insert Int_insert_left insert_not_empty split: if_splits)
  with out have "ev ` A \<inter> o_event_id ` set (ob_rows (outbox db1)) = {}"
    by (simp only: ev Int_insert_right if_False)
  ultimately obtain db' where l: "reconcile_loop rt es (ledger_rpc rt es2 (\<lambda>_. Delivered)) (Suc i) db1 l stale = (db', l)"
    and rest: "\<And>t. t \<in> set (transfers db1) \<Longrightarrow>
      \<exists>t'\<in>set (transfers db'). same_transfer t t' \<and> (if t \<in> set stale then resolved rt l t' else t' = t)"
    using Cons.IH [of db1 "Suc i"] Cons.prems(1-4) later transfers_step_inv [OF step] unfolding A_def by auto
  have "\<exists>t'\<in>set (transfers db'). same_transfer x t' \<and> (if x \<in> set (t # stale) then resolved rt l t' else t' = x)"
    if x: "x \<in> set (transfers db)" for x
  proof (cases "t_ID x = t_ID t")
    case True
    with x Cons.prems(1,3) have "x = t" by (auto simp: transfers_inv_def distinct_map inj_on_def)
    have "upd t \<in> set (transfers db1)" using Cons.prems(3) by (auto simp: t1 in_set_update_where)
    moreover have "upd t \<notin> set stale" "same_transfer t (upd t)"
      using Cons.prems(2) upd(1) by (auto simp: status_update_def same_transfer_def rev_image_eqI)
    ultimately show ?thesis using rest [of "upd t"] upd(2) \<open>x = t\<close> by auto
  next
    case False
    with rest [OF stay [OF x False]] show ?thesis by auto
  qed
  with r l show ?case by auto
qed

text \<open>
  C8: the worker resolves every stuck transfer, and correctly. One pass without failures leaves
  none of the stale pending transfers pending: each is completed with the transaction the ledger
  has booked under its id, or failed as \<open>timeout_unresolved\<close> exactly when the ledger has booked
  nothing; all other rows and the ledger are untouched. (The ids that Postgres and crypto/rand
  generate are taken to be well-formed and new.)
\<close>

theorem reconcile_resolves_stale:
  assumes "ledger_ok l" "transfers_inv db"
    and "\<And>k. \<not> fails e k" "\<And>i k. \<not> fails (es i) k" "\<And>i k. \<not> fails (es2 i) k"
    and "inj_on ev {..<length (transfers db)}" "\<And>i. GenerateEventID (es i) 0 = Some (ev i)" "\<And>i. uuid_in rt (ev i) = Some (ev i)"
    and "range ev \<inter> o_event_id ` set (ob_rows (outbox db)) = {}"
    and "\<forall>t\<in>set (transfers db). stored_reference rt (t_ID t) \<and> (\<forall>tx\<in>set (booked l (t_ID t)). uuid_in rt tx \<noteq> None)"
  shows "\<exists>db'. reconcileOnce rt e es (ledger_rpc rt es2 (\<lambda>_. Delivered)) db l staleAfter = (db', l) \<and>
    (\<forall>t\<in>set (transfers db). \<exists>t'\<in>set (transfers db'). same_transfer t t' \<and>
       (if t_Status t = ''pending'' \<and> t_UpdatedAt t < now e - staleAfter then resolved rt l t' else t' = t))"
proof -
  let ?stale = "filter (\<lambda>t. t_Status t = ''pending'' \<and> t_UpdatedAt t < now e - staleAfter) (transfers db)"
  have "distinct (map t_ID ?stale)" using assms(2) by (simp add: transfers_inv_def distinct_map_filter)
  moreover have "{0..<0 + length ?stale} \<subseteq> {..<length (transfers db)}"
    using length_filter_le [of _ "transfers db"] by (auto intro: less_le_trans)
  then have "inj_on ev {0..<0 + length ?stale}" using assms(6) by (rule inj_on_subset [rotated])
  moreover have "ev ` {0..<0 + length ?stale} \<inter> o_event_id ` set (ob_rows (outbox db)) = {}" using assms(9) by blast
  ultimately have "\<exists>db'. reconcile_loop rt es (ledger_rpc rt es2 (\<lambda>_. Delivered)) 0 db l ?stale = (db', l) \<and>
    (\<forall>t\<in>set (transfers db). \<exists>t'\<in>set (transfers db'). same_transfer t t' \<and> (if t \<in> set ?stale then resolved rt l t' else t' = t))"
    using assms by (intro reconcile_loop_resolves [where ev = ev]) auto
  then obtain db' where r: "reconcile_loop rt es (ledger_rpc rt es2 (\<lambda>_. Delivered)) 0 db l ?stale = (db', l)"
    and rows: "\<And>t. t \<in> set (transfers db) \<Longrightarrow> \<exists>t'\<in>set (transfers db'). same_transfer t t' \<and> (if t \<in> set ?stale then resolved rt l t' else t' = t)"
    by blast
  have "reconcileOnce rt e es (ledger_rpc rt es2 (\<lambda>_. Delivered)) db l staleAfter = (db', l)"
    using r assms(3) by (simp add: reconcileOnce_def getStalePendingTransfers_def)
  with rows show ?thesis by (intro exI [of _ db']) auto
qed

text \<open>Event ids for the example: the worker's environments read different random bytes.\<close>

definition sample_events :: "nat \<Rightarrow> env" where
  "sample_events i = (sample_env 9)\<lparr>crand_read := (\<lambda>_. Some (word_of_nat i # replicate 15 0))\<rparr>"

lemma sample_events_sel: "\<not> fails (sample_events i) k" "GenerateEventID (sample_events i) 0 \<noteq> None"
  by (simp_all add: sample_events_def sample_env_def fails_def GenerateEventID_def calm_def)

theorem reconcile_resolves_stale_witness:
  "case reconcileOnce plain_runtime (sample_env 200) sample_events (sample_rpc 201 Delivered) sample_pending sample_ledger 60 of
     (db', l) \<Rightarrow> map (\<lambda>t. (t_Status t, t_FailureReason t)) (transfers db') = [(''failed'', Some ''timeout_unresolved'')]"
proof -
  define ev where "ev = (\<lambda>i. the (GenerateEventID (sample_events i) 0))"
  have rows: "\<forall>t\<in>set (transfers sample_pending). stored_reference plain_runtime (t_ID t) \<and>
      (\<forall>tx\<in>set (booked sample_ledger (t_ID t)). uuid_in plain_runtime tx \<noteq> None)"
    by code_simp
  have b: "booked sample_ledger (t_ID sample_transfer) = []" by code_simp
  have stale: "t_Status sample_transfer = ''pending'' \<and> t_UpdatedAt sample_transfer < now (sample_env 200) - 60" by code_simp
  have "\<exists>db'. reconcileOnce plain_runtime (sample_env 200) sample_events (ledger_rpc plain_runtime (\<lambda>_. sample_env 201) (\<lambda>_. Delivered))
      sample_pending sample_ledger 60 = (db', sample_ledger) \<and>
    (\<forall>t\<in>set (transfers sample_pending). \<exists>t'\<in>set (transfers db'). same_transfer t t' \<and>
       (if t_Status t = ''pending'' \<and> t_UpdatedAt t < now (sample_env 200) - 60 then resolved plain_runtime sample_ledger t' else t' = t))"
  proof (rule reconcile_resolves_stale [where ev = ev])
    show "GenerateEventID (sample_events i) 0 = Some (ev i)" for i
      using sample_events_sel(2) [of i] by (auto simp: ev_def)
    show "inj_on ev {..<length (transfers sample_pending)}"
      by (simp add: sample_pending_rows inj_on_def)
    show "\<forall>t\<in>set (transfers sample_pending). stored_reference plain_runtime (t_ID t) \<and>
      (\<forall>tx\<in>set (booked sample_ledger (t_ID t)). uuid_in plain_runtime tx \<noteq> None)" by (rule rows)
  qed (simp_all add: sample_ledger_ok sample_pending_inv sample_events_sel sample_pending_rows empty_outbox_def sample_env_def)
  then obtain db' where r: "reconcileOnce plain_runtime (sample_env 200) sample_events (sample_rpc 201 Delivered) sample_pending sample_ledger 60 = (db', sample_ledger)"
    and "\<exists>t'\<in>set (transfers db'). same_transfer sample_transfer t' \<and> resolved plain_runtime sample_ledger t'"
    using stale by (auto simp: sample_rpc_def sample_pending_rows)
  moreover have "length (transfers (fst (reconcileOnce plain_runtime (sample_env 200) sample_events (sample_rpc 201 Delivered) sample_pending sample_ledger 60))) = 1"
    by code_simp
  ultimately obtain t' where "transfers db' = [t']" "same_transfer sample_transfer t'" "resolved plain_runtime sample_ledger t'"
    by (auto simp: length_Suc_conv)
  then show ?thesis using b r by (simp add: resolved_def same_transfer_def failureReasonTimeoutUnresolved_def)
qed

end
