(* ===== verification/Settlement.thy ===== *)
theory Settlement
  imports Reconcile
begin

text \<open>
  The transfer saga as a whole: any number of requests and reconciliation workers interleaved, each
  step one statement group or one call of another service, with crashes anywhere. A state holds the
  tables of transfers-svc, the ledger, the requests in flight (by the id of their transfer), and the
  answers that workers have got from the ledger and not yet acted on. The functions of the code that wait for
  another service, \<open>createTransfer\<close>, \<open>checkTransferFraud\<close>, \<open>settleTransfer\<close> and \<open>reconcileTransfer\<close>, are shown to be
  runs of these steps with anything happening while they wait (\<open>transfer_handlers\<close>).
\<close>

subsection \<open>Steps\<close>

datatype phase =
    PCreated Transfer                     \<comment> \<open>row inserted, fraud check next\<close>
  | PApproved Transfer                    \<comment> \<open>approved, ledger call next\<close>
  | PAnswered Transfer settle_decision    \<comment> \<open>ledger has answered, status write next\<close>

record saga =
  sg_db :: transfers_db
  sg_ledger :: ledger_db
  sg_live :: "string \<rightharpoonup> phase"
  sg_looked :: "(Transfer \<times> GetTransactionByReferenceResponse) set"

inductive saga_step :: "runtime \<Rightarrow> saga \<Rightarrow> saga \<Rightarrow> bool" for rt where
  sg_insert: "insert_transfer rt e i (sg_db s) key sender recipient amount = (db', r) \<Longrightarrow> in_int64 amount \<Longrightarrow>
    stored_reference rt (gen_random_uuid e 0) \<Longrightarrow> ref_entries (sg_ledger s) (gen_random_uuid e 0) = [] \<Longrightarrow>
    saga_step rt s (s\<lparr>sg_db := db',
      sg_live := (case r of Inr t \<Rightarrow> (sg_live s)(t_ID t \<mapsto> PCreated t) | Inl _ \<Rightarrow> sg_live s)\<rparr>)"
| sg_approve: "sg_live s i = Some (PCreated t) \<Longrightarrow> saga_step rt s (s\<lparr>sg_live := (sg_live s)(i \<mapsto> PApproved t)\<rparr>)"
| sg_reject: "sg_live s i = Some (PCreated t) \<Longrightarrow> markTransferRejected rt e (sg_db s) (t_ID t) rule = (db', r2) \<Longrightarrow>
    saga_step rt s (s\<lparr>sg_db := db', sg_live := (sg_live s)(i := None)\<rparr>)"
| sg_crash: "saga_step rt s (s\<lparr>sg_live := (sg_live s)(i := None)\<rparr>)"
| sg_execute: "sg_live s i = Some (PApproved t) \<Longrightarrow>
    lc_ExecuteTransfer (ledger_rpc rt es ns) 0 (t_SenderAccountID t) (t_RecipientAccountID t) (t_Amount t) (t_ID t) (sg_ledger s) = (l', res) \<Longrightarrow>
    saga_step rt s (s\<lparr>sg_ledger := l', sg_live := (sg_live s)(i \<mapsto> PAnswered t (settle_decide res))\<rparr>)"
| sg_record: "sg_live s i = Some (PAnswered t d) \<Longrightarrow> settle_record rt e (sg_db s) t d = (db', r3) \<Longrightarrow>
    saga_step rt s (s\<lparr>sg_db := db', sg_live := (sg_live s)(i := None)\<rparr>)"
| sg_look: "\<exists>t0\<in>set (transfers (sg_db s)). same_transfer t t0 \<Longrightarrow>
    lc_GetTransactionByReference (ledger_rpc rt es ns) j (t_ID t) (sg_ledger s) = (l', Inr resp) \<Longrightarrow>
    saga_step rt s (s\<lparr>sg_ledger := l', sg_looked := insert (t, resp) (sg_looked s)\<rparr>)"
| sg_resolve_found: "(t, resp) \<in> sg_looked s \<Longrightarrow> r_found resp \<Longrightarrow>
    markTransferCompletedIfPending rt e (sg_db s) t (r_transaction_id resp) = (db', r4) \<Longrightarrow> saga_step rt s (s\<lparr>sg_db := db'\<rparr>)"
| sg_resolve_missing: "(t, resp) \<in> sg_looked s \<Longrightarrow> \<not> r_found resp \<Longrightarrow>
    markTransferFailedIfPending rt e (sg_db s) t failureReasonTimeoutUnresolved = (db', r4) \<Longrightarrow> saga_step rt s (s\<lparr>sg_db := db'\<rparr>)"
| sg_ledger_other: "ledger_ok l' \<Longrightarrow>
    (\<And>t. t \<in> set (transfers (sg_db s)) \<Longrightarrow> ref_entries l' (t_ID t) = ref_entries (sg_ledger s) (t_ID t)) \<Longrightarrow>
    saga_step rt s (s\<lparr>sg_ledger := l'\<rparr>)"
| sg_db_other: "transfers db' = transfers (sg_db s) \<Longrightarrow> saga_step rt s (s\<lparr>sg_db := db'\<rparr>)"

definition saga_start :: "ledger_db \<Rightarrow> saga" where
  "saga_start l = \<lparr>sg_db = migrated_transfers, sg_ledger = l, sg_live = Map.empty, sg_looked = {}\<rparr>"

definition saga_reach :: "runtime \<Rightarrow> saga \<Rightarrow> bool" where
  "saga_reach rt s \<longleftrightarrow> (\<exists>l. ledger_ok l \<and> (saga_step rt)\<^sup>*\<^sup>* (saga_start l) s)"

subsection \<open>The invariant\<close>

lemma booked_refs: "booked db r = map e_transaction_id (filter (\<lambda>x. e_amount x < 0) (ref_entries db r))"
  by (simp add: booked_def ref_entries_def conj_commute)

text \<open>What a phase in flight knows about the ledger's entries \<open>es\<close> under its transfer's id.\<close>

fun phase_ok :: "string list \<Rightarrow> phase \<Rightarrow> bool" where
  "phase_ok b (PCreated t) \<longleftrightarrow> b = []"
| "phase_ok b (PApproved t) \<longleftrightarrow> b = []"
| "phase_ok b (PAnswered t d) \<longleftrightarrow>
     (case d of MarkCompleted tx \<Rightarrow> b = [tx] | MarkFailed reason \<Rightarrow> reason \<in> definite_reasons \<longrightarrow> b = [] | LeavePending \<Rightarrow> True)"

fun phase_transfer :: "phase \<Rightarrow> Transfer" where
  "phase_transfer (PCreated t) = t"
| "phase_transfer (PApproved t) = t"
| "phase_transfer (PAnswered t d) = t"

text \<open>What the status of a row says about the ledger: \<open>b\<close> the transactions booked, \<open>live\<close> whether its request is in flight.\<close>

definition nothing_moved :: "Transfer \<Rightarrow> bool" where
  "nothing_moved t \<longleftrightarrow> t_Status t = ''rejected'' \<or>
     t_Status t = ''failed'' \<and> (\<exists>reason\<in>definite_reasons. t_FailureReason t = Some reason)"

definition row_ok :: "runtime \<Rightarrow> entry_row list \<Rightarrow> string list \<Rightarrow> bool \<Rightarrow> Transfer \<Rightarrow> bool" where
  "row_ok rt es b live t \<longleftrightarrow> stored_reference rt (t_ID t) \<and> in_int64 (t_Amount t) \<and> length b \<le> 1 \<and>
     (\<forall>x\<in>set es. \<bar>e_amount x\<bar> = t_Amount t) \<and>
     (t_Status t = ''completed'' \<longrightarrow> (\<exists>tx. b = [tx] \<and> uuid_in rt tx = t_LedgerTransactionID t)) \<and>
     (nothing_moved t \<longrightarrow> b = [] \<and> \<not> live)"

definition saga_inv :: "runtime \<Rightarrow> saga \<Rightarrow> bool" where
  "saga_inv rt s \<longleftrightarrow> ledger_ok (sg_ledger s) \<and> transfers_inv (sg_db s) \<and>
     (\<forall>t\<in>set (transfers (sg_db s)). row_ok rt (ref_entries (sg_ledger s) (t_ID t)) (booked (sg_ledger s) (t_ID t)) (sg_live s (t_ID t) \<noteq> None) t) \<and>
     (\<forall>i p. sg_live s i = Some p \<longrightarrow> phase_ok (booked (sg_ledger s) i) p \<and> t_ID (phase_transfer p) = i \<and>
        (\<exists>t\<in>set (transfers (sg_db s)). same_transfer t (phase_transfer p))) \<and>
     (\<forall>t resp. (t, resp) \<in> sg_looked s \<longrightarrow> stored_reference rt (t_ID t) \<and> (\<exists>t0\<in>set (transfers (sg_db s)). same_transfer t t0) \<and>
        (r_found resp \<longrightarrow> booked (sg_ledger s) (t_ID t) = [r_transaction_id resp]))"

text \<open>Writing rows: the ledger stays, requests only leave.\<close>

lemma saga_inv_rows:
  assumes "saga_inv rt s" "transfers_inv db'" "rows_kept (sg_db s) db'"
    and rows: "\<And>t'. t' \<in> set (transfers db') \<Longrightarrow> \<exists>t\<in>set (transfers (sg_db s)). same_transfer t t' \<and>
      (t' = t \<or> row_ok rt (ref_entries (sg_ledger s) (t_ID t)) (booked (sg_ledger s) (t_ID t)) (live' (t_ID t) \<noteq> None) t')"
    and live: "\<And>i p. live' i = Some p \<Longrightarrow> sg_live s i = Some p"
  shows "saga_inv rt (s\<lparr>sg_db := db', sg_live := live'\<rparr>)"
proof -
  have "row_ok rt (ref_entries (sg_ledger s) (t_ID t')) (booked (sg_ledger s) (t_ID t')) (live' (t_ID t') \<noteq> None) t'"
    if "t' \<in> set (transfers db')" for t'
  proof -
    from rows [OF that] obtain t where t: "t \<in> set (transfers (sg_db s))" "same_transfer t t'"
      "t' = t \<or> row_ok rt (ref_entries (sg_ledger s) (t_ID t)) (booked (sg_ledger s) (t_ID t)) (live' (t_ID t) \<noteq> None) t'"
      by blast
    have "row_ok rt (ref_entries (sg_ledger s) (t_ID t)) (booked (sg_ledger s) (t_ID t)) (sg_live s (t_ID t) \<noteq> None) t"
      using assms(1) t(1) by (simp add: saga_inv_def)
    then have "row_ok rt (ref_entries (sg_ledger s) (t_ID t)) (booked (sg_ledger s) (t_ID t)) (live' (t_ID t) \<noteq> None) t"
      using live [of "t_ID t"] by (cases "live' (t_ID t)") (auto simp: row_ok_def)
    with t show ?thesis by (auto simp: same_transfer_def)
  qed
  moreover have held: "\<exists>t\<in>set (transfers db'). same_transfer t p" if "\<exists>t\<in>set (transfers (sg_db s)). same_transfer t p" for p
    using that assms(3) unfolding rows_kept_def by (auto simp: same_transfer_def) metis
  moreover have "\<exists>t\<in>set (transfers db'). same_transfer p t" if "\<exists>t\<in>set (transfers (sg_db s)). same_transfer p t" for p
    using that assms(3) unfolding rows_kept_def by (meson same_transfer_trans)
  moreover have "\<forall>i p. live' i = Some p \<longrightarrow> phase_ok (booked (sg_ledger s) i) p \<and> t_ID (phase_transfer p) = i \<and>
      (\<exists>t\<in>set (transfers db'). same_transfer t (phase_transfer p))"
    using assms(1) live held unfolding saga_inv_def by blast
  ultimately show ?thesis
    using assms(1,2) unfolding saga_inv_def by simp
qed

lemma saga_inv_status:
  assumes "saga_inv rt s" "transfers_step rt (sg_db s) db'"
    and "db' = sg_db s \<or> transfers db' = update_where p upd (transfers (sg_db s))"
    and ok: "\<And>t. t \<in> set (transfers (sg_db s)) \<Longrightarrow> p t \<Longrightarrow> same_transfer t (upd t) \<and>
      row_ok rt (ref_entries (sg_ledger s) (t_ID t)) (booked (sg_ledger s) (t_ID t)) (live' (t_ID t) \<noteq> None) (upd t)"
    and live: "\<And>i q. live' i = Some q \<Longrightarrow> sg_live s i = Some q"
  shows "saga_inv rt (s\<lparr>sg_db := db', sg_live := live'\<rparr>)"
proof (rule saga_inv_rows [OF assms(1) _ transfers_step_kept [OF assms(2)] _ live])
  show "transfers_inv db'" using transfers_step_inv [OF assms(2)] assms(1) by (simp add: saga_inv_def)
  fix t' assume "t' \<in> set (transfers db')"
  with assms(3) have "t' \<in> set (transfers (sg_db s)) \<or> (\<exists>t\<in>set (transfers (sg_db s)). p t \<and> t' = upd t)"
    by (auto simp: in_set_update_where split: if_splits)
  with ok show "\<exists>t\<in>set (transfers (sg_db s)). same_transfer t t' \<and>
      (t' = t \<or> row_ok rt (ref_entries (sg_ledger s) (t_ID t)) (booked (sg_ledger s) (t_ID t)) (live' (t_ID t) \<noteq> None) t')"
    using same_transfer_refl by blast
qed

lemma row_ok_completed:
  "row_ok rt es b lv t \<Longrightarrow> b = [tx] \<Longrightarrow> uuid_in rt tx = Some v \<Longrightarrow> row_ok rt es b lv' (set_completed e v t)"
  by (auto simp: row_ok_def nothing_moved_def)

lemma row_ok_failed:
  "row_ok rt es b lv t \<Longrightarrow> (reason \<in> definite_reasons \<Longrightarrow> b = [] \<and> \<not> lv') \<Longrightarrow> row_ok rt es b lv' (set_failed e reason t)"
  by (auto simp: row_ok_def nothing_moved_def)

lemma row_ok_rejected:
  "row_ok rt es b lv t \<Longrightarrow> b = [] \<Longrightarrow> \<not> lv' \<Longrightarrow> row_ok rt es b lv' (set_rejected e rule t)"
  by (auto simp: row_ok_def nothing_moved_def)

lemma same_transfer_set_status [simp]:
  "same_transfer t (set_completed e v t)" "same_transfer t (set_failed e r t)" "same_transfer t (set_rejected e r t)"
  by (simp_all add: same_transfer_def)

lemma timeout_not_definite [simp]: "failureReasonTimeoutUnresolved \<notin> definite_reasons"
  by (simp add: definite_reasons_def failureReasonTimeoutUnresolved_def failureReasonInsufficientFunds_def
      failureReasonAccountNotFound_def failureReasonInvalidAmount_def)

text \<open>The rows each writer touches.\<close>

lemma mark_row_rows:
  assumes "mark_row rt e db i upd ty payload = (db', r)" "uuid_in rt i = Some i"
  shows "db' = db \<or> transfers db' = update_where (\<lambda>t. t_ID t = i) upd (transfers db)"
  using assms(1) by (cases rule: mark_row_cases) (use assms(2) in \<open>auto simp: status_write_def\<close>)

lemma mark_if_pending_rows:
  assumes "mark_if_pending rt e db t upd ty payload = (db', r)" "uuid_in rt (t_ID t) = Some (t_ID t)"
  shows "db' = db \<or> transfers db' = update_where (\<lambda>x. t_ID x = t_ID t \<and> t_Status x = ''pending'') upd (transfers db)"
  using assms(1) by (cases rule: mark_if_pending_cases) (use assms(2) in \<open>auto simp: status_write_def\<close>)

text \<open>What one call of the ledger does to the entries under each reference.\<close>

lemma ExecuteTransfer_refs:
  assumes "ExecuteTransfer rt e f t a r db = (db', res)" "stored_reference rt r"
  shows "r' \<noteq> r \<Longrightarrow> ref_entries db' r' = ref_entries db r'"
    and "x \<in> set (ref_entries db' r) \<Longrightarrow> x \<in> set (ref_entries db r) \<or> \<bar>e_amount x\<bar> = a"
proof -
  have p: "reference_param rt r = Some (Some r)"
    using assms(2) by (simp add: stored_reference_def reference_param_def)
  show "r' \<noteq> r \<Longrightarrow> ref_entries db' r' = ref_entries db r'"
    using assms(1) by (cases rule: ExecuteTransfer_cases) (use p in \<open>auto simp: ref_entries_posted\<close>)
  show "x \<in> set (ref_entries db' r) \<Longrightarrow> x \<in> set (ref_entries db r) \<or> \<bar>e_amount x\<bar> = a"
    using assms(1)
    by (cases rule: ExecuteTransfer_cases) (use p in \<open>auto simp: ref_entries_posted pair_entries_def\<close>)
qed

lemma saga_inv_row:
  "saga_inv rt s \<Longrightarrow> t \<in> set (transfers (sg_db s)) \<Longrightarrow>
   row_ok rt (ref_entries (sg_ledger s) (t_ID t)) (booked (sg_ledger s) (t_ID t)) (sg_live s (t_ID t) \<noteq> None) t"
  by (simp add: saga_inv_def)

lemma saga_inv_live:
  assumes "saga_inv rt s" "sg_live s i = Some p"
  shows "phase_ok (booked (sg_ledger s) i) p" "t_ID (phase_transfer p) = i" "stored_reference rt i" "in_int64 (t_Amount (phase_transfer p))"
    "\<exists>t\<in>set (transfers (sg_db s)). same_transfer t (phase_transfer p)"
proof -
  from assms show "phase_ok (booked (sg_ledger s) i) p" "t_ID (phase_transfer p) = i"
    "\<exists>t\<in>set (transfers (sg_db s)). same_transfer t (phase_transfer p)"
    by (auto simp: saga_inv_def)
  then obtain t where "t \<in> set (transfers (sg_db s))" "same_transfer t (phase_transfer p)" by blast
  with saga_inv_row [OF assms(1)] \<open>t_ID (phase_transfer p) = i\<close>
  show "stored_reference rt i" "in_int64 (t_Amount (phase_transfer p))" by (auto simp: row_ok_def same_transfer_def)
qed

lemma saga_inv_looked:
  assumes "saga_inv rt s" "(t, resp) \<in> sg_looked s"
  shows "uuid_in rt (t_ID t) = Some (t_ID t)" "\<exists>t0\<in>set (transfers (sg_db s)). same_transfer t t0"
    "r_found resp \<Longrightarrow> booked (sg_ledger s) (t_ID t) = [r_transaction_id resp]"
  using assms by (auto simp: saga_inv_def stored_reference_def)

lemma saga_reject:
  assumes "saga_inv rt s" "sg_live s i = Some (PCreated t)" "markTransferRejected rt e (sg_db s) (t_ID t) rule = (db', r)"
  shows "saga_inv rt (s\<lparr>sg_db := db', sg_live := (sg_live s)(i := None)\<rparr>)"
proof -
  note live = saga_inv_live [OF assms(1,2)]
  from assms(3) live(2,3) have "db' = sg_db s \<or> transfers db' = update_where (\<lambda>x. t_ID x = i) (set_rejected e rule) (transfers (sg_db s))"
    unfolding mark_defs by (intro mark_row_rows) (auto simp: stored_reference_def)
  then show ?thesis
  proof (rule saga_inv_status [OF assms(1) transfers_step.step_rejected [OF assms(3)]])
    fix x assume "x \<in> set (transfers (sg_db s))" "t_ID x = i"
    then show "same_transfer x (set_rejected e rule x) \<and> row_ok rt (ref_entries (sg_ledger s) (t_ID x)) (booked (sg_ledger s) (t_ID x))
        (((sg_live s)(i := None)) (t_ID x) \<noteq> None) (set_rejected e rule x)"
      using row_ok_rejected [OF saga_inv_row [OF assms(1), of x]] live(1) by auto
  qed (auto split: if_splits)
qed

lemma saga_record:
  assumes "saga_inv rt s" "sg_live s i = Some (PAnswered t d)" "settle_record rt e (sg_db s) t d = (db', r)"
  shows "saga_inv rt (s\<lparr>sg_db := db', sg_live := (sg_live s)(i := None)\<rparr>)"
proof -
  note live = saga_inv_live [OF assms(1,2)]
  have u: "uuid_in rt (t_ID t) = Some (t_ID t)" "t_ID t = i" using live(2,3) by (auto simp: stored_reference_def)
  have row: "row_ok rt (ref_entries (sg_ledger s) (t_ID x)) (booked (sg_ledger s) (t_ID x)) (sg_live s (t_ID x) \<noteq> None) x"
    if "x \<in> set (transfers (sg_db s))" for x
    by (rule saga_inv_row [OF assms(1) that])
  show ?thesis
  proof (cases d)
    case (MarkCompleted tx)
    with assms(3) obtain q where m: "markTransferCompleted rt e (sg_db s) (t_ID t) tx = (db', q)"
      by (auto simp: settle_record_def split: prod.splits sum.splits)
    have b: "booked (sg_ledger s) i = [tx]" using live(1) MarkCompleted by simp
    show ?thesis
    proof (cases "uuid_in rt tx")
      case None
      with m have "db' = sg_db s" by (simp add: mark_defs)
      then show ?thesis
        by (intro saga_inv_status [OF assms(1) transfers_step.step_elsewhere, where p = "\<lambda>_. False"]) (auto split: if_splits)
    next
      case (Some v)
      with m u have "db' = sg_db s \<or> transfers db' = update_where (\<lambda>x. t_ID x = i) (set_completed e v) (transfers (sg_db s))"
        unfolding mark_defs by (intro mark_row_rows) auto
      then show ?thesis
        by (rule saga_inv_status [OF assms(1) transfers_step.step_completed [OF m]])
          (use row_ok_completed [OF row _ Some] b in \<open>auto split: if_splits\<close>)
    qed
  next
    case (MarkFailed reason)
    with assms(3) obtain q where m: "markTransferFailed rt e (sg_db s) (t_ID t) reason = (db', q)"
      by (auto simp: settle_record_def split: prod.splits sum.splits)
    have b: "reason \<in> definite_reasons \<Longrightarrow> booked (sg_ledger s) i = []" using live(1) MarkFailed by simp
    from m u have "db' = sg_db s \<or> transfers db' = update_where (\<lambda>x. t_ID x = i) (set_failed e reason) (transfers (sg_db s))"
      unfolding mark_defs by (intro mark_row_rows) auto
    then show ?thesis
      by (rule saga_inv_status [OF assms(1) transfers_step.step_failed [OF m]])
        (use row_ok_failed [OF row] b in \<open>auto split: if_splits\<close>)
  next
    case LeavePending
    with assms(3) have "db' = sg_db s" by (simp add: settle_record_def)
    then show ?thesis
      by (intro saga_inv_status [OF assms(1) transfers_step.step_elsewhere, where p = "\<lambda>_. False"]) (auto split: if_splits)
  qed
qed

lemma saga_resolve:
  assumes "saga_inv rt s" "(t, resp) \<in> sg_looked s"
  shows "r_found resp \<Longrightarrow> markTransferCompletedIfPending rt e (sg_db s) t (r_transaction_id resp) = (db', r) \<Longrightarrow> saga_inv rt (s\<lparr>sg_db := db'\<rparr>)"
    and "markTransferFailedIfPending rt e (sg_db s) t failureReasonTimeoutUnresolved = (db', r) \<Longrightarrow> saga_inv rt (s\<lparr>sg_db := db'\<rparr>)"
proof -
  note k = saga_inv_looked [OF assms]
  have row: "row_ok rt (ref_entries (sg_ledger s) (t_ID x)) (booked (sg_ledger s) (t_ID x)) (sg_live s (t_ID x) \<noteq> None) x"
    if "x \<in> set (transfers (sg_db s))" for x
    by (rule saga_inv_row [OF assms(1) that])
  have same_live: "s\<lparr>sg_db := db'\<rparr> = s\<lparr>sg_db := db', sg_live := sg_live s\<rparr>" by simp
  {
    assume f: "r_found resp" and m: "markTransferCompletedIfPending rt e (sg_db s) t (r_transaction_id resp) = (db', r)"
    have "saga_inv rt (s\<lparr>sg_db := db', sg_live := sg_live s\<rparr>)"
    proof (cases "uuid_in rt (r_transaction_id resp)")
      case None
      with m have "db' = sg_db s" by (simp add: mark_pending_defs)
      then show ?thesis using assms(1) by simp
    next
      case (Some v)
      with m k(1) have "db' = sg_db s \<or> transfers db' =
          update_where (\<lambda>x. t_ID x = t_ID t \<and> t_Status x = ''pending'') (set_completed e v) (transfers (sg_db s))"
        unfolding mark_pending_defs by (intro mark_if_pending_rows) auto
      then show ?thesis
      proof (rule saga_inv_status [OF assms(1) transfers_step.step_completed_pending [OF m]])
        fix x assume x: "x \<in> set (transfers (sg_db s))" "t_ID x = t_ID t \<and> t_Status x = ''pending''"
        then have "booked (sg_ledger s) (t_ID x) = [r_transaction_id resp]" using k(3) [OF f] by simp
        from row_ok_completed [OF row [OF x(1)] this Some]
        show "same_transfer x (set_completed e v x) \<and> row_ok rt (ref_entries (sg_ledger s) (t_ID x))
            (booked (sg_ledger s) (t_ID x)) (sg_live s (t_ID x) \<noteq> None) (set_completed e v x)" by simp
      qed
    qed
    then show "saga_inv rt (s\<lparr>sg_db := db'\<rparr>)" using same_live by simp
  }
  {
    assume m: "markTransferFailedIfPending rt e (sg_db s) t failureReasonTimeoutUnresolved = (db', r)"
    with k(1) have "db' = sg_db s \<or> transfers db' =
        update_where (\<lambda>x. t_ID x = t_ID t \<and> t_Status x = ''pending'') (set_failed e failureReasonTimeoutUnresolved) (transfers (sg_db s))"
      unfolding mark_pending_defs by (intro mark_if_pending_rows) auto
    then have "saga_inv rt (s\<lparr>sg_db := db', sg_live := sg_live s\<rparr>)"
    proof (rule saga_inv_status [OF assms(1) transfers_step.step_failed_pending [OF m]])
      fix x assume x: "x \<in> set (transfers (sg_db s))"
      from row_ok_failed [OF row [OF x], of failureReasonTimeoutUnresolved]
      show "same_transfer x (set_failed e failureReasonTimeoutUnresolved x) \<and> row_ok rt (ref_entries (sg_ledger s) (t_ID x))
          (booked (sg_ledger s) (t_ID x)) (sg_live s (t_ID x) \<noteq> None) (set_failed e failureReasonTimeoutUnresolved x)" by simp
    qed
    then show "saga_inv rt (s\<lparr>sg_db := db'\<rparr>)" using same_live by simp
  }
qed

lemma saga_insert:
  assumes "saga_inv rt s" "insert_transfer rt e i (sg_db s) key sender recipient amount = (db', r)" "in_int64 amount"
    and "stored_reference rt (gen_random_uuid e 0)" "ref_entries (sg_ledger s) (gen_random_uuid e 0) = []"
  shows "saga_inv rt (s\<lparr>sg_db := db', sg_live := (case r of Inr t \<Rightarrow> (sg_live s)(t_ID t \<mapsto> PCreated t) | Inl _ \<Rightarrow> sg_live s)\<rparr>)"
  using assms(2)
proof (cases rule: insert_transfer_cases)
  case unchanged
  then show ?thesis using assms(1) by (auto split: sum.splits)
next
  case (inserted su ru)
  let ?t = "pending_row e key su ru amount"
  have t: "t_ID ?t = gen_random_uuid e 0" "t_Amount ?t = amount" "t_Status ?t = ''pending''"
    by (simp_all add: pending_row_def)
  have new: "row_ok rt (ref_entries (sg_ledger s) (t_ID ?t)) (booked (sg_ledger s) (t_ID ?t)) lv ?t" for lv
    using assms(3-5) by (simp add: row_ok_def t booked_refs nothing_moved_def)
  have none: "sg_live s (gen_random_uuid e 0) = None"
  proof (rule ccontr)
    assume "sg_live s (gen_random_uuid e 0) \<noteq> None"
    then obtain p where p: "sg_live s (gen_random_uuid e 0) = Some p" by blast
    from saga_inv_live(2,5) [OF assms(1) p] inserted(4) show False by (force simp: same_transfer_def)
  qed
  have inv: "transfers_inv db'"
    using transfers_step_inv [OF transfers_step.step_insert [OF assms(2)]] assms(1) by (simp add: saga_inv_def)
  have b: "booked (sg_ledger s) (gen_random_uuid e 0) = []" using assms(5) by (simp add: booked_refs)
  have old: "x \<in> set (transfers (sg_db s)) \<Longrightarrow> t_ID x \<noteq> gen_random_uuid e 0" for x
    using inserted(4) imageI [of x "set (transfers (sg_db s))" t_ID] by metis
  have rows: "set (transfers db') = insert ?t (set (transfers (sg_db s)))" by (simp add: inserted(6))
  from inserted(7) show ?thesis
  proof
    assume "r = Inr ?t"
    with assms(1) inv new b old none rows show ?thesis
      unfolding saga_inv_def by (auto simp: t intro: same_transfer_refl)
  next
    assume "r = Inl (Some ErrStatement) \<and> fault_at e i = AppliedLost"
    with assms(1) inv new rows show ?thesis unfolding saga_inv_def by auto
  qed
qed

lemma saga_execute:
  assumes "saga_inv rt s" "sg_live s i = Some (PApproved t)"
    and "lc_ExecuteTransfer (ledger_rpc rt es ns) 0 (t_SenderAccountID t) (t_RecipientAccountID t) (t_Amount t) (t_ID t) (sg_ledger s) = (l', res)"
  shows "saga_inv rt (s\<lparr>sg_ledger := l', sg_live := (sg_live s)(i \<mapsto> PAnswered t (settle_decide res))\<rparr>)"
proof -
  note live = saga_inv_live [OF assms(1,2)]
  have i: "t_ID t = i" "booked (sg_ledger s) i = []" using live by simp_all
  have ok: "ledger_ok (sg_ledger s)" using assms(1) by (simp add: saga_inv_def)
  have good: "stored_reference rt (t_ID t)" using live(3) i by simp
  have refs: "r' \<noteq> t_ID t \<Longrightarrow> ref_entries l' r' = ref_entries (sg_ledger s) r'"
    "x \<in> set (ref_entries l' (t_ID t)) \<Longrightarrow> x \<in> set (ref_entries (sg_ledger s) (t_ID t)) \<or> \<bar>e_amount x\<bar> = t_Amount t" for r' x
    using assms(3) ExecuteTransfer_refs(1) [OF _ good] ExecuteTransfer_refs(2) [OF _ good]
    by (auto simp: ledger_rpc_def elim!: call_cases) metis+
  have ok': "ledger_ok l'" using ledger_svc.execute_keeps [OF ok _ assms(3)] live(4) by simp
  have other: "booked l' r' = booked (sg_ledger s) r'" if "r' \<noteq> i" for r'
    using refs(1) [of r'] that i by (simp add: booked_refs)
  have mine: "length (booked l' i) \<le> 1"
    using ledger_svc.execute_any [OF ok good assms(3)] i by auto
  have phase: "phase_ok (booked l' i) (PAnswered t (settle_decide res))"
  proof (cases "settle_decide res")
    case (MarkCompleted tx)
    then have "res = Inr tx" by (simp add: settle_decide_MarkCompleted)
    with ledger_svc.execute_ok [OF ok good] assms(3) MarkCompleted i show ?thesis by simp
  next
    case (MarkFailed reason)
    have "booked l' i = []" if "reason \<in> definite_reasons"
      using ledger_svc.execute_refused assms(3) i settle_decide_MarkFailed [OF MarkFailed that] by metis
    with MarkFailed show ?thesis by simp
  qed simp
  have row: "row_ok rt (ref_entries l' (t_ID x)) (booked l' (t_ID x)) (((sg_live s)(i \<mapsto> PAnswered t (settle_decide res))) (t_ID x) \<noteq> None) x"
    if "x \<in> set (transfers (sg_db s))" for x
  proof (cases "t_ID x = i")
    case False
    with saga_inv_row [OF assms(1) that] refs(1) [of "t_ID x"] other i show ?thesis by simp
  next
    case True
    note r = saga_inv_row [OF assms(1) that, unfolded True]
    from live(5) obtain t0 where t0: "t0 \<in> set (transfers (sg_db s))" "same_transfer t0 t" by auto
    then have "t0 = x" using True i that assms(1) by (auto simp: saga_inv_def transfers_inv_def distinct_map inj_on_def same_transfer_def)
    then have "t_Amount x = t_Amount t" using t0 by (simp add: same_transfer_def)
    with r refs(2) mine i assms(2) True show ?thesis by (auto simp: row_ok_def)
  qed
  have "booked l' (t_ID x) = booked (sg_ledger s) (t_ID x)" if "(x, resp) \<in> sg_looked s" "r_found resp" for x resp
    using saga_inv_looked(3) [OF assms(1) that] i other by (cases "t_ID x = i") auto
  with assms(1) ok' row phase other live(5) i show ?thesis
    unfolding saga_inv_def by auto
qed

lemma saga_step_inv:
  assumes "saga_step rt s s'" "saga_inv rt s"
  shows "saga_inv rt s'"
  using assms(1)
proof cases
  case sg_insert
  then show ?thesis using saga_insert assms(2) by blast
next
  case (sg_approve i t)
  then show ?thesis using assms(2) saga_inv_live [OF assms(2) sg_approve(2)]
    unfolding saga_inv_def by (auto simp: row_ok_def)
next
  case sg_reject
  then show ?thesis using saga_reject assms(2) by blast
next
  case (sg_crash i)
  have "saga_inv rt (s\<lparr>sg_db := sg_db s, sg_live := (sg_live s)(i := None)\<rparr>)"
    by (rule saga_inv_status [OF assms(2) transfers_step.step_elsewhere, where p = "\<lambda>_. False"]) (auto split: if_splits)
  then show ?thesis by (simp add: sg_crash)
next
  case sg_execute
  then show ?thesis using saga_execute assms(2) by blast
next
  case sg_record
  then show ?thesis using saga_record assms(2) by blast
next
  case (sg_look t es ns j l' resp)
  from sg_look(2) obtain t0 where "t0 \<in> set (transfers (sg_db s))" "t_ID t0 = t_ID t" by (auto simp: same_transfer_def)
  with saga_inv_row [OF assms(2), of t0]
  have g: "stored_reference rt (t_ID t)" "length (booked (sg_ledger s) (t_ID t)) \<le> 1" by (simp_all add: row_ok_def)
  have ok: "ledger_ok (sg_ledger s)" using assms(2) by (simp add: saga_inv_def)
  from ledger_svc.lookup_true [OF ok g(1) sg_look(3)] g(2)
  have "l' = sg_ledger s" "r_found resp \<Longrightarrow> booked (sg_ledger s) (t_ID t) = [r_transaction_id resp]"
    by (auto split: list.splits)
  with assms(2) g sg_look(1,2) show ?thesis unfolding saga_inv_def by (auto intro: same_transfer_refl)
next
  case (sg_resolve_found t resp e db' r4)
  then show ?thesis using saga_resolve(1) [OF assms(2)] by blast
next
  case (sg_resolve_missing t resp e db' r4)
  then show ?thesis using saga_resolve(2) [OF assms(2)] by blast
next
  case (sg_ledger_other l')
  have b: "booked l' (t_ID t) = booked (sg_ledger s) (t_ID t)" if "t \<in> set (transfers (sg_db s))" for t
    using sg_ledger_other(3) [OF that] by (simp add: booked_refs)
  have live: "booked l' i = booked (sg_ledger s) i" if "sg_live s i = Some p" for i p
    using saga_inv_live(2,5) [OF assms(2) that] b by (auto simp: same_transfer_def)
  have look: "booked l' (t_ID t) = booked (sg_ledger s) (t_ID t)" if "(t, resp) \<in> sg_looked s" for t resp
    using saga_inv_looked(2) [OF assms(2) that] b by (metis same_transfer_def)
  show ?thesis using assms(2) sg_ledger_other b live look unfolding saga_inv_def by auto
next
  case (sg_db_other db')
  have "saga_inv rt (s\<lparr>sg_db := db', sg_live := sg_live s\<rparr>)"
    by (rule saga_inv_status [OF assms(2) transfers_step.step_elsewhere [OF sg_db_other(2)], where p = "\<lambda>_. False"])
      (use sg_db_other in \<open>auto simp: update_where_def\<close>)
  then show ?thesis by (simp add: sg_db_other)
qed

lemma saga_reach_inv: "saga_reach rt s \<Longrightarrow> saga_inv rt s"
proof -
  have start: "saga_inv rt (saga_start l)" if "ledger_ok l" for l
    using that by (simp add: saga_inv_def saga_start_def migrated_transfers_inv) (simp add: migrated_transfers_def)
  have "(saga_step rt)\<^sup>*\<^sup>* a b \<Longrightarrow> saga_inv rt a \<Longrightarrow> saga_inv rt b" for a b
    by (induction rule: rtranclp_induct) (auto intro: saga_step_inv)
  then show "saga_reach rt s \<Longrightarrow> saga_inv rt s" using start by (auto simp: saga_reach_def)
qed

subsection \<open>The code's functions are runs of the steps\<close>

text \<open>
  A function of the code with its wait left open, as a function \<open>f\<close> of what the others do meanwhile: its tables, the
  ledger after its own call, and what becomes of the request it works on (\<open>None\<close> when it works on none). It is a run
  when it either does nothing at all or waits in a state \<open>s1\<close> reached from \<open>s\<close>, in which the ledger is as its call
  has left it, and after any steps of the others, which leave the requests of \<open>own\<close> alone and keep \<open>ok\<close>, its
  result is reached from there.
\<close>

definition next_phase :: "(string \<times> phase option) option \<Rightarrow> (string \<rightharpoonup> phase) \<Rightarrow> (string \<rightharpoonup> phase)" where
  "next_phase u live = (case u of None \<Rightarrow> live | Some (i, p) \<Rightarrow> live(i := p))"

definition saga_run :: "runtime \<Rightarrow> saga \<Rightarrow> string set \<Rightarrow> (saga \<Rightarrow> bool)
    \<Rightarrow> ((transfers_db \<Rightarrow> transfers_db) \<Rightarrow> transfers_db \<times> ledger_db \<times> (string \<times> phase option) option) \<Rightarrow> bool" where
  "saga_run rt s own ok f \<longleftrightarrow>
     (\<forall>m. f m = (sg_db s, sg_ledger s, None)) \<or>
     (\<exists>s1. (saga_step rt)\<^sup>*\<^sup>* s s1 \<and>
        (\<forall>s2 m. (saga_step rt)\<^sup>*\<^sup>* s1 s2 \<and> (\<forall>i\<in>own. sg_live s2 i = sg_live s1 i) \<and> ok s2 \<and> m (sg_db s1) = sg_db s2 \<longrightarrow>
           (case f m of (db', l', u) \<Rightarrow> l' = sg_ledger s1 \<and>
              (saga_step rt)\<^sup>*\<^sup>* s2 (s2\<lparr>sg_db := db', sg_live := next_phase u (sg_live s2)\<rparr>))))"

lemma saga_run_waits:
  assumes "(saga_step rt)\<^sup>*\<^sup>* s s1"
    and "\<And>s2 m. (saga_step rt)\<^sup>*\<^sup>* s1 s2 \<Longrightarrow> \<forall>i\<in>own. sg_live s2 i = sg_live s1 i \<Longrightarrow> ok s2 \<Longrightarrow> m (sg_db s1) = sg_db s2 \<Longrightarrow>
      \<exists>db' u. f m = (db', sg_ledger s1, u) \<and> (db' = sg_db s2 \<and> u = None \<or>
        saga_step rt s2 (s2\<lparr>sg_db := db', sg_live := next_phase u (sg_live s2)\<rparr>))"
  shows "saga_run rt s own ok f"
proof -
  have run: "case f m of (db', l', u) \<Rightarrow> l' = sg_ledger s1 \<and>
      (saga_step rt)\<^sup>*\<^sup>* s2 (s2\<lparr>sg_db := db', sg_live := next_phase u (sg_live s2)\<rparr>)"
    if g: "(saga_step rt)\<^sup>*\<^sup>* s1 s2" "\<forall>i\<in>own. sg_live s2 i = sg_live s1 i" "ok s2" "m (sg_db s1) = sg_db s2" for s2 m
  proof -
    have "\<exists>db' u. f m = (db', sg_ledger s1, u) \<and> (db' = sg_db s2 \<and> u = None \<or>
        saga_step rt s2 (s2\<lparr>sg_db := db', sg_live := next_phase u (sg_live s2)\<rparr>))"
      by (rule assms(2)) (fact g)+
    then obtain db' u where f: "f m = (db', sg_ledger s1, u)"
      and u: "db' = sg_db s2 \<and> u = None \<or> saga_step rt s2 (s2\<lparr>sg_db := db', sg_live := next_phase u (sg_live s2)\<rparr>)"
      by (elim exE conjE) (rule that)
    from u have "(saga_step rt)\<^sup>*\<^sup>* s2 (s2\<lparr>sg_db := db', sg_live := next_phase u (sg_live s2)\<rparr>)"
    proof
      assume "db' = sg_db s2 \<and> u = None"
      then have "s2\<lparr>sg_db := db', sg_live := next_phase u (sg_live s2)\<rparr> = s2" by (simp add: next_phase_def)
      then show ?thesis by simp
    qed auto
    with f show ?thesis by simp
  qed
  show ?thesis
    unfolding saga_run_def
    by (intro disjI2 exI [of _ s1] conjI allI impI assms(1)) (elim conjE, rule run)
qed

definition fresh_transfer :: "runtime \<Rightarrow> string \<Rightarrow> saga \<Rightarrow> bool" where
  "fresh_transfer rt i s \<longleftrightarrow> stored_reference rt i \<and> ref_entries (sg_ledger s) i = []"

definition created_phase :: "svc_error + Transfer \<times> createTransferOutcome \<Rightarrow> (string \<times> phase option) option" where
  "created_phase r = (case r of Inr (t, CreateTransferOK) \<Rightarrow> Some (t_ID t, Some (PCreated t)) | _ \<Rightarrow> None)"

definition checked_phase :: "svc_error + Transfer \<times> fraudCheckOutcome \<Rightarrow> phase option" where
  "checked_phase r = (case r of Inr (t, FraudCheckApproved) \<Rightarrow> Some (PApproved t) | _ \<Rightarrow> None)"

text \<open>A request's \<open>createTransfer\<close> either does not write, or it inserts the row.\<close>

lemma validate_transfer_not_OK: "snd (validate_transfer ac sender user iban amount x) \<noteq> Inl (Inr (t, CreateTransferOK))"
  by (auto simp: validate_transfer_def resolve_outcome_def split: sum.splits option.splits prod.splits codes.splits)

lemma created_phase_other: "(\<And>t. r \<noteq> Inr (t, CreateTransferOK)) \<Longrightarrow> created_phase r = None"
  by (auto simp: created_phase_def split: sum.splits prod.splits createTransferOutcome.splits)

lemma reconcileReplay_phase: "reconcileReplay ac i t sender user iban amount x = (x', r) \<Longrightarrow> created_phase r = None"
  by (rule created_phase_other) (auto simp: reconcileReplay_def split: sum.splits prod.splits if_splits)

lemma createTransfer_run:
  assumes "in_int64 amount"
  shows "saga_run rt s {} (fresh_transfer rt (gen_random_uuid e 0))
    (\<lambda>m. case createTransfer rt e ac m (sg_db s) x key sender user iban amount of (db', x', r) \<Rightarrow> (db', sg_ledger s, created_phase r))"
    (is "saga_run rt s {} ?ok ?f")
proof (cases "getTransferByIdempotencyKey e 0 (sg_db s) key")
  case (Inl err)
  then have "\<forall>m. ?f m = (sg_db s, sg_ledger s, None)" by (simp add: createTransfer_def created_phase_def)
  then show ?thesis by (simp add: saga_run_def)
next
  case (Inr found)
  show ?thesis
  proof (rule saga_run_waits [OF rtranclp.rtrancl_refl])
    fix s2 :: saga and m assume ok: "?ok s2" and m: "m (sg_db s) = sg_db s2"
    show "\<exists>db' u. ?f m = (db', sg_ledger s, u) \<and> (db' = sg_db s2 \<and> u = None \<or>
        saga_step rt s2 (s2\<lparr>sg_db := db', sg_live := next_phase u (sg_live s2)\<rparr>))"
    proof (cases found)
      case (Some existing)
      then show ?thesis using Inr m
        by (auto simp: createTransfer_def split: prod.split dest: reconcileReplay_phase)
    next
      case None
      obtain x' v where v: "validate_transfer ac sender user iban amount x = (x', v)" by fastforce
      show ?thesis
      proof (cases v)
        case (Inl r)
        then show ?thesis using Inr None m v validate_transfer_not_OK [of ac sender user iban amount x]
          by (auto simp: createTransfer_def created_phase_other)
      next
        case (Inr recipient)
        obtain db' q where q: "insert_transfer rt e 1 (sg_db s2) key sender recipient amount = (db', q)" by fastforce
        have step: "saga_step rt s2 (s2\<lparr>sg_db := db', sg_live := (case q of Inr t \<Rightarrow> (sg_live s2)(t_ID t \<mapsto> PCreated t) | Inl _ \<Rightarrow> sg_live s2)\<rparr>)"
          using ok by (intro saga_step.sg_insert [OF q assms]) (simp_all add: fresh_transfer_def)
        show ?thesis
        proof (cases q)
          case (Inr t)
          then have "?f m = (db', sg_ledger s, Some (t_ID t, Some (PCreated t)))"
            using \<open>getTransferByIdempotencyKey e 0 (sg_db s) key = Inr found\<close> None v \<open>v = Inr recipient\<close> m q
            by (simp add: createTransfer_def created_phase_def)
          then show ?thesis using step Inr by (simp add: next_phase_def)
        next
          case (Inl err)
          have "?f m = (db', sg_ledger s, None)"
            using \<open>getTransferByIdempotencyKey e 0 (sg_db s) key = Inr found\<close> None v \<open>v = Inr recipient\<close> m q Inl
            by (auto simp: createTransfer_def created_phase_other split: option.split sum.split prod.split dest: reconcileReplay_phase)
          then show ?thesis using step Inl by (simp add: next_phase_def)
        qed
      qed
    qed
  qed
qed

lemma checkTransferFraud_run:
  assumes "sg_live s i = Some (PCreated t)"
  shows "saga_run rt s {i} (\<lambda>_. True)
    (\<lambda>m. case checkTransferFraud rt e fc m (sg_db s) y t of (db', y', r) \<Rightarrow> (db', sg_ledger s, Some (i, checked_phase r)))"
    (is "saga_run rt s {i} _ ?f")
proof (rule saga_run_waits [OF rtranclp.rtrancl_refl])
  fix s2 :: saga and m assume "\<forall>j\<in>{i}. sg_live s2 j = sg_live s j" and m: "m (sg_db s) = sg_db s2"
  then have live: "sg_live s2 i = Some (PCreated t)" using assms by simp
  obtain y' a where a: "fc_CheckTransfer fc 0 (t_ID t) (t_SenderAccountID t) (t_Amount t) y = (y', a)" by fastforce
  have crash: "saga_step rt s2 (s2\<lparr>sg_db := sg_db s2, sg_live := (sg_live s2)(i := None)\<rparr>)"
    using saga_step.sg_crash [of rt s2 i] by simp
  have approve: "saga_step rt s2 (s2\<lparr>sg_db := sg_db s2, sg_live := (sg_live s2)(i \<mapsto> PApproved t)\<rparr>)"
    using saga_step.sg_approve [OF live] by simp
  show "\<exists>db' u. ?f m = (db', sg_ledger s, u) \<and> (db' = sg_db s2 \<and> u = None \<or>
      saga_step rt s2 (s2\<lparr>sg_db := db', sg_live := next_phase u (sg_live s2)\<rparr>))"
  proof (cases a)
    case (Inl st)
    then show ?thesis using crash a m by (simp add: checkTransferFraud_def checked_phase_def next_phase_def)
  next
    case (Inr resp)
    obtain db' r where r: "markTransferRejected rt e (sg_db s2) (t_ID t) (cr_TriggeredRule resp) = (db', r)" by fastforce
    have reject: "saga_step rt s2 (s2\<lparr>sg_db := db', sg_live := (sg_live s2)(i := None)\<rparr>)"
      by (rule saga_step.sg_reject [OF live r])
    show ?thesis
      using crash approve reject a m Inr r
      by (auto simp: checkTransferFraud_def checked_phase_def next_phase_def split: sum.split)
  qed
qed

lemma settleTransfer_run:
  assumes "sg_live s i = Some (PApproved t)"
  shows "saga_run rt s {i} (\<lambda>_. True)
    (\<lambda>m. case settleTransfer rt e (ledger_rpc rt es ns) m (sg_db s) (sg_ledger s) t of (db', l', r) \<Rightarrow> (db', l', Some (i, None)))"
    (is "saga_run rt s {i} _ ?f")
proof -
  obtain l' res where c: "lc_ExecuteTransfer (ledger_rpc rt es ns) 0 (t_SenderAccountID t) (t_RecipientAccountID t) (t_Amount t) (t_ID t) (sg_ledger s) = (l', res)"
    by fastforce
  let ?s1 = "s\<lparr>sg_ledger := l', sg_live := (sg_live s)(i \<mapsto> PAnswered t (settle_decide res))\<rparr>"
  show ?thesis
  proof (rule saga_run_waits [of _ _ ?s1])
    show "(saga_step rt)\<^sup>*\<^sup>* s ?s1" by (rule r_into_rtranclp) (rule saga_step.sg_execute [OF assms c])
    fix s2 :: saga and m assume "\<forall>j\<in>{i}. sg_live s2 j = sg_live ?s1 j" and m: "m (sg_db ?s1) = sg_db s2"
    then have live: "sg_live s2 i = Some (PAnswered t (settle_decide res))" by simp
    obtain db' r where r: "settle_record rt e (sg_db s2) t (settle_decide res) = (db', r)" by fastforce
    have "?f m = (db', sg_ledger ?s1, Some (i, None))" using c m r by (simp add: settleTransfer_def)
    with saga_step.sg_record [OF live r] show "\<exists>db' u. ?f m = (db', sg_ledger ?s1, u) \<and> (db' = sg_db s2 \<and> u = None \<or>
        saga_step rt s2 (s2\<lparr>sg_db := db', sg_live := next_phase u (sg_live s2)\<rparr>))"
      by (simp add: next_phase_def)
  qed
qed

lemma sg_looked_kept: "(saga_step rt)\<^sup>*\<^sup>* s s' \<Longrightarrow> sg_looked s \<subseteq> sg_looked s'"
proof (induction rule: rtranclp_induct)
  case (step s1 s2)
  from step(2) have "sg_looked s1 \<subseteq> sg_looked s2" by cases auto
  with step(3) show ?case by blast
qed simp

lemma reconcileTransfer_run:
  assumes "\<exists>t0\<in>set (transfers (sg_db s)). same_transfer t t0"
  shows "saga_run rt s {} (\<lambda>_. True)
    (\<lambda>m. case reconcileTransfer rt e (ledger_rpc rt es ns) j m (sg_db s) (sg_ledger s) t of (db', l') \<Rightarrow> (db', l', None))"
    (is "saga_run rt s {} _ ?f")
proof -
  obtain l' res where c: "lc_GetTransactionByReference (ledger_rpc rt es ns) j (t_ID t) (sg_ledger s) = (l', res)" by fastforce
  have l': "l' = sg_ledger s" by (rule ledger_svc.lookup_keeps [OF c])
  show ?thesis
  proof (cases res)
    case (Inl err)
    show ?thesis
      by (rule saga_run_waits [OF rtranclp.rtrancl_refl]) (use c l' Inl in \<open>simp add: reconcileTransfer_def\<close>)
  next
    case (Inr resp)
    let ?s1 = "s\<lparr>sg_ledger := l', sg_looked := insert (t, resp) (sg_looked s)\<rparr>"
    show ?thesis
    proof (rule saga_run_waits [of _ _ ?s1])
      show "(saga_step rt)\<^sup>*\<^sup>* s ?s1" using c Inr by (intro r_into_rtranclp saga_step.sg_look [OF assms]) simp
      fix s2 :: saga and m assume g: "(saga_step rt)\<^sup>*\<^sup>* ?s1 s2" and m: "m (sg_db ?s1) = sg_db s2"
      have looked: "(t, resp) \<in> sg_looked s2" using sg_looked_kept [OF g] by auto
      obtain db1 r1 where f: "markTransferCompletedIfPending rt e (sg_db s2) t (r_transaction_id resp) = (db1, r1)" by fastforce
      obtain db2 r2 where n: "markTransferFailedIfPending rt e (sg_db s2) t failureReasonTimeoutUnresolved = (db2, r2)" by fastforce
      have same: "s2\<lparr>sg_db := db, sg_live := sg_live s2\<rparr> = s2\<lparr>sg_db := db\<rparr>" for db by simp
      show "\<exists>db' u. ?f m = (db', sg_ledger ?s1, u) \<and> (db' = sg_db s2 \<and> u = None \<or>
          saga_step rt s2 (s2\<lparr>sg_db := db', sg_live := next_phase u (sg_live s2)\<rparr>))"
        using saga_step.sg_resolve_found [OF looked _ f] saga_step.sg_resolve_missing [OF looked _ n] c m f n Inr
        by (cases "r_found resp") (simp_all add: reconcileTransfer_def next_phase_def same)
    qed
  qed
qed

text \<open>All four, in any state, for any request in flight and any transfer a worker has read.\<close>

definition transfer_handlers :: "runtime \<Rightarrow> 'a accounts_client \<Rightarrow> 'f fraud_client \<Rightarrow> saga \<Rightarrow> bool" where
  "transfer_handlers rt ac fc s \<longleftrightarrow>
     (\<forall>e x key sender user iban amount. in_int64 amount \<longrightarrow>
        saga_run rt s {} (fresh_transfer rt (gen_random_uuid e 0))
          (\<lambda>m. case createTransfer rt e ac m (sg_db s) x key sender user iban amount of (db', x', r) \<Rightarrow> (db', sg_ledger s, created_phase r))) \<and>
     (\<forall>i t e y. sg_live s i = Some (PCreated t) \<longrightarrow>
        saga_run rt s {i} (\<lambda>_. True)
          (\<lambda>m. case checkTransferFraud rt e fc m (sg_db s) y t of (db', y', r) \<Rightarrow> (db', sg_ledger s, Some (i, checked_phase r)))) \<and>
     (\<forall>i t e es ns. sg_live s i = Some (PApproved t) \<longrightarrow>
        saga_run rt s {i} (\<lambda>_. True)
          (\<lambda>m. case settleTransfer rt e (ledger_rpc rt es ns) m (sg_db s) (sg_ledger s) t of (db', l', r) \<Rightarrow> (db', l', Some (i, None)))) \<and>
     (\<forall>t e es ns j. (\<exists>t0\<in>set (transfers (sg_db s)). same_transfer t t0) \<longrightarrow>
        saga_run rt s {} (\<lambda>_. True)
          (\<lambda>m. case reconcileTransfer rt e (ledger_rpc rt es ns) j m (sg_db s) (sg_ledger s) t of (db', l') \<Rightarrow> (db', l', None)))"

lemma transfer_handlers_run: "transfer_handlers rt ac fc s"
  unfolding transfer_handlers_def
  by (intro conjI allI impI createTransfer_run checkTransferFraud_run settleTransfer_run reconcileTransfer_run)

text \<open>
  C4: money moves at most once per transfer, and a definite status agrees with the ledger. In every interleaving of
  requests, crashes, lost messages, ledger failures and reconciliation workers: at most one transaction is ever booked
  under a transfer's id, with exactly the transfer's amount; a completed transfer has exactly one, the one on its row;
  and for a rejected transfer, or one that failed for insufficient funds, a missing account or an invalid amount, nothing
  is booked. (A pending row, and one that failed for an internal error of the ledger or an unresolved timeout, may go with
  or without the one transaction: the ledger can have booked it before the error, or after the worker had looked.) In every
  state the functions of the code, called with any arguments and with any steps of the others while they wait, are runs of
  these steps: \<open>createTransfer\<close>, \<open>checkTransferFraud\<close> and \<open>settleTransfer\<close> for a request, and \<open>reconcileTransfer\<close> for a
  worker that has read the transfer at any time. (Generated ids are well-formed and not yet in the ledger.)
\<close>

theorem transfer_settles_once:
  assumes "saga_reach rt s"
  shows "(\<forall>t\<in>set (transfers (sg_db s)). length (booked (sg_ledger s) (t_ID t)) \<le> 1 \<and>
      (\<forall>x\<in>set (ref_entries (sg_ledger s) (t_ID t)). \<bar>e_amount x\<bar> = t_Amount t) \<and>
      (t_Status t = ''completed'' \<longrightarrow> (\<exists>tx. booked (sg_ledger s) (t_ID t) = [tx] \<and> uuid_in rt tx = t_LedgerTransactionID t)) \<and>
      (nothing_moved t \<longrightarrow> booked (sg_ledger s) (t_ID t) = [])) \<and>
    transfer_handlers rt ac fc s"
proof (intro conjI ballI)
  fix t assume "t \<in> set (transfers (sg_db s))"
  from saga_inv_row [OF saga_reach_inv [OF assms] this]
  show "length (booked (sg_ledger s) (t_ID t)) \<le> 1"
    "t_Status t = ''completed'' \<longrightarrow> (\<exists>tx. booked (sg_ledger s) (t_ID t) = [tx] \<and> uuid_in rt tx = t_LedgerTransactionID t)"
    "nothing_moved t \<longrightarrow> booked (sg_ledger s) (t_ID t) = []"
    "\<And>x. x \<in> set (ref_entries (sg_ledger s) (t_ID t)) \<Longrightarrow> \<bar>e_amount x\<bar> = t_Amount t"
    by (simp_all add: row_ok_def)
qed (rule transfer_handlers_run)

text \<open>A run: a request is inserted, approved, executed and recorded.\<close>

definition sample_insert :: "transfers_db \<times> (svc_error option + Transfer)" where
  "sample_insert = insert_transfer plain_runtime (sample_env 20) 1 migrated_transfers ''key'' ''a'' ''b'' 30"

definition sample_row :: Transfer where
  "sample_row = pending_row (sample_env 20) ''key'' ''a'' ''b'' 30"

definition sample_execute :: "ledger_db \<times> (grpc_status + string)" where
  "sample_execute = lc_ExecuteTransfer (sample_rpc 21 Delivered) 0 (t_SenderAccountID sample_row) (t_RecipientAccountID sample_row)
     (t_Amount sample_row) (t_ID sample_row) sample_ledger"

definition sample_record :: "transfers_db \<times> (svc_error + Transfer \<times> settlementOutcome)" where
  "sample_record = settle_record plain_runtime (sample_env 22) (fst sample_insert) sample_row (settle_decide (snd sample_execute))"

definition sample_saga :: saga where
  "sample_saga = \<lparr>sg_db = fst sample_record, sg_ledger = fst sample_execute, sg_live = Map.empty, sg_looked = {}\<rparr>"

lemma sample_saga_reach: "saga_reach plain_runtime sample_saga"
proof -
  let ?i = "t_ID sample_row"
  let ?s1 = "(saga_start sample_ledger)\<lparr>sg_db := fst sample_insert, sg_live := [?i \<mapsto> PCreated sample_row]\<rparr>"
  let ?s2 = "?s1\<lparr>sg_live := [?i \<mapsto> PApproved sample_row]\<rparr>"
  let ?s3 = "?s2\<lparr>sg_ledger := fst sample_execute, sg_live := [?i \<mapsto> PAnswered sample_row (settle_decide (snd sample_execute))]\<rparr>"
  have i: "snd sample_insert = Inr sample_row" by code_simp
  have "stored_reference plain_runtime (gen_random_uuid (sample_env 20) 0)" "ref_entries sample_ledger (gen_random_uuid (sample_env 20) 0) = []"
    by code_simp+
  then have 1: "saga_step plain_runtime (saga_start sample_ledger) ?s1"
    using saga_step.sg_insert [of plain_runtime "sample_env 20" 1 "saga_start sample_ledger" "''key''" "''a''" "''b''" 30
        "fst sample_insert" "snd sample_insert"] i
    by (simp add: saga_start_def sample_insert_def in_int64_def)
  have 2: "saga_step plain_runtime ?s1 ?s2"
    using saga_step.sg_approve [of ?s1 ?i sample_row plain_runtime] by simp
  have 3: "saga_step plain_runtime ?s2 ?s3"
    using saga_step.sg_execute [of ?s2 ?i sample_row plain_runtime "\<lambda>_. sample_env 21" "\<lambda>_. Delivered" "fst sample_execute" "snd sample_execute"]
    by (simp add: sample_execute_def sample_rpc_def saga_start_def)
  have 4: "saga_step plain_runtime ?s3 sample_saga"
    using saga_step.sg_record [of ?s3 ?i sample_row "settle_decide (snd sample_execute)" plain_runtime "sample_env 22" "fst sample_record" "snd sample_record"]
    by (simp add: sample_record_def sample_saga_def saga_start_def)
  from 1 2 3 4 have "(saga_step plain_runtime)\<^sup>*\<^sup>* (saga_start sample_ledger) sample_saga"
    by (meson converse_rtranclp_into_rtranclp rtranclp.rtrancl_refl)
  with sample_ledger_ok show ?thesis by (auto simp: saga_reach_def)
qed

theorem transfer_settles_once_witness:
  "\<exists>t\<in>set (transfers (sg_db sample_saga)). t_Status t = ''completed'' \<and> t_Amount t = 30 \<and>
     (\<exists>tx. booked (sg_ledger sample_saga) (t_ID t) = [tx] \<and> t_LedgerTransactionID t = Some tx) \<and>
     (\<forall>x\<in>set (ref_entries (sg_ledger sample_saga) (t_ID t)). \<bar>e_amount x\<bar> = 30)"
proof -
  have m: "map (\<lambda>t. (t_Status t, t_Amount t)) (transfers (sg_db sample_saga)) = [(''completed'', 30)]" by code_simp
  then obtain t where t: "t \<in> set (transfers (sg_db sample_saga))" "t_Status t = ''completed''" "t_Amount t = 30"
    by (auto simp: map_eq_Cons_conv)
  from bspec [OF conjunct1 [OF transfer_settles_once [OF sample_saga_reach]] t(1)] t show ?thesis by (intro bexI [OF _ t(1)]) auto
qed

end
