(* ===== verification/Deposits.thy ===== *)
theory Deposits
  imports Transfers
begin

text \<open>
  services/transfers-svc/deposit.go and deposit\_reconcile.go: creating a deposit with a Stripe
  PaymentIntent, the guarded status writers, and the worker that credits confirmed deposits and
  resolves stuck ones. Stripe is not part of the repository: its methods are arguments.
\<close>

subsection \<open>Stripe\<close>

record PaymentIntent =
  pi_ID :: string
  pi_ClientSecret :: string
  pi_Status :: string
  pi_LastPaymentError :: "(string \<times> string) option"

record PaymentIntentCreateParams =
  pp_Amount :: int
  pp_Currency :: string
  pp_deposit_id :: string
  pp_account_id :: string
  pp_IdempotencyKey :: string

subsection \<open>Creating a deposit\<close>

definition depositMinAmount :: int where "depositMinAmount = 50"
definition depositMaxAmount :: int where "depositMaxAmount = 1000000"

datatype createDepositOutcome = CreateDepositOK | CreateDepositInvalidAmount | CreateDepositAccountNotActive

definition zero_Deposit :: Deposit where
  "zero_Deposit = \<lparr>d_ID = '''', d_AccountID = '''', d_Amount = 0, d_Currency = '''', d_Status = '''', d_StripePaymentIntentID = None,
     d_LedgerTransactionID = None, d_FailureReason = None, d_CreatedAt = 0, d_UpdatedAt = 0\<rparr>"

definition pending_deposit :: "env \<Rightarrow> string \<Rightarrow> int \<Rightarrow> Deposit" where
  "pending_deposit e account amount =
     \<lparr>d_ID = gen_random_uuid e 0, d_AccountID = account, d_Amount = amount, d_Currency = ''eur'', d_Status = ''pending'',
      d_StripePaymentIntentID = None, d_LedgerTransactionID = None, d_FailureReason = None, d_CreatedAt = now e, d_UpdatedAt = now e\<rparr>"

definition insert_deposit :: "runtime \<Rightarrow> env \<Rightarrow> nat \<Rightarrow> transfers_db \<Rightarrow> string \<Rightarrow> int \<Rightarrow> transfers_db \<times> (svc_error + Deposit)" where
  "insert_deposit rt e i db account amount =
     (case uuid_in rt account of
        None \<Rightarrow> (db, Inl ErrStatement)
      | Some u \<Rightarrow>
          if amount \<le> 0 \<or> gen_random_uuid e 0 \<in> d_ID ` set (deposits db) then (db, Inl ErrStatement)
          else persist e i db (db\<lparr>deposits := deposits db @ [pending_deposit e u amount]\<rparr>) ErrStatement (pending_deposit e u amount))"

definition set_intent :: "env \<Rightarrow> string \<Rightarrow> Deposit \<Rightarrow> Deposit" where
  "set_intent e intent d = d\<lparr>d_StripePaymentIntentID := Some intent, d_UpdatedAt := now e\<rparr>"

text \<open>\<open>UPDATE ... SET stripe_payment_intent_id = $1 ... WHERE id = $2 RETURNING\<close>; the column is UNIQUE.\<close>

definition attach_intent :: "runtime \<Rightarrow> env \<Rightarrow> nat \<Rightarrow> transfers_db \<Rightarrow> string \<Rightarrow> string \<Rightarrow> transfers_db \<times> (svc_error + Deposit)" where
  "attach_intent rt e i db intent depositID =
     (case uuid_in rt depositID of
        None \<Rightarrow> (db, Inl ErrStatement)
      | Some u \<Rightarrow>
          (case find (\<lambda>d. d_ID d = u) (deposits db) of
             None \<Rightarrow> (db, Inl ErrStatement)
           | Some d \<Rightarrow>
               if \<exists>x\<in>set (deposits db). d_StripePaymentIntentID x = Some intent \<and> d_ID x \<noteq> u then (db, Inl ErrStatement)
               else persist e i db (db\<lparr>deposits := update_where (\<lambda>d. d_ID d = u) (set_intent e intent) (deposits db)\<rparr>)
                      ErrStatement (set_intent e intent d)))"

text \<open>\<open>paymentIntents.Create\<close> is the argument \<open>create\<close>; \<open>meanwhile\<close> acts while it runs.\<close>

definition createDeposit ::
  "runtime \<Rightarrow> env \<Rightarrow> 'a accounts_client \<Rightarrow> (PaymentIntentCreateParams \<Rightarrow> 'p \<Rightarrow> 'p \<times> (unit + PaymentIntent))
   \<Rightarrow> (transfers_db \<Rightarrow> transfers_db) \<Rightarrow> transfers_db \<Rightarrow> 'a \<Rightarrow> 'p \<Rightarrow> string \<Rightarrow> int
   \<Rightarrow> transfers_db \<times> 'a \<times> 'p \<times> (svc_error + Deposit \<times> string \<times> createDepositOutcome)" where
  "createDeposit rt e ac create meanwhile db s p accountID amount =
     (if amount < depositMinAmount \<or> depositMaxAmount < amount
      then (db, s, p, Inr (zero_Deposit, '''', CreateDepositInvalidAmount))
      else case ac_GetAccountByID ac 0 accountID s of
        (s', Inl (c, m)) \<Rightarrow> (db, s', p, Inl (ErrCall c))
      | (s', Inr account) \<Rightarrow>
          if ar_Status account \<noteq> accountStatusActive
          then (db, s', p, Inr (zero_Deposit, '''', CreateDepositAccountNotActive))
          else (case insert_deposit rt e 0 db accountID amount of
                  (db1, Inl err) \<Rightarrow> (db1, s', p, Inl err)
                | (db1, Inr d) \<Rightarrow>
                    (case create \<lparr>pp_Amount = d_Amount d, pp_Currency = d_Currency d, pp_deposit_id = d_ID d,
                                   pp_account_id = d_AccountID d, pp_IdempotencyKey = d_ID d\<rparr> p of
                       (p', Inl ()) \<Rightarrow> (meanwhile db1, s', p', Inl ErrPayload)
                     | (p', Inr intent) \<Rightarrow>
                         (case attach_intent rt e 1 (meanwhile db1) (pi_ID intent) (d_ID d) of
                            (db2, Inl err) \<Rightarrow> (db2, s', p', Inl err)
                          | (db2, Inr d2) \<Rightarrow> (db2, s', p', Inr (d2, pi_ClientSecret intent, CreateDepositOK))))))"

subsection \<open>Guarded status writers\<close>

definition set_credited :: "env \<Rightarrow> string \<Rightarrow> Deposit \<Rightarrow> Deposit" where
  "set_credited e v d = d\<lparr>d_Status := ''credited'', d_LedgerTransactionID := Some v, d_UpdatedAt := now e\<rparr>"

definition set_deposit_failed :: "env \<Rightarrow> string \<Rightarrow> Deposit \<Rightarrow> Deposit" where
  "set_deposit_failed e reason d = d\<lparr>d_Status := ''failed'', d_FailureReason := Some reason, d_UpdatedAt := now e\<rparr>"

definition set_succeeded :: "env \<Rightarrow> Deposit \<Rightarrow> Deposit" where
  "set_succeeded e d = d\<lparr>d_Status := ''succeeded'', d_UpdatedAt := now e\<rparr>"

definition credited_event :: "env \<Rightarrow> string \<Rightarrow> Deposit \<Rightarrow> string \<Rightarrow> event" where
  "credited_event e ledgerTransactionID d eventID =
     DepositCredited eventID (d_ID d) (d_AccountID d) (d_Amount d) ledgerTransactionID (clock e)"

text \<open>Sites: 0 begin, 1 UPDATE, 2 the outbox INSERT, 3 commit. No matching row is not an error.\<close>

definition markDepositCreditedIfSucceeded ::
  "runtime \<Rightarrow> env \<Rightarrow> transfers_db \<Rightarrow> string \<Rightarrow> string \<Rightarrow> transfers_db \<times> (svc_error + bool)" where
  "markDepositCreditedIfSucceeded rt e db depositID ledgerTransactionID =
     (if fails e 0 \<or> fails e 1 then (db, Inl ErrStatement)
      else case (uuid_in rt ledgerTransactionID, uuid_in rt depositID) of
        (Some v, Some u) \<Rightarrow>
          (case find (\<lambda>d. d_ID d = u \<and> d_Status d = ''succeeded'') (deposits db) of
             None \<Rightarrow> (db, Inr False)
           | Some d0 \<Rightarrow>
               (case insert_transfer_event rt e
                       (db\<lparr>deposits := update_where (\<lambda>d. d_ID d = u \<and> d_Status d = ''succeeded'') (set_credited e v) (deposits db)\<rparr>)
                       ''DepositCredited'' (d_AccountID d0) (credited_event e ledgerTransactionID (set_credited e v d0)) of
                  None \<Rightarrow> (db, Inl ErrStatement)
                | Some db' \<Rightarrow> persist e 3 db db' ErrStatement True))
      | _ \<Rightarrow> (db, Inl ErrStatement))"

definition update_deposits ::
  "env \<Rightarrow> nat \<Rightarrow> transfers_db \<Rightarrow> (Deposit \<Rightarrow> bool) \<Rightarrow> (Deposit \<Rightarrow> Deposit) \<Rightarrow> transfers_db \<times> (svc_error + bool)" where
  "update_deposits e i db p upd =
     persist e i db (db\<lparr>deposits := update_where p upd (deposits db)\<rparr>) ErrStatement (0 < rows_affected p (deposits db))"

definition markDepositFailedIfPending ::
  "runtime \<Rightarrow> env \<Rightarrow> transfers_db \<Rightarrow> string \<Rightarrow> string \<Rightarrow> transfers_db \<times> (svc_error + bool)" where
  "markDepositFailedIfPending rt e db depositID failureReason =
     (case uuid_in rt depositID of
        None \<Rightarrow> (db, Inl ErrStatement)
      | Some u \<Rightarrow> update_deposits e 0 db (\<lambda>d. d_ID d = u \<and> d_Status d = ''pending'') (set_deposit_failed e failureReason))"

definition markDepositSucceededIfPending :: "env \<Rightarrow> transfers_db \<Rightarrow> string \<Rightarrow> transfers_db \<times> (svc_error + bool)" where
  "markDepositSucceededIfPending e db stripePaymentIntentID =
     update_deposits e 0 db (\<lambda>d. d_StripePaymentIntentID d = Some stripePaymentIntentID \<and> d_Status d = ''pending'') (set_succeeded e)"

definition markDepositFailedIfOrphaned ::
  "runtime \<Rightarrow> env \<Rightarrow> transfers_db \<Rightarrow> string \<Rightarrow> string \<Rightarrow> transfers_db \<times> (svc_error + bool)" where
  "markDepositFailedIfOrphaned rt e db depositID failureReason =
     (case uuid_in rt depositID of
        None \<Rightarrow> (db, Inl ErrStatement)
      | Some u \<Rightarrow> update_deposits e 0 db (\<lambda>d. d_ID d = u \<and> d_Status d = ''pending'' \<and> d_StripePaymentIntentID d = None)
                     (set_deposit_failed e failureReason))"

subsection \<open>Reads\<close>

definition getSucceededDeposits :: "env \<Rightarrow> transfers_db \<Rightarrow> svc_error + Deposit list" where
  "getSucceededDeposits e db =
     (if fails e 0 then Inl ErrStatement
      else Inr (sort_key d_UpdatedAt (filter (\<lambda>d. d_Status d = ''succeeded'') (deposits db))))"

definition getPendingDepositsWithIntentBefore :: "env \<Rightarrow> transfers_db \<Rightarrow> int \<Rightarrow> svc_error + Deposit list" where
  "getPendingDepositsWithIntentBefore e db before =
     (if fails e 0 then Inl ErrStatement
      else Inr (sort_key d_UpdatedAt (filter (\<lambda>d. d_Status d = ''pending'' \<and> d_StripePaymentIntentID d \<noteq> None \<and> d_UpdatedAt d < before) (deposits db))))"

definition getOrphanedPendingDeposits :: "env \<Rightarrow> transfers_db \<Rightarrow> int \<Rightarrow> svc_error + Deposit list" where
  "getOrphanedPendingDeposits e db before =
     (if fails e 0 then Inl ErrStatement
      else Inr (sort_key d_UpdatedAt (filter (\<lambda>d. d_Status d = ''pending'' \<and> d_StripePaymentIntentID d = None \<and> d_UpdatedAt d < before) (deposits db))))"

definition getDepositByStripePaymentIntentID :: "env \<Rightarrow> nat \<Rightarrow> transfers_db \<Rightarrow> string \<Rightarrow> svc_error + Deposit option" where
  "getDepositByStripePaymentIntentID e i db intent =
     (if fails e i then Inl ErrStatement else Inr (find (\<lambda>d. d_StripePaymentIntentID d = Some intent) (deposits db)))"

definition getDepositByID :: "runtime \<Rightarrow> env \<Rightarrow> transfers_db \<Rightarrow> string \<Rightarrow> svc_error + Deposit option" where
  "getDepositByID rt e db i =
     (if fails e 0 then Inl ErrStatement
      else Inr (case uuid_in rt i of None \<Rightarrow> None | Some u \<Rightarrow> find (\<lambda>d. d_ID d = u) (deposits db)))"

subsection \<open>The worker\<close>

definition creditDeposit ::
  "runtime \<Rightarrow> env \<Rightarrow> 'l ledger_client \<Rightarrow> nat \<Rightarrow> (transfers_db \<Rightarrow> transfers_db) \<Rightarrow> transfers_db \<Rightarrow> 'l \<Rightarrow> Deposit \<Rightarrow> transfers_db \<times> 'l" where
  "creditDeposit rt e lc i meanwhile db l d =
     (case lc_Deposit lc i (d_AccountID d) (d_Amount d) (d_ID d) l of
        (l', Inl err) \<Rightarrow> (meanwhile db, l')
      | (l', Inr transactionID) \<Rightarrow> (fst (markDepositCreditedIfSucceeded rt e (meanwhile db) (d_ID d) transactionID), l'))"

text \<open>Loops of the worker: item \<open>i\<close> meets the environment \<open>es i\<close>.\<close>

fun credit_loop ::
  "runtime \<Rightarrow> (nat \<Rightarrow> env) \<Rightarrow> 'l ledger_client \<Rightarrow> nat \<Rightarrow> transfers_db \<Rightarrow> 'l \<Rightarrow> Deposit list \<Rightarrow> transfers_db \<times> 'l" where
  "credit_loop rt es lc i db l [] = (db, l)"
| "credit_loop rt es lc i db l (d # ds) =
     (case creditDeposit rt (es i) lc i id db l d of (db', l') \<Rightarrow> credit_loop rt es lc (Suc i) db' l' ds)"

definition creditSucceededDeposits ::
  "runtime \<Rightarrow> env \<Rightarrow> (nat \<Rightarrow> env) \<Rightarrow> 'l ledger_client \<Rightarrow> transfers_db \<Rightarrow> 'l \<Rightarrow> transfers_db \<times> 'l" where
  "creditSucceededDeposits rt e es lc db l =
     (case getSucceededDeposits e db of Inl err \<Rightarrow> (db, l) | Inr ds \<Rightarrow> credit_loop rt es lc 0 db l ds)"

text \<open>\<open>paymentIntents.Retrieve\<close> is the argument \<open>retrieve\<close>.\<close>

definition reconcilePendingDepositWithIntent ::
  "runtime \<Rightarrow> env \<Rightarrow> (string \<Rightarrow> unit + PaymentIntent) \<Rightarrow> (transfers_db \<Rightarrow> transfers_db) \<Rightarrow> transfers_db \<Rightarrow> Deposit \<Rightarrow> transfers_db" where
  "reconcilePendingDepositWithIntent rt e retrieve meanwhile db d =
     (case d_StripePaymentIntentID d of
        None \<Rightarrow> db
      | Some pid \<Rightarrow>
          (case retrieve pid of
             Inl () \<Rightarrow> meanwhile db
           | Inr intent \<Rightarrow>
               if pi_Status intent = ''succeeded'' then fst (markDepositSucceededIfPending e (meanwhile db) pid)
               else if pi_Status intent = ''canceled'' then fst (markDepositFailedIfPending rt e (meanwhile db) (d_ID d) ''canceled'')
               else meanwhile db))"

fun deposit_loop :: "(nat \<Rightarrow> transfers_db \<Rightarrow> Deposit \<Rightarrow> transfers_db) \<Rightarrow> nat \<Rightarrow> transfers_db \<Rightarrow> Deposit list \<Rightarrow> transfers_db" where
  "deposit_loop f i db [] = db"
| "deposit_loop f i db (d # ds) = deposit_loop f (Suc i) (f i db d) ds"

definition reconcilePendingDepositsWithIntent ::
  "runtime \<Rightarrow> env \<Rightarrow> (nat \<Rightarrow> env) \<Rightarrow> (nat \<Rightarrow> string \<Rightarrow> unit + PaymentIntent) \<Rightarrow> transfers_db \<Rightarrow> int \<Rightarrow> transfers_db" where
  "reconcilePendingDepositsWithIntent rt e es retrieve db staleAfter =
     (case getPendingDepositsWithIntentBefore e db (clock e - staleAfter) of
        Inl err \<Rightarrow> db
      | Inr ds \<Rightarrow> deposit_loop (\<lambda>i db d. reconcilePendingDepositWithIntent rt (es i) (retrieve i) id db d) 0 db ds)"

definition reconcileOrphanedPendingDeposits ::
  "runtime \<Rightarrow> env \<Rightarrow> (nat \<Rightarrow> env) \<Rightarrow> transfers_db \<Rightarrow> int \<Rightarrow> transfers_db" where
  "reconcileOrphanedPendingDeposits rt e es db staleAfter =
     (case getOrphanedPendingDeposits e db (clock e - staleAfter) of
        Inl err \<Rightarrow> db
      | Inr ds \<Rightarrow> deposit_loop (\<lambda>i db d. fst (markDepositFailedIfOrphaned rt (es i) db (d_ID d) ''abandoned_before_payment_intent'')) 0 db ds)"

definition reconcileDepositsOnce ::
  "runtime \<Rightarrow> (nat \<Rightarrow> env) \<Rightarrow> (nat \<Rightarrow> nat \<Rightarrow> env) \<Rightarrow> 'l ledger_client \<Rightarrow> (nat \<Rightarrow> string \<Rightarrow> unit + PaymentIntent)
   \<Rightarrow> transfers_db \<Rightarrow> 'l \<Rightarrow> int \<Rightarrow> transfers_db \<times> 'l" where
  "reconcileDepositsOnce rt e es lc retrieve db l staleAfter =
     (case creditSucceededDeposits rt (e 0) (es 0) lc db l of
        (db1, l') \<Rightarrow>
          let db2 = reconcilePendingDepositsWithIntent rt (e 1) (es 1) retrieve db1 staleAfter;
              db3 = reconcileOrphanedPendingDeposits rt (e 2) (es 2) db2 staleAfter
          in (db3, l'))"

end
