(* ===== verification/Webhook.thy ===== *)
theory Webhook
  imports Deposits
begin

text \<open>
  services/transfers-svc/webhook.go: Stripe's webhook. \<open>webhook.ConstructEvent\<close> (the signature check
  of stripe-go) and the decoding of an event's JSON are not part of the repository: the first is an
  argument, and an event carries what \<open>json.Unmarshal\<close> makes of its data, or \<open>None\<close> for an error.
\<close>

record stripe_event =
  se_ID :: string
  se_Type :: string
  se_intent :: "PaymentIntent option"
  se_charge :: "string option option"   \<comment> \<open>the id of the charge's payment intent, when it has one\<close>

definition stripeWebhookMaxBodyBytes :: nat where "stripeWebhookMaxBodyBytes = 2 ^ 20"

subsection \<open>Statements of the transactions\<close>

definition recordProcessedEvent :: "env \<Rightarrow> nat \<Rightarrow> stripe_event \<Rightarrow> transfers_db \<Rightarrow> svc_error + transfers_db" where
  "recordProcessedEvent e i event db =
     (if fails e i then Inl ErrStatement
      else if se_ID event \<in> fst ` set (processed_stripe_events db) then Inl ErrDuplicateStripeEvent
      else Inr (db\<lparr>processed_stripe_events := processed_stripe_events db @ [(se_ID event, se_Type event)]\<rparr>))"

definition markDepositSucceeded :: "env \<Rightarrow> nat \<Rightarrow> string \<Rightarrow> transfers_db \<Rightarrow> svc_error + transfers_db" where
  "markDepositSucceeded e i intent db =
     (if fails e i then Inl ErrStatement
      else Inr (db\<lparr>deposits := update_where (\<lambda>d. d_StripePaymentIntentID d = Some intent) (set_succeeded e) (deposits db)\<rparr>))"

definition markDepositFailed :: "env \<Rightarrow> nat \<Rightarrow> string \<Rightarrow> string \<Rightarrow> transfers_db \<Rightarrow> svc_error + transfers_db" where
  "markDepositFailed e i intent failureReason db =
     (if fails e i then Inl ErrStatement
      else Inr (db\<lparr>deposits := update_where (\<lambda>d. d_StripePaymentIntentID d = Some intent) (set_deposit_failed e failureReason) (deposits db)\<rparr>))"

definition paymentIntentFailureReason :: "PaymentIntent \<Rightarrow> string" where
  "paymentIntentFailureReason intent =
     (case pi_LastPaymentError intent of
        None \<Rightarrow> ''unknown''
      | Some (code, msg) \<Rightarrow> if code \<noteq> '''' then code else if msg \<noteq> '''' then msg else ''unknown'')"

definition applyStripeEvent :: "env \<Rightarrow> nat \<Rightarrow> stripe_event \<Rightarrow> transfers_db \<Rightarrow> svc_error + transfers_db" where
  "applyStripeEvent e i event db =
     (if se_Type event = ''payment_intent.succeeded'' then
        (case se_intent event of None \<Rightarrow> Inl ErrPayload | Some intent \<Rightarrow> markDepositSucceeded e i (pi_ID intent) db)
      else if se_Type event = ''payment_intent.payment_failed'' then
        (case se_intent event of
           None \<Rightarrow> Inl ErrPayload
         | Some intent \<Rightarrow> markDepositFailed e i (pi_ID intent) (paymentIntentFailureReason intent) db)
      else Inr db)"

definition recordProcessedEventStandalone :: "env \<Rightarrow> nat \<Rightarrow> stripe_event \<Rightarrow> transfers_db \<Rightarrow> transfers_db \<times> (svc_error + unit)" where
  "recordProcessedEventStandalone e k event db =
     (if fails e k then (db, Inl ErrStatement)
      else case recordProcessedEvent e (k + 1) event db of
        Inl err \<Rightarrow> (db, Inl err)
      | Inr db' \<Rightarrow> persist e (k + 2) db db' ErrStatement ())"

definition recordProcessedEventAndUpdateDeposit ::
  "runtime \<Rightarrow> env \<Rightarrow> nat \<Rightarrow> stripe_event \<Rightarrow> string \<Rightarrow> string \<Rightarrow> string option \<Rightarrow> transfers_db \<Rightarrow> transfers_db \<times> (svc_error + unit)" where
  "recordProcessedEventAndUpdateDeposit rt e k event depositID status failureReason db =
     (if fails e k then (db, Inl ErrStatement)
      else case recordProcessedEvent e (k + 1) event db of
        Inl err \<Rightarrow> (db, Inl err)
      | Inr db1 \<Rightarrow>
          if fails e (k + 2) then (db, Inl ErrStatement)
          else (case uuid_in rt depositID of
                  None \<Rightarrow> (db, Inl ErrStatement)
                | Some u \<Rightarrow>
                    persist e (k + 3) db
                      (db1\<lparr>deposits := update_where (\<lambda>d. d_ID d = u)
                         (\<lambda>d. d\<lparr>d_Status := status, d_FailureReason := failureReason, d_UpdatedAt := now e\<rparr>) (deposits db1)\<rparr>)
                      ErrStatement ()))"

subsection \<open>Refunds\<close>

definition reversalReference :: "runtime \<Rightarrow> string \<Rightarrow> string" where
  "reversalReference rt depositID = uuid_format (uuid_v4_bytes (md5_sum rt (''refund:'' @ depositID)))"

text \<open>Site 0 is the SELECT; the transaction at the end starts at site 1. \<open>meanwhile\<close> acts during the ledger call.\<close>

definition processChargeRefundedEvent ::
  "runtime \<Rightarrow> env \<Rightarrow> 'l ledger_client \<Rightarrow> (transfers_db \<Rightarrow> transfers_db) \<Rightarrow> stripe_event \<Rightarrow> transfers_db \<Rightarrow> 'l
   \<Rightarrow> transfers_db \<times> 'l \<times> (svc_error + unit)" where
  "processChargeRefundedEvent rt e lc meanwhile event db l =
     (let standalone = (case recordProcessedEventStandalone e 1 event db of (db', r) \<Rightarrow> (db', l, r)) in
      case se_charge event of
        None \<Rightarrow> (db, l, Inl ErrPayload)
      | Some None \<Rightarrow> standalone
      | Some (Some pid) \<Rightarrow>
          if pid = '''' then standalone
          else (case getDepositByStripePaymentIntentID e 0 db pid of
                  Inl err \<Rightarrow> (db, l, Inl err)
                | Inr None \<Rightarrow> standalone
                | Inr (Some d) \<Rightarrow>
                    if d_Status d = ''credited'' then
                      (case lc_ReverseDeposit lc 0 (d_AccountID d) (d_Amount d) (reversalReference rt (d_ID d)) l of
                         (l', Inl (c, m)) \<Rightarrow> (meanwhile db, l', Inl (ErrCall c))
                       | (l', Inr tx) \<Rightarrow>
                           (case recordProcessedEventAndUpdateDeposit rt e 1 event (d_ID d) ''refunded'' None (meanwhile db) of
                              (db', r) \<Rightarrow> (db', l', r)))
                    else if d_Status d = ''succeeded'' then
                      (case recordProcessedEventAndUpdateDeposit rt e 1 event (d_ID d) ''failed'' (Some ''refunded_before_credit'') (meanwhile db) of
                         (db', r) \<Rightarrow> (db', l, r))
                    else standalone))"

subsection \<open>The handler\<close>

text \<open>Sites of the generic path: 0 begin, 1 the dedup INSERT, 2 the UPDATE, 3 commit.\<close>

definition processStripeEvent ::
  "runtime \<Rightarrow> env \<Rightarrow> 'l ledger_client \<Rightarrow> (transfers_db \<Rightarrow> transfers_db) \<Rightarrow> stripe_event \<Rightarrow> transfers_db \<Rightarrow> 'l
   \<Rightarrow> transfers_db \<times> 'l \<times> (svc_error + unit)" where
  "processStripeEvent rt e lc meanwhile event db l =
     (if se_Type event = ''charge.refunded'' then processChargeRefundedEvent rt e lc meanwhile event db l
      else if fails e 0 then (db, l, Inl ErrStatement)
      else case recordProcessedEvent e 1 event db of
        Inl err \<Rightarrow> (db, l, Inl err)
      | Inr db1 \<Rightarrow>
          (case applyStripeEvent e 2 event db1 of
             Inl err \<Rightarrow> (db, l, Inl err)
           | Inr db2 \<Rightarrow> (case persist e 3 db db2 ErrStatement () of (db', r) \<Rightarrow> (db', l, r))))"

text \<open>The HTTP status of the answer; \<open>body\<close> is \<open>None\<close> when reading it fails.\<close>

definition stripeWebhookHandler ::
  "runtime \<Rightarrow> env \<Rightarrow> (string \<Rightarrow> string \<Rightarrow> string \<Rightarrow> unit + stripe_event) \<Rightarrow> 'l ledger_client \<Rightarrow> (transfers_db \<Rightarrow> transfers_db)
   \<Rightarrow> string \<Rightarrow> string option \<Rightarrow> string \<Rightarrow> transfers_db \<Rightarrow> 'l \<Rightarrow> transfers_db \<times> 'l \<times> nat" where
  "stripeWebhookHandler rt e ConstructEvent lc meanwhile webhookSecret body signature db l =
     (case body of
        None \<Rightarrow> (db, l, 400)
      | Some payload \<Rightarrow>
          (case ConstructEvent (take stripeWebhookMaxBodyBytes payload) signature webhookSecret of
             Inl _ \<Rightarrow> (db, l, 400)
           | Inr event \<Rightarrow>
               (case processStripeEvent rt e lc meanwhile event db l of
                  (db', l', Inl err) \<Rightarrow> (db', l', if err = ErrDuplicateStripeEvent then 200 else 500)
                | (db', l', Inr _) \<Rightarrow> (db', l', 200))))"

subsection \<open>Delivery, duplicates and retries\<close>

text \<open>The outcome of a transaction that ends by recording the event: nothing, or everything.\<close>

definition processed :: "stripe_event \<Rightarrow> transfers_db \<Rightarrow> bool" where
  "processed event db \<longleftrightarrow> se_ID event \<in> fst ` set (processed_stripe_events db)"

definition recorded :: "stripe_event \<Rightarrow> transfers_db \<Rightarrow> transfers_db \<Rightarrow> bool" where
  "recorded event db db' \<longleftrightarrow> \<not> processed event db \<and>
     processed_stripe_events db' = processed_stripe_events db @ [(se_ID event, se_Type event)]"

definition webhook_result :: "stripe_event \<Rightarrow> transfers_db \<Rightarrow> transfers_db \<Rightarrow> svc_error + unit \<Rightarrow> bool" where
  "webhook_result event db db' r \<longleftrightarrow>
     (case r of
        Inr _ \<Rightarrow> recorded event db db'
      | Inl err \<Rightarrow> if err = ErrDuplicateStripeEvent then db' = db \<and> processed event db
                   else db' = db \<or> recorded event db db')"

lemma recordProcessedEvent_cases:
  obtains (failed) "recordProcessedEvent e i event db = Inl ErrStatement"
    | (duplicate) "recordProcessedEvent e i event db = Inl ErrDuplicateStripeEvent" "processed event db"
    | (ok) db1 where "recordProcessedEvent e i event db = Inr db1" "recorded event db db1" "deposits db1 = deposits db"
  by (cases "fails e i"; cases "processed event db")
    (simp_all add: recordProcessedEvent_def recorded_def processed_def)

lemma webhook_result_simps [simp]:
  "webhook_result event db db (Inl ErrStatement)" "webhook_result event db db (Inl ErrPayload)"
  "webhook_result event db db (Inl (ErrCall c))"
  "webhook_result event db db (Inl ErrDuplicateStripeEvent) = processed event db"
  by (simp_all add: webhook_result_def)

lemma persist_result:
  assumes "recorded event db db2" "persist e i db db2 ErrStatement () = (db', r)"
  shows "webhook_result event db db' r"
  using assms(2) by (cases rule: persist_cases) (simp_all add: webhook_result_def assms(1))

lemma recorded_deposits: "recorded event db db1 \<Longrightarrow> recorded event db (db1\<lparr>deposits := ds\<rparr>)"
  by (simp add: recorded_def)

lemma standalone_result:
  assumes "recordProcessedEventStandalone e k event db = (db', r)"
  shows "webhook_result event db db' r"
  by (cases e "k + 1" event db rule: recordProcessedEvent_cases)
    (use assms in \<open>auto simp: recordProcessedEventStandalone_def intro: persist_result split: if_splits\<close>)

lemma and_update_result:
  assumes "recordProcessedEventAndUpdateDeposit rt e k event i st reason db = (db', r)"
  shows "webhook_result event db db' r"
  by (cases e "k + 1" event db rule: recordProcessedEvent_cases)
    (use assms in \<open>auto simp: recordProcessedEventAndUpdateDeposit_def intro: persist_result recorded_deposits split: if_splits option.splits\<close>)

lemma processChargeRefunded_result:
  assumes "processChargeRefundedEvent rt e lc id event db l = (db', l', r)"
  shows "webhook_result event db db' r"
  using assms
  by (auto simp: processChargeRefundedEvent_def getDepositByStripePaymentIntentID_def Let_def
      split: prod.splits option.splits sum.splits if_splits dest: standalone_result and_update_result)

lemma applyStripeEvent_result:
  shows "applyStripeEvent e i event db = Inr db' \<Longrightarrow> recorded event' db0 db \<Longrightarrow> recorded event' db0 db'"
    and "applyStripeEvent e i event db \<noteq> Inl ErrDuplicateStripeEvent"
  by (auto simp: applyStripeEvent_def markDepositSucceeded_def markDepositFailed_def recorded_def split: option.splits if_splits)

lemma processStripeEvent_result:
  assumes "processStripeEvent rt e lc id event db l = (db', l', r)"
  shows "webhook_result event db db' r"
proof (cases "se_Type event = ''charge.refunded'' \<or> fails e 0")
  case True
  then show ?thesis using assms processChargeRefunded_result by (auto simp: processStripeEvent_def split: if_splits)
next
  case False
  show ?thesis
  proof (cases e "1 :: nat" event db rule: recordProcessedEvent_cases)
    case (ok db1)
    show ?thesis
    proof (cases "applyStripeEvent e 2 event db1")
      case (Inl err)
      then show ?thesis using assms False ok applyStripeEvent_result(2) [of e 2 event db1]
        by (auto simp: processStripeEvent_def webhook_result_def)
    next
      case (Inr db2)
      with ok have "recorded event db db2" by (blast intro: applyStripeEvent_result(1))
      then show ?thesis using assms False ok Inr
        by (auto simp: processStripeEvent_def intro: persist_result split: prod.splits)
    qed
  qed (use assms False in \<open>auto simp: processStripeEvent_def\<close>)
qed

text \<open>
  What a delivery of the webhook leaves behind. A request whose body cannot be read or whose
  signature does not verify is answered 400 and changes nothing. For an event that was recorded
  before, the database stays as it is, whatever the answer. Any other event is either recorded
  together with all its effects, or leaves the database untouched and is answered 500, so that
  Stripe's retry meets the database of the first attempt; an answer 200 means that it is recorded.
\<close>

theorem webhook_delivery:
  "case stripeWebhookHandler rt e ConstructEvent lc id secret body signature db l of (db', l', status) \<Rightarrow>
     (case map_option (\<lambda>payload. ConstructEvent (take (2 ^ 20) payload) signature secret) body of
        Some (Inr event) \<Rightarrow>
          if processed event db then db' = db \<and> status \<in> {200, 500}
          else recorded event db db' \<and> status \<in> {200, 500} \<or> db' = db \<and> status = 500
      | _ \<Rightarrow> db' = db \<and> l' = l \<and> status = 400)"
proof (cases "map_option (\<lambda>payload. ConstructEvent (take (2 ^ 20) payload) signature secret) body")
  case (Some ev)
  then obtain payload where b: "body = Some payload" "ConstructEvent (take (2 ^ 20) payload) signature secret = ev" by auto
  show ?thesis
  proof (cases ev)
    case (Inr event)
    obtain db' l' r where p: "processStripeEvent rt e lc id event db l = (db', l', r)" using prod_cases3 by blast
    have "webhook_result event db db' r" by (rule processStripeEvent_result [OF p])
    with b Inr p show ?thesis
      by (cases r) (auto simp add: stripeWebhookHandler_def stripeWebhookMaxBodyBytes_def webhook_result_def recorded_def split: if_splits)
  qed (use b in \<open>simp add: stripeWebhookHandler_def stripeWebhookMaxBodyBytes_def\<close>)
qed (simp add: stripeWebhookHandler_def)

end
