(* ===== verification/Deposit_Saga.thy ===== *)
theory Deposit_Saga
  imports Webhook Settlement
begin

text \<open>
  Deposits as a whole: requests, Stripe's webhooks, any number of workers and the ledger interleaved,
  each step one transaction or one call, with crashes anywhere. Besides the tables and the ledger a
  state holds what Stripe knows (the payment intent it has created under a deposit's id, which is the
  idempotency key of the request, and the intents that have been paid) and what processes have read and
  been answered and have not yet acted on: deposits read as succeeded, credits the ledger has confirmed,
  deposits read as credited by a refund, and reversals the ledger has confirmed. The handlers
  themselves are shown to be runs of these steps (\<open>deposit_handlers\<close>).
\<close>

subsection \<open>Steps\<close>

record dsaga =
  ds_db :: transfers_db
  ds_ledger :: ledger_db
  ds_intents :: "string \<rightharpoonup> string"
  ds_paid :: "string set"
  ds_seen :: "Deposit set"
  ds_credits :: "(Deposit \<times> string) set"
  ds_refunds :: "Deposit set"
  ds_reversed :: "Deposit set"

text \<open>The references of a new deposit: its id and the reversal's, well-formed, unused and different from all others.\<close>

definition fresh_references :: "runtime \<Rightarrow> dsaga \<Rightarrow> string \<Rightarrow> bool" where
  "fresh_references rt s i \<longleftrightarrow> stored_reference rt i \<and> stored_reference rt (reversalReference rt i) \<and>
     ref_entries (ds_ledger s) i = [] \<and> ref_entries (ds_ledger s) (reversalReference rt i) = [] \<and> reversalReference rt i \<noteq> i \<and>
     (\<forall>d\<in>set (deposits (ds_db s)). reversalReference rt i \<notin> {d_ID d, reversalReference rt (d_ID d)} \<and> i \<noteq> reversalReference rt (d_ID d))"

text \<open>
  What Stripe tells: an event that its signature vouches for says of an intent that it has succeeded only when it has
  been paid, and so does the answer of \<open>Retrieve\<close>; a request with a key that it has seen before is answered with
  the intent that was created then.
\<close>

definition genuine :: "string set \<Rightarrow> stripe_event \<Rightarrow> bool" where
  "genuine paid event \<longleftrightarrow> (se_Type event = ''payment_intent.succeeded'' \<longrightarrow> (\<forall>intent. se_intent event = Some intent \<longrightarrow> pi_ID intent \<in> paid))"

definition truthful :: "string set \<Rightarrow> (string \<Rightarrow> unit + PaymentIntent) \<Rightarrow> bool" where
  "truthful paid retrieve \<longleftrightarrow> (\<forall>pid intent. retrieve pid = Inr intent \<and> pi_Status intent = ''succeeded'' \<longrightarrow> pid \<in> paid)"

definition idempotent :: "(string \<rightharpoonup> string) \<Rightarrow> (PaymentIntentCreateParams \<Rightarrow> 'p \<Rightarrow> 'p \<times> (unit + PaymentIntent)) \<Rightarrow> bool" where
  "idempotent intents create \<longleftrightarrow> (\<forall>params p p' intent. create params p = (p', Inr intent) \<longrightarrow>
     intents (pp_IdempotencyKey params) \<in> {None, Some (pi_ID intent)})"

inductive dsaga_step :: "runtime \<Rightarrow> dsaga \<Rightarrow> dsaga \<Rightarrow> bool" for rt where
  ds_insert: "insert_deposit rt e i (ds_db s) account amount = (db', r) \<Longrightarrow> in_int64 amount \<Longrightarrow>
    fresh_references rt s (gen_random_uuid e 0) \<Longrightarrow> dsaga_step rt s (s\<lparr>ds_db := db'\<rparr>)"
| ds_create: "ds_intents s depositID \<in> {None, Some intent} \<Longrightarrow> dsaga_step rt s (s\<lparr>ds_intents := (ds_intents s)(depositID \<mapsto> intent)\<rparr>)"
| ds_pay: "dsaga_step rt s (s\<lparr>ds_paid := insert intent (ds_paid s)\<rparr>)"
| ds_attach: "ds_intents s depositID = Some intent \<Longrightarrow> uuid_in rt depositID = Some depositID \<Longrightarrow> attach_intent rt e i (ds_db s) intent depositID = (db', r) \<Longrightarrow>
    dsaga_step rt s (s\<lparr>ds_db := db'\<rparr>)"
| ds_webhook: "se_Type event \<noteq> ''charge.refunded'' \<Longrightarrow> genuine (ds_paid s) event \<Longrightarrow>
    processStripeEvent rt e (ledger_rpc rt es ns) id event (ds_db s) (ds_ledger s) = (db', l', r2) \<Longrightarrow>
    dsaga_step rt s (s\<lparr>ds_db := db', ds_ledger := l'\<rparr>)"
| ds_poll: "truthful (ds_paid s) retrieve \<Longrightarrow> reconcilePendingDepositWithIntent rt e retrieve id (ds_db s) d = db' \<Longrightarrow>
    dsaga_step rt s (s\<lparr>ds_db := db'\<rparr>)"
| ds_orphaned: "markDepositFailedIfOrphaned rt e (ds_db s) depositID reason = (db', r3) \<Longrightarrow> dsaga_step rt s (s\<lparr>ds_db := db'\<rparr>)"
| ds_see: "d \<in> set (deposits (ds_db s)) \<Longrightarrow> d_Status d = ''succeeded'' \<Longrightarrow> dsaga_step rt s (s\<lparr>ds_seen := insert d (ds_seen s)\<rparr>)"
| ds_credit_call: "d \<in> ds_seen s \<Longrightarrow>
    lc_Deposit (ledger_rpc rt es ns) j (d_AccountID d) (d_Amount d) (d_ID d) (ds_ledger s) = (l', res) \<Longrightarrow>
    dsaga_step rt s (s\<lparr>ds_ledger := l', ds_credits := (case res of Inr tx \<Rightarrow> insert (d, tx) (ds_credits s) | Inl _ \<Rightarrow> ds_credits s)\<rparr>)"
| ds_credit_mark: "(d, tx) \<in> ds_credits s \<Longrightarrow> markDepositCreditedIfSucceeded rt e (ds_db s) (d_ID d) tx = (db', r3) \<Longrightarrow>
    dsaga_step rt s (s\<lparr>ds_db := db'\<rparr>)"
| ds_refund_read: "d \<in> set (deposits (ds_db s)) \<Longrightarrow> d_Status d = ''credited'' \<Longrightarrow> dsaga_step rt s (s\<lparr>ds_refunds := insert d (ds_refunds s)\<rparr>)"
| ds_reverse_call: "d \<in> ds_refunds s \<Longrightarrow>
    lc_ReverseDeposit (ledger_rpc rt es ns) j (d_AccountID d) (d_Amount d) (reversalReference rt (d_ID d)) (ds_ledger s) = (l', res) \<Longrightarrow>
    dsaga_step rt s (s\<lparr>ds_ledger := l', ds_reversed := (case res of Inr tx \<Rightarrow> insert d (ds_reversed s) | Inl _ \<Rightarrow> ds_reversed s)\<rparr>)"
| ds_refund_mark: "d \<in> ds_reversed s \<Longrightarrow>
    recordProcessedEventAndUpdateDeposit rt e k event (d_ID d) ''refunded'' None (ds_db s) = (db', r4) \<Longrightarrow> dsaga_step rt s (s\<lparr>ds_db := db'\<rparr>)"
| ds_refund_early: "d \<in> ds_seen s \<Longrightarrow>
    recordProcessedEventAndUpdateDeposit rt e k event (d_ID d) ''failed'' (Some ''refunded_before_credit'') (ds_db s) = (db', r4) \<Longrightarrow>
    dsaga_step rt s (s\<lparr>ds_db := db'\<rparr>)"
| ds_ledger_other: "ledger_ok l' \<Longrightarrow>
    (\<And>d. d \<in> set (deposits (ds_db s)) \<Longrightarrow> ref_entries l' (d_ID d) = ref_entries (ds_ledger s) (d_ID d) \<and>
       ref_entries l' (reversalReference rt (d_ID d)) = ref_entries (ds_ledger s) (reversalReference rt (d_ID d))) \<Longrightarrow>
    dsaga_step rt s (s\<lparr>ds_ledger := l'\<rparr>)"
| ds_db_other: "deposits db' = deposits (ds_db s) \<Longrightarrow> dsaga_step rt s (s\<lparr>ds_db := db'\<rparr>)"

definition dsaga_start :: "ledger_db \<Rightarrow> dsaga" where
  "dsaga_start l = \<lparr>ds_db = migrated_transfers, ds_ledger = l, ds_intents = Map.empty, ds_paid = {},
     ds_seen = {}, ds_credits = {}, ds_refunds = {}, ds_reversed = {}\<rparr>"

definition dsaga_reach :: "runtime \<Rightarrow> dsaga \<Rightarrow> bool" where
  "dsaga_reach rt s \<longleftrightarrow> (\<exists>l. ledger_ok l \<and> (dsaga_step rt)\<^sup>*\<^sup>* (dsaga_start l) s)"

subsection \<open>The invariant\<close>

definition same_deposit :: "Deposit \<Rightarrow> Deposit \<Rightarrow> bool" where
  "same_deposit d d' \<longleftrightarrow> d_ID d' = d_ID d \<and> d_AccountID d' = d_AccountID d \<and> d_Amount d' = d_Amount d"

definition paid_for :: "string set \<Rightarrow> Deposit \<Rightarrow> bool" where
  "paid_for paid d \<longleftrightarrow> (\<exists>pid\<in>paid. d_StripePaymentIntentID d = Some pid)"

text \<open>What the ledger and Stripe hold for a deposit, and what its status says about it.\<close>

definition deposit_ok :: "runtime \<Rightarrow> ledger_db \<Rightarrow> (string \<rightharpoonup> string) \<Rightarrow> string set \<Rightarrow> Deposit \<Rightarrow> bool" where
  "deposit_ok rt l intents paid d \<longleftrightarrow>
     (let c = booked l (d_ID d); r = booked l (reversalReference rt (d_ID d)) in
      length c \<le> 1 \<and> length r \<le> 1 \<and> (r \<noteq> [] \<longrightarrow> c \<noteq> []) \<and> (c \<noteq> [] \<longrightarrow> paid_for paid d) \<and>
      (\<forall>pid. d_StripePaymentIntentID d = Some pid \<longrightarrow> intents (d_ID d) = Some pid) \<and>
      (\<forall>x\<in>set (ref_entries l (d_ID d)) \<union> set (ref_entries l (reversalReference rt (d_ID d))). \<bar>e_amount x\<bar> = d_Amount d) \<and>
      (d_Status d = ''succeeded'' \<longrightarrow> paid_for paid d) \<and>
      (d_Status d = ''credited'' \<longrightarrow> (\<exists>tx. c = [tx] \<and> uuid_in rt tx \<noteq> None \<and> d_LedgerTransactionID d = uuid_in rt tx)) \<and>
      (d_Status d = ''refunded'' \<longrightarrow> r \<noteq> []))"

lemma paid_for_mono: "paid_for P d \<Longrightarrow> P \<subseteq> P' \<Longrightarrow> paid_for P' d"
  by (auto simp: paid_for_def)

lemma deposit_ok_mono: "deposit_ok rt l I P d \<Longrightarrow> I \<subseteq>\<^sub>m I' \<Longrightarrow> P \<subseteq> P' \<Longrightarrow> deposit_ok rt l I' P' d"
  unfolding deposit_ok_def Let_def using paid_for_mono [of P d P'] by (auto simp: map_le_def dom_def)

definition deposit_refs :: "runtime \<Rightarrow> Deposit list \<Rightarrow> bool" where
  "deposit_refs rt ds \<longleftrightarrow> distinct (map d_ID ds) \<and>
     (\<forall>d\<in>set ds. stored_reference rt (d_ID d) \<and> stored_reference rt (reversalReference rt (d_ID d)) \<and> in_int64 (d_Amount d) \<and>
        (\<forall>d'\<in>set ds. reversalReference rt (d_ID d) \<noteq> d_ID d' \<and>
           (reversalReference rt (d_ID d) = reversalReference rt (d_ID d') \<longrightarrow> d_ID d = d_ID d')))"

definition dsaga_inv :: "runtime \<Rightarrow> dsaga \<Rightarrow> bool" where
  "dsaga_inv rt s \<longleftrightarrow> ledger_ok (ds_ledger s) \<and> deposit_refs rt (deposits (ds_db s)) \<and>
     (\<forall>d\<in>set (deposits (ds_db s)). deposit_ok rt (ds_ledger s) (ds_intents s) (ds_paid s) d) \<and>
     (\<forall>d\<in>ds_seen s. \<exists>d0\<in>set (deposits (ds_db s)). same_deposit d d0 \<and> paid_for (ds_paid s) d0) \<and>
     (\<forall>(d, tx)\<in>ds_credits s. booked (ds_ledger s) (d_ID d) = [tx] \<and> (\<exists>d0\<in>set (deposits (ds_db s)). same_deposit d d0)) \<and>
     (\<forall>d\<in>ds_refunds s. booked (ds_ledger s) (d_ID d) \<noteq> [] \<and> (\<exists>d0\<in>set (deposits (ds_db s)). same_deposit d d0)) \<and>
     (\<forall>d\<in>ds_reversed s. booked (ds_ledger s) (reversalReference rt (d_ID d)) \<noteq> [] \<and> (\<exists>d0\<in>set (deposits (ds_db s)). same_deposit d d0))"

lemma same_deposit_refl [simp]: "same_deposit d d"
  by (simp add: same_deposit_def)

lemma same_deposit_trans: "same_deposit a b \<Longrightarrow> same_deposit b c \<Longrightarrow> same_deposit a c"
  by (simp add: same_deposit_def)

text \<open>Changing rows in place.\<close>

lemma dsaga_update:
  assumes "dsaga_inv rt s" "deposits db' = update_where p upd (deposits (ds_db s)) \<or> deposits db' = deposits (ds_db s)"
    and "\<And>d. same_deposit d (upd d)"
    and "\<And>d. d \<in> set (deposits (ds_db s)) \<Longrightarrow> p d \<Longrightarrow> deposit_ok rt (ds_ledger s) (ds_intents s) (ds_paid s) (upd d)"
    and "\<And>d. d \<in> set (deposits (ds_db s)) \<Longrightarrow> p d \<Longrightarrow> paid_for (ds_paid s) d \<Longrightarrow> paid_for (ds_paid s) (upd d)"
  shows "dsaga_inv rt (s\<lparr>ds_db := db'\<rparr>)"
proof -
  from assms(2) obtain f where f: "deposits db' = map f (deposits (ds_db s))" and cases: "\<And>d. f d = d \<or> p d \<and> f d = upd d"
  proof
    assume "deposits db' = deposits (ds_db s)"
    then show ?thesis by (intro that [of id]) simp_all
  next
    assume "deposits db' = update_where p upd (deposits (ds_db s))"
    then show ?thesis by (intro that [of "\<lambda>d. if p d then upd d else d"]) (auto simp: update_where_def)
  qed
  have same: "same_deposit d (f d)" for d using assms(3) cases [of d] by auto
  then have ids: "d_ID (f d) = d_ID d" "d_Amount (f d) = d_Amount d" for d by (simp_all add: same_deposit_def)
  have ok: "deposit_ok rt (ds_ledger s) (ds_intents s) (ds_paid s) (f d)" if "d \<in> set (deposits (ds_db s))" for d
    using assms(1,4) that cases [of d] by (auto simp: dsaga_inv_def)
  have refs: "deposit_refs rt (deposits db')"
    using assms(1) by (simp add: f deposit_refs_def dsaga_inv_def ids comp_def)
  have keep: "\<exists>d0\<in>set (deposits db'). same_deposit d d0" if "\<exists>d0\<in>set (deposits (ds_db s)). same_deposit d d0" for d
    using that same by (auto simp: f intro: same_deposit_trans)
  have keep_paid: "\<exists>d0\<in>set (deposits db'). same_deposit d d0 \<and> paid_for (ds_paid s) d0"
    if "\<exists>d0\<in>set (deposits (ds_db s)). same_deposit d d0 \<and> paid_for (ds_paid s) d0" for d
  proof -
    from that obtain d0 where d0: "d0 \<in> set (deposits (ds_db s))" "same_deposit d d0" "paid_for (ds_paid s) d0" by blast
    have "paid_for (ds_paid s) (f d0)" using assms(5) [OF d0(1) _ d0(3)] d0(3) cases [of d0] by auto
    then show ?thesis using d0(1) same_deposit_trans [OF d0(2) same] by (auto simp: f)
  qed
  show ?thesis
    using assms(1) ok refs keep keep_paid unfolding dsaga_inv_def by (auto simp: f split: prod.splits)
qed

text \<open>Moving money: the entries under one reference grow by one pair, all else stays.\<close>

lemma deposit_response_refs:
  assumes "deposit_response (postUncheckedTransfer rt e db f t a r) = (db', res)" "stored_reference rt r"
  shows "r' \<noteq> r \<Longrightarrow> ref_entries db' r' = ref_entries db r'"
    and "x \<in> set (ref_entries db' r) \<Longrightarrow> x \<in> set (ref_entries db r) \<or> \<bar>e_amount x\<bar> = a"
proof -
  have p: "reference_param rt r = Some (Some r)"
    using assms(2) by (simp add: stored_reference_def reference_param_def)
  show "r' \<noteq> r \<Longrightarrow> ref_entries db' r' = ref_entries db r'"
    using assms(1) by (cases rule: deposit_response_cases) (use p in \<open>auto simp: ref_entries_posted\<close>)
  show "x \<in> set (ref_entries db' r) \<Longrightarrow> x \<in> set (ref_entries db r) \<or> \<bar>e_amount x\<bar> = a"
    using assms(1)
    by (cases rule: deposit_response_cases) (use p in \<open>auto simp: ref_entries_posted pair_entries_def\<close>)
qed

definition pays :: "runtime \<Rightarrow> ledger_db \<Rightarrow> string \<Rightarrow> int \<Rightarrow> ledger_db \<Rightarrow> bool" where
  "pays rt l r a l' \<longleftrightarrow> ledger_ok l' \<and> (\<forall>r'. r' \<noteq> r \<longrightarrow> ref_entries l' r' = ref_entries l r' \<and> booked l' r' = booked l r') \<and>
     (\<forall>x\<in>set (ref_entries l' r). x \<in> set (ref_entries l r) \<or> \<bar>e_amount x\<bar> = a) \<and>
     (booked l r \<noteq> [] \<longrightarrow> booked l' r = booked l r) \<and> length (booked l' r) \<le> max 1 (length (booked l r))"

lemma pays_refl: "ledger_ok l \<Longrightarrow> pays rt l r a l"
  by (simp add: pays_def)

lemma deposit_response_pays:
  assumes "deposit_response (postUncheckedTransfer rt e l f t a r) = (l', res)" "stored_reference rt r" "ledger_ok l" "in_int64 a"
  shows "pays rt l r a l'"
proof -
  have "ledger_ok l'" using deposit_response_ok [OF assms(3,4), of rt e f t r] assms(1) by simp
  then show ?thesis
    using deposit_response_refs [OF assms(1,2)] deposit_response_contract(2-4) [OF assms(1,2,3)]
    unfolding pays_def by (cases "booked l r = []") auto
qed

lemma rpc_pays:
  assumes "stored_reference rt r" "ledger_ok l" "in_int64 a"
  shows "lc_Deposit (ledger_rpc rt es ns) j acc a r l = (l', res) \<Longrightarrow> pays rt l r a l'"
    and "lc_ReverseDeposit (ledger_rpc rt es ns) j acc a r l = (l', res) \<Longrightarrow> pays rt l r a l'"
  using deposit_response_pays assms pays_refl by (auto simp: rpc_unfold elim!: call_cases)

lemma dsaga_inv_row:
  assumes "dsaga_inv rt s" "d \<in> set (deposits (ds_db s))"
  shows "deposit_ok rt (ds_ledger s) (ds_intents s) (ds_paid s) d" "stored_reference rt (d_ID d)" "stored_reference rt (reversalReference rt (d_ID d))"
    "in_int64 (d_Amount d)" "ledger_ok (ds_ledger s)"
  using assms by (auto simp: dsaga_inv_def deposit_refs_def)

lemma dsaga_distinct:
  assumes "dsaga_inv rt s" "d \<in> set (deposits (ds_db s))" "d' \<in> set (deposits (ds_db s))"
  shows "reversalReference rt (d_ID d) \<noteq> d_ID d'" "d_ID d = d_ID d' \<Longrightarrow> d = d'"
    "reversalReference rt (d_ID d) = reversalReference rt (d_ID d') \<longleftrightarrow> d_ID d = d_ID d'"
  using assms by (auto simp: dsaga_inv_def deposit_refs_def distinct_map inj_on_def)

text \<open>A call that may credit the deposit \<open>d0\<close>, and one that may reverse it.\<close>

lemma dsaga_credit_ok:
  assumes "dsaga_inv rt s" "d0 \<in> set (deposits (ds_db s))" "pays rt (ds_ledger s) (d_ID d0) (d_Amount d0) l'"
    and "d \<in> set (deposits (ds_db s))" "paid_for (ds_paid s) d0"
  shows "deposit_ok rt l' (ds_intents s) (ds_paid s) d"
proof -
  note ok = dsaga_inv_row(1) [OF assms(1,4)]
  have r: "reversalReference rt (d_ID d) \<noteq> d_ID d0" by (rule dsaga_distinct(1) [OF assms(1,4,2)])
  show ?thesis
  proof (cases "d_ID d = d_ID d0")
    case True
    then have "d = d0" using dsaga_distinct(2) [OF assms(1,4,2)] by simp
    with ok assms(3,5) r show ?thesis unfolding deposit_ok_def pays_def Let_def by auto
  next
    case False
    with ok assms(3) r show ?thesis unfolding deposit_ok_def pays_def Let_def by auto
  qed
qed

lemma dsaga_reverse_ok:
  assumes "dsaga_inv rt s" "d0 \<in> set (deposits (ds_db s))" "booked (ds_ledger s) (d_ID d0) \<noteq> []"
    and "pays rt (ds_ledger s) (reversalReference rt (d_ID d0)) (d_Amount d0) l'" "d \<in> set (deposits (ds_db s))"
  shows "deposit_ok rt l' (ds_intents s) (ds_paid s) d"
proof -
  note ok = dsaga_inv_row(1) [OF assms(1,5)]
  have r: "d_ID d \<noteq> reversalReference rt (d_ID d0)" using dsaga_distinct(1) [OF assms(1,2,5)] by simp
  show ?thesis
  proof (cases "d_ID d = d_ID d0")
    case True
    then have "d = d0" using dsaga_distinct(2) [OF assms(1,5,2)] by simp
    with ok assms(3,4) r show ?thesis unfolding deposit_ok_def pays_def Let_def by auto
  next
    case False
    then have "reversalReference rt (d_ID d) \<noteq> reversalReference rt (d_ID d0)"
      using dsaga_distinct(3) [OF assms(1,5,2)] by simp
    with ok assms(4) r show ?thesis unfolding deposit_ok_def pays_def Let_def by auto
  qed
qed

subsection \<open>Every step keeps it\<close>

lemma same_deposit_set [simp]:
  "same_deposit d (set_intent e i d)" "same_deposit d (set_credited e v d)" "same_deposit d (set_deposit_failed e r d)"
  "same_deposit d (set_succeeded e d)" "same_deposit d (d\<lparr>d_Status := st, d_FailureReason := fr, d_UpdatedAt := u\<rparr>)"
  by (simp_all add: same_deposit_def set_intent_def set_credited_def set_deposit_failed_def set_succeeded_def)

lemma paid_for_upd:
  "paid_for P (set_deposit_failed e r d) = paid_for P d" "paid_for P (set_succeeded e d) = paid_for P d"
  "paid_for P (set_credited e v d) = paid_for P d"
  "paid_for P (d\<lparr>d_Status := st, d_FailureReason := fr, d_UpdatedAt := u\<rparr>) = paid_for P d"
  by (simp_all add: paid_for_def set_deposit_failed_def set_succeeded_def set_credited_def)

lemma paid_for_intent:
  "deposit_ok rt l I P d \<Longrightarrow> I (d_ID d) = Some i \<Longrightarrow> paid_for P d \<Longrightarrow> paid_for P (set_intent e i d)"
  by (auto simp: deposit_ok_def Let_def paid_for_def set_intent_def)

lemma deposit_ok_upd:
  assumes "deposit_ok rt l I P d"
  shows "I (d_ID d) = Some i \<Longrightarrow> deposit_ok rt l I P (set_intent e i d)" "deposit_ok rt l I P (set_deposit_failed e r d)"
    "paid_for P d \<Longrightarrow> deposit_ok rt l I P (set_succeeded e d)"
    "booked l (d_ID d) = [tx] \<Longrightarrow> uuid_in rt tx = Some v \<Longrightarrow> deposit_ok rt l I P (set_credited e v d)"
    "booked l (reversalReference rt (d_ID d)) \<noteq> [] \<Longrightarrow>
       deposit_ok rt l I P (d\<lparr>d_Status := ''refunded'', d_FailureReason := fr, d_UpdatedAt := u\<rparr>)"
    "deposit_ok rt l I P (d\<lparr>d_Status := ''failed'', d_FailureReason := fr, d_UpdatedAt := u\<rparr>)"
proof -
  show "I (d_ID d) = Some i \<Longrightarrow> deposit_ok rt l I P (set_intent e i d)"
    using assms paid_for_intent [OF assms] by (simp add: deposit_ok_def Let_def) (simp add: set_intent_def)
qed (use assms in \<open>simp_all add: deposit_ok_def Let_def paid_for_def set_deposit_failed_def set_succeeded_def set_credited_def\<close>)

lemma update_deposits_rows:
  "update_deposits e i db p upd = (db', r) \<Longrightarrow> deposits db' = update_where p upd (deposits db) \<or> deposits db' = deposits db"
  by (auto simp: update_deposits_def elim!: persist_cases)

lemma attach_intent_rows:
  "attach_intent rt e i db intent depositID = (db', r) \<Longrightarrow>
   \<exists>u. uuid_in rt depositID = Some u \<and> deposits db' = update_where (\<lambda>d. d_ID d = u) (set_intent e intent) (deposits db) \<or>
     deposits db' = deposits db"
  by (auto simp: attach_intent_def split: option.splits if_splits elim!: persist_cases)

lemma processStripeEvent_rows:
  assumes "processStripeEvent rt e lc m event db l = (db', l', r)" "se_Type event \<noteq> ''charge.refunded''" "genuine paid event"
  shows "l' = l \<and> ((\<exists>pid\<in>paid. deposits db' = update_where (\<lambda>d. d_StripePaymentIntentID d = Some pid) (set_succeeded e) (deposits db))
    \<or> (\<exists>p x. deposits db' = update_where p (set_deposit_failed e x) (deposits db)) \<or> deposits db' = deposits db)"
  using assms
  by (auto simp: processStripeEvent_def recordProcessedEvent_def applyStripeEvent_def markDepositSucceeded_def markDepositFailed_def
      genuine_def split: if_splits sum.splits option.splits prod.splits elim!: persist_cases)
    blast+

lemma reconcilePendingDepositWithIntent_rows:
  assumes "reconcilePendingDepositWithIntent rt e retrieve id db d = db'" "truthful paid retrieve"
  shows "(\<exists>pid\<in>paid. deposits db' = update_where (\<lambda>d. d_StripePaymentIntentID d = Some pid \<and> d_Status d = ''pending'') (set_succeeded e) (deposits db))
    \<or> (\<exists>p x. deposits db' = update_where p (set_deposit_failed e x) (deposits db)) \<or> deposits db' = deposits db"
proof -
  have "db' = db \<or> (\<exists>pid\<in>paid. db' = fst (markDepositSucceededIfPending e db pid)) \<or>
      (\<exists>i. db' = fst (markDepositFailedIfPending rt e db i ''canceled''))"
  proof (cases "d_StripePaymentIntentID d")
    case (Some pid)
    show ?thesis
    proof (cases "retrieve pid")
      case (Inr intent)
      then have "pi_Status intent = ''succeeded'' \<Longrightarrow> pid \<in> paid" using assms(2) by (simp add: truthful_def)
      then show ?thesis using assms(1) Some Inr by (simp add: reconcilePendingDepositWithIntent_def split: if_splits) blast+
    qed (use assms(1) Some in \<open>auto simp: reconcilePendingDepositWithIntent_def split: unit.splits\<close>)
  qed (use assms(1) in \<open>simp add: reconcilePendingDepositWithIntent_def\<close>)
  then consider "db' = db" | pid where "pid \<in> paid" "db' = fst (markDepositSucceededIfPending e db pid)"
    | i where "db' = fst (markDepositFailedIfPending rt e db i ''canceled'')"
    by blast
  then show ?thesis
  proof cases
    case 2
    have "markDepositSucceededIfPending e db pid = (db', snd (markDepositSucceededIfPending e db pid))" using 2(2) by simp
    from update_deposits_rows [OF this [unfolded markDepositSucceededIfPending_def]] 2(1) show ?thesis by blast
  next
    case 3
    have "markDepositFailedIfPending rt e db i ''canceled'' = (db', snd (markDepositFailedIfPending rt e db i ''canceled''))" using 3 by simp
    then obtain p where "deposits db' = update_where p (set_deposit_failed e ''canceled'') (deposits db) \<or> deposits db' = deposits db"
      by (auto simp: markDepositFailedIfPending_def split: option.splits dest!: update_deposits_rows)
    then show ?thesis by blast
  qed simp
qed

lemma recordProcessedEventAndUpdateDeposit_rows:
  assumes "recordProcessedEventAndUpdateDeposit rt e k event i st fr db = (db', r)" "uuid_in rt i = Some i"
  shows "deposits db' = update_where (\<lambda>d. d_ID d = i) (\<lambda>d. d\<lparr>d_Status := st, d_FailureReason := fr, d_UpdatedAt := now e\<rparr>) (deposits db)
    \<or> deposits db' = deposits db"
  using assms
  by (auto simp: recordProcessedEventAndUpdateDeposit_def recordProcessedEvent_def split: if_splits sum.splits option.splits
      elim!: persist_cases)

lemma markDepositCreditedIfSucceeded_rows:
  assumes "markDepositCreditedIfSucceeded rt e db i tx = (db', r)" "uuid_in rt i = Some i"
  shows "(\<exists>v. uuid_in rt tx = Some v \<and> deposits db' =
      update_where (\<lambda>d. d_ID d = i \<and> d_Status d = ''succeeded'') (set_credited e v) (deposits db)) \<or> deposits db' = deposits db"
  using assms
  by (auto simp: markDepositCreditedIfSucceeded_def split: if_splits sum.splits option.splits
      elim!: persist_cases insert_transfer_event_SomeD)

lemma dsaga_insert:
  assumes "dsaga_inv rt s" "insert_deposit rt e i (ds_db s) account amount = (db', r)" "in_int64 amount"
    and "fresh_references rt s (gen_random_uuid e 0)"
  shows "dsaga_inv rt (s\<lparr>ds_db := db'\<rparr>)"
proof -
  from assms(2) consider "db' = ds_db s"
    | u where "db' = (ds_db s)\<lparr>deposits := deposits (ds_db s) @ [pending_deposit e u amount]\<rparr>"
        "gen_random_uuid e 0 \<notin> d_ID ` set (deposits (ds_db s))"
    by (auto simp: insert_deposit_def split: option.splits if_splits elim!: persist_cases)
  then show ?thesis
  proof cases
    case 1
    then show ?thesis using assms(1) by simp
  next
    case 2
    let ?d = "pending_deposit e u amount"
    have d: "d_ID ?d = gen_random_uuid e 0" "d_Amount ?d = amount" "d_Status ?d = ''pending''"
      by (simp_all add: pending_deposit_def)
    have "deposit_ok rt (ds_ledger s) (ds_intents s) (ds_paid s) ?d"
      using assms(4) by (simp add: deposit_ok_def Let_def d fresh_references_def booked_refs)
        (simp add: pending_deposit_def)
    moreover have "deposit_refs rt (deposits db')"
      using assms(1,3,4) 2 unfolding dsaga_inv_def deposit_refs_def fresh_references_def by (auto simp: d)
    ultimately show ?thesis
      using assms(1) unfolding dsaga_inv_def 2(1) by (auto split: prod.splits)
  qed
qed

lemma dsaga_credit_call:
  assumes "dsaga_inv rt s" "d \<in> ds_seen s"
    and "lc_Deposit (ledger_rpc rt es ns) j (d_AccountID d) (d_Amount d) (d_ID d) (ds_ledger s) = (l', res)"
  shows "dsaga_inv rt (s\<lparr>ds_ledger := l', ds_credits := (case res of Inr tx \<Rightarrow> insert (d, tx) (ds_credits s) | Inl _ \<Rightarrow> ds_credits s)\<rparr>)"
proof -
  from assms(1,2) obtain d0 where d0: "d0 \<in> set (deposits (ds_db s))" "same_deposit d d0" "paid_for (ds_paid s) d0"
    by (auto simp: dsaga_inv_def)
  then have same: "d_ID d0 = d_ID d" "d_Amount d0 = d_Amount d" by (simp_all add: same_deposit_def)
  note row = dsaga_inv_row [OF assms(1) d0(1), unfolded same]
  from rpc_pays(1) [OF row(2,5,4) assms(3)] have p: "pays rt (ds_ledger s) (d_ID d) (d_Amount d) l'" .
  have ok: "deposit_ok rt l' (ds_intents s) (ds_paid s) x" if "x \<in> set (deposits (ds_db s))" for x
    using dsaga_credit_ok [OF assms(1) d0(1) _ that d0(3)] p same by auto
  have stay: "booked l' r = booked (ds_ledger s) r" if "booked (ds_ledger s) r \<noteq> []" for r
    using p that unfolding pays_def by metis
  have new: "booked l' (d_ID d) = [tx]" if "res = Inr tx" for tx
  proof -
    have "booked l' (d_ID d) \<noteq> [] \<and> hd (booked l' (d_ID d)) = tx"
      using ledger_svc.deposit_ok [OF row(5,2)] assms(3) that by blast
    moreover have "length (booked l' (d_ID d)) \<le> 1" using ok [OF d0(1)] same by (simp add: deposit_ok_def Let_def)
    ultimately show ?thesis by (cases "booked l' (d_ID d)") auto
  qed
  have "ledger_ok l'" using p by (simp add: pays_def)
  moreover have "\<forall>(x, tx)\<in>ds_credits s. booked l' (d_ID x) = [tx]" "\<forall>x\<in>ds_refunds s. booked l' (d_ID x) \<noteq> []"
    "\<forall>x\<in>ds_reversed s. booked l' (reversalReference rt (d_ID x)) \<noteq> []"
    using assms(1) stay unfolding dsaga_inv_def by fastforce+
  ultimately show ?thesis
    using assms(1) ok new d0 unfolding dsaga_inv_def by (cases res) auto
qed

lemma dsaga_reverse_call:
  assumes "dsaga_inv rt s" "d \<in> ds_refunds s"
    and "lc_ReverseDeposit (ledger_rpc rt es ns) j (d_AccountID d) (d_Amount d) (reversalReference rt (d_ID d)) (ds_ledger s) = (l', res)"
  shows "dsaga_inv rt (s\<lparr>ds_ledger := l', ds_reversed := (case res of Inr tx \<Rightarrow> insert d (ds_reversed s) | Inl _ \<Rightarrow> ds_reversed s)\<rparr>)"
proof -
  from assms(1,2) obtain d0 where d0: "d0 \<in> set (deposits (ds_db s))" "same_deposit d d0" "booked (ds_ledger s) (d_ID d) \<noteq> []"
    by (auto simp: dsaga_inv_def)
  then have same: "d_ID d0 = d_ID d" "d_Amount d0 = d_Amount d" by (simp_all add: same_deposit_def)
  note row = dsaga_inv_row [OF assms(1) d0(1), unfolded same]
  from rpc_pays(2) [OF row(3,5,4) assms(3)] have p: "pays rt (ds_ledger s) (reversalReference rt (d_ID d)) (d_Amount d) l'" .
  have ok: "deposit_ok rt l' (ds_intents s) (ds_paid s) x" if "x \<in> set (deposits (ds_db s))" for x
    using dsaga_reverse_ok [OF assms(1) d0(1) _ _ that] p same d0(3) by auto
  have stay: "booked l' r = booked (ds_ledger s) r" if "booked (ds_ledger s) r \<noteq> []" for r
    using p that unfolding pays_def by metis
  have new: "booked l' (reversalReference rt (d_ID d)) \<noteq> []" if "res = Inr tx" for tx
    using ledger_svc.reverse_ok [OF row(5,3)] assms(3) that by blast
  have "ledger_ok l'" using p by (simp add: pays_def)
  moreover have "\<forall>(x, tx)\<in>ds_credits s. booked l' (d_ID x) = [tx]" "\<forall>x\<in>ds_refunds s. booked l' (d_ID x) \<noteq> []"
    "\<forall>x\<in>ds_reversed s. booked l' (reversalReference rt (d_ID x)) \<noteq> []"
    using assms(1) stay unfolding dsaga_inv_def by fastforce+
  ultimately show ?thesis
    using assms(1) ok new d0 unfolding dsaga_inv_def by (cases res) auto
qed

text \<open>Rows confirmed by a paid intent, rows that failed, and steps that touch no row.\<close>

lemma dsaga_confirm:
  assumes "dsaga_inv rt s" "pid \<in> ds_paid s"
  shows "deposits db' = update_where (\<lambda>d. d_StripePaymentIntentID d = Some pid) (set_succeeded e) (deposits (ds_db s)) \<Longrightarrow>
      dsaga_inv rt (s\<lparr>ds_db := db'\<rparr>)"
    and "deposits db' = update_where (\<lambda>d. d_StripePaymentIntentID d = Some pid \<and> d_Status d = ''pending'') (set_succeeded e) (deposits (ds_db s)) \<Longrightarrow>
      dsaga_inv rt (s\<lparr>ds_db := db'\<rparr>)"
proof -
  have paid: "paid_for (ds_paid s) d" if "d_StripePaymentIntentID d = Some pid" for d
    using assms(2) that by (auto simp: paid_for_def)
  show "deposits db' = update_where (\<lambda>d. d_StripePaymentIntentID d = Some pid) (set_succeeded e) (deposits (ds_db s)) \<Longrightarrow>
      dsaga_inv rt (s\<lparr>ds_db := db'\<rparr>)"
    and "deposits db' = update_where (\<lambda>d. d_StripePaymentIntentID d = Some pid \<and> d_Status d = ''pending'') (set_succeeded e) (deposits (ds_db s)) \<Longrightarrow>
      dsaga_inv rt (s\<lparr>ds_db := db'\<rparr>)"
    by (rule dsaga_update [OF assms(1) disjI1], assumption,
        use deposit_ok_upd(3) [OF dsaga_inv_row(1) [OF assms(1)]] paid paid_for_upd in auto)+
qed

lemma dsaga_fail:
  assumes "dsaga_inv rt s" "deposits db' = update_where p (set_deposit_failed e x) (deposits (ds_db s))"
  shows "dsaga_inv rt (s\<lparr>ds_db := db'\<rparr>)"
  by (rule dsaga_update [OF assms(1) disjI1 [OF assms(2)]])
    (use deposit_ok_upd(2) [OF dsaga_inv_row(1) [OF assms(1)]] paid_for_upd in auto)

lemma dsaga_same_rows:
  assumes "dsaga_inv rt s" "deposits db' = deposits (ds_db s)"
  shows "dsaga_inv rt (s\<lparr>ds_db := db'\<rparr>)"
  by (rule dsaga_update [OF assms(1) disjI2 [OF assms(2)], where p = "\<lambda>_. False" and upd = id]) auto

lemma dsaga_step_inv:
  assumes "dsaga_step rt s s'" "dsaga_inv rt s"
  shows "dsaga_inv rt s'"
  using assms(1)
proof cases
  case (ds_insert e i account amount db' r)
  then show ?thesis using dsaga_insert assms(2) by blast
next
  case (ds_create depositID intent)
  have m: "ds_intents s \<subseteq>\<^sub>m (ds_intents s)(depositID \<mapsto> intent)" using ds_create(2) by (auto simp: map_le_def dom_def)
  show ?thesis using assms(2) deposit_ok_mono [OF _ m subset_refl] unfolding ds_create(1) dsaga_inv_def by auto
next
  case (ds_pay intent)
  have m: "ds_paid s \<subseteq> insert intent (ds_paid s)" by blast
  show ?thesis using assms(2) deposit_ok_mono [OF _ map_le_refl m] paid_for_mono [OF _ m] unfolding ds_pay dsaga_inv_def by fastforce
next
  case (ds_attach depositID intent e i db' r)
  from attach_intent_rows [OF ds_attach(4)] ds_attach(3) have
    "deposits db' = update_where (\<lambda>d. d_ID d = depositID) (set_intent e intent) (deposits (ds_db s)) \<or> deposits db' = deposits (ds_db s)" by auto
  then show ?thesis
    unfolding ds_attach(1) by (rule dsaga_update [OF assms(2)])
      (use deposit_ok_upd(1) [OF dsaga_inv_row(1) [OF assms(2)]] paid_for_intent [OF dsaga_inv_row(1) [OF assms(2)]] ds_attach(2) in auto)
next
  case (ds_webhook event e es ns db' l' r2)
  from processStripeEvent_rows [OF ds_webhook(4,2,3)] have l: "l' = ds_ledger s" by blast
  from processStripeEvent_rows [OF ds_webhook(4,2,3)] have "dsaga_inv rt (s\<lparr>ds_db := db'\<rparr>)"
    using dsaga_confirm [OF assms(2)] dsaga_fail [OF assms(2)] dsaga_same_rows [OF assms(2)] by blast
  then show ?thesis by (simp add: ds_webhook(1) l)
next
  case (ds_poll retrieve e d db')
  from reconcilePendingDepositWithIntent_rows [OF ds_poll(3,2)] show ?thesis
    unfolding ds_poll(1) using dsaga_confirm [OF assms(2)] dsaga_fail [OF assms(2)] dsaga_same_rows [OF assms(2)] by blast
next
  case (ds_orphaned e depositID reason db' r3)
  then obtain p where "deposits db' = update_where p (set_deposit_failed e reason) (deposits (ds_db s)) \<or> deposits db' = deposits (ds_db s)"
    by (auto simp: markDepositFailedIfOrphaned_def split: option.splits dest!: update_deposits_rows)
  then show ?thesis
    unfolding ds_orphaned(1) using dsaga_fail [OF assms(2)] dsaga_same_rows [OF assms(2)] by blast
next
  case (ds_see d)
  then show ?thesis using assms(2) unfolding dsaga_inv_def deposit_ok_def Let_def by (auto intro: same_deposit_refl)
next
  case (ds_credit_call d es ns j l' res)
  then show ?thesis using dsaga_credit_call assms(2) by blast
next
  case (ds_credit_mark d tx e db' r3)
  then obtain d0 where d0: "d0 \<in> set (deposits (ds_db s))" "same_deposit d d0" "booked (ds_ledger s) (d_ID d) = [tx]"
    using assms(2) by (auto simp: dsaga_inv_def)
  then have "uuid_in rt (d_ID d) = Some (d_ID d)"
    using dsaga_inv_row(2) [OF assms(2) d0(1)] by (auto simp: same_deposit_def stored_reference_def)
  from markDepositCreditedIfSucceeded_rows [OF ds_credit_mark(3) this] show ?thesis
  proof (elim disjE exE conjE)
    fix v assume v: "uuid_in rt tx = Some v"
      "deposits db' = update_where (\<lambda>x. d_ID x = d_ID d \<and> d_Status x = ''succeeded'') (set_credited e v) (deposits (ds_db s))"
    show ?thesis unfolding ds_credit_mark(1)
      by (rule dsaga_update [OF assms(2) disjI1 [OF v(2)]])
        (use deposit_ok_upd(4) [OF dsaga_inv_row(1) [OF assms(2)]] paid_for_upd v(1) d0(3) in auto)
  next
    assume "deposits db' = deposits (ds_db s)"
    then show ?thesis unfolding ds_credit_mark(1) by (rule dsaga_same_rows [OF assms(2)])
  qed
next
  case (ds_refund_read d)
  with dsaga_inv_row(1) [OF assms(2) ds_refund_read(2)] have "booked (ds_ledger s) (d_ID d) \<noteq> []"
    by (auto simp: deposit_ok_def Let_def)
  then show ?thesis using assms(2) ds_refund_read unfolding dsaga_inv_def by (auto intro: same_deposit_refl)
next
  case (ds_reverse_call d es ns j l' res)
  then show ?thesis using dsaga_reverse_call assms(2) by blast
next
  case (ds_refund_mark d e k event db' r4)
  then obtain d0 where d0: "d0 \<in> set (deposits (ds_db s))" "same_deposit d d0" "booked (ds_ledger s) (reversalReference rt (d_ID d)) \<noteq> []"
    using assms(2) by (auto simp: dsaga_inv_def)
  then have "uuid_in rt (d_ID d) = Some (d_ID d)"
    using dsaga_inv_row(2) [OF assms(2) d0(1)] by (auto simp: same_deposit_def stored_reference_def)
  from recordProcessedEventAndUpdateDeposit_rows [OF ds_refund_mark(3) this] show ?thesis
    unfolding ds_refund_mark(1)
    by (rule dsaga_update [OF assms(2)]) (use deposit_ok_upd(5) [OF dsaga_inv_row(1) [OF assms(2)]] paid_for_upd d0(3) in auto)
next
  case (ds_refund_early d e k event db' r4)
  then obtain d0 where d0: "d0 \<in> set (deposits (ds_db s))" "same_deposit d d0"
    using assms(2) by (auto simp: dsaga_inv_def)
  then have "uuid_in rt (d_ID d) = Some (d_ID d)"
    using dsaga_inv_row(2) [OF assms(2) d0(1)] by (auto simp: same_deposit_def stored_reference_def)
  from recordProcessedEventAndUpdateDeposit_rows [OF ds_refund_early(3) this] show ?thesis
    unfolding ds_refund_early(1)
    by (rule dsaga_update [OF assms(2)]) (use deposit_ok_upd(6) [OF dsaga_inv_row(1) [OF assms(2)]] paid_for_upd in auto)
next
  case (ds_ledger_other l')
  have b: "booked l' (d_ID d) = booked (ds_ledger s) (d_ID d)"
    "booked l' (reversalReference rt (d_ID d)) = booked (ds_ledger s) (reversalReference rt (d_ID d))"
    if "\<exists>d0\<in>set (deposits (ds_db s)). same_deposit d d0" for d
    using ds_ledger_other(3) that unfolding same_deposit_def booked_refs by metis+
  have ok: "deposit_ok rt l' (ds_intents s) (ds_paid s) d" if "d \<in> set (deposits (ds_db s))" for d
    using dsaga_inv_row(1) [OF assms(2) that] ds_ledger_other(3) [OF that] by (simp add: deposit_ok_def Let_def booked_refs)
  have "\<forall>(x, tx)\<in>ds_credits s. booked l' (d_ID x) = [tx]" "\<forall>x\<in>ds_refunds s. booked l' (d_ID x) \<noteq> []"
    "\<forall>x\<in>ds_reversed s. booked l' (reversalReference rt (d_ID x)) \<noteq> []"
    using assms(2) b unfolding dsaga_inv_def by fastforce+
  then show ?thesis using assms(2) ok ds_ledger_other(1,2) unfolding dsaga_inv_def by auto
next
  case (ds_db_other db')
  then show ?thesis using dsaga_same_rows [OF assms(2)] by simp
qed

lemma dsaga_reach_inv: "dsaga_reach rt s \<Longrightarrow> dsaga_inv rt s"
proof -
  have start: "dsaga_inv rt (dsaga_start l)" if "ledger_ok l" for l
    using that by (simp add: dsaga_inv_def dsaga_start_def migrated_transfers_def deposit_refs_def)
  have "(dsaga_step rt)\<^sup>*\<^sup>* a b \<Longrightarrow> dsaga_inv rt a \<Longrightarrow> dsaga_inv rt b" for a b
    by (induction rule: rtranclp_induct) (auto intro: dsaga_step_inv)
  then show "dsaga_reach rt s \<Longrightarrow> dsaga_inv rt s" using start by (auto simp: dsaga_reach_def)
qed

subsection \<open>The handlers are runs of the steps\<close>

text \<open>
  A handler with its wait left open, as a function of what the others do meanwhile, is a run: either it does not wait,
  and its result is reached from \<open>s\<close>; or it waits in a state \<open>s1\<close> reached from \<open>s\<close>, in which the ledger is as its own
  call has left it, and after any steps of the others its result is reached from there.
\<close>

definition handler_run :: "runtime \<Rightarrow> dsaga \<Rightarrow> ((transfers_db \<Rightarrow> transfers_db) \<Rightarrow> transfers_db \<times> ledger_db) \<Rightarrow> bool" where
  "handler_run rt s f \<longleftrightarrow>
     (\<exists>s'. (dsaga_step rt)\<^sup>*\<^sup>* s s' \<and> (\<forall>m. f m = (ds_db s', ds_ledger s'))) \<or>
     (\<exists>s1. (dsaga_step rt)\<^sup>*\<^sup>* s s1 \<and> (\<forall>s2 m. (dsaga_step rt)\<^sup>*\<^sup>* s1 s2 \<and> m (ds_db s1) = ds_db s2 \<longrightarrow>
        snd (f m) = ds_ledger s1 \<and> (\<exists>s'. (dsaga_step rt)\<^sup>*\<^sup>* s2 s' \<and> ds_ledger s' = ds_ledger s2 \<and> ds_db s' = fst (f m))))"

lemma handler_run_stays: "(\<And>m. f m = (ds_db s, ds_ledger s)) \<Longrightarrow> handler_run rt s f"
  unfolding handler_run_def by blast

lemma handler_run_step:
  "dsaga_step rt s (s\<lparr>ds_db := db'\<rparr>) \<Longrightarrow> (\<And>m. f m = (db', ds_ledger s)) \<Longrightarrow> handler_run rt s f"
  unfolding handler_run_def by (intro disjI1 exI [of _ "s\<lparr>ds_db := db'\<rparr>"]) auto

lemma handler_run_waits:
  assumes "(dsaga_step rt)\<^sup>*\<^sup>* s s1"
    and "\<And>s2 m. (dsaga_step rt)\<^sup>*\<^sup>* s1 s2 \<Longrightarrow> m (ds_db s1) = ds_db s2 \<Longrightarrow> snd (f m) = ds_ledger s1 \<and>
      (fst (f m) = ds_db s2 \<or> dsaga_step rt s2 (s2\<lparr>ds_db := fst (f m)\<rparr>))"
  shows "handler_run rt s f"
proof -
  have "\<exists>s'. (dsaga_step rt)\<^sup>*\<^sup>* s2 s' \<and> ds_ledger s' = ds_ledger s2 \<and> ds_db s' = fst (f m)"
    if "(dsaga_step rt)\<^sup>*\<^sup>* s1 s2" "m (ds_db s1) = ds_db s2" for s2 m
  proof -
    have "fst (f m) = ds_db s2 \<or> dsaga_step rt s2 (s2\<lparr>ds_db := fst (f m)\<rparr>)" using assms(2) that by blast
    then consider "fst (f m) = ds_db s2" | "dsaga_step rt s2 (s2\<lparr>ds_db := fst (f m)\<rparr>)" by blast
    then show ?thesis
    proof cases
      case 1
      then show ?thesis by (intro exI [of _ s2]) simp
    next
      case 2
      then show ?thesis by (intro exI [of _ "s2\<lparr>ds_db := fst (f m)\<rparr>"]) auto
    qed
  qed
  with assms show ?thesis unfolding handler_run_def by blast
qed

text \<open>What processes hold and what Stripe knows is not lost.\<close>

lemma dsaga_steps_keep:
  assumes "(dsaga_step rt)\<^sup>*\<^sup>* s s'"
  shows "ds_seen s \<subseteq> ds_seen s'" "ds_credits s \<subseteq> ds_credits s'" "ds_reversed s \<subseteq> ds_reversed s'" "ds_paid s \<subseteq> ds_paid s'"
    "ds_intents s i = Some x \<Longrightarrow> ds_intents s' i = Some x"
proof -
  have "ds_seen s \<subseteq> ds_seen s' \<and> ds_credits s \<subseteq> ds_credits s' \<and> ds_reversed s \<subseteq> ds_reversed s' \<and> ds_paid s \<subseteq> ds_paid s' \<and>
      (ds_intents s i = Some x \<longrightarrow> ds_intents s' i = Some x)"
    using assms
  proof (induction rule: rtranclp_induct)
    case (step s1 s2)
    from step(2) have "ds_seen s1 \<subseteq> ds_seen s2 \<and> ds_credits s1 \<subseteq> ds_credits s2 \<and> ds_reversed s1 \<subseteq> ds_reversed s2 \<and>
        ds_paid s1 \<subseteq> ds_paid s2 \<and> (ds_intents s1 i = Some x \<longrightarrow> ds_intents s2 i = Some x)"
      by cases (auto split: sum.splits)
    with step(3) show ?case by blast
  qed simp
  then show "ds_seen s \<subseteq> ds_seen s'" "ds_credits s \<subseteq> ds_credits s'" "ds_reversed s \<subseteq> ds_reversed s'" "ds_paid s \<subseteq> ds_paid s'"
    "ds_intents s i = Some x \<Longrightarrow> ds_intents s' i = Some x"
    by blast+
qed

lemma creditDeposit_run:
  assumes "d \<in> ds_seen s"
  shows "handler_run rt s (\<lambda>m. creditDeposit rt e (ledger_rpc rt es ns) j m (ds_db s) (ds_ledger s) d)"
proof -
  obtain l' res where c: "lc_Deposit (ledger_rpc rt es ns) j (d_AccountID d) (d_Amount d) (d_ID d) (ds_ledger s) = (l', res)" by fastforce
  let ?s1 = "s\<lparr>ds_ledger := l', ds_credits := (case res of Inr tx \<Rightarrow> insert (d, tx) (ds_credits s) | Inl _ \<Rightarrow> ds_credits s)\<rparr>"
  show ?thesis
  proof (rule handler_run_waits [of _ _ ?s1])
    show "(dsaga_step rt)\<^sup>*\<^sup>* s ?s1" by (rule r_into_rtranclp) (rule dsaga_step.ds_credit_call [OF assms c])
  next
    fix s2 m assume g: "(dsaga_step rt)\<^sup>*\<^sup>* ?s1 s2" "m (ds_db ?s1) = ds_db s2"
    have "dsaga_step rt s2 (s2\<lparr>ds_db := fst (markDepositCreditedIfSucceeded rt e (ds_db s2) (d_ID d) tx)\<rparr>)" if "res = Inr tx" for tx
      using dsaga_steps_keep(2) [OF g(1)] that by (intro dsaga_step.ds_credit_mark [OF _ prod.collapse [symmetric]]) auto
    then show "snd (creditDeposit rt e (ledger_rpc rt es ns) j m (ds_db s) (ds_ledger s) d) = ds_ledger ?s1 \<and>
        (fst (creditDeposit rt e (ledger_rpc rt es ns) j m (ds_db s) (ds_ledger s) d) = ds_db s2 \<or>
         dsaga_step rt s2 (s2\<lparr>ds_db := fst (creditDeposit rt e (ledger_rpc rt es ns) j m (ds_db s) (ds_ledger s) d)\<rparr>))"
      using g(2) by (cases res) (simp_all add: creditDeposit_def c)
  qed
qed

lemma standalone_rows: "deposits (fst (recordProcessedEventStandalone e k event db)) = deposits db"
  by (auto simp: recordProcessedEventStandalone_def recordProcessedEvent_def persist_def split: sum.splits if_splits fault.splits)

abbreviation effects :: "'a \<times> 'b \<times> 'c \<Rightarrow> 'a \<times> 'b" where
  "effects x \<equiv> (fst x, fst (snd x))"

lemma refund_waits:
  assumes "se_charge event = Some (Some pid)" "pid \<noteq> ''''" "getDepositByStripePaymentIntentID e 0 (ds_db s) pid = Inr (Some d)"
    "d_Status d \<in> {''credited'', ''succeeded''}"
  shows "handler_run rt s (\<lambda>m. effects (processChargeRefundedEvent rt e (ledger_rpc rt es ns) m event (ds_db s) (ds_ledger s)))"
    (is "handler_run rt s ?f")
proof -
  from assms(3) have d: "d \<in> set (deposits (ds_db s))"
    by (auto simp: getDepositByStripePaymentIntentID_def find_Some_iff split: if_splits)
  show ?thesis
  proof (cases "d_Status d = ''credited''")
    case True
    let ?s0 = "s\<lparr>ds_refunds := insert d (ds_refunds s)\<rparr>"
    obtain l' res where c: "lc_ReverseDeposit (ledger_rpc rt es ns) 0 (d_AccountID d) (d_Amount d) (reversalReference rt (d_ID d)) (ds_ledger s) = (l', res)"
      by fastforce
    let ?s1 = "?s0\<lparr>ds_ledger := l', ds_reversed := (case res of Inr tx \<Rightarrow> insert d (ds_reversed ?s0) | Inl _ \<Rightarrow> ds_reversed ?s0)\<rparr>"
    show ?thesis
    proof (rule handler_run_waits [of _ _ ?s1])
      have "dsaga_step rt s ?s0" by (rule dsaga_step.ds_refund_read [OF d True])
      moreover have "dsaga_step rt ?s0 ?s1" by (rule dsaga_step.ds_reverse_call [where es = es and ns = ns and j = 0]) (simp_all add: c)
      ultimately show "(dsaga_step rt)\<^sup>*\<^sup>* s ?s1" by simp
    next
      fix s2 m assume g: "(dsaga_step rt)\<^sup>*\<^sup>* ?s1 s2" "m (ds_db ?s1) = ds_db s2"
      have "dsaga_step rt s2 (s2\<lparr>ds_db := fst (recordProcessedEventAndUpdateDeposit rt e 1 event (d_ID d) ''refunded'' None (ds_db s2))\<rparr>)"
        if "res = Inr tx" for tx
        using dsaga_steps_keep(3) [OF g(1)] that by (intro dsaga_step.ds_refund_mark [OF _ prod.collapse [symmetric]]) auto
      then show "snd (?f m) = ds_ledger ?s1 \<and> (fst (?f m) = ds_db s2 \<or> dsaga_step rt s2 (s2\<lparr>ds_db := fst (?f m)\<rparr>))"
        using g(2) assms True by (cases res) (auto simp: processChargeRefundedEvent_def Let_def c split: prod.splits)
    qed
  next
    case False
    let ?s1 = "s\<lparr>ds_seen := insert d (ds_seen s)\<rparr>"
    show ?thesis
    proof (rule handler_run_waits [of _ _ ?s1])
      show "(dsaga_step rt)\<^sup>*\<^sup>* s ?s1" using assms False d by (intro r_into_rtranclp dsaga_step.ds_see) simp_all
    next
      fix s2 m assume g: "(dsaga_step rt)\<^sup>*\<^sup>* ?s1 s2" "m (ds_db ?s1) = ds_db s2"
      have "dsaga_step rt s2 (s2\<lparr>ds_db := fst (recordProcessedEventAndUpdateDeposit rt e 1 event (d_ID d) ''failed''
          (Some ''refunded_before_credit'') (ds_db s2))\<rparr>)"
        using dsaga_steps_keep(1) [OF g(1)] by (intro dsaga_step.ds_refund_early [OF _ prod.collapse [symmetric]]) auto
      then show "snd (?f m) = ds_ledger ?s1 \<and> (fst (?f m) = ds_db s2 \<or> dsaga_step rt s2 (s2\<lparr>ds_db := fst (?f m)\<rparr>))"
        using g(2) assms False by (auto simp: processChargeRefundedEvent_def Let_def split: prod.splits)
    qed
  qed
qed

lemma refund_run:
  "handler_run rt s (\<lambda>m. effects (processChargeRefundedEvent rt e (ledger_rpc rt es ns) m event (ds_db s) (ds_ledger s)))"
    (is "handler_run rt s ?f")
proof -
  let ?alone = "fst (recordProcessedEventStandalone e 1 event (ds_db s))"
  have alone: ?thesis if "\<And>m. ?f m = (?alone, ds_ledger s)"
    by (rule handler_run_step [OF dsaga_step.ds_db_other [OF standalone_rows] that])
  note unfold = processChargeRefundedEvent_def Let_def
  show ?thesis
  proof (cases "se_charge event")
    case None
    then show ?thesis by (intro handler_run_stays) (simp add: unfold)
  next
    case (Some c)
    show ?thesis
    proof (cases "c = None \<or> c = Some ''''")
      case True
      then show ?thesis using Some by (intro alone) (auto simp: unfold split: prod.splits)
    next
      case False
      then obtain pid where c: "c = Some pid" "pid \<noteq> ''''" by auto
      show ?thesis
      proof (cases "getDepositByStripePaymentIntentID e 0 (ds_db s) pid")
        case (Inl err)
        then show ?thesis using Some c by (intro handler_run_stays) (simp add: unfold)
      next
        case (Inr found)
        show ?thesis
        proof (cases "\<exists>d. found = Some d \<and> d_Status d \<in> {''credited'', ''succeeded''}")
          case True
          then show ?thesis using refund_waits Some c Inr by blast
        next
          case False
          then show ?thesis using Some c Inr by (intro alone) (auto simp: unfold split: prod.splits option.splits)
        qed
      qed
    qed
  qed
qed

lemma stripeWebhookHandler_run:
  assumes "\<forall>p sg sk event. ConstructEvent p sg sk = Inr event \<longrightarrow> genuine (ds_paid s) event"
  shows "handler_run rt s (\<lambda>m. effects (stripeWebhookHandler rt e ConstructEvent (ledger_rpc rt es ns) m secret body signature (ds_db s) (ds_ledger s)))"
proof (cases "map_option (\<lambda>p. ConstructEvent (take stripeWebhookMaxBodyBytes p) signature secret) body")
  case None
  then show ?thesis by (intro handler_run_stays) (simp add: stripeWebhookHandler_def)
next
  case (Some answer)
  then obtain p where p: "body = Some p" "ConstructEvent (take stripeWebhookMaxBodyBytes p) signature secret = answer" by auto
  show ?thesis
  proof (cases answer)
    case (Inl err)
    then show ?thesis using p by (intro handler_run_stays) (simp add: stripeWebhookHandler_def)
  next
    case (Inr event)
    let ?f = "\<lambda>m. processStripeEvent rt e (ledger_rpc rt es ns) m event (ds_db s) (ds_ledger s)"
    have eq: "effects (stripeWebhookHandler rt e ConstructEvent (ledger_rpc rt es ns) m secret body signature (ds_db s) (ds_ledger s)) = effects (?f m)" for m
      using p Inr by (simp add: stripeWebhookHandler_def split: prod.split sum.split)
    show ?thesis
    proof (cases "se_Type event = ''charge.refunded''")
      case True
      then show ?thesis using refund_run [of rt s e es ns event] by (simp add: eq processStripeEvent_def)
    next
      case False
      obtain db' l' r where f: "?f id = (db', l', r)" using prod_cases3 by blast
      have g: "genuine (ds_paid s) event" using assms p(2) Inr by blast
      have "?f m = ?f id" for m using False by (simp add: processStripeEvent_def)
      moreover have "dsaga_step rt s (s\<lparr>ds_db := db', ds_ledger := l'\<rparr>)" by (rule dsaga_step.ds_webhook [OF False g f])
      moreover have "l' = ds_ledger s" using processStripeEvent_rows [OF f False g] by blast
      ultimately show ?thesis unfolding eq f by (intro handler_run_step [of _ _ db']) (simp_all add: f)
    qed
  qed
qed

lemma reconcilePendingDepositWithIntent_run:
  assumes "truthful (ds_paid s) retrieve"
  shows "handler_run rt s (\<lambda>m. (reconcilePendingDepositWithIntent rt e retrieve m (ds_db s) d, ds_ledger s))"
proof (cases "d_StripePaymentIntentID d")
  case None
  then show ?thesis by (intro handler_run_stays) (simp add: reconcilePendingDepositWithIntent_def)
next
  case (Some pid)
  show ?thesis
  proof (rule handler_run_waits [OF rtranclp.rtrancl_refl])
    fix s2 m assume g: "(dsaga_step rt)\<^sup>*\<^sup>* s s2" "m (ds_db s) = ds_db s2"
    have "truthful (ds_paid s2) retrieve" using assms dsaga_steps_keep(4) [OF g(1)] by (auto simp: truthful_def)
    moreover have "reconcilePendingDepositWithIntent rt e retrieve m (ds_db s) d = reconcilePendingDepositWithIntent rt e retrieve id (ds_db s2) d"
      using g(2) Some by (cases "retrieve pid") (auto simp: reconcilePendingDepositWithIntent_def split: unit.splits)
    ultimately show "snd (reconcilePendingDepositWithIntent rt e retrieve m (ds_db s) d, ds_ledger s) = ds_ledger s \<and>
      (fst (reconcilePendingDepositWithIntent rt e retrieve m (ds_db s) d, ds_ledger s) = ds_db s2 \<or>
       dsaga_step rt s2 (s2\<lparr>ds_db := fst (reconcilePendingDepositWithIntent rt e retrieve m (ds_db s) d, ds_ledger s)\<rparr>))"
      using dsaga_step.ds_poll [of s2 retrieve rt e d] by simp
  qed
qed

lemma createDeposit_run:
  assumes "idempotent (ds_intents s) create" "fresh_references rt s (gen_random_uuid e 0)"
  shows "handler_run rt s (\<lambda>m. (fst (createDeposit rt e ac create m (ds_db s) x p account amount), ds_ledger s))"
    (is "handler_run rt s ?f")
proof -
  obtain x' ga where g: "ac_GetAccountByID ac 0 account x = (x', ga)" by fastforce
  show ?thesis
  proof (cases "amount < depositMinAmount \<or> depositMaxAmount < amount \<or> (\<nexists>ref. ga = Inr ref \<and> ar_Status ref = accountStatusActive)")
    case True
    then show ?thesis using g by (intro handler_run_stays) (auto simp: createDeposit_def split: sum.splits)
  next
    case False
    then obtain ref where ref: "ga = Inr ref" "ar_Status ref = accountStatusActive" by blast
    have amount: "in_int64 amount" using False by (simp add: in_int64_def depositMinAmount_def depositMaxAmount_def)
    obtain db1 r where i: "insert_deposit rt e 0 (ds_db s) account amount = (db1, r)" by fastforce
    let ?s1 = "s\<lparr>ds_db := db1\<rparr>"
    have step: "dsaga_step rt s ?s1" by (rule dsaga_step.ds_insert [OF i amount assms(2)])
    show ?thesis
    proof (cases r)
      case (Inl err)
      then show ?thesis using False g ref i by (intro handler_run_step [OF step]) (simp add: createDeposit_def)
    next
      case (Inr d)
      then have id: "d_ID d = gen_random_uuid e 0"
        using i by (auto simp: insert_deposit_def pending_deposit_def split: option.splits if_splits elim!: persist_cases)
      let ?params = "\<lparr>pp_Amount = d_Amount d, pp_Currency = d_Currency d, pp_deposit_id = d_ID d, pp_account_id = d_AccountID d, pp_IdempotencyKey = d_ID d\<rparr>"
      obtain p' answer where a: "create ?params p = (p', answer)" by fastforce
      have f: "?f m = (case answer of Inl _ \<Rightarrow> m db1 | Inr intent \<Rightarrow> fst (attach_intent rt e 1 (m db1) (pi_ID intent) (d_ID d)), ds_ledger s)" for m
        using False g ref i Inr a by (cases answer) (auto simp: createDeposit_def split: prod.splits sum.splits unit.splits)
      show ?thesis
      proof (cases answer)
        case (Inl u)
        then show ?thesis using f step by (intro handler_run_waits [of _ _ ?s1]) auto
      next
        case (Inr intent)
        let ?s2 = "?s1\<lparr>ds_intents := (ds_intents ?s1)(d_ID d \<mapsto> pi_ID intent)\<rparr>"
        have "ds_intents ?s1 (d_ID d) \<in> {None, Some (pi_ID intent)}" using assms(1) a Inr unfolding idempotent_def by fastforce
        then have "dsaga_step rt ?s1 ?s2" by (rule dsaga_step.ds_create)
        with step have s2: "(dsaga_step rt)\<^sup>*\<^sup>* s ?s2" by simp
        have canonical: "uuid_in rt (d_ID d) = Some (d_ID d)" using assms(2) by (simp add: id fresh_references_def stored_reference_def)
        have attach: "dsaga_step rt s3 (s3\<lparr>ds_db := fst (attach_intent rt e 1 (ds_db s3) (pi_ID intent) (d_ID d))\<rparr>)"
          if "(dsaga_step rt)\<^sup>*\<^sup>* ?s2 s3" for s3
          using dsaga_steps_keep(5) [OF that, of "d_ID d" "pi_ID intent"] canonical
          by (intro dsaga_step.ds_attach [OF _ _ prod.collapse [symmetric]]) auto
        show ?thesis using f Inr attach by (intro handler_run_waits [OF s2]) auto
      qed
    qed
  qed
qed

text \<open>All of them, in any state: the reads of the worker, crediting, the webhook, the poll of Stripe and the request.\<close>

definition deposit_handlers ::
  "runtime \<Rightarrow> 'a accounts_client \<Rightarrow> (PaymentIntentCreateParams \<Rightarrow> 'p \<Rightarrow> 'p \<times> (unit + PaymentIntent)) \<Rightarrow> dsaga \<Rightarrow> bool" where
  "deposit_handlers rt ac create s \<longleftrightarrow>
     (\<forall>e ds. getSucceededDeposits e (ds_db s) = Inr ds \<longrightarrow> (\<forall>d\<in>set ds. dsaga_step rt s (s\<lparr>ds_seen := insert d (ds_seen s)\<rparr>))) \<and>
     (\<forall>e es ns j. \<forall>d\<in>ds_seen s.
        handler_run rt s (\<lambda>m. creditDeposit rt e (ledger_rpc rt es ns) j m (ds_db s) (ds_ledger s) d)) \<and>
     (\<forall>e es ns ConstructEvent secret body signature.
        (\<forall>p sg sk event. ConstructEvent p sg sk = Inr event \<longrightarrow> genuine (ds_paid s) event) \<longrightarrow>
        handler_run rt s (\<lambda>m. effects
          (stripeWebhookHandler rt e ConstructEvent (ledger_rpc rt es ns) m secret body signature (ds_db s) (ds_ledger s)))) \<and>
     (\<forall>e retrieve d. truthful (ds_paid s) retrieve \<longrightarrow>
        handler_run rt s (\<lambda>m. (reconcilePendingDepositWithIntent rt e retrieve m (ds_db s) d, ds_ledger s))) \<and>
     (\<forall>e x p account amount. idempotent (ds_intents s) create \<and> fresh_references rt s (gen_random_uuid e 0) \<longrightarrow>
        handler_run rt s (\<lambda>m. (fst (createDeposit rt e ac create m (ds_db s) x p account amount), ds_ledger s)))"

lemma deposit_handlers_run: "deposit_handlers rt ac create s"
proof -
  have "dsaga_step rt s (s\<lparr>ds_seen := insert d (ds_seen s)\<rparr>)" if "getSucceededDeposits e (ds_db s) = Inr ds" "d \<in> set ds" for e ds d
    using that by (intro dsaga_step.ds_see) (auto simp: getSucceededDeposits_def split: if_splits)
  then show ?thesis
    unfolding deposit_handlers_def
    by (intro conjI allI ballI impI creditDeposit_run stripeWebhookHandler_run reconcilePendingDepositWithIntent_run createDeposit_run) blast+
qed

text \<open>
  C5: a deposit is credited at most once, only after Stripe was paid for it, and reversed at most once. In every
  interleaving of requests, webhooks delivered any number of times and in any order, polls of Stripe, workers, refunds,
  crashes and lost messages: the ledger books at most one credit for a deposit, only after the payment intent that Stripe
  created under the deposit's id has been paid, and at most one reversal, only of a credit, each of exactly the deposit's
  amount; a row that says succeeded belongs to a paid intent, one that says credited has its credit booked under the
  transaction it names, and one that says refunded has its reversal booked. In every state the handlers themselves,
  called with any arguments and with any steps of the others while they wait, are runs of these steps: the worker's
  reads and \<open>creditDeposit\<close>, the webhook handler with the refunds, the poll of Stripe and \<open>createDeposit\<close>. (What is
  assumed of Stripe: signed events and answers of \<open>Retrieve\<close> are true, and a request with a known key is answered with
  the intent created for it. Generated ids and the MD5 of a reversal's reference are taken not to collide.)
\<close>

theorem deposit_credited_once:
  assumes "dsaga_reach rt s"
  shows "(\<forall>d\<in>set (deposits (ds_db s)).
      let c = booked (ds_ledger s) (d_ID d); r = booked (ds_ledger s) (reversalReference rt (d_ID d)) in
      length c \<le> 1 \<and> length r \<le> 1 \<and> (r \<noteq> [] \<longrightarrow> c \<noteq> []) \<and>
      (c \<noteq> [] \<longrightarrow> (\<exists>pid\<in>ds_paid s. d_StripePaymentIntentID d = Some pid \<and> ds_intents s (d_ID d) = Some pid)) \<and>
      (\<forall>x\<in>set (ref_entries (ds_ledger s) (d_ID d)) \<union> set (ref_entries (ds_ledger s) (reversalReference rt (d_ID d))).
         \<bar>e_amount x\<bar> = d_Amount d) \<and>
      (d_Status d = ''succeeded'' \<longrightarrow> (\<exists>pid\<in>ds_paid s. d_StripePaymentIntentID d = Some pid)) \<and>
      (d_Status d = ''credited'' \<longrightarrow> (\<exists>tx. c = [tx] \<and> uuid_in rt tx \<noteq> None \<and> d_LedgerTransactionID d = uuid_in rt tx)) \<and>
      (d_Status d = ''refunded'' \<longrightarrow> r \<noteq> [])) \<and>
    deposit_handlers rt ac create s"
proof (intro conjI ballI)
  fix d assume "d \<in> set (deposits (ds_db s))"
  from dsaga_inv_row(1) [OF dsaga_reach_inv [OF assms] this]
  show "let c = booked (ds_ledger s) (d_ID d); r = booked (ds_ledger s) (reversalReference rt (d_ID d)) in
      length c \<le> 1 \<and> length r \<le> 1 \<and> (r \<noteq> [] \<longrightarrow> c \<noteq> []) \<and>
      (c \<noteq> [] \<longrightarrow> (\<exists>pid\<in>ds_paid s. d_StripePaymentIntentID d = Some pid \<and> ds_intents s (d_ID d) = Some pid)) \<and>
      (\<forall>x\<in>set (ref_entries (ds_ledger s) (d_ID d)) \<union> set (ref_entries (ds_ledger s) (reversalReference rt (d_ID d))).
         \<bar>e_amount x\<bar> = d_Amount d) \<and>
      (d_Status d = ''succeeded'' \<longrightarrow> (\<exists>pid\<in>ds_paid s. d_StripePaymentIntentID d = Some pid)) \<and>
      (d_Status d = ''credited'' \<longrightarrow> (\<exists>tx. c = [tx] \<and> uuid_in rt tx \<noteq> None \<and> d_LedgerTransactionID d = uuid_in rt tx)) \<and>
      (d_Status d = ''refunded'' \<longrightarrow> r \<noteq> [])"
    unfolding deposit_ok_def paid_for_def Let_def by blast
qed (rule deposit_handlers_run)

text \<open>A run: a deposit is created, confirmed by a webhook and credited by the worker.\<close>

definition sd_rows :: transfers_db where
  "sd_rows = fst (attach_intent plain_runtime (sample_env 31) 1
     (fst (insert_deposit plain_runtime (sample_env 30) 0 migrated_transfers ''a'' 500)) ''pi'' (sample_ids 30 0))"

definition sd_event :: stripe_event where
  "sd_event = \<lparr>se_ID = ''evt'', se_Type = ''payment_intent.succeeded'',
     se_intent = Some \<lparr>pi_ID = ''pi'', pi_ClientSecret = '''', pi_Status = ''succeeded'', pi_LastPaymentError = None\<rparr>, se_charge = None\<rparr>"

definition sd_confirmed :: transfers_db where
  "sd_confirmed = fst (processStripeEvent plain_runtime (sample_env 32) (sample_rpc 32 Delivered) id sd_event sd_rows sample_ledger)"

definition sd_deposit :: Deposit where
  "sd_deposit = hd (deposits sd_confirmed)"

definition sd_credit :: "ledger_db \<times> (grpc_status + string)" where
  "sd_credit = lc_Deposit (sample_rpc 33 Delivered) 0 ''a'' 500 (sample_ids 30 0) sample_ledger"

definition sd_credited :: transfers_db where
  "sd_credited = fst (markDepositCreditedIfSucceeded plain_runtime (sample_env 34) sd_confirmed (sample_ids 30 0) (sample_ids 33 0))"

definition sd_state :: "transfers_db \<Rightarrow> ledger_db \<Rightarrow> dsaga" where
  "sd_state db l = \<lparr>ds_db = db, ds_ledger = l, ds_intents = [sample_ids 30 0 \<mapsto> ''pi''], ds_paid = {''pi''}, ds_seen = {sd_deposit},
     ds_credits = {(sd_deposit, sample_ids 33 0)}, ds_refunds = {}, ds_reversed = {}\<rparr>"

lemma sample_dsaga_reach: "dsaga_reach plain_runtime (sd_state sd_credited (fst sd_credit))"
proof -
  let ?s0 = "dsaga_start sample_ledger"
  let ?ins = "insert_deposit plain_runtime (sample_env 30) 0 migrated_transfers ''a'' 500"
  let ?s1 = "?s0\<lparr>ds_db := fst ?ins\<rparr>"
  let ?s1a = "?s1\<lparr>ds_intents := [sample_ids 30 0 \<mapsto> ''pi'']\<rparr>"
  let ?s1b = "?s1a\<lparr>ds_db := sd_rows\<rparr>"
  let ?s2 = "?s1b\<lparr>ds_paid := {''pi''}\<rparr>"
  let ?s3 = "?s2\<lparr>ds_db := sd_confirmed\<rparr>"
  let ?s4 = "?s3\<lparr>ds_seen := {sd_deposit}\<rparr>"
  let ?s5 = "?s4\<lparr>ds_ledger := fst sd_credit, ds_credits := {(sd_deposit, sample_ids 33 0)}\<rparr>"
  have ref: "reversalReference plain_runtime x = ''00000000-0000-4000-8000-000000000000''" for x
    unfolding reversalReference_def plain_runtime_sel by code_simp
  have d: "d_AccountID sd_deposit = ''a''" "d_Amount sd_deposit = 500" "d_ID sd_deposit = sample_ids 30 0" "d_Status sd_deposit = ''succeeded''"
    by code_simp+
  have "length (deposits sd_confirmed) = 1" by code_simp
  then have dep: "sd_deposit \<in> set (deposits sd_confirmed)" unfolding sd_deposit_def by (cases "deposits sd_confirmed") simp_all
  have 1: "dsaga_step plain_runtime ?s0 ?s1"
  proof (rule dsaga_step.ds_insert [where r = "snd ?ins"])
    have "ref_entries sample_ledger (sample_ids 30 0) = []" "ref_entries sample_ledger ''00000000-0000-4000-8000-000000000000'' = []"
      by code_simp+
    moreover have "sample_ids 30 0 \<noteq> ''00000000-0000-4000-8000-000000000000''" "sample_ids 30 0 \<noteq> ''''" by code_simp+
    ultimately show "fresh_references plain_runtime ?s0 (gen_random_uuid (sample_env 30) 0)"
      by (simp add: fresh_references_def ref dsaga_start_def migrated_transfers_def stored_reference_def sample_env_def)
    show "in_int64 500" by (simp add: in_int64_def)
  qed (simp add: dsaga_start_def)
  have 2: "dsaga_step plain_runtime ?s1 ?s1a"
    using dsaga_step.ds_create [of ?s1 "sample_ids 30 0" "''pi''" plain_runtime] by (simp add: dsaga_start_def)
  have 21: "dsaga_step plain_runtime ?s1a ?s1b"
    using dsaga_step.ds_attach [of ?s1a "sample_ids 30 0" "''pi''" plain_runtime "sample_env 31" 1 sd_rows] unfolding sd_rows_def
    by (simp add: prod_eq_iff)
  have 22: "dsaga_step plain_runtime ?s1b ?s2"
    using dsaga_step.ds_pay [of plain_runtime ?s1b "''pi''"] by (simp add: dsaga_start_def)
  have "snd (snd (processStripeEvent plain_runtime (sample_env 32) (sample_rpc 32 Delivered) id sd_event sd_rows sample_ledger)) = Inr ()"
    by code_simp
  moreover obtain db' l' r where w: "processStripeEvent plain_runtime (sample_env 32) (sample_rpc 32 Delivered) id sd_event sd_rows sample_ledger = (db', l', r)"
    using prod_cases3 by blast
  moreover have ty: "se_Type sd_event \<noteq> ''charge.refunded''" "genuine {''pi''} sd_event" by (simp_all add: sd_event_def genuine_def)
  ultimately have "db' = sd_confirmed" "l' = sample_ledger"
    using processStripeEvent_rows [OF w ty] by (simp_all add: sd_confirmed_def)
  with w ty have 3: "dsaga_step plain_runtime ?s2 ?s3"
    using dsaga_step.ds_webhook [of sd_event ?s2 plain_runtime "sample_env 32" "\<lambda>_. sample_env 32" "\<lambda>_. Delivered" sd_confirmed sample_ledger r]
    by (simp add: dsaga_start_def sample_rpc_def)
  have 4: "dsaga_step plain_runtime ?s3 ?s4"
    using dsaga_step.ds_see [of sd_deposit ?s3 plain_runtime] dep d by (simp add: dsaga_start_def)
  have "snd sd_credit = Inr (sample_ids 33 0)" by code_simp
  then have c: "lc_Deposit (ledger_rpc plain_runtime (\<lambda>_. sample_env 33) (\<lambda>_. Delivered)) 0 ''a'' 500 (sample_ids 30 0) sample_ledger
      = (fst sd_credit, Inr (sample_ids 33 0))"
    by (simp add: prod_eq_iff sd_credit_def sample_rpc_def)
  have 5: "dsaga_step plain_runtime ?s4 ?s5"
    using dsaga_step.ds_credit_call [of sd_deposit ?s4 plain_runtime "\<lambda>_. sample_env 33" "\<lambda>_. Delivered" 0 "fst sd_credit" "Inr (sample_ids 33 0)"]
    by (simp add: d c dsaga_start_def)
  have 6: "dsaga_step plain_runtime ?s5 (sd_state sd_credited (fst sd_credit))"
    using dsaga_step.ds_credit_mark [of sd_deposit "sample_ids 33 0" ?s5 plain_runtime "sample_env 34" sd_credited
        "snd (markDepositCreditedIfSucceeded plain_runtime (sample_env 34) sd_confirmed (sample_ids 30 0) (sample_ids 33 0))"]
    by (simp add: d sd_credited_def sd_state_def dsaga_start_def)
  from 1 2 21 22 3 4 5 6 have "(dsaga_step plain_runtime)\<^sup>*\<^sup>* ?s0 (sd_state sd_credited (fst sd_credit))"
    by (meson converse_rtranclp_into_rtranclp rtranclp.rtrancl_refl)
  with sample_ledger_ok show ?thesis by (auto simp: dsaga_reach_def)
qed

theorem deposit_credited_once_witness:
  "\<exists>d\<in>set (deposits sd_credited). d_Status d = ''credited'' \<and> d_Amount d = 500 \<and> d_StripePaymentIntentID d = Some ''pi'' \<and>
     (\<exists>tx. booked (fst sd_credit) (d_ID d) = [tx] \<and> d_LedgerTransactionID d = Some tx)"
proof -
  have m: "map (\<lambda>d. (d_Status d, d_Amount d)) (deposits sd_credited) = [(''credited'', 500)]" by code_simp
  then obtain d where d: "d \<in> set (deposits sd_credited)" "d_Status d = ''credited''" "d_Amount d = 500"
    by (auto simp: map_eq_Cons_conv)
  have "d \<in> set (deposits (ds_db (sd_state sd_credited (fst sd_credit))))" using d(1) by (simp add: sd_state_def)
  from bspec [OF conjunct1 [OF deposit_credited_once [OF sample_dsaga_reach]] this] d show ?thesis
    by (intro bexI [OF _ d(1)]) (auto simp: sd_state_def Let_def)
qed

subsection \<open>Webhooks out of order\<close>

text \<open>The event sets every row of the intent to succeeded, and the mark of the worker writes an event for the row.\<close>

lemma succeeded_event_applied:
  assumes "se_Type event = ''payment_intent.succeeded''" "se_intent event = Some intent" "\<not> processed event db" "\<forall>i. \<not> fails e i"
  shows "processStripeEvent rt e lc m event db l =
    (db\<lparr>processed_stripe_events := processed_stripe_events db @ [(se_ID event, se_Type event)],
        deposits := update_where (\<lambda>d. d_StripePaymentIntentID d = Some (pi_ID intent)) (set_succeeded e) (deposits db)\<rparr>, l, Inr ())"
  using assms
  by (simp add: processStripeEvent_def recordProcessedEvent_def applyStripeEvent_def markDepositSucceeded_def processed_def
      persist_def fails_def)

lemma markDepositCreditedIfSucceeded_writes:
  assumes "distinct (map d_ID (deposits db))" "d \<in> set (deposits db)" "d_Status d = ''succeeded''" "uuid_in rt (d_ID d) = Some (d_ID d)"
    and "uuid_in rt tx = Some v" "\<forall>i. \<not> fails e i"
    and "GenerateEventID e 0 = Some eventID" "uuid_in rt eventID = Some u" "u \<notin> o_event_id ` set (ob_rows (outbox db))"
  shows "\<exists>db'. markDepositCreditedIfSucceeded rt e db (d_ID d) tx = (db', Inr True) \<and> set_credited e v d \<in> set (deposits db') \<and>
    ob_rows (outbox db') = ob_rows (outbox db) @ [new_row e (ob_next (outbox db)) u ''DepositCredited'' (d_AccountID d)
      (credited_event e tx (set_credited e v d) eventID)]"
proof -
  have "find (\<lambda>x. d_ID x = d_ID d \<and> d_Status x = ''succeeded'') (deposits db) = Some d"
  proof -
    obtain x where x: "find (\<lambda>x. d_ID x = d_ID d \<and> d_Status x = ''succeeded'') (deposits db) = Some x"
      using assms(2,3) by (cases "find (\<lambda>x. d_ID x = d_ID d \<and> d_Status x = ''succeeded'') (deposits db)") (auto simp: find_None_in)
    from find_Some_in [OF x] have "x \<in> set (deposits db)" "d_ID x = d_ID d" by simp_all
    then have "x = d" using assms(1,2) by (auto simp: distinct_map inj_on_def)
    with x show ?thesis by simp
  qed
  moreover have "set_credited e v d \<in> set (update_where (\<lambda>x. d_ID x = d_ID d \<and> d_Status x = ''succeeded'') (set_credited e v) (deposits db))"
    using assms(2,3) by (auto simp: in_set_update_where)
  ultimately show ?thesis
    using assms(4-9)
    by (simp add: markDepositCreditedIfSucceeded_def insert_transfer_event_def InsertEvent_def persist_def fails_def)
qed

text \<open>
  C37: the webhook's status writes have no guard on the present status. In every reachable state, for every deposit
  that is already credited, a \<open>payment_intent.succeeded\<close> event of its intent that was not processed before (Stripe's
  second event, or the first one after the poll has confirmed the deposit) puts its row back to succeeded, although the
  ledger holds the credit. The worker's next read then holds the row again, and when the ledger answers its call it
  recognises the reference and books nothing, but the row becomes credited again under the same transaction and one more
  \<open>DepositCredited\<close> event for the deposit is in the outbox. (The event and the mark meet no fault, and the new event's
  id is not used yet.)
\<close>

theorem late_webhook_regresses_status:
  assumes "dsaga_reach rt s" "d \<in> set (deposits (ds_db s))" "d_Status d = ''credited''"
    and "se_Type event = ''payment_intent.succeeded''" "se_intent event = Some intent" "d_StripePaymentIntentID d = Some (pi_ID intent)"
    and "\<not> processed event (ds_db s)" "\<forall>i. \<not> fails e i" "\<forall>i. \<not> fails e2 i"
    and "GenerateEventID e2 0 = Some eventID" "uuid_in rt eventID = Some u" "u \<notin> o_event_id ` set (ob_rows (outbox (ds_db s)))"
    and "lc_Deposit (ledger_rpc rt es ns) j (d_AccountID d) (d_Amount d) (d_ID d) (ds_ledger s) = (l', Inr tx)"
  shows "\<exists>db1 db2 d1 d2.
    processStripeEvent rt e lc m event (ds_db s) (ds_ledger s) = (db1, ds_ledger s, Inr ()) \<and>
    d1 = set_succeeded e d \<and> d1 \<in> set (deposits db1) \<and> getSucceededDeposits e2 db1 = Inr (sort_key d_UpdatedAt (filter (\<lambda>x. d_Status x = ''succeeded'') (deposits db1))) \<and>
    creditDeposit rt e2 (ledger_rpc rt es ns) j id db1 (ds_ledger s) d1 = (db2, ds_ledger s) \<and>
    d2 \<in> set (deposits db2) \<and> d_ID d2 = d_ID d \<and> d_Status d2 = ''credited'' \<and> d_LedgerTransactionID d2 = d_LedgerTransactionID d \<and>
    ob_rows (outbox db2) = ob_rows (outbox (ds_db s)) @
      [new_row e2 (ob_next (outbox (ds_db s))) u ''DepositCredited'' (d_AccountID d) (credited_event e2 tx d2 eventID)]"
proof -
  note inv = dsaga_reach_inv [OF assms(1)]
  note row = dsaga_inv_row [OF inv assms(2)]
  obtain tx' v where tx': "booked (ds_ledger s) (d_ID d) = [tx']" "uuid_in rt tx' = Some v" "d_LedgerTransactionID d = Some v"
  proof -
    from row(1) assms(3) obtain tx' where "booked (ds_ledger s) (d_ID d) = [tx']" "uuid_in rt tx' \<noteq> None"
      "d_LedgerTransactionID d = uuid_in rt tx'" unfolding deposit_ok_def Let_def by blast
    with that show thesis by (cases "uuid_in rt tx'") simp_all
  qed
  have l': "l' = ds_ledger s"
    by (rule ledger_svc.deposit_once [OF row(5,2) _ assms(13)]) (simp add: tx')
  have "hd (booked l' (d_ID d)) = tx" using ledger_svc.deposit_ok [OF row(5,2) assms(13)] by blast
  then have tx: "tx = tx'" by (simp add: l' tx')
  define db1 where "db1 = (ds_db s)\<lparr>processed_stripe_events := processed_stripe_events (ds_db s) @ [(se_ID event, se_Type event)],
    deposits := update_where (\<lambda>x. d_StripePaymentIntentID x = Some (pi_ID intent)) (set_succeeded e) (deposits (ds_db s))\<rparr>"
  define d1 where "d1 = set_succeeded e d"
  have p: "processStripeEvent rt e lc m event (ds_db s) (ds_ledger s) = (db1, ds_ledger s, Inr ())"
    unfolding db1_def by (rule succeeded_event_applied [OF assms(4,5,7,8)])
  have d1: "d1 \<in> set (deposits db1)" "d_Status d1 = ''succeeded''" "d_ID d1 = d_ID d" "d_AccountID d1 = d_AccountID d" "d_Amount d1 = d_Amount d"
    using assms(2,6) by (auto simp: db1_def d1_def in_set_update_where set_succeeded_def)
  have "map d_ID (deposits db1) = map d_ID (deposits (ds_db s))" by (simp add: db1_def map_update_where set_succeeded_def)
  then have "distinct (map d_ID (deposits db1))" using inv by (simp add: dsaga_inv_def deposit_refs_def)
  moreover have "outbox db1 = outbox (ds_db s)" by (simp add: db1_def)
  moreover have "uuid_in rt (d_ID d1) = Some (d_ID d1)" using row(2) by (simp add: d1(3) stored_reference_def)
  ultimately obtain db2 where db2: "markDepositCreditedIfSucceeded rt e2 db1 (d_ID d1) tx = (db2, Inr True)"
    "set_credited e2 v d1 \<in> set (deposits db2)"
    "ob_rows (outbox db2) = ob_rows (outbox (ds_db s)) @ [new_row e2 (ob_next (outbox (ds_db s))) u ''DepositCredited'' (d_AccountID d)
      (credited_event e2 tx (set_credited e2 v d1) eventID)]"
    using markDepositCreditedIfSucceeded_writes [OF _ d1(1,2), of rt tx v e2 eventID u] tx'(2) tx assms(9-12) d1(4) by auto
  have "creditDeposit rt e2 (ledger_rpc rt es ns) j id db1 (ds_ledger s) d1 = (db2, ds_ledger s)"
    using assms(13) db2(1) by (simp add: creditDeposit_def d1 l')
  moreover have "getSucceededDeposits e2 db1 = Inr (sort_key d_UpdatedAt (filter (\<lambda>x. d_Status x = ''succeeded'') (deposits db1)))"
    using assms(9) by (simp add: getSucceededDeposits_def)
  moreover have "d_ID (set_credited e2 v d1) = d_ID d" "d_Status (set_credited e2 v d1) = ''credited''"
    "d_LedgerTransactionID (set_credited e2 v d1) = d_LedgerTransactionID d"
    using d1(3) tx'(3) by (simp_all add: set_credited_def)
  ultimately show ?thesis using p d1(1) db2(2,3) unfolding d1_def by blast
qed

lemma sd_credited_status: "map (\<lambda>d. (d_Status d, d_AccountID d, d_Amount d, d_ID d, d_StripePaymentIntentID d)) (deposits sd_credited) =
    [(''credited'', ''a'', 500, sample_ids 30 0, Some ''pi'')]"
  by code_simp

lemma sd_credited_events: "map o_event_id (ob_rows (outbox sd_credited)) = [''00000000-0000-4000-8000-000000000000'']"
  by code_simp

lemma sd_not_processed: "\<not> processed (sd_event\<lparr>se_ID := ''evt_late''\<rparr>) sd_credited"
  by code_simp

definition sd_env2 :: env where
  "sd_env2 = (sample_env 42)\<lparr>crand_read := (\<lambda>_. Some (replicate 16 7))\<rparr>"

lemma sd_env2_id: "GenerateEventID sd_env2 0 = Some ''07070707-0707-4707-8707-070707070707''"
  by code_simp

definition sd_answer :: "ledger_db \<times> (grpc_status + string)" where
  "sd_answer = lc_Deposit (sample_rpc 42 Delivered) 0 ''a'' 500 (sample_ids 30 0) (fst sd_credit)"

lemma sd_answer_Inr: "snd sd_answer = Inr (sample_ids 33 0)"
  by code_simp

theorem late_webhook_regresses_status_witness:
  "\<exists>db1 db2 d1 d2. processStripeEvent plain_runtime (sample_env 40) (sample_rpc 40 Delivered) id (sd_event\<lparr>se_ID := ''evt_late''\<rparr>)
      sd_credited (fst sd_credit) = (db1, fst sd_credit, Inr ()) \<and> d1 \<in> set (deposits db1) \<and> d_Status d1 = ''succeeded'' \<and>
    creditDeposit plain_runtime sd_env2 (sample_rpc 42 Delivered) 0 id db1 (fst sd_credit) d1 = (db2, fst sd_credit) \<and>
    d2 \<in> set (deposits db2) \<and> d_Status d2 = ''credited'' \<and> length (ob_rows (outbox db2)) = 2"
proof -
  obtain d where d: "deposits sd_credited = [d]" "d_Status d = ''credited''" "d_AccountID d = ''a''" "d_Amount d = 500"
    "d_ID d = sample_ids 30 0" "d_StripePaymentIntentID d = Some ''pi''"
    using sd_credited_status by (auto simp: map_eq_Cons_conv)
  have n: "length (ob_rows (outbox sd_credited)) = 1" using arg_cong [OF sd_credited_events, of length] by simp
  have faults: "\<forall>i. \<not> fails (sample_env 40) i" "\<forall>i. \<not> fails sd_env2 i" by (simp_all add: fails_def sample_env_def sd_env2_def calm_def)
  have u: "''07070707-0707-4707-8707-070707070707'' \<notin> o_event_id ` set (ob_rows (outbox sd_credited))"
    using sd_credited_events unfolding set_map [symmetric] by simp
  have a: "lc_Deposit (ledger_rpc plain_runtime (\<lambda>_. sample_env 42) (\<lambda>_. Delivered)) 0 ''a'' 500 (sample_ids 30 0) (fst sd_credit) =
      (fst sd_answer, Inr (sample_ids 33 0))"
    using sd_answer_Inr by (simp add: prod_eq_iff sd_answer_def sample_rpc_def)
  have st: "ds_db (sd_state sd_credited (fst sd_credit)) = sd_credited" "ds_ledger (sd_state sd_credited (fst sd_credit)) = fst sd_credit"
    by (simp_all add: sd_state_def)
  have ev: "se_Type (sd_event\<lparr>se_ID := ''evt_late''\<rparr>) = ''payment_intent.succeeded''"
    "se_intent (sd_event\<lparr>se_ID := ''evt_late''\<rparr>) = Some \<lparr>pi_ID = ''pi'', pi_ClientSecret = '''', pi_Status = ''succeeded'', pi_LastPaymentError = None\<rparr>"
    by (simp_all add: sd_event_def)
  have u': "uuid_in plain_runtime ''07070707-0707-4707-8707-070707070707'' = Some ''07070707-0707-4707-8707-070707070707''"
    by simp
  from late_webhook_regresses_status [OF sample_dsaga_reach _ d(2) ev _ _ faults sd_env2_id u' _, unfolded st d(3,4,5),
      OF _ _ sd_not_processed u a, of "sample_rpc 40 Delivered" id] d(1,6) n
  show ?thesis by (force simp: sample_rpc_def set_succeeded_def)
qed

end
