(* ===== verification/Fraud.thy ===== *)
theory Fraud
  imports Iban Reconcile
begin

text \<open>
  services/fraud-svc: scoring a transfer against the enabled rules (fraud.go) and the RPC
  (grpc\_server.go). The details of a check, stored as JSON, are the list of the rules computed with the
  observed value, the threshold and the window.
\<close>

subsection \<open>Tables\<close>

record fraud_rule_row =
  fr_rule_type :: string
  fr_enabled :: bool
  fr_threshold_value :: int
  fr_window_seconds :: "int option"

record rule_detail =
  rd_observed :: int
  rd_threshold :: int
  rd_window_seconds :: "int option"

record fraud_check_row =
  fk_id :: string
  fk_transfer_id :: string
  fk_account_id :: string
  fk_amount :: int
  fk_decision :: string
  fk_triggered_rule :: "string option"
  fk_details :: "(string \<times> rule_detail) list"
  fk_created_at :: int

record fraud_db =
  fraud_rules :: "fraud_rule_row list"
  fraud_checks :: "fraud_check_row list"

text \<open>The rules of migration 3.\<close>

definition seeded_rules :: "fraud_rule_row list" where
  "seeded_rules =
     [\<lparr>fr_rule_type = ''amount_threshold'', fr_enabled = True, fr_threshold_value = 500000, fr_window_seconds = None\<rparr>,
      \<lparr>fr_rule_type = ''velocity_count'', fr_enabled = True, fr_threshold_value = 5, fr_window_seconds = Some 300\<rparr>,
      \<lparr>fr_rule_type = ''velocity_sum'', fr_enabled = True, fr_threshold_value = 1000000, fr_window_seconds = Some 3600\<rparr>]"

definition migrated_fraud :: fraud_db where
  "migrated_fraud = \<lparr>fraud_rules = seeded_rules, fraud_checks = []\<rparr>"

subsection \<open>Scoring\<close>

datatype fraud_error = FraudStatement | FraudWindowMissing string

definition ruleEvaluationOrder :: "string list" where
  "ruleEvaluationOrder = [''amount_threshold'', ''velocity_count'', ''velocity_sum'']"

record ruleConfig =
  ThresholdValue :: int
  WindowSeconds :: "int option"

text \<open>Sites: 0 begin, 1 the rules, 2 the count, 3 the sum, 4 the INSERT, 5 commit.\<close>

definition loadEnabledRules :: "env \<Rightarrow> fraud_db \<Rightarrow> fraud_error + (string \<rightharpoonup> ruleConfig)" where
  "loadEnabledRules e db =
     (if fails e 1 then Inl FraudStatement
      else Inr (foldl (\<lambda>m r. m(fr_rule_type r \<mapsto> \<lparr>ThresholdValue = fr_threshold_value r, WindowSeconds = fr_window_seconds r\<rparr>))
                  Map.empty (filter fr_enabled (fraud_rules db))))"

text \<open>The rows the two velocity queries range over.\<close>

definition recent_approved :: "env \<Rightarrow> fraud_db \<Rightarrow> string \<Rightarrow> int \<Rightarrow> fraud_check_row list" where
  "recent_approved e db account windowSeconds =
     filter (\<lambda>r. fk_account_id r = account \<and> fk_decision r = ''approve'' \<and> now e - windowSeconds * 1000000 \<le> fk_created_at r)
       (fraud_checks db)"

definition countRecentApprovedTransfers :: "runtime \<Rightarrow> env \<Rightarrow> fraud_db \<Rightarrow> string \<Rightarrow> int \<Rightarrow> fraud_error + int" where
  "countRecentApprovedTransfers rt e db accountID windowSeconds =
     (if fails e 2 then Inl FraudStatement
      else case uuid_in rt accountID of
        None \<Rightarrow> Inl FraudStatement
      | Some u \<Rightarrow> Inr (int (length (recent_approved e db u windowSeconds))))"

definition sumRecentApprovedTransfers :: "runtime \<Rightarrow> env \<Rightarrow> fraud_db \<Rightarrow> string \<Rightarrow> int \<Rightarrow> fraud_error + int" where
  "sumRecentApprovedTransfers rt e db accountID windowSeconds =
     (if fails e 3 then Inl FraudStatement
      else case uuid_in rt accountID of
        None \<Rightarrow> Inl FraudStatement
      | Some u \<Rightarrow>
          (case bigint (sum_list (map fk_amount (recent_approved e db u windowSeconds))) of
             None \<Rightarrow> Inl FraudStatement
           | Some s \<Rightarrow> Inr s))"

text \<open>
  The \<open>switch\<close> of the loop: the value a rule compares with its threshold, in Go's arithmetic. The transaction takes no
  locks, so each query sees what is committed when it runs: the query at site \<open>i\<close> reads the tables \<open>view i\<close>.
\<close>

definition observe_at :: "runtime \<Rightarrow> env \<Rightarrow> (nat \<Rightarrow> fraud_db) \<Rightarrow> string \<Rightarrow> int \<Rightarrow> string \<Rightarrow> ruleConfig \<Rightarrow> fraud_error + int" where
  "observe_at rt e view accountID amount ruleType rule =
     (if ruleType = ''amount_threshold'' then Inr amount
      else if ruleType = ''velocity_count'' then
        (case WindowSeconds rule of
           None \<Rightarrow> Inl (FraudWindowMissing ruleType)
         | Some w \<Rightarrow> map_sum id (\<lambda>priorCount. wrap64 (priorCount + 1)) (countRecentApprovedTransfers rt e (view 2) accountID w))
      else if ruleType = ''velocity_sum'' then
        (case WindowSeconds rule of
           None \<Rightarrow> Inl (FraudWindowMissing ruleType)
         | Some w \<Rightarrow> map_sum id (\<lambda>priorSum. wrap64 (priorSum + amount)) (sumRecentApprovedTransfers rt e (view 3) accountID w))
      else Inr 0)"

text \<open>All queries reading the same tables.\<close>

definition observe :: "runtime \<Rightarrow> env \<Rightarrow> fraud_db \<Rightarrow> string \<Rightarrow> int \<Rightarrow> string \<Rightarrow> ruleConfig \<Rightarrow> fraud_error + int" where
  "observe rt e db = observe_at rt e (\<lambda>_. db)"

definition rule_reason :: "string \<Rightarrow> int \<Rightarrow> int \<Rightarrow> string" where
  "rule_reason ruleType observed threshold =
     ruleType @ '': observed '' @ show_int observed @ '' exceeds threshold '' @ show_int threshold"

text \<open>The loop over the rules: the rule that triggered (empty when none did), the reason, the details.\<close>

fun evaluate ::
  "(string \<Rightarrow> ruleConfig \<Rightarrow> fraud_error + int) \<Rightarrow> (string \<rightharpoonup> ruleConfig) \<Rightarrow> string list \<Rightarrow> (string \<times> rule_detail) list
   \<Rightarrow> fraud_error + string \<times> string \<times> (string \<times> rule_detail) list" where
  "evaluate obs rules [] details = Inr ('''', '''', details)"
| "evaluate obs rules (ruleType # rest) details =
     (case rules ruleType of
        None \<Rightarrow> evaluate obs rules rest details
      | Some rule \<Rightarrow>
          (case obs ruleType rule of
             Inl err \<Rightarrow> Inl err
           | Inr observed \<Rightarrow>
               let details' = details @ [(ruleType, \<lparr>rd_observed = observed, rd_threshold = ThresholdValue rule, rd_window_seconds = WindowSeconds rule\<rparr>)] in
               if ThresholdValue rule < observed
               then Inr (ruleType, rule_reason ruleType observed (ThresholdValue rule), details')
               else evaluate obs rules rest details'))"

definition check_row :: "env \<Rightarrow> string \<Rightarrow> string \<Rightarrow> int \<Rightarrow> string \<Rightarrow> string \<Rightarrow> (string \<times> rule_detail) list \<Rightarrow> fraud_check_row" where
  "check_row e transfer account amount decision triggeredRule details =
     \<lparr>fk_id = gen_random_uuid e 0, fk_transfer_id = transfer, fk_account_id = account, fk_amount = amount, fk_decision = decision,
      fk_triggered_rule = (if triggeredRule \<noteq> '''' then Some triggeredRule else None), fk_details = details, fk_created_at = now e\<rparr>"

definition recordFraudCheck ::
  "runtime \<Rightarrow> env \<Rightarrow> fraud_db \<Rightarrow> string \<Rightarrow> string \<Rightarrow> int \<Rightarrow> string \<Rightarrow> string \<Rightarrow> (string \<times> rule_detail) list \<Rightarrow> fraud_db option" where
  "recordFraudCheck rt e db transferID accountID amount decision triggeredRule details =
     (if fails e 4 then None
      else case (uuid_in rt transferID, uuid_in rt accountID) of
        (Some t, Some a) \<Rightarrow>
          if decision \<notin> {''approve'', ''reject''} \<or> gen_random_uuid e 0 \<in> fk_id ` set (fraud_checks db) then None
          else Some (db\<lparr>fraud_checks := fraud_checks db @ [check_row e t a amount decision triggeredRule details]\<rparr>)
      | _ \<Rightarrow> None)"

text \<open>The check with its queries reading \<open>view\<close>, and its row going into \<open>db\<close>, the tables at its commit.\<close>

definition checkTransferSeeing ::
  "runtime \<Rightarrow> env \<Rightarrow> (nat \<Rightarrow> fraud_db) \<Rightarrow> fraud_db \<Rightarrow> string \<Rightarrow> string \<Rightarrow> int \<Rightarrow> fraud_db \<times> (fraud_error + string \<times> string \<times> string)" where
  "checkTransferSeeing rt e view db transferID accountID amount =
     (if fails e 0 then (db, Inl FraudStatement)
      else case loadEnabledRules e (view 1) of
        Inl err \<Rightarrow> (db, Inl err)
      | Inr rules \<Rightarrow>
          (case evaluate (observe_at rt e view accountID amount) rules ruleEvaluationOrder [] of
             Inl err \<Rightarrow> (db, Inl err)
           | Inr (triggeredRule, why, details) \<Rightarrow>
               let decision = (if triggeredRule = '''' then ''approve'' else ''reject'');
                   reason = (if triggeredRule = '''' then ''no rule triggered'' else why) in
               (case recordFraudCheck rt e db transferID accountID amount decision triggeredRule details of
                  None \<Rightarrow> (db, Inl FraudStatement)
                | Some db' \<Rightarrow> persist e 5 db db' FraudStatement (decision, triggeredRule, reason))))"

text \<open>A check that no other one overlaps.\<close>

definition checkTransfer ::
  "runtime \<Rightarrow> env \<Rightarrow> fraud_db \<Rightarrow> string \<Rightarrow> string \<Rightarrow> int \<Rightarrow> fraud_db \<times> (fraud_error + string \<times> string \<times> string)" where
  "checkTransfer rt e db = checkTransferSeeing rt e (\<lambda>_. db) db"

subsection \<open>The RPC and its client\<close>

record fraud_response = CheckTransferResponse +
  cr_Reason :: string

definition CheckTransfer ::
  "runtime \<Rightarrow> env \<Rightarrow> string \<Rightarrow> string \<Rightarrow> int \<Rightarrow> fraud_db \<Rightarrow> fraud_db \<times> (grpc_status + fraud_response)" where
  "CheckTransfer rt e transfer_id account_id amount db =
     (case checkTransfer rt e db transfer_id account_id amount of
        (db', Inl err) \<Rightarrow> (db', Inl internal_error)
      | (db', Inr (decision, triggeredRule, reason)) \<Rightarrow>
          (db', Inr \<lparr>cr_Decision = decision, cr_TriggeredRule = triggeredRule, cr_Reason = reason\<rparr>))"

definition fraud_rpc :: "runtime \<Rightarrow> (nat \<Rightarrow> env) \<Rightarrow> (nat \<Rightarrow> delivery) \<Rightarrow> fraud_db fraud_client" where
  "fraud_rpc rt es ns = \<lparr>fc_CheckTransfer = (\<lambda>i t a amount s.
     (case call (ns i) (CheckTransfer rt (es i) t a amount) s of
        (s', Inl err) \<Rightarrow> (s', Inl err)
      | (s', Inr resp) \<Rightarrow> (s', Inr \<lparr>cr_Decision = cr_Decision resp, cr_TriggeredRule = cr_TriggeredRule resp\<rparr>)))\<rparr>"

subsection \<open>How the loop decides\<close>

definition tripped :: "(string \<Rightarrow> ruleConfig \<Rightarrow> fraud_error + int) \<Rightarrow> (string \<rightharpoonup> ruleConfig) \<Rightarrow> string \<Rightarrow> bool" where
  "tripped obs rules k \<longleftrightarrow> (case rules k of None \<Rightarrow> False
     | Some cfg \<Rightarrow> (case obs k cfg of Inl _ \<Rightarrow> False | Inr v \<Rightarrow> ThresholdValue cfg < v))"

lemma tripped_simps:
  "rules k = None \<Longrightarrow> \<not> tripped obs rules k"
  "rules k = Some cfg \<Longrightarrow> obs k cfg = Inr v \<Longrightarrow> tripped obs rules k = (ThresholdValue cfg < v)"
  by (simp_all add: tripped_def)

lemma evaluate_ConsE:
  assumes "evaluate obs rules (j # rest) ds = Inr (k, why, ds')"
  obtains (skip) "rules j = None" "evaluate obs rules rest ds = Inr (k, why, ds')"
    | (trip) cfg v where "rules j = Some cfg" "obs j cfg = Inr v" "ThresholdValue cfg < v" "k = j"
        "why = rule_reason j v (ThresholdValue cfg)"
    | (pass) cfg v ds2 where "rules j = Some cfg" "obs j cfg = Inr v" "\<not> ThresholdValue cfg < v"
        "evaluate obs rules rest ds2 = Inr (k, why, ds')"
proof (cases "rules j")
  case None
  then show thesis using assms by (intro skip) simp_all
next
  case (Some cfg)
  with assms obtain v where v: "obs j cfg = Inr v" by (cases "obs j cfg") simp_all
  show thesis
  proof (cases "ThresholdValue cfg < v")
    case True
    then show thesis using assms Some v by (intro trip) (auto simp: Let_def)
  next
    case False
    then show thesis using assms Some v by (intro pass) (simp_all add: Let_def)
  qed
qed

lemma evaluate_first:
  assumes "evaluate obs rules ks ds = Inr (k, why, ds')" "'''' \<notin> set ks"
  shows "find (tripped obs rules) ks = (if k = '''' then None else Some k)"
  using assms
proof (induction ks arbitrary: ds)
  case (Cons j rest)
  from Cons.prems(1) show ?case
    by (cases rule: evaluate_ConsE) (use Cons in \<open>auto simp: tripped_simps\<close>)
qed simp

lemma evaluate_passed:
  assumes "evaluate obs rules ks ds = Inr ('''', why, ds')" "'''' \<notin> set ks" "j \<in> set ks" "rules j = Some cfg"
  shows "\<exists>v. obs j cfg = Inr v \<and> v \<le> ThresholdValue cfg"
  using assms
proof (induction ks arbitrary: ds)
  case (Cons i rest)
  from Cons.prems(1) show ?case
    by (cases rule: evaluate_ConsE) (use Cons in auto)
qed simp

text \<open>The enabled rule of a type.\<close>

definition limit :: "fraud_rule_row list \<Rightarrow> string \<Rightarrow> fraud_rule_row option" where
  "limit rs k = find (\<lambda>r. fr_rule_type r = k) (filter fr_enabled rs)"

definition config_of :: "fraud_rule_row \<Rightarrow> ruleConfig" where
  "config_of r = \<lparr>ThresholdValue = fr_threshold_value r, WindowSeconds = fr_window_seconds r\<rparr>"

lemma loaded_rule:
  assumes "distinct (map fr_rule_type rs)"
  shows "foldl (\<lambda>m r. m(fr_rule_type r \<mapsto> config_of r)) m rs k =
    (case find (\<lambda>r. fr_rule_type r = k) rs of None \<Rightarrow> m k | Some r \<Rightarrow> Some (config_of r))"
  using assms
proof (induction rs arbitrary: m)
  case (Cons r rs)
  then show ?case by (auto simp: find_None_in rev_image_eqI split: option.splits dest!: find_Some_in)
qed simp

lemma loadEnabledRules_limit:
  assumes "loadEnabledRules e db = Inr rules" "distinct (map fr_rule_type (fraud_rules db))"
  shows "rules k = map_option config_of (limit (fraud_rules db) k)"
proof -
  have "distinct (map fr_rule_type (filter fr_enabled (fraud_rules db)))"
    using assms(2) by (simp add: distinct_map_filter)
  from loaded_rule [OF this, of Map.empty k] assms(1) show ?thesis
    by (auto simp: loadEnabledRules_def limit_def config_of_def [symmetric] split: if_splits option.splits)
qed

lemma checkTransferSeeing_cases:
  assumes "checkTransferSeeing rt e view db transfer account amount = (db', r)"
  obtains (unchanged) err where "db' = db" "r = Inl err"
    | (logged) t a rules k why details where "uuid_in rt transfer = Some t" "uuid_in rt account = Some a"
        "loadEnabledRules e (view 1) = Inr rules"
        "evaluate (observe_at rt e view account amount) rules ruleEvaluationOrder [] = Inr (k, why, details)"
        "db' = db\<lparr>fraud_checks := fraud_checks db @ [check_row e t a amount (if k = '''' then ''approve'' else ''reject'') k details]\<rparr>"
        "r = Inr (if k = '''' then ''approve'' else ''reject'', k, if k = '''' then ''no rule triggered'' else why)
         \<or> r = Inl FraudStatement \<and> fault_at e 5 = AppliedLost"
proof (cases "fails e 0 \<or> (\<exists>err. loadEnabledRules e (view 1) = Inl err)")
  case True
  then show thesis using assms by (intro unchanged) (auto simp: checkTransferSeeing_def loadEnabledRules_def split: if_splits)
next
  case False
  then obtain rules where l: "\<not> fails e 0" "loadEnabledRules e (view 1) = Inr rules" by (cases "loadEnabledRules e (view 1)") auto
  show thesis
  proof (cases "evaluate (observe_at rt e view account amount) rules ruleEvaluationOrder []")
    case (Inl err)
    then show thesis using assms l by (intro unchanged [of err]) (auto simp: checkTransferSeeing_def)
  next
    case (Inr res)
    then obtain k why details where ev: "evaluate (observe_at rt e view account amount) rules ruleEvaluationOrder [] = Inr (k, why, details)"
      by (cases res) auto
    let ?dec = "if k = '''' then ''approve'' else ''reject''"
    show thesis
    proof (cases "recordFraudCheck rt e db transfer account amount ?dec k details")
      case None
      then show thesis using assms l ev by (intro unchanged [of FraudStatement]) (auto simp: checkTransferSeeing_def Let_def)
    next
      case (Some db2)
      then obtain t a where ids: "uuid_in rt transfer = Some t" "uuid_in rt account = Some a"
        and db2: "db2 = db\<lparr>fraud_checks := fraud_checks db @ [check_row e t a amount ?dec k details]\<rparr>"
        by (auto simp: recordFraudCheck_def split: if_splits option.splits)
      have "persist e 5 db db2 FraudStatement (?dec, k, if k = '''' then ''no rule triggered'' else why) = (db', r)"
        using assms l ev Some by (simp add: checkTransferSeeing_def Let_def)
      then show thesis
      proof (cases rule: persist_cases)
        case lost
        then show thesis using unchanged by blast
      next
        case ok
        then show thesis using logged [OF ids l(2) ev] db2 by blast
      next
        case applied
        then show thesis using logged [OF ids l(2) ev] db2 by blast
      qed
    qed
  qed
qed

lemma checkTransfer_cases:
  assumes "checkTransfer rt e db transfer account amount = (db', r)"
  obtains (unchanged) err where "db' = db" "r = Inl err"
    | (logged) t a rules k why details where "uuid_in rt transfer = Some t" "uuid_in rt account = Some a"
        "loadEnabledRules e db = Inr rules"
        "evaluate (observe rt e db account amount) rules ruleEvaluationOrder [] = Inr (k, why, details)"
        "db' = db\<lparr>fraud_checks := fraud_checks db @ [check_row e t a amount (if k = '''' then ''approve'' else ''reject'') k details]\<rparr>"
        "r = Inr (if k = '''' then ''approve'' else ''reject'', k, if k = '''' then ''no rule triggered'' else why)
         \<or> r = Inl FraudStatement \<and> fault_at e 5 = AppliedLost"
  using assms unfolding checkTransfer_def observe_def by (rule checkTransferSeeing_cases)

lemma rule_order_nonempty: "'''' \<notin> set ruleEvaluationOrder"
  by (simp add: ruleEvaluationOrder_def)

text \<open>
  A transfer is scored and logged together, or not at all. Where \<open>checkTransfer\<close> answers, exactly
  one check with the transfer, the account, the amount and the decision is appended; the decision is
  to reject, naming the first rule of the fixed order whose observed value exceeds its threshold,
  exactly when there is such a rule, and to approve otherwise. It returns an error, never an
  approval, when it cannot decide, and then nothing is logged unless the answer to the commit was lost.
\<close>

theorem check_decides_and_logs:
  "case checkTransfer rt e db transfer account amount of
     (db', Inr (decision, rule, reason)) \<Rightarrow>
       (\<exists>rules t a details. loadEnabledRules e db = Inr rules \<and> uuid_in rt transfer = Some t \<and> uuid_in rt account = Some a \<and>
          db' = db\<lparr>fraud_checks := fraud_checks db @ [check_row e t a amount decision rule details]\<rparr> \<and>
          (case find (tripped (observe rt e db account amount) rules) ruleEvaluationOrder of
             None \<Rightarrow> decision = ''approve'' \<and> rule = ''''
           | Some k \<Rightarrow> decision = ''reject'' \<and> rule = k \<and> k \<noteq> ''''))
   | (db', Inl err) \<Rightarrow> db' = db \<or> fault_at e 5 = AppliedLost \<and> (\<exists>row. db' = db\<lparr>fraud_checks := fraud_checks db @ [row]\<rparr>)"
proof -
  obtain db' r where x: "checkTransfer rt e db transfer account amount = (db', r)" by fastforce
  then show ?thesis
  proof (cases rule: checkTransfer_cases)
    case (unchanged err)
    then show ?thesis by (simp add: x)
  next
    case (logged t a rules k why details)
    note first = evaluate_first [OF logged(4) rule_order_nonempty]
    from logged(6) show ?thesis
    proof
      assume r: "r = Inr (if k = '''' then ''approve'' else ''reject'', k, if k = '''' then ''no rule triggered'' else why)"
      then show ?thesis using logged(1-5) first by (auto simp: x)
    next
      assume "r = Inl FraudStatement \<and> fault_at e 5 = AppliedLost"
      then show ?thesis using logged(5) by (auto simp: x)
    qed
  qed
qed

subsection \<open>The velocity limits\<close>

definition approved_since :: "fraud_db \<Rightarrow> string \<Rightarrow> int \<Rightarrow> fraud_check_row list" where
  "approved_since db u s = filter (\<lambda>r. fk_account_id r = u \<and> fk_decision r = ''approve'' \<and> s \<le> fk_created_at r) (fraud_checks db)"

definition spent_since :: "fraud_db \<Rightarrow> string \<Rightarrow> int \<Rightarrow> int" where
  "spent_since db u s = sum_list (map fk_amount (approved_since db u s))"

lemma recent_approved_since: "recent_approved e db u w = approved_since db u (now e - w * 1000000)"
  by (simp add: recent_approved_def approved_since_def)

text \<open>What a query sees of one account: the rules, and that account's checks.\<close>

definition account_view :: "string \<Rightarrow> fraud_db \<Rightarrow> fraud_db \<Rightarrow> bool" where
  "account_view u db v \<longleftrightarrow> fraud_rules v = fraud_rules db \<and>
     filter (\<lambda>r. fk_account_id r = u) (fraud_checks v) = filter (\<lambda>r. fk_account_id r = u) (fraud_checks db)"

lemma approved_since_view: "account_view u db v \<Longrightarrow> approved_since v u s = approved_since db u s"
proof -
  have nested: "approved_since d u s = filter (\<lambda>r. fk_decision r = ''approve'' \<and> s \<le> fk_created_at r) (filter (\<lambda>r. fk_account_id r = u) (fraud_checks d))" for d
    by (simp add: approved_since_def conj_commute)
  then show "account_view u db v \<Longrightarrow> approved_since v u s = approved_since db u s" by (simp only: nested account_view_def)
qed

text \<open>
  Any sequence of checks with positive amounts, in the order of their commits. The checks of one account come one after
  the other: each begins (its \<open>now()\<close>) no earlier than the one before, and its queries see all checks of this account
  that are committed before its own commit. Checks of different accounts may overlap in any way. \<open>T u\<close> is the time of
  the account's last check.
\<close>

inductive fraud_run :: "runtime \<Rightarrow> fraud_rule_row list \<Rightarrow> fraud_db \<Rightarrow> (string \<Rightarrow> int) \<Rightarrow> bool" for rt rules where
  fraud_start: "fraud_run rt rules \<lparr>fraud_rules = rules, fraud_checks = []\<rparr> T"
| fraud_next: "fraud_run rt rules db T \<Longrightarrow>
    \<forall>u. uuid_in rt account = Some u \<longrightarrow> T u \<le> now e \<and> (\<forall>i. account_view u db (view i)) \<Longrightarrow>
    0 < amount \<Longrightarrow> in_int64 amount \<Longrightarrow> checkTransferSeeing rt e view db transfer account amount = (db', r) \<Longrightarrow>
    fraud_run rt rules db' (\<lambda>u. if uuid_in rt account = Some u then now e else T u)"

lemma sum_filter_mono:
  assumes "\<And>x. x \<in> set xs \<Longrightarrow> (0::int) \<le> f x" "\<And>x. x \<in> set xs \<Longrightarrow> p x \<Longrightarrow> q x"
  shows "sum_list (map f (filter p xs)) \<le> sum_list (map f (filter q xs))"
  using assms
proof (induction xs)
  case (Cons x xs)
  then have "sum_list (map f (filter p xs)) \<le> sum_list (map f (filter q xs))" by simp
  moreover have "0 \<le> f x" "p x \<Longrightarrow> q x" using Cons.prems by simp_all
  ultimately show ?case by auto
qed simp

definition positive_checks :: "fraud_db \<Rightarrow> bool" where
  "positive_checks db \<longleftrightarrow> (\<forall>r\<in>set (fraud_checks db). 0 < fk_amount r)"

lemma spent_since_antimono: "positive_checks db \<Longrightarrow> s \<le> s' \<Longrightarrow> spent_since db u s' \<le> spent_since db u s"
  unfolding spent_since_def approved_since_def
  by (rule sum_filter_mono) (auto simp: positive_checks_def intro: less_imp_le)

lemma spent_since_nonneg: "positive_checks db \<Longrightarrow> 0 \<le> spent_since db u s"
  unfolding spent_since_def approved_since_def positive_checks_def
  by (rule sum_list_nonneg) (auto intro: less_imp_le)

lemma length_filter_mono: "(\<And>x. p x \<Longrightarrow> q x) \<Longrightarrow> length (filter p xs) \<le> length (filter q xs)"
  by (induction xs) (auto intro: le_SucI)

lemma count_since_antimono: "s \<le> s' \<Longrightarrow> length (approved_since db u s') \<le> length (approved_since db u s)"
  unfolding approved_since_def by (rule length_filter_mono) auto

lemma spent_append:
  "spent_since (db\<lparr>fraud_checks := fraud_checks db @ [row]\<rparr>) u s = spent_since db u s
     + (if fk_account_id row = u \<and> fk_decision row = ''approve'' \<and> s \<le> fk_created_at row then fk_amount row else 0)"
  "length (approved_since (db\<lparr>fraud_checks := fraud_checks db @ [row]\<rparr>) u s) = length (approved_since db u s)
     + (if fk_account_id row = u \<and> fk_decision row = ''approve'' \<and> s \<le> fk_created_at row then 1 else 0)"
  by (simp_all add: spent_since_def approved_since_def)

text \<open>What an approval says of a rule.\<close>

lemma approved_rule:
  assumes "loadEnabledRules e v = Inr rules" "distinct (map fr_rule_type (fraud_rules v))"
    and "evaluate obs rules ruleEvaluationOrder [] = Inr ('''', why, ds)"
    and "limit (fraud_rules v) k = Some r" "k \<in> set ruleEvaluationOrder"
  shows "\<exists>x. obs k (config_of r) = Inr x \<and> x \<le> fr_threshold_value r"
  using evaluate_passed [OF assms(3) rule_order_nonempty assms(5), of "config_of r"]
    loadEnabledRules_limit [OF assms(1,2), of k] assms(4) by (simp add: config_of_def)

lemma checkTransferSeeing_keeps:
  assumes "checkTransferSeeing rt e view db transfer account amount = (db', r)" "0 < amount" "positive_checks db"
  shows "positive_checks db'" "fraud_rules db' = fraud_rules db"
  using assms(1) by (cases rule: checkTransferSeeing_cases; use assms(2,3) in \<open>simp add: positive_checks_def check_row_def\<close>)+

definition sum_limit_holds :: "fraud_rule_row \<Rightarrow> int \<Rightarrow> fraud_db \<Rightarrow> (string \<Rightarrow> int) \<Rightarrow> bool" where
  "sum_limit_holds rs w db T \<longleftrightarrow> (\<forall>u. spent_since db u (T u - w * 1000000) \<le> fr_threshold_value rs)"

definition count_limit_holds :: "fraud_rule_row \<Rightarrow> int \<Rightarrow> fraud_db \<Rightarrow> (string \<Rightarrow> int) \<Rightarrow> bool" where
  "count_limit_holds rc w db T \<longleftrightarrow> (\<forall>u. int (length (approved_since db u (T u - w * 1000000))) \<le> fr_threshold_value rc)"

abbreviation checked_at :: "runtime \<Rightarrow> string \<Rightarrow> env \<Rightarrow> (string \<Rightarrow> int) \<Rightarrow> string \<Rightarrow> int" where
  "checked_at rt account e T \<equiv> (\<lambda>u. if uuid_in rt account = Some u then now e else T u)"

lemma sum_limit_step:
  assumes "checkTransferSeeing rt e view db transfer account amount = (db', r)" "0 < amount" "positive_checks db"
    and "\<forall>u. uuid_in rt account = Some u \<longrightarrow> T u \<le> now e \<and> (\<forall>i. account_view u db (view i))"
    and "distinct (map fr_rule_type (fraud_rules db))"
    and "limit (fraud_rules db) ''amount_threshold'' = Some ra" "limit (fraud_rules db) ''velocity_sum'' = Some rs"
    and "fr_window_seconds rs = Some w" "fr_threshold_value ra + fr_threshold_value rs < 2 ^ 63" "sum_limit_holds rs w db T"
  shows "sum_limit_holds rs w db' (checked_at rt account e T)"
proof -
  have old: "spent_since db u (checked_at rt account e T u - w * 1000000) \<le> fr_threshold_value rs" for u
  proof -
    have "T u \<le> checked_at rt account e T u" using assms(4) by simp
    then have "spent_since db u (checked_at rt account e T u - w * 1000000) \<le> spent_since db u (T u - w * 1000000)"
      using spent_since_antimono [OF assms(3)] by simp
    also have "\<dots> \<le> fr_threshold_value rs" using assms(10) by (simp add: sum_limit_holds_def)
    finally show ?thesis .
  qed
  from assms(1) show ?thesis
  proof (cases rule: checkTransferSeeing_cases)
    case (logged tr a rules k why details)
    have view: "account_view a db (view i)" for i using assms(4) logged(2) by simp
    then have rules: "fraud_rules (view 1) = fraud_rules db" by (simp add: account_view_def)
    have old_a: "spent_since db a (now e - w * 1000000) \<le> fr_threshold_value rs" using old [of a] logged(2) by simp
    have "spent_since db a (now e - w * 1000000) + amount \<le> fr_threshold_value rs" if k: "k = ''''"
    proof -
      note ev = logged(4) [unfolded k]
      obtain v where v: "observe_at rt e view account amount ''velocity_sum'' (config_of rs) = Inr v" "v \<le> fr_threshold_value rs"
        using approved_rule [OF logged(3) _ ev] assms(5,7) rules by (auto simp: ruleEvaluationOrder_def)
      have "\<exists>x. observe_at rt e view account amount ''amount_threshold'' (config_of ra) = Inr x \<and> x \<le> fr_threshold_value ra"
        using approved_rule [OF logged(3) _ ev] assms(5,6) rules by (simp add: ruleEvaluationOrder_def)
      then have "amount \<le> fr_threshold_value ra" by (simp add: observe_at_def)
      then have "in_int64 (spent_since db a (now e - w * 1000000) + amount)"
        using old_a spent_since_nonneg [OF assms(3), of a "now e - w * 1000000"] assms(2,9) by (simp add: in_int64_def)
      with v logged(2) assms(8) show ?thesis
        by (auto simp: observe_at_def sumRecentApprovedTransfers_def config_of_def recent_approved_since approved_since_view [OF view]
            spent_since_def bigint_def wrap64_id split: if_splits)
    qed
    with old logged(2) show ?thesis
      by (auto simp: sum_limit_holds_def logged(5) spent_append check_row_def)
  qed (use old in \<open>simp add: sum_limit_holds_def\<close>)
qed

lemma count_limit_step:
  assumes "checkTransferSeeing rt e view db transfer account amount = (db', r)"
    and "\<forall>u. uuid_in rt account = Some u \<longrightarrow> T u \<le> now e \<and> (\<forall>i. account_view u db (view i))" "distinct (map fr_rule_type (fraud_rules db))"
    and "limit (fraud_rules db) ''velocity_count'' = Some rc" "fr_window_seconds rc = Some w"
    and "fr_threshold_value rc < 2 ^ 63 - 1" "count_limit_holds rc w db T"
  shows "count_limit_holds rc w db' (checked_at rt account e T)"
proof -
  have old: "int (length (approved_since db u (checked_at rt account e T u - w * 1000000))) \<le> fr_threshold_value rc" for u
  proof -
    have "T u \<le> checked_at rt account e T u" using assms(2) by simp
    then have "length (approved_since db u (checked_at rt account e T u - w * 1000000)) \<le> length (approved_since db u (T u - w * 1000000))"
      using count_since_antimono by simp
    moreover have "int (length (approved_since db u (T u - w * 1000000))) \<le> fr_threshold_value rc"
      using assms(7) by (simp add: count_limit_holds_def)
    ultimately show ?thesis by linarith
  qed
  from assms(1) show ?thesis
  proof (cases rule: checkTransferSeeing_cases)
    case (logged tr a rules k why details)
    have view: "account_view a db (view i)" for i using assms(2) logged(2) by simp
    then have rules: "fraud_rules (view 1) = fraud_rules db" by (simp add: account_view_def)
    have old_a: "int (length (approved_since db a (now e - w * 1000000))) \<le> fr_threshold_value rc" using old [of a] logged(2) by simp
    have "int (length (approved_since db a (now e - w * 1000000))) + 1 \<le> fr_threshold_value rc" if k: "k = ''''"
    proof -
      obtain v where v: "observe_at rt e view account amount ''velocity_count'' (config_of rc) = Inr v" "v \<le> fr_threshold_value rc"
        using approved_rule [OF logged(3) _ logged(4) [unfolded k]] assms(3,4) rules by (auto simp: ruleEvaluationOrder_def)
      have "in_int64 (int (length (approved_since db a (now e - w * 1000000))) + 1)"
        using old_a assms(6) by (simp add: in_int64_def)
      with v logged(2) assms(5) show ?thesis
        by (auto simp: observe_at_def countRecentApprovedTransfers_def config_of_def recent_approved_since approved_since_view [OF view]
            wrap64_id split: if_splits)
    qed
    with old logged(2) show ?thesis
      by (auto simp: count_limit_holds_def logged(5) spent_append check_row_def)
  qed (use old in \<open>simp add: count_limit_holds_def\<close>)
qed

lemma fraud_run_holds:
  assumes "fraud_run rt rules db T" "distinct (map fr_rule_type rules)"
  shows "positive_checks db \<and> fraud_rules db = rules \<and>
    (\<forall>ra rs w. limit rules ''amount_threshold'' = Some ra \<and> limit rules ''velocity_sum'' = Some rs \<and> fr_window_seconds rs = Some w \<and>
       0 \<le> fr_threshold_value rs \<and> fr_threshold_value ra + fr_threshold_value rs < 2 ^ 63 \<longrightarrow> sum_limit_holds rs w db T) \<and>
    (\<forall>rc w. limit rules ''velocity_count'' = Some rc \<and> fr_window_seconds rc = Some w \<and>
       0 \<le> fr_threshold_value rc \<and> fr_threshold_value rc < 2 ^ 63 - 1 \<longrightarrow> count_limit_holds rc w db T)"
  using assms(1)
proof (induction rule: fraud_run.induct)
  case (fraud_start T)
  then show ?case
    by (simp add: positive_checks_def sum_limit_holds_def count_limit_holds_def spent_since_def approved_since_def)
next
  case (fraud_next db T account e view amount transfer db' r)
  then have keep: "positive_checks db'" "fraud_rules db' = rules" and d: "distinct (map fr_rule_type (fraud_rules db))"
    using checkTransferSeeing_keeps [OF fraud_next.hyps(5,3)] assms(2) by simp_all
  have "sum_limit_holds rs w db' (checked_at rt account e T)"
    if "limit rules ''amount_threshold'' = Some ra" "limit rules ''velocity_sum'' = Some rs" "fr_window_seconds rs = Some w"
      "0 \<le> fr_threshold_value rs" "fr_threshold_value ra + fr_threshold_value rs < 2 ^ 63" for ra rs w
    using sum_limit_step [OF fraud_next.hyps(5,3) _ fraud_next.hyps(2) d, of ra rs w] fraud_next.IH that by simp
  moreover have "count_limit_holds rc w db' (checked_at rt account e T)"
    if "limit rules ''velocity_count'' = Some rc" "fr_window_seconds rc = Some w"
      "0 \<le> fr_threshold_value rc" "fr_threshold_value rc < 2 ^ 63 - 1" for rc w
    using count_limit_step [OF fraud_next.hyps(5,2) d, of rc w] fraud_next.IH that by simp
  ultimately show ?case using keep by blast
qed

text \<open>
  C30: the velocity limits hold for an account whose checks do not overlap. Take any sequence of checks of positive
  amounts with any failures, in which the checks of one account come one after the other while those of different
  accounts overlap as they may, with rules that do not change. Then the amounts approved for an account within the window
  of \<open>velocity_sum\<close> before any time from its last check on sum to at most that rule's threshold, and their number within the
  window of \<open>velocity_count\<close> is at most that rule's threshold. This needs the three rules enabled with windows, as they
  are seeded: without \<open>amount_threshold\<close> the sum can wrap around (\<open>velocity_sum_wraps\<close>); and thresholds that leave room
  in 64 bits: the sum's and the one on single amounts together stay below \<open>2 ^ 63\<close>. Two overlapping checks of one account
  do not see each other and can exceed the limits (\<open>overlapping_checks_exceed\<close>).
\<close>

theorem velocity_limits_hold:
  assumes "fraud_run rt rules db T" "distinct (map fr_rule_type rules)" "T u \<le> t"
    and "limit rules ''amount_threshold'' = Some ra" "limit rules ''velocity_sum'' = Some rs" "fr_window_seconds rs = Some w"
    and "0 \<le> fr_threshold_value rs" "fr_threshold_value ra + fr_threshold_value rs < 2 ^ 63"
    and "limit rules ''velocity_count'' = Some rc" "fr_window_seconds rc = Some w'"
    and "0 \<le> fr_threshold_value rc" "fr_threshold_value rc < 2 ^ 63 - 1"
  shows "spent_since db u (t - w * 1000000) \<le> fr_threshold_value rs
    \<and> int (length (approved_since db u (t - w' * 1000000))) \<le> fr_threshold_value rc"
proof
  note run = fraud_run_holds [OF assms(1,2)]
  have "spent_since db u (t - w * 1000000) \<le> spent_since db u (T u - w * 1000000)"
    using run assms(3) by (intro spent_since_antimono) simp_all
  also have "\<dots> \<le> fr_threshold_value rs" using run assms(4-8) by (simp add: sum_limit_holds_def)
  finally show "spent_since db u (t - w * 1000000) \<le> fr_threshold_value rs" .
  have "int (length (approved_since db u (t - w' * 1000000))) \<le> int (length (approved_since db u (T u - w' * 1000000)))"
    using count_since_antimono assms(3) by simp
  also have "\<dots> \<le> fr_threshold_value rc" using run assms(9-12) by (simp add: count_limit_holds_def)
  finally show "int (length (approved_since db u (t - w' * 1000000))) \<le> fr_threshold_value rc" .
qed

text \<open>
  With the seeded rules: two checks of 4,000.00 for one account are approved and a third in the hour is rejected by
  \<open>velocity_sum\<close>, while a check of another account overlaps the third: its queries ran before the others.
\<close>

definition sample_check :: "nat \<Rightarrow> fraud_db \<Rightarrow> string \<Rightarrow> string \<Rightarrow> fraud_db" where
  "sample_check n db transfer account = fst (checkTransfer plain_runtime (sample_env n) db transfer account 400000)"

definition sample_checks :: fraud_db where
  "sample_checks = fst (checkTransferSeeing plain_runtime (sample_env 4) (\<lambda>_. migrated_fraud)
     (sample_check 3 (sample_check 2 (sample_check 1 migrated_fraud ''t1'' ''a'') ''t2'' ''a'') ''t3'' ''a'') ''t4'' ''b'' 400000)"

theorem velocity_limits_hold_witness:
  "map fk_decision (fraud_checks sample_checks) = [''approve'', ''approve'', ''reject'', ''approve''] \<and>
   spent_since sample_checks ''a'' (3 - 3600 * 1000000) \<le> 1000000 \<and>
   int (length (approved_since sample_checks ''a'' (3 - 300 * 1000000))) \<le> 5"
proof -
  have start: "migrated_fraud = \<lparr>fraud_rules = seeded_rules, fraud_checks = []\<rparr>" by (simp add: migrated_fraud_def)
  have nows: "now (sample_env n) = int n" for n by (simp add: sample_env_def)
  have amount: "in_int64 400000" by (simp add: in_int64_def)
  have step: "fraud_run plain_runtime seeded_rules (sample_check n db tr ''a'') (\<lambda>u. if u = ''a'' then int n else T u)"
    if "fraud_run plain_runtime seeded_rules db T" "T ''a'' \<le> int n" for n T db tr
    using fraud_run.fraud_next [OF that(1) _ _ amount surjective_pairing, of "''a''" "sample_env n" "\<lambda>_. db" tr] that(2)
    by (auto simp: nows account_view_def sample_check_def checkTransfer_def if_distrib cong: if_cong elim!: back_subst [of "fraud_run _ _ _"])
  let ?T = "\<lambda>u. if u = ''a'' then 3 else (0::int)"
  let ?db = "sample_check 3 (sample_check 2 (sample_check 1 migrated_fraud ''t1'' ''a'') ''t2'' ''a'') ''t3'' ''a''"
  have "fraud_run plain_runtime seeded_rules ?db (\<lambda>u. if u = ''a'' then int 3 else (if u = ''a'' then int 2 else (if u = ''a'' then int 1 else 0)))"
    unfolding start by (intro step fraud_run.fraud_start) simp_all
  then have three: "fraud_run plain_runtime seeded_rules ?db ?T" by (simp cong: if_cong)
  have "filter (\<lambda>r. fk_account_id r = ''b'') (fraud_checks ?db) = []" "fraud_rules ?db = seeded_rules" by code_simp+
  then have "account_view ''b'' ?db migrated_fraud" by (simp add: account_view_def migrated_fraud_def)
  then have run: "fraud_run plain_runtime seeded_rules sample_checks (\<lambda>u. if uuid_in plain_runtime ''b'' = Some u then now (sample_env 4) else ?T u)"
    unfolding sample_checks_def
    by (intro fraud_run.fraud_next [OF three _ _ amount surjective_pairing]) (simp_all add: nows)
  have lim: "limit seeded_rules ''amount_threshold'' = Some (seeded_rules ! 0)" "limit seeded_rules ''velocity_count'' = Some (seeded_rules ! 1)"
    "limit seeded_rules ''velocity_sum'' = Some (seeded_rules ! 2)" "distinct (map fr_rule_type seeded_rules)"
    by (simp_all add: limit_def seeded_rules_def)
  have "map fk_decision (fraud_checks sample_checks) = [''approve'', ''approve'', ''reject'', ''approve'']" by code_simp
  with velocity_limits_hold [OF run lim(4) _ lim(1,3) _ _ _ lim(2), of "''a''" 3 3600 300] show ?thesis
    by (simp add: seeded_rules_def)
qed

subsection \<open>Overlapping checks\<close>

text \<open>
  the limits fail when checks of one account overlap: the transaction reads and inserts under read committed and takes no
  lock, so three checks of 4,000.00 for one account whose queries all run before any of them commits are all approved,
  12,000.00 in the hour against the limit of 10,000.00.
\<close>

theorem overlapping_checks_exceed:
  "let first = fst (checkTransferSeeing plain_runtime (sample_env 1) (\<lambda>_. migrated_fraud) migrated_fraud ''t1'' ''a'' 400000);
       second = fst (checkTransferSeeing plain_runtime (sample_env 2) (\<lambda>_. migrated_fraud) first ''t2'' ''a'' 400000);
       third = fst (checkTransferSeeing plain_runtime (sample_env 3) (\<lambda>_. migrated_fraud) second ''t3'' ''a'' 400000) in
   map fk_decision (fraud_checks third) = [''approve'', ''approve'', ''approve''] \<and>
   spent_since third ''a'' (3 - 3600 * 1000000) = 1200000"
  by code_simp

subsection \<open>Wrap-around\<close>

text \<open>
  without an enabled \<open>amount_threshold\<close>, \<open>velocity_sum\<close> can be passed by an amount so large that Go's
  addition wraps around: after one approved check of 1, a check of \<open>2 ^ 63 - 1\<close> observes a negative sum and
  is approved against the threshold 1000000.
\<close>

theorem velocity_sum_wraps:
  "let db = fst (checkTransfer plain_runtime (sample_env 1) \<lparr>fraud_rules = drop 2 seeded_rules, fraud_checks = []\<rparr> ''t1'' ''a'' 1) in
   case checkTransfer plain_runtime (sample_env 2) db ''t2'' ''a'' (2 ^ 63 - 1) of
     (db', Inr (decision, _)) \<Rightarrow> decision = ''approve'' \<and> 1000000 < spent_since db' ''a'' (2 - 3600 * 1000000)
   | _ \<Rightarrow> False"
  by code_simp

subsection \<open>The check of a transfer\<close>

text \<open>
  a transfer that transfers-svc takes as approved has been scored by fraud-svc: between the state of
  fraud-svc before and after, exactly one check was appended, with this transfer, its sender and its amount,
  the decision approve and no rule, and no enabled rule was exceeded; one that it takes as rejected
  has such a check with the decision reject, and the row says rejected with the rule that was exceeded.
\<close>

theorem approved_transfer_was_scored:
  assumes "checkTransferFraud rt e (fraud_rpc rt es ns) meanwhile db f transfer = (db', f', Inr (t, out))"
    and "out \<noteq> FraudCheckUncertain"
  shows "\<exists>rules tid a details k. loadEnabledRules (es 0) f = Inr rules \<and>
      uuid_in rt (t_ID transfer) = Some tid \<and> uuid_in rt (t_SenderAccountID transfer) = Some a \<and>
      f' = f\<lparr>fraud_checks := fraud_checks f @ [check_row (es 0) tid a (t_Amount transfer) (if out = FraudCheckApproved then ''approve'' else ''reject'') k details]\<rparr> \<and>
      find (tripped (observe rt (es 0) f (t_SenderAccountID transfer) (t_Amount transfer)) rules) ruleEvaluationOrder
        = (if out = FraudCheckApproved then None else Some k) \<and>
      (if out = FraudCheckApproved then t = transfer \<and> db' = meanwhile db else t_Status t = ''rejected'' \<and> t_FailureReason t = Some k)"
proof -
  obtain f2 answer where a: "fc_CheckTransfer (fraud_rpc rt es ns) 0 (t_ID transfer) (t_SenderAccountID transfer) (t_Amount transfer) f = (f2, answer)"
    by fastforce
  obtain resp where resp: "answer = Inr resp" using assms a by (cases answer) (auto simp: checkTransferFraud_def)
  with assms a have f2: "f2 = f'" by (auto simp: checkTransferFraud_def split: if_splits prod.splits sum.splits)
  obtain g c where c: "call (ns 0) (CheckTransfer rt (es 0) (t_ID transfer) (t_SenderAccountID transfer) (t_Amount transfer)) f = (g, c)"
    by fastforce
  with a resp f2 obtain r where r: "c = Inr r" "g = f'" "cr_Decision resp = cr_Decision r" "cr_TriggeredRule resp = cr_TriggeredRule r"
    by (cases c) (auto simp: fraud_rpc_def)
  from c r have h: "CheckTransfer rt (es 0) (t_ID transfer) (t_SenderAccountID transfer) (t_Amount transfer) f = (f', Inr r)"
    by (auto elim: call_cases)
  obtain f3 q where q: "checkTransfer rt (es 0) f (t_ID transfer) (t_SenderAccountID transfer) (t_Amount transfer) = (f3, q)" by fastforce
  from q show ?thesis
  proof (cases rule: checkTransfer_cases)
    case (unchanged err)
    then show ?thesis using h q by (simp add: CheckTransfer_def)
  next
    case (logged tid acc rules k why details)
    let ?dec = "if k = '''' then ''approve'' else ''reject''"
    have res: "cr_Decision r = ?dec" "cr_TriggeredRule r = k" "f' = f3"
      using h q logged(6) by (auto simp: CheckTransfer_def)
    have outs: "out = (if k = '''' then FraudCheckApproved else FraudCheckRejected)"
      "k = '''' \<Longrightarrow> t = transfer \<and> db' = meanwhile db"
      using assms a resp r res by (auto simp: checkTransferFraud_def split: sum.splits prod.splits if_splits)
    have "t_Status t = ''rejected'' \<and> t_FailureReason t = Some k" if k: "k \<noteq> ''''"
    proof -
      have "markTransferRejected rt e (meanwhile db) (t_ID transfer) k = (db', Inr t)"
        using assms a resp r res k by (auto simp: checkTransferFraud_def split: sum.splits prod.splits if_splits)
      then show ?thesis by (auto simp: mark_defs elim!: mark_row_cases)
    qed
    then show ?thesis
      using logged(1-3,5) res(3) outs evaluate_first [OF logged(4) rule_order_nonempty] by (cases "k = ''''") auto
  qed
qed

theorem approved_transfer_was_scored_witness:
  "case checkTransferFraud plain_runtime (sample_env 7) (fraud_rpc plain_runtime (\<lambda>_. sample_env 8) (\<lambda>_. Delivered)) id sample_pending migrated_fraud sample_transfer of
     (_, f', Inr (_, out)) \<Rightarrow> out = FraudCheckApproved \<and> map fk_decision (fraud_checks f') = [''approve'']
   | _ \<Rightarrow> False"
proof -
  let ?c = "checkTransferFraud plain_runtime (sample_env 7) (fraud_rpc plain_runtime (\<lambda>_. sample_env 8) (\<lambda>_. Delivered)) id sample_pending migrated_fraud sample_transfer"
  obtain db' f' res where c: "?c = (db', f', res)" using prod_cases3 by blast
  have "(case snd (snd ?c) of Inr (t, out) \<Rightarrow> Some out | _ \<Rightarrow> None) = Some FraudCheckApproved" by code_simp
  with c obtain t where r: "res = Inr (t, FraudCheckApproved)" by (auto split: sum.splits)
  from approved_transfer_was_scored [OF c [unfolded r]] have "map fk_decision (fraud_checks f') = [''approve'']"
    by (auto simp: migrated_fraud_def check_row_def)
  with c r show ?thesis by simp
qed

end
