(* ===== verification/Paging.thy ===== *)
theory Paging
  imports Prelude
begin

text \<open>
  Reading rows in descending order of a key, page by page and from several sources: the mathematics behind
  the keyset pagination of transfers-svc. The key of a row is unique.
\<close>

subsection \<open>Strictly descending lists\<close>

definition descending :: "('r \<Rightarrow> 'k::linorder) \<Rightarrow> 'r list \<Rightarrow> bool" where
  "descending k rs \<longleftrightarrow> sorted_wrt (\<lambda>a b. k b < k a) rs"

lemma descending_simps [simp]:
  "descending k []" "descending k (r # rs) \<longleftrightarrow> (\<forall>x\<in>set rs. k x < k r) \<and> descending k rs"
  by (simp_all add: descending_def)

lemma descending_append: "descending k (xs @ ys) \<longleftrightarrow> descending k xs \<and> descending k ys \<and> (\<forall>x\<in>set xs. \<forall>y\<in>set ys. k y < k x)"
  by (auto simp: descending_def sorted_wrt_append)

lemma descending_filter: "descending k rs \<Longrightarrow> descending k (filter p rs)"
  by (simp add: descending_def sorted_wrt_filter)

lemma descending_take: "descending k rs \<Longrightarrow> descending k (take n rs)"
  by (simp add: descending_def sorted_wrt_take)

lemma descending_sort_desc:
  assumes "distinct (map k rs)"
  shows "descending k (sort_desc k rs)"
proof -
  let ?s = "sort_desc k rs"
  have d: "distinct (map k ?s)" using assms by simp
  have "k (?s ! j) < k (?s ! i)" if "i < j" "j < length ?s" for i j
  proof -
    have "k (?s ! j) \<le> k (?s ! i)" using sorted_sort_desc [of k rs] that by (simp add: sorted_wrt_iff_nth_less)
    moreover have "map k ?s ! i \<noteq> map k ?s ! j" using d that by (simp only: nth_eq_iff_index_eq length_map)
    ultimately show ?thesis using that by simp
  qed
  then show ?thesis by (simp add: descending_def sorted_wrt_iff_nth_less)
qed

lemma descending_unique:
  assumes "descending k xs" "descending k ys" "set xs = set ys"
  shows "xs = ys"
  using assms
proof (induction xs arbitrary: ys)
  case (Cons x xs)
  then obtain y ys' where ys: "ys = y # ys'" by (cases ys) auto
  have "x = y" using Cons.prems ys by (metis descending_simps(2) list.set_intros(1) order_less_asym set_ConsD)
  moreover have "set xs = set ys'"
    using Cons.prems ys \<open>x = y\<close> by (auto simp: set_eq_iff)
  ultimately show ?case using Cons ys by simp
qed simp

lemma sort_desc_eqI: "descending k xs \<Longrightarrow> set xs = set rs \<Longrightarrow> distinct (map k rs) \<Longrightarrow> sort_desc k rs = xs"
  by (rule descending_unique [of k]) (simp_all add: descending_sort_desc)

lemma filter_sort_desc:
  assumes "distinct (map k rs)"
  shows "filter p (sort_desc k rs) = sort_desc k (filter p rs)"
  by (rule descending_unique [of k])
    (use assms in \<open>simp_all add: descending_sort_desc descending_filter distinct_map_filter\<close>)

subsection \<open>A page and its successor\<close>

text \<open>Rows strictly before the last one of the first \<open>n\<close> are exactly the rest.\<close>

lemma rest_after_page:
  assumes "descending k rs" "0 < n" "n \<le> length rs"
  shows "filter (\<lambda>r. k r < k (last (take n rs))) rs = drop n rs"
proof -
  obtain us x where p: "take n rs = us @ [x]"
    using assms(2,3) by (metis append_butlast_last_id le_zero_eq list.size(3) not_less take_eq_Nil)
  have "descending k ((us @ [x]) @ drop n rs)" using assms(1) p by (metis append_take_drop_id)
  then have "filter (\<lambda>r. k r < k x) ((us @ [x]) @ drop n rs) = drop n rs"
    by (auto simp: descending_append filter_empty_conv not_less less_imp_le)
  then show ?thesis using p by (metis append_take_drop_id last_snoc)
qed

subsection \<open>Merging pages\<close>

lemma take_filter_prefix:
  assumes "\<forall>x\<in>set (take n rs). p x"
  shows "take n (filter p rs) = take n rs"
proof -
  have "filter p rs = take n rs @ filter p (drop n rs)"
    using assms by (metis append_take_drop_id filter_True filter_append)
  then show ?thesis by (cases "n \<le> length rs") simp_all
qed

text \<open>Of one source, only its first \<open>n\<close> rows can be among the first \<open>n\<close> of the merge.\<close>

lemma merge_prefix:
  assumes "descending k xs" "distinct (map k (xs @ ys))"
  shows "take n (sort_desc k (xs @ ys)) = take n (sort_desc k (take n xs @ ys))"
proof (cases "n < length xs")
  case True
  let ?T = "sort_desc k (xs @ ys)" and ?v = "set (drop n xs)"
  have desc: "descending k ?T" by (rule descending_sort_desc [OF assms(2)])
  have dv: "\<forall>u\<in>set (take n xs). \<forall>v\<in>?v. k v < k u"
    using assms(1) descending_append [of k "take n xs" "drop n xs"] by simp
  have dx: "distinct (map k xs)" and dy: "k ` set xs \<inter> k ` set ys = {}" using assms(2) by auto
  have keep: "x \<notin> ?v" if x: "x \<in> set (take n ?T)" for x
  proof
    assume "x \<in> ?v"
    then have above: "\<forall>u\<in>set (take n xs). k x < k u" using dv by blast
    from x obtain i where i: "i < n" "i < length ?T" "x = ?T ! i" by (auto simp: in_set_conv_nth)
    have "set (take n xs) \<subseteq> set (take i ?T)"
    proof
      fix u assume u: "u \<in> set (take n xs)"
      then have "u \<in> set ?T" by (auto dest: in_set_takeD)
      then obtain j where j: "j < length ?T" "u = ?T ! j" by (metis in_set_conv_nth)
      have "\<not> i \<le> j"
      proof
        assume "i \<le> j"
        then have "k u \<le> k x" using desc i j by (cases "i = j") (auto simp: descending_def sorted_wrt_iff_nth_less less_imp_le)
        with above u show False by force
      qed
      then show "u \<in> set (take i ?T)" using j by (auto simp: in_set_conv_nth intro!: exI [of _ j])
    qed
    then have "card (set (take n xs)) \<le> i" by (metis List.finite_set card_length card_mono le_trans length_take min.cobounded2)
    moreover have "card (set (take n xs)) = n"
      using True distinct_card [of "take n xs"] dx by (simp add: distinct_map)
    ultimately show False using i(1) by simp
  qed
  have "filter (\<lambda>x. x \<notin> ?v) ?T = sort_desc k (take n xs @ ys)"
  proof (rule sort_desc_eqI [symmetric])
    show "descending k (filter (\<lambda>x. x \<notin> ?v) ?T)" by (rule descending_filter [OF desc])
    have "x \<notin> ?v" if "x \<in> set (take n xs)" for x using dv that by blast
    moreover have "x \<notin> ?v" if "x \<in> set ys" for x using dy that by (auto dest: in_set_dropD)
    moreover have "set xs = set (take n xs) \<union> ?v" by (metis append_take_drop_id set_append)
    ultimately show "set (filter (\<lambda>x. x \<notin> ?v) ?T) = set (take n xs @ ys)" by auto
    show "distinct (map k (take n xs @ ys))"
    proof -
      have "distinct (map k (take n xs))" using dx by (simp add: take_map [symmetric])
      then show ?thesis using assms(2) dy by (auto dest: in_set_takeD)
    qed
  qed
  then show ?thesis using take_filter_prefix [of n ?T "\<lambda>x. x \<notin> ?v"] keep by simp
qed simp

lemma sort_desc_set:
  assumes "distinct (map k xs)" "distinct (map k ys)" "set xs = set ys"
  shows "sort_desc k xs = sort_desc k ys"
  using assms by (intro sort_desc_eqI) (simp_all add: descending_sort_desc)

lemma take_sort_desc_distinct:
  assumes "distinct (map k xs)"
  shows "distinct (map k (take n (sort_desc k xs)))"
  using assms by (simp add: take_map [symmetric])

lemma distinct_keys_subset:
  assumes "distinct (map k (xs @ ys))" "distinct (map k xs')" "distinct (map k ys')" "set xs' \<subseteq> set xs" "set ys' \<subseteq> set ys"
  shows "distinct (map k (xs' @ ys'))"
proof -
  have "k ` set xs' \<subseteq> k ` set xs" "k ` set ys' \<subseteq> k ` set ys" using assms(4,5) by (simp_all add: image_mono)
  moreover have "k ` set xs \<inter> k ` set ys = {}" using assms(1) by simp
  ultimately have "k ` set xs' \<inter> k ` set ys' = {}" by blast
  with assms(2,3) show ?thesis by simp
qed

lemma set_take_sort_desc: "set (take n (sort_desc k xs)) \<subseteq> set xs"
  by (auto dest: in_set_takeD)

text \<open>The page of a merge is the merge of the pages.\<close>

lemma merge_pages:
  assumes "distinct (map k (xs @ ys))"
  shows "take n (sort_desc k (take n (sort_desc k xs) @ ys)) = take n (sort_desc k (xs @ ys))"
proof -
  have d: "distinct (map k (sort_desc k xs @ ys))" using assms by auto
  have "take n (sort_desc k (sort_desc k xs @ ys)) = take n (sort_desc k (take n (sort_desc k xs) @ ys))"
    by (rule merge_prefix) (use assms d in \<open>simp_all add: descending_sort_desc\<close>)
  moreover have "sort_desc k (sort_desc k xs @ ys) = sort_desc k (xs @ ys)"
    by (rule sort_desc_set [OF d assms]) simp
  ultimately show ?thesis by simp
qed

lemma sort_desc_append_commute:
  assumes "distinct (map k (xs @ ys))"
  shows "sort_desc k (xs @ ys) = sort_desc k (ys @ xs)"
  using assms by (intro sort_desc_set) auto

lemma merge_two_pages:
  assumes "distinct (map k (xs @ ys))"
  shows "take n (sort_desc k (take n (sort_desc k xs) @ take n (sort_desc k ys))) = take n (sort_desc k (xs @ ys))"
proof -
  let ?x = "take n (sort_desc k xs)" and ?y = "take n (sort_desc k ys)"
  have p: "distinct (map k ?x)" "distinct (map k ?y)" "distinct (map k ys)"
    using assms by (auto intro: take_sort_desc_distinct)
  have d: "distinct (map k (?x @ ys))" and d': "distinct (map k (?x @ ?y))"
    using p set_take_sort_desc [of n k] by (auto intro!: distinct_keys_subset [OF assms] simp del: map_append)
  have "sort_desc k (?x @ ?y) = sort_desc k (?y @ ?x)" by (rule sort_desc_append_commute [OF d'])
  then have "take n (sort_desc k (?x @ ?y)) = take n (sort_desc k (?y @ ?x))" by simp
  also have "\<dots> = take n (sort_desc k (ys @ ?x))" by (rule merge_pages) (use d in auto)
  also have "sort_desc k (ys @ ?x) = sort_desc k (?x @ ys)" using sort_desc_append_commute [OF d] by simp
  also have "take n (sort_desc k (?x @ ys)) = take n (sort_desc k (xs @ ys))" by (rule merge_pages [OF assms])
  finally show ?thesis .
qed

lemma merge_three_pages:
  assumes "distinct (map k (xs @ ys @ zs))"
  shows "take n (sort_desc k (take n (sort_desc k xs) @ take n (sort_desc k ys) @ take n (sort_desc k zs))) =
    take n (sort_desc k (xs @ ys @ zs))"
proof -
  let ?y = "take n (sort_desc k ys)" and ?z = "take n (sort_desc k zs)"
  have dyz: "distinct (map k (ys @ zs))" and dx: "distinct (map k xs)" using assms by simp_all
  have p: "distinct (map k ?y)" "distinct (map k ?z)" using dyz by (auto intro: take_sort_desc_distinct)
  have d1: "distinct (map k (?y @ ?z))"
    by (rule distinct_keys_subset [OF dyz p]) (rule set_take_sort_desc)+
  have "set (?y @ ?z) \<subseteq> set (ys @ zs)" using set_take_sort_desc [of n k ys] set_take_sort_desc [of n k zs] by auto
  then have d: "distinct (map k (xs @ ?y @ ?z))" by (intro distinct_keys_subset [OF assms dx d1]) simp_all
  have "take n (sort_desc k (take n (sort_desc k xs) @ ?y @ ?z)) = take n (sort_desc k (xs @ ?y @ ?z))"
    by (rule merge_pages [OF d])
  also have "\<dots> = take n (sort_desc k (take n (sort_desc k xs) @ take n (sort_desc k (?y @ ?z))))"
    by (rule merge_two_pages [symmetric, OF d])
  also have "take n (sort_desc k (?y @ ?z)) = take n (sort_desc k (ys @ zs))"
    by (rule merge_two_pages [OF dyz])
  also have "take n (sort_desc k (take n (sort_desc k xs) @ take n (sort_desc k (ys @ zs)))) = take n (sort_desc k (xs @ ys @ zs))"
    by (rule merge_two_pages [OF assms])
  finally show ?thesis .
qed

subsection \<open>Rows under another name\<close>

lemma insort_key_map: "insort_key k (f x) (map f xs) = map f (insort_key (k \<circ> f) x xs)"
  by (induction xs) simp_all

lemma sort_desc_map: "sort_desc k (map f xs) = map f (sort_desc (k \<circ> f) xs)"
proof -
  have "sort_key k (map f xs) = map f (sort_key (k \<circ> f) xs)"
    by (induction xs) (simp_all add: insort_key_map comp_def)
  then show ?thesis by (simp add: sort_desc_def rev_map)
qed

end
