(* ===== verification/Cursor.thy ===== *)
theory Cursor
  imports Transfers_DB
begin

text \<open>
  services/transfers-svc/cursor.go: the opaque token that continues a page. Base64 of encoding/base64's
  \<open>RawURLEncoding\<close> is written out; the JSON text of a \<open>pageCursor\<close> (encoding/json with the text form of
  \<open>time.Time\<close>) is a pair of functions of the model, \<open>json_codec\<close>.
\<close>

subsection \<open>Base64\<close>

text \<open>The URL alphabet: the value of a character, and the character of a value below 64.\<close>

definition b64_char :: "nat \<Rightarrow> char" where
  "b64_char v =
     (if v < 26 then char_of (65 + v)
      else if v < 52 then char_of (97 + (v - 26))
      else if v < 62 then char_of (48 + (v - 52))
      else if v = 62 then CHR ''-'' else CHR ''_'')"

definition b64_val :: "char \<Rightarrow> nat option" where
  "b64_val c =
     (let n = of_char c in
      if 65 \<le> n \<and> n \<le> 90 then Some (n - 65)
      else if 97 \<le> n \<and> n \<le> 122 then Some (n - 97 + 26)
      else if 48 \<le> n \<and> n \<le> 57 then Some (n - 48 + 52)
      else if c = CHR ''-'' then Some 62
      else if c = CHR ''_'' then Some 63
      else None)"

text \<open>Three bytes give four characters; without padding, one rest byte gives two and two rest bytes three.\<close>

fun EncodeToString :: "char list \<Rightarrow> string" where
  "EncodeToString (a # b # c # rest) =
     (let x = of_char a; y = of_char b; z = of_char c in
      b64_char (x div 4) # b64_char (x mod 4 * 16 + y div 16) # b64_char (y mod 16 * 4 + z div 64) # b64_char (z mod 64)
        # EncodeToString rest)"
| "EncodeToString [a, b] =
     (let x = of_char a; y = of_char b in
      [b64_char (x div 4), b64_char (x mod 4 * 16 + y div 16), b64_char (y mod 16 * 4)])"
| "EncodeToString [a] = (let x = of_char a in [b64_char (x div 4), b64_char (x mod 4 * 16)])"
| "EncodeToString [] = []"

text \<open>
  The values of the characters, in groups of four; the decoder is not strict, so bits beyond the last
  byte are ignored, and a single rest character is an error.
\<close>

fun decode_values :: "nat list \<Rightarrow> char list option" where
  "decode_values (p # q # r # s # rest) =
     map_option (\<lambda>ds. char_of (p * 4 + q div 16) # char_of (q mod 16 * 16 + r div 4) # char_of (r mod 4 * 64 + s) # ds)
       (decode_values rest)"
| "decode_values [p, q, r] = Some [char_of (p * 4 + q div 16), char_of (q mod 16 * 16 + r div 4)]"
| "decode_values [p, q] = Some [char_of (p * 4 + q div 16)]"
| "decode_values [p] = None"
| "decode_values [] = Some []"

text \<open>Line feeds and carriage returns in the text are skipped; any other character outside the alphabet is an error.\<close>

definition DecodeString :: "string \<Rightarrow> char list option" where
  "DecodeString s =
     (let vs = map b64_val (filter (\<lambda>c. c \<notin> {CHR 0x0A, CHR 0x0D}) s) in
      if None \<in> set vs then None else decode_values (map the vs))"

subsection \<open>Cursors\<close>

record pageCursor =
  pc_CreatedAt :: int
  pc_ID :: string

text \<open>Unmarshalling into a \<open>pageCursor\<close>: a missing field keeps its zero value. \<open>zero_time\<close> is the year 1.\<close>

record json_codec =
  json_Marshal :: "pageCursor \<Rightarrow> char list"
  json_Unmarshal :: "char list \<Rightarrow> pageCursor option"

definition zero_time :: int where
  "zero_time = - 62135596800000000"

definition encodeCursor :: "json_codec \<Rightarrow> pageCursor \<Rightarrow> string" where
  "encodeCursor j c = EncodeToString (json_Marshal j c)"

definition decodeCursor :: "json_codec \<Rightarrow> string \<Rightarrow> svc_error + pageCursor" where
  "decodeCursor j s =
     (case DecodeString s of
        None \<Rightarrow> Inl ErrInvalidCursor
      | Some raw \<Rightarrow>
          (case json_Unmarshal j raw of
             None \<Rightarrow> Inl ErrInvalidCursor
           | Some c \<Rightarrow>
               if pc_ID c = '''' \<or> pc_CreatedAt c = zero_time then Inl ErrInvalidCursor else Inr c))"

subsection \<open>Round trip\<close>

lemma b64_char_cases:
  assumes "v < 64"
  shows "(of_char (b64_char v) :: nat) =
    (if v < 26 then 65 + v else if v < 52 then 71 + v else if v < 62 then v - 4 else if v = 62 then 45 else 95)"
  using assms by (auto simp: b64_char_def mod_less)

lemma b64_val_char [simp]: "v < 64 \<Longrightarrow> b64_val (b64_char v) = Some v"
  using b64_char_cases [of v] by (auto simp: b64_val_def Let_def b64_char_def split: if_splits)

lemma b64_char_not_newline:
  assumes "v < 64"
  shows "b64_char v \<noteq> CHR 0x0A" "b64_char v \<noteq> CHR 0x0D"
  using b64_char_cases [OF assms] by (auto split: if_splits)

text \<open>The six-bit values of a list of bytes.\<close>

fun sextets :: "char list \<Rightarrow> nat list" where
  "sextets (a # b # c # rest) =
     (let x = of_char a; y = of_char b; z = of_char c in
      (x div 4) # (x mod 4 * 16 + y div 16) # (y mod 16 * 4 + z div 64) # (z mod 64) # sextets rest)"
| "sextets [a, b] = (let x = of_char a; y = of_char b in [x div 4, x mod 4 * 16 + y div 16, y mod 16 * 4])"
| "sextets [a] = (let x = of_char a in [x div 4, x mod 4 * 16])"
| "sextets [] = []"

lemma EncodeToString_sextets: "EncodeToString bs = map b64_char (sextets bs)"
  by (induction bs rule: sextets.induct) (simp_all add: Let_def)

lemma byte_parts [simp]:
  "(of_char (c :: char) :: nat) div 4 < 64" "(of_char c :: nat) div 16 < 16" "(of_char c :: nat) div 64 < 4"
  using nat_of_char_less_256 [of c] by linarith+

lemma sextet_bounds [simp]:
  "(of_char (c :: char) :: nat) mod 4 * 16 + of_char (d :: char) div 16 < 64"
  "(of_char c :: nat) mod 16 * 4 + of_char d div 64 < 64"
proof -
  have "(of_char c :: nat) mod 4 < 4" "(of_char c :: nat) mod 16 < 16" by simp_all
  with byte_parts(2,3) [of d] show "(of_char c :: nat) mod 4 * 16 + of_char d div 16 < 64"
    "(of_char c :: nat) mod 16 * 4 + of_char d div 64 < 64" by linarith+
qed

lemma sextets_small: "\<forall>v\<in>set (sextets bs). v < 64"
  by (induction bs rule: sextets.induct) (simp_all add: Let_def)

lemma decode_sextets: "decode_values (sextets bs) = Some bs"
  by (induction bs rule: sextets.induct) (simp_all add: Let_def)

lemma DecodeString_EncodeToString: "DecodeString (EncodeToString bs) = Some bs"
proof -
  have small: "v < 64" if "v \<in> set (sextets bs)" for v using sextets_small that by blast
  then have "filter (\<lambda>c. c \<notin> {CHR 0x0A, CHR 0x0D}) (map b64_char (sextets bs)) = map b64_char (sextets bs)"
    by (auto simp: filter_id_conv b64_char_not_newline)
  moreover have "map b64_val (map b64_char (sextets bs)) = map Some (sextets bs)"
    using small by simp
  ultimately show ?thesis
    by (simp add: DecodeString_def EncodeToString_sextets Let_def decode_sextets comp_def del: map_map)
      (simp add: comp_def decode_sextets image_iff)
qed

text \<open>
  A cursor survives its journey through the client: decoding the token of a cursor that names a row gives
  the cursor back, when the JSON of a cursor is read back as that cursor.
\<close>

theorem cursor_roundtrip:
  assumes "json_Unmarshal j (json_Marshal j c) = Some c" "pc_ID c \<noteq> ''''" "pc_CreatedAt c \<noteq> zero_time"
  shows "decodeCursor j (encodeCursor j c) = Inr c"
  using assms by (simp add: decodeCursor_def encodeCursor_def DecodeString_EncodeToString)

theorem cursor_roundtrip_witness:
  "decodeCursor \<lparr>json_Marshal = (\<lambda>c. pc_ID c), json_Unmarshal = (\<lambda>s. Some \<lparr>pc_CreatedAt = 5, pc_ID = s\<rparr>)\<rparr> ''cTE'' = Inr \<lparr>pc_CreatedAt = 5, pc_ID = ''q1''\<rparr>"
proof -
  let ?j = "\<lparr>json_Marshal = (\<lambda>c. pc_ID c), json_Unmarshal = (\<lambda>s. Some \<lparr>pc_CreatedAt = 5, pc_ID = s\<rparr>)\<rparr>" and ?c = "\<lparr>pc_CreatedAt = 5, pc_ID = ''q1''\<rparr>"
  have "encodeCursor ?j ?c = ''cTE''" by code_simp
  with cursor_roundtrip [of ?j ?c] show ?thesis by (simp add: zero_time_def)
qed

end
