(* ===== verification/History.thy ===== *)
theory History
  imports Paging Cursor Transfers_Properties
begin

text \<open>
  services/transfers-svc/history.go and the history query of transfer.go: a page of each kind of operation,
  and their merge into one feed. Postgres compares uuids byte by byte, which is the order of their canonical
  text. Limits are at most 100 (\<open>parseHistoryQuery\<close>), so \<open>limit + 1\<close> never leaves an int32. Where rows have
  the same key, the order is Postgres' and \<open>sort.Slice\<close>'s choice; here it is the table's reversed.
\<close>

subsection \<open>The queries\<close>

type_synonym position = "int \<times> string"

definition transfer_key :: "Transfer \<Rightarrow> position" where "transfer_key t = (t_CreatedAt t, t_ID t)"
definition deposit_key :: "Deposit \<Rightarrow> position" where "deposit_key d = (d_CreatedAt d, d_ID d)"
definition withdrawal_key :: "Withdrawal \<Rightarrow> position" where "withdrawal_key w = (w_CreatedAt w, w_ID w)"

text \<open>\<open>WHERE p AND (created_at, id) < before ORDER BY created_at DESC, id DESC LIMIT n\<close>, the middle part only with a cursor.\<close>

definition earlier :: "position option \<Rightarrow> position \<Rightarrow> bool" where
  "earlier before k = (case before of None \<Rightarrow> True | Some b \<Rightarrow> k < b)"

definition select_page :: "('r \<Rightarrow> position) \<Rightarrow> position option \<Rightarrow> nat \<Rightarrow> 'r list \<Rightarrow> 'r list" where
  "select_page k before n rs = take n (sort_desc k (filter (\<lambda>r. earlier before (k r)) rs))"

definition transferHistoryQuery :: "transfers_db \<Rightarrow> string \<Rightarrow> nat \<Rightarrow> position option \<Rightarrow> Transfer list" where
  "transferHistoryQuery db a n before =
     take n (sort_desc transfer_key
       (select_page transfer_key before n (filter (\<lambda>t. t_SenderAccountID t = a) (transfers db)) @
        select_page transfer_key before n (filter (\<lambda>t. t_RecipientAccountID t = a \<and> t_Status t = ''completed'') (transfers db))))"

definition depositHistoryQuery :: "transfers_db \<Rightarrow> string \<Rightarrow> nat \<Rightarrow> position option \<Rightarrow> Deposit list" where
  "depositHistoryQuery db a n before = select_page deposit_key before n (filter (\<lambda>d. d_AccountID d = a) (deposits db))"

definition withdrawalHistoryQuery :: "transfers_db \<Rightarrow> string \<Rightarrow> nat \<Rightarrow> position option \<Rightarrow> Withdrawal list" where
  "withdrawalHistoryQuery db a n before = select_page withdrawal_key before n (filter (\<lambda>w. w_AccountID w = a) (withdrawals db))"

subsection \<open>Pages of one kind\<close>

text \<open>
  The values bound to the statement: the account and the cursor's id are uuids, or Postgres refuses them
  (22P02). \<open>early\<close> says whether pgx reports that refusal as the error of \<open>Query\<close> or only as \<open>rows.Err()\<close>; only
  the former is looked at for the code, and only when there is a cursor.
\<close>

definition bound_position :: "runtime \<Rightarrow> pageCursor option \<Rightarrow> position option option" where
  "bound_position rt cursor =
     (case cursor of
        None \<Rightarrow> Some None
      | Some c \<Rightarrow> map_option (\<lambda>u. Some (pc_CreatedAt c, u)) (uuid_in rt (pc_ID c)))"

definition history_page ::
  "(string \<Rightarrow> nat \<Rightarrow> position option \<Rightarrow> 'r list) \<Rightarrow> runtime \<Rightarrow> bool \<Rightarrow> bool \<Rightarrow> string \<Rightarrow> nat \<Rightarrow> pageCursor option \<Rightarrow> svc_error + 'r list \<times> bool" where
  "history_page query rt fail early accountID limit cursor =
     (if fail then Inl ErrStatement
      else case (uuid_in rt accountID, bound_position rt cursor) of
        (Some a, Some before) \<Rightarrow>
          (let rows = query a (limit + 1) before; hasMore = limit < length rows in
           Inr (if hasMore then take limit rows else rows, hasMore))
      | _ \<Rightarrow> Inl (if cursor \<noteq> None \<and> early then ErrInvalidCursor else ErrStatement))"

definition getTransferHistoryPage ::
  "runtime \<Rightarrow> env \<Rightarrow> bool \<Rightarrow> transfers_db \<Rightarrow> string \<Rightarrow> nat \<Rightarrow> pageCursor option \<Rightarrow> svc_error + Transfer list \<times> bool" where
  "getTransferHistoryPage rt e early db accountID limit cursor =
     history_page (transferHistoryQuery db) rt (fails e 0) early accountID limit cursor"

definition getDepositHistoryPage ::
  "runtime \<Rightarrow> env \<Rightarrow> bool \<Rightarrow> transfers_db \<Rightarrow> string \<Rightarrow> nat \<Rightarrow> pageCursor option \<Rightarrow> svc_error + Deposit list \<times> bool" where
  "getDepositHistoryPage rt e early db accountID limit cursor =
     history_page (depositHistoryQuery db) rt (fails e 1) early accountID limit cursor"

definition getWithdrawalHistoryPage ::
  "runtime \<Rightarrow> env \<Rightarrow> bool \<Rightarrow> transfers_db \<Rightarrow> string \<Rightarrow> nat \<Rightarrow> pageCursor option \<Rightarrow> svc_error + Withdrawal list \<times> bool" where
  "getWithdrawalHistoryPage rt e early db accountID limit cursor =
     history_page (withdrawalHistoryQuery db) rt (fails e 2) early accountID limit cursor"

subsection \<open>The feed\<close>

record historyEntry =
  he_Type :: string
  he_ID :: string
  he_Amount :: int
  he_Status :: string
  he_FailureReason :: "string option"
  he_CreatedAt :: int
  he_UpdatedAt :: int
  he_Direction :: string
  he_CounterpartyIban :: string

definition history_key :: "historyEntry \<Rightarrow> position" where "history_key h = (he_CreatedAt h, he_ID h)"

definition counterparty :: "string \<Rightarrow> Transfer \<Rightarrow> string" where
  "counterparty accountID t = (if t_SenderAccountID t = accountID then t_RecipientAccountID t else t_SenderAccountID t)"

text \<open>The order of Go's map is open: \<open>remdups\<close> stands for some order of the distinct ids. A later account overwrites an earlier one.\<close>

definition resolveCounterpartyIbans ::
  "'a accounts_client \<Rightarrow> string \<Rightarrow> Transfer list \<Rightarrow> 'a \<Rightarrow> 'a \<times> (svc_error + (string \<rightharpoonup> string))" where
  "resolveCounterpartyIbans ac accountID ts s =
     (let counterpartyIDs = remdups (map (counterparty accountID) ts) in
      if counterpartyIDs = [] then (s, Inr Map.empty)
      else case ac_ResolveAccountsByIds ac 0 counterpartyIDs s of
        (s', Inl (c, m)) \<Rightarrow> (s', Inl (ErrCall c))
      | (s', Inr accs) \<Rightarrow> (s', Inr (foldl (\<lambda>m (i, x). m(i \<mapsto> x)) Map.empty accs)))"

definition transfer_entry :: "(string \<rightharpoonup> string) \<Rightarrow> string \<Rightarrow> Transfer \<Rightarrow> historyEntry" where
  "transfer_entry ibans accountID t =
     \<lparr>he_Type = ''transfer'', he_ID = t_ID t, he_Amount = t_Amount t, he_Status = t_Status t, he_FailureReason = t_FailureReason t,
      he_CreatedAt = t_CreatedAt t, he_UpdatedAt = t_UpdatedAt t,
      he_Direction = (if t_SenderAccountID t = accountID then ''outgoing'' else ''incoming''),
      he_CounterpartyIban = (case ibans (counterparty accountID t) of Some x \<Rightarrow> x | None \<Rightarrow> '''')\<rparr>"

definition deposit_entry :: "Deposit \<Rightarrow> historyEntry" where
  "deposit_entry d =
     \<lparr>he_Type = ''deposit'', he_ID = d_ID d, he_Amount = d_Amount d, he_Status = d_Status d, he_FailureReason = d_FailureReason d,
      he_CreatedAt = d_CreatedAt d, he_UpdatedAt = d_UpdatedAt d, he_Direction = '''', he_CounterpartyIban = ''''\<rparr>"

definition withdrawal_entry :: "Withdrawal \<Rightarrow> historyEntry" where
  "withdrawal_entry w =
     \<lparr>he_Type = ''withdrawal'', he_ID = w_ID w, he_Amount = w_Amount w, he_Status = w_Status w, he_FailureReason = w_FailureReason w,
      he_CreatedAt = w_CreatedAt w, he_UpdatedAt = w_UpdatedAt w, he_Direction = '''', he_CounterpartyIban = ''''\<rparr>"

definition getOperationHistoryPage ::
  "runtime \<Rightarrow> env \<Rightarrow> bool \<Rightarrow> 'a accounts_client \<Rightarrow> transfers_db \<Rightarrow> string \<Rightarrow> nat \<Rightarrow> pageCursor option \<Rightarrow> 'a
   \<Rightarrow> 'a \<times> (svc_error + historyEntry list \<times> bool)" where
  "getOperationHistoryPage rt e early ac db accountID limit cursor s =
     (case getTransferHistoryPage rt e early db accountID limit cursor of
        Inl err \<Rightarrow> (s, Inl err)
      | Inr (ts, transfersMore) \<Rightarrow>
     (case getDepositHistoryPage rt e early db accountID limit cursor of
        Inl err \<Rightarrow> (s, Inl err)
      | Inr (ds, depositsMore) \<Rightarrow>
     (case getWithdrawalHistoryPage rt e early db accountID limit cursor of
        Inl err \<Rightarrow> (s, Inl err)
      | Inr (ws, withdrawalsMore) \<Rightarrow>
     (case resolveCounterpartyIbans ac accountID ts s of
        (s', Inl err) \<Rightarrow> (s', Inl err)
      | (s', Inr counterpartyIbans) \<Rightarrow>
          (let merged = sort_desc history_key
             (map (transfer_entry counterpartyIbans accountID) ts @ map deposit_entry ds @ map withdrawal_entry ws) in
           (s', Inr (if limit < length merged then take limit merged else merged,
                     limit < length merged \<or> transfersMore \<or> depositsMore \<or> withdrawalsMore)))))))"

text \<open>The cursor that \<open>listTransfersHandler\<close> hands out with a page: the position of its last entry, when there is more.\<close>

definition next_cursor :: "historyEntry list \<Rightarrow> bool \<Rightarrow> pageCursor option" where
  "next_cursor page hasMore =
     (if hasMore \<and> 0 < length page then Some \<lparr>pc_CreatedAt = he_CreatedAt (last page), pc_ID = he_ID (last page)\<rparr> else None)"

end
