(* ===== verification/History_Properties.thy ===== *)
theory History_Properties
  imports History
begin

text \<open>
  The feed is exact: a page of the merge is the corresponding part of all the operations an account may see,
  and following the cursors reads every operation once, newest first.
\<close>

subsection \<open>What an account may see\<close>

definition visible_transfers :: "transfers_db \<Rightarrow> string \<Rightarrow> Transfer list" where
  "visible_transfers db a =
     filter (\<lambda>t. t_SenderAccountID t = a \<or> t_RecipientAccountID t = a \<and> t_Status t = ''completed'') (transfers db)"

definition operations :: "(string \<rightharpoonup> string) \<Rightarrow> transfers_db \<Rightarrow> string \<Rightarrow> historyEntry list" where
  "operations ibans db a =
     map (transfer_entry ibans a) (visible_transfers db a) @
     map deposit_entry (filter (\<lambda>d. d_AccountID d = a) (deposits db)) @
     map withdrawal_entry (filter (\<lambda>w. w_AccountID w = a) (withdrawals db))"

text \<open>The feed from a position on, newest first.\<close>

definition feed :: "(string \<rightharpoonup> string) \<Rightarrow> transfers_db \<Rightarrow> string \<Rightarrow> position option \<Rightarrow> historyEntry list" where
  "feed ibans db a before = filter (\<lambda>h. earlier before (history_key h)) (sort_desc history_key (operations ibans db a))"

text \<open>Ids are unique across the three tables, and no transfer goes to its own sender.\<close>

definition history_ok :: "transfers_db \<Rightarrow> bool" where
  "history_ok db \<longleftrightarrow> distinct (map t_ID (transfers db) @ map d_ID (deposits db) @ map w_ID (withdrawals db)) \<and>
     (\<forall>t\<in>set (transfers db). t_SenderAccountID t \<noteq> t_RecipientAccountID t)"

lemma key_defs [simp]:
  "history_key (transfer_entry ibans a t) = transfer_key t" "history_key (deposit_entry d) = deposit_key d"
  "history_key (withdrawal_entry w) = withdrawal_key w"
  "he_ID (transfer_entry ibans a t) = t_ID t" "he_ID (deposit_entry d) = d_ID d" "he_ID (withdrawal_entry w) = w_ID w"
  by (simp_all add: history_key_def transfer_entry_def deposit_entry_def withdrawal_entry_def transfer_key_def deposit_key_def withdrawal_key_def)

lemma distinct_by_id:
  assumes "distinct (map i xs)" "\<And>x y. k x = k y \<Longrightarrow> i x = i y"
  shows "distinct (map k xs)"
  using assms unfolding distinct_map inj_on_def by blast

lemma operations_distinct:
  assumes "history_ok db"
  shows "distinct (map history_key (operations ibans db a))"
proof -
  let ?t = "map t_ID (visible_transfers db a)" and ?d = "map d_ID (filter (\<lambda>d. d_AccountID d = a) (deposits db))"
    and ?w = "map w_ID (filter (\<lambda>w. w_AccountID w = a) (withdrawals db))"
  have ids: "distinct (map t_ID (transfers db))" "distinct (map d_ID (deposits db))" "distinct (map w_ID (withdrawals db))"
    "set (map t_ID (transfers db)) \<inter> (set (map d_ID (deposits db)) \<union> set (map w_ID (withdrawals db))) = {}"
    "set (map d_ID (deposits db)) \<inter> set (map w_ID (withdrawals db)) = {}"
    using assms by (simp_all add: history_ok_def)
  have sub: "set ?t \<subseteq> set (map t_ID (transfers db))" "set ?d \<subseteq> set (map d_ID (deposits db))" "set ?w \<subseteq> set (map w_ID (withdrawals db))"
    by (auto simp: visible_transfers_def)
  have "distinct ?t" "distinct ?d" "distinct ?w"
    using ids(1-3) by (simp_all add: visible_transfers_def distinct_map_filter)
  moreover have "set ?t \<inter> (set ?d \<union> set ?w) = {}" "set ?d \<inter> set ?w = {}" using ids(4,5) sub by blast+
  ultimately have "distinct (?t @ ?d @ ?w)" by (simp only: distinct_append set_append)
  then have "distinct (map he_ID (operations ibans db a))"
    by (simp only: operations_def map_append map_map comp_def key_defs)
  then show ?thesis by (rule distinct_by_id) (simp add: history_key_def)
qed

lemma transfers_distinct:
  assumes "history_ok db"
  shows "distinct (map transfer_key (transfers db))"
proof (rule distinct_by_id)
  show "distinct (map t_ID (transfers db))" using assms by (simp add: history_ok_def)
qed (simp add: transfer_key_def)

subsection \<open>Pages of one kind\<close>

lemma select_page_filter:
  "select_page k before n rs = take n (sort_desc k (filter (\<lambda>r. earlier before (k r)) rs))"
  by (simp add: select_page_def)

text \<open>The UNION of two limited branches is a page of the visible transfers.\<close>

lemma transferHistoryQuery_exact:
  assumes "history_ok db"
  shows "transferHistoryQuery db a n before = select_page transfer_key before n (visible_transfers db a)"
proof -
  let ?e = "\<lambda>t. earlier before (transfer_key t)"
  let ?S = "filter ?e (filter (\<lambda>t. t_SenderAccountID t = a) (transfers db))"
  let ?R = "filter ?e (filter (\<lambda>t. t_RecipientAccountID t = a \<and> t_Status t = ''completed'') (transfers db))"
  note dt = transfers_distinct [OF assms]
  have inj: "inj_on transfer_key (set (transfers db))" using dt by (simp add: distinct_map)
  have "set ?S \<inter> set ?R = {}" using assms by (auto simp: history_ok_def)
  moreover have "transfer_key ` set ?S \<inter> transfer_key ` set ?R = transfer_key ` (set ?S \<inter> set ?R)"
    by (rule inj_on_image_Int [OF inj, symmetric]) auto
  ultimately have d: "distinct (map transfer_key (?S @ ?R))" using dt by (simp add: distinct_map_filter)
  have "sort_desc transfer_key (?S @ ?R) = sort_desc transfer_key (filter ?e (visible_transfers db a))"
    by (rule sort_desc_set [OF d]) (use dt in \<open>auto simp: visible_transfers_def distinct_map_filter\<close>)
  then show ?thesis
    using merge_two_pages [OF d] by (simp only: transferHistoryQuery_def select_page_def)
qed

lemma history_page_Inr:
  assumes "history_page q rt fail early a limit cursor = Inr (rows, hasMore)" "uuid_in rt a = Some u" "bound_position rt cursor = Some before"
    and q: "q u (limit + 1) before = select_page k before (limit + 1) rs"
  shows "rows = select_page k before limit rs" "hasMore \<longleftrightarrow> limit < length (filter (\<lambda>r. earlier before (k r)) rs)"
  using assms(1-3) by (auto simp: history_page_def q [simplified] select_page_def Let_def min_def split: if_splits)

subsection \<open>Pages of the feed\<close>

lemma map_select_page:
  assumes "\<And>r. h (f r) = k r"
  shows "map f (select_page k before n rs) = take n (sort_desc h (filter (\<lambda>x. earlier before (h x)) (map f rs)))"
proof -
  have "h \<circ> f = k" using assms by (simp add: fun_eq_iff)
  moreover have "filter (\<lambda>x. earlier before (h x)) (map f rs) = map f (filter (\<lambda>r. earlier before (k r)) rs)"
    by (simp add: filter_map comp_def assms)
  ultimately show ?thesis by (simp add: select_page_def sort_desc_map take_map)
qed

lemma length_merged:
  fixes n a b c :: nat
  shows "(n < min n a + (min n b + min n c) \<or> n < a \<or> n < b \<or> n < c) \<longleftrightarrow> n < a + (b + c)"
  by linarith

lemma feed_None: "feed ibans db a None = sort_desc history_key (operations ibans db a)"
  by (simp add: feed_def earlier_def)

lemma feed_sorted:
  assumes "history_ok db"
  shows "feed ibans db a before = sort_desc history_key (filter (\<lambda>h. earlier before (history_key h)) (operations ibans db a))"
  unfolding feed_def by (rule filter_sort_desc [OF operations_distinct [OF assms]])

lemma getOperationHistoryPage_exact:
  assumes "history_ok db" "uuid_in rt a = Some a" "bound_position rt cursor = Some before"
    and "getOperationHistoryPage rt e early ac db a limit cursor s = (s', Inr (page, hasMore))"
  shows "\<exists>ibans. page = take limit (feed ibans db a before) \<and> (hasMore \<longleftrightarrow> limit < length (feed ibans db a before))"
proof -
  from assms(4) obtain ts tm ds dm ws wm ibans where
    t: "getTransferHistoryPage rt e early db a limit cursor = Inr (ts, tm)" and
    d: "getDepositHistoryPage rt e early db a limit cursor = Inr (ds, dm)" and
    w: "getWithdrawalHistoryPage rt e early db a limit cursor = Inr (ws, wm)" and
    r: "resolveCounterpartyIbans ac a ts s = (s', Inr ibans)"
    by (simp add: getOperationHistoryPage_def Let_def split: sum.splits prod.splits)
  let ?merged = "sort_desc history_key (map (transfer_entry ibans a) ts @ map deposit_entry ds @ map withdrawal_entry ws)"
  have p0: "page = (if limit < length ?merged then take limit ?merged else ?merged)"
    and hasMore: "hasMore \<longleftrightarrow> limit < length ts + (length ds + length ws) \<or> tm \<or> dm \<or> wm"
    using assms(4) by (simp_all add: getOperationHistoryPage_def Let_def t d w r)
  have page: "page = take limit ?merged" unfolding p0 by simp
  let ?D = "filter (\<lambda>d. d_AccountID d = a) (deposits db)" and ?W = "filter (\<lambda>w. w_AccountID w = a) (withdrawals db)"
  let ?e = "\<lambda>h. earlier before (history_key h)"
  let ?T' = "filter ?e (map (transfer_entry ibans a) (visible_transfers db a))"
  let ?D' = "filter ?e (map deposit_entry ?D)" and ?W' = "filter ?e (map withdrawal_entry ?W)"
  note tp = history_page_Inr [OF t [unfolded getTransferHistoryPage_def] assms(2,3) transferHistoryQuery_exact [OF assms(1)]]
  note dp = history_page_Inr [OF d [unfolded getDepositHistoryPage_def] assms(2,3) depositHistoryQuery_def [of db a "limit + 1" before]]
  note wp = history_page_Inr [OF w [unfolded getWithdrawalHistoryPage_def] assms(2,3) withdrawalHistoryQuery_def [of db a "limit + 1" before]]
  have ops: "filter ?e (operations ibans db a) = ?T' @ ?D' @ ?W'" by (simp add: operations_def)
  have dist: "distinct (map history_key (?T' @ ?D' @ ?W'))"
    unfolding ops [symmetric] using operations_distinct [OF assms(1)] by (rule distinct_map_filter)
  have "page = take limit (sort_desc history_key (take limit (sort_desc history_key ?T') @ take limit (sort_desc history_key ?D') @
      take limit (sort_desc history_key ?W')))"
    unfolding page tp(1) dp(1) wp(1) by (simp only: map_select_page [where h = history_key] key_defs)
  also have "\<dots> = take limit (feed ibans db a before)"
    unfolding merge_three_pages [OF dist] by (simp add: feed_sorted [OF assms(1)] ops)
  finally have p: "page = take limit (feed ibans db a before)" .
  have len: "length (filter (\<lambda>r. earlier before (k r)) rs) = length (filter ?e (map f rs))"
    if "\<And>r. history_key (f r) = k r" for k f rs
    by (simp add: filter_map comp_def that)
  have "hasMore \<longleftrightarrow> limit < min limit (length ?T') + (min limit (length ?D') + min limit (length ?W')) \<or>
      limit < length ?T' \<or> limit < length ?D' \<or> limit < length ?W'"
    unfolding hasMore tp dp wp
    by (simp add: select_page_def min.commute len [of "transfer_entry ibans a"] len [of deposit_entry] len [of withdrawal_entry])
  also have "\<dots> \<longleftrightarrow> limit < length (feed ibans db a before)"
    unfolding length_merged by (simp add: feed_sorted [OF assms(1)] ops)
  finally show ?thesis using p by blast
qed

subsection \<open>Following the cursors\<close>

text \<open>A client that starts at a cursor and follows \<open>next_cursor\<close> for at most \<open>n\<close> pages; \<open>None\<close> when a page fails or there are more.\<close>

fun read_feed ::
  "(pageCursor option \<Rightarrow> 'a \<Rightarrow> 'a \<times> (svc_error + historyEntry list \<times> bool)) \<Rightarrow> nat \<Rightarrow> pageCursor option \<Rightarrow> 'a \<Rightarrow> historyEntry list option" where
  "read_feed get 0 cursor s = None"
| "read_feed get (Suc n) cursor s =
     (case get cursor s of
        (s', Inl err) \<Rightarrow> None
      | (s', Inr (page, hasMore)) \<Rightarrow>
          (case next_cursor page hasMore of
             None \<Rightarrow> Some page
           | Some c \<Rightarrow> map_option (\<lambda>rest. page @ rest) (read_feed get n (Some c) s')))"

definition without_iban :: "historyEntry \<Rightarrow> historyEntry" where
  "without_iban h = h\<lparr>he_CounterpartyIban := ''''\<rparr>"

lemma without_iban_key [simp]: "history_key (without_iban h) = history_key h"
  by (simp add: history_key_def without_iban_def)

lemma operations_without_iban: "map without_iban (operations ibans db a) = operations Map.empty db a"
  by (simp add: operations_def without_iban_def transfer_entry_def deposit_entry_def withdrawal_entry_def)

lemma feed_without_iban: "map without_iban (feed ibans db a before) = feed Map.empty db a before"
proof -
  have "map without_iban (sort_desc history_key (operations ibans db a)) = sort_desc history_key (operations Map.empty db a)"
    unfolding operations_without_iban [of ibans, symmetric] sort_desc_map by (simp add: comp_def)
  then have "filter (\<lambda>h. earlier before (history_key h)) (map without_iban (sort_desc history_key (operations ibans db a))) = feed Map.empty db a before"
    by (simp add: feed_def)
  then show ?thesis by (simp add: feed_def filter_map comp_def)
qed

lemma feed_rest:
  assumes "history_ok db" "0 < n" "n \<le> length (feed ibans db a before)"
  shows "feed ibans db a (Some (history_key (last (take n (feed ibans db a before))))) = drop n (feed ibans db a before)"
proof -
  let ?f = "feed ibans db a before"
  define b where "b = history_key (last (take n ?f))"
  have "take n ?f \<noteq> []" using assms(2,3) by auto
  then have "last (take n ?f) \<in> set ?f" using last_in_set in_set_takeD by metis
  then have "earlier before b" by (simp add: feed_def b_def)
  then have "(k < b) = (earlier before k \<and> k < b)" for k
    by (cases before) (auto simp: earlier_def)
  then have "feed ibans db a (Some b) = filter (\<lambda>h. history_key h < b) ?f"
    by (simp add: feed_def earlier_def)
  also have "\<dots> = drop n ?f"
    unfolding b_def by (rule rest_after_page [OF _ assms(2,3)])
      (simp add: feed_def descending_filter descending_sort_desc operations_distinct [OF assms(1)])
  finally show ?thesis unfolding b_def .
qed

text \<open>Operations whose ids Postgres printed.\<close>

definition printed_ids :: "runtime \<Rightarrow> transfers_db \<Rightarrow> bool" where
  "printed_ids rt db \<longleftrightarrow> (\<forall>i\<in>t_ID ` set (transfers db) \<union> d_ID ` set (deposits db) \<union> w_ID ` set (withdrawals db). uuid_in rt i = Some i)"

lemma operations_printed: "printed_ids rt db \<Longrightarrow> h \<in> set (operations ibans db a) \<Longrightarrow> uuid_in rt (he_ID h) = Some (he_ID h)"
  by (auto simp: operations_def visible_transfers_def printed_ids_def)

definition resolves_ids :: "'a accounts_client \<Rightarrow> bool" where
  "resolves_ids ac \<longleftrightarrow> (\<forall>i ids s. \<exists>s' accs. ac_ResolveAccountsByIds ac i ids s = (s', Inr accs))"

lemma resolveCounterpartyIbans_total:
  assumes "resolves_ids ac"
  shows "\<exists>s' ibans. resolveCounterpartyIbans ac a ts s = (s', Inr ibans)"
proof -
  obtain s' accs where "ac_ResolveAccountsByIds ac 0 (remdups (map (counterparty a) ts)) s = (s', Inr accs)"
    using assms unfolding resolves_ids_def by blast
  then show ?thesis by (simp add: resolveCounterpartyIbans_def Let_def)
qed

lemma getOperationHistoryPage_total:
  assumes "uuid_in rt a = Some u" "bound_position rt cursor = Some before" "\<forall>i. \<not> fails e i" "resolves_ids ac"
  shows "\<exists>s' page hasMore. getOperationHistoryPage rt e early ac db a limit cursor s = (s', Inr (page, hasMore))"
proof -
  obtain ts tm ds dm ws wm where "getTransferHistoryPage rt e early db a limit cursor = Inr (ts, tm)"
    "getDepositHistoryPage rt e early db a limit cursor = Inr (ds, dm)" "getWithdrawalHistoryPage rt e early db a limit cursor = Inr (ws, wm)"
    using assms(1-3) by (simp add: getTransferHistoryPage_def getDepositHistoryPage_def getWithdrawalHistoryPage_def history_page_def Let_def)
  moreover obtain s' ibans where "resolveCounterpartyIbans ac a ts s = (s', Inr ibans)"
    using resolveCounterpartyIbans_total [OF assms(4)] by blast
  ultimately show ?thesis by (simp add: getOperationHistoryPage_def Let_def)
qed

lemma read_feed_from:
  assumes ok: "history_ok db" "printed_ids rt db" "uuid_in rt a = Some a" "0 < limit" "\<forall>i. \<not> fails e i" "resolves_ids ac"
    and "bound_position rt cursor = Some before" "length (feed Map.empty db a before) < n"
  shows "\<exists>hs. read_feed (getOperationHistoryPage rt e early ac db a limit) n cursor s = Some hs \<and>
    map without_iban hs = feed Map.empty db a before"
  using assms(7,8)
proof (induction n arbitrary: cursor before s)
  case (Suc n)
  obtain s' page hasMore where p: "getOperationHistoryPage rt e early ac db a limit cursor s = (s', Inr (page, hasMore))"
    using getOperationHistoryPage_total [OF ok(3) Suc.prems(1) ok(5,6)] by blast
  obtain ibans where page: "page = take limit (feed ibans db a before)" and m: "hasMore \<longleftrightarrow> limit < length (feed ibans db a before)"
    using getOperationHistoryPage_exact [OF ok(1,3) Suc.prems(1) p] by blast
  let ?f = "feed ibans db a before"
  have f: "map without_iban ?f = feed Map.empty db a before" by (rule feed_without_iban)
  show ?case
  proof (cases hasMore)
    case False
    then have "map without_iban page = feed Map.empty db a before" using m page f by simp
    then show ?thesis using p False by (simp add: next_cursor_def)
  next
    case True
    then have len: "limit \<le> length ?f" and ne: "page \<noteq> []" using m page ok(4) by auto
    have nc: "next_cursor page hasMore = Some \<lparr>pc_CreatedAt = he_CreatedAt (last page), pc_ID = he_ID (last page)\<rparr>" (is "_ = Some ?c")
      using True ne by (simp add: next_cursor_def)
    have "last page \<in> set ?f" using ne page last_in_set in_set_takeD by metis
    then have "last page \<in> set (operations ibans db a)" by (simp add: feed_def)
    then have b: "bound_position rt (Some ?c) = Some (Some (history_key (last page)))"
      using operations_printed [OF ok(2)] by (simp add: bound_position_def history_key_def)
    have rest: "feed ibans db a (Some (history_key (last page))) = drop limit ?f"
      unfolding page by (rule feed_rest [OF ok(1,4) len])
    then have rest': "feed Map.empty db a (Some (history_key (last page))) = drop limit (feed Map.empty db a before)"
      using feed_without_iban [of ibans db a "Some (history_key (last page))"] f by (metis drop_map)
    have "length (feed Map.empty db a before) = length ?f" using f by (metis length_map)
    then have "length (drop limit (feed Map.empty db a before)) < n" using Suc.prems(2) ok(4) len by simp
    then obtain hs where hs: "read_feed (getOperationHistoryPage rt e early ac db a limit) n (Some ?c) s' = Some hs"
      "map without_iban hs = drop limit (feed Map.empty db a before)"
      using Suc.IH [OF b, of s'] rest' by auto
    have "map without_iban (page @ hs) = take limit (map without_iban ?f) @ drop limit (map without_iban ?f)"
      unfolding page map_append take_map [symmetric] hs(2) f ..
    also have "\<dots> = feed Map.empty db a before" unfolding f by simp
    finally show ?thesis using p nc hs(1) by simp
  qed
qed simp

subsection \<open>Properties\<close>

text \<open>
  C32: a page of the feed is exact. Whenever \<open>getOperationHistoryPage\<close> answers, the page is the first \<open>limit\<close>
  entries, newest first, of all operations of the account before the cursor: its transfers in any
  state, transfers it received only when completed, its deposits and its withdrawals; and \<open>hasMore\<close> says
  exactly whether there are more than these.
\<close>

theorem operation_page_exact:
  assumes "history_ok db" "uuid_in rt a = Some a" "bound_position rt cursor = Some before"
    and "getOperationHistoryPage rt e early ac db a limit cursor s = (s', Inr (page, hasMore))"
  shows "\<exists>ibans. page = take limit (feed ibans db a before) \<and> (hasMore \<longleftrightarrow> limit < length (feed ibans db a before))"
  by (rule getOperationHistoryPage_exact [OF assms])

definition sample_history :: transfers_db where
  "sample_history = migrated_transfers\<lparr>
     transfers := [(pending_row (sample_env 1) ''k1'' ''a'' ''b'' 10)\<lparr>t_ID := ''t1''\<rparr>,
                   (pending_row (sample_env 2) ''k2'' ''c'' ''a'' 20)\<lparr>t_ID := ''t2'', t_Status := ''completed''\<rparr>,
                   (pending_row (sample_env 3) ''k3'' ''c'' ''a'' 30)\<lparr>t_ID := ''t3''\<rparr>],
     deposits := [\<lparr>d_ID = ''d1'', d_AccountID = ''a'', d_Amount = 40, d_Currency = ''eur'', d_Status = ''credited'', d_StripePaymentIntentID = None,
                   d_LedgerTransactionID = None, d_FailureReason = None, d_CreatedAt = 4, d_UpdatedAt = 4\<rparr>],
     withdrawals := [\<lparr>w_ID = ''w1'', w_AccountID = ''a'', w_Amount = 50, w_Status = ''failed'', w_LedgerTransactionID = None,
                   w_FailureReason = None, w_CreatedAt = 2, w_UpdatedAt = 2\<rparr>]\<rparr>"

lemma sample_history_ok: "history_ok sample_history" "printed_ids plain_runtime sample_history"
  by code_simp+

lemma sample_feed: "map he_ID (feed Map.empty sample_history ''a'' None) = [''d1'', ''w1'', ''t2'', ''t1'']"
  by code_simp

lemma he_ID_without_iban [simp]: "he_ID (without_iban h) = he_ID h"
  by (simp add: without_iban_def)

lemma map_he_ID_feed: "map he_ID (feed ibans db a before) = map he_ID (feed Map.empty db a before)"
  unfolding feed_without_iban [of ibans, symmetric] by (simp add: comp_def)

lemma sample_accounts_resolves: "resolves_ids sample_accounts"
  by (simp add: resolves_ids_def sample_accounts_def)

lemma sample_calm: "\<forall>i. \<not> fails (sample_env n) i" "uuid_in plain_runtime x = Some x"
  by (simp_all add: sample_env_def)

theorem operation_page_exact_witness:
  "\<exists>s' page hasMore. getOperationHistoryPage plain_runtime (sample_env 9) True sample_accounts sample_history ''a'' 3 None () = (s', Inr (page, hasMore)) \<and>
     map he_ID page = [''d1'', ''w1'', ''t2''] \<and> hasMore"
proof -
  have b: "bound_position plain_runtime None = Some None" by (simp add: bound_position_def)
  obtain s' page hasMore where p: "getOperationHistoryPage plain_runtime (sample_env 9) True sample_accounts sample_history ''a'' 3 None () = (s', Inr (page, hasMore))"
    using getOperationHistoryPage_total [OF sample_calm(2) b sample_calm(1) sample_accounts_resolves] by blast
  from operation_page_exact [OF sample_history_ok(1) sample_calm(2) b p] obtain ibans where
    q: "page = take 3 (feed ibans sample_history ''a'' None)" "hasMore \<longleftrightarrow> 3 < length (feed ibans sample_history ''a'' None)" by blast
  have f: "map he_ID (feed ibans sample_history ''a'' None) = [''d1'', ''w1'', ''t2'', ''t1'']"
    using map_he_ID_feed sample_feed by metis
  have "length (feed ibans sample_history ''a'' None) = length (map he_ID (feed ibans sample_history ''a'' None))" by simp
  also have "\<dots> = 4" unfolding f by simp
  finally have "length (feed ibans sample_history ''a'' None) = 4" .
  with q f have "map he_ID page = [''d1'', ''w1'', ''t2''] \<and> hasMore" by (simp add: take_map [symmetric])
  with p show ?thesis by (intro exI [of _ s'] exI [of _ page] exI [of _ hasMore] conjI) simp_all
qed

text \<open>
  Following the cursors reads everything once. On a database that does not change, a client that starts
  without a cursor and follows each page's cursor gets every operation of the account exactly once, newest
  first, after at most one page more than there are operations, whatever the page size.
\<close>

theorem feed_read_once:
  assumes "history_ok db" "printed_ids rt db" "uuid_in rt a = Some a" "0 < limit" "\<forall>i. \<not> fails e i" "resolves_ids ac"
    and "length (operations Map.empty db a) < n"
  shows "\<exists>hs. read_feed (getOperationHistoryPage rt e early ac db a limit) n None s = Some hs \<and>
    map without_iban hs = sort_desc history_key (operations Map.empty db a) \<and>
    mset (map without_iban hs) = mset (operations Map.empty db a)"
proof -
  have b: "bound_position rt None = Some None" by (simp add: bound_position_def)
  with read_feed_from [OF assms(1-6) b, of n] assms(7) show ?thesis
    by (fastforce simp: feed_None sort_desc_def)
qed

theorem feed_read_once_witness:
  "\<exists>hs. read_feed (getOperationHistoryPage plain_runtime (sample_env 9) True sample_accounts sample_history ''a'' 3) 9 None () = Some hs \<and>
     map he_ID hs = [''d1'', ''w1'', ''t2'', ''t1'']"
proof -
  have l: "length (operations Map.empty sample_history ''a'') < 9" by code_simp
  have "(0 :: nat) < 3" by simp
  from feed_read_once [OF sample_history_ok sample_calm(2) this sample_calm(1) sample_accounts_resolves l]
  obtain hs where r: "read_feed (getOperationHistoryPage plain_runtime (sample_env 9) True sample_accounts sample_history ''a'' 3) 9 None () = Some hs"
    and h: "map without_iban hs = sort_desc history_key (operations Map.empty sample_history ''a'')" by blast
  have "map he_ID hs = map he_ID (map without_iban hs)" by simp
  also have "\<dots> = [''d1'', ''w1'', ''t2'', ''t1'']"
    unfolding h feed_None [symmetric] by (rule sample_feed)
  finally have "map he_ID hs = [''d1'', ''w1'', ''t2'', ''t1'']" .
  with r show ?thesis by (intro exI [of _ hs] conjI)
qed

end
