(* ===== verification/Withdrawals.thy ===== *)
theory Withdrawals
  imports Reconcile
begin

text \<open>
  services/transfers-svc/withdrawal.go: the simulated payout. The ledger is debited first, by an
  ordinary balance-checked transfer to genesis without a reference, and the outcome is recorded after
  it. \<open>meanwhile\<close> is what other requests do to the database while the ledger is called.
\<close>

subsection \<open>Model\<close>

definition withdrawMinAmount :: int where "withdrawMinAmount = 50"
definition withdrawMaxAmount :: int where "withdrawMaxAmount = 1000000"

datatype createWithdrawalOutcome =
    CreateWithdrawalPayoutSimulated | CreateWithdrawalInvalidAmount
  | CreateWithdrawalAccountNotActive | CreateWithdrawalInsufficientFunds

definition zero_Withdrawal :: Withdrawal where
  "zero_Withdrawal = \<lparr>w_ID = '''', w_AccountID = '''', w_Amount = 0, w_Status = '''', w_LedgerTransactionID = None,
     w_FailureReason = None, w_CreatedAt = 0, w_UpdatedAt = 0\<rparr>"

definition withdrawal_row :: "env \<Rightarrow> string \<Rightarrow> int \<Rightarrow> string \<Rightarrow> string option \<Rightarrow> string option \<Rightarrow> Withdrawal" where
  "withdrawal_row e account amount st tx reason =
     \<lparr>w_ID = gen_random_uuid e 0, w_AccountID = account, w_Amount = amount, w_Status = st, w_LedgerTransactionID = tx,
      w_FailureReason = reason, w_CreatedAt = now e, w_UpdatedAt = now e\<rparr>"

text \<open>A uuid column given a text or NULL.\<close>

definition uuid_param :: "runtime \<Rightarrow> string option \<Rightarrow> string option option" where
  "uuid_param rt v = (case v of None \<Rightarrow> Some None | Some s \<Rightarrow> map_option Some (uuid_in rt s))"

definition insertWithdrawal ::
  "runtime \<Rightarrow> env \<Rightarrow> transfers_db \<Rightarrow> string \<Rightarrow> int \<Rightarrow> string \<Rightarrow> string option \<Rightarrow> string option
   \<Rightarrow> transfers_db \<times> (svc_error + Withdrawal)" where
  "insertWithdrawal rt e db accountID amount withdrawalStatus ledgerTransactionID failureReason =
     (case (uuid_in rt accountID, uuid_param rt ledgerTransactionID) of
        (Some u, Some tx) \<Rightarrow>
          if amount \<le> 0 \<or> withdrawalStatus \<notin> {''payout_simulated'', ''failed''} \<or> gen_random_uuid e 0 \<in> w_ID ` set (withdrawals db)
          then (db, Inl ErrStatement)
          else (let w = withdrawal_row e u amount withdrawalStatus tx failureReason
                in persist e 0 db (db\<lparr>withdrawals := withdrawals db @ [w]\<rparr>) ErrStatement w)
      | _ \<Rightarrow> (db, Inl ErrStatement))"

definition createWithdrawal ::
  "runtime \<Rightarrow> env \<Rightarrow> 'a accounts_client \<Rightarrow> 'l ledger_client \<Rightarrow> (transfers_db \<Rightarrow> transfers_db) \<Rightarrow> transfers_db \<Rightarrow> 'a \<Rightarrow> 'l
   \<Rightarrow> string \<Rightarrow> int \<Rightarrow> transfers_db \<times> 'a \<times> 'l \<times> (svc_error + Withdrawal \<times> createWithdrawalOutcome)" where
  "createWithdrawal rt e ac lc meanwhile db s l accountID amount =
     (if amount < withdrawMinAmount \<or> withdrawMaxAmount < amount
      then (db, s, l, Inr (zero_Withdrawal, CreateWithdrawalInvalidAmount))
      else case ac_GetAccountByID ac 0 accountID s of
        (s', Inl (c, m)) \<Rightarrow> (db, s', l, Inl (ErrCall c))
      | (s', Inr account) \<Rightarrow>
          if ar_Status account \<noteq> accountStatusActive
          then (db, s', l, Inr (zero_Withdrawal, CreateWithdrawalAccountNotActive))
          else (case lc_ExecuteTransfer lc 0 accountID genesisAccountID amount '''' l of
                  (l', Inl (c, m)) \<Rightarrow>
                    if c = FailedPrecondition
                    then (case insertWithdrawal rt e (meanwhile db) accountID amount ''failed'' None (Some ''insufficient_funds'') of
                            (db', Inl err) \<Rightarrow> (db', s', l', Inl err)
                          | (db', Inr w) \<Rightarrow> (db', s', l', Inr (w, CreateWithdrawalInsufficientFunds)))
                    else (meanwhile db, s', l', Inl (ErrCall c))
                | (l', Inr tx) \<Rightarrow>
                    (case insertWithdrawal rt e (meanwhile db) accountID amount ''payout_simulated'' (Some tx) None of
                       (db', Inl err) \<Rightarrow> (db', s', l', Inl err)
                     | (db', Inr w) \<Rightarrow> (db', s', l', Inr (w, CreateWithdrawalPayoutSimulated)))))"

subsection \<open>What a withdrawal does to the books\<close>

text \<open>The ledger after a debit of \<open>account\<close> that genesis absorbs.\<close>

definition debited :: "runtime \<Rightarrow> string \<Rightarrow> int \<Rightarrow> ledger_db \<Rightarrow> ledger_db \<Rightarrow> bool" where
  "debited rt account a l l' \<longleftrightarrow> (\<exists>fl gl. account_of rt l account = Some fl \<and> account_of rt l genesisAccountID = Some gl \<and>
     a \<le> sum_entries (entries l) fl \<and> ledger_accounts l' = ledger_accounts l \<and>
     (\<forall>x. sum_entries (entries l') x = sum_entries (entries l) x + (if x = fl then - a else 0) + (if x = gl then a else 0)))"

lemma ExecuteTransfer_debited:
  assumes "ExecuteTransfer rt e account genesisAccountID a r l = (l', res)"
  shows "l' = l \<and> (\<forall>tx. res \<noteq> Inr tx) \<or> debited rt account a l l'"
  using assms
proof (cases rule: ExecuteTransfer_cases)
  case (posted fl tol ref)
  have "sum_entries (entries l') x = sum_entries (entries l) x + (if x = fl then - a else 0) + (if x = tol then a else 0)" for x
    using posted_sum [OF posted(6)] by (simp add: sum_pair_entries)
  with posted(2-4,6) have "debited rt account a l l'"
    by (auto simp: debited_def posted_def)
  then show ?thesis ..
qed simp

lemma ExecuteTransfer_insufficient:
  assumes "ExecuteTransfer rt e f t a r l = (l', Inl (FailedPrecondition, m))"
  shows "l' = l \<and> (\<exists>fl. account_of rt l f = Some fl \<and> sum_entries (entries l) fl < a)"
proof -
  from assms obtain tx where "executeTransfer rt e l f t a r = (l', Inr (tx, TransferInsufficientFunds))"
    by (auto simp: ExecuteTransfer_def internal_error_def split: prod.splits sum.splits transferOutcome.splits)
  then obtain locked where "lock_loop rt e 1 l (lock_order rt f t) Map.empty = Inr (Inr locked)"
    "sum_entries (entries l) (locked_id locked f) < a" "l' = l"
    by (auto simp: executeTransfer_def Let_def bigint_def persist_def split: if_splits sum.splits option.splits fault.splits)
  with lock_loop_locked show ?thesis by blast
qed

lemma insertWithdrawal_cases:
  assumes "insertWithdrawal rt e db account a st tx reason = (db', res)"
  obtains (failed) err where "res = Inl err" "db' = db"
    | (lost) err u v where "res = Inl err" "uuid_in rt account = Some u" "uuid_param rt tx = Some v"
        "db' = db\<lparr>withdrawals := withdrawals db @ [withdrawal_row e u a st v reason]\<rparr>"
    | (ok) u v where "uuid_in rt account = Some u" "uuid_param rt tx = Some v"
        "res = Inr (withdrawal_row e u a st v reason)" "db' = db\<lparr>withdrawals := withdrawals db @ [withdrawal_row e u a st v reason]\<rparr>"
  using assms by (auto simp: insertWithdrawal_def Let_def persist_def split: option.splits if_splits fault.splits)

text \<open>What a row may record: a payout that the ledger has booked under the row's transaction id, or a refusal.\<close>

definition row_records_payout :: "runtime \<Rightarrow> env \<Rightarrow> string \<Rightarrow> int \<Rightarrow> ledger_db \<Rightarrow> ledger_db \<Rightarrow> Withdrawal \<Rightarrow> bool" where
  "row_records_payout rt e account a l l' w \<longleftrightarrow> debited rt account a l l' \<and>
     uuid_in rt account = Some (w_AccountID w) \<and> w_Amount w = a \<and> w_Status w = ''payout_simulated'' \<and>
     (\<exists>tx. ExecuteTransfer rt e account genesisAccountID a '''' l = (l', Inr tx) \<and> w_LedgerTransactionID w = uuid_in rt tx)"

definition row_records_refusal :: "runtime \<Rightarrow> string \<Rightarrow> int \<Rightarrow> ledger_db \<Rightarrow> ledger_db \<Rightarrow> Withdrawal \<Rightarrow> bool" where
  "row_records_refusal rt account a l l' w \<longleftrightarrow> l' = l \<and> (\<exists>fl. account_of rt l account = Some fl \<and> sum_entries (entries l) fl < a) \<and>
     uuid_in rt account = Some (w_AccountID w) \<and> w_Amount w = a \<and> w_Status w = ''failed'' \<and> w_LedgerTransactionID w = None"

text \<open>
  C31: a withdrawal and the ledger agree. A payout that is reported has debited exactly its amount
  from an active account whose balance covered it, genesis took the credit, and the one row written
  carries the amount and the transaction id the ledger answered with; when funds are insufficient (the log balance
  is below the amount) the ledger is as it was and the row says failed; the other refusals change
  nothing. After an error either no row was added and the ledger is as it was or holds the debit (an error may follow
  a debit that no row records), or one row was added whose answer was lost, and then the row is true all the same: it
  says payout and the ledger holds exactly this debit under the row's transaction id, or it says failed and the ledger
  is as it was. So no row ever records a payout that was not debited.
\<close>

theorem withdrawal_agrees_with_ledger:
  "case createWithdrawal rt e ac (ledger_rpc rt es ns) meanwhile db s l account a of (db', s', l', res) \<Rightarrow>
    (case res of
       Inr (w, CreateWithdrawalPayoutSimulated) \<Rightarrow>
         50 \<le> a \<and> a \<le> 1000000 \<and> (\<exists>ref. snd (ac_GetAccountByID ac 0 account s) = Inr ref \<and> ar_Status ref = ''active'') \<and>
         row_records_payout rt (es 0) account a l l' w \<and> db' = (meanwhile db)\<lparr>withdrawals := withdrawals (meanwhile db) @ [w]\<rparr>
     | Inr (w, CreateWithdrawalInsufficientFunds) \<Rightarrow>
         row_records_refusal rt account a l l' w \<and> db' = (meanwhile db)\<lparr>withdrawals := withdrawals (meanwhile db) @ [w]\<rparr>
     | Inr (w, _) \<Rightarrow> db' = db \<and> l' = l
     | Inl err \<Rightarrow> db' = db \<and> l' = l \<or> db' = meanwhile db \<and> (l' = l \<or> debited rt account a l l') \<or>
         (\<exists>w. db' = (meanwhile db)\<lparr>withdrawals := withdrawals (meanwhile db) @ [w]\<rparr> \<and>
            (row_records_payout rt (es 0) account a l l' w \<or> row_records_refusal rt account a l l' w)))"
proof (cases "a < withdrawMinAmount \<or> withdrawMaxAmount < a")
  case True
  then show ?thesis by (simp add: createWithdrawal_def)
next
  case False
  obtain s' ga where g: "ac_GetAccountByID ac 0 account s = (s', ga)" by fastforce
  show ?thesis
  proof (cases "\<exists>ref. ga = Inr ref \<and> ar_Status ref = accountStatusActive")
    case True
    then obtain ref where ref: "ga = Inr ref" "ar_Status ref = accountStatusActive" by blast
    obtain l' ex where x: "lc_ExecuteTransfer (ledger_rpc rt es ns) 0 account genesisAccountID a '''' l = (l', ex)" by fastforce
    note c = x [simplified rpc_unfold]
    show ?thesis
    proof (cases ex)
      case (Inr tx)
      from c Inr have t: "ExecuteTransfer rt (es 0) account genesisAccountID a '''' l = (l', Inr tx)"
        by (auto simp: rpc_unfold elim: call_cases)
      obtain db' r where i: "insertWithdrawal rt e (meanwhile db) account a ''payout_simulated'' (Some tx) None = (db', r)" by fastforce
      have moved: "debited rt account a l l'" using ExecuteTransfer_debited [OF t] by simp
      have d: "row_records_payout rt (es 0) account a l l' (withdrawal_row e u a ''payout_simulated'' v None)"
        if "uuid_in rt account = Some u" "uuid_param rt (Some tx) = Some v" for u v
        using moved t that
        by (auto simp: row_records_payout_def withdrawal_row_def uuid_param_def split: option.splits)
      from i show ?thesis
        by (cases rule: insertWithdrawal_cases)
          (use False g ref x Inr i d moved in \<open>auto simp: createWithdrawal_def withdrawMinAmount_def withdrawMaxAmount_def
             accountStatusActive_def\<close>)
    next
      case (Inl st)
      obtain code m where st: "st = (code, m)" by (cases st)
      have d: "l' = l \<or> debited rt account a l l'"
        using c by (auto simp: rpc_unfold dest: ExecuteTransfer_debited elim!: call_cases)
      show ?thesis
      proof (cases "code = FailedPrecondition")
        case True
        then have t: "l' = l \<and> (\<exists>fl. account_of rt l account = Some fl \<and> sum_entries (entries l) fl < a)"
          using c Inl st by (auto simp: rpc_unfold dest: ExecuteTransfer_insufficient elim!: call_cases)
        obtain db' r where i: "insertWithdrawal rt e (meanwhile db) account a ''failed'' None (Some ''insufficient_funds'') = (db', r)" by fastforce
        have "row_records_refusal rt account a l l' (withdrawal_row e u a ''failed'' v (Some ''insufficient_funds''))"
          if "uuid_in rt account = Some u" "uuid_param rt None = Some v" for u v
          using t that by (auto simp: row_records_refusal_def withdrawal_row_def uuid_param_def)
        with i show ?thesis
          by (cases rule: insertWithdrawal_cases)
            (use False True g ref x Inl st i t in \<open>auto simp: createWithdrawal_def\<close>)
      next
        case other: False
        then show ?thesis using False g ref x Inl st d by (auto simp: createWithdrawal_def)
      qed
    qed
  next
    case inactive: False
    then show ?thesis using False g by (auto simp: createWithdrawal_def split: sum.splits)
  qed
qed

end
