(* ===== verification/Transfers_Http.thy ===== *)
theory Transfers_Http
  imports History_Properties Deposits Withdrawals
begin

text \<open>
  services/transfers-svc/http.go: the public handlers. A handler gets the headers it reads (an absent one is
  empty) and the decoded body (\<open>None\<close> when decoding fails), and returns the new states of the databases
  and services with the response. Spans are left out. \<open>es\<close> and \<open>ms\<close> number the environments and what others do meanwhile:
  0 for \<open>createTransfer\<close>, 1 for the fraud check, 2 for the settlement.
\<close>

subsection \<open>Responses\<close>

datatype transfers_body =
    ErrorBody string
  | TransferBody (tb_transfer: Transfer) (tb_message: string)
  | DepositCreatedBody string string
  | DepositBody (db_deposit: Deposit)
  | WithdrawalBody Withdrawal
  | HistoryBody (hb_page: "historyEntry list") (hb_next_cursor: "string option")

definition error_response :: "nat \<Rightarrow> string \<Rightarrow> transfers_body http_response" where
  "error_response status message = \<lparr>http_status = status, http_body = ErrorBody message\<rparr>"

abbreviation internal_response :: "transfers_body http_response" where
  "internal_response \<equiv> error_response 500 ''internal_error''"

text \<open>The caller's own account; the empty string means that there is none.\<close>

definition resolveSenderAccountID :: "'a accounts_client \<Rightarrow> string \<Rightarrow> 'a \<Rightarrow> 'a \<times> (svc_error + string)" where
  "resolveSenderAccountID ac userID s =
     (case ac_GetAccountByUserID ac 0 userID s of
        (s', Inl (c, m)) \<Rightarrow> (s', if c = NotFound then Inr '''' else Inl (ErrCall c))
      | (s', Inr acc) \<Rightarrow> (s', Inr (ar_AccountId acc)))"

subsection \<open>Transfers\<close>

text \<open>The answer to an outcome of \<open>createTransfer\<close> that ends the request; \<open>None\<close> for \<open>CreateTransferOK\<close>.\<close>

fun outcome_response :: "Transfer \<Rightarrow> createTransferOutcome \<Rightarrow> transfers_body http_response option" where
  "outcome_response t CreateTransferInvalidAmount = Some (error_response 400 ''invalid_amount'')"
| "outcome_response t CreateTransferInvalidRecipientIban = Some (error_response 400 ''invalid_iban'')"
| "outcome_response t CreateTransferUnsupportedBank = Some (error_response 400 ''unsupported_bank'')"
| "outcome_response t CreateTransferRecipientNotFound = Some (error_response 404 ''recipient_not_found'')"
| "outcome_response t CreateTransferSelfTransfer = Some (error_response 400 ''self_transfer_not_allowed'')"
| "outcome_response t CreateTransferRecipientClosed = Some (error_response 409 ''recipient_account_closed'')"
| "outcome_response t CreateTransferSenderNotActive = Some (error_response 409 ''sender_account_not_active'')"
| "outcome_response t CreateTransferResolveRateLimited = Some (error_response 429 ''too_many_resolve_attempts'')"
| "outcome_response t CreateTransferKeyReused = Some (error_response 422 ''idempotency_key_conflict'')"
| "outcome_response t CreateTransferReplayed = Some \<lparr>http_status = 200, http_body = TransferBody t ''''\<rparr>"
| "outcome_response t CreateTransferOK = None"

definition createTransferHandler ::
  "runtime \<Rightarrow> (nat \<Rightarrow> env) \<Rightarrow> 'a accounts_client \<Rightarrow> 'f fraud_client \<Rightarrow> 'l ledger_client \<Rightarrow> (nat \<Rightarrow> transfers_db \<Rightarrow> transfers_db)
   \<Rightarrow> string \<Rightarrow> string \<Rightarrow> (string \<times> int) option \<Rightarrow> transfers_db \<Rightarrow> 'a \<Rightarrow> 'f \<Rightarrow> 'l
   \<Rightarrow> transfers_db \<times> 'a \<times> 'f \<times> 'l \<times> transfers_body http_response" where
  "createTransferHandler rt es ac fc lc ms idempotencyKey userID body db s f l =
     (if idempotencyKey = '''' then (db, s, f, l, error_response 400 ''missing_idempotency_key_header'')
      else case resolveSenderAccountID ac userID s of
        (s1, Inl err) \<Rightarrow> (db, s1, f, l, internal_response)
      | (s1, Inr senderAccountID) \<Rightarrow>
          if senderAccountID = '''' then (db, s1, f, l, error_response 404 ''account_not_found'')
          else case body of
            None \<Rightarrow> (db, s1, f, l, error_response 400 ''invalid_request_body'')
          | Some (recipientIban, amount) \<Rightarrow>
     (case createTransfer rt (es 0) ac (ms 0) db s1 idempotencyKey senderAccountID userID recipientIban amount of
        (db1, s2, Inl err) \<Rightarrow> (db1, s2, f, l, internal_response)
      | (db1, s2, Inr (transfer, outcome)) \<Rightarrow>
     (case outcome_response transfer outcome of
        Some resp \<Rightarrow> (db1, s2, f, l, resp)
      | None \<Rightarrow>
     (case checkTransferFraud rt (es 1) fc (ms 1) db1 f transfer of
        (db2, f1, Inl err) \<Rightarrow> (db2, s2, f1, l, internal_response)
      | (db2, f1, Inr (transfer2, FraudCheckRejected)) \<Rightarrow>
          (db2, s2, f1, l, \<lparr>http_status = 201, http_body = TransferBody transfer2 ''''\<rparr>)
      | (db2, f1, Inr (transfer2, FraudCheckUncertain)) \<Rightarrow>
          (db2, s2, f1, l, \<lparr>http_status = 202, http_body = TransferBody transfer2 ''fraud check unavailable, transfer still pending''\<rparr>)
      | (db2, f1, Inr (transfer2, FraudCheckApproved)) \<Rightarrow>
     (case settleTransfer rt (es 2) lc (ms 2) db2 l transfer2 of
        (db3, l1, Inl err) \<Rightarrow> (db3, s2, f1, l1, internal_response)
      | (db3, l1, Inr (settled, settleOutcome)) \<Rightarrow>
          if settleOutcome = SettlementUncertain
          then (db3, s2, f1, l1, \<lparr>http_status = 202, http_body = TransferBody settled ''transfer status unknown, still processing''\<rparr>)
          else (db3, s2, f1, l1, \<lparr>http_status = 201, http_body = TransferBody settled ''''\<rparr>))))))"

subsection \<open>Deposits and withdrawals\<close>

definition createDepositHandler ::
  "runtime \<Rightarrow> env \<Rightarrow> 'a accounts_client \<Rightarrow> (PaymentIntentCreateParams \<Rightarrow> 'p \<Rightarrow> 'p \<times> (unit + PaymentIntent))
   \<Rightarrow> (transfers_db \<Rightarrow> transfers_db) \<Rightarrow> string \<Rightarrow> int option \<Rightarrow> transfers_db \<Rightarrow> 'a \<Rightarrow> 'p
   \<Rightarrow> transfers_db \<times> 'a \<times> 'p \<times> transfers_body http_response" where
  "createDepositHandler rt e ac create meanwhile userID body db s p =
     (case resolveSenderAccountID ac userID s of
        (s1, Inl err) \<Rightarrow> (db, s1, p, internal_response)
      | (s1, Inr accountID) \<Rightarrow>
          if accountID = '''' then (db, s1, p, error_response 404 ''account_not_found'')
          else case body of
            None \<Rightarrow> (db, s1, p, error_response 400 ''invalid_request_body'')
          | Some amount \<Rightarrow>
              (case createDeposit rt e ac create meanwhile db s1 p accountID amount of
                 (db', s2, p', Inl err) \<Rightarrow> (db', s2, p', internal_response)
               | (db', s2, p', Inr (d, clientSecret, outcome)) \<Rightarrow>
                   (db', s2, p',
                    case outcome of
                      CreateDepositInvalidAmount \<Rightarrow> error_response 400 ''invalid_amount''
                    | CreateDepositAccountNotActive \<Rightarrow> error_response 409 ''account_not_active''
                    | CreateDepositOK \<Rightarrow> \<lparr>http_status = 201, http_body = DepositCreatedBody (d_ID d) clientSecret\<rparr>)))"

definition getDepositHandler ::
  "runtime \<Rightarrow> env \<Rightarrow> 'a accounts_client \<Rightarrow> string \<Rightarrow> string \<Rightarrow> transfers_db \<Rightarrow> 'a \<Rightarrow> 'a \<times> transfers_body http_response" where
  "getDepositHandler rt e ac userID i db s =
     (case resolveSenderAccountID ac userID s of
        (s1, Inl err) \<Rightarrow> (s1, internal_response)
      | (s1, Inr accountID) \<Rightarrow>
          if accountID = '''' then (s1, error_response 404 ''account_not_found'')
          else (s1, case getDepositByID rt e db i of
                  Inl err \<Rightarrow> internal_response
                | Inr None \<Rightarrow> error_response 404 ''deposit_not_found''
                | Inr (Some d) \<Rightarrow>
                    if d_AccountID d \<noteq> accountID then error_response 404 ''deposit_not_found''
                    else \<lparr>http_status = 200, http_body = DepositBody d\<rparr>))"

definition createWithdrawalHandler ::
  "runtime \<Rightarrow> env \<Rightarrow> 'a accounts_client \<Rightarrow> 'l ledger_client \<Rightarrow> (transfers_db \<Rightarrow> transfers_db) \<Rightarrow> string \<Rightarrow> int option
   \<Rightarrow> transfers_db \<Rightarrow> 'a \<Rightarrow> 'l \<Rightarrow> transfers_db \<times> 'a \<times> 'l \<times> transfers_body http_response" where
  "createWithdrawalHandler rt e ac lc meanwhile userID body db s l =
     (case resolveSenderAccountID ac userID s of
        (s1, Inl err) \<Rightarrow> (db, s1, l, internal_response)
      | (s1, Inr accountID) \<Rightarrow>
          if accountID = '''' then (db, s1, l, error_response 404 ''account_not_found'')
          else case body of
            None \<Rightarrow> (db, s1, l, error_response 400 ''invalid_request_body'')
          | Some amount \<Rightarrow>
              (case createWithdrawal rt e ac lc meanwhile db s1 l accountID amount of
                 (db', s2, l', Inl err) \<Rightarrow> (db', s2, l', internal_response)
               | (db', s2, l', Inr (withdrawal, outcome)) \<Rightarrow>
                   (db', s2, l',
                    case outcome of
                      CreateWithdrawalInvalidAmount \<Rightarrow> error_response 400 ''invalid_amount''
                    | CreateWithdrawalAccountNotActive \<Rightarrow> error_response 409 ''account_not_active''
                    | _ \<Rightarrow> \<lparr>http_status = 201, http_body = WithdrawalBody withdrawal\<rparr>)))"

subsection \<open>The history\<close>

text \<open>\<open>strconv.Atoi\<close>: an optional sign and at least one decimal digit, within 64 bits.\<close>

definition Atoi :: "string \<Rightarrow> int option" where
  "Atoi s =
     (let neg = (s \<noteq> [] \<and> hd s = CHR ''-'');
          ds = (if s \<noteq> [] \<and> hd s \<in> {CHR ''-'', CHR ''+''} then List.tl s else s);
          v = foldl (\<lambda>a c. 10 * a + (of_char c - 48)) 0 ds;
          n = (if neg then - v else v) in
      if ds = [] \<or> \<not> list_all (\<lambda>c. CHR ''0'' \<le> c \<and> c \<le> CHR ''9'') ds \<or> \<not> in_int64 n then None else Some n)"

definition defaultLimit :: nat where "defaultLimit = 20"
definition maxLimit :: nat where "maxLimit = 100"

definition parseHistoryQuery :: "json_codec \<Rightarrow> string \<Rightarrow> string \<Rightarrow> svc_error + nat \<times> pageCursor option" where
  "parseHistoryQuery j limit_param cursor_param =
     (let limit = (case Atoi limit_param of
                     Some v \<Rightarrow> if 0 < v \<and> v \<le> int maxLimit then nat v else defaultLimit
                   | None \<Rightarrow> defaultLimit) in
      if cursor_param = '''' then Inr (limit, None)
      else map_sum id (\<lambda>c. (limit, Some c)) (decodeCursor j cursor_param))"

text \<open>\<open>db\<close> is the primary, \<open>replica\<close> what a read replica holds at this moment; only a page with a cursor is read there.\<close>

definition listTransfersHandler ::
  "runtime \<Rightarrow> env \<Rightarrow> bool \<Rightarrow> json_codec \<Rightarrow> 'a accounts_client \<Rightarrow> string \<Rightarrow> string \<Rightarrow> string \<Rightarrow> transfers_db \<Rightarrow> transfers_db \<Rightarrow> 'a
   \<Rightarrow> 'a \<times> transfers_body http_response" where
  "listTransfersHandler rt e early j ac userID limit_param cursor_param db replica s =
     (case resolveSenderAccountID ac userID s of
        (s1, Inl err) \<Rightarrow> (s1, internal_response)
      | (s1, Inr accountID) \<Rightarrow>
          if accountID = '''' then (s1, error_response 404 ''account_not_found'')
          else case parseHistoryQuery j limit_param cursor_param of
            Inl err \<Rightarrow> (s1, error_response 400 ''invalid_cursor'')
          | Inr (limit, cursor) \<Rightarrow>
              (case getOperationHistoryPage rt e early ac (if cursor = None then db else replica) accountID limit cursor s1 of
                 (s2, Inl err) \<Rightarrow> (s2, if err = ErrInvalidCursor then error_response 400 ''invalid_cursor'' else internal_response)
               | (s2, Inr (page, hasMore)) \<Rightarrow>
                   (s2, \<lparr>http_status = 200, http_body = HistoryBody page (map_option (encodeCursor j) (next_cursor page hasMore))\<rparr>)))"

end
