(* ===== verification/Accounts.thy ===== *)
theory Accounts
  imports Iban Ledger_Server Transfers_DB
begin

text \<open>
  services/accounts-svc: the accounts table and its operations (accounts.go), the rate limit
  (rate\_limit.go), the backfill of IBANs (backfill.go), the consumer of UserActivated events (kafka.go), the
  gRPC server (grpc\_server.go) and the HTTP handlers (http.go).
\<close>

subsection \<open>Tables\<close>

record Account =
  acc_ID :: string
  acc_UserID :: string
  acc_AccountNumber :: string
  acc_IBAN :: "string option"
  acc_Status :: string
  acc_CreatedAt :: int
  acc_UpdatedAt :: int

datatype account_event =
  AccountCreated (ae_EventId: string) (ae_UserId: string) (ae_AccountId: string) (ae_AccountNumber: string) (ae_OccurredAt: int)

record resolve_attempt =
  at_user_id :: string
  at_attempted_at :: int

record accounts_db =
  accounts :: "Account list"
  processed_events :: "string list"
  accounts_outbox :: "account_event outbox_table"
  iban_resolve_attempts :: "resolve_attempt list"

definition migrated_accounts :: accounts_db where
  "migrated_accounts = \<lparr>accounts = [], processed_events = [], accounts_outbox = empty_outbox, iban_resolve_attempts = []\<rparr>"

text \<open>
  Errors: a failed statement, a violated UNIQUE constraint by the column it is on, an error of
  crypto/rand, of the IBAN, of the ledger call, of too many collisions, and a slice out of range.
\<close>

datatype accounts_error = AccStatement | AccNumberTaken | AccIbanTaken | AccRandom | AccIban iban_error
  | AccLedger codes | AccAttempts | AccSlice

datatype accountCreateOutcome = AccountCreateOK | AccountAlreadyExists
datatype accountStatusOutcome = StatusUpdateOK | StatusUpdateNotFound | StatusUpdateInvalidTransition

definition validAccountStatuses :: "string set" where
  "validAccountStatuses = {''active'', ''frozen'', ''closed''}"

definition accountNumberPrefix :: string where "accountNumberPrefix = ''NB''"
definition accountNumberDigits :: nat where "accountNumberDigits = 10"
definition maxAccountNumberAttempts :: nat where "maxAccountNumberAttempts = 10"

subsection \<open>Account numbers\<close>

text \<open>\<open>crand.Int\<close> returns a number from 0 up to but not including its bound: \<open>draw\<close> gives one, or an error.\<close>

definition pad10 :: "int \<Rightarrow> string" where
  "pad10 n = (let d = show_int n in replicate (accountNumberDigits - length d) CHR ''0'' @ d)"

definition generateAccountNumber :: "int option \<Rightarrow> string option" where
  "generateAccountNumber draw = map_option (\<lambda>n. accountNumberPrefix @ pad10 (n mod 10 ^ accountNumberDigits)) draw"

text \<open>\<open>digits[0:2]\<close> and \<open>digits[2:10]\<close> panic when the string is too short.\<close>

definition ibanPartsFromAccountNumber :: "string \<Rightarrow> (string \<times> string) option" where
  "ibanPartsFromAccountNumber accountNumber =
     (let digits = drop (length accountNumberPrefix) accountNumber in
      if length digits < 10 then None else Some (''0000'' @ take 2 digits, take 8 (drop 2 digits)))"

subsection \<open>Creating an account\<close>

definition fresh_account :: "env \<Rightarrow> string \<Rightarrow> string \<Rightarrow> string \<Rightarrow> Account" where
  "fresh_account e user accountNumber ibanValue =
     \<lparr>acc_ID = gen_random_uuid e 0, acc_UserID = user, acc_AccountNumber = accountNumber, acc_IBAN = Some ibanValue,
      acc_Status = ''active'', acc_CreatedAt = now e, acc_UpdatedAt = now e\<rparr>"

text \<open>
  The INSERT finds a row with the user first (the conflict it names) and then checks the other
  UNIQUE constraints, in the order in which the migrations made them. Sites: 0 begin, 1 INSERT,
  2 the SELECT or the outbox INSERT, 3 commit.
\<close>

definition tryCreateAccount ::
  "runtime \<Rightarrow> env \<Rightarrow> accounts_db \<Rightarrow> string \<Rightarrow> string \<Rightarrow> string \<Rightarrow> accounts_db \<times> (accounts_error + accountCreateOutcome \<times> string)" where
  "tryCreateAccount rt e db userID accountNumber ibanValue =
     (if fails e 0 \<or> fails e 1 then (db, Inl AccStatement)
      else case uuid_in rt userID of
        None \<Rightarrow> (db, Inl AccStatement)
      | Some u \<Rightarrow>
          (case find (\<lambda>a. acc_UserID a = u) (accounts db) of
             Some a \<Rightarrow>
               if fails e 2 then (db, Inl AccStatement)
               else persist e 3 db db AccStatement (AccountAlreadyExists, acc_ID a)
           | None \<Rightarrow>
               if gen_random_uuid e 0 \<in> acc_ID ` set (accounts db) then (db, Inl AccStatement)
               else if accountNumber \<in> acc_AccountNumber ` set (accounts db) then (db, Inl AccNumberTaken)
               else if Some ibanValue \<in> acc_IBAN ` set (accounts db) then (db, Inl AccIbanTaken)
               else (case GenerateEventID e 0 of
                       None \<Rightarrow> (db, Inl AccRandom)
                     | Some eventID \<Rightarrow>
                         (case InsertEvent rt e 2 eventID ''AccountCreated'' userID
                                 (AccountCreated eventID userID (gen_random_uuid e 0) accountNumber (clock e)) (accounts_outbox db) of
                            None \<Rightarrow> (db, Inl AccStatement)
                          | Some ob \<Rightarrow>
                              persist e 3 db (db\<lparr>accounts := accounts db @ [fresh_account e u accountNumber ibanValue], accounts_outbox := ob\<rparr>)
                                AccStatement (AccountCreateOK, gen_random_uuid e 0)))))"

text \<open>The loop: attempt \<open>i\<close> meets its own environment and draws its own number; \<open>n\<close> attempts are left.\<close>

fun create_attempts ::
  "runtime \<Rightarrow> (nat \<Rightarrow> env) \<Rightarrow> (nat \<Rightarrow> int option) \<Rightarrow> nat \<Rightarrow> nat \<Rightarrow> accounts_db \<Rightarrow> string \<Rightarrow> string
   \<Rightarrow> accounts_db \<times> (accounts_error + accountCreateOutcome \<times> string)" where
  "create_attempts rt es draws i 0 db userID bankCode = (db, Inl AccAttempts)"
| "create_attempts rt es draws i (Suc n) db userID bankCode =
     (case generateAccountNumber (draws i) of
        None \<Rightarrow> (db, Inl AccRandom)
      | Some accountNumber \<Rightarrow>
          (case ibanPartsFromAccountNumber accountNumber of
             None \<Rightarrow> (db, Inl AccSlice)
           | Some (sortCode, bbanAcctNum) \<Rightarrow>
               (case Generate rt bankCode sortCode bbanAcctNum of
                  Inl err \<Rightarrow> (db, Inl (AccIban err))
                | Inr ibanValue \<Rightarrow>
                    (case tryCreateAccount rt (es i) db userID accountNumber ibanValue of
                       (db', Inl err) \<Rightarrow>
                         if err = AccNumberTaken then create_attempts rt es draws (Suc i) n db' userID bankCode else (db', Inl err)
                     | (db', Inr res) \<Rightarrow> (db', Inr res)))))"

definition createAccountForUser ::
  "runtime \<Rightarrow> (nat \<Rightarrow> env) \<Rightarrow> (nat \<Rightarrow> int option) \<Rightarrow> accounts_db \<Rightarrow> string \<Rightarrow> string
   \<Rightarrow> accounts_db \<times> (accounts_error + accountCreateOutcome \<times> string)" where
  "createAccountForUser rt es draws db userID bankCode = create_attempts rt es draws 0 maxAccountNumberAttempts db userID bankCode"

subsection \<open>Reading accounts\<close>

text \<open>
  A malformed uuid counts as not found (\<open>isNotFoundErr\<close>). Scanning a row whose IBAN is still NULL into the
  struct's string fails.
\<close>

definition scan_account :: "Account option \<Rightarrow> accounts_error + Account option" where
  "scan_account r =
     (case r of
        None \<Rightarrow> Inr None
      | Some a \<Rightarrow> if acc_IBAN a = None then Inl AccStatement else Inr (Some a))"

definition getAccountByUserID :: "runtime \<Rightarrow> env \<Rightarrow> accounts_db \<Rightarrow> string \<Rightarrow> accounts_error + Account option" where
  "getAccountByUserID rt e db userID =
     (if fails e 0 then Inl AccStatement
      else scan_account (case uuid_in rt userID of None \<Rightarrow> None | Some u \<Rightarrow> find (\<lambda>a. acc_UserID a = u) (accounts db)))"

definition getAccountByID :: "runtime \<Rightarrow> env \<Rightarrow> accounts_db \<Rightarrow> string \<Rightarrow> accounts_error + Account option" where
  "getAccountByID rt e db i =
     (if fails e 0 then Inl AccStatement
      else scan_account (case uuid_in rt i of None \<Rightarrow> None | Some u \<Rightarrow> find (\<lambda>a. acc_ID a = u) (accounts db)))"

text \<open>The order of the rows is Postgres' choice; here it is the table's.\<close>

definition getAccountsByIDs :: "runtime \<Rightarrow> env \<Rightarrow> accounts_db \<Rightarrow> string list \<Rightarrow> accounts_error + Account list" where
  "getAccountsByIDs rt e db ids =
     (if ids = [] then Inr []
      else if fails e 0 \<or> None \<in> set (map (uuid_in rt) ids) then Inl AccStatement
      else (let accs = filter (\<lambda>a. Some (acc_ID a) \<in> set (map (uuid_in rt) ids)) (accounts db) in
            if None \<in> acc_IBAN ` set accs then Inl AccStatement else Inr accs))"

definition getAccountByIBAN :: "env \<Rightarrow> nat \<Rightarrow> accounts_db \<Rightarrow> string \<Rightarrow> accounts_error + Account option" where
  "getAccountByIBAN e i db ibanValue =
     (if fails e i then Inl AccStatement else Inr (find (\<lambda>a. acc_IBAN a = Some ibanValue) (accounts db)))"

subsection \<open>Changing the status\<close>

definition set_account_status :: "env \<Rightarrow> string \<Rightarrow> Account \<Rightarrow> Account" where
  "set_account_status e st a = a\<lparr>acc_Status := st, acc_UpdatedAt := now e\<rparr>"

definition zero_Account :: Account where
  "zero_Account = \<lparr>acc_ID = '''', acc_UserID = '''', acc_AccountNumber = '''', acc_IBAN = Some '''', acc_Status = '''', acc_CreatedAt = 0, acc_UpdatedAt = 0\<rparr>"

text \<open>Sites: 0 begin, 1 the SELECT, 2 the UPDATE, 3 commit.\<close>

definition updateAccountStatus ::
  "runtime \<Rightarrow> env \<Rightarrow> accounts_db \<Rightarrow> string \<Rightarrow> string \<Rightarrow> accounts_db \<times> (accounts_error + Account \<times> accountStatusOutcome)" where
  "updateAccountStatus rt e db i newStatus =
     (if fails e 0 \<or> fails e 1 then (db, Inl AccStatement)
      else case (case uuid_in rt i of None \<Rightarrow> None | Some u \<Rightarrow> find (\<lambda>a. acc_ID a = u) (accounts db)) of
        None \<Rightarrow> (db, Inr (zero_Account, StatusUpdateNotFound))
      | Some a \<Rightarrow>
          if acc_Status a = ''closed'' then (db, Inr (zero_Account, StatusUpdateInvalidTransition))
          else if fails e 2 \<or> newStatus \<notin> validAccountStatuses \<or> acc_IBAN a = None then (db, Inl AccStatement)
          else persist e 3 db (db\<lparr>accounts := update_where (\<lambda>x. acc_ID x = acc_ID a) (set_account_status e newStatus) (accounts db)\<rparr>)
                 AccStatement (set_account_status e newStatus a, StatusUpdateOK))"

subsection \<open>The rate limit\<close>

text \<open>One statement; times and durations in microseconds.\<close>

definition recordResolveAttempt :: "runtime \<Rightarrow> env \<Rightarrow> nat \<Rightarrow> accounts_db \<Rightarrow> string \<Rightarrow> int \<Rightarrow> int \<Rightarrow> accounts_db \<times> (accounts_error + bool)" where
  "recordResolveAttempt rt e i db userID limit window =
     (case uuid_in rt userID of
        None \<Rightarrow> (db, Inl AccStatement)
      | Some u \<Rightarrow>
          if int (length (filter (\<lambda>a. at_user_id a = u \<and> now e - window < at_attempted_at a) (iban_resolve_attempts db))) < limit
          then persist e i db (db\<lparr>iban_resolve_attempts := iban_resolve_attempts db @ [\<lparr>at_user_id = u, at_attempted_at = now e\<rparr>]\<rparr>) AccStatement True
          else persist e i db db AccStatement False)"

definition resolveAttemptsRetention :: int where "resolveAttemptsRetention = 3600000000"

definition deleteStaleResolveAttempts :: "env \<Rightarrow> accounts_db \<Rightarrow> int \<Rightarrow> accounts_db \<times> (accounts_error + nat)" where
  "deleteStaleResolveAttempts e db retention =
     (let stale = (\<lambda>a. at_attempted_at a < now e - retention) in
      persist e 0 db (db\<lparr>iban_resolve_attempts := filter (\<lambda>a. \<not> stale a) (iban_resolve_attempts db)\<rparr>) AccStatement
        (length (filter stale (iban_resolve_attempts db))))"

subsection \<open>The backfill\<close>

fun backfill_loop :: "runtime \<Rightarrow> (nat \<Rightarrow> env) \<Rightarrow> string \<Rightarrow> nat \<Rightarrow> accounts_db \<Rightarrow> Account list \<Rightarrow> accounts_db \<times> (accounts_error + unit)" where
  "backfill_loop rt es bankCode i db [] = (db, Inr ())"
| "backfill_loop rt es bankCode i db (p # ps) =
     (case ibanPartsFromAccountNumber (acc_AccountNumber p) of
        None \<Rightarrow> (db, Inl AccSlice)
      | Some (sortCode, bbanAcctNum) \<Rightarrow>
          (case Generate rt bankCode sortCode bbanAcctNum of
             Inl err \<Rightarrow> (db, Inl (AccIban err))
           | Inr ibanValue \<Rightarrow>
               if \<exists>a\<in>set (accounts db). acc_IBAN a = Some ibanValue \<and> acc_ID a \<noteq> acc_ID p then (db, Inl AccIbanTaken)
               else (case persist (es i) 0 db
                            (db\<lparr>accounts := update_where (\<lambda>a. acc_ID a = acc_ID p) (\<lambda>a. a\<lparr>acc_IBAN := Some ibanValue\<rparr>) (accounts db)\<rparr>)
                            AccStatement () of
                       (db', Inl err) \<Rightarrow> (db', Inl err)
                     | (db', Inr _) \<Rightarrow> backfill_loop rt es bankCode (Suc i) db' ps)))"

definition backfillIBANs :: "runtime \<Rightarrow> env \<Rightarrow> (nat \<Rightarrow> env) \<Rightarrow> accounts_db \<Rightarrow> string \<Rightarrow> accounts_db \<times> (accounts_error + unit)" where
  "backfillIBANs rt e es db bankCode =
     (if fails e 0 then (db, Inl AccStatement)
      else backfill_loop rt es bankCode 0 db (filter (\<lambda>a. acc_IBAN a = None) (accounts db)))"

subsection \<open>The consumer of UserActivated events\<close>

record UserActivated =
  ua_EventId :: string
  ua_UserId :: string

definition isEventProcessed :: "runtime \<Rightarrow> env \<Rightarrow> accounts_db \<Rightarrow> string \<Rightarrow> accounts_error + bool" where
  "isEventProcessed rt e db eventID =
     (if fails e 0 then Inl AccStatement
      else case uuid_in rt eventID of None \<Rightarrow> Inl AccStatement | Some u \<Rightarrow> Inr (u \<in> set (processed_events db)))"

definition markEventProcessed :: "runtime \<Rightarrow> env \<Rightarrow> accounts_db \<Rightarrow> string \<Rightarrow> accounts_db \<times> (accounts_error + unit)" where
  "markEventProcessed rt e db eventID =
     (case uuid_in rt eventID of
        None \<Rightarrow> (db, Inl AccStatement)
      | Some u \<Rightarrow> persist e 1 db (if u \<in> set (processed_events db) then db else db\<lparr>processed_events := processed_events db @ [u]\<rparr>) AccStatement ())"

definition createLedgerAccountForAccount :: "'l ledger_client \<Rightarrow> string \<Rightarrow> 'l \<Rightarrow> 'l \<times> (accounts_error + unit)" where
  "createLedgerAccountForAccount lc accountID l =
     (case lc_CreateLedgerAccount lc 0 accountID l of
        (l', Inl (c, m)) \<Rightarrow> (l', Inl (AccLedger c))
      | (l', Inr acc) \<Rightarrow> (l', Inr ()))"

definition handleUserActivated ::
  "runtime \<Rightarrow> env \<Rightarrow> (nat \<Rightarrow> env) \<Rightarrow> (nat \<Rightarrow> int option) \<Rightarrow> 'l ledger_client \<Rightarrow> UserActivated \<Rightarrow> string \<Rightarrow> accounts_db \<Rightarrow> 'l
   \<Rightarrow> accounts_db \<times> 'l \<times> (accounts_error + unit)" where
  "handleUserActivated rt e es draws lc event bankCode db l =
     (let eventID = ua_EventId event; userID = ua_UserId event in
      if eventID = '''' then
        (case createAccountForUser rt es draws db userID bankCode of
           (db', Inl err) \<Rightarrow> (db', l, Inl err)
         | (db', Inr (_, accountID)) \<Rightarrow>
             (case createLedgerAccountForAccount lc accountID l of (l', r) \<Rightarrow> (db', l', r)))
      else
        (case isEventProcessed rt e db eventID of
           Inl err \<Rightarrow> (db, l, Inl err)
         | Inr True \<Rightarrow> (db, l, Inr ())
         | Inr False \<Rightarrow>
             (case createAccountForUser rt es draws db userID bankCode of
                (db1, Inl err) \<Rightarrow> (db1, l, Inl err)
              | (db1, Inr (outcome, accountID)) \<Rightarrow>
                  (case createLedgerAccountForAccount lc accountID l of
                     (l', Inl err) \<Rightarrow> (db1, l', Inl err)
                   | (l', Inr _) \<Rightarrow>
                       (case markEventProcessed rt e db1 eventID of (db2, r) \<Rightarrow> (db2, l', r))))))"

end
