(* ===== verification/Accounts_Server.thy ===== *)
theory Accounts_Server
  imports Accounts
begin

text \<open>
  The surfaces of accounts-svc: the gRPC server (grpc\_server.go), the HTTP handlers (http.go) without the
  balance chart, and the loop of the UserActivated consumer (kafka.go). Log lines and spans are left out.
\<close>

subsection \<open>The gRPC server\<close>

record accountsServer =
  srv_bankCode :: string
  srv_resolveRateLimit :: int
  srv_resolveRateWindow :: int

definition wrong_bank :: grpc_status where
  "wrong_bank = (FailedPrecondition, ''only transfers within this bank are supported'')"

definition account_summary :: "Account \<Rightarrow> account_ref" where
  "account_summary a = \<lparr>ar_AccountId = acc_ID a, ar_Status = acc_Status a\<rparr>"

text \<open>Site 0 is the rate limit's statement, site 1 the lookup.\<close>

definition ResolveAccountByIban ::
  "runtime \<Rightarrow> env \<Rightarrow> accountsServer \<Rightarrow> string \<Rightarrow> string \<Rightarrow> accounts_db \<Rightarrow> accounts_db \<times> (grpc_status + account_ref)" where
  "ResolveAccountByIban rt e srv iban user_id db =
     (let normalized = Normalize rt iban in
      case Validate rt normalized of
        Inl err \<Rightarrow> (db, Inl (InvalidArgument, ''invalid IBAN''))
      | Inr _ \<Rightarrow>
          if user_id = '''' then (db, Inl (InvalidArgument, ''user_id is required''))
          else (case recordResolveAttempt rt e 0 db user_id (srv_resolveRateLimit srv) (srv_resolveRateWindow srv) of
                  (db', Inl err) \<Rightarrow> (db', Inl internal_error)
                | (db', Inr allowed) \<Rightarrow>
                    if \<not> allowed then (db', Inl (ResourceExhausted, ''too many resolve attempts, try again later''))
                    else if length normalized \<noteq> IELength \<or> take 2 normalized \<noteq> CountryIE then (db', Inl wrong_bank)
                    else if take 4 (drop 4 normalized) \<noteq> srv_bankCode srv then (db', Inl wrong_bank)
                    else (case getAccountByIBAN e 1 db' normalized of
                            Inl err \<Rightarrow> (db', Inl internal_error)
                          | Inr None \<Rightarrow> (db', Inl (NotFound, ''account_not_found''))
                          | Inr (Some acc) \<Rightarrow> (db', Inr (account_summary acc)))))"

definition found_account :: "accounts_error + Account option \<Rightarrow> grpc_status + Account" where
  "found_account r =
     (case r of
        Inl err \<Rightarrow> Inl internal_error
      | Inr None \<Rightarrow> Inl (NotFound, ''account_not_found'')
      | Inr (Some acc) \<Rightarrow> Inr acc)"

text \<open>The response of \<open>GetAccountByID\<close> carries the account number too.\<close>

definition GetAccountByID :: "runtime \<Rightarrow> env \<Rightarrow> accounts_db \<Rightarrow> string \<Rightarrow> grpc_status + account_ref \<times> string" where
  "GetAccountByID rt e db account_id =
     map_sum id (\<lambda>acc. (account_summary acc, acc_AccountNumber acc)) (found_account (getAccountByID rt e db account_id))"

definition GetAccountByUserID :: "runtime \<Rightarrow> env \<Rightarrow> accounts_db \<Rightarrow> string \<Rightarrow> grpc_status + account_ref" where
  "GetAccountByUserID rt e db user_id = map_sum id account_summary (found_account (getAccountByUserID rt e db user_id))"

definition ResolveAccountsByIds :: "runtime \<Rightarrow> env \<Rightarrow> accounts_db \<Rightarrow> string list \<Rightarrow> grpc_status + (string \<times> string) list" where
  "ResolveAccountsByIds rt e db account_ids =
     (case getAccountsByIDs rt e db account_ids of
        Inl err \<Rightarrow> Inl internal_error
      | Inr accs \<Rightarrow> Inr (map (\<lambda>a. (acc_ID a, case acc_IBAN a of Some x \<Rightarrow> x | None \<Rightarrow> '''')) accs))"

text \<open>
  transfers-svc's client connected to this server. Every call has its own environment and its own fate on
  the network: the four methods take turns in numbering them.
\<close>

definition accounts_rpc :: "runtime \<Rightarrow> (nat \<Rightarrow> env) \<Rightarrow> (nat \<Rightarrow> delivery) \<Rightarrow> accountsServer \<Rightarrow> accounts_db accounts_client" where
  "accounts_rpc rt es ns srv = \<lparr>
     ac_ResolveAccountByIban = (\<lambda>i iban user. call (ns (4 * i)) (ResolveAccountByIban rt (es (4 * i)) srv iban user)),
     ac_GetAccountByID = (\<lambda>i a. call (ns (4 * i + 1)) (\<lambda>db. (db, map_sum id fst (GetAccountByID rt (es (4 * i + 1)) db a)))),
     ac_GetAccountByUserID = (\<lambda>i u. call (ns (4 * i + 2)) (\<lambda>db. (db, GetAccountByUserID rt (es (4 * i + 2)) db u))),
     ac_ResolveAccountsByIds = (\<lambda>i ids. call (ns (4 * i + 3)) (\<lambda>db. (db, ResolveAccountsByIds rt (es (4 * i + 3)) db ids)))\<rparr>"

subsection \<open>The HTTP handlers\<close>

definition defaultCurrency :: string where "defaultCurrency = ''EUR''"

datatype accounts_body = JError string | JAccount Account | JMe Account int string

definition writeJSONError :: "nat \<Rightarrow> string \<Rightarrow> accounts_body http_response" where
  "writeJSONError status message = \<lparr>http_status = status, http_body = JError message\<rparr>"

text \<open>\<open>userID\<close> is the header X-User-Id, empty when it is missing.\<close>

definition meAccountHandler ::
  "runtime \<Rightarrow> env \<Rightarrow> 'l ledger_client \<Rightarrow> accounts_db \<Rightarrow> 'l \<Rightarrow> string \<Rightarrow> 'l \<times> accounts_body http_response" where
  "meAccountHandler rt e lc db l userID =
     (if userID = '''' then (l, writeJSONError 400 ''missing_user_id_header'')
      else case getAccountByUserID rt e db userID of
        Inl err \<Rightarrow> (l, writeJSONError 500 ''internal_error'')
      | Inr None \<Rightarrow> (l, writeJSONError 404 ''account_not_found'')
      | Inr (Some acc) \<Rightarrow>
          (case lc_GetBalance lc 0 (acc_ID acc) l of
             (l', Inl (c, m)) \<Rightarrow>
               (l', if c \<in> {Unavailable, DeadlineExceeded} then writeJSONError 503 ''balance_service_unavailable''
                    else writeJSONError 500 ''internal_error'')
           | (l', Inr balance) \<Rightarrow> (l', \<lparr>http_status = 200, http_body = JMe acc balance defaultCurrency\<rparr>)))"

definition getAccountHandler :: "runtime \<Rightarrow> env \<Rightarrow> accounts_db \<Rightarrow> string \<Rightarrow> accounts_body http_response" where
  "getAccountHandler rt e db i =
     (case getAccountByID rt e db i of
        Inl err \<Rightarrow> writeJSONError 500 ''internal_error''
      | Inr None \<Rightarrow> writeJSONError 404 ''account_not_found''
      | Inr (Some acc) \<Rightarrow> \<lparr>http_status = 200, http_body = JAccount acc\<rparr>)"

text \<open>\<open>body\<close> is the status in the decoded request, \<open>None\<close> when decoding fails.\<close>

definition updateAccountStatusHandler ::
  "runtime \<Rightarrow> env \<Rightarrow> accounts_db \<Rightarrow> string \<Rightarrow> string option \<Rightarrow> accounts_db \<times> accounts_body http_response" where
  "updateAccountStatusHandler rt e db i body =
     (case body of
        None \<Rightarrow> (db, writeJSONError 400 ''invalid_request_body'')
      | Some st \<Rightarrow>
          if st \<notin> validAccountStatuses then (db, writeJSONError 400 ''invalid_status_value'')
          else (case updateAccountStatus rt e db i st of
                  (db', Inl err) \<Rightarrow> (db', writeJSONError 500 ''internal_error'')
                | (db', Inr (acc, outcome)) \<Rightarrow>
                    (db', case outcome of
                       StatusUpdateNotFound \<Rightarrow> writeJSONError 404 ''account_not_found''
                     | StatusUpdateInvalidTransition \<Rightarrow> writeJSONError 409 ''invalid_status_transition''
                     | StatusUpdateOK \<Rightarrow> \<lparr>http_status = 200, http_body = JAccount acc\<rparr>)))"

subsection \<open>The consumer\<close>

text \<open>
  What one message of user.events meets: the environments and draws of its handling, and whether
  committing its offset succeeds. A message is \<open>None\<close> when it cannot be unmarshalled. The group's
  committed offset is where consumption starts again after a restart.
\<close>

record consume_env =
  ce_env :: env
  ce_envs :: "nat \<Rightarrow> env"
  ce_draws :: "nat \<Rightarrow> int option"
  ce_rpc_env :: "nat \<Rightarrow> env"
  ce_net :: "nat \<Rightarrow> delivery"
  ce_commit :: bool

record consumer =
  cn_db :: accounts_db
  cn_ledger :: ledger_db
  cn_committed :: nat

definition commit_offset :: "consume_env \<Rightarrow> nat \<Rightarrow> consumer \<Rightarrow> consumer" where
  "commit_offset ce offset s = (if ce_commit ce then s\<lparr>cn_committed := offset + 1\<rparr> else s)"

definition consume_message :: "runtime \<Rightarrow> string \<Rightarrow> consume_env \<Rightarrow> nat \<Rightarrow> UserActivated option \<Rightarrow> consumer \<Rightarrow> consumer" where
  "consume_message rt bankCode ce offset msg s =
     (case msg of
        None \<Rightarrow> commit_offset ce offset s
      | Some event \<Rightarrow>
          (case handleUserActivated rt (ce_env ce) (ce_envs ce) (ce_draws ce) (ledger_rpc rt (ce_rpc_env ce) (ce_net ce))
                  event bankCode (cn_db s) (cn_ledger s) of
             (db', l', Inl err) \<Rightarrow> s\<lparr>cn_db := db', cn_ledger := l'\<rparr>
           | (db', l', Inr _) \<Rightarrow> commit_offset ce offset (s\<lparr>cn_db := db', cn_ledger := l'\<rparr>)))"

text \<open>The messages fetched in one life of the process, from offset \<open>k\<close> on.\<close>

fun runUserActivatedConsumer ::
  "runtime \<Rightarrow> string \<Rightarrow> (nat \<Rightarrow> consume_env) \<Rightarrow> nat \<Rightarrow> UserActivated option list \<Rightarrow> consumer \<Rightarrow> consumer" where
  "runUserActivatedConsumer rt bankCode ces k [] s = s"
| "runUserActivatedConsumer rt bankCode ces k (msg # msgs) s =
     runUserActivatedConsumer rt bankCode ces (Suc k) msgs (consume_message rt bankCode (ces k) k msg s)"

end
