(* ===== verification/Accounts_Properties.thy ===== *)
theory Accounts_Properties
  imports Accounts_Server Reconcile
begin

text \<open>
  What accounts-svc guarantees: accounts, account numbers and IBANs stay unique without a second
  retry loop, an activated user ends up with exactly one account and a ledger account, a closed
  account stays closed, the rate limit holds, and an IBAN resolves to its account.
\<close>

subsection \<open>Account numbers and their IBANs\<close>

lemma show_digits_digits:
  assumes "0 \<le> n" "n < 10 ^ Suc k"
  shows "length (show_digits n) \<le> Suc k \<and> isAllDigits (show_digits n)"
  using assms
proof (induction k arbitrary: n)
  case 0
  then show ?case by (subst (1 2) show_digits.simps) (simp add: isAllDigits_def is_digit_digit_char nat_less_iff)
next
  case (Suc k)
  show ?case
  proof (cases "n < 10")
    case True
    with Suc.prems show ?thesis
      by (subst (1 2) show_digits.simps) (simp add: isAllDigits_def is_digit_digit_char nat_less_iff)
  next
    case False
    have "n div 10 < 10 ^ Suc k" using Suc.prems by (simp add: div_less_iff_less_mult)
    then have "length (show_digits (n div 10)) \<le> Suc k \<and> isAllDigits (show_digits (n div 10))"
      using Suc.IH [of "n div 10"] Suc.prems by simp
    moreover have "show_digits n = show_digits (n div 10) @ [digit_char (nat (n mod 10))]"
      using False by (subst show_digits.simps) simp
    ultimately show ?thesis by (simp add: isAllDigits_def is_digit_digit_char nat_less_iff)
  qed
qed

definition number_shape :: "string \<Rightarrow> bool" where
  "number_shape s \<longleftrightarrow> take 2 s = ''NB'' \<and> length s = 12 \<and> isAllDigits (drop 2 s)"

lemma generateAccountNumber_shape:
  assumes "generateAccountNumber draw = Some s"
  shows "number_shape s"
proof -
  from assms obtain n where s: "s = ''NB'' @ pad10 (n mod 10 ^ 10)"
    by (auto simp: generateAccountNumber_def accountNumberPrefix_def accountNumberDigits_def)
  have "length (show_digits (n mod 10 ^ 10)) \<le> 10 \<and> isAllDigits (show_digits (n mod 10 ^ 10))"
    using show_digits_digits [of "n mod 10 ^ 10" 9] by simp
  then have "length (pad10 (n mod 10 ^ 10)) = 10 \<and> isAllDigits (pad10 (n mod 10 ^ 10))"
    by (auto simp: pad10_def accountNumberDigits_def show_int_def Let_def isAllDigits_def is_digit_def less_eq_char_def list_all_iff not_less)
  then show ?thesis by (simp add: number_shape_def s)
qed

text \<open>The IBAN that belongs to an account number.\<close>

definition iban_of :: "runtime \<Rightarrow> string \<Rightarrow> string \<Rightarrow> string option" where
  "iban_of rt bankCode accountNumber =
     (case ibanPartsFromAccountNumber accountNumber of
        None \<Rightarrow> None
      | Some (s, a) \<Rightarrow> (case Generate rt bankCode s a of Inl _ \<Rightarrow> None | Inr x \<Rightarrow> Some x))"

lemma iban_parts:
  assumes "number_shape s"
  shows "ibanPartsFromAccountNumber s = Some (''0000'' @ take 2 (drop 2 s), drop 4 s)"
proof -
  have "take 8 (drop 2 (drop 2 s)) = drop 4 s"
    using assms by (simp add: number_shape_def)
  then show ?thesis
    using assms by (simp add: ibanPartsFromAccountNumber_def number_shape_def accountNumberPrefix_def Let_def numeral_2_eq_2)
qed

lemma number_from_parts: "number_shape s \<Longrightarrow> s = ''NB'' @ take 2 (drop 2 s) @ drop 4 s"
  unfolding number_shape_def
  by (metis append_take_drop_id drop_drop numeral_Bit0)

lemma iban_of_SomeD:
  assumes "iban_of rt bc s = Some x" "number_shape s"
  shows "Generate rt bc (''0000'' @ take 2 (drop 2 s)) (drop 4 s) = Inr x"
  using assms by (auto simp: iban_of_def iban_parts split: sum.splits)

lemma iban_of_inj:
  assumes "iban_of rt bc s = Some x" "iban_of rt bc t = Some x" "number_shape s" "number_shape t"
  shows "s = t"
proof -
  have "''0000'' @ take 2 (drop 2 s) = ''0000'' @ take 2 (drop 2 t)" "drop 4 s = drop 4 t"
    using Generate_parts(4,5) [OF iban_of_SomeD [OF assms(1,3)]] Generate_parts(4,5) [OF iban_of_SomeD [OF assms(2,4)]] by simp_all
  then show ?thesis using number_from_parts [OF assms(3)] number_from_parts [OF assms(4)] by simp
qed

lemma iban_of_total:
  assumes "isAllLetters (ToUpper rt bc)" "length (ToUpper rt bc) = 4" "number_shape s"
  shows "\<exists>x. iban_of rt bc s = Some x"
proof -
  have d: "isAllDigits (''0000'' @ take 2 (drop 2 s))" "isAllDigits (drop 4 s)"
    using assms(3) by (auto simp: number_shape_def isAllDigits_def is_digit_def less_eq_char_def list_all_iff dest!: in_set_takeD)
      (metis drop_drop in_set_dropD numeral_Bit0)+
  have "length (''0000'' @ take 2 (drop 2 s)) = 6" "length (drop 4 s) = 8"
    using assms(3) by (simp_all add: number_shape_def)
  from Generate_total [OF assms(1,2) d(1) this(1) d(2) this(2)] show ?thesis
    by (auto simp: iban_of_def iban_parts [OF assms(3)])
qed

subsection \<open>The invariant of the table\<close>

definition account_ok :: "runtime \<Rightarrow> string \<Rightarrow> Account \<Rightarrow> bool" where
  "account_ok rt bc a \<longleftrightarrow> number_shape (acc_AccountNumber a) \<and> acc_Status a \<in> validAccountStatuses \<and>
     (acc_IBAN a = None \<or> acc_IBAN a = iban_of rt bc (acc_AccountNumber a))"

definition accounts_inv :: "runtime \<Rightarrow> string \<Rightarrow> accounts_db \<Rightarrow> bool" where
  "accounts_inv rt bc db \<longleftrightarrow> distinct (map acc_ID (accounts db)) \<and> distinct (map acc_UserID (accounts db)) \<and>
     distinct (map acc_AccountNumber (accounts db)) \<and> (\<forall>a\<in>set (accounts db). account_ok rt bc a)"

lemma accounts_inv_same: "accounts db' = accounts db \<Longrightarrow> accounts_inv rt bc db' = accounts_inv rt bc db"
  by (simp add: accounts_inv_def)

lemma same_iban_same_number:
  assumes "accounts_inv rt bc db" "a \<in> set (accounts db)" "acc_IBAN a = Some x" "iban_of rt bc s = Some x" "number_shape s"
  shows "acc_AccountNumber a = s"
proof -
  have "account_ok rt bc a" using assms(1,2) by (simp add: accounts_inv_def)
  then have "number_shape (acc_AccountNumber a)" "iban_of rt bc (acc_AccountNumber a) = Some x"
    using assms(3) by (simp_all add: account_ok_def)
  then show ?thesis using iban_of_inj assms(4,5) by blast
qed

text \<open>What an attempt to create an account does.\<close>

lemma tryCreateAccount_cases:
  assumes "tryCreateAccount rt e db user number iban = (db', r)"
  obtains (failed) err where "db' = db" "r = Inl err"
      "err = AccNumberTaken \<Longrightarrow> number \<in> acc_AccountNumber ` set (accounts db)"
      "err = AccIbanTaken \<Longrightarrow> number \<notin> acc_AccountNumber ` set (accounts db) \<and> Some iban \<in> acc_IBAN ` set (accounts db)"
      "err \<in> {AccStatement, AccNumberTaken, AccIbanTaken, AccRandom}"
    | (exists) u a where "db' = db" "uuid_in rt user = Some u" "find (\<lambda>a. acc_UserID a = u) (accounts db) = Some a"
        "r = Inr (AccountAlreadyExists, acc_ID a)"
    | (created) u eventID ob where "uuid_in rt user = Some u" "find (\<lambda>a. acc_UserID a = u) (accounts db) = None"
        "gen_random_uuid e 0 \<notin> acc_ID ` set (accounts db)" "number \<notin> acc_AccountNumber ` set (accounts db)"
        "GenerateEventID e 0 = Some eventID"
        "InsertEvent rt e 2 eventID ''AccountCreated'' user
           (AccountCreated eventID user (gen_random_uuid e 0) number (clock e)) (accounts_outbox db) = Some ob"
        "db' = db\<lparr>accounts := accounts db @ [fresh_account e u number iban], accounts_outbox := ob\<rparr>"
        "r = Inr (AccountCreateOK, gen_random_uuid e 0) \<or> r = Inl AccStatement \<and> fault_at e 3 = AppliedLost"
proof -
  note d = assms [unfolded tryCreateAccount_def]
  have err: thesis if "(db', r) = (db, Inl x)" "x \<in> {AccStatement, AccRandom}" for x
    using that by (intro failed [of x]) auto
  show thesis
  proof (cases "fails e 0 \<or> fails e 1 \<or> uuid_in rt user = None")
    case True
    then show thesis using d by (intro err) (auto split: option.splits if_splits)
  next
    case False
    then obtain u where u: "uuid_in rt user = Some u" and f: "\<not> (fails e 0 \<or> fails e 1)" by auto
    show thesis
    proof (cases "find (\<lambda>a. acc_UserID a = u) (accounts db)")
      case (Some a)
      show thesis
      proof (cases "fails e 2 \<or> fails e 3")
        case True
        then show thesis using d f u Some
          by (intro err [of AccStatement]) (auto simp: persist_def fails_def split: fault.splits if_splits)
      next
        case False
        then show thesis using d f u Some by (intro exists) (auto simp: persist_NoFault)
      qed
    next
      case None
      consider (id) "gen_random_uuid e 0 \<in> acc_ID ` set (accounts db)"
        | (num) "gen_random_uuid e 0 \<notin> acc_ID ` set (accounts db)" "number \<in> acc_AccountNumber ` set (accounts db)"
        | (iban) "gen_random_uuid e 0 \<notin> acc_ID ` set (accounts db)" "number \<notin> acc_AccountNumber ` set (accounts db)"
            "Some iban \<in> acc_IBAN ` set (accounts db)"
        | (ok) "gen_random_uuid e 0 \<notin> acc_ID ` set (accounts db)" "number \<notin> acc_AccountNumber ` set (accounts db)"
            "Some iban \<notin> acc_IBAN ` set (accounts db)"
        by blast
      then show thesis
      proof cases
        case id
        then show thesis using d f u None by (intro err [of AccStatement]) simp_all
      next
        case num
        then show thesis using d f u None by (intro failed [of AccNumberTaken]) simp_all
      next
        case iban
        then show thesis using d f u None by (intro failed [of AccIbanTaken]) simp_all
      next
        case ok
        show thesis
        proof (cases "GenerateEventID e 0")
          case None': None
          then show thesis using d f u None ok by (intro err [of AccRandom]) simp_all
        next
          case ev: (Some eventID)
          let ?ins = "InsertEvent rt e 2 eventID ''AccountCreated'' user
            (AccountCreated eventID user (gen_random_uuid e 0) number (clock e)) (accounts_outbox db)"
          show thesis
          proof (cases ?ins)
            case None': None
            then show thesis using d f u None ok ev by (intro err [of AccStatement]) simp_all
          next
            case ob: (Some ob)
            have "persist e 3 db (db\<lparr>accounts := accounts db @ [fresh_account e u number iban], accounts_outbox := ob\<rparr>)
                AccStatement (AccountCreateOK, gen_random_uuid e 0) = (db', r)"
              using d f u None ok ev ob by simp
            then show thesis
              by (cases rule: persist_cases) (use err created [OF u None ok(1,2) ev ob] in blast)+
          qed
        qed
      qed
    qed
  qed
qed

lemma tryCreateAccount_inv:
  assumes "tryCreateAccount rt e db user number iban = (db', r)" "accounts_inv rt bc db"
    and "number_shape number" "iban_of rt bc number = Some iban"
  shows "accounts_inv rt bc db'" "r \<noteq> Inl AccIbanTaken" "r \<noteq> Inl AccSlice"
proof -
  show "accounts_inv rt bc db'"
    using assms(1)
  proof (cases rule: tryCreateAccount_cases)
    case (created u eventID ob)
    have "u \<notin> acc_UserID ` set (accounts db)" using created(2) by (auto simp: find_None_in)
    moreover have "account_ok rt bc (fresh_account e u number iban)"
      using assms(3,4) by (simp add: account_ok_def fresh_account_def validAccountStatuses_def)
    ultimately show ?thesis
      using assms(2) created(3,4) by (simp add: created(7) accounts_inv_def) (simp add: fresh_account_def)
  qed (use assms(2) in simp_all)
  have "\<not> (number \<notin> acc_AccountNumber ` set (accounts db) \<and> Some iban \<in> acc_IBAN ` set (accounts db))"
    using same_iban_same_number [OF assms(2) _ _ assms(4,3)] by (metis (no_types, lifting) imageE image_eqI)
  note no = this
  show "r \<noteq> Inl AccIbanTaken" using assms(1) by (cases rule: tryCreateAccount_cases) (use no in auto)
  show "r \<noteq> Inl AccSlice" using assms(1) by (cases rule: tryCreateAccount_cases) auto
qed

text \<open>The whole loop, in one rule for induction: one attempt, and either it ends or it goes on.\<close>

lemma create_attempts_Suc:
  assumes "create_attempts rt es draws i (Suc n) db user bc = (db', r)"
  obtains (early) err where "db' = db" "r = Inl err" "err \<noteq> AccIbanTaken" "err \<noteq> AccSlice"
    | (last) number iban where "number_shape number" "iban_of rt bc number = Some iban"
        "tryCreateAccount rt (es i) db user number iban = (db', r)" "r \<noteq> Inl AccNumberTaken"
    | (again) number iban where "number_shape number" "iban_of rt bc number = Some iban"
        "tryCreateAccount rt (es i) db user number iban = (db, Inl AccNumberTaken)"
        "create_attempts rt es draws (Suc i) n db user bc = (db', r)"
proof (cases "generateAccountNumber (draws i)")
  case None
  then show thesis using assms by (intro early [of AccRandom]) auto
next
  case (Some number)
  note shape = generateAccountNumber_shape [OF Some]
  note parts = iban_parts [OF shape]
  show thesis
  proof (cases "Generate rt bc (''0000'' @ take 2 (drop 2 number)) (drop 4 number)")
    case (Inl err)
    then show thesis using assms Some parts by (intro early [of "AccIban err"]) auto
  next
    case (Inr iban)
    then have iban: "iban_of rt bc number = Some iban" by (simp add: iban_of_def parts)
    obtain d q where t: "tryCreateAccount rt (es i) db user number iban = (d, q)" by fastforce
    show thesis
    proof (cases "q = Inl AccNumberTaken")
      case True
      moreover have "d = db" using t by (cases rule: tryCreateAccount_cases) (use True in auto)
      ultimately show thesis using assms Some parts Inr t again [OF shape iban] by simp
    next
      case False
      then have "d = db' \<and> q = r" using assms Some parts Inr t by (auto split: sum.splits)
      then show thesis using last [OF shape iban] t False by simp
    qed
  qed
qed

lemma create_attempts_inv:
  assumes "create_attempts rt es draws i n db user bc = (db', r)" "accounts_inv rt bc db"
  shows "accounts_inv rt bc db' \<and> r \<noteq> Inl AccIbanTaken \<and> r \<noteq> Inl AccSlice"
  using assms
proof (induction n arbitrary: i)
  case (Suc n)
  from Suc.prems(1) show ?case
  proof (cases rule: create_attempts_Suc)
    case (last number iban)
    then show ?thesis using tryCreateAccount_inv [OF last(3) Suc.prems(2) last(1,2)] by simp
  qed (use Suc in auto)
qed auto

text \<open>What the loop leaves in the tables: nothing new, or one account with its event.\<close>

definition account_added :: "runtime \<Rightarrow> string \<Rightarrow> accounts_db \<Rightarrow> accounts_db \<Rightarrow> Account \<Rightarrow> bool" where
  "account_added rt user db db' a \<longleftrightarrow> uuid_in rt user = Some (acc_UserID a) \<and> acc_UserID a \<notin> acc_UserID ` set (accounts db) \<and>
     acc_Status a = ''active'' \<and> acc_IBAN a \<noteq> None \<and> accounts db' = accounts db @ [a] \<and>
     (\<exists>row. ob_rows (accounts_outbox db') = ob_rows (accounts_outbox db) @ [row] \<and> o_event_type row = ''AccountCreated'' \<and>
        ae_UserId (o_payload row) = user \<and> ae_AccountId (o_payload row) = acc_ID a \<and> ae_AccountNumber (o_payload row) = acc_AccountNumber a) \<and>
     processed_events db' = processed_events db \<and> iban_resolve_attempts db' = iban_resolve_attempts db"

lemma create_attempts_effect:
  assumes "create_attempts rt es draws i n db user bc = (db', r)"
  shows "(db' = db \<or> (\<exists>a. account_added rt user db db' a)) \<and>
    (\<forall>i. r = Inr (AccountCreateOK, i) \<longrightarrow> (\<exists>a. account_added rt user db db' a \<and> acc_ID a = i)) \<and>
    (\<forall>i. r = Inr (AccountAlreadyExists, i) \<longrightarrow> db' = db \<and> (\<exists>a\<in>set (accounts db). uuid_in rt user = Some (acc_UserID a) \<and> acc_ID a = i))"
  using assms
proof (induction n arbitrary: i)
  case (Suc n)
  from Suc.prems(1) show ?case
  proof (cases rule: create_attempts_Suc)
    case (last number iban)
    from last(3) show ?thesis
    proof (cases rule: tryCreateAccount_cases)
      case (exists u a)
      then show ?thesis using find_Some_in [OF exists(3)] by auto
    next
      case (created u eventID ob)
      have "account_added rt user db db' (fresh_account (es i) u number iban)"
        using created(1,2,6) by (auto simp: created(7) account_added_def fresh_account_def InsertEvent_def new_row_def find_None_in
            split: if_splits option.splits)
      then show ?thesis using created(8) by (auto simp: fresh_account_def)
    qed auto
  qed (use Suc in auto)
qed auto

lemma updateAccountStatus_cases:
  assumes "updateAccountStatus rt e db i st = (db', r)"
  obtains (same) "db' = db" "\<And>a. r \<noteq> Inr (a, StatusUpdateOK)"
    | (changed) a where "a \<in> set (accounts db)" "uuid_in rt i = Some (acc_ID a)" "acc_Status a \<noteq> ''closed''" "st \<in> validAccountStatuses"
        "db' = db\<lparr>accounts := update_where (\<lambda>x. acc_ID x = acc_ID a) (set_account_status e st) (accounts db)\<rparr>"
        "r = Inr (set_account_status e st a, StatusUpdateOK) \<or> r = Inl AccStatement"
proof (cases "case uuid_in rt i of None \<Rightarrow> None | Some u \<Rightarrow> find (\<lambda>a. acc_ID a = u) (accounts db)")
  case None
  then show thesis using assms by (intro same) (auto simp: updateAccountStatus_def split: if_splits)
next
  case (Some a)
  then have a: "a \<in> set (accounts db)" "uuid_in rt i = Some (acc_ID a)"
    by (auto split: option.splits dest: find_Some_in)
  show thesis
  proof (cases "fails e 0 \<or> fails e 1 \<or> acc_Status a = ''closed'' \<or> fails e 2 \<or> st \<notin> validAccountStatuses \<or> acc_IBAN a = None")
    case True
    then show thesis using assms Some by (intro same) (auto simp: updateAccountStatus_def split: if_splits)
  next
    case False
    then have "persist e 3 db (db\<lparr>accounts := update_where (\<lambda>x. acc_ID x = acc_ID a) (set_account_status e st) (accounts db)\<rparr>)
        AccStatement (set_account_status e st a, StatusUpdateOK) = (db', r)"
      using assms Some by (auto simp: updateAccountStatus_def)
    then show thesis
      by (cases rule: persist_cases) (use changed [OF a] False same in auto)
  qed
qed

lemma accounts_inv_update:
  assumes "accounts_inv rt bc db"
    and "\<And>a. acc_ID (f a) = acc_ID a \<and> acc_UserID (f a) = acc_UserID a \<and> acc_AccountNumber (f a) = acc_AccountNumber a"
    and "\<And>a. a \<in> set (accounts db) \<Longrightarrow> p a \<Longrightarrow> account_ok rt bc (f a)"
  shows "accounts_inv rt bc (db\<lparr>accounts := update_where p f (accounts db)\<rparr>)"
proof -
  have "map acc_ID (update_where p f (accounts db)) = map acc_ID (accounts db)"
    "map acc_UserID (update_where p f (accounts db)) = map acc_UserID (accounts db)"
    "map acc_AccountNumber (update_where p f (accounts db)) = map acc_AccountNumber (accounts db)"
    using assms(2) by (simp_all add: row_simps)
  moreover have "\<forall>a\<in>set (update_where p f (accounts db)). account_ok rt bc a"
    using assms(1,3) by (auto simp: in_set_update_where accounts_inv_def)
  ultimately show ?thesis using assms(1) by (simp add: accounts_inv_def)
qed

lemma updateAccountStatus_inv:
  assumes "updateAccountStatus rt e db i st = (db', r)" "accounts_inv rt bc db"
  shows "accounts_inv rt bc db'"
  using assms(1)
proof (cases rule: updateAccountStatus_cases)
  case (changed a)
  have "account_ok rt bc (set_account_status e st x)" if "x \<in> set (accounts db)" for x
    using that assms(2) changed(4) by (auto simp: accounts_inv_def account_ok_def set_account_status_def)
  then show ?thesis unfolding changed(5)
    by (intro accounts_inv_update assms(2)) (auto simp: set_account_status_def)
qed (use assms(2) in simp)

lemma backfill_loop_inv:
  assumes "backfill_loop rt es bc i db ps = (db', r)" "accounts_inv rt bc db"
    and "\<And>p. p \<in> set ps \<Longrightarrow> \<exists>a\<in>set (accounts db). acc_ID a = acc_ID p \<and> acc_AccountNumber a = acc_AccountNumber p"
  shows "accounts_inv rt bc db' \<and> r \<noteq> Inl AccIbanTaken \<and> r \<noteq> Inl AccSlice \<and>
    map (\<lambda>a. (acc_ID a, acc_Status a)) (accounts db') = map (\<lambda>a. (acc_ID a, acc_Status a)) (accounts db)"
  using assms
proof (induction ps arbitrary: i db)
  case (Cons p ps)
  obtain a where a: "a \<in> set (accounts db)" "acc_ID a = acc_ID p" "acc_AccountNumber a = acc_AccountNumber p"
    using Cons.prems(3) [of p] by auto
  have shape: "number_shape (acc_AccountNumber p)"
    using a Cons.prems(2) by (force simp: accounts_inv_def account_ok_def)
  note parts = iban_parts [OF shape]
  show ?case
  proof (cases "Generate rt bc (''0000'' @ take 2 (drop 2 (acc_AccountNumber p))) (drop 4 (acc_AccountNumber p))")
    case (Inl err)
    then show ?thesis using Cons.prems(1,2) parts by auto
  next
    case (Inr x)
    then have x: "iban_of rt bc (acc_AccountNumber p) = Some x" by (simp add: iban_of_def parts)
    have "acc_ID b = acc_ID p" if b: "b \<in> set (accounts db)" "acc_IBAN b = Some x" for b
    proof -
      have "acc_AccountNumber b = acc_AccountNumber a"
        using same_iban_same_number [OF Cons.prems(2) b x shape] a(3) by simp
      then have "b = a" using Cons.prems(2) a(1) b(1) by (auto simp: accounts_inv_def distinct_map inj_on_def)
      then show ?thesis using a(2) by simp
    qed
    then have free: "\<not> (\<exists>b\<in>set (accounts db). acc_IBAN b = Some x \<and> acc_ID b \<noteq> acc_ID p)" by blast
    let ?f = "\<lambda>a. a\<lparr>acc_IBAN := Some x\<rparr>"
    let ?db = "db\<lparr>accounts := update_where (\<lambda>a. acc_ID a = acc_ID p) ?f (accounts db)\<rparr>"
    have inv: "accounts_inv rt bc ?db"
    proof (intro accounts_inv_update Cons.prems(2))
      fix b assume b: "b \<in> set (accounts db)" "acc_ID b = acc_ID p"
      then have "b = a" using a Cons.prems(2) by (auto simp: accounts_inv_def distinct_map inj_on_def)
      then show "account_ok rt bc (?f b)" using Cons.prems(2) b(1) x a(3) by (auto simp: accounts_inv_def account_ok_def)
    qed simp
    have same: "map (\<lambda>a. (acc_ID a, acc_Status a)) (accounts ?db) = map (\<lambda>a. (acc_ID a, acc_Status a)) (accounts db)"
      by (simp add: row_simps)
    have rest: "\<exists>a\<in>set (accounts ?db). acc_ID a = acc_ID q \<and> acc_AccountNumber a = acc_AccountNumber q" if q: "q \<in> set ps" for q
    proof -
      obtain b where b: "b \<in> set (accounts db)" "acc_ID b = acc_ID q" "acc_AccountNumber b = acc_AccountNumber q"
        using Cons.prems(3) [of q] q by auto
      from b(1) have "(if acc_ID b = acc_ID p then ?f b else b) \<in> set (accounts ?db)"
        by (simp add: update_where_def del: if_split)
      then show ?thesis by (rule bexI [rotated]) (simp add: b)
    qed
    have loop: "backfill_loop rt es bc i db (p # ps) = (case persist (es i) 0 db ?db AccStatement () of
        (db', Inl err) \<Rightarrow> (db', Inl err) | (db', Inr _) \<Rightarrow> backfill_loop rt es bc (Suc i) db' ps)"
      by (simp only: backfill_loop.simps parts option.case prod.case Inr sum.case free if_False)
    obtain d w where w: "persist (es i) 0 db ?db AccStatement () = (d, w)" by fastforce
    then show ?thesis
    proof (cases rule: persist_cases)
      case ok
      then have "backfill_loop rt es bc (Suc i) ?db ps = (db', r)"
        using Cons.prems(1) loop w by simp
      from Cons.IH [OF this inv rest] same show ?thesis by simp
    next
      case lost
      then show ?thesis using Cons.prems(1,2) loop w by auto
    next
      case applied
      then show ?thesis using Cons.prems(1) loop w inv same by auto
    qed
  qed
qed auto

lemma backfillIBANs_inv:
  assumes "backfillIBANs rt e es db bc = (db', r)" "accounts_inv rt bc db"
  shows "accounts_inv rt bc db' \<and> r \<noteq> Inl AccIbanTaken \<and> r \<noteq> Inl AccSlice \<and>
    map (\<lambda>a. (acc_ID a, acc_Status a)) (accounts db') = map (\<lambda>a. (acc_ID a, acc_Status a)) (accounts db)"
  using assms backfill_loop_inv [of rt es bc 0 db "filter (\<lambda>a. acc_IBAN a = None) (accounts db)" db' r]
  by (auto simp: backfillIBANs_def split: if_splits)

subsection \<open>Steps of the service\<close>

text \<open>One operation on the tables of accounts-svc, with any environment; the bank code is the service's configuration.\<close>

inductive accounts_step :: "runtime \<Rightarrow> string \<Rightarrow> accounts_db \<Rightarrow> accounts_db \<Rightarrow> bool" for rt bc where
  step_create: "createAccountForUser rt es draws db user bc = (db', r) \<Longrightarrow> accounts_step rt bc db db'"
| step_status: "updateAccountStatus rt e db i st = (db', r2) \<Longrightarrow> accounts_step rt bc db db'"
| step_backfill: "backfillIBANs rt e es db bc = (db', r3) \<Longrightarrow> accounts_step rt bc db db'"
| step_processed: "markEventProcessed rt e db ev = (db', r3) \<Longrightarrow> accounts_step rt bc db db'"
| step_attempt: "recordResolveAttempt rt e k db user lim w = (db', r4) \<Longrightarrow> accounts_step rt bc db db'"
| step_cleanup: "deleteStaleResolveAttempts e db retention = (db', r5) \<Longrightarrow> accounts_step rt bc db db'"
| step_relay: "accounts_step rt bc db (db\<lparr>accounts_outbox := ob\<rparr>)"

abbreviation accounts_run :: "runtime \<Rightarrow> string \<Rightarrow> accounts_db \<Rightarrow> accounts_db \<Rightarrow> bool" where
  "accounts_run rt bc \<equiv> (accounts_step rt bc)\<^sup>*\<^sup>*"

lemma other_rows_keep:
  "markEventProcessed rt e db ev = (db', r3) \<Longrightarrow> accounts db' = accounts db"
  "recordResolveAttempt rt e k db user lim w = (db', r4) \<Longrightarrow> accounts db' = accounts db"
  "deleteStaleResolveAttempts e db retention = (db', r5) \<Longrightarrow> accounts db' = accounts db"
  by (auto simp: markEventProcessed_def recordResolveAttempt_def deleteStaleResolveAttempts_def Let_def persist_def
      split: option.splits fault.splits if_splits)

lemma accounts_step_inv:
  assumes "accounts_step rt bc db db'" "accounts_inv rt bc db"
  shows "accounts_inv rt bc db'"
  using assms(1)
proof cases
  case (step_create es draws user r)
  then show ?thesis using create_attempts_inv assms(2) by (fastforce simp: createAccountForUser_def)
next
  case (step_status e i st r2)
  then show ?thesis using updateAccountStatus_inv assms(2) by blast
next
  case (step_backfill e es r3)
  then show ?thesis using backfillIBANs_inv assms(2) by blast
next
  case (step_relay ob)
  then show ?thesis using assms(2) by (simp add: accounts_inv_def)
next
  case (step_processed e ev r3)
  then show ?thesis using accounts_inv_same [OF other_rows_keep(1)] assms(2) by simp
next
  case (step_attempt e k user lim w r4)
  then show ?thesis using accounts_inv_same [OF other_rows_keep(2)] assms(2) by simp
next
  case (step_cleanup e retention r5)
  then show ?thesis using accounts_inv_same [OF other_rows_keep(3)] assms(2) by simp
qed

lemma accounts_run_inv: "accounts_run rt bc db db' \<Longrightarrow> accounts_inv rt bc db \<Longrightarrow> accounts_inv rt bc db'"
  by (induction rule: rtranclp_induct) (auto intro: accounts_step_inv)

text \<open>
  C23: accounts stay unique, and the IBANs with them. From tables that satisfy the schema (rows from before the
  IBAN column may lack one), after any operations with any failures: a user has at most one account, ids,
  account numbers and IBANs are all different, every IBAN passes validation, is its own normal form, carries
  Ireland's and the bank's code and ends with four zeros and the digits of its account's number (the number without its
  two letters), so that it tells which account number it belongs to; and the status is one of the three. Creating an account or filling in
  IBANs never violates the uniqueness of IBANs (no retry loop is needed for it) and never slices a short number.
\<close>

theorem accounts_stay_unique:
  assumes "accounts_inv rt bc db0" "accounts_run rt bc db0 db"
  shows "distinct (map acc_UserID (accounts db)) \<and> distinct (map acc_ID (accounts db)) \<and> distinct (map acc_AccountNumber (accounts db)) \<and>
    distinct (filter (\<lambda>x. x \<noteq> None) (map acc_IBAN (accounts db))) \<and>
    (\<forall>a\<in>set (accounts db). acc_Status a \<in> {''active'', ''frozen'', ''closed''} \<and>
       (\<forall>x. acc_IBAN a = Some x \<longrightarrow> Validate rt x = Inr () \<and> Normalize rt x = x \<and> take 2 x = CountryIE \<and>
         take 4 (drop 4 x) = ToUpper rt bc \<and> drop 8 x = ''0000'' @ drop 2 (acc_AccountNumber a))) \<and>
    snd (createAccountForUser rt es draws db user bc) \<notin> {Inl AccIbanTaken, Inl AccSlice} \<and>
    snd (backfillIBANs rt e es db bc) \<notin> {Inl AccIbanTaken, Inl AccSlice}"
proof -
  note inv = accounts_run_inv [OF assms(2,1)]
  have ibans: "Validate rt x = Inr () \<and> Normalize rt x = x \<and> take 2 x = CountryIE \<and>
      take 4 (drop 4 x) = ToUpper rt bc \<and> drop 8 x = ''0000'' @ drop 2 (acc_AccountNumber a)"
    if "a \<in> set (accounts db)" "acc_IBAN a = Some x" for a x
  proof -
    have "account_ok rt bc a" using inv that(1) by (simp add: accounts_inv_def)
    then have "Generate rt bc (''0000'' @ take 2 (drop 2 (acc_AccountNumber a))) (drop 4 (acc_AccountNumber a)) = Inr x"
      using that(2) iban_of_SomeD by (auto simp: account_ok_def)
    moreover from this have "drop 8 x = ''0000'' @ drop 2 (acc_AccountNumber a)"
      using Generate_parts(4,5) [of rt bc _ _ x] append_take_drop_id [of 6 "drop 8 x"]
        append_take_drop_id [of 2 "drop 2 (acc_AccountNumber a)"] by (simp add: add.commute)
    ultimately show ?thesis by (simp add: Generate_valid Generate_parts(2,3))
  qed
  have "inj_on acc_IBAN {a \<in> set (accounts db). acc_IBAN a \<noteq> None}"
  proof (rule inj_onI)
    fix a b assume a: "a \<in> {a \<in> set (accounts db). acc_IBAN a \<noteq> None}" and b: "b \<in> {a \<in> set (accounts db). acc_IBAN a \<noteq> None}"
      and eq: "acc_IBAN a = acc_IBAN b"
    from b obtain x where x: "acc_IBAN b = Some x" by auto
    have "account_ok rt bc b" using inv b by (simp add: accounts_inv_def)
    then have "number_shape (acc_AccountNumber b)" "iban_of rt bc (acc_AccountNumber b) = Some x"
      using x by (auto simp: account_ok_def)
    moreover have "a \<in> set (accounts db)" "acc_IBAN a = Some x" using a eq x by simp_all
    ultimately have "acc_AccountNumber a = acc_AccountNumber b" by (blast intro: same_iban_same_number [OF inv])
    then show "a = b" using inv a b by (auto simp: accounts_inv_def distinct_map inj_on_def)
  qed
  moreover have "distinct (accounts db)" using inv by (auto simp: accounts_inv_def distinct_map)
  ultimately have d: "distinct (filter (\<lambda>x. x \<noteq> None) (map acc_IBAN (accounts db)))"
    by (simp add: filter_map o_def distinct_map distinct_filter)
  have "snd (createAccountForUser rt es draws db user bc) \<notin> {Inl AccIbanTaken, Inl AccSlice}"
    using create_attempts_inv [OF surjective_pairing inv] by (simp add: createAccountForUser_def)
  moreover have "snd (backfillIBANs rt e es db bc) \<notin> {Inl AccIbanTaken, Inl AccSlice}"
    using backfillIBANs_inv [OF surjective_pairing inv] by simp
  moreover have "\<forall>a\<in>set (accounts db). acc_Status a \<in> {''active'', ''frozen'', ''closed''}"
    using inv by (auto simp: accounts_inv_def account_ok_def validAccountStatuses_def)
  ultimately show ?thesis using d ibans inv by (simp add: accounts_inv_def)
qed

subsection \<open>Creation succeeds\<close>

text \<open>What an attempt needs besides a free number: no failure, and ids that are not in use.\<close>

definition attempt_ready :: "runtime \<Rightarrow> env \<Rightarrow> accounts_db \<Rightarrow> bool" where
  "attempt_ready rt e db \<longleftrightarrow> (\<forall>k. \<not> fails e k) \<and> gen_random_uuid e 0 \<notin> acc_ID ` set (accounts db) \<and>
     (\<exists>v u. GenerateEventID e 0 = Some v \<and> uuid_in rt v = Some u \<and> u \<notin> o_event_id ` set (ob_rows (accounts_outbox db)))"

lemma tryCreateAccount_ready:
  assumes "attempt_ready rt e db" "uuid_in rt user = Some u" "u \<notin> acc_UserID ` set (accounts db)"
    and "accounts_inv rt bc db" "number_shape number" "iban_of rt bc number = Some iban"
  shows "if number \<in> acc_AccountNumber ` set (accounts db)
    then tryCreateAccount rt e db user number iban = (db, Inl AccNumberTaken)
    else \<exists>db'. tryCreateAccount rt e db user number iban = (db', Inr (AccountCreateOK, gen_random_uuid e 0))"
proof -
  have f: "find (\<lambda>a. acc_UserID a = u) (accounts db) = None" using assms(3) by (auto simp: find_None_in)
  have "Some iban \<notin> acc_IBAN ` set (accounts db)" if n: "number \<notin> acc_AccountNumber ` set (accounts db)"
    using same_iban_same_number [OF assms(4) _ _ assms(6,5)] n by (metis (no_types, lifting) imageE image_eqI)
  then show ?thesis
    using assms(1,2) f by (auto simp: attempt_ready_def tryCreateAccount_def InsertEvent_def persist_NoFault)
qed

lemma create_attempts_succeeds:
  assumes "\<And>j. attempt_ready rt (es j) db" "\<And>j. draws j \<noteq> None" "uuid_in rt user = Some u" "u \<notin> acc_UserID ` set (accounts db)"
    and "accounts_inv rt bc db" "isAllLetters (ToUpper rt bc)" "length (ToUpper rt bc) = 4"
    and "\<exists>k. i \<le> k \<and> k < i + n \<and> the (generateAccountNumber (draws k)) \<notin> acc_AccountNumber ` set (accounts db)"
  shows "\<exists>db' j. create_attempts rt es draws i n db user bc = (db', Inr (AccountCreateOK, j))"
  using assms(8)
proof (induction n arbitrary: i)
  case (Suc n)
  obtain number where num: "generateAccountNumber (draws i) = Some number"
    using assms(2) [of i] by (auto simp: generateAccountNumber_def)
  note shape = generateAccountNumber_shape [OF num]
  obtain iban where iban: "iban_of rt bc number = Some iban" using iban_of_total [OF assms(6,7) shape] by blast
  note g = iban_parts [OF shape] iban_of_SomeD [OF iban shape]
  note t = tryCreateAccount_ready [OF assms(1) assms(3,4,5) shape iban, of i]
  show ?case
  proof (cases "number \<in> acc_AccountNumber ` set (accounts db)")
    case True
    from Suc.prems obtain k where k: "i \<le> k" "k < i + Suc n" "the (generateAccountNumber (draws k)) \<notin> acc_AccountNumber ` set (accounts db)"
      by blast
    then have "k \<noteq> i" using True num by auto
    with k have "\<exists>k. Suc i \<le> k \<and> k < Suc i + n \<and> the (generateAccountNumber (draws k)) \<notin> acc_AccountNumber ` set (accounts db)"
      by (intro exI [of _ k]) simp
    from Suc.IH [OF this] show ?thesis using t True by (simp add: num g [simplified])
  next
    case False
    then show ?thesis using t by (auto simp: num g [simplified])
  qed
qed auto

text \<open>
  a user without an account gets one. With a well-formed bank code, no failures and unused ids, ten attempts
  suffice as soon as one of the ten numbers drawn is free: exactly one account is added, active and for
  this user, together with its \<open>AccountCreated\<close> event, and its id is returned.
\<close>

theorem createAccount_succeeds:
  assumes "accounts_inv rt bc db" "isAllLetters (ToUpper rt bc)" "length (ToUpper rt bc) = 4"
    and "uuid_in rt user = Some u" "u \<notin> acc_UserID ` set (accounts db)"
    and "\<forall>j. attempt_ready rt (es j) db \<and> draws j \<noteq> None"
    and "k < 10" "the (generateAccountNumber (draws k)) \<notin> acc_AccountNumber ` set (accounts db)"
  shows "\<exists>db' a. createAccountForUser rt es draws db user bc = (db', Inr (AccountCreateOK, acc_ID a)) \<and> account_added rt user db db' a"
proof -
  have "\<exists>k. 0 \<le> k \<and> k < 0 + maxAccountNumberAttempts \<and> the (generateAccountNumber (draws k)) \<notin> acc_AccountNumber ` set (accounts db)"
    using assms(7,8) by (auto simp: maxAccountNumberAttempts_def)
  then obtain db' j where c: "create_attempts rt es draws 0 maxAccountNumberAttempts db user bc = (db', Inr (AccountCreateOK, j))"
    using create_attempts_succeeds [of rt es db draws user u bc 0 maxAccountNumberAttempts] assms by blast
  from create_attempts_effect [OF c] obtain a where "account_added rt user db db' a" "acc_ID a = j" by blast
  then show ?thesis using c by (auto simp: createAccountForUser_def)
qed

lemma migrated_accounts_rows [simp]: "accounts migrated_accounts = []"
  by (simp add: migrated_accounts_def)

lemma migrated_accounts_inv: "accounts_inv rt bc migrated_accounts"
  by (simp add: accounts_inv_def)

lemma sample_bank_code: "isAllLetters (ToUpper plain_runtime ''NEOB'')" "length (ToUpper plain_runtime ''NEOB'') = 4"
  by code_simp+

lemma sample_attempt_ready: "attempt_ready plain_runtime (sample_env n) migrated_accounts"
  by (simp add: attempt_ready_def sample_env_def migrated_accounts_def empty_outbox_def GenerateEventID_def)

definition sample_new_account :: "accounts_db \<times> (accounts_error + accountCreateOutcome \<times> string)" where
  "sample_new_account = createAccountForUser plain_runtime (\<lambda>i. sample_env (10 + i)) (\<lambda>i. Some (417 + int i)) migrated_accounts ''user1'' ''NEOB''"

theorem createAccount_succeeds_witness:
  "\<exists>db' a. sample_new_account = (db', Inr (AccountCreateOK, acc_ID a)) \<and> account_added plain_runtime ''user1'' migrated_accounts db' a"
  unfolding sample_new_account_def
  by (rule createAccount_succeeds [OF migrated_accounts_inv sample_bank_code, where k = 0]) (simp_all add: sample_attempt_ready)

lemma sample_new_account_created: "\<exists>db' j. sample_new_account = (db', Inr (AccountCreateOK, j))"
  using create_attempts_succeeds [of plain_runtime "\<lambda>i. sample_env (10 + i)" migrated_accounts "\<lambda>i. Some (417 + int i)" "''user1''" "''user1''"
      "''NEOB''" 0 maxAccountNumberAttempts] migrated_accounts_inv sample_bank_code sample_attempt_ready
    exI [of "\<lambda>k. k < 10" "0 :: nat"]
  by (auto simp: maxAccountNumberAttempts_def sample_new_account_def createAccountForUser_def)

lemma sample_new_account_added:
  "\<exists>a. account_added plain_runtime ''user1'' migrated_accounts (fst sample_new_account) a"
  using sample_new_account_created create_attempts_effect by (fastforce simp: sample_new_account_def createAccountForUser_def)

lemma sample_new_account_step: "accounts_run plain_runtime ''NEOB'' migrated_accounts (fst sample_new_account)"
  unfolding sample_new_account_def by (rule r_into_rtranclp) (rule accounts_step.step_create [OF surjective_pairing])

theorem accounts_stay_unique_witness:
  "\<exists>a. accounts (fst sample_new_account) = [a] \<and> acc_UserID a = ''user1'' \<and>
     (\<forall>x. acc_IBAN a = Some x \<longrightarrow> Validate plain_runtime x = Inr () \<and> take 4 (drop 4 x) = ''NEOB'' \<and>
        drop 8 x = ''0000'' @ drop 2 (acc_AccountNumber a))"
proof -
  obtain a where a: "account_added plain_runtime ''user1'' migrated_accounts (fst sample_new_account) a"
    using sample_new_account_added by blast
  have "ToUpper plain_runtime ''NEOB'' = ''NEOB''" by code_simp
  with a accounts_stay_unique [OF migrated_accounts_inv sample_new_account_step] show ?thesis
    by (simp add: account_added_def)
qed

subsection \<open>Closed accounts\<close>

lemma accounts_step_closed:
  assumes "accounts_step rt bc db db'" "accounts_inv rt bc db" "a \<in> set (accounts db)" "acc_Status a = ''closed''"
  shows "\<exists>a'\<in>set (accounts db'). acc_ID a' = acc_ID a \<and> acc_Status a' = ''closed''"
  using assms(1)
proof cases
  case (step_create es draws user r)
  then have "accounts db' = accounts db \<or> (\<exists>n. accounts db' = accounts db @ [n])"
    using create_attempts_effect [of rt es draws 0 maxAccountNumberAttempts db user bc db' r]
    by (auto simp: createAccountForUser_def account_added_def)
  then have "a \<in> set (accounts db')" using assms(3) by auto
  then show ?thesis using assms(4) by blast
next
  case (step_status e i st r2)
  from step_status show ?thesis
  proof (cases rule: updateAccountStatus_cases)
    case (changed b)
    have "acc_ID a \<noteq> acc_ID b"
      using assms(2-4) changed(1,3) by (auto simp: accounts_inv_def distinct_map inj_on_def)
    then have "a \<in> set (accounts db')" using assms(3) by (auto simp: changed(5) in_set_update_where)
    then show ?thesis using assms(4) by blast
  qed (use assms(3,4) in blast)
next
  case (step_backfill e es r3)
  then have "map (\<lambda>a. (acc_ID a, acc_Status a)) (accounts db') = map (\<lambda>a. (acc_ID a, acc_Status a)) (accounts db)"
    using backfillIBANs_inv assms(2) by blast
  then have "(acc_ID a, acc_Status a) \<in> set (map (\<lambda>a. (acc_ID a, acc_Status a)) (accounts db'))"
    using assms(3) by simp
  then show ?thesis using assms(4) by auto
next
  case (step_processed e ev r3)
  then show ?thesis using other_rows_keep(1) assms(3,4) by metis
next
  case (step_attempt e k user lim w r4)
  then show ?thesis using other_rows_keep(2) assms(3,4) by metis
next
  case (step_cleanup e retention r5)
  then show ?thesis using other_rows_keep(3) assms(3,4) by metis
next
  case (step_relay ob)
  then show ?thesis using assms(3,4) by auto
qed

text \<open>
  C29: closed is final. However the service goes on, an account that is closed stays closed, and the
  handler answers a further change of its status with 409 and changes nothing.
\<close>

theorem closed_is_final:
  assumes "accounts_inv rt bc db" "a \<in> set (accounts db)" "acc_Status a = ''closed''" "accounts_run rt bc db db'"
    and "uuid_in rt i = Some (acc_ID a)" "st \<in> validAccountStatuses" "\<forall>k. \<not> fails e k"
  shows "(\<exists>a'\<in>set (accounts db'). acc_ID a' = acc_ID a \<and> acc_Status a' = ''closed'') \<and>
    updateAccountStatusHandler rt e db' i (Some st) = (db', \<lparr>http_status = 409, http_body = JError ''invalid_status_transition''\<rparr>)"
proof -
  from assms(4) have *: "\<exists>a'\<in>set (accounts db'). acc_ID a' = acc_ID a \<and> acc_Status a' = ''closed''"
  proof (induction rule: rtranclp_induct)
    case base
    then show ?case using assms(2,3) by blast
  next
    case (step y z)
    then obtain a' where "a' \<in> set (accounts y)" "acc_ID a' = acc_ID a" "acc_Status a' = ''closed''" by blast
    with accounts_step_closed [OF step.hyps(2) accounts_run_inv [OF step.hyps(1) assms(1)], of a'] show ?case by metis
  qed
  then obtain a' where a': "a' \<in> set (accounts db')" "acc_ID a' = acc_ID a" "acc_Status a' = ''closed''" by blast
  have "distinct (map acc_ID (accounts db'))" using accounts_run_inv [OF assms(4,1)] by (simp add: accounts_inv_def)
  from find_unique [OF this a'(1,2)] * show ?thesis
    using assms(5-7) a' by (simp add: updateAccountStatusHandler_def updateAccountStatus_def writeJSONError_def)
qed

text \<open>An account from before the IBAN column, closed.\<close>

definition sample_closed :: accounts_db where
  "sample_closed = migrated_accounts\<lparr>accounts := [\<lparr>acc_ID = ''acc'', acc_UserID = ''user'', acc_AccountNumber = ''NB0000000417'',
     acc_IBAN = None, acc_Status = ''closed'', acc_CreatedAt = 1, acc_UpdatedAt = 2\<rparr>]\<rparr>"

theorem closed_is_final_witness:
  "updateAccountStatusHandler plain_runtime (sample_env 51) sample_closed ''acc'' (Some ''active'')
     = (sample_closed, \<lparr>http_status = 409, http_body = JError ''invalid_status_transition''\<rparr>)"
proof -
  have "number_shape ''NB0000000417''" by code_simp
  then have inv: "accounts_inv plain_runtime ''NEOB'' sample_closed"
    by (simp add: accounts_inv_def sample_closed_def account_ok_def validAccountStatuses_def)
  from closed_is_final [OF inv _ _ rtranclp.rtrancl_refl, of "hd (accounts sample_closed)" "''acc''" "''active''" "sample_env 51"] show ?thesis
    by (simp add: sample_closed_def validAccountStatuses_def sample_env_def)
qed

subsection \<open>Activated users\<close>

text \<open>A user is served when there is an account for it and a ledger account for that account.\<close>

definition served :: "runtime \<Rightarrow> accounts_db \<Rightarrow> ledger_db \<Rightarrow> string \<Rightarrow> bool" where
  "served rt db l user \<longleftrightarrow> (\<exists>a\<in>set (accounts db). uuid_in rt user = Some (acc_UserID a) \<and> account_of rt l (acc_ID a) \<noteq> None)"

lemma CreateLedgerAccount_creates:
  assumes "CreateLedgerAccount rt e a l = (l', Inr acc)"
  shows "account_of rt l' a \<noteq> None"
proof -
  from assms have "\<exists>r. createLedgerAccount rt e l a = (l', Inr r)"
    by (auto simp: CreateLedgerAccount_def split: prod.splits sum.splits)
  then show ?thesis
    by (auto simp: createLedgerAccount_def account_of_def persist_def find_account_def find_append
        split: option.splits if_splits fault.splits)
qed

lemma createLedgerAccountForAccount_creates:
  assumes "createLedgerAccountForAccount (ledger_rpc rt rs ns) a l = (l', Inr ())"
  shows "account_of rt l' a \<noteq> None"
proof -
  from assms obtain acc where "call (ns 0) (CreateLedgerAccount rt (rs 0) a) l = (l', Inr acc)"
    by (auto simp: createLedgerAccountForAccount_def ledger_rpc_def split: prod.splits sum.splits)
  then have "CreateLedgerAccount rt (rs 0) a l = (l', Inr acc)" by (auto elim: call_cases)
  then show ?thesis by (rule CreateLedgerAccount_creates)
qed

text \<open>The three stages of handling an event that was not processed before.\<close>

lemma handleUserActivated_cases:
  assumes "handleUserActivated rt e es draws (ledger_rpc rt rs ns) event bc db l = (db', l', r)"
    and "ua_EventId event \<noteq> ''''" "uuid_in rt (ua_EventId event) = Some v" "v \<notin> set (processed_events db)"
  obtains (stopped) err where "r = Inl err" "processed_events db' = processed_events db"
        "db' = db \<or> (\<exists>a. account_added rt (ua_UserId event) db db' a)"
    | (finished) db1 where "db1 = db \<or> (\<exists>a. account_added rt (ua_UserId event) db db1 a)" "served rt db1 l' (ua_UserId event)"
        "markEventProcessed rt e db1 (ua_EventId event) = (db', r)"
proof (cases "fails e 0")
  case True
  then show thesis using assms by (intro stopped [of AccStatement]) (auto simp: handleUserActivated_def isEventProcessed_def)
next
  case False
  then have p: "isEventProcessed rt e db (ua_EventId event) = Inr False" using assms(3,4) by (simp add: isEventProcessed_def)
  obtain db1 c where c: "createAccountForUser rt es draws db (ua_UserId event) bc = (db1, c)" by fastforce
  note eff = create_attempts_effect [OF c [unfolded createAccountForUser_def]]
  have db1: "db1 = db \<or> (\<exists>a. account_added rt (ua_UserId event) db db1 a)" using eff by blast
  then have pe: "processed_events db1 = processed_events db" by (auto simp: account_added_def)
  show thesis
  proof (cases c)
    case (Inl err)
    then show thesis using assms p c db1 pe by (intro stopped [of err]) (auto simp: handleUserActivated_def)
  next
    case (Inr res)
    then obtain out i where res: "c = Inr (out, i)" by (cases res) auto
    obtain l1 q where q: "createLedgerAccountForAccount (ledger_rpc rt rs ns) i l = (l1, q)" by fastforce
    show thesis
    proof (cases q)
      case (Inl err)
      then show thesis using assms p c res q db1 pe by (intro stopped [of err]) (auto simp: handleUserActivated_def)
    next
      case (Inr u)
      have "\<exists>a\<in>set (accounts db1). uuid_in rt (ua_UserId event) = Some (acc_UserID a) \<and> acc_ID a = i"
        using eff res by (cases out) (auto simp: account_added_def)
      then have "served rt db1 l1 (ua_UserId event)"
        using createLedgerAccountForAccount_creates q Inr by (force simp: served_def)
      moreover have "l1 = l'" "markEventProcessed rt e db1 (ua_EventId event) = (db', r)"
        using assms(1,2) p c res q Inr by (auto simp: handleUserActivated_def split: prod.splits)
      ultimately show thesis using finished db1 by blast
    qed
  qed
qed

text \<open>
  C24: an activated user is served before the event counts as processed. For an event that was not processed before,
  whatever fails on the way: at most one account is added, and only for a user without one; the
  event is recorded as processed only in a state in which the user has an account and that account a
  ledger account; success means exactly that, and delivering the event again then changes nothing. An
  error leaves the event unprocessed, unless only the answer to the last write was lost.
\<close>

theorem activated_user_is_served:
  assumes "handleUserActivated rt e es draws (ledger_rpc rt rs ns) event bc db l = (db', l', r)"
    and "ua_EventId event \<noteq> ''''" "uuid_in rt (ua_EventId event) = Some v" "v \<notin> set (processed_events db)"
  shows "(accounts db' = accounts db \<or> (\<exists>a. accounts db' = accounts db @ [a] \<and> acc_UserID a \<notin> acc_UserID ` set (accounts db))) \<and>
    (v \<in> set (processed_events db') \<longrightarrow> served rt db' l' (ua_UserId event)) \<and>
    (r = Inr () \<longrightarrow> v \<in> set (processed_events db') \<and>
       (\<forall>e2 es2 draws2 lc2. \<not> fails e2 0 \<longrightarrow> handleUserActivated rt e2 es2 draws2 lc2 event bc db' l' = (db', l', Inr ()))) \<and>
    (\<forall>err. r = Inl err \<longrightarrow> processed_events db' = processed_events db \<or> fault_at e 1 = AppliedLost)"
  using assms
proof (cases rule: handleUserActivated_cases)
  case (stopped err)
  then show ?thesis using assms(4) by (auto simp: account_added_def)
next
  case (finished db1)
  have m: "accounts db' = accounts db1" "r = Inr () \<Longrightarrow> v \<in> set (processed_events db')"
    "r \<noteq> Inr () \<Longrightarrow> db' = db1 \<or> fault_at e 1 = AppliedLost"
    using finished(3) assms(3) by (auto simp: markEventProcessed_def persist_def split: fault.splits if_splits)
  have "served rt db' l' (ua_UserId event)" using finished(2) m(1) by (simp add: served_def)
  moreover have "processed_events db1 = processed_events db"
    "accounts db1 = accounts db \<or> (\<exists>a. accounts db1 = accounts db @ [a] \<and> acc_UserID a \<notin> acc_UserID ` set (accounts db))"
    using finished(1) by (auto simp: account_added_def)
  moreover have "handleUserActivated rt e2 es2 draws2 lc2 event bc db' l' = (db', l', Inr ())"
    if "r = Inr ()" "\<not> fails e2 0" for e2 es2 draws2 lc2
    using that m(2) assms(2,3) by (simp add: handleUserActivated_def isEventProcessed_def)
  ultimately show ?thesis using m by auto
qed

definition sample_activation :: UserActivated where
  "sample_activation = \<lparr>ua_EventId = ''event1'', ua_UserId = ''user1''\<rparr>"

lemma sample_ledger_account: "\<exists>l'. createLedgerAccountForAccount (sample_rpc 30 Delivered) i sample_ledger = (l', Inr ())"
proof -
  have "sample_ids 30 0 \<notin> la_id ` set (ledger_accounts sample_ledger)" by code_simp
  then show ?thesis
    by (auto simp: createLedgerAccountForAccount_def sample_rpc_def ledger_rpc_def CreateLedgerAccount_def createLedgerAccount_def
        sample_env_def persist_NoFault split: option.splits)
qed

definition sample_handled :: "accounts_db \<times> ledger_db \<times> (accounts_error + unit)" where
  "sample_handled = handleUserActivated plain_runtime (sample_env 9) (\<lambda>i. sample_env (10 + i)) (\<lambda>i. Some (417 + int i))
     (sample_rpc 30 Delivered) sample_activation ''NEOB'' migrated_accounts sample_ledger"

lemma sample_handled_ok: "snd (snd sample_handled) = Inr ()"
proof -
  obtain db1 out i where c: "createAccountForUser plain_runtime (\<lambda>i. sample_env (10 + i)) (\<lambda>i. Some (417 + int i)) migrated_accounts ''user1'' ''NEOB'' = (db1, Inr (out, i))"
    using sample_new_account_created by (auto simp: sample_new_account_def)
  obtain l' where "createLedgerAccountForAccount (sample_rpc 30 Delivered) i sample_ledger = (l', Inr ())"
    using sample_ledger_account by blast
  moreover have "isEventProcessed plain_runtime (sample_env 9) migrated_accounts ''event1'' = Inr False"
    by (simp add: isEventProcessed_def sample_env_def migrated_accounts_def)
  moreover have "snd (markEventProcessed plain_runtime (sample_env 9) db1 ''event1'') = Inr ()"
    by (simp add: markEventProcessed_def sample_env_def snd_persist)
  ultimately show ?thesis
    by (auto simp: sample_handled_def handleUserActivated_def sample_activation_def c split: prod.splits)
qed

theorem activated_user_is_served_witness:
  "case sample_handled of (db', l', r) \<Rightarrow> r = Inr () \<and> ''event1'' \<in> set (processed_events db') \<and> served plain_runtime db' l' ''user1''"
proof -
  obtain db' l' r where h: "sample_handled = (db', l', r)" using prod_cases3 by blast
  have r: "r = Inr ()" using sample_handled_ok unfolding h by simp
  have p: "''event1'' \<notin> set (processed_events migrated_accounts)" by (simp add: migrated_accounts_def)
  from activated_user_is_served [OF h [unfolded sample_handled_def sample_rpc_def] _ _ p] r
  have "''event1'' \<in> set (processed_events db') \<and> served plain_runtime db' l' ''user1''"
    by (simp add: sample_activation_def)
  with r show ?thesis unfolding h by simp
qed

text \<open>
  The consumer can lose an event. When handling a message fails, its offset is not committed, but the loop
  goes on, and committing the next message moves the group's offset past it: here the first user's event
  fails (no random number), the next message is committed, and a restart begins after both although
  nothing was done for the user.
\<close>

theorem consumer_skips_failed_event:
  "case runUserActivatedConsumer plain_runtime ''NEOB''
      (\<lambda>_. \<lparr>ce_env = sample_env 9, ce_envs = \<lambda>i. sample_env (10 + i), ce_draws = \<lambda>_. None, ce_rpc_env = sample_env, ce_net = \<lambda>_. Delivered, ce_commit = True\<rparr>)
      0 [Some sample_activation, None] \<lparr>cn_db = migrated_accounts, cn_ledger = sample_ledger, cn_committed = 0\<rparr> of
     s \<Rightarrow> cn_committed s = 2 \<and> accounts (cn_db s) = [] \<and> processed_events (cn_db s) = []"
  by code_simp

subsection \<open>The rate limit\<close>

text \<open>
  Attempts and cleanups in the order of their transactions' times; the log keeps the user and the
  time of every attempt that was let through.
\<close>

inductive rate_run :: "runtime \<Rightarrow> int \<Rightarrow> int \<Rightarrow> int \<Rightarrow> accounts_db \<Rightarrow> (string \<times> int) list \<Rightarrow> int \<Rightarrow> bool" for rt lim window retention where
  rate_start: "iban_resolve_attempts db = [] \<Longrightarrow> rate_run rt lim window retention db [] t"
| rate_attempt: "rate_run rt lim window retention db log t \<Longrightarrow> t \<le> now e \<Longrightarrow>
    recordResolveAttempt rt e k db user lim window = (db', r) \<Longrightarrow> uuid_in rt user = Some u \<Longrightarrow>
    rate_run rt lim window retention db' (if r = Inr True then log @ [(u, now e)] else log) (now e)"
| rate_cleanup: "rate_run rt lim window retention db log t \<Longrightarrow> t \<le> now e \<Longrightarrow>
    deleteStaleResolveAttempts e db retention = (db', r2) \<Longrightarrow> rate_run rt lim window retention db' log (now e)"
| rate_other: "rate_run rt lim window retention db log t \<Longrightarrow> iban_resolve_attempts db' = iban_resolve_attempts db \<Longrightarrow>
    rate_run rt lim window retention db' log t"

definition rows_since :: "accounts_db \<Rightarrow> string \<Rightarrow> int \<Rightarrow> nat" where
  "rows_since db u s = length (filter (\<lambda>a. at_user_id a = u \<and> s < at_attempted_at a) (iban_resolve_attempts db))"

definition passed_within :: "(string \<times> int) list \<Rightarrow> string \<Rightarrow> int \<Rightarrow> int \<Rightarrow> nat" where
  "passed_within log u s t = length (filter (\<lambda>p. fst p = u \<and> s < snd p \<and> snd p \<le> t) log)"

lemma passed_within_mono: "s \<le> s' \<Longrightarrow> t' \<le> t \<Longrightarrow> passed_within log u s' t' \<le> passed_within log u s t"
  unfolding passed_within_def by (induction log) auto

lemma rate_run_inv:
  assumes "rate_run rt lim window retention db log t" "0 \<le> lim" "window \<le> retention" "0 \<le> window"
  shows "(\<forall>s\<ge>t - retention. \<forall>u t'. passed_within log u s t' \<le> rows_since db u s) \<and>
    (\<forall>u t'. int (passed_within log u (t' - window) t') \<le> lim)"
  using assms(1)
proof (induction rule: rate_run.induct)
  case (rate_start db t)
  then show ?case using assms(2) by (simp add: passed_within_def)
next
  case (rate_attempt db log t e k user db' r u)
  have grow: "rows_since db v s \<le> rows_since db' v s" for v s
    using rate_attempt.hyps(3,4) by (auto simp: recordResolveAttempt_def rows_since_def persist_def split: if_splits fault.splits)
  show ?case
  proof (cases "r = Inr True")
    case False
    then have "\<forall>s\<ge>now e - retention. \<forall>u t'. passed_within log u s t' \<le> rows_since db' u s"
      using rate_attempt.IH rate_attempt.hyps(2) grow by (meson diff_right_mono order.trans)
    with False rate_attempt.IH show ?thesis by simp
  next
    case True
    then have room: "int (rows_since db u (now e - window)) < lim"
      and db': "db' = db\<lparr>iban_resolve_attempts := iban_resolve_attempts db @ [\<lparr>at_user_id = u, at_attempted_at = now e\<rparr>]\<rparr>"
      using rate_attempt.hyps(3,4) by (auto simp: recordResolveAttempt_def rows_since_def persist_def split: if_splits fault.splits)
    let ?log = "log @ [(u, now e)]"
    have new: "passed_within ?log v s t' = passed_within log v s t' + (if v = u \<and> s < now e \<and> now e \<le> t' then 1 else 0)"
      "rows_since db' v s = rows_since db v s + (if v = u \<and> s < now e then 1 else 0)" for v s t'
      by (auto simp: passed_within_def rows_since_def db')
    have old: "passed_within log v s t' \<le> rows_since db v s" if "now e - retention \<le> s" for v s t'
      using rate_attempt.IH rate_attempt.hyps(2) that by (meson diff_right_mono order.trans)
    have "int (passed_within ?log v (t' - window) t') \<le> lim" for v t'
    proof (cases "v = u \<and> t' - window < now e \<and> now e \<le> t'")
      case in_window: True
      have "passed_within log u (t' - window) t' \<le> passed_within log u (now e - window) t'"
        using in_window by (intro passed_within_mono) simp_all
      also have "\<dots> \<le> rows_since db u (now e - window)" using old assms(3) by simp
      finally show ?thesis using room in_window by (simp add: new)
    next
      case outside: False
      then show ?thesis using rate_attempt.IH by (auto simp: new)
    qed
    moreover have "passed_within ?log v s t' \<le> rows_since db' v s" if "now e - retention \<le> s" for v s t'
      using old [OF that, of v t'] by (auto simp: new)
    ultimately show ?thesis using True by simp
  qed
next
  case (rate_cleanup db log t e db' r2)
  have kept: "rows_since db' v s = rows_since db v s" if "now e - retention \<le> s" for v s
  proof -
    have f: "filter (\<lambda>a. at_user_id a = v \<and> s < at_attempted_at a) (filter (\<lambda>a. \<not> at_attempted_at a < now e - retention) xs)
        = filter (\<lambda>a. at_user_id a = v \<and> s < at_attempted_at a) xs" for xs
      unfolding filter_filter by (intro filter_cong) (use that in auto)
    show ?thesis
      using rate_cleanup.hyps(3)
      by (auto simp: deleteStaleResolveAttempts_def rows_since_def persist_def Let_def f simp del: filter_filter split: fault.splits)
  qed
  then have "\<forall>s\<ge>now e - retention. \<forall>u t'. passed_within log u s t' \<le> rows_since db' u s"
    using rate_cleanup.IH rate_cleanup.hyps(2) by (metis diff_right_mono order.trans)
  with rate_cleanup.IH show ?case by simp
next
  case (rate_other db log t db')
  then show ?case by (simp add: rows_since_def)
qed

text \<open>
  The limit on resolving IBANs holds for every window. Whatever the order of attempts, failures and
  cleanups (carried out one after the other), in any window of the configured length at most the configured
  number of a user's attempts were let through, provided rows are kept at least as long as the window.
\<close>

theorem resolve_rate_limited:
  assumes "rate_run rt lim window retention db log t" "0 \<le> lim" "0 \<le> window" "window \<le> retention"
  shows "int (passed_within log u (t' - window) t') \<le> lim"
  using rate_run_inv [OF assms(1,2,4,3)] by blast

text \<open>Two attempts are let through with the limit 2, the third within the window is not.\<close>

definition sample_attempt :: "nat \<Rightarrow> accounts_db \<Rightarrow> accounts_db \<times> (accounts_error + bool)" where
  "sample_attempt n db = recordResolveAttempt plain_runtime (sample_env n) 0 db ''u'' 2 300"

theorem resolve_rate_limited_witness:
  "snd (sample_attempt 3 (fst (sample_attempt 2 (fst (sample_attempt 1 migrated_accounts))))) = Inr False \<and>
   int (passed_within [(''u'', 1), (''u'', 2)] ''u'' (3 - 300) 3) \<le> 2"
proof -
  have r: "snd (sample_attempt 1 migrated_accounts) = Inr True" "snd (sample_attempt 2 (fst (sample_attempt 1 migrated_accounts))) = Inr True"
    and third: "snd (sample_attempt 3 (fst (sample_attempt 2 (fst (sample_attempt 1 migrated_accounts))))) = Inr False"
    by code_simp+
  have "rate_run plain_runtime 2 300 3600 migrated_accounts [] 0" by (intro rate_run.rate_start) (simp add: migrated_accounts_def)
  from rate_run.rate_attempt [OF this _ surjective_pairing [of "sample_attempt 1 migrated_accounts", unfolded sample_attempt_def]]
  have "rate_run plain_runtime 2 300 3600 (fst (sample_attempt 1 migrated_accounts)) [(''u'', 1)] 1"
    using r(1) by (simp add: sample_attempt_def sample_env_def)
  from rate_run.rate_attempt [OF this _ surjective_pairing [of "sample_attempt 2 (fst (sample_attempt 1 migrated_accounts))", unfolded sample_attempt_def [of 2]]]
  have run: "rate_run plain_runtime 2 300 3600 (fst (sample_attempt 2 (fst (sample_attempt 1 migrated_accounts)))) [(''u'', 1), (''u'', 2)] 2"
    using r(2) by (simp add: sample_attempt_def sample_env_def)
  from resolve_rate_limited [OF run, of "''u''" 3] third show ?thesis by simp
qed

subsection \<open>Owners of accounts\<close>

text \<open>Who owns an account, by its id. Once an account exists its owner never changes.\<close>

definition account_owner :: "accounts_db \<Rightarrow> string \<rightharpoonup> string" where
  "account_owner db = map_of (map (\<lambda>a. (acc_ID a, acc_UserID a)) (accounts db))"

lemma account_owner_find: "account_owner db u = map_option acc_UserID (find (\<lambda>a. acc_ID a = u) (accounts db))"
proof -
  have "map_of (map (\<lambda>a. (acc_ID a, acc_UserID a)) xs) u = map_option acc_UserID (find (\<lambda>a. acc_ID a = u) xs)" for xs
    by (induction xs) auto
  then show ?thesis by (simp add: account_owner_def)
qed

lemma account_owner_appended: "accounts db' = accounts db @ xs \<Longrightarrow> account_owner db \<subseteq>\<^sub>m account_owner db'"
  by (auto simp: account_owner_def map_le_def map_add_def dom_def split: option.splits)

lemma account_owner_same:
  "map (\<lambda>a. (acc_ID a, acc_UserID a)) (accounts db') = map (\<lambda>a. (acc_ID a, acc_UserID a)) (accounts db) \<Longrightarrow> account_owner db \<subseteq>\<^sub>m account_owner db'"
  by (simp add: account_owner_def)

lemma update_where_owner:
  "(\<And>a. acc_ID (f a) = acc_ID a \<and> acc_UserID (f a) = acc_UserID a) \<Longrightarrow>
   map (\<lambda>a. (acc_ID a, acc_UserID a)) (update_where p f xs) = map (\<lambda>a. (acc_ID a, acc_UserID a)) xs"
  by (simp add: row_simps)

lemma backfill_loop_owner:
  "backfill_loop rt es bc i db ps = (db', r) \<Longrightarrow>
   map (\<lambda>a. (acc_ID a, acc_UserID a)) (accounts db') = map (\<lambda>a. (acc_ID a, acc_UserID a)) (accounts db)"
proof (induction ps arbitrary: i db)
  case (Cons p ps)
  have step: "map (\<lambda>a. (acc_ID a, acc_UserID a)) (accounts d) = map (\<lambda>a. (acc_ID a, acc_UserID a)) (accounts db)"
    if "persist (es i) 0 db (db\<lparr>accounts := update_where (\<lambda>a. acc_ID a = acc_ID p) (\<lambda>a. a\<lparr>acc_IBAN := Some x\<rparr>) (accounts db)\<rparr>) AccStatement () = (d, w)"
    for x d w
    using that by (cases rule: persist_cases) (simp_all add: update_where_owner)
  show ?case using Cons.prems
    by (auto split: option.splits prod.splits sum.splits if_splits dest!: step Cons.IH)
qed simp

lemma accounts_step_owner:
  assumes "accounts_step rt bc db db'"
  shows "account_owner db \<subseteq>\<^sub>m account_owner db'"
  using assms
proof cases
  case (step_create es draws user r)
  then have "accounts db' = accounts db \<or> (\<exists>n. accounts db' = accounts db @ [n])"
    using create_attempts_effect [of rt es draws 0 maxAccountNumberAttempts db user bc db' r]
    by (auto simp: createAccountForUser_def account_added_def)
  then show ?thesis using account_owner_appended [of db' db "[]"] account_owner_appended [of db' db] by auto
next
  case (step_status e i st r2)
  then show ?thesis
    by (cases rule: updateAccountStatus_cases) (auto intro!: account_owner_same update_where_owner simp: set_account_status_def)
next
  case (step_backfill e es r3)
  then show ?thesis using backfill_loop_owner by (auto simp: backfillIBANs_def split: if_splits intro!: account_owner_same)
next
  case (step_relay ob)
  then show ?thesis by (simp add: account_owner_same)
next
  case (step_processed e ev r3)
  then show ?thesis using other_rows_keep(1) by (simp add: account_owner_same)
next
  case (step_attempt e k user lim w r4)
  then show ?thesis using other_rows_keep(2) by (simp add: account_owner_same)
next
  case (step_cleanup e retention r5)
  then show ?thesis using other_rows_keep(3) by (simp add: account_owner_same)
qed

lemma accounts_run_owner: "accounts_run rt bc db db' \<Longrightarrow> account_owner db \<subseteq>\<^sub>m account_owner db'"
  by (induction rule: rtranclp_induct) (auto dest: accounts_step_owner intro: map_le_trans)

end
