(* ===== verification/Resolve.thy ===== *)
theory Resolve
  imports Accounts_Properties
begin

text \<open>
  How an IBAN becomes an account: \<open>ResolveAccountByIban\<close> of accounts-svc finds the account of an IBAN
  in every spelling and no other, and a transfer that transfers-svc accepts through it names the recipient's
  account and an active sender.
\<close>

subsection \<open>The lookup\<close>

lemma stored_iban:
  assumes "accounts_inv rt bc db" "a \<in> set (accounts db)" "acc_IBAN a = Some x"
  shows "Validate rt x = Inr ()" "length x = IELength" "take 2 x = CountryIE" "take 4 (drop 4 x) = ToUpper rt bc"
    "find (\<lambda>b. acc_IBAN b = Some x) (accounts db) = Some a"
proof -
  have ok: "account_ok rt bc a" using assms(1,2) by (simp add: accounts_inv_def)
  then have n: "number_shape (acc_AccountNumber a)" "iban_of rt bc (acc_AccountNumber a) = Some x"
    using assms(3) by (simp_all add: account_ok_def)
  note g = iban_of_SomeD [OF n(2,1)]
  show "Validate rt x = Inr ()" by (rule Generate_valid [OF g])
  show "length x = IELength" "take 2 x = CountryIE" "take 4 (drop 4 x) = ToUpper rt bc"
    by (rule Generate_parts [OF g])+
  have "\<exists>b. find (\<lambda>b. acc_IBAN b = Some x) (accounts db) = Some b"
    using assms(2,3) find_None_in [of "\<lambda>b. acc_IBAN b = Some x" "accounts db"] by fastforce
  then obtain b where b: "find (\<lambda>b. acc_IBAN b = Some x) (accounts db) = Some b" by blast
  then have bm: "b \<in> set (accounts db)" "acc_IBAN b = Some x" by (auto dest: find_Some_in)
  have "acc_AccountNumber b = acc_AccountNumber a" by (rule same_iban_same_number [OF assms(1) bm n(2,1)])
  moreover have "distinct (map acc_AccountNumber (accounts db))" using assms(1) by (simp add: accounts_inv_def)
  ultimately have "b = a" using bm(1) assms(2) by (metis distinct_map inj_onD)
  with b show "find (\<lambda>b. acc_IBAN b = Some x) (accounts db) = Some a" by simp
qed

lemma recordResolveAttempt_rows:
  "recordResolveAttempt rt e i db user lim window = (db', r) \<Longrightarrow> accounts db' = accounts db"
  by (auto simp: recordResolveAttempt_def persist_def split: option.splits if_splits fault.splits)

lemma ResolveAccountByIban_Inr:
  assumes "ResolveAccountByIban rt e srv iban user db = (db', Inr ref)"
  shows "accounts db' = accounts db"
    "\<exists>a\<in>set (accounts db). acc_IBAN a = Some (Normalize rt iban) \<and> ref = account_summary a"
proof -
  from assms obtain a where r: "recordResolveAttempt rt e 0 db user (srv_resolveRateLimit srv) (srv_resolveRateWindow srv) = (db', Inr True)"
    and f: "getAccountByIBAN e 1 db' (Normalize rt iban) = Inr (Some a)" and ref: "ref = account_summary a"
    by (auto simp: ResolveAccountByIban_def Let_def split: sum.splits if_splits prod.splits option.splits)
  show rows: "accounts db' = accounts db" by (rule recordResolveAttempt_rows [OF r])
  from f have "find (\<lambda>b. acc_IBAN b = Some (Normalize rt iban)) (accounts db) = Some a"
    by (auto simp: getAccountByIBAN_def rows split: if_splits)
  then show "\<exists>a\<in>set (accounts db). acc_IBAN a = Some (Normalize rt iban) \<and> ref = account_summary a"
    using ref by (auto dest: find_Some_in)
qed

lemma ResolveAccountByIban_rows:
  "ResolveAccountByIban rt e srv iban user db = (db', r) \<Longrightarrow> accounts db' = accounts db"
  by (auto simp: ResolveAccountByIban_def Let_def dest!: recordResolveAttempt_rows
      split: sum.splits if_splits prod.splits option.splits)

text \<open>
  An IBAN resolves to its account, however it is spelled. With spaces and lower-case letters as well, the
  IBAN of an account of the bank is answered with that account's id and status, unless this user's
  attempts in the window have reached the limit.
\<close>

theorem resolve_finds_account:
  assumes "accounts_inv rt bc db" "a \<in> set (accounts db)" "acc_IBAN a = Some (Normalize rt spelling)"
    and "srv_bankCode srv = ToUpper rt bc" "user \<noteq> ''''" "uuid_in rt user = Some u" "\<not> fails e 0" "\<not> fails e 1"
  shows "snd (ResolveAccountByIban rt e srv spelling user db) =
    (if int (length (filter (\<lambda>t. at_user_id t = u \<and> now e - srv_resolveRateWindow srv < at_attempted_at t) (iban_resolve_attempts db)))
          < srv_resolveRateLimit srv
     then Inr (account_summary a) else Inl (ResourceExhausted, ''too many resolve attempts, try again later''))"
proof -
  note s = stored_iban [OF assms(1-3)]
  have "getAccountByIBAN e 1 (db\<lparr>iban_resolve_attempts := q\<rparr>) (Normalize rt spelling) = Inr (Some a)" for q
    using assms(8) s(5) by (simp add: getAccountByIBAN_def)
  then show ?thesis
    using s(1-4) assms(4-7)
    by (simp add: ResolveAccountByIban_def Let_def recordResolveAttempt_def persist_NoFault)
qed

text \<open>The new account of the example is found under its IBAN with a space before it.\<close>

definition sample_server :: "string \<Rightarrow> accountsServer" where
  "sample_server bc = \<lparr>srv_bankCode = bc, srv_resolveRateLimit = 20, srv_resolveRateWindow = 60\<rparr>"

theorem resolve_finds_account_witness:
  "\<exists>a x. accounts (fst sample_new_account) = [a] \<and> acc_IBAN a = Some x \<and>
     snd (ResolveAccountByIban plain_runtime (sample_env 40) (sample_server ''NEOB'') (CHR '' '' # x) ''user2'' (fst sample_new_account)) =
       Inr (account_summary a)"
proof -
  have inv: "accounts_inv plain_runtime ''NEOB'' (fst sample_new_account)"
    by (rule accounts_run_inv [OF sample_new_account_step migrated_accounts_inv])
  obtain a x where a: "accounts (fst sample_new_account) = [a]" "acc_IBAN a = Some x"
    and none: "iban_resolve_attempts (fst sample_new_account) = []"
    using sample_new_account_added by (auto simp: account_added_def migrated_accounts_def)
  from inv a have "iban_of plain_runtime ''NEOB'' (acc_AccountNumber a) = Some x" "number_shape (acc_AccountNumber a)"
    by (simp_all add: accounts_inv_def account_ok_def)
  then have "Normalize plain_runtime x = x" by (blast intro: Generate_valid(2) iban_of_SomeD)
  then have "acc_IBAN a = Some (Normalize plain_runtime (CHR '' '' # x))" using a(2) by (simp add: Normalize_def)
  moreover have "srv_bankCode (sample_server ''NEOB'') = ToUpper plain_runtime ''NEOB''" by code_simp
  ultimately show ?thesis
    using resolve_finds_account [OF inv, of a "CHR '' '' # x" "sample_server ''NEOB''" "''user2''" "''user2''" "sample_env 40"] a none
    by (simp add: sample_env_def sample_server_def)
qed

text \<open>
  What resolving never does. Accounts are not changed; an answer is an account with exactly this IBAN; text
  that is no IBAN is refused without touching the database or the user's attempts.
\<close>

theorem resolve_is_sound:
  assumes "ResolveAccountByIban rt e srv iban user db = (db', r)"
  shows "accounts db' = accounts db"
    "\<And>ref. r = Inr ref \<Longrightarrow> \<exists>a\<in>set (accounts db). acc_IBAN a = Some (Normalize rt iban) \<and> ref = account_summary a"
    "Validate rt (Normalize rt iban) \<noteq> Inr () \<Longrightarrow> db' = db \<and> r = Inl (InvalidArgument, ''invalid IBAN'')"
proof -
  show "accounts db' = accounts db" by (rule ResolveAccountByIban_rows [OF assms])
  show "\<exists>a\<in>set (accounts db). acc_IBAN a = Some (Normalize rt iban) \<and> ref = account_summary a" if "r = Inr ref" for ref
    using ResolveAccountByIban_Inr(2) assms that by simp
  show "db' = db \<and> r = Inl (InvalidArgument, ''invalid IBAN'')" if "Validate rt (Normalize rt iban) \<noteq> Inr ()"
    using assms that by (auto simp: ResolveAccountByIban_def Let_def split: sum.splits)
qed

theorem resolve_is_sound_witness:
  "\<exists>db'. ResolveAccountByIban plain_runtime (sample_env 40) (sample_server ''NEOB'') ''IE'' ''user2'' migrated_accounts = (db', Inl (InvalidArgument, ''invalid IBAN'')) \<and>
     db' = migrated_accounts"
proof -
  have v: "Validate plain_runtime (Normalize plain_runtime ''IE'') \<noteq> Inr ()" by code_simp
  obtain db' r where x: "ResolveAccountByIban plain_runtime (sample_env 40) (sample_server ''NEOB'') ''IE'' ''user2'' migrated_accounts = (db', r)"
    by fastforce
  from resolve_is_sound(3) [OF x v] x show ?thesis by simp
qed

subsection \<open>Transfers that name accounts\<close>

lemma accepted_transfer:
  assumes "createTransfer rt e (accounts_rpc rt es ns srv) meanwhile db s key sender user iban amount =
      (db', s', Inr (t, CreateTransferOK))"
    and "uuid_in rt sender = Some sender"
  shows "accounts s' = accounts s \<and>
    (\<exists>r\<in>set (accounts s). \<exists>a\<in>set (accounts s).
       acc_IBAN r = Some (Normalize rt iban) \<and> acc_Status r \<noteq> ''closed'' \<and> uuid_in rt (acc_ID r) = Some (t_RecipientAccountID t) \<and>
       acc_ID a = t_SenderAccountID t \<and> acc_Status a = ''active'' \<and> acc_ID r \<noteq> acc_ID a)"
  using assms(1)
proof (rule createTransfer_OKE)
  fix s1 recipient acc
  assume res: "ac_ResolveAccountByIban (accounts_rpc rt es ns srv) 0 iban user s = (s1, Inr recipient)"
    and diff: "ar_AccountId recipient \<noteq> sender" and st: "ar_Status recipient \<noteq> accountStatusClosed"
    and get: "ac_GetAccountByID (accounts_rpc rt es ns srv) 0 sender s1 = (s', Inr acc)" and act: "ar_Status acc = accountStatusActive"
    and ins: "insert_transfer rt e 1 (meanwhile db) key sender (ar_AccountId recipient) amount = (db', Inr t)"
  from res have "ResolveAccountByIban rt (es 0) srv iban user s = (s1, Inr recipient)"
    unfolding accounts_rpc_def by (auto elim: call_cases)
  note r = ResolveAccountByIban_Inr [OF this]
  from get have "s' = s1" and "map_sum id fst (GetAccountByID rt (es 1) s1 sender) = Inr acc"
    unfolding accounts_rpc_def by (auto elim: call_cases)
  then obtain a where a: "getAccountByID rt (es 1) s1 sender = Inr (Some a)" "acc = account_summary a"
    by (auto simp: GetAccountByID_def found_account_def split: sum.splits option.splits)
  then have "find (\<lambda>x. acc_ID x = sender) (accounts s1) = Some a"
    by (auto simp: getAccountByID_def scan_account_def assms(2) split: if_splits option.splits)
  then have am: "a \<in> set (accounts s)" "acc_ID a = sender" using r(1) by (auto dest: find_Some_in)
  from r(2) obtain b where b: "b \<in> set (accounts s)" "acc_IBAN b = Some (Normalize rt iban)" "recipient = account_summary b" by blast
  from ins have t: "t_SenderAccountID t = sender" "uuid_in rt (ar_AccountId recipient) = Some (t_RecipientAccountID t)"
    by (cases rule: insert_transfer_cases, use assms(2) in \<open>auto simp: pending_row_def\<close>)+
  have "acc_Status b \<noteq> ''closed''" "acc_Status a = ''active''" "acc_ID b \<noteq> acc_ID a"
    using st act diff am(2) by (simp_all add: a(2) b(3) account_summary_def accountStatusClosed_def accountStatusActive_def)
  then show ?thesis
    using am b t r(1) \<open>s' = s1\<close> by (intro conjI bexI [of _ b] bexI [of _ a]) (simp_all add: account_summary_def)
qed

text \<open>
  the two services together. A transfer that transfers-svc accepts with accounts-svc behind its client goes to the
  account that has the given IBAN and is not closed, comes from an active account, and these two differ;
  the accounts themselves are untouched.
\<close>

theorem accepted_transfer_names_accounts:
  assumes "createTransfer rt e (accounts_rpc rt es ns srv) meanwhile db s key sender user iban amount =
      (db', s', Inr (t, CreateTransferOK))"
    and "uuid_in rt sender = Some sender"
  shows "accounts s' = accounts s \<and>
    (\<exists>r\<in>set (accounts s). \<exists>a\<in>set (accounts s).
       acc_IBAN r = Some (Normalize rt iban) \<and> acc_Status r \<noteq> ''closed'' \<and> uuid_in rt (acc_ID r) = Some (t_RecipientAccountID t) \<and>
       acc_ID a = t_SenderAccountID t \<and> acc_Status a = ''active'' \<and> acc_ID r \<noteq> acc_ID a)"
  by (rule accepted_transfer [OF assms])

text \<open>Two accounts, and a transfer of 30 to the IBAN of the second.\<close>

definition sample_pair :: "string \<Rightarrow> accounts_db" where
  "sample_pair x = migrated_accounts\<lparr>accounts :=
     [fresh_account (sample_env 3) ''ann'' ''NB0000000001'' ''first'', fresh_account (sample_env 2) ''bob'' ''NB0417235968'' x]\<rparr>"

definition sample_iban_transfer :: "string \<Rightarrow> transfers_db \<times> accounts_db \<times> (svc_error + Transfer \<times> createTransferOutcome)" where
  "sample_iban_transfer x = createTransfer plain_runtime (sample_env 5) (accounts_rpc plain_runtime (\<lambda>i. sample_env 4) (\<lambda>i. Delivered) (sample_server ''ZZZZ''))
     id migrated_transfers (sample_pair x) ''key'' (gen_random_uuid (sample_env 3) 0) ''ann'' x 30"

lemma sample_ids_differ: "gen_random_uuid (sample_env 2) 0 \<noteq> gen_random_uuid (sample_env 3) 0"
  by code_simp

lemma sample_iban_transfer_ok:
  assumes "Generate plain_runtime ''zzzz'' ''000004'' ''17235968'' = Inr x"
  shows "\<exists>db' s' t. sample_iban_transfer x = (db', s', Inr (t, CreateTransferOK))"
proof -
  note v = Generate_valid [OF assms] Generate_parts(1-3) [OF assms]
  have up: "ToUpper plain_runtime ''zzzz'' = ''ZZZZ''" by code_simp
  have ne: "x \<noteq> ''first''" using v(3) by (auto simp: IELength_def bankCodeLength_def sortCodeLength_def bbanAccountNumberLength_def)
  have r: "ResolveAccountByIban plain_runtime (sample_env 4) (sample_server ''ZZZZ'') x ''ann'' (sample_pair x) =
      ((sample_pair x)\<lparr>iban_resolve_attempts := [\<lparr>at_user_id = ''ann'', at_attempted_at = 4\<rparr>]\<rparr>,
       Inr (account_summary (fresh_account (sample_env 2) ''bob'' ''NB0417235968'' x)))"
    using v ne by (simp add: ResolveAccountByIban_def Let_def recordResolveAttempt_def persist_NoFault sample_env_def up sample_server_def
        sample_pair_def migrated_accounts_def getAccountByIBAN_def fresh_account_def)
  have g: "GetAccountByID plain_runtime (sample_env 4) ((sample_pair x)\<lparr>iban_resolve_attempts := q\<rparr>) (gen_random_uuid (sample_env 3) 0) =
      Inr (account_summary (fresh_account (sample_env 3) ''ann'' ''NB0000000001'' ''first''), ''NB0000000001'')" for q
    by (simp add: GetAccountByID_def getAccountByID_def sample_pair_def scan_account_def found_account_def sample_env_def fresh_account_def)
  have "\<exists>s'. validate_transfer (accounts_rpc plain_runtime (\<lambda>i. sample_env 4) (\<lambda>i. Delivered) (sample_server ''ZZZZ''))
      (gen_random_uuid (sample_env 3) 0) ''ann'' x 30 (sample_pair x) = (s', Inr (gen_random_uuid (sample_env 2) 0))"
    using sample_ids_differ
    by (simp add: validate_transfer_def accounts_rpc_def r g account_summary_def fresh_account_def accountStatusClosed_def accountStatusActive_def)
  then obtain s' where "validate_transfer (accounts_rpc plain_runtime (\<lambda>i. sample_env 4) (\<lambda>i. Delivered) (sample_server ''ZZZZ''))
      (gen_random_uuid (sample_env 3) 0) ''ann'' x 30 (sample_pair x) = (s', Inr (gen_random_uuid (sample_env 2) 0))" ..
  then show ?thesis
    by (simp add: sample_iban_transfer_def createTransfer_def getTransferByIdempotencyKey_def transfer_by_key_def migrated_transfers_def
        insert_transfer_def persist_NoFault sample_env_def)
qed

theorem accepted_transfer_names_accounts_witness:
  "\<exists>x db' s' t. sample_iban_transfer x = (db', s', Inr (t, CreateTransferOK)) \<and> accounts s' = accounts (sample_pair x) \<and>
     t_RecipientAccountID t = gen_random_uuid (sample_env 2) 0"
proof -
  obtain x where x: "Generate plain_runtime ''zzzz'' ''000004'' ''17235968'' = Inr x" using sample_iban by blast
  then obtain db' s' t where t: "sample_iban_transfer x = (db', s', Inr (t, CreateTransferOK))"
    using sample_iban_transfer_ok by blast
  have ne: "x \<noteq> ''first''" using Generate_parts(1) [OF x]
    by (auto simp: IELength_def bankCodeLength_def sortCodeLength_def bbanAccountNumberLength_def)
  from accepted_transfer_names_accounts [OF t [unfolded sample_iban_transfer_def]] Generate_valid(2) [OF x] ne
  have "accounts s' = accounts (sample_pair x) \<and> t_RecipientAccountID t = gen_random_uuid (sample_env 2) 0"
    by (auto simp: sample_pair_def fresh_account_def)
  with t show ?thesis by blast
qed

end
