(* ===== verification/Transfers_Http_Properties.thy ===== *)
theory Transfers_Http_Properties
  imports Transfers_Http Resolve
begin

text \<open>
  What the answers of the transfer handlers mean: which of them can have moved money, what the status of a
  transfer in an answer says about the ledger and the accounts, and what a caller can learn about
  deposits of others.
\<close>

subsection \<open>The phases of a request\<close>

lemma createTransfer_not_OK:
  assumes "createTransfer rt e ac meanwhile db s key sender user iban a = (db', s', Inr (t, CreateTransferOK))"
  shows "key \<notin> t_IdempotencyKey ` set (transfers (meanwhile db))" "t_Status t = ''pending''"
  using assms by (rule createTransfer_OKE, elim insert_transfer_cases, auto simp: pending_row_def)+

lemma outcome_response_None: "outcome_response t out = None \<longleftrightarrow> out = CreateTransferOK"
  by (cases out) simp_all

definition error_only :: "transfers_body http_response \<Rightarrow> bool" where
  "error_only resp \<longleftrightarrow> http_status resp \<in> {200, 400, 404, 409, 422, 429, 500}"

lemma error_only_simps [simp]:
  "error_only (error_response n m) \<longleftrightarrow> n \<in> {200, 400, 404, 409, 422, 429, 500}"
  "error_only \<lparr>http_status = n, http_body = b\<rparr> \<longleftrightarrow> n \<in> {200, 400, 404, 409, 422, 429, 500}"
  by (simp_all add: error_only_def error_response_def)

lemma outcome_response_error: "outcome_response t out = Some resp \<Longrightarrow> error_only resp"
  by (cases out) auto

text \<open>A request ends before the checks of others, at the fraud check, or at the settlement.\<close>

lemma createTransferHandler_cases:
  assumes "createTransferHandler rt es ac fc lc ms key user body db s f l = (db', s', f', l', resp)"
  obtains (early) "f' = f" "l' = l" "error_only resp"
        "db' = db \<or> (\<exists>s1 sender iban a r. createTransfer rt (es 0) ac (ms 0) db s1 key sender user iban a = (db', s', r))"
    | (checked) s1 sender iban a db1 t res where
        "resolveSenderAccountID ac user s = (s1, Inr sender)" "sender \<noteq> ''''" "body = Some (iban, a)"
        "createTransfer rt (es 0) ac (ms 0) db s1 key sender user iban a = (db1, s', Inr (t, CreateTransferOK))"
        "checkTransferFraud rt (es 1) fc (ms 1) db1 f t = (db', f', res)" "l' = l"
        "case res of Inl err \<Rightarrow> resp = internal_response
         | Inr (t2, FraudCheckRejected) \<Rightarrow> resp = \<lparr>http_status = 201, http_body = TransferBody t2 ''''\<rparr>
         | Inr (t2, FraudCheckUncertain) \<Rightarrow>
             resp = \<lparr>http_status = 202, http_body = TransferBody t2 ''fraud check unavailable, transfer still pending''\<rparr>
         | Inr (t2, FraudCheckApproved) \<Rightarrow> False"
    | (settled) s1 sender iban a db1 t db2 t2 res where
        "resolveSenderAccountID ac user s = (s1, Inr sender)" "sender \<noteq> ''''" "body = Some (iban, a)"
        "createTransfer rt (es 0) ac (ms 0) db s1 key sender user iban a = (db1, s', Inr (t, CreateTransferOK))"
        "checkTransferFraud rt (es 1) fc (ms 1) db1 f t = (db2, f', Inr (t2, FraudCheckApproved))"
        "settleTransfer rt (es 2) lc (ms 2) db2 l t2 = (db', l', res)"
        "case res of Inl err \<Rightarrow> resp = internal_response
         | Inr (t3, out) \<Rightarrow>
             resp = (if out = SettlementUncertain
                     then \<lparr>http_status = 202, http_body = TransferBody t3 ''transfer status unknown, still processing''\<rparr>
                     else \<lparr>http_status = 201, http_body = TransferBody t3 ''''\<rparr>)"
proof -
  obtain s1 q where q: "resolveSenderAccountID ac user s = (s1, q)" by fastforce
  show thesis
  proof (cases "\<exists>sender iban a. key \<noteq> '''' \<and> q = Inr sender \<and> sender \<noteq> '''' \<and> body = Some (iban, a)")
    case False
    then show thesis using assms q
      by (intro early) (auto simp: createTransferHandler_def split: sum.splits if_splits option.splits)
  next
    case True
    then obtain sender iban a where k: "key \<noteq> ''''" "q = Inr sender" "sender \<noteq> ''''" "body = Some (iban, a)" by blast
    obtain db1 s2 c where c: "createTransfer rt (es 0) ac (ms 0) db s1 key sender user iban a = (db1, s2, c)"
      using prod_cases3 by blast
    note u = assms [unfolded createTransferHandler_def]
    show thesis
    proof (cases "\<exists>t. c = Inr (t, CreateTransferOK)")
      case False
      then show thesis using u k q c
        by (intro early) (auto simp: outcome_response_None dest: outcome_response_error split: sum.splits option.splits)
    next
      case True
      then obtain t where t: "c = Inr (t, CreateTransferOK)" by blast
      obtain db2 f1 r where r: "checkTransferFraud rt (es 1) fc (ms 1) db1 f t = (db2, f1, r)" using prod_cases3 by blast
      note v = u [unfolded k q c t r]
      show thesis
      proof (cases "\<exists>t2. r = Inr (t2, FraudCheckApproved)")
        case False
        then show thesis
          using v q k c t r by (intro checked [of s1 sender iban a db1 t r]) (auto split: sum.splits prod.splits fraudCheckOutcome.splits)
      next
        case True
        then obtain t2 where t2: "r = Inr (t2, FraudCheckApproved)" by blast
        obtain db3 l1 w where w: "settleTransfer rt (es 2) lc (ms 2) db2 l t2 = (db3, l1, w)" using prod_cases3 by blast
        then show thesis
          using v q k c t r t2 by (intro settled [of s1 sender iban a db1 t db2 t2 w]) (auto split: sum.splits prod.splits if_splits)
      qed
    qed
  qed
qed

subsection \<open>Replays\<close>

lemma createTransfer_known_key:
  assumes "createTransfer rt e ac meanwhile db s key sender user iban a = (db', s', r)"
    and "key \<in> t_IdempotencyKey ` set (transfers (meanwhile db))"
  shows "db' \<in> {db, meanwhile db}"
proof (rule ccontr)
  assume no: "db' \<notin> {db, meanwhile db}"
  then obtain recipient q where "insert_transfer rt e 1 (meanwhile db) key sender recipient a = (db', q)"
    using assms(1) by (auto simp: createTransfer_def split: sum.splits option.splits prod.splits)
  then show False by (cases rule: insert_transfer_cases) (use no assms(2) in auto)
qed

text \<open>
  C7: a repeated request moves nothing. When a transfer with the request's idempotency key exists by the time of the
  INSERT, the whole request, whatever the services answer, leaves fraud-svc and the ledger untouched, writes
  nothing to the database, and is not answered as a new transfer.
\<close>

theorem repeated_request_moves_nothing:
  assumes "createTransferHandler rt es ac fc lc ms key user body db s f l = (db', s', f', l', resp)"
    and "key \<in> t_IdempotencyKey ` set (transfers (ms 0 db))"
  shows "f' = f \<and> l' = l \<and> db' \<in> {db, ms 0 db} \<and> http_status resp \<in> {200, 400, 404, 409, 422, 429, 500}"
  using assms(1)
proof (cases rule: createTransferHandler_cases)
  case early
  moreover have "db' \<in> {db, ms 0 db}" using early(4) assms(2) by (blast dest: createTransfer_known_key)
  ultimately show ?thesis by (simp add: error_only_def)
next
  case checked
  with createTransfer_not_OK(1) [OF checked(4)] assms(2) show ?thesis by simp
next
  case settled
  with createTransfer_not_OK(1) [OF settled(4)] assms(2) show ?thesis by simp
qed

theorem repeated_request_moves_nothing_witness:
  "\<exists>resp. createTransferHandler plain_runtime (\<lambda>i. sample_env 9) sample_accounts (sample_fraud ''approve'') (sample_rpc 6 Delivered) (\<lambda>_. id)
       ''key'' ''user'' (Some (''IB'', 30)) sample_pending () () sample_ledger = (sample_pending, (), (), sample_ledger, resp)
     \<and> http_body resp = TransferBody sample_transfer ''''"
proof -
  let ?h = "createTransferHandler plain_runtime (\<lambda>i. sample_env 9) sample_accounts (sample_fraud ''approve'') (sample_rpc 6 Delivered) (\<lambda>_. id)
       ''key'' ''user'' (Some (''IB'', 30)) sample_pending () () sample_ledger"
  obtain db' s' f' l' resp where h: "?h = (db', s', f', l', resp)" by (metis prod.exhaust)
  have k: "''key'' \<in> t_IdempotencyKey ` set (transfers (id sample_pending))"
    by (simp add: sample_pending_rows sample_transfer_def pending_row_def)
  have "http_body (snd (snd (snd (snd ?h)))) = TransferBody sample_transfer ''''"
    unfolding sample_transfer_def by code_simp
  with repeated_request_moves_nothing [OF h, simplified, OF k [simplified]] h show ?thesis by simp
qed

subsection \<open>What an answer says\<close>

lemma checkTransferFraud_Inr:
  assumes "checkTransferFraud rt e fc meanwhile db f t = (db', f', Inr (t2, out))"
  shows "out = FraudCheckRejected \<longrightarrow> t_Status t2 = ''rejected''" "out \<noteq> FraudCheckRejected \<longrightarrow> t2 = t"
    "out = FraudCheckApproved \<longrightarrow> (\<exists>resp. fc_CheckTransfer fc 0 (t_ID t) (t_SenderAccountID t) (t_Amount t) f = (f', Inr resp) \<and>
       cr_Decision resp = ''approve'')"
proof -
  have "t_Status t' = ''rejected''" if "markTransferRejected rt e d i k = (d', Inr t')" for d i k d' t'
    using that by (auto simp: mark_defs elim!: mark_row_cases)
  then show "out = FraudCheckRejected \<longrightarrow> t_Status t2 = ''rejected''"
    using assms by (auto simp: checkTransferFraud_def split: sum.splits prod.splits if_splits)
  show "out \<noteq> FraudCheckRejected \<longrightarrow> t2 = t"
    "out = FraudCheckApproved \<longrightarrow> (\<exists>resp. fc_CheckTransfer fc 0 (t_ID t) (t_SenderAccountID t) (t_Amount t) f = (f', Inr resp) \<and>
       cr_Decision resp = ''approve'')"
    using assms by (auto simp: checkTransferFraud_def split: sum.splits prod.splits if_splits)
qed

lemma settleTransfer_Inr:
  assumes "settleTransfer rt e lc meanwhile db l t = (db', l', Inr (t2, out))"
  obtains (completed) tx where "out = SettlementCompleted" "t_Status t2 = ''completed''"
      "lc_ExecuteTransfer lc 0 (t_SenderAccountID t) (t_RecipientAccountID t) (t_Amount t) (t_ID t) l = (l', Inr tx)"
    | (failed) "out = SettlementFailed" "t_Status t2 = ''failed''"
    | (uncertain) "out = SettlementUncertain" "t2 = t"
proof -
  obtain res where x: "lc_ExecuteTransfer lc 0 (t_SenderAccountID t) (t_RecipientAccountID t) (t_Amount t) (t_ID t) l = (l', res)"
    and r: "settle_record rt e (meanwhile db) t (settle_decide res) = (db', Inr (t2, out))"
    using assms by (auto simp: settleTransfer_def split: prod.splits)
  from settle_record_Inr [OF r] that x show thesis
    by (cases out) (auto simp: settle_decide_MarkCompleted)
qed

text \<open>
  C10: the status code tells what happened. 201 comes with a transfer in a final status, and then rejected means that
  the ledger was left as it was; 202 comes with a pending transfer and a message; and any other answer but an
  internal error leaves fraud-svc and the ledger as they were. (accounts-svc is asked for the sender and the recipient
  before most of the refusals, and may have counted the lookup of an IBAN for its rate limit.)
\<close>

theorem transfer_answer_is_true:
  assumes "createTransferHandler rt es ac fc lc ms key user body db s f l = (db', s', f', l', resp)"
  shows "(http_status resp = 201 \<longrightarrow> (\<exists>t. http_body resp = TransferBody t '''' \<and> t_Status t \<in> {''completed'', ''failed'', ''rejected''} \<and>
        (t_Status t = ''rejected'' \<longrightarrow> l' = l)))
    \<and> (http_status resp = 202 \<longrightarrow> (\<exists>t m. http_body resp = TransferBody t m \<and> m \<noteq> '''' \<and> t_Status t = ''pending''))
    \<and> (http_status resp \<in> {201, 202, 500} \<or> f' = f \<and> l' = l)"
  using assms
proof (cases rule: createTransferHandler_cases)
  case early
  then show ?thesis by (auto simp: error_only_def)
next
  case (checked s1 sender iban a db1 t res)
  note p = createTransfer_not_OK(2) [OF checked(4)]
  show ?thesis
  proof (cases res)
    case (Inl err)
    then show ?thesis using checked by (simp add: error_response_def)
  next
    case (Inr r)
    obtain t2 out where r: "r = (t2, out)" by (cases r)
    note c = checkTransferFraud_Inr [OF checked(5) [unfolded Inr r]]
    show ?thesis using checked(6,7) c p by (cases out) (simp_all add: Inr r)
  qed
next
  case (settled s1 sender iban a db1 t db2 t2 res)
  have t2: "t2 = t" using checkTransferFraud_Inr(2) [OF settled(5)] by simp
  note p = createTransfer_not_OK(2) [OF settled(4)]
  show ?thesis
  proof (cases res)
    case (Inl err)
    then show ?thesis using settled by (simp add: error_response_def)
  next
    case (Inr r)
    obtain t3 out where r: "r = (t3, out)" by (cases r)
    from settled(6) show ?thesis
      unfolding Inr r by (cases rule: settleTransfer_Inr) (use settled(7) p t2 in \<open>simp_all add: Inr r\<close>)
  qed
qed

definition sample_request :: "delivery \<Rightarrow> string \<Rightarrow> transfers_db \<times> unit \<times> unit \<times> ledger_db \<times> transfers_body http_response" where
  "sample_request d decision = createTransferHandler plain_runtime (\<lambda>i. sample_env (4 + i)) sample_accounts (sample_fraud decision) (sample_rpc 8 d) (\<lambda>_. id)
     ''key'' ''user'' (Some (''IB'', 30)) migrated_transfers () () sample_ledger"

theorem transfer_answer_is_true_witness:
  "(case sample_request Delivered ''approve'' of (_, _, _, _, resp) \<Rightarrow> http_status resp = 201 \<and>
      (\<exists>t. http_body resp = TransferBody t '''' \<and> t_Status t \<in> {''completed'', ''failed'', ''rejected''})) \<and>
   (case sample_request (ReplyLost ConnDeadline) ''approve'' of (_, _, _, _, resp) \<Rightarrow> http_status resp = 202 \<and>
      (\<exists>t m. http_body resp = TransferBody t m \<and> t_Status t = ''pending''))"
proof -
  obtain a b c d resp where x: "sample_request Delivered ''approve'' = (a, b, c, d, resp)" by (metis prod.exhaust)
  obtain a' b' c' d' resp' where y: "sample_request (ReplyLost ConnDeadline) ''approve'' = (a', b', c', d', resp')" by (metis prod.exhaust)
  have "http_status (snd (snd (snd (snd (sample_request Delivered ''approve''))))) = 201"
    "http_status (snd (snd (snd (snd (sample_request (ReplyLost ConnDeadline) ''approve''))))) = 202"
    by code_simp+
  with x y have st: "http_status resp = 201" "http_status resp' = 202" by simp_all
  from transfer_answer_is_true [OF x [unfolded sample_request_def]] transfer_answer_is_true [OF y [unfolded sample_request_def]] st x y
  show ?thesis by auto
qed

subsection \<open>The services together\<close>

text \<open>The log of the ledger after \<open>a\<close> moved from one account to another that covered it.\<close>

definition moved :: "runtime \<Rightarrow> string \<Rightarrow> string \<Rightarrow> int \<Rightarrow> ledger_db \<Rightarrow> ledger_db \<Rightarrow> bool" where
  "moved rt sender recipient a l l' \<longleftrightarrow> (\<exists>fl tol. account_of rt l sender = Some fl \<and> account_of rt l recipient = Some tol \<and>
     0 < a \<and> a \<le> sum_entries (entries l) fl \<and>
     (\<forall>x. sum_entries (entries l') x = sum_entries (entries l) x + (if x = fl then - a else 0) + (if x = tol then a else 0)))"

lemma ExecuteTransfer_moved:
  assumes "ExecuteTransfer rt e sender recipient a r l = (l', Inr tx)"
  shows "moved rt sender recipient a l l'"
  using assms
proof (cases rule: ExecuteTransfer_cases)
  case (posted fl tol ref)
  have "sum_entries (entries l') x = sum_entries (entries l) x + (if x = fl then - a else 0) + (if x = tol then a else 0)" for x
    using posted_sum [OF posted(6)] by (simp add: sum_pair_entries)
  with posted(1-4) show ?thesis by (auto simp: moved_def)
qed blast

lemma resolveSenderAccountID_rpc:
  assumes "resolveSenderAccountID (accounts_rpc rt es ns srv) user s = (s1, Inr sender)" "sender \<noteq> ''''"
  obtains x where "s1 = s" "x \<in> set (accounts s)" "acc_ID x = sender" "uuid_in rt user = Some (acc_UserID x)"
proof -
  obtain s2 q where g: "ac_GetAccountByUserID (accounts_rpc rt es ns srv) 0 user s = (s2, q)" by fastforce
  obtain ref where q: "q = Inr ref" "ar_AccountId ref = sender" "s2 = s1"
    using assms g by (cases q) (auto simp: resolveSenderAccountID_def split: if_splits)
  have "s2 = s" and "GetAccountByUserID rt (es (4 * 0 + 2)) s user = Inr ref"
    using g q(1) unfolding accounts_rpc_def by (auto elim: call_cases)
  then obtain x where x: "getAccountByUserID rt (es (4 * 0 + 2)) s user = Inr (Some x)" "ref = account_summary x"
    by (auto simp: GetAccountByUserID_def found_account_def split: sum.splits option.splits)
  then have "\<exists>u. uuid_in rt user = Some u \<and> find (\<lambda>a. acc_UserID a = u) (accounts s) = Some x"
    by (auto simp: getAccountByUserID_def scan_account_def split: if_splits option.splits)
  then have "x \<in> set (accounts s)" "uuid_in rt user = Some (acc_UserID x)" by (auto dest: find_Some_in)
  then show thesis using that q(2,3) \<open>s2 = s\<close> x(2) by (auto simp: account_summary_def)
qed

definition printed_accounts :: "runtime \<Rightarrow> accounts_db \<Rightarrow> bool" where
  "printed_accounts rt s \<longleftrightarrow> (\<forall>x\<in>set (accounts s). uuid_in rt (acc_ID x) = Some (acc_ID x))"

text \<open>
  C3: completed means paid. With accounts-svc and ledger-svc behind the clients, an answer 201 with a completed transfer means:
  the calling user's own active account and another account that is not closed and has the requested IBAN
  exist, fraud-svc approved exactly this transfer, and the ledger's log has moved exactly the requested
  positive amount from the first account, which covered it, to the second, and nothing else.
\<close>

theorem completed_means_paid:
  assumes "createTransferHandler rt es (accounts_rpc rt aes ans srv) fc (ledger_rpc rt les lns) ms key user (Some (iban, a)) db s f l
      = (db', s', f', l', resp)"
    and "http_body resp = TransferBody t m" "http_status resp = 201" "t_Status t = ''completed''"
    and "accounts_inv rt bc s" "printed_accounts rt s"
  shows "\<exists>x\<in>set (accounts s). \<exists>y\<in>set (accounts s). \<exists>i r.
      uuid_in rt user = Some (acc_UserID x) \<and> acc_Status x = ''active'' \<and>
      acc_IBAN y = Some (Normalize rt iban) \<and> acc_Status y \<noteq> ''closed'' \<and> y \<noteq> x \<and>
      fc_CheckTransfer fc 0 i (acc_ID x) a f = (f', Inr r) \<and> cr_Decision r = ''approve'' \<and>
      moved rt (acc_ID x) (acc_ID y) a l l'"
  using assms(1)
proof (cases rule: createTransferHandler_cases)
  case early
  then show ?thesis using assms(3) by (simp add: error_only_def)
next
  case (checked s1 sender iban' a' db1 t1 res)
  then have r: "res = Inr (t, FraudCheckRejected)"
    using assms(2,3) by (auto simp: error_response_def split: sum.splits prod.splits fraudCheckOutcome.splits)
  then have "t_Status t = ''rejected''" using checkTransferFraud_Inr(1) [OF checked(5) [unfolded r]] by simp
  then show ?thesis using assms(4) by simp
next
  case (settled s1 sender iban' a' db1 t1 db2 t2 res)
  then have eq: "iban' = iban" "a' = a" by simp_all
  from resolveSenderAccountID_rpc [OF settled(1,2)] obtain x where
    x: "s1 = s" "x \<in> set (accounts s)" "acc_ID x = sender" "uuid_in rt user = Some (acc_UserID x)" .
  have sid: "uuid_in rt sender = Some sender" using assms(6) x(2,3) by (auto simp: printed_accounts_def)
  note c = settled(4) [unfolded eq x(1)]
  from accepted_transfer [OF c sid] obtain y z where
    y: "y \<in> set (accounts s)" "acc_IBAN y = Some (Normalize rt iban)" "acc_Status y \<noteq> ''closed''"
      "uuid_in rt (acc_ID y) = Some (t_RecipientAccountID t1)"
    and z: "z \<in> set (accounts s)" "acc_ID z = t_SenderAccountID t1" "acc_Status z = ''active''" "acc_ID y \<noteq> acc_ID z" by blast
  have t1: "t_SenderAccountID t1 = sender" "t_Amount t1 = a"
    using c by (rule createTransfer_OKE, elim insert_transfer_cases, use sid in \<open>auto simp: pending_row_def\<close>)+
  have rid: "t_RecipientAccountID t1 = acc_ID y" using assms(6) y(1,4) by (simp add: printed_accounts_def)
  have "distinct (map acc_ID (accounts s))" using assms(5) by (simp add: accounts_inv_def)
  then have "z = x" using x(2,3) z(1,2) t1(1) by (metis distinct_map inj_onD)
  note fr = checkTransferFraud_Inr [OF settled(5)]
  have t2: "t2 = t1" using fr(2) by simp
  obtain res' where res: "res = Inr res'" using settled(7) assms(3) by (cases res) (auto simp: error_response_def)
  obtain t3 out where t3: "res' = (t3, out)" by (cases res')
  have out: "out \<noteq> SettlementUncertain" "t3 = t" using settled(7) assms(2,3) by (auto simp: res t3 split: if_splits)
  from settled(6) [unfolded res t3] have "moved rt sender (acc_ID y) a l l'"
  proof (cases rule: settleTransfer_Inr)
    case (completed tx)
    then have "ExecuteTransfer rt (les 0) sender (acc_ID y) a (t_ID t1) l = (l', Inr tx)"
      using t1 rid unfolding t2 ledger_rpc_def by (auto elim: call_cases)
    then show ?thesis by (rule ExecuteTransfer_moved)
  qed (use out assms(4) in simp_all)
  moreover obtain r where "fc_CheckTransfer fc 0 (t_ID t1) (acc_ID x) a f = (f', Inr r)" "cr_Decision r = ''approve''"
    using fr(3) t1 x(3) by auto
  ultimately show ?thesis
    using x y z \<open>z = x\<close> by blast
qed

text \<open>Ann with account ''a'' sends 30 to Bob's IBAN; his account is ''b''. The ledger knows both.\<close>

definition sample_people :: "string \<Rightarrow> string \<Rightarrow> accounts_db" where
  "sample_people x y = migrated_accounts\<lparr>accounts :=
     [(fresh_account (sample_env 1) ''ann'' ''NB0000000001'' x)\<lparr>acc_ID := ''a''\<rparr>, (fresh_account (sample_env 2) ''bob'' ''NB0417235968'' y)\<lparr>acc_ID := ''b''\<rparr>]\<rparr>"

abbreviation sample_people_rpc :: "accounts_db accounts_client" where
  "sample_people_rpc \<equiv> accounts_rpc plain_runtime (\<lambda>i. sample_env 4) (\<lambda>i. Delivered) (sample_server ''ZZZZ'')"

lemma sample_people_ibans:
  obtains x y where "iban_of plain_runtime ''zzzz'' ''NB0000000001'' = Some x" "iban_of plain_runtime ''zzzz'' ''NB0417235968'' = Some y"
    "number_shape ''NB0000000001''" "number_shape ''NB0417235968''"
proof -
  have n: "number_shape ''NB0000000001''" "number_shape ''NB0417235968''" by code_simp+
  have b: "isAllLetters (ToUpper plain_runtime ''zzzz'')" "length (ToUpper plain_runtime ''zzzz'') = 4" by code_simp+
  show thesis using that n iban_of_total [OF b n(1)] iban_of_total [OF b n(2)] by blast
qed

lemma sample_people_accept:
  assumes "iban_of plain_runtime ''zzzz'' ''NB0000000001'' = Some x" "iban_of plain_runtime ''zzzz'' ''NB0417235968'' = Some y"
    and "number_shape ''NB0000000001''" "number_shape ''NB0417235968''"
  shows "accounts_inv plain_runtime ''zzzz'' (sample_people x y)"
    "resolveSenderAccountID sample_people_rpc ''ann'' (sample_people x y) = (sample_people x y, Inr ''a'')"
    "\<exists>s'. createTransfer plain_runtime (sample_env 4) sample_people_rpc id migrated_transfers (sample_people x y) ''key'' ''a'' ''ann'' y 30
       = (migrated_transfers\<lparr>transfers := [sample_transfer]\<rparr>, s', Inr (sample_transfer, CreateTransferOK))"
proof -
  show inv: "accounts_inv plain_runtime ''zzzz'' (sample_people x y)"
    using assms by (simp add: accounts_inv_def sample_people_def account_ok_def fresh_account_def validAccountStatuses_def)
  show "resolveSenderAccountID sample_people_rpc ''ann'' (sample_people x y) = (sample_people x y, Inr ''a'')"
    by (simp add: resolveSenderAccountID_def accounts_rpc_def GetAccountByUserID_def getAccountByUserID_def sample_people_def scan_account_def
        found_account_def account_summary_def fresh_account_def sample_env_def)
  let ?b = "(fresh_account (sample_env 2) ''bob'' ''NB0417235968'' y)\<lparr>acc_ID := ''b''\<rparr>"
  have up: "ToUpper plain_runtime ''zzzz'' = ''ZZZZ''" by code_simp
  have bm: "?b \<in> set (accounts (sample_people x y))" "acc_IBAN ?b = Some y" by (simp_all add: sample_people_def fresh_account_def)
  note v = stored_iban [OF inv bm] 
  have ny: "Normalize plain_runtime y = y" by (rule Generate_valid(2) [OF iban_of_SomeD [OF assms(2,4)]])
  have r: "ResolveAccountByIban plain_runtime (sample_env 4) (sample_server ''ZZZZ'') y ''ann'' (sample_people x y) =
      ((sample_people x y)\<lparr>iban_resolve_attempts := [\<lparr>at_user_id = ''ann'', at_attempted_at = 4\<rparr>]\<rparr>, Inr (account_summary ?b))"
    using v ny by (simp add: ResolveAccountByIban_def Let_def recordResolveAttempt_def persist_NoFault sample_env_def up sample_server_def
        sample_people_def migrated_accounts_def getAccountByIBAN_def)
  have g: "GetAccountByID plain_runtime (sample_env 4) ((sample_people x y)\<lparr>iban_resolve_attempts := q\<rparr>) ''a'' =
      Inr (\<lparr>ar_AccountId = ''a'', ar_Status = ''active''\<rparr>, ''NB0000000001'')" for q
    by (simp add: GetAccountByID_def getAccountByID_def sample_people_def scan_account_def found_account_def sample_env_def fresh_account_def account_summary_def)
  have "\<exists>s'. validate_transfer sample_people_rpc ''a'' ''ann'' y 30 (sample_people x y) = (s', Inr ''b'')"
    by (simp add: validate_transfer_def accounts_rpc_def r g account_summary_def fresh_account_def accountStatusClosed_def accountStatusActive_def)
  then obtain s' where "validate_transfer sample_people_rpc ''a'' ''ann'' y 30 (sample_people x y) = (s', Inr ''b'')" ..
  then show "\<exists>s'. createTransfer plain_runtime (sample_env 4) sample_people_rpc id migrated_transfers (sample_people x y) ''key'' ''a'' ''ann'' y 30
       = (migrated_transfers\<lparr>transfers := [sample_transfer]\<rparr>, s', Inr (sample_transfer, CreateTransferOK))"
    by (simp add: createTransfer_def getTransferByIdempotencyKey_def transfer_by_key_def migrated_transfers_def
        insert_transfer_def persist_NoFault sample_env_def sample_transfer_def)
qed

theorem completed_means_paid_witness:
  "\<exists>x y db' s' f' l' resp t. createTransferHandler plain_runtime (\<lambda>i. sample_env (4 + i)) sample_people_rpc (sample_fraud ''approve'') (sample_rpc 8 Delivered)
       (\<lambda>_. id) ''key'' ''ann'' (Some (y, 30)) migrated_transfers (sample_people x y) () sample_ledger = (db', s', f', l', resp) \<and>
     http_body resp = TransferBody t '''' \<and> t_Status t = ''completed'' \<and> moved plain_runtime ''a'' ''b'' 30 sample_ledger l'"
proof -
  obtain x y where xy: "iban_of plain_runtime ''zzzz'' ''NB0000000001'' = Some x" "iban_of plain_runtime ''zzzz'' ''NB0417235968'' = Some y"
    "number_shape ''NB0000000001''" "number_shape ''NB0417235968''" by (rule sample_people_ibans)
  note a = sample_people_accept [OF xy]
  let ?db1 = "migrated_transfers\<lparr>transfers := [sample_transfer]\<rparr>"
  let ?s = "settleTransfer plain_runtime (sample_env 6) (sample_rpc 8 Delivered) id ?db1 sample_ledger sample_transfer"
  obtain s' where c: "createTransfer plain_runtime (sample_env 4) sample_people_rpc id migrated_transfers (sample_people x y) ''key'' ''a'' ''ann'' y 30
       = (?db1, s', Inr (sample_transfer, CreateTransferOK))" using a(3) by blast
  obtain db' l' r where s: "?s = (db', l', r)" using prod_cases3 by blast
  have "(case snd (snd ?s) of Inr (t, out) \<Rightarrow> Some (t_Status t, out) | _ \<Rightarrow> None) = Some (''completed'', SettlementCompleted)" by code_simp
  with s obtain t where r: "r = Inr (t, SettlementCompleted)" "t_Status t = ''completed''" by (auto split: sum.splits)
  have f: "checkTransferFraud plain_runtime (sample_env 5) (sample_fraud ''approve'') id ?db1 () sample_transfer = (?db1, (), Inr (sample_transfer, FraudCheckApproved))"
    by (simp add: checkTransferFraud_def sample_fraud_def)
  have h: "createTransferHandler plain_runtime (\<lambda>i. sample_env (4 + i)) sample_people_rpc (sample_fraud ''approve'') (sample_rpc 8 Delivered)
       (\<lambda>_. id) ''key'' ''ann'' (Some (y, 30)) migrated_transfers (sample_people x y) () sample_ledger
       = (db', s', (), l', \<lparr>http_status = 201, http_body = TransferBody t ''''\<rparr>)"
    using a(2) c f s r(1) by (simp add: createTransferHandler_def)
  have pr: "printed_accounts plain_runtime (sample_people x y)" by (simp add: printed_accounts_def)
  from completed_means_paid [OF h [unfolded sample_rpc_def], of t "''''", OF _ _ r(2) a(1) pr]
  have "moved plain_runtime ''a'' ''b'' 30 sample_ledger l'"
    by (auto simp: sample_people_def fresh_account_def)
  then show ?thesis using h r(2) by (metis http_response.select_convs(2))
qed

subsection \<open>Deposits of others\<close>

lemma find_filter_unique:
  assumes "distinct (map k xs)"
  shows "find (\<lambda>x. k x = u) (filter p xs) =
    (case find (\<lambda>x. k x = u) xs of Some x \<Rightarrow> if p x then Some x else None | None \<Rightarrow> None)"
  using assms
proof (induction xs)
  case (Cons x xs)
  have "find (\<lambda>x. k x = u) xs = None" if "k x = u"
    using Cons.prems that unfolding find_None_in by (simp add: image_iff) metis
  with Cons show ?case by auto
qed simp

lemma getDepositHandler_own:
  assumes "distinct (map d_ID (deposits db))" "resolveSenderAccountID ac user s = (s1, Inr accountID)" "accountID \<noteq> ''''" "\<not> fails e 0"
  shows "getDepositHandler rt e ac user i db s = getDepositHandler rt e ac user i (db\<lparr>deposits := filter (\<lambda>d. d_AccountID d = accountID) (deposits db)\<rparr>) s"
    "http_status (snd (getDepositHandler rt e ac user i db s)) = 200 \<Longrightarrow>
       \<exists>d\<in>set (deposits db). d_AccountID d = accountID \<and> uuid_in rt i = Some (d_ID d) \<and>
         http_body (snd (getDepositHandler rt e ac user i db s)) = DepositBody d"
proof -
  have own: "find (\<lambda>d. d_ID d = u) (filter (\<lambda>d. d_AccountID d = accountID) (deposits db)) =
      (case find (\<lambda>d. d_ID d = u) (deposits db) of Some d \<Rightarrow> if d_AccountID d = accountID then Some d else None | None \<Rightarrow> None)" for u
    by (rule find_filter_unique [OF assms(1)])
  show "getDepositHandler rt e ac user i db s = getDepositHandler rt e ac user i (db\<lparr>deposits := filter (\<lambda>d. d_AccountID d = accountID) (deposits db)\<rparr>) s"
    using assms(2-4) by (auto simp: getDepositHandler_def getDepositByID_def own dest: find_Some_in split: option.splits)
  show "\<exists>d\<in>set (deposits db). d_AccountID d = accountID \<and> uuid_in rt i = Some (d_ID d) \<and>
         http_body (snd (getDepositHandler rt e ac user i db s)) = DepositBody d"
    if "http_status (snd (getDepositHandler rt e ac user i db s)) = 200"
    using that assms(2-4)
    by (auto simp: getDepositHandler_def getDepositByID_def error_response_def dest!: find_Some_in split: option.splits if_splits)
qed

text \<open>
  A deposit is shown only to its owner. The answer for a deposit of another account is the answer for a deposit that does not exist,
  and a deposit that is shown belongs to the account that accounts-svc names for the user.
\<close>

theorem deposit_shown_to_owner:
  assumes "distinct (map d_ID (deposits db))" "resolveSenderAccountID ac user s = (s1, Inr accountID)" "accountID \<noteq> []" "\<not> fails e 0"
  shows "getDepositHandler rt e ac user i db s =
      getDepositHandler rt e ac user i (db\<lparr>deposits := filter (\<lambda>d. d_AccountID d = accountID) (deposits db)\<rparr>) s \<and>
    (http_status (snd (getDepositHandler rt e ac user i db s)) = 200 \<longrightarrow>
       (\<exists>d\<in>set (deposits db). d_AccountID d = accountID \<and> uuid_in rt i = Some (d_ID d) \<and>
         http_body (snd (getDepositHandler rt e ac user i db s)) = DepositBody d))"
  using getDepositHandler_own [OF assms] by blast

theorem deposit_shown_to_owner_witness:
  "getDepositHandler plain_runtime (sample_env 9) sample_accounts ''user'' ''d1'' sample_history ()
     = ((), \<lparr>http_status = 200, http_body = DepositBody (hd (deposits sample_history))\<rparr>) \<and>
   (\<exists>d\<in>set (deposits sample_history). d_AccountID d = ''a'')"
proof -
  have g: "getDepositHandler plain_runtime (sample_env 9) sample_accounts ''user'' ''d1'' sample_history ()
     = ((), \<lparr>http_status = 200, http_body = DepositBody (hd (deposits sample_history))\<rparr>)" by code_simp
  have 1: "distinct (map d_ID (deposits sample_history))" by code_simp
  have 2: "resolveSenderAccountID sample_accounts ''user'' () = ((), Inr ''a'')" by code_simp
  have "\<not> fails (sample_env 9) 0" by (simp add: sample_env_def)
  from deposit_shown_to_owner [OF 1 2 _ this, where rt = plain_runtime and i = "''d1''"] g show ?thesis by auto
qed

subsection \<open>The history over HTTP\<close>

lemma next_cursor_named:
  assumes "history_ok db" "printed_ids rt db" "uuid_in rt a = Some a" "bound_position rt cursor = Some before"
    and "getOperationHistoryPage rt e early ac db a limit cursor s = (s', Inr (page, hasMore))" "next_cursor page hasMore = Some c"
  shows "pc_ID c \<in> he_ID ` set (operations Map.empty db a)" "pc_CreatedAt c \<in> he_CreatedAt ` set (operations Map.empty db a)"
proof -
  obtain ibans where p: "page = take limit (feed ibans db a before)"
    using getOperationHistoryPage_exact [OF assms(1,3,4,5)] by blast
  have c: "page \<noteq> []" "c = \<lparr>pc_CreatedAt = he_CreatedAt (last page), pc_ID = he_ID (last page)\<rparr>"
    using assms(6) by (auto simp: next_cursor_def split: if_splits)
  then have "last page \<in> set (feed ibans db a before)" using p last_in_set in_set_takeD by metis
  then have "without_iban (last page) \<in> set (feed Map.empty db a before)"
    unfolding feed_without_iban [of ibans, symmetric] by simp
  then have "without_iban (last page) \<in> set (operations Map.empty db a)" by (simp add: feed_def)
  then show "pc_ID c \<in> he_ID ` set (operations Map.empty db a)" "pc_CreatedAt c \<in> he_CreatedAt ` set (operations Map.empty db a)"
    unfolding c(2) by (simp_all add: without_iban_def image_iff bexI [of _ "without_iban (last page)"])
qed

text \<open>What \<open>encoding/json\<close> promises for cursors: they are read back, and empty text is no JSON.\<close>

definition json_ok :: "json_codec \<Rightarrow> bool" where
  "json_ok j \<longleftrightarrow> json_Unmarshal j [] = None \<and> (\<forall>c. json_Unmarshal j (json_Marshal j c) = Some c)"

lemma EncodeToString_nonempty: "bs \<noteq> [] \<Longrightarrow> EncodeToString bs \<noteq> []"
  by (induction bs rule: EncodeToString.induct) (simp_all add: Let_def)

lemma parse_token:
  assumes "json_ok j" "pc_ID c \<noteq> []" "pc_CreatedAt c \<noteq> zero_time" "parseHistoryQuery j lp cp = Inr (limit, cursor)"
  shows "parseHistoryQuery j lp (encodeCursor j c) = Inr (limit, Some c)" "0 < limit"
proof -
  have "json_Marshal j c \<noteq> []" using assms(1) by (metis json_ok_def option.distinct(1))
  then have "encodeCursor j c \<noteq> []" by (simp add: encodeCursor_def EncodeToString_nonempty)
  moreover have "decodeCursor j (encodeCursor j c) = Inr c"
    using assms(1-3) by (simp add: decodeCursor_def encodeCursor_def DecodeString_EncodeToString json_ok_def)
  moreover have "limit = (case Atoi lp of Some v \<Rightarrow> if 0 < v \<and> v \<le> int maxLimit then nat v else defaultLimit | None \<Rightarrow> defaultLimit)"
    using assms(4) by (cases "decodeCursor j cp") (auto simp: parseHistoryQuery_def Let_def split: if_splits)
  ultimately show "parseHistoryQuery j lp (encodeCursor j c) = Inr (limit, Some c)" "0 < limit"
    by (auto simp: parseHistoryQuery_def Let_def defaultLimit_def split: option.splits)
qed

text \<open>
  The cursor in an answer continues exactly after it. A page comes from the primary when there is no cursor; the token it carries, sent back
  unchanged, makes the next request ask for exactly the operations after the last one shown, and there
  is a token exactly when operations were left out.
\<close>

theorem history_token_continues:
  assumes "history_ok db" "printed_ids rt db" "\<forall>h\<in>set (operations Map.empty db a). he_ID h \<noteq> [] \<and> he_CreatedAt h \<noteq> zero_time"
    and "json_ok j" "resolveSenderAccountID ac user s = (s1, Inr a)" "a \<noteq> []" "uuid_in rt a = Some a"
    and "parseHistoryQuery j lp cp = Inr (limit, cursor)" "bound_position rt cursor = Some before"
    and "listTransfersHandler rt e early j ac user lp cp db db s = (s2, resp)" "http_status resp = 200"
  shows "\<exists>ibans token. http_body resp = HistoryBody (take limit (feed ibans db a before)) token \<and>
    (token = None \<longleftrightarrow> length (feed ibans db a before) \<le> limit) \<and>
    (\<forall>k. token = Some k \<longrightarrow> (\<exists>c p. parseHistoryQuery j lp k = Inr (limit, Some c) \<and> bound_position rt (Some c) = Some (Some p) \<and>
       feed ibans db a (Some p) = drop limit (feed ibans db a before)))"
proof -
  obtain page hasMore where g: "getOperationHistoryPage rt e early ac db a limit cursor s1 = (s2, Inr (page, hasMore))"
    and body: "http_body resp = HistoryBody page (map_option (encodeCursor j) (next_cursor page hasMore))"
    using assms(5,6,8,10,11) by (auto simp: listTransfersHandler_def error_response_def split: sum.splits prod.splits if_splits)
  obtain ibans where p: "page = take limit (feed ibans db a before)" and m: "hasMore \<longleftrightarrow> limit < length (feed ibans db a before)"
    using getOperationHistoryPage_exact [OF assms(1,7,9) g] by blast
  have pos: "0 < limit"
    using parse_token(2) [OF assms(4) _ _ assms(8), of "\<lparr>pc_CreatedAt = 0, pc_ID = ''x''\<rparr>"] by (simp add: zero_time_def)
  have none: "next_cursor page hasMore = None \<longleftrightarrow> length (feed ibans db a before) \<le> limit"
    using pos m p by (auto simp: next_cursor_def)
  have "\<exists>c p. parseHistoryQuery j lp k = Inr (limit, Some c) \<and> bound_position rt (Some c) = Some (Some p) \<and>
       feed ibans db a (Some p) = drop limit (feed ibans db a before)"
    if k: "map_option (encodeCursor j) (next_cursor page hasMore) = Some k" for k
  proof -
    from k obtain c where c: "next_cursor page hasMore = Some c" "k = encodeCursor j c" by auto
    then have ce: "page \<noteq> []" "c = \<lparr>pc_CreatedAt = he_CreatedAt (last page), pc_ID = he_ID (last page)\<rparr>"
      by (auto simp: next_cursor_def split: if_splits)
    note nc = next_cursor_named [OF assms(1,2,7,9) g c(1)]
    have "pc_ID c \<noteq> []" "pc_CreatedAt c \<noteq> zero_time" using nc assms(3) by auto
    with parse_token(1) [OF assms(4) _ _ assms(8)] c(2) have "parseHistoryQuery j lp k = Inr (limit, Some c)" by simp
    moreover have "bound_position rt (Some c) = Some (Some (history_key (last page)))"
      using nc(1) operations_printed [OF assms(2)] ce(2) by (auto simp: bound_position_def history_key_def)
    moreover have "feed ibans db a (Some (history_key (last page))) = drop limit (feed ibans db a before)"
      unfolding p by (rule feed_rest [OF assms(1) pos]) (use none c(1) in simp)
    ultimately show ?thesis by blast
  qed
  then show ?thesis using body p none by (intro exI [of _ ibans] exI [of _ "map_option (encodeCursor j) (next_cursor page hasMore)"]) simp
qed

text \<open>A codec for the example: the time as that many marks, a separator, the id.\<close>

definition sample_json :: json_codec where
  "sample_json = \<lparr>
     json_Marshal = (\<lambda>c. (if pc_CreatedAt c < 0 then ''-'' else ''+'') @ replicate (nat \<bar>pc_CreatedAt c\<bar>) CHR ''|'' @ CHR '';'' # pc_ID c),
     json_Unmarshal = (\<lambda>s. if s = [] then None else
       Some \<lparr>pc_CreatedAt = (if hd s = CHR ''-'' then - 1 else 1) * int (length (takeWhile (\<lambda>c. c = CHR ''|'') (List.tl s))),
             pc_ID = List.tl (dropWhile (\<lambda>c. c = CHR ''|'') (List.tl s))\<rparr>)\<rparr>"

lemma marks_then:
  assumes "c \<noteq> d"
  shows "takeWhile (\<lambda>x. x = c) (replicate n c @ d # xs) = replicate n c" "dropWhile (\<lambda>x. x = c) (replicate n c @ d # xs) = d # xs"
  using assms by (induction n) auto

lemma sample_json_ok: "json_ok sample_json"
  by (simp add: json_ok_def sample_json_def marks_then)

theorem history_token_continues_witness:
  "\<exists>page k c. http_body (snd (listTransfersHandler plain_runtime (sample_env 9) True sample_json sample_accounts ''user'' ''3'' '''' sample_history sample_history ()))
       = HistoryBody page (Some k) \<and> map he_ID page = [''d1'', ''w1'', ''t2''] \<and>
     parseHistoryQuery sample_json ''3'' k = Inr (3, Some c)"
proof -
  let ?h = "listTransfersHandler plain_runtime (sample_env 9) True sample_json sample_accounts ''user'' ''3'' '''' sample_history sample_history ()"
  obtain s2 resp where h: "?h = (s2, resp)" by (metis prod.exhaust)
  have 3: "\<forall>h\<in>set (operations Map.empty sample_history ''a''). he_ID h \<noteq> '''' \<and> he_CreatedAt h \<noteq> zero_time" by code_simp
  have r: "resolveSenderAccountID sample_accounts ''user'' () = ((), Inr ''a'')" by code_simp
  have q: "parseHistoryQuery sample_json ''3'' '''' = Inr (3, None)" by code_simp
  have b: "bound_position plain_runtime None = Some None" by (simp add: bound_position_def)
  have "http_status (snd ?h) = 200" by code_simp
  with h have st: "http_status resp = 200" by simp
  have ne: "''a'' \<noteq> ([] :: string)" by simp
  obtain ibans token where t: "http_body resp = HistoryBody (take 3 (feed ibans sample_history ''a'' None)) token"
    "token = None \<longleftrightarrow> length (feed ibans sample_history ''a'' None) \<le> 3"
    "\<And>k. token = Some k \<Longrightarrow> \<exists>c. parseHistoryQuery sample_json ''3'' k = Inr (3, Some c)"
    using history_token_continues [OF sample_history_ok 3 sample_json_ok r ne sample_calm(2) q b h st] by blast
  have f: "map he_ID (feed ibans sample_history ''a'' None) = [''d1'', ''w1'', ''t2'', ''t1'']"
    using map_he_ID_feed sample_feed by metis
  have "length (feed ibans sample_history ''a'' None) = length (map he_ID (feed ibans sample_history ''a'' None))" by simp
  also have "\<dots> = 4" unfolding f by simp
  finally obtain k where k: "token = Some k" using t(2) by fastforce
  with t(3) obtain c where c: "parseHistoryQuery sample_json ''3'' k = Inr (3, Some c)" by blast
  have "map he_ID (take 3 (feed ibans sample_history ''a'' None)) = [''d1'', ''w1'', ''t2'']"
    using f by (simp add: take_map [symmetric])
  then show ?thesis using h t(1) k c by auto
qed

end
