(* ===== verification/Pgha.thy ===== *)
theory Pgha
  imports Prelude
begin

text \<open>
  pkg/pgha: which errors mean that the database is unavailable (errors.go), the bounded retry around start-up work
  (retry.go) and the wait for a writable node (pool.go). Times are nanoseconds.
\<close>

subsection \<open>Errors\<close>

text \<open>
  A Go error as the classification looks at it, through \<open>errors.As\<close> and \<open>errors.Is\<close>: whether its chain has a
  \<open>*pgconn.ConnectError\<close>, an error of a context, EOF, a \<open>net.Error\<close> or \<open>*net.OpError\<close>, a \<open>*pgconn.PgError\<close>
  with its SQLSTATE, errStandby; what \<open>pgconn.SafeToRetry\<close> says of it; its text.
\<close>

record go_err =
  ge_connect :: bool
  ge_context :: bool
  ge_eof :: bool
  ge_net :: bool
  ge_pg :: "string option"
  ge_safe_to_retry :: bool
  ge_standby :: bool
  ge_text :: string

definition errors_New :: "string \<Rightarrow> go_err" where
  "errors_New s = \<lparr>ge_connect = False, ge_context = False, ge_eof = False, ge_net = False, ge_pg = None,
                   ge_safe_to_retry = False, ge_standby = False, ge_text = s\<rparr>"

text \<open>\<open>fmt.Errorf("...: %w", err)\<close> keeps the chain and puts a text in front.\<close>

definition wrap_err :: "string \<Rightarrow> go_err \<Rightarrow> go_err" where
  "wrap_err s e = e\<lparr>ge_text := s @ '': '' @ ge_text e\<rparr>"

definition pg_error :: "string \<Rightarrow> string \<Rightarrow> go_err" where
  "pg_error code s = (errors_New s)\<lparr>ge_pg := Some code\<rparr>"

definition errStandby :: go_err where
  "errStandby = (errors_New ''connected node is a standby, not the leader'')\<lparr>ge_standby := True\<rparr>"

definition unavailableSQLStates :: "string list" where
  "unavailableSQLStates = [''08000'', ''08001'', ''08003'', ''08004'', ''08006'', ''08007'',
     ''57P01'', ''57P02'', ''57P03'', ''25006'', ''40001'', ''40P01'']"

definition unavailable_fragments :: "string list" where
  "unavailable_fragments = [''conn closed'', ''closed pool'', ''unexpected EOF'', ''server closed the connection unexpectedly'',
     ''failed to connect to'', ''the database system is shutting down'', ''the database system is starting up'',
     ''in a read-only transaction'']"

text \<open>\<open>strings.Contains\<close>.\<close>

fun Contains :: "string \<Rightarrow> string \<Rightarrow> bool" where
  "Contains s fragment = (take (length fragment) s = fragment \<or> (case s of [] \<Rightarrow> False | _ # cs \<Rightarrow> Contains cs fragment))"

declare Contains.simps [simp del]

definition IsUnavailable :: "go_err option \<Rightarrow> bool" where
  "IsUnavailable err =
     (case err of
        None \<Rightarrow> False
      | Some e \<Rightarrow>
          if ge_connect e then True
          else if ge_context e then False
          else if ge_eof e then True
          else if ge_net e then True
          else (case ge_pg e of
                  Some code \<Rightarrow> code \<in> set unavailableSQLStates
                | None \<Rightarrow>
                    if ge_safe_to_retry e then True
                    else list_ex (\<lambda>fragment. Contains (ge_text e) fragment) unavailable_fragments))"

lemma Contains_iff: "Contains s f \<longleftrightarrow> (\<exists>a b. s = a @ f @ b)"
proof (induction s)
  case Nil
  show ?case by (auto simp: Contains.simps)
next
  case (Cons c s)
  have "Contains (c # s) f \<longleftrightarrow> take (length f) (c # s) = f \<or> Contains s f"
    by (subst Contains.simps) simp
  also have "\<dots> \<longleftrightarrow> (\<exists>b. c # s = f @ b) \<or> (\<exists>a b. c # s = (c # a) @ f @ b)"
    using Cons by (metis append_Cons append_eq_conv_conj append_take_drop_id list.inject)
  also have "\<dots> \<longleftrightarrow> (\<exists>a b. c # s = a @ f @ b)"
    by (metis append_Cons append_Nil list.exhaust list.inject)
  finally show ?case .
qed

lemma Contains_append: "Contains s f \<Longrightarrow> Contains (a @ s) f"
  by (induction a) (simp_all add: Contains.simps)

text \<open>A text put in front never hides an unavailable database.\<close>

lemma IsUnavailable_wrap_err: "IsUnavailable (Some e) \<Longrightarrow> IsUnavailable (Some (wrap_err s e))"
  using Contains_append [of "ge_text e" _ "s @ '': ''"]
  by (auto simp: IsUnavailable_def wrap_err_def list_ex_iff split: if_splits option.splits)

subsection \<open>Retry\<close>

definition retryBudget :: nat where "retryBudget = 120 * 10 ^ 9"
definition retryBaseDelay :: nat where "retryBaseDelay = 250 * 10 ^ 6"
definition retryMaxDelay :: nat where "retryMaxDelay = 5 * 10 ^ 9"
definition attemptTimeout :: nat where "attemptTimeout = 10 * 10 ^ 9"

text \<open>
  One call of \<open>fn\<close>: how late it begins, how long it takes, what it returns. The caller's context ends at
  \<open>ctx_end\<close>, if ever; an attempt's context ends with it or after \<open>attemptTimeout\<close>.
\<close>

record fn_call =
  fc_late :: nat
  fc_took :: nat
  fc_err :: "go_err option"

datatype retry_result = RetryNil | RetryReturned go_err | RetryContext | RetryGaveUp nat go_err

definition ctx_over :: "nat option \<Rightarrow> nat \<Rightarrow> bool" where
  "ctx_over ctx_end t = (case ctx_end of None \<Rightarrow> False | Some d \<Rightarrow> d \<le> t)"

text \<open>Whether the loop may go on after an error: \<open>attemptTimedOut\<close>, \<open>errStandby\<close> or an unavailable database.\<close>

definition retryable :: "nat option \<Rightarrow> fn_call \<Rightarrow> nat \<Rightarrow> go_err \<Rightarrow> bool" where
  "retryable ctx_end c t err \<longleftrightarrow>
     (attemptTimeout \<le> fc_took c \<and> \<not> ctx_over ctx_end t) \<or> ge_standby err \<or> IsUnavailable (Some err)"

partial_function (option) retry_loop ::
  "nat option \<Rightarrow> (nat \<Rightarrow> fn_call) \<Rightarrow> nat \<Rightarrow> nat \<Rightarrow> nat \<Rightarrow> (nat \<times> nat \<times> retry_result) option" where
  "retry_loop ctx_end fn attempt delay t =
     (let t1 = t + fc_late (fn attempt) + fc_took (fn attempt) in
      case fc_err (fn attempt) of
        None \<Rightarrow> Some (attempt, t1, RetryNil)
      | Some err \<Rightarrow>
          if \<not> retryable ctx_end (fn attempt) t1 err then Some (attempt, t1, RetryReturned err)
          else if ctx_over ctx_end t1 then Some (attempt, t1, RetryContext)
          else if retryBudget \<le> t1 then Some (attempt, t1, RetryGaveUp attempt err)
          else (let pause = min delay (retryBudget - t1) in
                if ctx_over ctx_end (t1 + pause) then Some (attempt, t1 + pause, RetryContext)
                else retry_loop ctx_end fn (attempt + 1) (min (2 * pause) retryMaxDelay) (t1 + pause)))"

definition Retry :: "nat option \<Rightarrow> (nat \<Rightarrow> fn_call) \<Rightarrow> (nat \<times> nat \<times> retry_result) option" where
  "Retry ctx_end fn = retry_loop ctx_end fn 1 retryBaseDelay 0"

text \<open>The probe: \<open>Inl\<close> the error of the query, \<open>Inr\<close> whether the node is in recovery.\<close>

record probe =
  pr_late :: nat
  pr_took :: nat
  pr_answer :: "go_err + bool"

definition probe_call :: "probe \<Rightarrow> fn_call" where
  "probe_call p = \<lparr>fc_late = pr_late p, fc_took = pr_took p,
                   fc_err = (case pr_answer p of Inl err \<Rightarrow> Some err
                             | Inr inRecovery \<Rightarrow> if inRecovery then Some errStandby else None)\<rparr>"

definition WaitForWritable :: "nat option \<Rightarrow> (nat \<Rightarrow> probe) \<Rightarrow> (nat \<times> nat \<times> retry_result) option" where
  "WaitForWritable ctx_end probes = Retry ctx_end (\<lambda>k. probe_call (probes k))"

subsection \<open>The retry ends\<close>

text \<open>The pauses double up to five seconds: \<open>paused n\<close> is what the first \<open>n\<close> add up to.\<close>

definition pause_of :: "nat \<Rightarrow> nat" where
  "pause_of n = min (retryBaseDelay * 2 ^ n) retryMaxDelay"

definition paused :: "nat \<Rightarrow> nat" where
  "paused n = sum_list (map pause_of [0..<n])"

lemma paused_Suc: "paused (Suc n) = paused n + pause_of n"
  by (simp add: paused_def)

lemma pause_of_Suc: "pause_of (Suc n) = min (2 * pause_of n) retryMaxDelay"
  by (auto simp: pause_of_def min_def)

lemma paused_28: "retryBudget \<le> paused 28"
  by (simp add: paused_def pause_of_def upt_rec retryBudget_def retryBaseDelay_def retryMaxDelay_def)

text \<open>Where the loop is before attempt \<open>n + 1\<close>.\<close>

definition retry_state :: "nat \<Rightarrow> nat \<Rightarrow> nat \<Rightarrow> bool" where
  "retry_state n delay t \<longleftrightarrow> retryBudget \<le> t \<or> (paused n \<le> t \<and> delay = pause_of n)"

text \<open>What an outcome says about the calls made.\<close>

definition retry_outcome :: "nat option \<Rightarrow> (nat \<Rightarrow> fn_call) \<Rightarrow> nat \<Rightarrow> nat \<times> nat \<times> retry_result \<Rightarrow> bool" where
  "retry_outcome ctx_end fn a x = (case x of (k, t, r) \<Rightarrow>
     a \<le> k \<and> k \<le> 29 \<and>
     (\<forall>i. a \<le> i \<and> i < k \<longrightarrow> (\<exists>err t. fc_err (fn i) = Some err \<and> retryable ctx_end (fn i) t err)) \<and>
     (case r of
        RetryNil \<Rightarrow> fc_err (fn k) = None
      | RetryReturned err \<Rightarrow> fc_err (fn k) = Some err \<and> \<not> ge_standby err \<and> \<not> IsUnavailable (Some err)
      | RetryContext \<Rightarrow> ctx_over ctx_end t
      | RetryGaveUp n err \<Rightarrow> n = k \<and> retryBudget \<le> t \<and> fc_err (fn k) = Some err \<and> retryable ctx_end (fn k) t err))"

lemma retry_loop_ends:
  assumes "retry_state n delay t" "n \<le> 28"
  shows "\<exists>x. retry_loop ctx_end fn (Suc n) delay t = Some x \<and> retry_outcome ctx_end fn (Suc n) x"
  using assms
proof (induction "28 - n" arbitrary: n delay t rule: less_induct)
  case less
  define t1 where "t1 = t + fc_late (fn (Suc n)) + fc_took (fn (Suc n))"
  note unf = retry_loop.simps [of ctx_end fn "Suc n" delay t, folded t1_def, unfolded Let_def]
  show ?case
  proof (cases "fc_err (fn (Suc n))")
    case None
    then show ?thesis using less.prems by (auto simp: unf retry_outcome_def)
  next
    case (Some err)
    define pause where "pause = min delay (retryBudget - t1)"
    show ?thesis
    proof (cases "retryable ctx_end (fn (Suc n)) t1 err \<and> \<not> ctx_over ctx_end t1 \<and> t1 < retryBudget \<and> \<not> ctx_over ctx_end (t1 + pause)")
      case False
      then show ?thesis using Some less.prems
        by (auto simp: unf retry_outcome_def pause_def not_less retryable_def)
    next
      case True
      then have "t < retryBudget" by (simp add: t1_def)
      then have st: "paused n \<le> t" "delay = pause_of n" using less.prems(1) by (auto simp: retry_state_def)
      have "n < 28"
      proof (rule ccontr)
        assume "\<not> n < 28"
        then have "n = 28" using less.prems by simp
        then show False using st \<open>t < retryBudget\<close> paused_28 by simp
      qed
      have next_state: "retry_state (Suc n) (min (2 * pause) retryMaxDelay) (t1 + pause)"
      proof (cases "pause = delay")
        case True
        then show ?thesis using st by (simp add: retry_state_def paused_Suc pause_of_Suc t1_def)
      next
        case False
        then have "pause = retryBudget - t1" by (simp add: pause_def min_def split: if_splits)
        then have "retryBudget \<le> t1 + pause" by simp
        then show ?thesis by (simp add: retry_state_def)
      qed
      obtain x where x: "retry_loop ctx_end fn (Suc (Suc n)) (min (2 * pause) retryMaxDelay) (t1 + pause) = Some x"
        "retry_outcome ctx_end fn (Suc (Suc n)) x"
        using less.hyps [of "Suc n", OF diff_less_mono2 [OF lessI \<open>n < 28\<close>] next_state] Suc_leI [OF \<open>n < 28\<close>] by blast
      moreover have "retry_loop ctx_end fn (Suc n) delay t = Some x"
        using True Some x by (simp add: unf pause_def)
      moreover have "retry_outcome ctx_end fn (Suc n) x"
      proof -
        have "\<exists>err t. fc_err (fn i) = Some err \<and> retryable ctx_end (fn i) t err" if "Suc n \<le> i" "i < fst x" for i
        proof (cases "i = Suc n")
          case True
          then show ?thesis using Some \<open>retryable ctx_end (fn (Suc n)) t1 err \<and> _\<close> by blast
        next
          case False
          then show ?thesis using x(2) that by (auto simp: retry_outcome_def)
        qed
        then show ?thesis using x(2) by (auto simp: retry_outcome_def)
      qed
      ultimately show ?thesis by blast
    qed
  qed
qed

lemma retry_loop_time:
  assumes "retry_loop ctx_end fn a d t = Some (k, t', r)"
    and "\<And>i. fc_late (fn i) = 0 \<and> fc_took (fn i) \<le> attemptTimeout" "t \<le> retryBudget"
  shows "t' \<le> retryBudget + attemptTimeout"
proof -
  have "t \<le> retryBudget \<longrightarrow> (case x of (k, t', r) \<Rightarrow> t' \<le> retryBudget + attemptTimeout)"
    if "retry_loop ctx_end fn a d t = Some x" for x
  proof (rule retry_loop.raw_induct [of "\<lambda>c f a d t x. c = ctx_end \<and> f = fn \<longrightarrow> t \<le> retryBudget \<longrightarrow> (case x of (k, t', r) \<Rightarrow> t' \<le> retryBudget + attemptTimeout)",
      OF _ that, THEN mp], goal_cases)
    case (1 rl c f a d t x)
    show ?case
    proof (intro impI)
      assume cf: "c = ctx_end \<and> f = fn" and t: "t \<le> retryBudget"
      then have "t + fc_late (fn a) + fc_took (fn a) \<le> retryBudget + attemptTimeout"
        using assms(2) [of a] by simp
      then show "case x of (k, t', r) \<Rightarrow> t' \<le> retryBudget + attemptTimeout"
        using 1(2) cf by (auto simp: Let_def split: option.splits if_splits dest!: 1(1))
    qed
  qed simp
  then show ?thesis using assms(1,3) by fastforce
qed

text \<open>
  Retry always returns, after at most 29 calls of its function, whatever the calls return and however long
  they take. It returns nil only when the last call succeeded, an error unchanged only when it does
  not describe an unavailable database, and every call before the last failed with an error that may be retried. When
  the calls keep to their timeout and begin in time, it takes no more than the budget and one timeout.
\<close>

theorem Retry_returns:
  "\<exists>k t r. Retry ctx_end fn = Some (k, t, r) \<and> retry_outcome ctx_end fn 1 (k, t, r) \<and>
     ((\<forall>i. fc_late (fn i) = 0 \<and> fc_took (fn i) \<le> attemptTimeout) \<longrightarrow> t \<le> retryBudget + attemptTimeout)"
proof -
  have "retry_state 0 retryBaseDelay 0"
    by (simp add: retry_state_def paused_def pause_of_def retryBaseDelay_def retryMaxDelay_def)
  from retry_loop_ends [OF this, of ctx_end fn]
  obtain k t r where "Retry ctx_end fn = Some (k, t, r)" "retry_outcome ctx_end fn 1 (k, t, r)"
    by (auto simp: Retry_def)
  moreover have "t \<le> retryBudget + attemptTimeout" if "\<forall>i. fc_late (fn i) = 0 \<and> fc_took (fn i) \<le> attemptTimeout"
    using calculation(1) that by (auto simp: Retry_def intro: retry_loop_time)
  ultimately show ?thesis by blast
qed

text \<open>A node that stays in recovery: the wait ends in time with an error.\<close>

definition down_node :: "nat \<Rightarrow> fn_call" where
  "down_node k = \<lparr>fc_late = 0, fc_took = 1000000, fc_err = Some errStandby\<rparr>"

theorem Retry_returns_witness:
  "\<exists>k t r. Retry None down_node = Some (k, t, r) \<and> (\<exists>n err. r = RetryGaveUp n err) \<and> t \<le> 130 * 10 ^ 9"
proof -
  have "fc_late (down_node i) = 0 \<and> fc_took (down_node i) \<le> attemptTimeout" for i
    by (simp add: down_node_def attemptTimeout_def)
  then obtain k t r where r: "Retry None down_node = Some (k, t, r)" "retry_outcome None down_node 1 (k, t, r)"
    "t \<le> retryBudget + attemptTimeout"
    using Retry_returns [of None down_node] by blast
  then have "\<exists>n err. r = RetryGaveUp n err"
    by (cases r) (auto simp: retry_outcome_def down_node_def errStandby_def ctx_over_def)
  with r show ?thesis by (auto simp: retryBudget_def attemptTimeout_def)
qed

lemma WaitForWritable_nil:
  assumes "WaitForWritable ctx_end probes = Some (k, t, RetryNil)"
  shows "pr_answer (probes k) = Inr False"
proof -
  have "retry_state 0 retryBaseDelay 0"
    by (simp add: retry_state_def paused_def pause_of_def retryBaseDelay_def retryMaxDelay_def)
  from retry_loop_ends [OF this, of ctx_end "\<lambda>k. probe_call (probes k)"] assms show ?thesis
    by (auto simp: WaitForWritable_def Retry_def retry_outcome_def probe_call_def split: sum.splits if_splits)
qed

end
