(* ===== verification/Emails.thy ===== *)
theory Emails
  imports Iban Pgha "HOL-Library.Signed_Division"
begin

text \<open>
  services/notifications-svc: how an amount is written (money.go), the texts of the mails and how they are handed to
  the mail server (email.go). A text is the list of its bytes.
\<close>

subsection \<open>Amounts\<close>

text \<open>The loop of \<open>groupThousands\<close>: \<open>n\<close> digits in all, the next one at index \<open>i\<close>.\<close>

fun group_loop :: "nat \<Rightarrow> nat \<Rightarrow> string \<Rightarrow> string" where
  "group_loop n i [] = []"
| "group_loop n i (c # cs) = (if 0 < i \<and> (n - i) mod 3 = 0 then '','' else []) @ c # group_loop n (Suc i) cs"

definition groupThousands :: "int \<Rightarrow> string" where
  "groupThousands whole = (let digits = show_int whole in group_loop (length digits) 0 digits)"

text \<open>Go's division rounds towards zero, and negation wraps around.\<close>

definition formatMinorUnits :: "int \<Rightarrow> string" where
  "formatMinorUnits minorUnits =
     (let sign = (if minorUnits < 0 then ''-'' else []);
          abs = (if minorUnits < 0 then wrap64 (- minorUnits) else minorUnits);
          whole = abs sdiv 100;
          cents = abs smod 100;
          centsStr = show_int cents
      in sign @ groupThousands whole @ ''.'' @ (if length centsStr = 1 then ''0'' @ centsStr else centsStr))"

definition formatAmount :: "int \<Rightarrow> string" where
  "formatAmount minorUnits = formatMinorUnits minorUnits @ '' EUR''"

subsection \<open>Dates\<close>

text \<open>
  A Go time in UTC: seconds since the epoch and nanoseconds; \<open>zeroTime\<close> is \<open>time.Time{}\<close>, the first of January of
  the year 1. A protobuf timestamp may be missing or out of range.
\<close>

type_synonym go_time = "int \<times> int"

record Timestamp =
  ts_Seconds :: int
  ts_Nanos :: int

definition zeroTime :: go_time where
  "zeroTime = (- 62135596800, 0)"

definition ts_IsValid :: "Timestamp option \<Rightarrow> bool" where
  "ts_IsValid ts = (case ts of None \<Rightarrow> False
     | Some t \<Rightarrow> - 62135596800 \<le> ts_Seconds t \<and> ts_Seconds t \<le> 253402300799 \<and> 0 \<le> ts_Nanos t \<and> ts_Nanos t < 10 ^ 9)"

definition eventTime :: "Timestamp option \<Rightarrow> go_time" where
  "eventTime ts = (case ts of None \<Rightarrow> zeroTime
     | Some t \<Rightarrow> if ts_IsValid ts then (ts_Seconds t, ts_Nanos t) else zeroTime)"

text \<open>The Gregorian calendar: the date of a day counted from the first of January of the year 1.\<close>

definition month_lengths :: "bool \<Rightarrow> int list" where
  "month_lengths leap = [31, if leap then 29 else 28, 31, 30, 31, 30, 31, 31, 30, 31, 30, 31]"

fun month_day :: "int list \<Rightarrow> int \<Rightarrow> int \<Rightarrow> int \<times> int" where
  "month_day [] m d = (m, d)"
| "month_day (l # ls) m d = (if d < l then (m, d + 1) else month_day ls (m + 1) (d - l))"

definition is_leap :: "int \<Rightarrow> bool" where
  "is_leap y \<longleftrightarrow> y mod 4 = 0 \<and> (y mod 100 \<noteq> 0 \<or> y mod 400 = 0)"

definition civil_date :: "int \<Rightarrow> int \<times> int \<times> int" where
  "civil_date d =
     (let n400 = d div 146097; d400 = d mod 146097;
          n100 = min 3 (d400 div 36524); d100 = d400 - 36524 * n100;
          n4 = d100 div 1461; d4 = d100 mod 1461;
          n1 = min 3 (d4 div 365); yday = d4 - 365 * n1;
          y = 400 * n400 + 100 * n100 + 4 * n4 + n1 + 1
      in (y, month_day (month_lengths (is_leap y)) 1 yday))"

definition pad_int :: "nat \<Rightarrow> int \<Rightarrow> string" where
  "pad_int w i = (let d = show_int i in replicate (w - length d) CHR ''0'' @ d)"

text \<open>\<open>at.Format("2006-01-02 15:04:05 UTC")\<close>.\<close>

definition format_date :: "go_time \<Rightarrow> string" where
  "format_date at =
     (let s = fst at + 62135596800; (y, m, d) = civil_date (s div 86400); r = s mod 86400
      in pad_int 4 y @ ''-'' @ pad_int 2 m @ ''-'' @ pad_int 2 d @ '' '' @
         pad_int 2 (r div 3600) @ '':'' @ pad_int 2 (r mod 3600 div 60) @ '':'' @ pad_int 2 (r mod 60) @ '' UTC'')"

subsection \<open>The mails\<close>

record email =
  em_Subject :: string
  em_Body :: string

definition crlf :: string where "crlf = [CHR 0x0D, CHR 0x0A]"

definition emailFooter :: string where
  "emailFooter = ''This is an automated message from Neo-Bank. Please do not reply.''"

definition failureReasonSentences :: "(string \<times> string) list" where
  "failureReasonSentences =
     [(''insufficient_funds'', ''There were not enough funds in your account.''),
      (''account_not_found'', ''The recipient account could not be found.''),
      (''invalid_amount'', ''The transfer amount was not valid.''),
      (''ledger_internal_error'', ''A technical problem prevented the transfer.''),
      (''timeout_unresolved'', ''The transfer could not be confirmed in time.'')]"

definition writeAccountLine :: "string \<Rightarrow> string \<Rightarrow> string" where
  "writeAccountLine label accountNumber =
     (if accountNumber = [] then [] else label @ '': '' @ accountNumber @ crlf)"

definition writeDateLine :: "go_time \<Rightarrow> string" where
  "writeDateLine at = (if at = zeroTime then [] else ''Date: '' @ format_date at @ crlf)"

definition buildTransferSentEmail :: "int \<Rightarrow> string \<Rightarrow> string \<Rightarrow> go_time \<Rightarrow> email" where
  "buildTransferSentEmail amount transferID toAccountNumber at =
     \<lparr>em_Subject = ''Neo-Bank: transfer sent'',
      em_Body = ''Your transfer of '' @ formatAmount amount @ '' has been sent.'' @ crlf @ crlf @
        ''Transfer ID: '' @ transferID @ crlf @
        writeAccountLine ''To account'' toAccountNumber @ writeDateLine at @
        crlf @ emailFooter @ crlf\<rparr>"

definition buildTransferReceivedEmail :: "int \<Rightarrow> string \<Rightarrow> string \<Rightarrow> go_time \<Rightarrow> email" where
  "buildTransferReceivedEmail amount transferID fromAccountNumber at =
     \<lparr>em_Subject = ''Neo-Bank: transfer received'',
      em_Body = ''You have received a transfer of '' @ formatAmount amount @ ''.'' @ crlf @ crlf @
        writeAccountLine ''From account'' fromAccountNumber @
        ''Transfer ID: '' @ transferID @ crlf @ writeDateLine at @
        crlf @ emailFooter @ crlf\<rparr>"

definition buildTransferFailedEmail :: "int \<Rightarrow> string \<Rightarrow> string \<Rightarrow> go_time \<Rightarrow> email" where
  "buildTransferFailedEmail amount transferID reason at =
     \<lparr>em_Subject = ''Neo-Bank: transfer failed'',
      em_Body = ''Your transfer of '' @ formatAmount amount @ '' could not be completed.'' @ crlf @
        ''No money has been taken from your account.'' @ crlf @ crlf @
        (case map_of failureReasonSentences reason of
           Some sentence \<Rightarrow> ''Reason: '' @ sentence @ crlf
         | None \<Rightarrow> []) @
        ''Transfer ID: '' @ transferID @ crlf @ writeDateLine at @
        crlf @ emailFooter @ crlf\<rparr>"

definition buildTransferDeclinedEmail :: "int \<Rightarrow> string \<Rightarrow> go_time \<Rightarrow> email" where
  "buildTransferDeclinedEmail amount transferID at =
     \<lparr>em_Subject = ''Neo-Bank: transfer declined'',
      em_Body = ''Your transfer of '' @ formatAmount amount @ '' was declined by our automated security checks.'' @ crlf @
        ''No money has been taken from your account.'' @ crlf @ crlf @
        ''Transfer ID: '' @ transferID @ crlf @ writeDateLine at @
        crlf @ ''If you believe this is a mistake, please contact Neo-Bank support.'' @ crlf @
        crlf @ emailFooter @ crlf\<rparr>"

definition buildDepositCreditedEmail :: "int \<Rightarrow> string \<Rightarrow> go_time \<Rightarrow> email" where
  "buildDepositCreditedEmail amount depositID at =
     \<lparr>em_Subject = ''Neo-Bank: account topped up'',
      em_Body = ''Your account has been topped up by '' @ formatAmount amount @ ''.'' @ crlf @ crlf @
        ''Deposit ID: '' @ depositID @ crlf @ writeDateLine at @
        crlf @ emailFooter @ crlf\<rparr>"

subsection \<open>Handing a mail to the server\<close>

text \<open>
  One run of SMTP: the server takes the message, refuses it (or cannot be reached), or takes it and the client does
  not learn it. \<open>smtp.SendMail\<close> first rejects an address with a line break.
\<close>

datatype smtp_answer = SmtpAccepted | SmtpRefused go_err | SmtpAnswerLost go_err

record mail =
  ml_from :: string
  ml_to :: string
  ml_text :: string

definition valid_line :: "string \<Rightarrow> bool" where
  "valid_line s \<longleftrightarrow> CHR 0x0A \<notin> set s \<and> CHR 0x0D \<notin> set s"

definition SendMail :: "smtp_answer \<Rightarrow> mail \<Rightarrow> mail list \<times> go_err option" where
  "SendMail ans m =
     (if \<not> valid_line (ml_from m) \<or> \<not> valid_line (ml_to m)
      then ([], Some (errors_New ''smtp: A line must not contain CR or LF''))
      else case ans of
        SmtpAccepted \<Rightarrow> ([m], None)
      | SmtpRefused err \<Rightarrow> ([], Some err)
      | SmtpAnswerLost err \<Rightarrow> ([m], Some err))"

definition message_text :: "string \<Rightarrow> string \<Rightarrow> email \<Rightarrow> string" where
  "message_text sender to m =
     ''From: '' @ sender @ crlf @ ''To: '' @ to @ crlf @ ''Subject: '' @ em_Subject m @ crlf @ crlf @ em_Body m"

definition sendEmail :: "smtp_answer \<Rightarrow> string \<Rightarrow> string \<Rightarrow> email \<Rightarrow> mail list \<times> go_err option" where
  "sendEmail ans sender to m = SendMail ans \<lparr>ml_from = sender, ml_to = to, ml_text = message_text sender to m\<rparr>"

definition sendAttempts :: nat where "sendAttempts = 3"

text \<open>The attempts that are left, the next one with the answer \<open>smtp i\<close>; \<open>err\<close> is the error of the last.\<close>

fun send_loop :: "(nat \<Rightarrow> smtp_answer) \<Rightarrow> string \<Rightarrow> string \<Rightarrow> email \<Rightarrow> nat \<Rightarrow> nat \<Rightarrow> go_err \<Rightarrow> mail list \<times> go_err option" where
  "send_loop smtp sender to m i 0 err =
     ([], Some (wrap_err (''send email to '' @ to @ '' after '' @ show_int (int sendAttempts) @ '' attempts'') err))"
| "send_loop smtp sender to m i (Suc n) err =
     (case sendEmail (smtp i) sender to m of
        (sent, None) \<Rightarrow> (sent, None)
      | (sent, Some err') \<Rightarrow>
          (case send_loop smtp sender to m (Suc i) n err' of (sent', r) \<Rightarrow> (sent @ sent', r)))"

definition sendEmailWithRetry :: "(nat \<Rightarrow> smtp_answer) \<Rightarrow> string \<Rightarrow> string \<Rightarrow> email \<Rightarrow> mail list \<times> go_err option" where
  "sendEmailWithRetry smtp sender to m = send_loop smtp sender to m 0 sendAttempts (errors_New [])"

subsection \<open>The text of an amount is exact\<close>

text \<open>The reference: thousands in groups of three, and the number that a text of an amount shows.\<close>

definition three_digits :: "int \<Rightarrow> string" where
  "three_digits r = [digit_char (nat (r div 100)), digit_char (nat (r div 10 mod 10)), digit_char (nat (r mod 10))]"

function grouped :: "int \<Rightarrow> string" where
  "grouped w = (if w < 1000 then show_digits w else grouped (w div 1000) @ '','' @ three_digits (w mod 1000))"
  by auto
termination by (relation "measure nat") auto

declare grouped.simps [simp del]

definition read_amount :: "string \<Rightarrow> int" where
  "read_amount s = (if take 1 s = ''-'' then -1 else 1) * int (num_of (filter is_digit s))"

lemma group_loop_append: "group_loop n i (xs @ ys) = group_loop n i xs @ group_loop n (i + length xs) ys"
  by (induction xs arbitrary: i) auto

lemma group_loop_shift: "i + length xs \<le> n \<Longrightarrow> group_loop (n + 3) i xs = group_loop n i xs"
proof (induction xs arbitrary: i)
  case (Cons c xs)
  have "(n + 3 - i) mod 3 = (n - i) mod 3"
    using Cons.prems mod_add_self2 [of "n - i" 3] by (simp add: add.commute)
  then show ?case using Cons by simp
qed simp

lemma group_loop_short: "length xs + i \<le> n \<Longrightarrow> n \<le> 3 \<Longrightarrow> group_loop n i xs = xs"
proof (induction xs arbitrary: i)
  case (Cons c xs)
  then have "\<not> (0 < i \<and> (n - i) mod 3 = 0)"
    by (auto simp: mod_eq_0_iff_dvd dest!: dvd_imp_le)
  then show ?case using Cons by simp
qed simp

lemma filter_group_loop: "filter is_digit (group_loop n i xs) = filter is_digit xs"
  by (induction xs arbitrary: i) (auto simp: is_digit_conv)

lemma show_digits_step: "10 \<le> i \<Longrightarrow> show_digits i = show_digits (i div 10) @ [digit_char (nat (i mod 10))]"
  by (subst show_digits.simps) simp

lemma show_digits_small: "i < 10 \<Longrightarrow> show_digits i = [digit_char (nat i)]"
  by (subst show_digits.simps) simp

lemma show_digits_1000:
  assumes "1000 \<le> w"
  shows "show_digits w = show_digits (w div 1000) @ three_digits (w mod 1000)"
proof -
  define q r where "q = w div 1000" and "r = w mod 1000"
  have w: "w = r + 10 * (100 * q)" "w = r + 100 * (10 * q)" and r: "0 \<le> r" "r < 1000"
    by (simp_all add: q_def r_def)
  have w10: "w div 10 = r div 10 + 10 * (10 * q)" "w mod 10 = r mod 10"
    unfolding w(1) by (simp_all only: div_mult_self2 mod_mult_self2 zero_neq_numeral not_False_eq_True simp_thms)
  have w100: "w div 10 div 10 = r div 100 + 10 * q" "w div 10 mod 10 = r div 10 mod 10"
    unfolding w10 by (simp_all only: div_mult_self2 mod_mult_self2 zero_neq_numeral not_False_eq_True simp_thms)
  have "w div 10 div 10 div 10 = q" "w div 10 div 10 mod 10 = r div 100"
    unfolding w100 using r by (simp_all add: div_pos_pos_trivial zdiv_zmult2_eq [symmetric])
  moreover have "10 \<le> w" "10 \<le> w div 10" "10 \<le> w div 10 div 10"
    using assms by simp_all
  ultimately show ?thesis
    using w10(2) w100(2)
    by (simp only: show_digits_step three_digits_def q_def [symmetric] r_def [symmetric] append_assoc append_Cons append_Nil)
qed

lemma length_show_digits_1000: "w < 1000 \<Longrightarrow> length (show_digits w) \<le> 3"
proof -
  assume "w < 1000"
  then have "w div 10 div 10 < 10" by simp
  then show ?thesis
    by (subst show_digits.simps, auto, subst show_digits.simps, auto simp: show_digits_small)
qed

lemma groupThousands_grouped: "0 \<le> w \<Longrightarrow> groupThousands w = grouped w"
proof (induction w rule: grouped.induct)
  case (1 w)
  show ?case
  proof (cases "w < 1000")
    case True
    then show ?thesis using 1(2) length_show_digits_1000 [OF True]
      by (subst grouped.simps) (simp add: groupThousands_def show_int_def group_loop_short)
  next
    case False
    let ?q = "show_digits (w div 1000)"
    have ne: "0 < length ?q" by (subst show_digits.simps) simp
    have "groupThousands w = group_loop (length ?q + 3) 0 (?q @ three_digits (w mod 1000))"
      using False by (simp add: groupThousands_def show_int_def show_digits_1000 three_digits_def eval_nat_numeral)
    also have "\<dots> = group_loop (length ?q) 0 ?q @ '','' @ three_digits (w mod 1000)"
      using ne by (simp add: group_loop_append group_loop_shift three_digits_def)
    also have "group_loop (length ?q) 0 ?q = grouped (w div 1000)"
      using 1(1) False by (simp add: groupThousands_def show_int_def Let_def)
    finally show ?thesis using False by (subst grouped.simps) simp
  qed
qed

lemma digits_show_digits: "0 \<le> i \<Longrightarrow> list_all is_digit (show_digits i)"
proof (induction i rule: show_digits.induct)
  case (1 i)
  then show ?case by (subst show_digits.simps) auto
qed

lemma nat_div_mod_10: "0 \<le> i \<Longrightarrow> nat (i div 10) * 10 + nat (i mod 10) = nat i"
  by (simp add: nat_div_distrib nat_mod_distrib)

lemma num_of_show_digits: "0 \<le> i \<Longrightarrow> num_of (show_digits i) = nat i"
proof (induction i rule: show_digits.induct)
  case (1 i)
  show ?case
  proof (cases "i < 10")
    case True
    then show ?thesis using 1(2) by (simp add: show_digits_small nat_less_iff)
  next
    case False
    then have "num_of (show_digits i) = nat (i div 10) * 10 + nat (i mod 10)"
      using 1 by (simp add: show_digits_step num_of_append nat_less_iff)
    also have "\<dots> = nat i" using False by (simp add: nat_div_mod_10)
    finally show ?thesis .
  qed
qed

text \<open>Two digits for the cents.\<close>

definition two_digits :: "int \<Rightarrow> string" where
  "two_digits c = [digit_char (nat (c div 10)), digit_char (nat (c mod 10))]"

lemma cents_two_digits:
  assumes "0 \<le> c" "c < 100"
  shows "(if length (show_int c) = 1 then ''0'' @ show_int c else show_int c) = two_digits c"
proof (cases "c < 10")
  case True
  have "digit_char 0 = CHR ''0''" by code_simp
  then show ?thesis using True assms by (simp add: show_int_def show_digits_small two_digits_def)
next
  case False
  then show ?thesis using assms by (simp add: show_int_def show_digits_step show_digits_small two_digits_def)
qed

lemma formatMinorUnits_conv:
  assumes "in_int64 m" "m \<noteq> - (2 ^ 63)"
  shows "formatMinorUnits m = (if m < 0 then ''-'' else []) @ grouped (\<bar>m\<bar> div 100) @ ''.'' @ two_digits (\<bar>m\<bar> mod 100)"
proof -
  have "(if m < 0 then wrap64 (- m) else m) = \<bar>m\<bar>"
    using assms by (auto simp: in_int64_def intro!: wrap64_id)
  moreover have "\<bar>m\<bar> sdiv 100 = \<bar>m\<bar> div 100" "\<bar>m\<bar> smod 100 = \<bar>m\<bar> mod 100"
    by (simp_all add: signed_divide_int_def signed_modulo_int_def sgn_if)
  ultimately show ?thesis
    using cents_two_digits [of "\<bar>m\<bar> mod 100"] by (simp only: formatMinorUnits_def Let_def) (simp add: groupThousands_grouped)
qed

lemma filter_grouped: "0 \<le> w \<Longrightarrow> filter is_digit (grouped w) = show_digits w"
  using digits_show_digits [of w]
  by (simp add: groupThousands_grouped [symmetric] groupThousands_def Let_def filter_group_loop show_int_def list_all_iff)

lemma read_two_digits: "0 \<le> c \<Longrightarrow> c < 100 \<Longrightarrow> filter is_digit (two_digits c) = two_digits c \<and> num_of (two_digits c) = nat c"
  using nat_div_mod_10 [of c] by (simp add: two_digits_def num_of_def nat_less_iff mult.commute)

lemma grouped_starts: "0 \<le> w \<Longrightarrow> \<exists>c cs. grouped w = c # cs \<and> is_digit c"
proof (induction w rule: grouped.induct)
  case (1 w)
  have "show_digits w \<noteq> []" by (subst show_digits.simps) simp
  then have "\<exists>c cs. show_digits w = c # cs \<and> is_digit c"
    using digits_show_digits [OF 1(2)] by (cases "show_digits w") auto
  then show ?case
    using 1 by (subst grouped.simps) (auto simp: pos_imp_zdiv_nonneg_iff)
qed

lemma num_of_formatted:
  assumes "in_int64 m" "m \<noteq> - (2 ^ 63)"
  shows "num_of (filter is_digit (formatMinorUnits m)) = nat \<bar>m\<bar>"
proof -
  have "filter is_digit (formatMinorUnits m) = show_digits (\<bar>m\<bar> div 100) @ two_digits (\<bar>m\<bar> mod 100)"
    using read_two_digits [of "\<bar>m\<bar> mod 100"]
    by (simp add: formatMinorUnits_conv [OF assms] filter_grouped is_digit_conv)
  also have "num_of \<dots> = nat (\<bar>m\<bar> div 100) * 10 ^ 2 + nat (\<bar>m\<bar> mod 100)"
  proof -
    have "length (two_digits (\<bar>m\<bar> mod 100)) = 2" "num_of (two_digits (\<bar>m\<bar> mod 100)) = nat (\<bar>m\<bar> mod 100)"
      "num_of (show_digits (\<bar>m\<bar> div 100)) = nat (\<bar>m\<bar> div 100)"
      using read_two_digits [of "\<bar>m\<bar> mod 100"] num_of_show_digits [of "\<bar>m\<bar> div 100"]
      by (simp_all add: two_digits_def pos_imp_zdiv_nonneg_iff)
    then show ?thesis by (simp only: num_of_append)
  qed
  also have "\<dots> = nat \<bar>m\<bar>" by (simp add: nat_div_distrib nat_mod_distrib)
  finally show ?thesis .
qed

text \<open>
  C36: The text of an amount is exact: whole units in groups of three digits, two digits of cents, and what it shows is the
  amount itself, to the cent and with its sign, for every 64-bit amount but the least. So two different amounts are never
  shown alike.
\<close>

theorem amount_text_exact:
  assumes "in_int64 m" "m \<noteq> - (2 ^ 63)"
  shows "formatMinorUnits m = (if m < 0 then ''-'' else []) @ grouped (\<bar>m\<bar> div 100) @ ''.'' @ two_digits (\<bar>m\<bar> mod 100)
     \<and> read_amount (formatMinorUnits m) = m"
proof -
  note f = formatMinorUnits_conv [OF assms]
  obtain c cs where "grouped (\<bar>m\<bar> div 100) = c # cs" "is_digit c"
    using grouped_starts [of "\<bar>m\<bar> div 100"] by (auto simp: pos_imp_zdiv_nonneg_iff)
  then have "take 1 (formatMinorUnits m) = ''-'' \<longleftrightarrow> m < 0"
    by (auto simp: f is_digit_conv)
  then show ?thesis using f num_of_formatted [OF assms] by (simp add: read_amount_def)
qed

theorem amount_text_exact_witness:
  "formatMinorUnits (- 123456) = ''-1,234.56'' \<and> read_amount (formatMinorUnits (- 123456)) = - 123456"
proof -
  have "formatMinorUnits (- 123456) = ''-1,234.56''" by code_simp
  moreover have "in_int64 (- 123456)" by (simp add: in_int64_def)
  then have "read_amount (formatMinorUnits (- 123456)) = - 123456"
    by (intro amount_text_exact [THEN conjunct2]) simp_all
  ultimately show ?thesis by simp
qed

text \<open>The least amount is not written as a number; services never publish it.\<close>

lemma amount_text_least: "formatMinorUnits (- (2 ^ 63)) = ''--92,233,720,368,547,758.-8''"
  by code_simp

subsection \<open>The calendar\<close>

text \<open>The days before a date, counted from the first of January of the year 1.\<close>

definition days_before_year :: "int \<Rightarrow> int" where
  "days_before_year y = 365 * (y - 1) + (y - 1) div 4 - (y - 1) div 100 + (y - 1) div 400"

lemma days_before_year_split:
  assumes "0 \<le> b" "b \<le> 3" "0 \<le> c" "c \<le> 24" "0 \<le> e" "e \<le> 3"
  shows "days_before_year (400 * a + 100 * b + 4 * c + e + 1) = 146097 * a + 36524 * b + 1461 * c + 365 * e"
proof -
  let ?y = "400 * a + 100 * b + 4 * c + e"
  have "?y div 4 = 100 * a + 25 * b + c" "?y div 100 = 4 * a + b" "?y div 400 = a"
    using assms by (auto intro!: int_div_pos_eq [of _ 4 _ e] int_div_pos_eq [of _ 100 _ "4 * c + e"] int_div_pos_eq [of _ 400 _ "100 * b + 4 * c + e"])
  then show ?thesis by (simp add: days_before_year_def)
qed

lemma leap_split:
  assumes "0 \<le> b" "b \<le> 3" "0 \<le> c" "c \<le> 24" "b = 3 \<or> c < 24"
  shows "is_leap (400 * a + 100 * b + 4 * c + 4)"
proof -
  have "400 * a + 100 * b + 4 * c + 4 = 4 * (100 * a + 25 * b + c + 1)"
    by simp
  then have "(400 * a + 100 * b + 4 * c + 4) mod 4 = (0 :: int)"
    by (simp only: mod_mult_self1_is_0)
  moreover have "(400 * a + 100 * b + 4 * c + 4) mod 100 = 4 * c + 4" if "c < 24"
    using that assms by (intro int_mod_pos_eq [of _ _ "4 * a + b"]) auto
  moreover have "(400 * a + 100 * b + 4 * c + 4) mod 400 = 0" if "b = 3" "c = 24"
  proof -
    have "400 * a + 100 * b + 4 * c + 4 = 400 * (a + 1)" using that by simp
    then show ?thesis by (simp only: mod_mult_self1_is_0)
  qed
  ultimately show ?thesis using assms by (cases "c < 24") (auto simp: is_leap_def)
qed

text \<open>The year of a day and the day in the year.\<close>

lemma civil_year:
  assumes "civil_date d = (y, m, k)"
  obtains yday where "d = days_before_year y + yday" "0 \<le> yday" "yday < 365 \<or> (yday = 365 \<and> is_leap y)"
    "(m, k) = month_day (month_lengths (is_leap y)) 1 yday"
proof -
  define a d400 where "a = d div 146097" and "d400 = d mod 146097"
  define b where "b = min 3 (d400 div 36524)"
  define d100 where "d100 = d400 - 36524 * b"
  define c d4 where "c = d100 div 1461" and "d4 = d100 mod 1461"
  define e where "e = min 3 (d4 div 365)"
  define yday where "yday = d4 - 365 * e"
  define y' where "y' = 400 * a + 100 * b + 4 * c + e + 1"
  have "civil_date d = (y', month_day (month_lengths (is_leap y')) 1 yday)"
    unfolding civil_date_def Let_def y'_def a_def b_def c_def e_def d400_def d100_def d4_def yday_def ..
  then have y: "y = 400 * a + 100 * b + 4 * c + e + 1" "(m, k) = month_day (month_lengths (is_leap y)) 1 yday"
    using assms by (simp_all add: y'_def)
  have d: "d = 146097 * a + d400" "0 \<le> d400" "d400 < 146097" by (simp_all add: a_def d400_def)
  have b: "0 \<le> b" "b \<le> 3" "0 \<le> d100" "d100 < 36524 \<or> (b = 3 \<and> d100 < 36525)"
    using d unfolding b_def d100_def min_def by (auto simp: pos_imp_zdiv_nonneg_iff)
  have c: "d100 = 1461 * c + d4" "0 \<le> d4" "d4 < 1461" "0 \<le> c" "c \<le> 24"
    using b by (auto simp: c_def d4_def pos_imp_zdiv_nonneg_iff)
  have e: "0 \<le> e" "e \<le> 3" "0 \<le> yday" "yday < 365 \<or> (e = 3 \<and> yday = 365)"
    using c unfolding e_def yday_def min_def by (auto simp: pos_imp_zdiv_nonneg_iff)
  have "d = days_before_year y + yday"
    using d c b e days_before_year_split [of b c e a] y by (simp add: yday_def d100_def)
  moreover have "is_leap y" if "e = 3" "yday = 365"
  proof -
    have "b = 3 \<or> c < 24" using that b(4) c by (auto simp: yday_def)
    then have "is_leap (400 * a + 100 * b + 4 * c + 4)" using leap_split [of b c a] b c by blast
    moreover have "y = 400 * a + 100 * b + 4 * c + 4" using y(1) that by simp
    ultimately show ?thesis by (simp only:)
  qed
  ultimately show thesis using that e y by blast
qed

lemma month_day_sum:
  assumes "0 \<le> d" "d < sum_list ls" "month_day ls m d = (m', k)"
  shows "\<exists>i < length ls. m' = m + int i \<and> d = sum_list (take i ls) + k - 1 \<and> 1 \<le> k \<and> k \<le> ls ! i"
  using assms
proof (induction ls arbitrary: m d)
  case (Cons l ls)
  show ?case
  proof (cases "d < l")
    case True
    then show ?thesis using Cons.prems by (intro exI [of _ 0]) auto
  next
    case False
    then obtain i where "i < length ls" "m' = m + 1 + int i" "d - l = sum_list (take i ls) + k - 1" "1 \<le> k" "k \<le> ls ! i"
      using Cons.IH [of "d - l" "m + 1"] Cons.prems by auto
    then show ?thesis by (intro exI [of _ "Suc i"]) auto
  qed
qed simp

lemma civil_date_right:
  assumes "civil_date d = (y, m, k)"
  shows "\<exists>i < 12. m = 1 + int i \<and> d = days_before_year y + sum_list (take i (month_lengths (is_leap y))) + k - 1 \<and>
           1 \<le> k \<and> k \<le> month_lengths (is_leap y) ! i"
proof -
  obtain yday where "d = days_before_year y + yday" "0 \<le> yday" "yday < 365 \<or> (yday = 365 \<and> is_leap y)"
    "month_day (month_lengths (is_leap y)) 1 yday = (m, k)"
    using civil_year [OF assms] by metis
  moreover have "yday < sum_list (month_lengths (is_leap y))" "length (month_lengths (is_leap y)) = 12"
    using calculation(3) by (auto simp: month_lengths_def)
  ultimately show ?thesis using month_day_sum [of yday "month_lengths (is_leap y)" 1 m k] by auto
qed

subsection \<open>Sending\<close>

abbreviation mail_of :: "string \<Rightarrow> string \<Rightarrow> email \<Rightarrow> mail" where
  "mail_of sender to m \<equiv> \<lparr>ml_from = sender, ml_to = to, ml_text = message_text sender to m\<rparr>"

lemma sendEmail_cases:
  assumes "sendEmail ans sender to m = (sent, r)"
  obtains (ok) "sent = [mail_of sender to m]" "r = None" "valid_line to"
    | (refused) err where "sent = []" "r = Some err"
    | (unknown) err where "sent = [mail_of sender to m]" "r = Some err" "valid_line to"
  using assms by (auto simp: sendEmail_def SendMail_def split: if_splits smtp_answer.splits)

lemma send_loop_sent:
  assumes "send_loop smtp sender to m i n err = (sent, r)"
  shows "set sent \<subseteq> {mail_of sender to m} \<and> length sent \<le> n \<and> (sent \<noteq> [] \<longrightarrow> valid_line to) \<and> (r = None \<longrightarrow> sent \<noteq> [])"
  using assms
proof (induction n arbitrary: i err sent)
  case (Suc n)
  obtain s1 r1 where 1: "sendEmail (smtp i) sender to m = (s1, r1)" by (metis surj_pair)
  show ?case
  proof (cases r1)
    case None
    with 1 Suc.prems show ?thesis by (auto elim: sendEmail_cases)
  next
    case (Some err')
    obtain s2 where 2: "send_loop smtp sender to m (Suc i) n err' = (s2, r)" "sent = s1 @ s2"
      using Suc.prems 1 Some by (auto split: prod.splits)
    from Suc.IH [OF 2(1)] 1 2(2) show ?thesis by (auto elim!: sendEmail_cases)
  qed
qed auto

text \<open>The mails of one send: copies of the one message, at most three, at least one when it succeeds.\<close>

lemma sendEmailWithRetry_sent:
  assumes "sendEmailWithRetry smtp sender to m = (sent, r)"
  shows "set sent \<subseteq> {mail_of sender to m}" "length sent \<le> 3" "r = None \<Longrightarrow> mail_of sender to m \<in> set sent"
proof -
  note s = send_loop_sent [OF assms [unfolded sendEmailWithRetry_def]]
  show "set sent \<subseteq> {mail_of sender to m}" "length sent \<le> 3" using s by (auto simp: sendAttempts_def)
  show "mail_of sender to m \<in> set sent" if "r = None" using s that by (cases sent) auto
qed

lemma sendEmailWithRetry_accepted:
  assumes "smtp 0 = SmtpAccepted" "valid_line sender" "valid_line to"
  shows "sendEmailWithRetry smtp sender to m = ([mail_of sender to m], None)"
  using assms by (simp add: sendEmailWithRetry_def sendAttempts_def eval_nat_numeral sendEmail_def SendMail_def)

lemma sendEmailWithRetry_refused:
  assumes "\<And>i. smtp i = SmtpRefused err" "valid_line sender" "valid_line to"
  shows "sendEmailWithRetry smtp sender to m = ([], Some (wrap_err (''send email to '' @ to @ '' after 3 attempts'') err))"
proof -
  have "show_int (int sendAttempts) = ''3''" by code_simp
  then show ?thesis
    using assms by (simp add: sendEmailWithRetry_def sendAttempts_def [unfolded eval_nat_numeral] sendEmail_def SendMail_def)
qed

end
