(* ===== verification/Notifications.thy ===== *)
theory Notifications
  imports Emails
begin

text \<open>
  services/notifications-svc: the contacts and the table of processed events (contacts.go), the handlers of the
  events, the retries and the dead letter topic, and the consumers (kafka.go). Log lines and spans are left out.

  Three goroutines work on one database. What the others do to it before statement \<open>i\<close> of a handler is
  \<open>nv_meanwhile i\<close>. The statements of a handler are numbered: 0 claims or checks the event, 1 to 15 and 16 to 30
  are the bounded waits for contacts, 31 finishes. A mail to the first party has the answers \<open>nv_smtp\<close> 0 to 2, one to the
  second 3 to 5.
\<close>

subsection \<open>Tables and statements\<close>

record user_contact =
  uc_user_id :: string
  uc_account_id :: "string option"
  uc_email :: string
  uc_account_number :: "string option"
  uc_display_name :: "string option"
  uc_updated_at :: int

record processed_event =
  pe_event_id :: string
  pe_status :: string
  pe_processed_at :: int

record notifications_db =
  user_contacts :: "user_contact list"
  notifications_processed_events :: "processed_event list"

definition eventStatusProcessing :: string where "eventStatusProcessing = ''processing''"
definition eventStatusSent :: string where "eventStatusSent = ''sent''"
definition eventStatusSkipped :: string where "eventStatusSkipped = ''skipped''"

text \<open>A statement runs, fails with an error, or runs without the client learning it.\<close>

datatype statement = Runs | FailsWith go_err | RunsUnanswered go_err

record nenv =
  nv_now :: int
  nv_statement :: "nat \<Rightarrow> statement"
  nv_meanwhile :: "nat \<Rightarrow> notifications_db \<Rightarrow> notifications_db"
  nv_smtp :: "nat \<Rightarrow> smtp_answer"

text \<open>\<open>f\<close> is what the statement does: an error of Postgres, or the new database and the answer.\<close>

definition run_statement ::
  "nenv \<Rightarrow> nat \<Rightarrow> (notifications_db \<Rightarrow> go_err + notifications_db \<times> 'r) \<Rightarrow> notifications_db \<Rightarrow> notifications_db \<times> (go_err + 'r)" where
  "run_statement nv i f db0 =
     (let db = nv_meanwhile nv i db0 in
      case nv_statement nv i of
        FailsWith err \<Rightarrow> (db, Inl err)
      | Runs \<Rightarrow> (case f db of Inl err \<Rightarrow> (db, Inl err) | Inr (db', r) \<Rightarrow> (db', Inr r))
      | RunsUnanswered err \<Rightarrow> (case f db of Inl err' \<Rightarrow> (db, Inl err') | Inr (db', r) \<Rightarrow> (db', Inl err)))"

definition invalid_uuid :: go_err where
  "invalid_uuid = pg_error ''22P02'' ''invalid input syntax for type uuid''"

definition unique_violation :: go_err where
  "unique_violation = pg_error ''23505'' ''duplicate key value violates unique constraint''"

text \<open>\<open>NULLIF(s, '')\<close> and \<open>COALESCE(c, '')\<close>.\<close>

definition nullif_empty :: "string \<Rightarrow> string option" where
  "nullif_empty s = (if s = [] then None else Some s)"

definition coalesce_empty :: "string option \<Rightarrow> string" where
  "coalesce_empty c = (case c of None \<Rightarrow> [] | Some s \<Rightarrow> s)"

subsection \<open>contacts.go\<close>

record contact =
  ct_UserID :: string
  ct_Email :: string
  ct_AccountNumber :: string

definition no_contact :: contact where
  "no_contact = \<lparr>ct_UserID = [], ct_Email = [], ct_AccountNumber = []\<rparr>"

definition upsertUserContactEmail ::
  "runtime \<Rightarrow> nenv \<Rightarrow> nat \<Rightarrow> notifications_db \<Rightarrow> string \<Rightarrow> string \<Rightarrow> notifications_db \<times> (go_err + unit)" where
  "upsertUserContactEmail rt nv i db userID email =
     run_statement nv i (\<lambda>db.
       case uuid_in rt userID of
         None \<Rightarrow> Inl invalid_uuid
       | Some u \<Rightarrow>
           Inr (db\<lparr>user_contacts :=
                  (if u \<in> uc_user_id ` set (user_contacts db)
                   then update_where (\<lambda>c. uc_user_id c = u) (\<lambda>c. c\<lparr>uc_email := email, uc_updated_at := nv_now nv\<rparr>) (user_contacts db)
                   else user_contacts db @
                     [\<lparr>uc_user_id = u, uc_account_id = None, uc_email = email, uc_account_number = None,
                       uc_display_name = None, uc_updated_at = nv_now nv\<rparr>])\<rparr>, ())) db"

text \<open>The column account\_id is UNIQUE: a second row may not get the same account.\<close>

definition updateUserContactAccountLink ::
  "runtime \<Rightarrow> nenv \<Rightarrow> nat \<Rightarrow> notifications_db \<Rightarrow> string \<Rightarrow> string \<Rightarrow> string \<Rightarrow> notifications_db \<times> (go_err + bool)" where
  "updateUserContactAccountLink rt nv i db userID accountID accountNumber =
     run_statement nv i (\<lambda>db.
       case (uuid_in rt accountID, uuid_in rt userID) of
         (Some a, Some u) \<Rightarrow>
           if u \<in> uc_user_id ` set (user_contacts db)
              \<and> list_ex (\<lambda>c. uc_user_id c \<noteq> u \<and> uc_account_id c = Some a) (user_contacts db)
           then Inl unique_violation
           else Inr (db\<lparr>user_contacts := update_where (\<lambda>c. uc_user_id c = u)
                          (\<lambda>c. c\<lparr>uc_account_id := Some a, uc_account_number := nullif_empty accountNumber, uc_updated_at := nv_now nv\<rparr>)
                          (user_contacts db)\<rparr>,
                     0 < rows_affected (\<lambda>c. uc_user_id c = u) (user_contacts db))
       | _ \<Rightarrow> Inl invalid_uuid) db"

definition updateUserContactDisplayName ::
  "runtime \<Rightarrow> nenv \<Rightarrow> nat \<Rightarrow> notifications_db \<Rightarrow> string \<Rightarrow> string \<Rightarrow> notifications_db \<times> (go_err + unit)" where
  "updateUserContactDisplayName rt nv i db userID displayName =
     run_statement nv i (\<lambda>db.
       case uuid_in rt userID of
         None \<Rightarrow> Inl invalid_uuid
       | Some u \<Rightarrow>
           Inr (db\<lparr>user_contacts := update_where (\<lambda>c. uc_user_id c = u)
                     (\<lambda>c. c\<lparr>uc_display_name := nullif_empty displayName, uc_updated_at := nv_now nv\<rparr>) (user_contacts db)\<rparr>, ())) db"

definition getContactByAccountID ::
  "runtime \<Rightarrow> nenv \<Rightarrow> nat \<Rightarrow> notifications_db \<Rightarrow> string \<Rightarrow> notifications_db \<times> (go_err + contact option)" where
  "getContactByAccountID rt nv i db accountID =
     run_statement nv i (\<lambda>db.
       case uuid_in rt accountID of
         None \<Rightarrow> Inl invalid_uuid
       | Some a \<Rightarrow>
           Inr (db, map_option (\<lambda>c. \<lparr>ct_UserID = uc_user_id c, ct_Email = uc_email c,
                                     ct_AccountNumber = coalesce_empty (uc_account_number c)\<rparr>)
                      (find (\<lambda>c. uc_account_id c = Some a) (user_contacts db)))) db"

definition event_row :: "string \<Rightarrow> notifications_db \<Rightarrow> processed_event option" where
  "event_row u db = find (\<lambda>p. pe_event_id p = u) (notifications_processed_events db)"

definition isEventProcessed :: "runtime \<Rightarrow> nenv \<Rightarrow> nat \<Rightarrow> notifications_db \<Rightarrow> string \<Rightarrow> notifications_db \<times> (go_err + bool)" where
  "isEventProcessed rt nv i db eventID =
     run_statement nv i (\<lambda>db.
       case uuid_in rt eventID of
         None \<Rightarrow> Inl invalid_uuid
       | Some u \<Rightarrow> Inr (db, event_row u db \<noteq> None)) db"

text \<open>\<open>INSERT ... ON CONFLICT (event_id) DO NOTHING\<close>, the statement that a claim begins with too.\<close>

definition insert_event :: "nenv \<Rightarrow> string \<Rightarrow> string \<Rightarrow> notifications_db \<Rightarrow> notifications_db" where
  "insert_event nv u status db =
     (if event_row u db \<noteq> None then db
      else db\<lparr>notifications_processed_events := notifications_processed_events db @
                [\<lparr>pe_event_id = u, pe_status = status, pe_processed_at = nv_now nv\<rparr>]\<rparr>)"

definition markEventProcessed ::
  "runtime \<Rightarrow> nenv \<Rightarrow> nat \<Rightarrow> notifications_db \<Rightarrow> string \<Rightarrow> string \<Rightarrow> notifications_db \<times> (go_err + unit)" where
  "markEventProcessed rt nv i db eventID status =
     run_statement nv i (\<lambda>db.
       case uuid_in rt eventID of
         None \<Rightarrow> Inl invalid_uuid
       | Some u \<Rightarrow> Inr (insert_event nv u status db, ())) db"

definition claimEvent :: "runtime \<Rightarrow> nenv \<Rightarrow> nat \<Rightarrow> notifications_db \<Rightarrow> string \<Rightarrow> notifications_db \<times> (go_err + bool)" where
  "claimEvent rt nv i db eventID =
     run_statement nv i (\<lambda>db.
       case uuid_in rt eventID of
         None \<Rightarrow> Inl invalid_uuid
       | Some u \<Rightarrow>
           Inr (insert_event nv u eventStatusProcessing db,
                (case event_row u db of None \<Rightarrow> eventStatusProcessing | Some p \<Rightarrow> pe_status p) = eventStatusProcessing)) db"

definition finishEvent ::
  "runtime \<Rightarrow> nenv \<Rightarrow> nat \<Rightarrow> notifications_db \<Rightarrow> string \<Rightarrow> string \<Rightarrow> notifications_db \<times> (go_err + unit)" where
  "finishEvent rt nv i db eventID status =
     run_statement nv i (\<lambda>db.
       case uuid_in rt eventID of
         None \<Rightarrow> Inl invalid_uuid
       | Some u \<Rightarrow>
           Inr (db\<lparr>notifications_processed_events :=
                  update_where (\<lambda>p. pe_event_id p = u) (\<lambda>p. p\<lparr>pe_status := status, pe_processed_at := nv_now nv\<rparr>)
                    (notifications_processed_events db)\<rparr>, ())) db"

subsection \<open>The projection handlers of kafka.go\<close>

record UserActivated =
  ua_UserId :: string
  ua_Email :: string
  ua_OccurredAt :: "Timestamp option"
  ua_EventId :: string

record ProfileUpdated =
  pu_UserId :: string
  pu_DisplayName :: string
  pu_OccurredAt :: "Timestamp option"
  pu_EventId :: string

record AccountCreated =
  ac_EventId :: string
  ac_UserId :: string
  ac_AccountId :: string
  ac_AccountNumber :: string
  ac_OccurredAt :: "Timestamp option"

definition contactWaitAttempts :: nat where "contactWaitAttempts = 15"

text \<open>The tail of the three handlers: \<open>markEventProcessed(..., eventStatusSkipped)\<close>, the last statement.\<close>

definition mark_skipped :: "runtime \<Rightarrow> nenv \<Rightarrow> notifications_db \<Rightarrow> string \<Rightarrow> notifications_db \<times> go_err option" where
  "mark_skipped rt nv db eventID =
     (case markEventProcessed rt nv 31 db eventID eventStatusSkipped of
        (db', Inl err) \<Rightarrow> (db', Some (wrap_err (''mark event '' @ eventID @ '' processed'') err))
      | (db', Inr _) \<Rightarrow> (db', None))"

definition handleUserActivated :: "runtime \<Rightarrow> nenv \<Rightarrow> UserActivated \<Rightarrow> notifications_db \<Rightarrow> notifications_db \<times> go_err option" where
  "handleUserActivated rt nv event db =
     (case isEventProcessed rt nv 0 db (ua_EventId event) of
        (db1, Inl err) \<Rightarrow> (db1, Some (wrap_err (''check processed_events for event '' @ ua_EventId event) err))
      | (db1, Inr processed) \<Rightarrow>
          if processed then (db1, None)
          else (case upsertUserContactEmail rt nv 1 db1 (ua_UserId event) (ua_Email event) of
                  (db2, Inl err) \<Rightarrow> (db2, Some (wrap_err (''upsert user_contacts for user '' @ ua_UserId event) err))
                | (db2, Inr _) \<Rightarrow> mark_skipped rt nv db2 (ua_EventId event)))"

definition handleProfileUpdated :: "runtime \<Rightarrow> nenv \<Rightarrow> ProfileUpdated \<Rightarrow> notifications_db \<Rightarrow> notifications_db \<times> go_err option" where
  "handleProfileUpdated rt nv event db =
     (case isEventProcessed rt nv 0 db (pu_EventId event) of
        (db1, Inl err) \<Rightarrow> (db1, Some (wrap_err (''check processed_events for event '' @ pu_EventId event) err))
      | (db1, Inr processed) \<Rightarrow>
          if processed then (db1, None)
          else (case updateUserContactDisplayName rt nv 1 db1 (pu_UserId event) (pu_DisplayName event) of
                  (db2, Inl err) \<Rightarrow> (db2, Some (wrap_err (''update user_contacts display_name for user '' @ pu_UserId event) err))
                | (db2, Inr _) \<Rightarrow> mark_skipped rt nv db2 (pu_EventId event)))"

text \<open>The wait for the row of the user: \<open>n\<close> attempts are left, the next one is statement \<open>i\<close>.\<close>

fun link_loop ::
  "runtime \<Rightarrow> nenv \<Rightarrow> nat \<Rightarrow> nat \<Rightarrow> notifications_db \<Rightarrow> AccountCreated \<Rightarrow> notifications_db \<times> (go_err + bool)" where
  "link_loop rt nv i 0 db event = (db, Inr False)"
| "link_loop rt nv i (Suc n) db event =
     (case updateUserContactAccountLink rt nv i db (ac_UserId event) (ac_AccountId event) (ac_AccountNumber event) of
        (db', Inl err) \<Rightarrow> (db', Inl err)
      | (db', Inr linked) \<Rightarrow> if linked then (db', Inr True) else link_loop rt nv (Suc i) n db' event)"

definition handleAccountCreated :: "runtime \<Rightarrow> nenv \<Rightarrow> AccountCreated \<Rightarrow> notifications_db \<Rightarrow> notifications_db \<times> go_err option" where
  "handleAccountCreated rt nv event db =
     (case isEventProcessed rt nv 0 db (ac_EventId event) of
        (db1, Inl err) \<Rightarrow> (db1, Some (wrap_err (''check processed_events for event '' @ ac_EventId event) err))
      | (db1, Inr processed) \<Rightarrow>
          if processed then (db1, None)
          else (case link_loop rt nv 1 contactWaitAttempts db1 event of
                  (db2, Inl err) \<Rightarrow> (db2, Some (wrap_err (''link account for user '' @ ac_UserId event) err))
                | (db2, Inr linked) \<Rightarrow>
                    if \<not> linked
                    then (db2, Some (errors_New (''no user_contacts row for user '' @ ac_UserId event @ '' after '' @
                            show_int (int contactWaitAttempts) @ '' attempts (event '' @ ac_EventId event @ '', account '' @
                            ac_AccountId event @ ''): giving up for this pass'')))
                    else mark_skipped rt nv db2 (ac_EventId event)))"

subsection \<open>The handlers that mail\<close>

record TransferCompleted =
  tc_EventId :: string
  tc_TransferId :: string
  tc_SenderAccountId :: string
  tc_RecipientAccountId :: string
  tc_Amount :: int
  tc_LedgerTransactionId :: string
  tc_OccurredAt :: "Timestamp option"

record TransferFailed =
  tf_EventId :: string
  tf_TransferId :: string
  tf_SenderAccountId :: string
  tf_RecipientAccountId :: string
  tf_Amount :: int
  tf_Reason :: string
  tf_OccurredAt :: "Timestamp option"

record TransferRejected =
  tr_EventId :: string
  tr_TransferId :: string
  tr_SenderAccountId :: string
  tr_RecipientAccountId :: string
  tr_Amount :: int
  tr_TriggeredRule :: string
  tr_OccurredAt :: "Timestamp option"

record DepositCredited =
  dc_EventId :: string
  dc_DepositId :: string
  dc_AccountId :: string
  dc_Amount :: int
  dc_LedgerTransactionId :: string
  dc_OccurredAt :: "Timestamp option"

text \<open>The wait for a contact: \<open>None\<close> is \<open>contact{}, false\<close>.\<close>

fun wait_loop ::
  "runtime \<Rightarrow> nenv \<Rightarrow> nat \<Rightarrow> nat \<Rightarrow> notifications_db \<Rightarrow> string \<Rightarrow> notifications_db \<times> (go_err + contact option)" where
  "wait_loop rt nv i 0 db accountID = (db, Inr None)"
| "wait_loop rt nv i (Suc n) db accountID =
     (case getContactByAccountID rt nv i db accountID of
        (db', Inl err) \<Rightarrow> (db', Inl err)
      | (db', Inr (Some c)) \<Rightarrow> (db', Inr (Some c))
      | (db', Inr None) \<Rightarrow> wait_loop rt nv (Suc i) n db' accountID)"

definition waitForContactByAccountID ::
  "runtime \<Rightarrow> nenv \<Rightarrow> nat \<Rightarrow> notifications_db \<Rightarrow> string \<Rightarrow> notifications_db \<times> (go_err + contact option)" where
  "waitForContactByAccountID rt nv i db accountID = wait_loop rt nv i contactWaitAttempts db accountID"

definition finishTransferEvent ::
  "runtime \<Rightarrow> nenv \<Rightarrow> nat \<Rightarrow> notifications_db \<Rightarrow> string \<Rightarrow> nat \<Rightarrow> notifications_db \<times> go_err option" where
  "finishTransferEvent rt nv i db eventID sent =
     (let status = (if sent = 0 then eventStatusSkipped else eventStatusSent) in
      case finishEvent rt nv i db eventID status of
        (db', Inl err) \<Rightarrow> (db', Some (wrap_err (''finish event '' @ eventID @ '' as '' @ status) err))
      | (db', Inr _) \<Rightarrow> (db', None))"

text \<open>
  A handler returns the database, the mails the server took, and the error. \<open>send_to\<close> is one \<open>if found\<close> block: the
  mails, the number to add to \<open>sent\<close>, and the error.
\<close>

type_synonym handled = "notifications_db \<times> mail list \<times> go_err option"

definition send_to ::
  "(nat \<Rightarrow> smtp_answer) \<Rightarrow> string \<Rightarrow> string \<Rightarrow> string \<Rightarrow> contact option \<Rightarrow> email \<Rightarrow> mail list \<times> nat \<times> go_err option" where
  "send_to smtp smtpFrom kind eventID c m =
     (case c of
        None \<Rightarrow> ([], 0, None)
      | Some c \<Rightarrow>
          (case sendEmailWithRetry smtp smtpFrom (ct_Email c) m of
             (mails, Some err) \<Rightarrow> (mails, 0, Some (wrap_err (''send '' @ kind @ '' email for event '' @ eventID) err))
           | (mails, None) \<Rightarrow> (mails, 1, None)))"

definition handleTransferCompleted :: "runtime \<Rightarrow> string \<Rightarrow> nenv \<Rightarrow> TransferCompleted \<Rightarrow> notifications_db \<Rightarrow> handled" where
  "handleTransferCompleted rt smtpFrom nv event db =
     (let eventID = tc_EventId event in
      case claimEvent rt nv 0 db eventID of
        (db1, Inl err) \<Rightarrow> (db1, [], Some (wrap_err (''claim event '' @ eventID) err))
      | (db1, Inr claimed) \<Rightarrow>
          if \<not> claimed then (db1, [], None)
          else (case waitForContactByAccountID rt nv 1 db1 (tc_SenderAccountId event) of
            (db2, Inl err) \<Rightarrow> (db2, [], Some (wrap_err (''look up sender contact for event '' @ eventID) err))
          | (db2, Inr sender) \<Rightarrow>
            (case waitForContactByAccountID rt nv 16 db2 (tc_RecipientAccountId event) of
              (db3, Inl err) \<Rightarrow> (db3, [], Some (wrap_err (''look up recipient contact for event '' @ eventID) err))
            | (db3, Inr recipient) \<Rightarrow>
              (let occurred = eventTime (tc_OccurredAt event);
                   number = (\<lambda>c. ct_AccountNumber (case c of None \<Rightarrow> no_contact | Some c \<Rightarrow> c)) in
               case send_to (nv_smtp nv) smtpFrom ''transfer-sent'' eventID sender
                      (buildTransferSentEmail (tc_Amount event) (tc_TransferId event) (number recipient) occurred) of
                 (mails, _, Some err) \<Rightarrow> (db3, mails, Some err)
               | (mails, sent, None) \<Rightarrow>
                   (case send_to (\<lambda>k. nv_smtp nv (3 + k)) smtpFrom ''transfer-received'' eventID recipient
                           (buildTransferReceivedEmail (tc_Amount event) (tc_TransferId event) (number sender) occurred) of
                      (mails', _, Some err) \<Rightarrow> (db3, mails @ mails', Some err)
                    | (mails', sent', None) \<Rightarrow>
                        (case finishTransferEvent rt nv 31 db3 eventID (sent + sent') of
                           (db4, r) \<Rightarrow> (db4, mails @ mails', r)))))))"

text \<open>The other three handlers mail one contact; \<open>what\<close> and \<open>kind\<close> are the words of their errors.\<close>

definition handle_single ::
  "runtime \<Rightarrow> string \<Rightarrow> nenv \<Rightarrow> string \<Rightarrow> string \<Rightarrow> string \<Rightarrow> string \<Rightarrow> email \<Rightarrow> notifications_db \<Rightarrow> handled" where
  "handle_single rt smtpFrom nv what kind eventID accountID m db =
     (case claimEvent rt nv 0 db eventID of
        (db1, Inl err) \<Rightarrow> (db1, [], Some (wrap_err (''claim event '' @ eventID) err))
      | (db1, Inr claimed) \<Rightarrow>
          if \<not> claimed then (db1, [], None)
          else (case waitForContactByAccountID rt nv 1 db1 accountID of
            (db2, Inl err) \<Rightarrow> (db2, [], Some (wrap_err (''look up '' @ what @ '' for event '' @ eventID) err))
          | (db2, Inr c) \<Rightarrow>
            (case send_to (nv_smtp nv) smtpFrom kind eventID c m of
               (mails, _, Some err) \<Rightarrow> (db2, mails, Some err)
             | (mails, sent, None) \<Rightarrow>
                 (case finishTransferEvent rt nv 31 db2 eventID sent of (db3, r) \<Rightarrow> (db3, mails, r)))))"

definition handleTransferFailed :: "runtime \<Rightarrow> string \<Rightarrow> nenv \<Rightarrow> TransferFailed \<Rightarrow> notifications_db \<Rightarrow> handled" where
  "handleTransferFailed rt smtpFrom nv event db =
     handle_single rt smtpFrom nv ''sender contact'' ''transfer-failed'' (tf_EventId event) (tf_SenderAccountId event)
       (buildTransferFailedEmail (tf_Amount event) (tf_TransferId event) (tf_Reason event) (eventTime (tf_OccurredAt event))) db"

definition handleTransferRejected :: "runtime \<Rightarrow> string \<Rightarrow> nenv \<Rightarrow> TransferRejected \<Rightarrow> notifications_db \<Rightarrow> handled" where
  "handleTransferRejected rt smtpFrom nv event db =
     handle_single rt smtpFrom nv ''sender contact'' ''transfer-declined'' (tr_EventId event) (tr_SenderAccountId event)
       (buildTransferDeclinedEmail (tr_Amount event) (tr_TransferId event) (eventTime (tr_OccurredAt event))) db"

definition handleDepositCredited :: "runtime \<Rightarrow> string \<Rightarrow> nenv \<Rightarrow> DepositCredited \<Rightarrow> notifications_db \<Rightarrow> handled" where
  "handleDepositCredited rt smtpFrom nv event db =
     handle_single rt smtpFrom nv ''contact'' ''deposit-credited'' (dc_EventId event) (dc_AccountId event)
       (buildDepositCreditedEmail (dc_Amount event) (dc_DepositId event) (eventTime (dc_OccurredAt event))) db"

subsection \<open>Messages\<close>

record kafka_message =
  km_Key :: string
  km_Value :: string
  km_Headers :: "(string \<times> string) list"
  km_Partition :: int
  km_Offset :: int

text \<open>
  What the service is configured with and built from: the runtime, the sender address, \<open>proto.Unmarshal\<close> for each
  message type, and \<open>strconv.Quote\<close> for text that is not ASCII.
\<close>

record notifier =
  nf_rt :: runtime
  nf_smtpFrom :: string
  um_UserActivated :: "string \<Rightarrow> go_err + UserActivated"
  um_ProfileUpdated :: "string \<Rightarrow> go_err + ProfileUpdated"
  um_AccountCreated :: "string \<Rightarrow> go_err + AccountCreated"
  um_TransferCompleted :: "string \<Rightarrow> go_err + TransferCompleted"
  um_TransferFailed :: "string \<Rightarrow> go_err + TransferFailed"
  um_TransferRejected :: "string \<Rightarrow> go_err + TransferRejected"
  um_DepositCredited :: "string \<Rightarrow> go_err + DepositCredited"
  unicode_quote :: "string \<Rightarrow> string"

definition hex_char :: "nat \<Rightarrow> char" where
  "hex_char n = (if n < 10 then char_of (48 + n) else char_of (87 + n))"

text \<open>\<open>strconv.Quote\<close> on ASCII: escapes of one letter, or two hexadecimal digits.\<close>

definition quote_char :: "char \<Rightarrow> string" where
  "quote_char c =
     (let n = of_char c :: nat; bs = char_of (92 :: nat) in
      if n = 34 \<or> n = 92 then [bs, c]
      else if n = 7 then bs # ''a'' else if n = 8 then bs # ''b'' else if n = 12 then bs # ''f''
      else if n = 10 then bs # ''n'' else if n = 13 then bs # ''r'' else if n = 9 then bs # ''t''
      else if n = 11 then bs # ''v''
      else if n < 32 \<or> n = 127 then bs # ''x'' @ [hex_char (n div 16), hex_char (n mod 16)]
      else [c])"

definition Quote :: "notifier \<Rightarrow> string \<Rightarrow> string" where
  "Quote nf s = (if is_ascii s then [char_of (34 :: nat)] @ concat (map quote_char s) @ [char_of (34 :: nat)] else unicode_quote nf s)"

definition eventTypeHeader :: string where "eventTypeHeader = ''event_type''"
definition eventTypeTransferCompleted :: string where "eventTypeTransferCompleted = ''TransferCompleted''"
definition eventTypeTransferFailed :: string where "eventTypeTransferFailed = ''TransferFailed''"
definition eventTypeTransferRejected :: string where "eventTypeTransferRejected = ''TransferRejected''"
definition eventTypeDepositCredited :: string where "eventTypeDepositCredited = ''DepositCredited''"
definition eventTypeUserActivated :: string where "eventTypeUserActivated = ''UserActivated''"
definition eventTypeProfileUpdated :: string where "eventTypeProfileUpdated = ''ProfileUpdated''"

definition eventTypeOf :: "kafka_message \<Rightarrow> string" where
  "eventTypeOf msg = (case find (\<lambda>h. fst h = eventTypeHeader) (km_Headers msg) of None \<Rightarrow> [] | Some h \<Rightarrow> snd h)"

definition unmarshal_error :: "kafka_message \<Rightarrow> go_err \<Rightarrow> go_err" where
  "unmarshal_error msg err = wrap_err (''unmarshal '' @ eventTypeOf msg @ '' at offset '' @ show_int (km_Offset msg)) err"

text \<open>The result: the database, the mails, and \<open>eventID\<close>, \<open>eventType\<close>, \<open>err\<close>.\<close>

definition processTransferMessage ::
  "notifier \<Rightarrow> nenv \<Rightarrow> kafka_message \<Rightarrow> notifications_db \<Rightarrow> notifications_db \<times> mail list \<times> string \<times> string \<times> go_err option" where
  "processTransferMessage nf nv msg db =
     (let eventType = eventTypeOf msg; value = km_Value msg; rt = nf_rt nf; sender = nf_smtpFrom nf;
          failed = (\<lambda>err. (db, [], [], eventType, Some (unmarshal_error msg err)));
          place = ''partition '' @ show_int (km_Partition msg) @ '' offset '' @ show_int (km_Offset msg)
      in if eventType = eventTypeTransferCompleted then
           (case um_TransferCompleted nf value of
              Inl err \<Rightarrow> failed err
            | Inr event \<Rightarrow> (case handleTransferCompleted rt sender nv event db of (db', mails, r) \<Rightarrow> (db', mails, tc_EventId event, eventType, r)))
         else if eventType = eventTypeTransferFailed then
           (case um_TransferFailed nf value of
              Inl err \<Rightarrow> failed err
            | Inr event \<Rightarrow> (case handleTransferFailed rt sender nv event db of (db', mails, r) \<Rightarrow> (db', mails, tf_EventId event, eventType, r)))
         else if eventType = eventTypeTransferRejected then
           (case um_TransferRejected nf value of
              Inl err \<Rightarrow> failed err
            | Inr event \<Rightarrow> (case handleTransferRejected rt sender nv event db of (db', mails, r) \<Rightarrow> (db', mails, tr_EventId event, eventType, r)))
         else if eventType = eventTypeDepositCredited then
           (case um_DepositCredited nf value of
              Inl err \<Rightarrow> failed err
            | Inr event \<Rightarrow> (case handleDepositCredited rt sender nv event db of (db', mails, r) \<Rightarrow> (db', mails, dc_EventId event, eventType, r)))
         else if eventType = [] then
           (db, [], [], eventType, Some (errors_New (''message at '' @ place @ '' has no '' @ Quote nf eventTypeHeader @
              '' header (published before the discriminator existed)'')))
         else (db, [], [], eventType, Some (errors_New (''unknown event_type '' @ Quote nf eventType @ '' at '' @ place))))"

subsection \<open>Retries and the dead letter topic\<close>

definition transferMaxAttempts :: nat where "transferMaxAttempts = 5"
definition transferRetryBaseDelay :: int where "transferRetryBaseDelay = 500 * 10 ^ 6"
definition transferRetryMaxDelay :: int where "transferRetryMaxDelay = 8 * 10 ^ 9"
definition transferUnavailableBudget :: nat where "transferUnavailableBudget = 300 * 10 ^ 9"
definition transferUnavailableRetryDelay :: nat where "transferUnavailableRetryDelay = 2 * 10 ^ 9"

text \<open>\<open>uint64(1) << uint(attempt-1)\<close> is 0 when the shift is 64 or more; the product wraps around.\<close>

definition transferRetryDelay :: "nat \<Rightarrow> int" where
  "transferRetryDelay attempt =
     (let shifted = (if attempt = 0 \<or> 64 \<le> attempt - 1 then 0 else 2 ^ (attempt - 1));
          d = wrap64 (transferRetryBaseDelay * wrap64 shifted)
      in if d > transferRetryMaxDelay then transferRetryMaxDelay else d)"

text \<open>
  The loop over the attempts. \<open>k\<close> counts all attempts, \<open>attempt\<close> those that count against
  \<open>transferMaxAttempts\<close>; \<open>t\<close> is the time since the loop began, in nanoseconds, and \<open>elapsed k\<close> how long attempt \<open>k\<close>
  takes, with what its pause took longer than asked. The result tells whether the message was handled, or the values of
  \<open>eventID\<close>, \<open>eventType\<close> and \<open>err\<close> at the end.
\<close>

datatype retry_end = MessageHandled | GivenUp string string go_err

record loop_result =
  lr_db :: notifications_db
  lr_mails :: "mail list"
  lr_attempts :: nat
  lr_time :: nat
  lr_end :: retry_end

function retry_message ::
  "notifier \<Rightarrow> (nat \<Rightarrow> nenv) \<Rightarrow> (nat \<Rightarrow> nat) \<Rightarrow> kafka_message \<Rightarrow> nat \<Rightarrow> nat \<Rightarrow> nat \<Rightarrow> notifications_db \<Rightarrow> mail list
   \<Rightarrow> string \<times> string \<times> go_err \<Rightarrow> loop_result" where
  "retry_message nf nvs elapsed msg k attempt t db mails (eventID0, eventType0, err0) =
     (if transferMaxAttempts < attempt
      then \<lparr>lr_db = db, lr_mails = mails, lr_attempts = k, lr_time = t, lr_end = GivenUp eventID0 eventType0 err0\<rparr>
      else case processTransferMessage nf (nvs k) msg db of (db', sent, eventID, eventType, r) \<Rightarrow>
        (let t1 = t + elapsed k in
         case r of
           None \<Rightarrow> \<lparr>lr_db = db', lr_mails = mails @ sent, lr_attempts = k + 1, lr_time = t1, lr_end = MessageHandled\<rparr>
         | Some err \<Rightarrow>
             if IsUnavailable (Some err)
             then if t1 < transferUnavailableBudget
                  then retry_message nf nvs elapsed msg (k + 1) attempt (t1 + transferUnavailableRetryDelay) db' (mails @ sent)
                         (eventID, eventType, err)
                  else \<lparr>lr_db = db', lr_mails = mails @ sent, lr_attempts = k + 1, lr_time = t1,
                         lr_end = GivenUp eventID eventType err\<rparr>
             else retry_message nf nvs elapsed msg (k + 1) (attempt + 1)
                    (t1 + (if attempt < transferMaxAttempts then nat (transferRetryDelay attempt) else 0)) db' (mails @ sent)
                    (eventID, eventType, err)))"
  by pat_completeness auto
termination
  by (relation "measure (\<lambda>(nf, nvs, elapsed, msg, k, attempt, t, db, mails, last).
        (transferUnavailableBudget - t) + (Suc transferMaxAttempts - attempt))")
    (auto simp: transferUnavailableRetryDelay_def transferMaxAttempts_def)

declare retry_message.simps [simp del]

definition dlq_message :: "kafka_message \<Rightarrow> go_err \<Rightarrow> kafka_message" where
  "dlq_message msg cause =
     \<lparr>km_Key = km_Key msg, km_Value = km_Value msg,
      km_Headers = km_Headers msg @
        [(''dlq_reason'', ge_text cause), (''dlq_source_partition'', show_int (km_Partition msg)),
         (''dlq_source_offset'', show_int (km_Offset msg))],
      km_Partition = 0, km_Offset = 0\<rparr>"

text \<open>Writing to the dead letter topic; an error is only logged.\<close>

definition sendToDLQ :: "fault \<Rightarrow> kafka_message \<Rightarrow> go_err \<Rightarrow> kafka_message list" where
  "sendToDLQ f msg cause = (if f = Lost then [] else [dlq_message msg cause])"

text \<open>
  What one message meets: its attempts, the statement after giving up, the dead letter topic and the commit of the
  offset. The result has what was published and whether the broker has the offset.
\<close>

record message_env =
  me_attempt :: "nat \<Rightarrow> nenv"
  me_elapsed :: "nat \<Rightarrow> nat"
  me_close :: nenv
  me_dlq :: fault
  me_commit :: fault

record message_result =
  mr_db :: notifications_db
  mr_mails :: "mail list"
  mr_dlq :: "kafka_message list"
  mr_committed :: bool
  mr_attempts :: nat
  mr_end :: retry_end

definition handleTransferMessageWithRetry :: "notifier \<Rightarrow> message_env \<Rightarrow> kafka_message \<Rightarrow> notifications_db \<Rightarrow> message_result" where
  "handleTransferMessageWithRetry nf me msg db =
     (let lr = retry_message nf (me_attempt me) (me_elapsed me) msg 0 1 0 db [] ([], [], errors_New []) in
      case lr_end lr of
        MessageHandled \<Rightarrow>
          \<lparr>mr_db = lr_db lr, mr_mails = lr_mails lr, mr_dlq = [], mr_committed = (me_commit me \<noteq> Lost),
           mr_attempts = lr_attempts lr, mr_end = lr_end lr\<rparr>
      | GivenUp eventID eventType err \<Rightarrow>
          \<lparr>mr_db = (if eventID = [] then lr_db lr
                    else fst (finishEvent (nf_rt nf) (me_close me) 31 (lr_db lr) eventID eventStatusSkipped)),
           mr_mails = lr_mails lr, mr_dlq = sendToDLQ (me_dlq me) msg err, mr_committed = (me_commit me \<noteq> Lost),
           mr_attempts = lr_attempts lr, mr_end = lr_end lr\<rparr>)"

subsection \<open>The consumers\<close>

text \<open>
  What a message of user.events or account.events does: the new database, and whether the loop goes on to commit its
  offset. After an error the loop goes on to the next message without a commit.
\<close>

definition consume_user_message :: "notifier \<Rightarrow> nenv \<Rightarrow> kafka_message \<Rightarrow> notifications_db \<Rightarrow> notifications_db \<times> bool" where
  "consume_user_message nf nv msg db =
     (let eventType = eventTypeOf msg in
      if eventType = [] \<or> eventType = eventTypeUserActivated then
        (case um_UserActivated nf (km_Value msg) of
           Inl _ \<Rightarrow> (db, True)
         | Inr event \<Rightarrow> (case handleUserActivated (nf_rt nf) nv event db of (db', r) \<Rightarrow> (db', r = None)))
      else if eventType = eventTypeProfileUpdated then
        (case um_ProfileUpdated nf (km_Value msg) of
           Inl _ \<Rightarrow> (db, True)
         | Inr event \<Rightarrow> (case handleProfileUpdated (nf_rt nf) nv event db of (db', r) \<Rightarrow> (db', r = None)))
      else (db, True))"

definition consume_account_message :: "notifier \<Rightarrow> nenv \<Rightarrow> kafka_message \<Rightarrow> notifications_db \<Rightarrow> notifications_db \<times> bool" where
  "consume_account_message nf nv msg db =
     (case um_AccountCreated nf (km_Value msg) of
        Inl _ \<Rightarrow> (db, True)
      | Inr event \<Rightarrow> (case handleAccountCreated (nf_rt nf) nv event db of (db', r) \<Rightarrow> (db', r = None)))"

text \<open>
  A consumer over the messages fetched in one life of the process, from offset \<open>k\<close> on: the database and the
  offset that the broker has committed for the group. The commit of message \<open>k\<close> meets \<open>commits k\<close>.
\<close>

fun consume_loop ::
  "(nat \<Rightarrow> kafka_message \<Rightarrow> notifications_db \<Rightarrow> notifications_db \<times> bool) \<Rightarrow> (nat \<Rightarrow> fault) \<Rightarrow> nat \<Rightarrow> kafka_message list
   \<Rightarrow> notifications_db \<times> nat \<Rightarrow> notifications_db \<times> nat" where
  "consume_loop h commits k [] s = s"
| "consume_loop h commits k (msg # msgs) (db, committed) =
     (case h k msg db of (db', ok) \<Rightarrow>
        consume_loop h commits (Suc k) msgs (db', if ok \<and> commits k \<noteq> Lost then k + 1 else committed))"

definition runUserEventsConsumer ::
  "notifier \<Rightarrow> (nat \<Rightarrow> nenv) \<Rightarrow> (nat \<Rightarrow> fault) \<Rightarrow> nat \<Rightarrow> kafka_message list \<Rightarrow> notifications_db \<times> nat \<Rightarrow> notifications_db \<times> nat" where
  "runUserEventsConsumer nf nvs = consume_loop (\<lambda>k. consume_user_message nf (nvs k))"

definition runAccountCreatedConsumer ::
  "notifier \<Rightarrow> (nat \<Rightarrow> nenv) \<Rightarrow> (nat \<Rightarrow> fault) \<Rightarrow> nat \<Rightarrow> kafka_message list \<Rightarrow> notifications_db \<times> nat \<Rightarrow> notifications_db \<times> nat" where
  "runAccountCreatedConsumer nf nvs = consume_loop (\<lambda>k. consume_account_message nf (nvs k))"

text \<open>The consumer of transfer.events, with the mails and the dead letter topic.\<close>

record notify_state =
  ns_db :: notifications_db
  ns_mails :: "mail list"
  ns_dlq :: "kafka_message list"
  ns_committed :: nat

definition after_message :: "nat \<Rightarrow> message_result \<Rightarrow> notify_state \<Rightarrow> notify_state" where
  "after_message k r s =
     \<lparr>ns_db = mr_db r, ns_mails = ns_mails s @ mr_mails r, ns_dlq = ns_dlq s @ mr_dlq r,
      ns_committed = (if mr_committed r then k + 1 else ns_committed s)\<rparr>"

fun runTransferEventsConsumer ::
  "notifier \<Rightarrow> (nat \<Rightarrow> message_env) \<Rightarrow> nat \<Rightarrow> kafka_message list \<Rightarrow> notify_state \<Rightarrow> notify_state" where
  "runTransferEventsConsumer nf mes k [] s = s"
| "runTransferEventsConsumer nf mes k (msg # msgs) s =
     runTransferEventsConsumer nf mes (Suc k) msgs
       (after_message k (handleTransferMessageWithRetry nf (mes k) msg (ns_db s)) s)"

end
