(* ===== verification/Notifications_Properties.thy ===== *)
theory Notifications_Properties
  imports Notifications
begin

text \<open>
  Properties of notifications-svc: which status an event has after a handler, who is mailed what, that the retries end,
  and the run of the consumer over the whole topic with crashes and redelivery.
\<close>

subsection \<open>Statements\<close>

definition status_of :: "string \<Rightarrow> notifications_db \<Rightarrow> string option" where
  "status_of u db = map_option pe_status (event_row u db)"

text \<open>An event with a final status; the CHECK constraint leaves \<open>sent\<close> and \<open>skipped\<close>.\<close>

definition settled :: "string \<Rightarrow> notifications_db \<Rightarrow> bool" where
  "settled u db \<longleftrightarrow> (\<exists>s. status_of u db = Some s \<and> s \<noteq> eventStatusProcessing)"

lemmas status_names = eventStatusProcessing_def eventStatusSent_def eventStatusSkipped_def

lemma run_statement_Inr:
  "run_statement nv i f db = (db', Inr r) \<longleftrightarrow> nv_statement nv i = Runs \<and> f (nv_meanwhile nv i db) = Inr (db', r)"
  by (auto simp: run_statement_def Let_def split: statement.splits sum.splits)

lemma run_statement_db:
  assumes "run_statement nv i f db = (db', x)"
  shows "db' = nv_meanwhile nv i db \<or> (\<exists>r. f (nv_meanwhile nv i db) = Inr (db', r))"
  using assms by (auto simp: run_statement_def Let_def split: statement.splits sum.splits)

lemma find_snoc: "find p (xs @ [x]) = (case find p xs of None \<Rightarrow> if p x then Some x else None | Some y \<Rightarrow> Some y)"
  by (induction xs) auto

lemma find_update_where:
  assumes "\<And>r. p (f r) = p r" "\<And>r. q r \<Longrightarrow> p r = c"
  shows "find p (update_where q f xs) = map_option (\<lambda>r. if q r then f r else r) (find p xs)"
  using assms(1) by (induction xs) (auto simp: update_where_def)

lemma status_of_contacts [simp]: "status_of u (db\<lparr>user_contacts := cs\<rparr>) = status_of u db"
  by (simp add: status_of_def event_row_def)

lemma status_of_insert_event:
  "status_of v (insert_event nv u s db) = (if v = u \<and> status_of u db = None then Some s else status_of v db)"
  by (auto simp: status_of_def event_row_def insert_event_def find_snoc split: option.splits)

lemma user_contacts_insert_event [simp]: "user_contacts (insert_event nv u s db) = user_contacts db"
  by (simp add: insert_event_def)

lemma status_of_finish:
  "status_of v (db\<lparr>notifications_processed_events := update_where (\<lambda>p. pe_event_id p = u)
       (\<lambda>p. p\<lparr>pe_status := s, pe_processed_at := t\<rparr>) (notifications_processed_events db)\<rparr>)
   = (if v = u then map_option (\<lambda>_. s) (status_of v db) else status_of v db)"
proof -
  have "find (\<lambda>p. pe_event_id p = v) (update_where (\<lambda>p. pe_event_id p = u) (\<lambda>p. p\<lparr>pe_status := s, pe_processed_at := t\<rparr>) xs)
      = map_option (\<lambda>p. if pe_event_id p = u then p\<lparr>pe_status := s, pe_processed_at := t\<rparr> else p) (find (\<lambda>p. pe_event_id p = v) xs)" for xs :: "processed_event list"
    by (rule find_update_where [where c = "u = v"]) auto
  then show ?thesis
    by (cases "find (\<lambda>p. pe_event_id p = v) (notifications_processed_events db)")
      (auto simp: status_of_def event_row_def dest: find_Some_in)
qed

subsection \<open>What the other consumers may do\<close>

text \<open>
  The contract between the consumers: they leave the rows of events alone, and only the transfer consumer writes
  \<open>sent\<close>.
\<close>

definition kept :: "notifications_db \<Rightarrow> notifications_db \<Rightarrow> bool" where
  "kept db db' \<longleftrightarrow> (\<forall>u. (\<forall>s. status_of u db = Some s \<longrightarrow> status_of u db' = Some s) \<and>
     (status_of u db' = Some eventStatusSent \<longrightarrow> status_of u db = Some eventStatusSent))"

lemma kept_refl [simp]: "kept db db"
  by (simp add: kept_def)

lemma kept_trans [trans]: "kept a b \<Longrightarrow> kept b c \<Longrightarrow> kept a c"
  unfolding kept_def by blast

lemma kept_contacts [simp]: "kept db (db\<lparr>user_contacts := cs\<rparr>)"
  by (simp add: kept_def)

lemma kept_insert_event: "s \<noteq> eventStatusSent \<Longrightarrow> kept db (insert_event nv u s db)"
  by (auto simp: kept_def status_of_insert_event)

lemma kept_settled: "kept db db' \<Longrightarrow> settled u db \<Longrightarrow> settled u db'"
  unfolding kept_def settled_def by blast

locale event_peer =
  fixes peer :: "notifications_db \<Rightarrow> notifications_db"
  assumes peer_keeps: "kept db (peer db)"
begin

lemma peer_settled: "settled u db \<Longrightarrow> settled u (peer db)"
  by (rule kept_settled [OF peer_keeps])

lemma peer_after: "kept db db' \<Longrightarrow> kept db (peer db')"
  by (rule kept_trans [OF _ peer_keeps])

text \<open>A statement that runs after the peer keeps the rows when it does so itself.\<close>

lemma statement_kept:
  assumes "nv_meanwhile nv i = peer" "run_statement nv i f db = (db', x)"
    and "\<And>d d' r. f d = Inr (d', r) \<Longrightarrow> kept d d'"
  shows "kept db db'"
  using run_statement_db [OF assms(2)] assms(1,3) peer_keeps kept_trans by metis

end

text \<open>A handler whose peers keep the contract.\<close>

definition good_peers :: "nenv \<Rightarrow> bool" where
  "good_peers nv \<longleftrightarrow> (\<forall>i db. kept db (nv_meanwhile nv i db))"

lemma good_peersD: "good_peers nv \<Longrightarrow> event_peer (nv_meanwhile nv i)"
  by (simp add: good_peers_def event_peer_def)

lemma run_statement_kept:
  assumes "good_peers nv" "run_statement nv i f db = (db', x)" "\<And>d d' r. f d = Inr (d', r) \<Longrightarrow> kept d d'"
  shows "kept db db'"
  by (rule event_peer.statement_kept [OF good_peersD [OF assms(1)] refl assms(2,3)])

lemma statements_kept:
  assumes "good_peers nv"
  shows "upsertUserContactEmail rt nv i db a b = (db', x1) \<Longrightarrow> kept db db'"
    and "updateUserContactAccountLink rt nv i db a b c = (db', x2) \<Longrightarrow> kept db db'"
    and "updateUserContactDisplayName rt nv i db a b = (db', x1) \<Longrightarrow> kept db db'"
    and "getContactByAccountID rt nv i db a = (db', x3) \<Longrightarrow> kept db db'"
    and "isEventProcessed rt nv i db a = (db', x2) \<Longrightarrow> kept db db'"
    and "claimEvent rt nv i db a = (db', x2) \<Longrightarrow> kept db db'"
    and "s \<noteq> eventStatusSent \<Longrightarrow> markEventProcessed rt nv i db a s = (db', x1) \<Longrightarrow> kept db db'"
  unfolding upsertUserContactEmail_def updateUserContactAccountLink_def updateUserContactDisplayName_def
    getContactByAccountID_def isEventProcessed_def claimEvent_def markEventProcessed_def
  by (erule run_statement_kept [OF assms], auto split: option.splits if_splits intro!: kept_insert_event simp: status_names)+

lemma mark_skipped_kept: "good_peers nv \<Longrightarrow> kept a db \<Longrightarrow> kept a (fst (mark_skipped rt nv db ev))"
  by (auto simp: mark_skipped_def status_names split: prod.splits sum.splits dest: statements_kept(7) [rotated 2] intro: kept_trans)

lemma link_loop_kept: "good_peers nv \<Longrightarrow> link_loop rt nv i n db event = (db', x) \<Longrightarrow> kept db db'"
proof (induction n arbitrary: i db)
  case (Suc n)
  then show ?case
    by (auto split: prod.splits sum.splits if_splits dest!: statements_kept(2) intro: kept_trans)
qed simp

lemma handleUserActivated_kept:
  assumes "good_peers nv"
  shows "kept db (fst (handleUserActivated rt nv event db))"
  by (auto simp: handleUserActivated_def split: prod.splits sum.splits
      dest!: statements_kept(1,5) [OF assms] intro: kept_trans mark_skipped_kept [OF assms])

lemma handleProfileUpdated_kept:
  assumes "good_peers nv"
  shows "kept db (fst (handleProfileUpdated rt nv event db))"
  by (auto simp: handleProfileUpdated_def split: prod.splits sum.splits
      dest!: statements_kept(3,5) [OF assms] intro: kept_trans mark_skipped_kept [OF assms])

lemma handleAccountCreated_kept:
  assumes "good_peers nv"
  shows "kept db (fst (handleAccountCreated rt nv event db))"
  by (auto simp: handleAccountCreated_def split: prod.splits sum.splits
      dest!: statements_kept(5) [OF assms] link_loop_kept [OF assms] intro: kept_trans mark_skipped_kept [OF assms])

text \<open>A consumer of its own is a peer of the transfer consumer.\<close>

definition alone :: "nenv \<Rightarrow> nenv" where
  "alone nv = nv\<lparr>nv_meanwhile := (\<lambda>_ db. db)\<rparr>"

lemma good_peers_alone [simp]: "good_peers (alone nv)"
  by (simp add: good_peers_def alone_def)

interpretation user_activated: event_peer "\<lambda>db. fst (handleUserActivated rt (alone nv) event db)" for rt nv event
  by unfold_locales (simp add: handleUserActivated_kept)

interpretation profile_updated: event_peer "\<lambda>db. fst (handleProfileUpdated rt (alone nv) event db)" for rt nv event
  by unfold_locales (simp add: handleProfileUpdated_kept)

interpretation account_created: event_peer "\<lambda>db. fst (handleAccountCreated rt (alone nv) event db)" for rt nv event
  by unfold_locales (simp add: handleAccountCreated_kept)

subsection \<open>One attempt\<close>

text \<open>
  The links between accounts, addresses and account numbers that the contacts ever had; a handler finds one of them.
\<close>

type_synonym link = "string \<times> string \<times> string"

definition links_in :: "link set \<Rightarrow> notifications_db \<Rightarrow> bool" where
  "links_in A db \<longleftrightarrow> (\<forall>c\<in>set (user_contacts db). \<forall>a. uc_account_id c = Some a \<longrightarrow>
     (a, uc_email c, coalesce_empty (uc_account_number c)) \<in> A)"

definition peers_link :: "link set \<Rightarrow> nenv \<Rightarrow> bool" where
  "peers_link A nv \<longleftrightarrow> (\<forall>i db. links_in A db \<longrightarrow> links_in A (nv_meanwhile nv i db))"

lemma getContact_links:
  assumes "getContactByAccountID rt nv i db acc = (db', x)" "links_in A db" "peers_link A nv"
  shows "links_in A db' \<and> (\<forall>c. x = Inr (Some c) \<longrightarrow> (\<exists>a. uuid_in rt acc = Some a \<and> (a, ct_Email c, ct_AccountNumber c) \<in> A))"
proof -
  have l: "links_in A (nv_meanwhile nv i db)" using assms by (simp add: peers_link_def)
  have "links_in A db'"
    using run_statement_db [OF assms(1) [unfolded getContactByAccountID_def]] l by (auto split: option.splits)
  moreover have "\<exists>a. uuid_in rt acc = Some a \<and> (a, ct_Email c, ct_AccountNumber c) \<in> A" if x: "x = Inr (Some c)" for c
  proof -
    from assms(1) x obtain a u where "uuid_in rt acc = Some a"
      "find (\<lambda>c. uc_account_id c = Some a) (user_contacts (nv_meanwhile nv i db)) = Some u"
      "c = \<lparr>ct_UserID = uc_user_id u, ct_Email = uc_email u, ct_AccountNumber = coalesce_empty (uc_account_number u)\<rparr>"
      by (auto simp: getContactByAccountID_def run_statement_Inr split: option.splits)
    then show ?thesis using l find_Some_in by (fastforce simp: links_in_def)
  qed
  ultimately show ?thesis by blast
qed

lemma wait_loop_found:
  assumes "wait_loop rt nv i n db acc = (db', x)" "links_in A db" "peers_link A nv"
  shows "links_in A db' \<and> (\<forall>c. x = Inr (Some c) \<longrightarrow> (\<exists>a. uuid_in rt acc = Some a \<and> (a, ct_Email c, ct_AccountNumber c) \<in> A))"
  using assms(1,2)
proof (induction n arbitrary: i db)
  case (Suc n)
  obtain d y where y: "getContactByAccountID rt nv i db acc = (d, y)" by (metis surj_pair)
  from getContact_links [OF y Suc.prems(2) assms(3)] y Suc show ?case
    by (auto split: sum.splits option.splits)
qed auto

lemma wait_loop_kept: "good_peers nv \<Longrightarrow> wait_loop rt nv i n db acc = (db', x) \<Longrightarrow> kept db db'"
proof (induction n arbitrary: i db)
  case (Suc n)
  then show ?case
    by (auto split: prod.splits sum.splits option.splits dest!: statements_kept(4) intro: kept_trans)
qed simp

lemma claimEvent_result:
  assumes "claimEvent rt nv i db ev = (db', Inr b)"
  obtains u where "uuid_in rt ev = Some u" "b \<Longrightarrow> status_of u db' = Some eventStatusProcessing" "\<not> b \<Longrightarrow> settled u db'"
proof -
  from assms obtain u where u: "uuid_in rt ev = Some u" "db' = insert_event nv u eventStatusProcessing (nv_meanwhile nv i db)"
    "b = ((case event_row u (nv_meanwhile nv i db) of None \<Rightarrow> eventStatusProcessing | Some p \<Rightarrow> pe_status p) = eventStatusProcessing)"
    by (auto simp: claimEvent_def run_statement_Inr split: option.splits)
  moreover have "status_of u db' = Some (case event_row u (nv_meanwhile nv i db) of None \<Rightarrow> eventStatusProcessing | Some p \<Rightarrow> pe_status p)"
    by (auto simp: u(2) status_of_insert_event) (auto simp: status_of_def split: option.splits)
  ultimately show thesis using that by (auto simp: settled_def)
qed

text \<open>What an attempt at the event with the id \<open>uo\<close> (when it has one) does; \<open>P\<close> holds of its mails.\<close>

definition attempt_ok ::
  "string option \<Rightarrow> (mail \<Rightarrow> bool) \<Rightarrow> notifications_db \<Rightarrow> notifications_db \<Rightarrow> mail list \<Rightarrow> go_err option \<Rightarrow> bool" where
  "attempt_ok uo P db db' mails r \<longleftrightarrow>
     (\<forall>v. settled v db \<longrightarrow> settled v db') \<and>
     (\<forall>v. status_of v db' = Some eventStatusSent \<longrightarrow> status_of v db = Some eventStatusSent \<or> (uo = Some v \<and> mails \<noteq> [])) \<and>
     (r = None \<longrightarrow> (\<exists>u. uo = Some u \<and> settled u db')) \<and>
     (\<forall>u. uo = Some u \<and> settled u db \<longrightarrow> mails = []) \<and>
     (\<forall>m\<in>set mails. P m)"

lemma attempt_ok_kept:
  assumes "kept db db'" "r = None \<Longrightarrow> \<exists>u. uo = Some u \<and> settled u db'"
    and "mails \<noteq> [] \<Longrightarrow> \<exists>u d. uo = Some u \<and> kept db d \<and> status_of u d = Some eventStatusProcessing" "\<And>m. m \<in> set mails \<Longrightarrow> P m"
  shows "attempt_ok uo P db db' mails r"
proof -
  have "mails = []" if "uo = Some u" "settled u db" for u
    using assms(3) that kept_settled by (fastforce simp: settled_def)
  then show ?thesis using assms kept_settled unfolding attempt_ok_def kept_def by blast
qed

lemma attempt_ok_claimed:
  assumes "kept db d" "status_of u d = Some eventStatusProcessing" "kept d db'" "\<And>m. m \<in> set mails \<Longrightarrow> P m"
  shows "attempt_ok (Some u) P db db' mails (Some err)"
  using assms by (intro attempt_ok_kept) (auto intro: kept_trans)

lemma finishTransferEvent_ok:
  assumes "good_peers nv" "finishTransferEvent rt nv i db2 ev n = (db', r)" "uuid_in rt ev = Some u"
    and "kept db d" "status_of u d = Some eventStatusProcessing" "kept d db2" "0 < n \<Longrightarrow> mails \<noteq> []" "\<And>m. m \<in> set mails \<Longrightarrow> P m"
  shows "attempt_ok (Some u) P db db' mails r"
proof -
  define s where "s = (if n = 0 then eventStatusSkipped else eventStatusSent)"
  define f where "f = (\<lambda>x :: notifications_db. x\<lparr>notifications_processed_events := update_where (\<lambda>p. pe_event_id p = u)
     (\<lambda>p. p\<lparr>pe_status := s, pe_processed_at := nv_now nv\<rparr>) (notifications_processed_events x)\<rparr>)"
  let ?d = "nv_meanwhile nv i db2"
  obtain x where x: "finishEvent rt nv i db2 ev s = (db', x)" "r = None \<longleftrightarrow> x = Inr ()"
    using assms(2) by (auto simp: finishTransferEvent_def Let_def s_def split: prod.splits sum.splits)
  have d: "kept d ?d" using assms(1,6) kept_trans by (auto simp: good_peers_def)
  then have p: "status_of u ?d = Some eventStatusProcessing" using assms(5) unfolding kept_def by blast
  have unsettled: "\<not> settled u db"
    using assms(4,5) kept_settled by (fastforce simp: settled_def)
  have "db' = ?d \<or> db' = f ?d"
    using run_statement_db [OF x(1) [unfolded finishEvent_def]] assms(3) by (auto simp: f_def s_def)
  then show ?thesis
  proof
    assume e: "db' = ?d"
    have "r \<noteq> None"
    proof
      assume "r = None"
      then have "?d = f ?d"
        using x e assms(3) by (auto simp: finishEvent_def run_statement_Inr f_def s_def)
      moreover have "status_of u (f ?d) = Some s" using p by (simp add: f_def status_of_finish)
      ultimately show False using p by (auto simp: s_def status_names split: if_splits)
    qed
    then show ?thesis
      using e assms kept_trans [OF assms(4) d] by (auto intro!: attempt_ok_kept)
  next
    assume e: "db' = f ?d"
    have st: "status_of v db' = (if v = u then Some s else status_of v ?d)" for v
      using p by (simp add: e f_def status_of_finish)
    have k: "kept db ?d" using assms(4) d kept_trans by blast
    have "settled u db'" by (simp add: settled_def st s_def status_names)
    moreover have "settled v db'" if "settled v db" for v
      using kept_settled [OF k that] st [of v] \<open>settled u db'\<close> by (auto simp: settled_def)
    moreover have "status_of v db = Some eventStatusSent \<or> (Some u = Some v \<and> mails \<noteq> [])"
      if "status_of v db' = Some eventStatusSent" for v
    proof (cases "v = u")
      case True
      then have "0 < n" using that st [of v] by (auto simp: s_def status_names split: if_splits)
      then show ?thesis using assms(7) True by blast
    next
      case False
      then have "status_of v ?d = Some eventStatusSent" using that st [of v] by simp
      then show ?thesis using k unfolding kept_def by blast
    qed
    ultimately show ?thesis using unsettled assms(8) by (auto simp: attempt_ok_def)
  qed
qed

text \<open>Who may be mailed what about a message: its own parties, the recipient only of a completed transfer.\<close>

definition notice :: "notifier \<Rightarrow> link set \<Rightarrow> string \<Rightarrow> email \<Rightarrow> mail \<Rightarrow> bool" where
  "notice nf A account e m \<longleftrightarrow>
     (\<exists>a to n. uuid_in (nf_rt nf) account = Some a \<and> (a, to, n) \<in> A \<and> m = mail_of (nf_smtpFrom nf) to e)"

definition number_of :: "notifier \<Rightarrow> link set \<Rightarrow> string \<Rightarrow> string \<Rightarrow> bool" where
  "number_of nf A account n \<longleftrightarrow> n = [] \<or> (\<exists>a to. uuid_in (nf_rt nf) account = Some a \<and> (a, to, n) \<in> A)"

definition completed_notice :: "notifier \<Rightarrow> link set \<Rightarrow> TransferCompleted \<Rightarrow> mail \<Rightarrow> bool" where
  "completed_notice nf A e m \<longleftrightarrow>
     (\<exists>n. number_of nf A (tc_RecipientAccountId e) n \<and>
        notice nf A (tc_SenderAccountId e) (buildTransferSentEmail (tc_Amount e) (tc_TransferId e) n (eventTime (tc_OccurredAt e))) m) \<or>
     (\<exists>n. number_of nf A (tc_SenderAccountId e) n \<and>
        notice nf A (tc_RecipientAccountId e) (buildTransferReceivedEmail (tc_Amount e) (tc_TransferId e) n (eventTime (tc_OccurredAt e))) m)"

lemma send_to_mails:
  assumes "send_to smtp smtpFrom kind ev c e = (mails, n, r)"
  shows "(\<forall>m\<in>set mails. \<exists>c'. c = Some c' \<and> m = mail_of smtpFrom (ct_Email c') e) \<and> (r = None \<and> 0 < n \<longrightarrow> mails \<noteq> [])"
proof (cases c)
  case None
  then show ?thesis using assms by (simp add: send_to_def)
next
  case (Some c')
  obtain ms x where s: "sendEmailWithRetry smtp smtpFrom (ct_Email c') e = (ms, x)" by (metis surj_pair)
  have "mails = ms" "r = None \<Longrightarrow> x = None" using assms Some s by (auto simp: send_to_def split: option.splits)
  then show ?thesis using sendEmailWithRetry_sent [OF s] Some by auto
qed

lemma wait_number:
  assumes "waitForContactByAccountID (nf_rt nf) nv i db acc = (db', Inr c)" "links_in A db" "peers_link A nv"
  shows "number_of nf A acc (ct_AccountNumber (case c of None \<Rightarrow> no_contact | Some c \<Rightarrow> c))"
    and "\<And>c' e. c = Some c' \<Longrightarrow> notice nf A acc e (mail_of (nf_smtpFrom nf) (ct_Email c') e)"
  using wait_loop_found [OF assms(1) [unfolded waitForContactByAccountID_def] assms(2,3)]
  by (auto simp: number_of_def notice_def no_contact_def split: option.splits)

lemma waitForContact_kept: "good_peers nv \<Longrightarrow> waitForContactByAccountID rt nv i db acc = (db', x) \<Longrightarrow> kept db db'"
  unfolding waitForContactByAccountID_def by (rule wait_loop_kept)

lemma waitForContact_links:
  "waitForContactByAccountID rt nv i db acc = (db', x) \<Longrightarrow> links_in A db \<Longrightarrow> peers_link A nv \<Longrightarrow> links_in A db'"
  using wait_loop_found by (fastforce simp: waitForContactByAccountID_def)

lemma claimEvent_links: "claimEvent rt nv i db ev = (db', x) \<Longrightarrow> links_in A db \<Longrightarrow> peers_link A nv \<Longrightarrow> links_in A db'"
  by (auto simp: claimEvent_def links_in_def peers_link_def split: option.splits dest!: run_statement_db)

lemma finishTransferEvent_links:
  assumes "finishTransferEvent rt nv i db ev n = (db', r)" "links_in A db" "peers_link A nv"
  shows "links_in A db'"
proof -
  obtain s x where "finishEvent rt nv i db ev s = (db', x)"
    using assms(1) by (auto simp: finishTransferEvent_def Let_def split: prod.splits sum.splits)
  then show ?thesis using assms(2,3)
    by (auto simp: finishEvent_def links_in_def peers_link_def split: option.splits dest!: run_statement_db)
qed

lemma handle_single_ok:
  assumes "good_peers nv" "links_in A db" "peers_link A nv"
    and h: "handle_single (nf_rt nf) (nf_smtpFrom nf) nv what kind ev acc e db = (db', mails, r)"
  shows "attempt_ok (uuid_in (nf_rt nf) ev) (notice nf A acc e) db db' mails r \<and> links_in A db'"
proof -
  obtain db1 x1 where 1: "claimEvent (nf_rt nf) nv 0 db ev = (db1, x1)" by (metis surj_pair)
  note k1 = statements_kept(6) [OF assms(1) 1] and l1 = claimEvent_links [OF 1 assms(2,3)]
  show ?thesis
  proof (cases "x1 = Inr True")
    case False
    then show ?thesis using h 1 k1 l1
      by (cases x1) (auto simp: handle_single_def elim: claimEvent_result intro!: attempt_ok_kept)
  next
    case True
    with 1 obtain u where u: "uuid_in (nf_rt nf) ev = Some u" "status_of u db1 = Some eventStatusProcessing"
      by (auto elim: claimEvent_result)
    obtain db2 x2 where 2: "waitForContactByAccountID (nf_rt nf) nv 1 db1 acc = (db2, x2)" by (metis surj_pair)
    note k2 = waitForContact_kept [OF assms(1) 2] and l2 = waitForContact_links [OF 2 l1 assms(3)]
    show ?thesis
    proof (cases x2)
      case (Inl err)
      then have "db' = db2" "mails = []" "\<exists>e'. r = Some e'" using h 1 2 True by (auto simp: handle_single_def)
      then show ?thesis using attempt_ok_claimed [OF k1 u(2) k2, of "[]"] l2 u(1) by auto
    next
      case (Inr c)
      obtain ms n y where 3: "send_to (nv_smtp nv) (nf_smtpFrom nf) kind ev c e = (ms, n, y)" by (metis surj_pair)
      have P: "notice nf A acc e m" if m: "m \<in> set ms" for m
      proof -
        obtain c' where "c = Some c'" "m = mail_of (nf_smtpFrom nf) (ct_Email c') e" using send_to_mails [OF 3] m by auto
        then show ?thesis by (simp add: wait_number(2) [OF 2 [unfolded Inr] l1 assms(3)])
      qed
      show ?thesis
      proof (cases y)
        case (Some err)
        then have "db' = db2" "mails = ms" "r = Some err" using h 1 2 3 True Inr by (auto simp: handle_single_def)
        then show ?thesis using attempt_ok_claimed [OF k1 u(2) k2 P] l2 u(1) by auto
      next
        case None
        obtain db3 z where 4: "finishTransferEvent (nf_rt nf) nv 31 db2 ev n = (db3, z)" by (metis surj_pair)
        have "db' = db3" "mails = ms" "r = z"
          using h 1 2 3 4 True Inr None by (auto simp: handle_single_def)
        then show ?thesis
          using finishTransferEvent_ok [OF assms(1) 4 u(1) k1 u(2) k2, of ms] send_to_mails [OF 3] None P
            finishTransferEvent_links [OF 4 l2 assms(3)] u(1) by auto
      qed
    qed
  qed
qed

lemma handleTransferCompleted_ok:
  assumes "good_peers nv" "links_in A db" "peers_link A nv"
    and h: "handleTransferCompleted (nf_rt nf) (nf_smtpFrom nf) nv ev db = (db', mails, r)"
  shows "attempt_ok (uuid_in (nf_rt nf) (tc_EventId ev)) (completed_notice nf A ev) db db' mails r \<and> links_in A db'"
proof -
  let ?wait = "waitForContactByAccountID (nf_rt nf) nv"
  let ?number = "\<lambda>c. ct_AccountNumber (case c of None \<Rightarrow> no_contact | Some c \<Rightarrow> c)"
  obtain db1 x1 where 1: "claimEvent (nf_rt nf) nv 0 db (tc_EventId ev) = (db1, x1)" by (metis surj_pair)
  note k1 = statements_kept(6) [OF assms(1) 1] and l1 = claimEvent_links [OF 1 assms(2,3)]
  show ?thesis
  proof (cases "x1 = Inr True")
    case False
    then show ?thesis using h 1 k1 l1
      by (cases x1) (auto simp: handleTransferCompleted_def Let_def elim: claimEvent_result intro!: attempt_ok_kept)
  next
    case True
    with 1 obtain u where u: "uuid_in (nf_rt nf) (tc_EventId ev) = Some u" "status_of u db1 = Some eventStatusProcessing"
      by (auto elim: claimEvent_result)
    obtain db2 x2 where 2: "?wait 1 db1 (tc_SenderAccountId ev) = (db2, x2)" by (metis surj_pair)
    note k2 = waitForContact_kept [OF assms(1) 2] and l2 = waitForContact_links [OF 2 l1 assms(3)]
    show ?thesis
    proof (cases x2)
      case (Inl err)
      then have "db' = db2" "mails = []" "\<exists>e'. r = Some e'" using h 1 2 True by (auto simp: handleTransferCompleted_def Let_def)
      then show ?thesis using attempt_ok_claimed [OF k1 u(2) k2, of "[]"] l2 u(1) by auto
    next
      case sender: (Inr sender)
      obtain db3 x3 where 3: "?wait 16 db2 (tc_RecipientAccountId ev) = (db3, x3)" by (metis surj_pair)
      note k3 = kept_trans [OF k2 waitForContact_kept [OF assms(1) 3]] and l3 = waitForContact_links [OF 3 l2 assms(3)]
      show ?thesis
      proof (cases x3)
        case (Inl err)
        then have "db' = db3" "mails = []" "\<exists>e'. r = Some e'"
          using h 1 2 3 True sender by (auto simp: handleTransferCompleted_def Let_def)
        then show ?thesis using attempt_ok_claimed [OF k1 u(2) k3, of "[]"] l3 u(1) by auto
      next
        case recipient: (Inr recipient)
        note ws = wait_number [OF 2 [unfolded sender] l1 assms(3)] and wr = wait_number [OF 3 [unfolded recipient] l2 assms(3)]
        define e1 where "e1 = buildTransferSentEmail (tc_Amount ev) (tc_TransferId ev) (?number recipient) (eventTime (tc_OccurredAt ev))"
        define e2 where "e2 = buildTransferReceivedEmail (tc_Amount ev) (tc_TransferId ev) (?number sender) (eventTime (tc_OccurredAt ev))"
        obtain ms1 n1 y1 where 4: "send_to (nv_smtp nv) (nf_smtpFrom nf) ''transfer-sent'' (tc_EventId ev) sender e1 = (ms1, n1, y1)"
          by (metis surj_pair)
        obtain ms2 n2 y2 where 5: "send_to (\<lambda>k. nv_smtp nv (3 + k)) (nf_smtpFrom nf) ''transfer-received'' (tc_EventId ev) recipient e2 = (ms2, n2, y2)"
          by (metis surj_pair)
        obtain db4 z where 6: "finishTransferEvent (nf_rt nf) nv 31 db3 (tc_EventId ev) (n1 + n2) = (db4, z)"
          by (metis surj_pair)
        have res: "(db', mails, r) = (if y1 \<noteq> None then (db3, ms1, y1) else if y2 \<noteq> None then (db3, ms1 @ ms2, y2) else (db4, ms1 @ ms2, z))"
          using h 1 2 3 4 5 6 True sender recipient
          by (auto simp: handleTransferCompleted_def Let_def e1_def e2_def split: option.splits)
        have P: "completed_notice nf A ev m" if "m \<in> set (ms1 @ ms2)" for m
          using that send_to_mails [OF 4] send_to_mails [OF 5] ws wr
          unfolding completed_notice_def e1_def e2_def set_append Un_iff by metis
        show ?thesis
        proof (cases "y1 = None \<and> y2 = None")
          case True
          then have "db' = db4" "mails = ms1 @ ms2" "r = z" using res by auto
          moreover have "ms1 @ ms2 \<noteq> []" if "0 < n1 + n2"
            using that send_to_mails [OF 4] send_to_mails [OF 5] True by auto
          ultimately show ?thesis
            using finishTransferEvent_ok [OF assms(1) 6 u(1) k1 u(2) k3, of "ms1 @ ms2"] P
              finishTransferEvent_links [OF 6 l3 assms(3)] u(1) by auto
        next
          case False
          then obtain e' where "db' = db3" "set mails \<subseteq> set (ms1 @ ms2)" "r = Some e'" using res by (auto split: if_splits)
          then show ?thesis using attempt_ok_claimed [OF k1 u(2) k3, of mails "completed_notice nf A ev"] P l3 u(1) by auto
        qed
      qed
    qed
  qed
qed

subsection \<open>A message\<close>

definition event_id_of :: "notifier \<Rightarrow> kafka_message \<Rightarrow> string option" where
  "event_id_of nf msg =
     (let t = eventTypeOf msg; v = km_Value msg in
      if t = eventTypeTransferCompleted then (case um_TransferCompleted nf v of Inl _ \<Rightarrow> None | Inr ev \<Rightarrow> Some (tc_EventId ev))
      else if t = eventTypeTransferFailed then (case um_TransferFailed nf v of Inl _ \<Rightarrow> None | Inr ev \<Rightarrow> Some (tf_EventId ev))
      else if t = eventTypeTransferRejected then (case um_TransferRejected nf v of Inl _ \<Rightarrow> None | Inr ev \<Rightarrow> Some (tr_EventId ev))
      else if t = eventTypeDepositCredited then (case um_DepositCredited nf v of Inl _ \<Rightarrow> None | Inr ev \<Rightarrow> Some (dc_EventId ev))
      else None)"

text \<open>The row of a message's event.\<close>

definition event_key :: "notifier \<Rightarrow> kafka_message \<Rightarrow> string option" where
  "event_key nf msg = (case event_id_of nf msg of None \<Rightarrow> None | Some ev \<Rightarrow> uuid_in (nf_rt nf) ev)"

definition mail_allowed :: "notifier \<Rightarrow> link set \<Rightarrow> kafka_message \<Rightarrow> mail \<Rightarrow> bool" where
  "mail_allowed nf A msg m =
     (let t = eventTypeOf msg; v = km_Value msg in
      if t = eventTypeTransferCompleted then (case um_TransferCompleted nf v of Inl _ \<Rightarrow> False | Inr ev \<Rightarrow> completed_notice nf A ev m)
      else if t = eventTypeTransferFailed then
        (case um_TransferFailed nf v of Inl _ \<Rightarrow> False
         | Inr ev \<Rightarrow> notice nf A (tf_SenderAccountId ev)
             (buildTransferFailedEmail (tf_Amount ev) (tf_TransferId ev) (tf_Reason ev) (eventTime (tf_OccurredAt ev))) m)
      else if t = eventTypeTransferRejected then
        (case um_TransferRejected nf v of Inl _ \<Rightarrow> False
         | Inr ev \<Rightarrow> notice nf A (tr_SenderAccountId ev)
             (buildTransferDeclinedEmail (tr_Amount ev) (tr_TransferId ev) (eventTime (tr_OccurredAt ev))) m)
      else if t = eventTypeDepositCredited then
        (case um_DepositCredited nf v of Inl _ \<Rightarrow> False
         | Inr ev \<Rightarrow> notice nf A (dc_AccountId ev)
             (buildDepositCreditedEmail (dc_Amount ev) (dc_DepositId ev) (eventTime (dc_OccurredAt ev))) m)
      else False)"

lemmas event_type_names = eventTypeTransferCompleted_def eventTypeTransferFailed_def eventTypeTransferRejected_def
  eventTypeDepositCredited_def

lemma attempt_ok_nothing: "attempt_ok None P db db [] (Some err)"
  by (simp add: attempt_ok_def)

lemma processTransferMessage_ok:
  assumes "good_peers nv" "links_in A db" "peers_link A nv"
    and h: "processTransferMessage nf nv msg db = (db', mails, ev, ty, r)"
  shows "attempt_ok (event_key nf msg) (mail_allowed nf A msg) db db' mails r \<and> links_in A db' \<and>
    ev = (case event_id_of nf msg of None \<Rightarrow> [] | Some x \<Rightarrow> x)"
proof -
  note defs = processTransferMessage_def event_key_def event_id_of_def mail_allowed_def Let_def event_type_names
  note ok = handleTransferCompleted_ok [OF assms(1-3)] handle_single_ok [OF assms(1-3)]
  consider (completed) "eventTypeOf msg = eventTypeTransferCompleted" | (failed) "eventTypeOf msg = eventTypeTransferFailed"
    | (rejected) "eventTypeOf msg = eventTypeTransferRejected" | (credited) "eventTypeOf msg = eventTypeDepositCredited"
    | (other) "eventTypeOf msg \<notin> {eventTypeTransferCompleted, eventTypeTransferFailed, eventTypeTransferRejected, eventTypeDepositCredited}"
    by blast
  then show ?thesis
  proof cases
    case completed
    show ?thesis
    proof (cases "um_TransferCompleted nf (km_Value msg)")
      case (Inl err)
      with completed h assms(2) show ?thesis by (auto simp: defs attempt_ok_nothing)
    next
      case (Inr e)
      have "mail_allowed nf A msg = completed_notice nf A e"
        using completed Inr by (intro ext) (simp add: mail_allowed_def)
      moreover have "handleTransferCompleted (nf_rt nf) (nf_smtpFrom nf) nv e db = (db', mails, r)" "ev = tc_EventId e"
        "event_id_of nf msg = Some (tc_EventId e)"
        using completed Inr h by (auto simp: defs split: prod.splits)
      ultimately show ?thesis using ok(1) [of nf e] by (simp add: event_key_def)
    qed
  next
    case failed
    show ?thesis
    proof (cases "um_TransferFailed nf (km_Value msg)")
      case (Inl err)
      with failed h assms(2) show ?thesis by (auto simp: defs attempt_ok_nothing)
    next
      case (Inr e)
      let ?P = "notice nf A (tf_SenderAccountId e)
        (buildTransferFailedEmail (tf_Amount e) (tf_TransferId e) (tf_Reason e) (eventTime (tf_OccurredAt e)))"
      have "mail_allowed nf A msg = ?P"
        using failed Inr by (intro ext) (simp add: mail_allowed_def event_type_names)
      moreover have "handleTransferFailed (nf_rt nf) (nf_smtpFrom nf) nv e db = (db', mails, r)" "ev = tf_EventId e"
        "event_id_of nf msg = Some (tf_EventId e)"
        using failed Inr h by (auto simp: defs split: prod.splits)
      ultimately show ?thesis using ok(2) unfolding handleTransferFailed_def by (simp add: event_key_def)
    qed
  next
    case rejected
    show ?thesis
    proof (cases "um_TransferRejected nf (km_Value msg)")
      case (Inl err)
      with rejected h assms(2) show ?thesis by (auto simp: defs attempt_ok_nothing)
    next
      case (Inr e)
      let ?P = "notice nf A (tr_SenderAccountId e)
        (buildTransferDeclinedEmail (tr_Amount e) (tr_TransferId e) (eventTime (tr_OccurredAt e)))"
      have "mail_allowed nf A msg = ?P"
        using rejected Inr by (intro ext) (simp add: mail_allowed_def event_type_names)
      moreover have "handleTransferRejected (nf_rt nf) (nf_smtpFrom nf) nv e db = (db', mails, r)" "ev = tr_EventId e"
        "event_id_of nf msg = Some (tr_EventId e)"
        using rejected Inr h by (auto simp: defs split: prod.splits)
      ultimately show ?thesis using ok(2) unfolding handleTransferRejected_def by (simp add: event_key_def)
    qed
  next
    case credited
    show ?thesis
    proof (cases "um_DepositCredited nf (km_Value msg)")
      case (Inl err)
      with credited h assms(2) show ?thesis by (auto simp: defs attempt_ok_nothing)
    next
      case (Inr e)
      let ?P = "notice nf A (dc_AccountId e)
        (buildDepositCreditedEmail (dc_Amount e) (dc_DepositId e) (eventTime (dc_OccurredAt e)))"
      have "mail_allowed nf A msg = ?P"
        using credited Inr by (intro ext) (simp add: mail_allowed_def event_type_names)
      moreover have "handleDepositCredited (nf_rt nf) (nf_smtpFrom nf) nv e db = (db', mails, r)" "ev = dc_EventId e"
        "event_id_of nf msg = Some (dc_EventId e)"
        using credited Inr h by (auto simp: defs split: prod.splits)
      ultimately show ?thesis using ok(2) unfolding handleDepositCredited_def by (simp add: event_key_def)
    qed
  next
    case other
    with h assms(2) show ?thesis
      by (auto simp: processTransferMessage_def event_key_def event_id_of_def Let_def attempt_ok_nothing split: if_splits)
  qed
qed

subsection \<open>All attempts at a message\<close>

lemma attempt_ok_refl: "attempt_ok uo P db db [] (Some err)"
  by (simp add: attempt_ok_def)

lemma attempt_ok_trans:
  assumes "attempt_ok uo P a b ms1 (Some err)" "attempt_ok uo P b c ms2 r"
  shows "attempt_ok uo P a c (ms1 @ ms2) r"
  using assms unfolding attempt_ok_def by (simp add: ball_Un) blast

definition good_attempts :: "link set \<Rightarrow> (nat \<Rightarrow> nenv) \<Rightarrow> bool" where
  "good_attempts A nvs \<longleftrightarrow> (\<forall>k. good_peers (nvs k) \<and> peers_link A (nvs k))"

text \<open>What the loop leaves behind; \<open>ev0\<close> is the event id of an attempt before.\<close>

definition loop_ok ::
  "notifier \<Rightarrow> link set \<Rightarrow> kafka_message \<Rightarrow> notifications_db \<Rightarrow> mail list \<Rightarrow> string \<Rightarrow> loop_result \<Rightarrow> bool" where
  "loop_ok nf A msg db mails ev0 lr \<longleftrightarrow>
     (\<exists>new r. lr_mails lr = mails @ new \<and> attempt_ok (event_key nf msg) (mail_allowed nf A msg) db (lr_db lr) new r \<and>
        links_in A (lr_db lr) \<and> (r = None \<longleftrightarrow> lr_end lr = MessageHandled) \<and>
        (\<forall>ev ty err. lr_end lr = GivenUp ev ty err \<longrightarrow> ev \<in> {ev0, case event_id_of nf msg of None \<Rightarrow> [] | Some x \<Rightarrow> x}))"

lemma loop_ok_step:
  assumes "attempt_ok (event_key nf msg) (mail_allowed nf A msg) db db' sent (Some err)"
    "loop_ok nf A msg db' (mails @ sent) (case event_id_of nf msg of None \<Rightarrow> [] | Some x \<Rightarrow> x) lr"
  shows "loop_ok nf A msg db mails ev0 lr"
  using assms attempt_ok_trans unfolding loop_ok_def by (simp only: append_assoc) blast

text \<open>
  An induction for the loop: it ends with this attempt, or goes on with less to do.
\<close>

definition work_left :: "nat \<Rightarrow> nat \<Rightarrow> nat" where
  "work_left attempt t = (transferUnavailableBudget - t) + (Suc transferMaxAttempts - attempt)"

lemma retry_message_induct [consumes 0, case_names exhausted handled outage again]:
  assumes "\<And>k attempt t db mails ev0 ty0 err0. transferMaxAttempts < attempt \<Longrightarrow>
      P k attempt t db mails ev0 \<lparr>lr_db = db, lr_mails = mails, lr_attempts = k, lr_time = t, lr_end = GivenUp ev0 ty0 err0\<rparr>"
    and "\<And>k attempt t db mails ev0 db' sent ev ty. attempt \<le> transferMaxAttempts \<Longrightarrow>
      processTransferMessage nf (nvs k) msg db = (db', sent, ev, ty, None) \<Longrightarrow>
      P k attempt t db mails ev0 \<lparr>lr_db = db', lr_mails = mails @ sent, lr_attempts = k + 1, lr_time = t + elapsed k, lr_end = MessageHandled\<rparr>"
    and "\<And>k attempt t db mails ev0 db' sent ev ty err. attempt \<le> transferMaxAttempts \<Longrightarrow>
      processTransferMessage nf (nvs k) msg db = (db', sent, ev, ty, Some err) \<Longrightarrow> IsUnavailable (Some err) \<Longrightarrow>
      transferUnavailableBudget \<le> t + elapsed k \<Longrightarrow>
      P k attempt t db mails ev0 \<lparr>lr_db = db', lr_mails = mails @ sent, lr_attempts = k + 1, lr_time = t + elapsed k, lr_end = GivenUp ev ty err\<rparr>"
    and "\<And>k attempt t db mails ev0 db' sent ev ty err attempt' t' lr. attempt \<le> transferMaxAttempts \<Longrightarrow>
      processTransferMessage nf (nvs k) msg db = (db', sent, ev, ty, Some err) \<Longrightarrow>
      (attempt' = attempt \<and> t < transferUnavailableBudget \<and> t + transferUnavailableRetryDelay \<le> t' \<and> IsUnavailable (Some err)) \<or>
      (attempt' = attempt + 1 \<and> t \<le> t' \<and> \<not> IsUnavailable (Some err)) \<Longrightarrow>
      P (k + 1) attempt' t' db' (mails @ sent) ev lr \<Longrightarrow> P k attempt t db mails ev0 lr"
  shows "P k attempt t db mails ev0 (retry_message nf nvs elapsed msg k attempt t db mails (ev0, ty0, err0))"
proof (induction "work_left attempt t" arbitrary: k attempt t db mails ev0 ty0 err0 rule: less_induct)
  case less
  note unf = retry_message.simps [of nf nvs elapsed msg k attempt t db mails ev0 ty0 err0]
  obtain db' sent ev ty r where p: "processTransferMessage nf (nvs k) msg db = (db', sent, ev, ty, r)"
    by (metis surj_pair)
  show ?case
  proof (cases "transferMaxAttempts < attempt")
    case True
    then show ?thesis using assms(1) by (simp add: unf)
  next
    case False
    then have a: "attempt \<le> transferMaxAttempts" by simp
    show ?thesis
    proof (cases r)
      case None
      then show ?thesis using a p assms(2) [OF a, of k db db' sent ev ty t mails ev0] by (simp add: unf)
    next
      case (Some err)
      define t1 where "t1 = t + elapsed k"
      consider (again) "IsUnavailable (Some err)" "t1 < transferUnavailableBudget"
        | (outage) "IsUnavailable (Some err)" "transferUnavailableBudget \<le> t1" | (fault) "\<not> IsUnavailable (Some err)"
        by linarith
      then show ?thesis
      proof cases
        case again
        define t' where "t' = t1 + transferUnavailableRetryDelay"
        have "work_left attempt t' < work_left attempt t"
          using again a by (simp add: work_left_def t'_def t1_def transferUnavailableRetryDelay_def)
        from less.hyps [OF this, of "k + 1" db' "mails @ sent" ev ty err]
        show ?thesis using a p Some again assms(4) [OF a p [unfolded Some], of attempt t t']
          by (simp add: unf t1_def t'_def)
      next
        case outage
        then show ?thesis using a p Some assms(3) [OF a p [unfolded Some]] by (simp add: unf t1_def)
      next
        case fault
        define t' where "t' = t1 + (if attempt < transferMaxAttempts then nat (transferRetryDelay attempt) else 0)"
        have "work_left (attempt + 1) t' < work_left attempt t"
          using a by (auto simp: work_left_def t'_def t1_def)
        from less.hyps [OF this, of "k + 1" db' "mails @ sent" ev ty err]
        show ?thesis using a p Some fault assms(4) [OF a p [unfolded Some], of "attempt + 1" t t']
          by (simp add: unf t1_def t'_def)
      qed
    qed
  qed
qed

lemma retry_message_ok:
  assumes "good_attempts A nvs" "links_in A db"
  shows "loop_ok nf A msg db mails ev0 (retry_message nf nvs elapsed msg k attempt t db mails (ev0, ty0, err0))"
proof -
  note ok = processTransferMessage_ok [where A = A and nf = nf and msg = msg]
  have g: "good_peers (nvs k)" "peers_link A (nvs k)" for k using assms(1) by (simp_all add: good_attempts_def)
  have "links_in A db \<longrightarrow> loop_ok nf A msg db mails ev0 (retry_message nf nvs elapsed msg k attempt t db mails (ev0, ty0, err0))"
  proof (rule retry_message_induct [where P = "\<lambda>k a t db mails ev0 lr. links_in A db \<longrightarrow> loop_ok nf A msg db mails ev0 lr"])
    fix k attempt t db mails ev0 ty0 err0
    show "links_in A db \<longrightarrow> loop_ok nf A msg db mails ev0
      \<lparr>lr_db = db, lr_mails = mails, lr_attempts = k, lr_time = t, lr_end = GivenUp ev0 ty0 err0\<rparr>"
      using attempt_ok_refl by (fastforce simp: loop_ok_def)
  next
    fix k t db mails ev0 db' sent ev ty
    assume p: "processTransferMessage nf (nvs k) msg db = (db', sent, ev, ty, None)"
    show "links_in A db \<longrightarrow> loop_ok nf A msg db mails ev0
      \<lparr>lr_db = db', lr_mails = mails @ sent, lr_attempts = k + 1, lr_time = t + elapsed k, lr_end = MessageHandled\<rparr>"
      using ok [OF g(1) _ g(2) p] by (auto simp: loop_ok_def)
  next
    fix k t db mails ev0 db' sent ev ty err
    assume p: "processTransferMessage nf (nvs k) msg db = (db', sent, ev, ty, Some err)"
    show "links_in A db \<longrightarrow> loop_ok nf A msg db mails ev0
      \<lparr>lr_db = db', lr_mails = mails @ sent, lr_attempts = k + 1, lr_time = t + elapsed k, lr_end = GivenUp ev ty err\<rparr>"
      using ok [OF g(1) _ g(2) p] by (auto simp: loop_ok_def)
  next
    fix k db mails ev0 db' sent ev ty err lr
    assume p: "processTransferMessage nf (nvs k) msg db = (db', sent, ev, ty, Some err)"
      and IH: "links_in A db' \<longrightarrow> loop_ok nf A msg db' (mails @ sent) ev lr"
    show "links_in A db \<longrightarrow> loop_ok nf A msg db mails ev0 lr"
      using ok [OF g(1) _ g(2) p] IH loop_ok_step by blast
  qed
  then show ?thesis using assms(2) by simp
qed

text \<open>How many attempts the time that is left allows.\<close>

definition waits_left :: "nat \<Rightarrow> nat" where
  "waits_left t = (transferUnavailableBudget - t + (transferUnavailableRetryDelay - 1)) div transferUnavailableRetryDelay"

lemma waits_left_step:
  assumes "t < transferUnavailableBudget" "t + transferUnavailableRetryDelay \<le> t'"
  shows "Suc (waits_left t') \<le> waits_left t"
proof -
  let ?d = transferUnavailableRetryDelay
  have d: "0 < ?d" by (simp add: transferUnavailableRetryDelay_def)
  have "transferUnavailableBudget - t' + (?d - 1) + ?d \<le> transferUnavailableBudget - t + (?d - 1) \<or>
      (transferUnavailableBudget - t' = 0 \<and> 0 < transferUnavailableBudget - t)"
    using assms by linarith
  then show ?thesis
  proof
    assume "transferUnavailableBudget - t' + (?d - 1) + ?d \<le> transferUnavailableBudget - t + (?d - 1)"
    then have "(transferUnavailableBudget - t' + (?d - 1) + ?d) div ?d \<le> waits_left t"
      unfolding waits_left_def by (rule div_le_mono)
    moreover have "(transferUnavailableBudget - t' + (?d - 1) + ?d) div ?d = Suc (waits_left t')"
      unfolding waits_left_def using d by (simp only: div_add_self2 Suc_eq_plus1)
    ultimately show ?thesis by simp
  next
    assume a: "transferUnavailableBudget - t' = 0 \<and> 0 < transferUnavailableBudget - t"
    then have "?d div ?d \<le> waits_left t" unfolding waits_left_def by (intro div_le_mono) linarith
    moreover have "waits_left t' = 0" using a d by (simp add: waits_left_def)
    ultimately show ?thesis using d by simp
  qed
qed

lemma retry_message_attempts:
  assumes "attempt \<le> Suc transferMaxAttempts"
  shows "lr_attempts (retry_message nf nvs elapsed msg k attempt t db mails (ev0, ty0, err0))
     \<le> k + (Suc transferMaxAttempts - attempt) + waits_left t"
proof -
  have "attempt \<le> Suc transferMaxAttempts \<longrightarrow>
    lr_attempts (retry_message nf nvs elapsed msg k attempt t db mails (ev0, ty0, err0)) \<le> k + (Suc transferMaxAttempts - attempt) + waits_left t"
  proof (rule retry_message_induct [where P = "\<lambda>k a t db mails ev0 lr. a \<le> Suc transferMaxAttempts \<longrightarrow> lr_attempts lr \<le> k + (Suc transferMaxAttempts - a) + waits_left t"])
    fix k attempt t attempt' t' lr err
    assume "attempt \<le> transferMaxAttempts"
      "attempt' = attempt \<and> t < transferUnavailableBudget \<and> t + transferUnavailableRetryDelay \<le> t' \<and> IsUnavailable (Some err) \<or>
       attempt' = attempt + 1 \<and> t \<le> t' \<and> \<not> IsUnavailable (Some err)"
      and IH: "attempt' \<le> Suc transferMaxAttempts \<longrightarrow> lr_attempts lr \<le> k + 1 + (Suc transferMaxAttempts - attempt') + waits_left t'"
    moreover have "waits_left t' \<le> waits_left t" if "t \<le> t'"
      unfolding waits_left_def using that by (intro div_le_mono) linarith
    ultimately show "attempt \<le> Suc transferMaxAttempts \<longrightarrow> lr_attempts lr \<le> k + (Suc transferMaxAttempts - attempt) + waits_left t"
      using waits_left_step [of t t'] by auto
  qed simp_all
  then show ?thesis using assms by simp
qed

lemma retry_message_poison:
  assumes "\<And>k db db' sent ev ty err. processTransferMessage nf (nvs k) msg db = (db', sent, ev, ty, Some err) \<Longrightarrow> \<not> IsUnavailable (Some err)"
    and "attempt \<le> Suc transferMaxAttempts"
  shows "lr_attempts (retry_message nf nvs elapsed msg k attempt t db mails (ev0, ty0, err0)) \<le> k + (Suc transferMaxAttempts - attempt)"
proof -
  have "attempt \<le> Suc transferMaxAttempts \<longrightarrow>
    lr_attempts (retry_message nf nvs elapsed msg k attempt t db mails (ev0, ty0, err0)) \<le> k + (Suc transferMaxAttempts - attempt)"
    by (rule retry_message_induct [where P = "\<lambda>k a t db mails ev0 lr. a \<le> Suc transferMaxAttempts \<longrightarrow> lr_attempts lr \<le> k + (Suc transferMaxAttempts - a)"])
      (use assms(1) in auto)
  then show ?thesis using assms(2) by simp
qed

lemma mr_attempts_conv:
  "mr_attempts (handleTransferMessageWithRetry nf me msg db) =
     lr_attempts (retry_message nf (me_attempt me) (me_elapsed me) msg 0 1 0 db [] ([], [], errors_New []))"
  by (simp add: handleTransferMessageWithRetry_def Let_def split: retry_end.splits)

text \<open>
  C28: No message holds its partition forever: whatever the database and the mail server do and however long each
  attempt takes, a message is given at most 155 attempts (five that count, and one every two seconds of the five
  minutes that an unavailable database is waited for), and at most five when no error says that the database is unavailable.
\<close>

theorem retries_end:
  "mr_attempts (handleTransferMessageWithRetry nf me msg db) \<le> 155 \<and>
   ((\<forall>k db db' sent ev ty err. processTransferMessage nf (me_attempt me k) msg db = (db', sent, ev, ty, Some err) \<longrightarrow>
       \<not> IsUnavailable (Some err)) \<longrightarrow>
    mr_attempts (handleTransferMessageWithRetry nf me msg db) \<le> 5)"
proof -
  let ?lr = "retry_message nf (me_attempt me) (me_elapsed me) msg 0 1 0 db [] ([], [], errors_New [])"
  have "waits_left 0 = 150"
    by (simp add: waits_left_def transferUnavailableBudget_def transferUnavailableRetryDelay_def)
  then have "lr_attempts ?lr \<le> 155"
    using retry_message_attempts [of 1 nf "me_attempt me" "me_elapsed me" msg 0 0] by (simp add: transferMaxAttempts_def)
  moreover have "lr_attempts ?lr \<le> 5"
    if "\<forall>k db db' sent ev ty err. processTransferMessage nf (me_attempt me k) msg db = (db', sent, ev, ty, Some err) \<longrightarrow> \<not> IsUnavailable (Some err)"
    using retry_message_poison [of nf "me_attempt me" msg 1 "me_elapsed me" 0 0 db "[]" "[]" "[]" "errors_New []"] that
    by (simp add: transferMaxAttempts_def)
  ultimately show ?thesis by (simp add: mr_attempts_conv)
qed

text \<open>The whole message, the closing of the row after giving up included.\<close>

lemma finish_skipped_ok:
  assumes "good_peers nv" "finishEvent rt nv i db ev eventStatusSkipped = (db', x)" "attempt_ok uo P a db mails (Some err)"
  shows "attempt_ok uo P a db' mails (Some err)"
proof -
  let ?d = "nv_meanwhile nv i db"
  have k: "kept db ?d" using assms(1) by (simp add: good_peers_def)
  have st: "status_of v db' = status_of v ?d \<or> status_of v ?d \<noteq> None \<and> status_of v db' = Some eventStatusSkipped" for v
    using run_statement_db [OF assms(2) [unfolded finishEvent_def]]
    by (cases "status_of v ?d") (auto simp: status_of_finish split: option.splits if_splits)
  have "settled v db'" if "settled v db" for v
    using kept_settled [OF k that] st [of v] by (auto simp: settled_def status_names)
  moreover have "status_of v db = Some eventStatusSent" if "status_of v db' = Some eventStatusSent" for v
  proof -
    have "status_of v ?d = Some eventStatusSent" using st [of v] that by (auto simp: status_names)
    then show ?thesis using k unfolding kept_def by blast
  qed
  ultimately show ?thesis using assms(3) unfolding attempt_ok_def by blast
qed

definition good_message_env :: "link set \<Rightarrow> message_env \<Rightarrow> bool" where
  "good_message_env A me \<longleftrightarrow> good_attempts A (me_attempt me) \<and> good_peers (me_close me) \<and> peers_link A (me_close me)"

lemma handle_message_ok:
  assumes "good_message_env A me" "links_in A db" and mr_def: "mr = handleTransferMessageWithRetry nf me msg db"
  shows "\<exists>r. attempt_ok (event_key nf msg) (mail_allowed nf A msg) db (mr_db mr) (mr_mails mr) r \<and> links_in A (mr_db mr) \<and>
    (r = None \<longleftrightarrow> mr_end mr = MessageHandled) \<and>
    (\<forall>ev ty err. mr_end mr = GivenUp ev ty err \<longrightarrow> mr_dlq mr = sendToDLQ (me_dlq me) msg err)"
proof -
  let ?lr = "retry_message nf (me_attempt me) (me_elapsed me) msg 0 1 0 db [] ([], [], errors_New [])"
  have g: "good_attempts A (me_attempt me)" "good_peers (me_close me)" "peers_link A (me_close me)"
    using assms(1) by (simp_all add: good_message_env_def)
  obtain r where r: "attempt_ok (event_key nf msg) (mail_allowed nf A msg) db (lr_db ?lr) (lr_mails ?lr) r"
    "links_in A (lr_db ?lr)" "r = None \<longleftrightarrow> lr_end ?lr = MessageHandled"
    using retry_message_ok [OF g(1) assms(2), of nf msg "[]" "[]" "me_elapsed me" 0 1 0 "[]" "errors_New []"]
    by (auto simp: loop_ok_def)
  show ?thesis
  proof (cases "lr_end ?lr")
    case MessageHandled
    then show ?thesis using r by (auto simp: mr_def handleTransferMessageWithRetry_def Let_def)
  next
    case (GivenUp ev ty err)
    obtain e where e: "r = Some e" using r(3) GivenUp by (cases r) auto
    obtain d x where d: "finishEvent (nf_rt nf) (me_close me) 31 (lr_db ?lr) ev eventStatusSkipped = (d, x)" by (metis surj_pair)
    have "links_in A d"
      using run_statement_db [OF d [unfolded finishEvent_def]] r(2) g(3)
      by (auto simp: links_in_def peers_link_def split: option.splits)
    moreover have "attempt_ok (event_key nf msg) (mail_allowed nf A msg) db d (lr_mails ?lr) r"
      using finish_skipped_ok [OF g(2) d] r(1) e by simp
    ultimately show ?thesis using GivenUp d r
      by (intro exI [of _ r]) (auto simp: mr_def handleTransferMessageWithRetry_def Let_def)
  qed
qed

text \<open>
  C21: An event that has been dealt with is not mailed again, however often and in whatever copies its message
  is delivered: when its row says sent or skipped, handling the message sends no mail and the row stays final, whatever fails.
\<close>

theorem redelivery_mails_nothing:
  assumes "good_message_env A me" "links_in A db" "event_key nf msg = Some u" "settled u db"
  shows "mr_mails (handleTransferMessageWithRetry nf me msg db) = [] \<and> settled u (mr_db (handleTransferMessageWithRetry nf me msg db))"
  using handle_message_ok [OF assms(1,2) refl, of nf msg] assms(3,4) unfolding attempt_ok_def by blast

subsection \<open>The run of the service\<close>

text \<open>The first \<open>n\<close> attempts at a message, after which the process dies.\<close>

primrec interrupted :: "notifier \<Rightarrow> (nat \<Rightarrow> nenv) \<Rightarrow> nat \<Rightarrow> kafka_message \<Rightarrow> notifications_db \<Rightarrow> notifications_db \<times> mail list" where
  "interrupted nf nvs 0 msg db = (db, [])"
| "interrupted nf nvs (Suc n) msg db =
     (case interrupted nf nvs n msg db of (d, ms) \<Rightarrow>
      case processTransferMessage nf (nvs n) msg d of (d', sent, _) \<Rightarrow> (d', ms @ sent))"

text \<open>
  The partition \<open>log\<close> of transfer.events, the state, the offset of the next message to fetch, and the offsets of messages that
  could not be written to the dead letter topic. The process may die at any time, within an attempt at a message as well (a
  statement or a send of that attempt then fails in the model), and starts again from the committed offset. The
  other two consumers handle messages in between. \<open>A\<close> holds every link the contacts ever have.
\<close>

inductive notify_run :: "notifier \<Rightarrow> link set \<Rightarrow> kafka_message list \<Rightarrow> notify_state \<Rightarrow> nat \<Rightarrow> nat set \<Rightarrow> bool"
  for nf :: notifier and A :: "link set" and log :: "kafka_message list" where
  start: "notify_run nf A log \<lparr>ns_db = \<lparr>user_contacts = [], notifications_processed_events = []\<rparr>, ns_mails = [], ns_dlq = [], ns_committed = 0\<rparr> 0 {}"
| message: "notify_run nf A log (after_message p mr s) (Suc p) (if mr_end mr \<noteq> MessageHandled \<and> me_dlq me = Lost then insert p lost else lost)"
  if "notify_run nf A log s p lost" "p < length log" "good_message_env A me"
    "mr = handleTransferMessageWithRetry nf me (log ! p) (ns_db s)"
| user: "notify_run nf A log (s\<lparr>ns_db := fst (consume_user_message nf nv msg (ns_db s))\<rparr>) p lost"
  if "notify_run nf A log s p lost" "good_peers nv" "links_in A (fst (consume_user_message nf nv msg (ns_db s)))"
| account: "notify_run nf A log (s\<lparr>ns_db := fst (consume_account_message nf nv msg (ns_db s))\<rparr>) p lost"
  if "notify_run nf A log s p lost" "good_peers nv" "links_in A (fst (consume_account_message nf nv msg (ns_db s)))"
| crash: "notify_run nf A log (s\<lparr>ns_db := db', ns_mails := ns_mails s @ mails\<rparr>) (ns_committed s) lost"
  if "notify_run nf A log s p lost" "p < length log" "good_attempts A nvs" "interrupted nf nvs n (log ! p) (ns_db s) = (db', mails)"
| restart: "notify_run nf A log s (ns_committed s) lost" if "notify_run nf A log s p lost"

lemma interrupted_ok:
  assumes "good_attempts A nvs" "links_in A db" "interrupted nf nvs n msg db = (db', mails)"
  shows "attempt_ok (event_key nf msg) (mail_allowed nf A msg) db db' mails (Some err) \<and> links_in A db'"
  using assms(3)
proof (induction n arbitrary: db' mails)
  case 0
  then show ?case using assms(2) by (simp add: attempt_ok_refl)
next
  case (Suc n)
  obtain d ms where 1: "interrupted nf nvs n msg db = (d, ms)" by (metis surj_pair)
  obtain d' sent ev ty r where 2: "processTransferMessage nf (nvs n) msg d = (d', sent, ev, ty, r)" by (metis surj_pair)
  have g: "good_peers (nvs n)" "peers_link A (nvs n)" using assms(1) by (simp_all add: good_attempts_def)
  note IH = Suc.IH [OF 1]
  note ok = processTransferMessage_ok [OF g(1) conjunct2 [OF IH] g(2) 2]
  have "attempt_ok (event_key nf msg) (mail_allowed nf A msg) d d' sent (Some err)"
    using ok by (simp add: attempt_ok_def)
  then show ?case
    using Suc.prems 1 2 ok attempt_ok_trans [OF conjunct1 [OF IH]] by auto
qed

lemma consume_user_kept: "good_peers nv \<Longrightarrow> kept db (fst (consume_user_message nf nv msg db))"
  using handleUserActivated_kept [of nv db "nf_rt nf"] handleProfileUpdated_kept [of nv db "nf_rt nf"]
  by (auto simp: consume_user_message_def Let_def split: sum.splits prod.splits) (metis fst_conv)+

lemma consume_account_kept: "good_peers nv \<Longrightarrow> kept db (fst (consume_account_message nf nv msg db))"
  using handleAccountCreated_kept [of nv db "nf_rt nf"]
  by (auto simp: consume_account_message_def split: sum.splits prod.splits) (metis fst_conv)

text \<open>What has become of a message that the consumer has left behind.\<close>

definition dealt_with :: "notifier \<Rightarrow> notify_state \<Rightarrow> kafka_message \<Rightarrow> bool" where
  "dealt_with nf s msg \<longleftrightarrow> (\<exists>u. event_key nf msg = Some u \<and> settled u (ns_db s)) \<or>
     (\<exists>cause. dlq_message msg cause \<in> set (ns_dlq s))"

definition mailed :: "notifier \<Rightarrow> link set \<Rightarrow> kafka_message list \<Rightarrow> notify_state \<Rightarrow> string \<Rightarrow> bool" where
  "mailed nf A log s u \<longleftrightarrow> (\<exists>msg\<in>set log. event_key nf msg = Some u \<and> (\<exists>m\<in>set (ns_mails s). mail_allowed nf A msg m))"

definition notify_inv :: "notifier \<Rightarrow> link set \<Rightarrow> kafka_message list \<Rightarrow> notify_state \<Rightarrow> nat \<Rightarrow> nat set \<Rightarrow> bool" where
  "notify_inv nf A log s p lost \<longleftrightarrow>
     ns_committed s \<le> p \<and> links_in A (ns_db s) \<and> (\<forall>k<p. k \<in> lost \<or> dealt_with nf s (log ! k)) \<and>
     (\<forall>u. status_of u (ns_db s) = Some eventStatusSent \<longrightarrow> mailed nf A log s u) \<and>
     (\<forall>m\<in>set (ns_mails s). \<exists>msg\<in>set log. mail_allowed nf A msg m)"

text \<open>A step that keeps final rows and adds mails about one message of the log keeps the invariant.\<close>

lemma notify_inv_step:
  assumes inv: "notify_inv nf A log s p lost" and "msg \<in> set log"
    and ok: "attempt_ok (event_key nf msg) (mail_allowed nf A msg) (ns_db s) (ns_db s') mails r" and "links_in A (ns_db s')"
    and "ns_mails s' = ns_mails s @ mails" "set (ns_dlq s) \<subseteq> set (ns_dlq s')" "lost \<subseteq> lost'"
  shows "\<And>k. k < p \<Longrightarrow> k \<in> lost' \<or> dealt_with nf s' (log ! k)"
    and "\<And>u. status_of u (ns_db s') = Some eventStatusSent \<Longrightarrow> mailed nf A log s' u"
    and "\<And>m. m \<in> set (ns_mails s') \<Longrightarrow> \<exists>msg\<in>set log. mail_allowed nf A msg m"
proof -
  show "k \<in> lost' \<or> dealt_with nf s' (log ! k)" if "k < p" for k
    using inv that ok assms(6,7) unfolding notify_inv_def dealt_with_def attempt_ok_def by blast
  show "mailed nf A log s' u" if u: "status_of u (ns_db s') = Some eventStatusSent" for u
  proof (cases "status_of u (ns_db s) = Some eventStatusSent")
    case True
    then show ?thesis using inv assms(5) by (fastforce simp: notify_inv_def mailed_def)
  next
    case False
    then have "event_key nf msg = Some u" "mails \<noteq> []" using ok u unfolding attempt_ok_def by blast+
    moreover obtain m where "m \<in> set mails" using \<open>mails \<noteq> []\<close> by (cases mails) auto
    moreover have "mail_allowed nf A msg m" using ok \<open>m \<in> set mails\<close> by (simp add: attempt_ok_def)
    ultimately show ?thesis using assms(2,5) by (auto simp: mailed_def)
  qed
  show "\<exists>msg\<in>set log. mail_allowed nf A msg m" if "m \<in> set (ns_mails s')" for m
    using that inv ok assms(2,5) by (auto simp: notify_inv_def attempt_ok_def)
qed

lemma notify_inv_kept:
  assumes "notify_inv nf A log s p lost" "kept (ns_db s) db'" "links_in A db'"
  shows "notify_inv nf A log (s\<lparr>ns_db := db'\<rparr>) p lost"
proof -
  have "dealt_with nf s msg \<Longrightarrow> dealt_with nf (s\<lparr>ns_db := db'\<rparr>) msg" for msg
    using kept_settled [OF assms(2)] by (auto simp: dealt_with_def)
  moreover have "mailed nf A log (s\<lparr>ns_db := db'\<rparr>) u" if "status_of u db' = Some eventStatusSent" for u
  proof -
    have "status_of u (ns_db s) = Some eventStatusSent" using assms(2) that unfolding kept_def by blast
    then show ?thesis using assms(1) by (simp add: notify_inv_def mailed_def)
  qed
  ultimately show ?thesis using assms(1,3) by (auto simp: notify_inv_def)
qed

lemma notify_inv_run: "notify_run nf A log s p lost \<Longrightarrow> notify_inv nf A log s p lost"
proof (induction rule: notify_run.induct)
  case start
  show ?case by (simp add: notify_inv_def links_in_def status_of_def event_row_def)
next
  case (message s p lost me mr)
  let ?s = "after_message p mr s"
  let ?lost = "if mr_end mr \<noteq> MessageHandled \<and> me_dlq me = Lost then insert p lost else lost"
  have l: "links_in A (ns_db s)" using message.IH by (simp add: notify_inv_def)
  obtain r where r: "attempt_ok (event_key nf (log ! p)) (mail_allowed nf A (log ! p)) (ns_db s) (mr_db mr) (mr_mails mr) r"
    "links_in A (mr_db mr)" "r = None \<longleftrightarrow> mr_end mr = MessageHandled"
    "\<And>ev ty err. mr_end mr = GivenUp ev ty err \<Longrightarrow> mr_dlq mr = sendToDLQ (me_dlq me) (log ! p) err"
    using handle_message_ok [OF message.hyps(3) l message.hyps(4)] by blast
  have in_log: "log ! p \<in> set log" using message.hyps(2) by simp
  note step = notify_inv_step [OF message.IH in_log, of ?s "mr_mails mr" r ?lost]
  have "p \<in> ?lost \<or> dealt_with nf ?s (log ! p)"
  proof (cases "mr_end mr")
    case MessageHandled
    then have "\<exists>u. event_key nf (log ! p) = Some u \<and> settled u (mr_db mr)"
      using r(1,3) by (simp add: attempt_ok_def)
    then show ?thesis by (simp add: dealt_with_def after_message_def)
  next
    case (GivenUp ev ty err)
    then show ?thesis using r(4) by (auto simp: dealt_with_def after_message_def sendToDLQ_def)
  qed
  moreover have "k \<in> ?lost \<or> dealt_with nf ?s (log ! k)" if "k < p" for k
    by (rule step(1)) (use r that in \<open>auto simp: after_message_def\<close>)
  moreover have "mailed nf A log ?s u" if "status_of u (ns_db ?s) = Some eventStatusSent" for u
    by (rule step(2)) (use r that in \<open>auto simp: after_message_def\<close>)
  moreover have "\<exists>msg\<in>set log. mail_allowed nf A msg m" if "m \<in> set (ns_mails ?s)" for m
    by (rule step(3)) (use r that in \<open>auto simp: after_message_def\<close>)
  moreover have "ns_committed ?s \<le> Suc p"
    using message.IH by (auto simp: after_message_def notify_inv_def)
  moreover have "links_in A (ns_db ?s)" using r(2) by (simp add: after_message_def)
  ultimately show ?case by (auto simp: notify_inv_def less_Suc_eq)
next
  case (user s p lost nv msg)
  then show ?case by (intro notify_inv_kept consume_user_kept)
next
  case (account s p lost nv msg)
  then show ?case by (intro notify_inv_kept consume_account_kept)
next
  case (crash s p lost nvs n db' mails)
  let ?s = "s\<lparr>ns_db := db', ns_mails := ns_mails s @ mails\<rparr>"
  have l: "links_in A (ns_db s)" using crash.IH by (simp add: notify_inv_def)
  note ok = interrupted_ok [OF crash.hyps(3) l crash.hyps(4)]
  have in_log: "log ! p \<in> set log" using crash.hyps(2) by simp
  note step = notify_inv_step [OF crash.IH in_log, of ?s mails "Some undefined" lost]
  have "k \<in> lost \<or> dealt_with nf ?s (log ! k)" if "k < ns_committed s" for k
    by (rule step(1)) (use ok that crash.IH in \<open>auto simp: notify_inv_def\<close>)
  moreover have "mailed nf A log ?s u" if "status_of u db' = Some eventStatusSent" for u
    by (rule step(2)) (use ok that in auto)
  moreover have "\<exists>msg\<in>set log. mail_allowed nf A msg m" if "m \<in> set (ns_mails ?s)" for m
    by (rule step(3)) (use ok that in auto)
  ultimately show ?case using ok by (auto simp: notify_inv_def)
next
  case (restart s p lost)
  then show ?case by (auto simp: notify_inv_def)
qed

text \<open>
  C20: No notification is lost silently. In every run of the service, with crashes at any moment, lost statements,
  mail server failures and redelivery, a message before the committed offset has its event recorded as sent or skipped,
  or lies in the dead letter topic unchanged but for three added headers, or writing it there failed. An event recorded as sent has
  been mailed.
\<close>

theorem no_notification_lost:
  assumes "notify_run nf A log s p lost"
  shows "(\<forall>k<ns_committed s. k \<in> lost \<or> dealt_with nf s (log ! k)) \<and>
    (\<forall>u. status_of u (ns_db s) = Some eventStatusSent \<longrightarrow> mailed nf A log s u)"
  using notify_inv_run [OF assms] by (auto simp: notify_inv_def)

text \<open>
  C25: Nobody learns of a transfer who should not. In every run each mail is one of the service's own texts about a
  message of the topic, sent to an address linked to the sender's account, or of a completed transfer to the
  recipient's, or of a deposit to the account credited; it names the amount, the id, the other party's account number and the
  time, and for a rejected transfer nothing of the rule that rejected it.
\<close>

theorem only_parties_mailed:
  assumes "notify_run nf A log s p lost" "m \<in> set (ns_mails s)"
  shows "\<exists>msg\<in>set log. mail_allowed nf A msg m"
  using notify_inv_run [OF assms(1)] assms(2) by (simp add: notify_inv_def)

subsection \<open>Without failures\<close>

text \<open>An attempt in which every statement runs and no other consumer is at work.\<close>

definition smooth :: "nenv \<Rightarrow> bool" where
  "smooth nv \<longleftrightarrow> (\<forall>i. nv_statement nv i = Runs \<and> nv_meanwhile nv i = (\<lambda>db. db))"

lemma run_statement_smooth:
  "smooth nv \<Longrightarrow> run_statement nv i f db = (case f db of Inl err \<Rightarrow> (db, Inl err) | Inr (db', r) \<Rightarrow> (db', Inr r))"
  by (simp add: run_statement_def smooth_def)

definition known :: "runtime \<Rightarrow> notifications_db \<Rightarrow> string \<Rightarrow> user_contact \<Rightarrow> bool" where
  "known rt db account c \<longleftrightarrow>
     (\<exists>a. uuid_in rt account = Some a \<and> find (\<lambda>c. uc_account_id c = Some a) (user_contacts db) = Some c)"

lemma waitForContact_known:
  assumes "smooth nv" "known rt db account c"
  shows "waitForContactByAccountID rt nv i db account = (db, Inr (Some \<lparr>ct_UserID = uc_user_id c, ct_Email = uc_email c,
    ct_AccountNumber = coalesce_empty (uc_account_number c)\<rparr>))"
  using assms
  by (auto simp: waitForContactByAccountID_def contactWaitAttempts_def eval_nat_numeral getContactByAccountID_def run_statement_smooth known_def)

lemma claimEvent_smooth:
  assumes "smooth nv" "uuid_in rt ev = Some u" "\<not> settled u db"
  shows "claimEvent rt nv i db ev = (insert_event nv u eventStatusProcessing db, Inr True)"
  using assms by (auto simp: claimEvent_def run_statement_smooth settled_def status_of_def split: option.splits)

lemma known_insert_event [simp]: "known rt (insert_event nv u s db) account c = known rt db account c"
  by (simp add: known_def)

lemma status_of_claimed:
  "\<not> settled u db \<Longrightarrow> status_of u (insert_event nv u eventStatusProcessing db) = Some eventStatusProcessing"
  by (cases "status_of u db") (auto simp: status_of_insert_event settled_def)

text \<open>The two mails about a completed transfer.\<close>

definition sent_mail :: "notifier \<Rightarrow> TransferCompleted \<Rightarrow> user_contact \<Rightarrow> user_contact \<Rightarrow> mail" where
  "sent_mail nf ev cs cr = mail_of (nf_smtpFrom nf) (uc_email cs)
     (buildTransferSentEmail (tc_Amount ev) (tc_TransferId ev) (coalesce_empty (uc_account_number cr)) (eventTime (tc_OccurredAt ev)))"

definition received_mail :: "notifier \<Rightarrow> TransferCompleted \<Rightarrow> user_contact \<Rightarrow> user_contact \<Rightarrow> mail" where
  "received_mail nf ev cs cr = mail_of (nf_smtpFrom nf) (uc_email cr)
     (buildTransferReceivedEmail (tc_Amount ev) (tc_TransferId ev) (coalesce_empty (uc_account_number cs)) (eventTime (tc_OccurredAt ev)))"

definition mailable :: "notifier \<Rightarrow> kafka_message \<Rightarrow> notifications_db \<Rightarrow> TransferCompleted \<Rightarrow> string \<Rightarrow> user_contact \<Rightarrow> user_contact \<Rightarrow> bool" where
  "mailable nf msg db ev u cs cr \<longleftrightarrow>
     eventTypeOf msg = eventTypeTransferCompleted \<and> um_TransferCompleted nf (km_Value msg) = Inr ev \<and>
     uuid_in (nf_rt nf) (tc_EventId ev) = Some u \<and> \<not> settled u db \<and>
     known (nf_rt nf) db (tc_SenderAccountId ev) cs \<and> known (nf_rt nf) db (tc_RecipientAccountId ev) cr \<and>
     valid_line (nf_smtpFrom nf) \<and> valid_line (uc_email cs) \<and> valid_line (uc_email cr)"

lemma finishEvent_smooth:
  assumes "smooth nv" "uuid_in rt ev = Some u"
  obtains db' where "finishEvent rt nv i db ev s = (db', Inr ())" "\<And>v. status_of v db' = (if v = u then map_option (\<lambda>_. s) (status_of v db) else status_of v db)"
    "user_contacts db' = user_contacts db"
  using assms status_of_finish by (auto simp: finishEvent_def run_statement_smooth)

lemma completed_attempt_mails:
  assumes "mailable nf msg db ev u cs cr" "smooth nv" "nv_smtp nv 0 = SmtpAccepted" "nv_smtp nv 3 = SmtpAccepted"
  obtains db' where "processTransferMessage nf nv msg db = (db', [sent_mail nf ev cs cr, received_mail nf ev cs cr], tc_EventId ev, eventTypeTransferCompleted, None)"
    "status_of u db' = Some eventStatusSent"
proof -
  let ?d = "insert_event nv u eventStatusProcessing db"
  have m: "eventTypeOf msg = eventTypeTransferCompleted" "um_TransferCompleted nf (km_Value msg) = Inr ev"
    "uuid_in (nf_rt nf) (tc_EventId ev) = Some u" "\<not> settled u db" "valid_line (nf_smtpFrom nf)" "valid_line (uc_email cs)" "valid_line (uc_email cr)"
    "known (nf_rt nf) ?d (tc_SenderAccountId ev) cs" "known (nf_rt nf) ?d (tc_RecipientAccountId ev) cr"
    using assms(1) by (simp_all add: mailable_def)
  obtain db' where f: "finishEvent (nf_rt nf) nv 31 ?d (tc_EventId ev) eventStatusSent = (db', Inr ())"
    "status_of u db' = map_option (\<lambda>_. eventStatusSent) (status_of u ?d)"
    using finishEvent_smooth [OF assms(2) m(3)] by metis
  have "handleTransferCompleted (nf_rt nf) (nf_smtpFrom nf) nv ev db = (db', [sent_mail nf ev cs cr, received_mail nf ev cs cr], None)"
    by (simp add: handleTransferCompleted_def claimEvent_smooth [OF assms(2) m(3,4)] waitForContact_known [OF assms(2) m(8)]
        waitForContact_known [OF assms(2) m(9)] send_to_def sendEmailWithRetry_accepted assms(3,4) m finishTransferEvent_def f
        sent_mail_def received_mail_def Let_def)
  then have "processTransferMessage nf nv msg db =
      (db', [sent_mail nf ev cs cr, received_mail nf ev cs cr], tc_EventId ev, eventTypeTransferCompleted, None)"
    by (simp add: processTransferMessage_def m)
  moreover have "status_of u db' = Some eventStatusSent"
    using f(2) status_of_claimed [OF m(4)] by simp
  ultimately show thesis using that by blast
qed

text \<open>
  A completed transfer is announced: when both parties are known, the mail server takes the mails and nothing fails, the
  first attempt mails the sender that the amount left and the recipient that it arrived, each with the other's
  account number, exactly once each; the event is recorded as sent, the offset committed and nothing dead-lettered.
\<close>

theorem completed_transfer_mailed:
  assumes "mailable nf msg db ev u cs cr" "smooth (me_attempt me 0)"
    and "nv_smtp (me_attempt me 0) 0 = SmtpAccepted" "nv_smtp (me_attempt me 0) 3 = SmtpAccepted" "me_commit me = NoFault"
  shows "mr_mails (handleTransferMessageWithRetry nf me msg db) = [sent_mail nf ev cs cr, received_mail nf ev cs cr] \<and>
    status_of u (mr_db (handleTransferMessageWithRetry nf me msg db)) = Some eventStatusSent \<and>
    mr_dlq (handleTransferMessageWithRetry nf me msg db) = [] \<and> mr_committed (handleTransferMessageWithRetry nf me msg db) \<and>
    mr_attempts (handleTransferMessageWithRetry nf me msg db) = 1"
proof -
  obtain db' where "processTransferMessage nf (me_attempt me 0) msg db =
      (db', [sent_mail nf ev cs cr, received_mail nf ev cs cr], tc_EventId ev, eventTypeTransferCompleted, None)"
    "status_of u db' = Some eventStatusSent"
    using completed_attempt_mails [OF assms(1-4)] .
  then show ?thesis
    by (simp add: handleTransferMessageWithRetry_def retry_message.simps [of _ _ _ _ 0] transferMaxAttempts_def assms(5))
qed

subsection \<open>A refused second mail\<close>

text \<open>
  The error when the server refuses the recipient's mail.
\<close>

definition refused_error :: "TransferCompleted \<Rightarrow> user_contact \<Rightarrow> go_err \<Rightarrow> go_err" where
  "refused_error ev cr err = wrap_err (''send transfer-received email for event '' @ tc_EventId ev)
     (wrap_err (''send email to '' @ uc_email cr @ '' after 3 attempts'') err)"

lemma refused_attempt:
  assumes "mailable nf msg db ev u cs cr" "smooth nv" "nv_smtp nv 0 = SmtpAccepted" "\<And>i. nv_smtp nv (3 + i) = SmtpRefused err"
  shows "processTransferMessage nf nv msg db =
    (insert_event nv u eventStatusProcessing db, [sent_mail nf ev cs cr], tc_EventId ev, eventTypeTransferCompleted, Some (refused_error ev cr err))"
proof -
  let ?d = "insert_event nv u eventStatusProcessing db"
  have m: "eventTypeOf msg = eventTypeTransferCompleted" "um_TransferCompleted nf (km_Value msg) = Inr ev"
    "uuid_in (nf_rt nf) (tc_EventId ev) = Some u" "\<not> settled u db" "valid_line (nf_smtpFrom nf)" "valid_line (uc_email cs)" "valid_line (uc_email cr)"
    "known (nf_rt nf) ?d (tc_SenderAccountId ev) cs" "known (nf_rt nf) ?d (tc_RecipientAccountId ev) cr"
    using assms(1) by (simp_all add: mailable_def)
  have "handleTransferCompleted (nf_rt nf) (nf_smtpFrom nf) nv ev db = (?d, [sent_mail nf ev cs cr], Some (refused_error ev cr err))"
    by (simp add: handleTransferCompleted_def claimEvent_smooth [OF assms(2) m(3,4)] waitForContact_known [OF assms(2) m(8)]
        waitForContact_known [OF assms(2) m(9)] send_to_def sendEmailWithRetry_accepted assms(3) m
        sendEmailWithRetry_refused [where smtp = "\<lambda>k. nv_smtp nv (3 + k)", OF assms(4) m(5,7)] sent_mail_def refused_error_def Let_def)
  then show ?thesis by (simp add: processTransferMessage_def m)
qed

lemma mailable_claimed:
  "mailable nf msg db ev u cs cr \<Longrightarrow> mailable nf msg (insert_event nv u eventStatusProcessing db) ev u cs cr"
  by (auto simp: mailable_def status_of_claimed settled_def)

lemma refused_loop:
  assumes "\<And>k. smooth (nvs k) \<and> nv_smtp (nvs k) 0 = SmtpAccepted \<and> (\<forall>i. nv_smtp (nvs k) (3 + i) = SmtpRefused err)"
    and "\<not> IsUnavailable (Some (refused_error ev cr err))"
  shows "mailable nf msg db ev u cs cr \<Longrightarrow> n \<le> 5 \<Longrightarrow> 0 < n \<Longrightarrow>
    \<exists>db'. mailable nf msg db' ev u cs cr \<and> status_of u db' = Some eventStatusProcessing \<and>
     (let lr = retry_message nf nvs elapsed msg k (6 - n) t db mails trail in
      lr_db lr = db' \<and> lr_mails lr = mails @ replicate n (sent_mail nf ev cs cr) \<and>
      lr_end lr = GivenUp (tc_EventId ev) eventTypeTransferCompleted (refused_error ev cr err))"
proof (induction n arbitrary: k t db mails trail)
  case (Suc n)
  obtain e0 y0 r0 where trail: "trail = (e0, y0, r0)" by (metis surj_pair)
  let ?d = "insert_event (nvs k) u eventStatusProcessing db"
  let ?trail = "(tc_EventId ev, eventTypeTransferCompleted, refused_error ev cr err)"
  have a: "processTransferMessage nf (nvs k) msg db = (?d, [sent_mail nf ev cs cr], tc_EventId ev, eventTypeTransferCompleted, Some (refused_error ev cr err))"
    using refused_attempt [OF Suc.prems(1)] assms(1) by blast
  have md: "mailable nf msg ?d ev u cs cr" using mailable_claimed [OF Suc.prems(1)] .
  have sd: "status_of u ?d = Some eventStatusProcessing" using Suc.prems(1) by (simp add: status_of_claimed mailable_def)
  have at: "6 - Suc n \<le> transferMaxAttempts" "6 - Suc n + 1 = 6 - n"
    using Suc.prems(2) by (simp_all add: transferMaxAttempts_def Suc_diff_le)
  define t' where "t' = t + elapsed k + (if 6 - Suc n < transferMaxAttempts then nat (transferRetryDelay (6 - Suc n)) else 0)"
  have "retry_message nf nvs elapsed msg k (6 - Suc n) t db mails trail =
      retry_message nf nvs elapsed msg (k + 1) (6 - Suc n + 1) t' ?d (mails @ [sent_mail nf ev cs cr]) ?trail"
    unfolding trail retry_message.simps [of nf nvs elapsed msg k "6 - Suc n" t db mails e0 y0 r0] Let_def a t'_def
    using at(1) assms(2) by (simp only: prod.case option.case not_less [symmetric] if_False if_True not_True_eq_False)
  then have step: "retry_message nf nvs elapsed msg k (6 - Suc n) t db mails trail =
      retry_message nf nvs elapsed msg (k + 1) (6 - n) t' ?d (mails @ [sent_mail nf ev cs cr]) ?trail"
    unfolding at(2) .
  show ?case
  proof (cases "n = 0")
    case True
    then show ?thesis using step md sd
      by (intro exI [of _ ?d]) (simp add: Let_def retry_message.simps [of _ _ _ _ _ 6] transferMaxAttempts_def)
  next
    case False
    then show ?thesis using Suc.IH [OF md, of "k + 1" t' "mails @ [sent_mail nf ev cs cr]" ?trail] Suc.prems(2) step
      by (simp add: Let_def)
  qed
qed simp

text \<open>
  One party's mail is repeated when the other's is refused: if the server takes the sender's mail and refuses the recipient's
  with an error that is not a failure of the connection, the sender gets the same mail five times, and the
  event is recorded as skipped, which the migration explains as no mail by design.
\<close>

theorem refused_recipient_repeats_sender:
  assumes "mailable nf msg db ev u cs cr" "tc_EventId ev \<noteq> []" "smooth (me_close me)"
    and "\<forall>k. smooth (me_attempt me k) \<and> nv_smtp (me_attempt me k) 0 = SmtpAccepted \<and> (\<forall>i. nv_smtp (me_attempt me k) (3 + i) = SmtpRefused err)"
    and "\<not> IsUnavailable (Some (refused_error ev cr err))"
  shows "mr_mails (handleTransferMessageWithRetry nf me msg db) = replicate 5 (sent_mail nf ev cs cr) \<and>
    status_of u (mr_db (handleTransferMessageWithRetry nf me msg db)) = Some eventStatusSkipped"
proof -
  let ?lr = "retry_message nf (me_attempt me) (me_elapsed me) msg 0 1 0 db [] ([], [], errors_New [])"
  have six: "6 - 5 = (1 :: nat)" by simp
  obtain db' where "status_of u db' = Some eventStatusProcessing" "lr_db ?lr = db'" "lr_mails ?lr = [] @ replicate 5 (sent_mail nf ev cs cr)"
    "lr_end ?lr = GivenUp (tc_EventId ev) eventTypeTransferCompleted (refused_error ev cr err)"
    using refused_loop [OF _ assms(5,1), of "me_attempt me" 5 "me_elapsed me" 0 0 "[]" "([], [], errors_New [])"] assms(4)
    unfolding six Let_def by auto
  then have lr: "lr_mails ?lr = replicate 5 (sent_mail nf ev cs cr)" "status_of u (lr_db ?lr) = Some eventStatusProcessing"
    "lr_end ?lr = GivenUp (tc_EventId ev) eventTypeTransferCompleted (refused_error ev cr err)"
    by simp_all
  have "uuid_in (nf_rt nf) (tc_EventId ev) = Some u" using assms(1) by (simp add: mailable_def)
  then obtain db' where "finishEvent (nf_rt nf) (me_close me) 31 (lr_db ?lr) (tc_EventId ev) eventStatusSkipped = (db', Inr ())"
    "status_of u db' = Some eventStatusSkipped"
    using finishEvent_smooth [OF assms(3), of "nf_rt nf" "tc_EventId ev" u 31 "lr_db ?lr" eventStatusSkipped] lr(2)
    by (metis option.simps(9))
  then show ?thesis using lr assms(2) by (simp add: handleTransferMessageWithRetry_def Let_def)
qed

subsection \<open>Examples\<close>

text \<open>A service with two users, one message and an environment without failures.\<close>

definition transfer_example :: TransferCompleted where
  "transfer_example = \<lparr>tc_EventId = ''e1'', tc_TransferId = ''t1'', tc_SenderAccountId = ''a1'', tc_RecipientAccountId = ''a2'',
     tc_Amount = 2500, tc_LedgerTransactionId = ''l1'', tc_OccurredAt = None\<rparr>"

definition sample_notifier :: notifier where
  "sample_notifier = \<lparr>nf_rt = plain_runtime, nf_smtpFrom = ''bank'',
     um_UserActivated = (\<lambda>v. Inr \<lparr>ua_UserId = v, ua_Email = v @ ''-mail'', ua_OccurredAt = None, ua_EventId = ''u-'' @ v\<rparr>),
     um_ProfileUpdated = (\<lambda>v. Inl (errors_New v)),
     um_AccountCreated = (\<lambda>v. Inr \<lparr>ac_EventId = ''ac-'' @ v, ac_UserId = v, ac_AccountId = ''a'' @ v, ac_AccountNumber = ''NB'' @ v, ac_OccurredAt = None\<rparr>),
     um_TransferCompleted = (\<lambda>v. if v = ''ok'' then Inr transfer_example else Inl (errors_New v)),
     um_TransferFailed = (\<lambda>v. Inl (errors_New v)), um_TransferRejected = (\<lambda>v. Inl (errors_New v)), um_DepositCredited = (\<lambda>v. Inl (errors_New v)),
     unicode_quote = (\<lambda>v. v)\<rparr>"

definition sample_message :: "string \<Rightarrow> string \<Rightarrow> kafka_message" where
  "sample_message ty v = \<lparr>km_Key = [], km_Value = v, km_Headers = [(''event_type'', ty)], km_Partition = 0, km_Offset = 0\<rparr>"

definition sample_nenv :: "(nat \<Rightarrow> smtp_answer) \<Rightarrow> nenv" where
  "sample_nenv smtp = \<lparr>nv_now = 7, nv_statement = (\<lambda>_. Runs), nv_meanwhile = (\<lambda>_ db. db), nv_smtp = smtp\<rparr>"

definition env_example :: "(nat \<Rightarrow> smtp_answer) \<Rightarrow> message_env" where
  "env_example smtp = \<lparr>me_attempt = (\<lambda>_. sample_nenv smtp), me_elapsed = (\<lambda>_. 1), me_close = sample_nenv smtp, me_dlq = NoFault, me_commit = NoFault\<rparr>"

definition sample_contact :: "string \<Rightarrow> user_contact" where
  "sample_contact v = \<lparr>uc_user_id = v, uc_account_id = Some (''a'' @ v), uc_email = v @ ''-mail'', uc_account_number = Some (''NB'' @ v),
     uc_display_name = None, uc_updated_at = 7\<rparr>"

definition sample_contacts :: notifications_db where
  "sample_contacts = \<lparr>user_contacts = [sample_contact ''1'', sample_contact ''2''],
     notifications_processed_events = map (\<lambda>e. \<lparr>pe_event_id = e, pe_status = eventStatusSkipped, pe_processed_at = 7\<rparr>) [''u-1'', ''u-2'', ''ac-1'', ''ac-2'']\<rparr>"

lemma env_examples [simp]:
  "good_peers (sample_nenv smtp)" "peers_link A (sample_nenv smtp)" "good_message_env A (env_example smtp)" "smooth (sample_nenv smtp)"
  "good_attempts A (\<lambda>_. sample_nenv smtp)"
  by (simp_all add: good_peers_def peers_link_def good_message_env_def good_attempts_def smooth_def sample_nenv_def env_example_def)

lemma links_in_UNIV [simp]: "links_in UNIV db"
  by (simp add: links_in_def)

text \<open>The projection is built from the events of the two users.\<close>

lemma sample_projection:
  "foldl (\<lambda>db v. fst (consume_user_message sample_notifier (sample_nenv (\<lambda>_. SmtpAccepted)) (sample_message ''UserActivated'' v) db))
     \<lparr>user_contacts = [], notifications_processed_events = []\<rparr> [''1'', ''2'']
   = sample_contacts\<lparr>user_contacts := map (\<lambda>c. c\<lparr>uc_account_id := None, uc_account_number := None\<rparr>) (user_contacts sample_contacts),
       notifications_processed_events := take 2 (notifications_processed_events sample_contacts)\<rparr>"
  "foldl (\<lambda>db v. fst (consume_account_message sample_notifier (sample_nenv (\<lambda>_. SmtpAccepted)) (sample_message [] v) db))
     (sample_contacts\<lparr>user_contacts := map (\<lambda>c. c\<lparr>uc_account_id := None, uc_account_number := None\<rparr>) (user_contacts sample_contacts),
       notifications_processed_events := take 2 (notifications_processed_events sample_contacts)\<rparr>) [''1'', ''2'']
   = sample_contacts"
  by code_simp+

abbreviation sample_completed :: kafka_message where
  "sample_completed \<equiv> sample_message ''TransferCompleted'' ''ok''"

lemma sample_mailable: "mailable sample_notifier sample_completed sample_contacts transfer_example ''e1'' (sample_contact ''1'') (sample_contact ''2'')"
proof -
  have "eventTypeOf sample_completed = eventTypeTransferCompleted" by code_simp
  moreover have "um_TransferCompleted sample_notifier (km_Value sample_completed) = Inr transfer_example" by code_simp
  moreover have "uuid_in (nf_rt sample_notifier) x = Some x" for x by (simp add: sample_notifier_def)
  moreover have "status_of ''e1'' sample_contacts = None" by code_simp
  moreover have "find (\<lambda>c. uc_account_id c = Some ''a1'') (user_contacts sample_contacts) = Some (sample_contact ''1'')" by code_simp
  moreover have "find (\<lambda>c. uc_account_id c = Some ''a2'') (user_contacts sample_contacts) = Some (sample_contact ''2'')" by code_simp
  moreover have "valid_line (nf_smtpFrom sample_notifier)" "valid_line (uc_email (sample_contact ''1''))" "valid_line (uc_email (sample_contact ''2''))"
    by code_simp+
  moreover have "tc_EventId transfer_example = ''e1''" "tc_SenderAccountId transfer_example = ''a1''" "tc_RecipientAccountId transfer_example = ''a2''"
    by (simp_all add: transfer_example_def)
  ultimately show ?thesis by (simp add: mailable_def known_def settled_def)
qed

theorem completed_transfer_mailed_witness:
  "map ml_to (mr_mails (handleTransferMessageWithRetry sample_notifier (env_example (\<lambda>_. SmtpAccepted)) sample_completed sample_contacts))
     = [''1-mail'', ''2-mail''] \<and>
   mr_attempts (handleTransferMessageWithRetry sample_notifier (env_example (\<lambda>_. SmtpAccepted)) sample_completed sample_contacts) = 1"
proof -
  let ?me = "env_example (\<lambda>_. SmtpAccepted)"
  have "smooth (me_attempt ?me 0)" "nv_smtp (me_attempt ?me 0) i = SmtpAccepted" "me_commit ?me = NoFault" for i
    by (simp add: env_example_def) (simp_all add: env_example_def sample_nenv_def)
  from completed_transfer_mailed [OF sample_mailable this(1) this(2) this(2) this(3)] show ?thesis
    by (simp add: sent_mail_def received_mail_def sample_contact_def)
qed

definition half_refused :: "nat \<Rightarrow> smtp_answer" where
  "half_refused i = (if i < 3 then SmtpAccepted else SmtpRefused (errors_New ''550 no such user''))"

theorem refused_recipient_repeats_sender_witness:
  "length (mr_mails (handleTransferMessageWithRetry sample_notifier (env_example half_refused) sample_completed sample_contacts)) = 5"
proof -
  let ?me = "env_example half_refused"
  have "\<not> IsUnavailable (Some (refused_error transfer_example (sample_contact ''2'') (errors_New ''550 no such user'')))" by code_simp
  moreover have "smooth (me_attempt ?me k) \<and> nv_smtp (me_attempt ?me k) 0 = SmtpAccepted \<and>
      (\<forall>i. nv_smtp (me_attempt ?me k) (3 + i) = SmtpRefused (errors_New ''550 no such user''))" "smooth (me_close ?me)" for k
    by (simp add: env_example_def) (simp_all add: env_example_def sample_nenv_def half_refused_def smooth_def)
  moreover have "tc_EventId transfer_example \<noteq> []" by (simp add: transfer_example_def)
  ultimately show ?thesis
    using refused_recipient_repeats_sender [OF sample_mailable, of ?me "errors_New ''550 no such user''"] by simp
qed

text \<open>A payload that cannot be decoded is given five attempts.\<close>

abbreviation sample_poison :: kafka_message where
  "sample_poison \<equiv> sample_message ''TransferCompleted'' ''bad''"

lemma sample_poison_attempt:
  "processTransferMessage sample_notifier nv sample_poison db =
     (db, [], [], ''TransferCompleted'', Some (unmarshal_error sample_poison (errors_New ''bad'')))"
  by (simp add: processTransferMessage_def eventTypeOf_def sample_message_def eventTypeHeader_def event_type_names sample_notifier_def Let_def)

theorem retries_end_witness:
  "mr_attempts (handleTransferMessageWithRetry sample_notifier (env_example (\<lambda>_. SmtpAccepted)) sample_poison sample_contacts) \<le> 5"
proof -
  have "\<not> IsUnavailable (Some (unmarshal_error sample_poison (errors_New ''bad'')))" by code_simp
  then show ?thesis
    using retries_end [of sample_notifier "env_example (\<lambda>_. SmtpAccepted)" sample_poison sample_contacts]
    by (simp add: sample_poison_attempt)
qed

lemma sample_key: "event_key sample_notifier sample_completed = Some ''e1''"
  by code_simp

theorem redelivery_mails_nothing_witness:
  "mr_mails (handleTransferMessageWithRetry sample_notifier (env_example (\<lambda>_. SmtpAccepted)) sample_completed
     (insert_event (sample_nenv (\<lambda>_. SmtpAccepted)) ''e1'' eventStatusSent sample_contacts)) = []"
proof -
  let ?db = "insert_event (sample_nenv (\<lambda>_. SmtpAccepted)) ''e1'' eventStatusSent sample_contacts"
  have "status_of ''e1'' sample_contacts = None" by code_simp
  then have "settled ''e1'' ?db"
    by (simp add: settled_def status_of_insert_event status_names)
  with redelivery_mails_nothing [OF env_examples(3) links_in_UNIV sample_key, of ?db "\<lambda>_. SmtpAccepted"] show ?thesis
    by simp
qed

text \<open>A run: the projection is built, the message handled, and the process dies and reads the message again.\<close>

definition sample_end :: message_result where
  "sample_end = handleTransferMessageWithRetry sample_notifier (env_example (\<lambda>_. SmtpAccepted)) sample_completed sample_contacts"

abbreviation sample_state :: "notifications_db \<Rightarrow> notify_state" where
  "sample_state db \<equiv> \<lparr>ns_db = db, ns_mails = [], ns_dlq = [], ns_committed = 0\<rparr>"

lemma sample_run:
  "notify_run sample_notifier UNIV [sample_completed] (after_message 0 sample_end (sample_state sample_contacts)) (Suc 0) {}"
proof -
  let ?nf = sample_notifier and ?nv = "sample_nenv (\<lambda>_. SmtpAccepted)" and ?run = "notify_run sample_notifier UNIV [sample_completed]"
  let ?db0 = "\<lparr>user_contacts = [], notifications_processed_events = []\<rparr>"
  have user: "?run (sample_state (fst (consume_user_message ?nf ?nv msg db))) 0 {}" if "?run (sample_state db) 0 {}" for db msg
    using notify_run.user [OF that, of ?nv msg] by simp
  have account: "?run (sample_state (fst (consume_account_message ?nf ?nv msg db))) 0 {}" if "?run (sample_state db) 0 {}" for db msg
    using notify_run.account [OF that, of ?nv msg] by simp
  have fold: "?run (sample_state (foldl f db vs)) 0 {}"
    if "?run (sample_state db) 0 {}" "\<And>db v. ?run (sample_state db) 0 {} \<Longrightarrow> ?run (sample_state (f db v)) 0 {}" for db vs and f :: "notifications_db \<Rightarrow> string \<Rightarrow> notifications_db"
    using that by (induction vs arbitrary: db) simp_all
  have "?run (sample_state (foldl (\<lambda>db v. fst (consume_user_message ?nf ?nv (sample_message ''UserActivated'' v) db)) ?db0 [''1'', ''2''])) 0 {}"
    using notify_run.start by (intro fold user)
  note 1 = this [unfolded sample_projection(1)]
  have "?run (sample_state (foldl (\<lambda>db v. fst (consume_account_message ?nf ?nv (sample_message [] v) db)) db [''1'', ''2''])) 0 {}"
    if "?run (sample_state db) 0 {}" for db
    using that by (intro fold account)
  from this [OF 1] have "?run (sample_state sample_contacts) 0 {}"
    unfolding sample_projection(2) .
  moreover have "me_dlq (env_example (\<lambda>_. SmtpAccepted)) \<noteq> Lost" by (simp add: env_example_def)
  ultimately show ?thesis
    using notify_run.message [of ?nf UNIV "[sample_completed]" "sample_state sample_contacts" 0 "{}" "env_example (\<lambda>_. SmtpAccepted)" sample_end]
    by (simp add: sample_end_def [symmetric])
qed

lemma sample_end_facts: "mr_committed sample_end" "map ml_to (mr_mails sample_end) = [''1-mail'', ''2-mail'']"
  "status_of ''e1'' (mr_db sample_end) = Some eventStatusSent" "mr_dlq sample_end = []"
proof -
  let ?me = "env_example (\<lambda>_. SmtpAccepted)"
  have "smooth (me_attempt ?me 0)" "nv_smtp (me_attempt ?me 0) 0 = SmtpAccepted" "nv_smtp (me_attempt ?me 0) 3 = SmtpAccepted"
    by (simp add: env_example_def) (simp_all add: env_example_def sample_nenv_def)
  then obtain db' where p: "processTransferMessage sample_notifier (me_attempt ?me 0) sample_completed sample_contacts =
      (db', [sent_mail sample_notifier transfer_example (sample_contact ''1'') (sample_contact ''2''),
        received_mail sample_notifier transfer_example (sample_contact ''1'') (sample_contact ''2'')], tc_EventId transfer_example, eventTypeTransferCompleted, None)"
    "status_of ''e1'' db' = Some eventStatusSent"
    using completed_attempt_mails [OF sample_mailable] by metis
  then show "mr_committed sample_end" "map ml_to (mr_mails sample_end) = [''1-mail'', ''2-mail'']"
    "status_of ''e1'' (mr_db sample_end) = Some eventStatusSent" "mr_dlq sample_end = []"
    by (simp_all add: sample_end_def handleTransferMessageWithRetry_def retry_message.simps [of _ _ _ _ 0] transferMaxAttempts_def
        sent_mail_def received_mail_def sample_contact_def) (simp add: env_example_def)
qed

theorem no_notification_lost_witness:
  "settled ''e1'' (ns_db (after_message 0 sample_end (sample_state sample_contacts))) \<and>
   mailed sample_notifier UNIV [sample_completed] (after_message 0 sample_end (sample_state sample_contacts)) ''e1''"
  using no_notification_lost [OF sample_run] sample_end_facts
  by (auto simp: after_message_def dealt_with_def sample_key)

theorem only_parties_mailed_witness:
  "mr_mails sample_end \<noteq> [] \<and> mail_allowed sample_notifier UNIV sample_completed (hd (mr_mails sample_end))"
proof -
  have "mr_mails sample_end \<noteq> []" using sample_end_facts(2) by auto
  then show ?thesis
    using only_parties_mailed [OF sample_run, of "hd (mr_mails sample_end)"] by (auto simp: after_message_def)
qed

end
