(* ===== verification/Gateway.thy ===== *)
theory Gateway
  imports Notifications
begin

text \<open>
  src/gateway: authentication (middleware.go), routing and forwarding (main.go, proxy.go), the WebSocket registry
  (ws.go), the cache of account owners (accountcache.go) and the signals made from events (notify.go, kafka.go).

  Of the standard library: \<open>http.Header\<close> with its canonical keys, \<open>http.ServeMux\<close>, \<open>http.StripPrefix\<close> and what
  \<open>httputil.ReverseProxy\<close> does to the headers. A request's path has no percent escapes, and X-Forwarded-For, which
  the proxy adds, is left out. The JWT library is a parameter.
\<close>

subsection \<open>Headers\<close>

text \<open>\<open>textproto.CanonicalMIMEHeaderKey\<close>: a name with a byte that may not be in a name stays as it is.\<close>

definition token_char :: "char \<Rightarrow> bool" where
  "token_char c \<longleftrightarrow> (CHR ''a'' \<le> c \<and> c \<le> CHR ''z'') \<or> (CHR ''A'' \<le> c \<and> c \<le> CHR ''Z'') \<or> (CHR ''0'' \<le> c \<and> c \<le> CHR ''9'') \<or>
     c \<in> set ''!#$%&*+-.^_|~'' \<or> c = CHR 0x27 \<or> c = CHR 0x60"

fun canon_loop :: "bool \<Rightarrow> string \<Rightarrow> string" where
  "canon_loop upper [] = []"
| "canon_loop upper (c # cs) =
     (let d = (if upper then upper_char c else lower_char c) in d # canon_loop (d = CHR ''-'') cs)"

definition CanonicalHeaderKey :: "string \<Rightarrow> string" where
  "CanonicalHeaderKey s = (if list_all token_char s then canon_loop True s else s)"

type_synonym header = "string \<Rightarrow> string list"

text \<open>The headers of a request as the server reads them from the wire.\<close>

definition read_header :: "(string \<times> string) list \<Rightarrow> header" where
  "read_header wire k = map snd (filter (\<lambda>h. CanonicalHeaderKey (fst h) = k) wire)"

definition header_Del :: "string \<Rightarrow> header \<Rightarrow> header" where
  "header_Del k h = h(CanonicalHeaderKey k := [])"

definition header_Set :: "string \<Rightarrow> string \<Rightarrow> header \<Rightarrow> header" where
  "header_Set k v h = h(CanonicalHeaderKey k := [v])"

definition header_Get :: "string \<Rightarrow> header \<Rightarrow> string" where
  "header_Get k h = (case h (CanonicalHeaderKey k) of [] \<Rightarrow> [] | v # _ \<Rightarrow> v)"

record http_request =
  rq_Method :: string
  rq_Path :: string
  rq_Header :: header
  rq_Body :: string

subsection \<open>middleware.go\<close>

definition publicPaths :: "string list" where
  "publicPaths = [''/'', ''/healthz'', ''/auth/register'', ''/auth/verify-email'', ''/auth/resend-verification'', ''/auth/login'',
     ''/auth/refresh'', ''/auth/forgot-password'', ''/auth/reset-password'', ''/webhooks/stripe'', ''/ws'']"

text \<open>
  \<open>jwt.ParseWithClaims\<close> with the secret and the allowed methods: the claim \<open>user_id\<close> of a token that verifies (empty
  when the claim is missing).
\<close>

type_synonym jwt_library = "string \<Rightarrow> string \<Rightarrow> string list \<Rightarrow> string option"

definition parseAccessToken :: "jwt_library \<Rightarrow> string \<Rightarrow> string \<Rightarrow> string option" where
  "parseAccessToken jwt tokenString secret =
     (case jwt tokenString secret [''HS256''] of
        None \<Rightarrow> None
      | Some userID \<Rightarrow> if userID = [] then None else Some userID)"

text \<open>\<open>strings.CutPrefix\<close>.\<close>

definition CutPrefix :: "string \<Rightarrow> string \<Rightarrow> string option" where
  "CutPrefix s p = (if take (length p) s = p then Some (drop (length p) s) else None)"

datatype gateway_result =
    GwAnswer nat string                \<comment> \<open>a status and the text of the body\<close>
  | GwRedirect string
  | GwForward string http_request      \<comment> \<open>the request sent to the service at an address\<close>
  | GwWebSocket http_request

definition jwtMiddleware :: "jwt_library \<Rightarrow> (http_request \<Rightarrow> gateway_result) \<Rightarrow> string \<Rightarrow> http_request \<Rightarrow> gateway_result" where
  "jwtMiddleware jwt serve secret r0 =
     (let r = r0\<lparr>rq_Header := header_Del ''X-User-Id'' (rq_Header r0)\<rparr> in
      if rq_Path r \<in> set publicPaths then serve r
      else case CutPrefix (header_Get ''Authorization'' (rq_Header r)) ''Bearer '' of
        None \<Rightarrow> GwAnswer 401 ''missing_bearer_token''
      | Some token \<Rightarrow>
          if token = [] then GwAnswer 401 ''missing_bearer_token''
          else (case parseAccessToken jwt token secret of
                  None \<Rightarrow> GwAnswer 401 ''invalid_token''
                | Some userID \<Rightarrow> serve (r\<lparr>rq_Header := header_Set ''X-User-Id'' userID (rq_Header r)\<rparr>)))"

subsection \<open>proxy.go and main.go\<close>

text \<open>The addresses come from the environment: \<open>envOr\<close> of the variable.\<close>

type_synonym environ = "string \<Rightarrow> string"

definition envOr :: "environ \<Rightarrow> string \<Rightarrow> string \<Rightarrow> string" where
  "envOr getenv key fallback = (if getenv key \<noteq> [] then getenv key else fallback)"

definition routes :: "environ \<Rightarrow> (string \<times> string) list" where
  "routes getenv =
     [(''/auth'', envOr getenv ''AUTH_SVC_ADDR'' ''auth-svc:8081''),
      (''/accounts'', envOr getenv ''ACCOUNTS_SVC_ADDR'' ''accounts-svc:8082''),
      (''/transfers'', envOr getenv ''TRANSFERS_SVC_ADDR'' ''transfers-svc:8084''),
      (''/fraud'', envOr getenv ''FRAUD_SVC_ADDR'' ''fraud-svc:8085''),
      (''/notifications'', envOr getenv ''NOTIFICATIONS_SVC_ADDR'' ''notifications-svc:8086'')]"

text \<open>
  \<open>removeHopByHopHeaders\<close> of the reverse proxy: the headers that \<open>Connection\<close> names, then a fixed list.
\<close>

definition hopHeaders :: "string list" where
  "hopHeaders = [''Connection'', ''Proxy-Connection'', ''Keep-Alive'', ''Proxy-Authenticate'', ''Proxy-Authorization'', ''Te'',
     ''Trailer'', ''Transfer-Encoding'', ''Upgrade'']"

definition trim_blank :: "string \<Rightarrow> string" where
  "trim_blank s = rev (dropWhile (\<lambda>c. c \<in> {CHR '' '', CHR 0x09, CHR 0x0A, CHR 0x0D})
     (rev (dropWhile (\<lambda>c. c \<in> {CHR '' '', CHR 0x09, CHR 0x0A, CHR 0x0D}) s)))"

definition connection_headers :: "header \<Rightarrow> string list" where
  "connection_headers h = filter (\<lambda>s. s \<noteq> []) (map trim_blank (concat (map (split_at CHR '','') (h ''Connection''))))"

definition proxy_header :: "header \<Rightarrow> header" where
  "proxy_header h = foldl (\<lambda>h k. header_Del k h) h (connection_headers h @ hopHeaders)"

definition reverse_proxy :: "string \<Rightarrow> http_request \<Rightarrow> gateway_result" where
  "reverse_proxy addr r = GwForward addr (r\<lparr>rq_Header := proxy_header (rq_Header r)\<rparr>)"

definition newProxy :: "string \<Rightarrow> string \<Rightarrow> http_request \<Rightarrow> gateway_result" where
  "newProxy prefix addr r =
     (case CutPrefix (rq_Path r) prefix of
        None \<Rightarrow> GwAnswer 404 ''404 page not found''
      | Some p \<Rightarrow> reverse_proxy addr (r\<lparr>rq_Path := p\<rparr>))"

definition newNoStripProxy :: "string \<Rightarrow> http_request \<Rightarrow> gateway_result" where
  "newNoStripProxy addr r = reverse_proxy addr r"

text \<open>The patterns that \<open>newHandler\<close> registers, with their handlers; a pattern that ends in a slash is a subtree.\<close>

definition gateway_patterns :: "environ \<Rightarrow> (string \<times> (http_request \<Rightarrow> gateway_result)) list" where
  "gateway_patterns getenv =
     (let transfersAddr = envOr getenv ''TRANSFERS_SVC_ADDR'' ''transfers-svc:8084'';
          authAddr = envOr getenv ''AUTH_SVC_ADDR'' ''auth-svc:8081''
      in [(''/'', (\<lambda>r. GwAnswer 501 ''gateway'')), (''/healthz'', (\<lambda>r. GwAnswer 200 ''ok''))] @
         map (\<lambda>rt. (fst rt @ ''/'', newProxy (fst rt) (snd rt))) (routes getenv) @
         [(''/deposits'', newNoStripProxy transfersAddr), (''/deposits/'', newNoStripProxy transfersAddr),
          (''/webhooks/stripe'', newNoStripProxy transfersAddr),
          (''/profile'', newNoStripProxy authAddr), (''/profile/'', newNoStripProxy authAddr)])"

text \<open>\<open>http.ServeMux\<close>: the cleaned path, the longest pattern that matches, and redirects.\<close>

fun clean_segments :: "string list \<Rightarrow> string list \<Rightarrow> string list" where
  "clean_segments acc [] = rev acc"
| "clean_segments acc (s # ss) =
     (if s = [] \<or> s = ''.'' then clean_segments acc ss
      else if s = ''..'' then clean_segments (drop 1 acc) ss
      else clean_segments (s # acc) ss)"

definition cleanPath :: "string \<Rightarrow> string" where
  "cleanPath p =
     (let np = concat (map (\<lambda>s. CHR ''/'' # s) (clean_segments [] (split_at CHR ''/'' p)))
      in if np = [] then ''/'' else if p \<noteq> [] \<and> p ! (length p - 1) = CHR ''/'' then np @ ''/'' else np)"

definition is_subtree :: "string \<Rightarrow> bool" where
  "is_subtree pat \<longleftrightarrow> pat \<noteq> [] \<and> pat ! (length pat - 1) = CHR ''/''"

definition pattern_matches :: "string \<Rightarrow> string \<Rightarrow> bool" where
  "pattern_matches pat path \<longleftrightarrow> path = pat \<or> (is_subtree pat \<and> take (length pat) path = pat)"

definition longer :: "string \<times> 'h \<Rightarrow> string \<times> 'h \<Rightarrow> string \<times> 'h" where
  "longer a b = (if length (fst a) < length (fst b) then b else a)"

definition mux_match :: "(string \<times> 'h) list \<Rightarrow> string \<Rightarrow> (string \<times> 'h) option" where
  "mux_match ps path =
     (case filter (\<lambda>p. pattern_matches (fst p) path) ps of [] \<Rightarrow> None | p # qs \<Rightarrow> Some (foldl longer p qs))"

definition serve_mux :: "(string \<times> (http_request \<Rightarrow> gateway_result)) list \<Rightarrow> http_request \<Rightarrow> gateway_result" where
  "serve_mux ps r =
     (let path = cleanPath (rq_Path r) in
      case mux_match ps path of
        None \<Rightarrow> GwAnswer 404 ''404 page not found''
      | Some (pat, handler) \<Rightarrow>
          if pat \<noteq> path \<and> \<not> is_subtree path \<and> path @ ''/'' \<in> set (map fst ps) then GwRedirect (path @ ''/'')
          else if path \<noteq> rq_Path r then GwRedirect path
          else handler r)"

text \<open>\<open>GET /ws\<close> (and HEAD) goes to the WebSocket handler; other methods fall to the other patterns.\<close>

definition newHandler :: "jwt_library \<Rightarrow> environ \<Rightarrow> string \<Rightarrow> http_request \<Rightarrow> gateway_result" where
  "newHandler jwt getenv jwtSecret =
     jwtMiddleware jwt
       (\<lambda>r. serve_mux ((if rq_Method r = ''GET'' \<or> rq_Method r = ''HEAD'' then [(''/ws'', GwWebSocket)] else []) @ gateway_patterns getenv) r)
       jwtSecret"

subsection \<open>ws.go\<close>

text \<open>A connection is a number; the registry maps a user to the connections.\<close>

type_synonym wsRegistry = "string \<rightharpoonup> nat set"

definition conns_of :: "wsRegistry \<Rightarrow> string \<Rightarrow> nat set" where
  "conns_of reg userID = (case reg userID of None \<Rightarrow> {} | Some cs \<Rightarrow> cs)"

definition registry_add :: "wsRegistry \<Rightarrow> string \<Rightarrow> nat \<Rightarrow> int \<Rightarrow> wsRegistry \<times> bool" where
  "registry_add reg userID conn most =
     (if int (card (conns_of reg userID)) \<ge> most then (reg, False)
      else (reg(userID \<mapsto> insert conn (conns_of reg userID)), True))"

definition registry_remove :: "wsRegistry \<Rightarrow> string \<Rightarrow> nat \<Rightarrow> wsRegistry" where
  "registry_remove reg userID conn =
     (let conns = conns_of reg userID - {conn} in
      if conns = {} then reg(userID := None) else reg(userID \<mapsto> conns))"

text \<open>The deliveries of a message: one to each connection of the user.\<close>

definition registry_send :: "wsRegistry \<Rightarrow> string \<Rightarrow> 'm \<Rightarrow> (nat \<times> 'm) set" where
  "registry_send reg userID msg = (\<lambda>c. (c, msg)) ` conns_of reg userID"

record wsAuthMessage =
  au_Type :: string
  au_Token :: string

text \<open>
  The unauthenticated phase of \<open>handleWS\<close>: what the first read gives (\<open>None\<close> for an error or a timeout), and either the
  code and reason of the close frame or the user the connection was registered for.
\<close>

definition wsStatusPolicyViolation :: nat where "wsStatusPolicyViolation = 1008"
definition wsCloseTooManyConns :: nat where "wsCloseTooManyConns = 4001"

definition handleWS_auth ::
  "jwt_library \<Rightarrow> string \<Rightarrow> int \<Rightarrow> wsRegistry \<Rightarrow> nat \<Rightarrow> wsAuthMessage option \<Rightarrow> wsRegistry \<times> (nat \<times> string + string)" where
  "handleWS_auth jwt secret maxConnsPerUser reg conn first =
     (case first of
        None \<Rightarrow> (reg, Inl (wsStatusPolicyViolation, ''no valid auth message received in time''))
      | Some msg \<Rightarrow>
          if au_Type msg \<noteq> ''auth'' \<or> au_Token msg = [] then (reg, Inl (wsStatusPolicyViolation, ''expected an auth message first''))
          else (case parseAccessToken jwt (au_Token msg) secret of
            None \<Rightarrow> (reg, Inl (wsStatusPolicyViolation, ''invalid_token''))
          | Some userID \<Rightarrow>
              (case registry_add reg userID conn maxConnsPerUser of
                 (reg', False) \<Rightarrow> (reg', Inl (wsCloseTooManyConns, ''too many connections for this user''))
               | (reg', True) \<Rightarrow> (reg', Inr userID))))"

subsection \<open>accountcache.go\<close>

record accountCacheEntry =
  ce_userID :: string
  ce_expiresAt :: int

record accountCache =
  ac_entries :: "string \<rightharpoonup> accountCacheEntry"
  ac_ttl :: int

definition cache_set :: "int \<Rightarrow> string \<Rightarrow> string \<Rightarrow> accountCache \<Rightarrow> accountCache" where
  "cache_set time accountID userID c =
     c\<lparr>ac_entries := (ac_entries c)(accountID \<mapsto> \<lparr>ce_userID = userID, ce_expiresAt = time + ac_ttl c\<rparr>)\<rparr>"

definition cache_get :: "int \<Rightarrow> string \<Rightarrow> accountCache \<Rightarrow> string option" where
  "cache_get time accountID c =
     (case ac_entries c accountID of
        None \<Rightarrow> None
      | Some entry \<Rightarrow> if time > ce_expiresAt entry then None else Some (ce_userID entry))"

text \<open>
  The answer of accounts-svc: \<open>None\<close> when the request fails, else the status and the \<open>user_id\<close> of the decoded body
  (\<open>None\<close> when it cannot be decoded).
\<close>

type_synonym account_answer = "(nat \<times> string option) option"

definition fetchFromAccountsSvc :: "account_answer \<Rightarrow> string option" where
  "fetchFromAccountsSvc answer =
     (case answer of
        None \<Rightarrow> None
      | Some (status, body) \<Rightarrow>
          if status \<noteq> 200 then None
          else (case body of None \<Rightarrow> None | Some userID \<Rightarrow> if userID = [] then None else Some userID))"

definition cache_resolve :: "int \<Rightarrow> (string \<Rightarrow> account_answer) \<Rightarrow> string \<Rightarrow> accountCache \<Rightarrow> accountCache \<times> string option" where
  "cache_resolve time ask accountID c =
     (case cache_get time accountID c of
        Some userID \<Rightarrow> (c, Some userID)
      | None \<Rightarrow>
          (case fetchFromAccountsSvc (ask accountID) of
             None \<Rightarrow> (c, None)
           | Some userID \<Rightarrow> (cache_set time accountID userID c, Some userID)))"

subsection \<open>notify.go\<close>

datatype ws_message = BalanceChanged | TransferUpdated string | DepositUpdated string

text \<open>A signal is a user and a message. \<open>resolve i\<close> is the \<open>i\<close>-th use of the cache, which it may change.\<close>

definition signalsForTransferEvent ::
  "string \<Rightarrow> string \<Rightarrow> string \<Rightarrow> string \<Rightarrow> (nat \<Rightarrow> string \<Rightarrow> accountCache \<Rightarrow> accountCache \<times> string option) \<Rightarrow> accountCache
   \<Rightarrow> accountCache \<times> (string \<times> ws_message) list" where
  "signalsForTransferEvent eventType transferID senderAccountID recipientAccountID resolve c =
     (let (c1, sender) = resolve 0 senderAccountID c;
          out = (case sender of None \<Rightarrow> []
                 | Some u \<Rightarrow> (if eventType = eventTypeTransferCompleted then [(u, BalanceChanged)] else []) @ [(u, TransferUpdated transferID)])
      in if eventType \<noteq> eventTypeTransferCompleted then (c1, out)
         else let (c2, recipient) = resolve 1 recipientAccountID c1
              in (c2, out @ (case recipient of None \<Rightarrow> [] | Some u \<Rightarrow> [(u, BalanceChanged), (u, TransferUpdated transferID)])))"

definition signalsForDepositEvent ::
  "string \<Rightarrow> string \<Rightarrow> (nat \<Rightarrow> string \<Rightarrow> accountCache \<Rightarrow> accountCache \<times> string option) \<Rightarrow> accountCache
   \<Rightarrow> accountCache \<times> (string \<times> ws_message) list" where
  "signalsForDepositEvent depositID accountID resolve c =
     (let (c1, user) = resolve 0 accountID c
      in (c1, case user of None \<Rightarrow> [] | Some u \<Rightarrow> [(u, BalanceChanged), (u, DepositUpdated depositID)]))"

subsection \<open>kafka.go\<close>

definition eventTypeAccountCreated :: string where "eventTypeAccountCreated = ''AccountCreated''"

text \<open>
  The decoders are those of the configuration of notifications-svc, for the same messages; a header is read the same way.
\<close>

definition consume_account_event :: "notifier \<Rightarrow> int \<Rightarrow> kafka_message \<Rightarrow> accountCache \<Rightarrow> accountCache" where
  "consume_account_event nf time msg c =
     (if eventTypeOf msg \<noteq> eventTypeAccountCreated then c
      else case um_AccountCreated nf (km_Value msg) of
        Inl _ \<Rightarrow> c
      | Inr event \<Rightarrow> cache_set time (ac_AccountId event) (ac_UserId event) c)"

definition transfer_signals ::
  "notifier \<Rightarrow> kafka_message \<Rightarrow> (nat \<Rightarrow> string \<Rightarrow> accountCache \<Rightarrow> accountCache \<times> string option) \<Rightarrow> accountCache
   \<Rightarrow> accountCache \<times> (string \<times> ws_message) list" where
  "transfer_signals nf msg resolve c =
     (let v = km_Value msg; t = eventTypeOf msg in
      if t = eventTypeTransferCompleted then
        (case um_TransferCompleted nf v of Inl _ \<Rightarrow> (c, [])
         | Inr e \<Rightarrow> signalsForTransferEvent t (tc_TransferId e) (tc_SenderAccountId e) (tc_RecipientAccountId e) resolve c)
      else if t = eventTypeTransferFailed then
        (case um_TransferFailed nf v of Inl _ \<Rightarrow> (c, [])
         | Inr e \<Rightarrow> signalsForTransferEvent t (tf_TransferId e) (tf_SenderAccountId e) (tf_RecipientAccountId e) resolve c)
      else if t = eventTypeTransferRejected then
        (case um_TransferRejected nf v of Inl _ \<Rightarrow> (c, [])
         | Inr e \<Rightarrow> signalsForTransferEvent t (tr_TransferId e) (tr_SenderAccountId e) (tr_RecipientAccountId e) resolve c)
      else if t = eventTypeDepositCredited then
        (case um_DepositCredited nf v of Inl _ \<Rightarrow> (c, [])
         | Inr e \<Rightarrow> signalsForDepositEvent (dc_DepositId e) (dc_AccountId e) resolve c)
      else (c, []))"

text \<open>The \<open>i\<close>-th lookup of a message happens at \<open>at i\<close> and meets the answers \<open>asks i\<close>; the registry is read as it is then.\<close>

definition handleTransferMessage ::
  "notifier \<Rightarrow> (nat \<Rightarrow> int) \<Rightarrow> (nat \<Rightarrow> string \<Rightarrow> account_answer) \<Rightarrow> kafka_message \<Rightarrow> accountCache \<Rightarrow> wsRegistry
   \<Rightarrow> accountCache \<times> (nat \<times> ws_message) set" where
  "handleTransferMessage nf at asks msg c reg =
     (let (c', signals) = transfer_signals nf msg (\<lambda>i. cache_resolve (at i) (asks i)) c
      in (c', \<Union> (set (map (\<lambda>(u, m). registry_send reg u m) signals))))"

end
