(* ===== verification/Gateway_Properties.thy ===== *)
theory Gateway_Properties
  imports Accounts_Properties Gateway
begin

text \<open>
  Properties of the gateway: who a service takes the caller for, what can be reached without a token, which connections
  are registered, and who gets which signal.
\<close>

subsection \<open>Header names\<close>

lemma of_lower_char:
  "(of_char (lower_char c) :: nat) = (if 65 \<le> (of_char c :: nat) \<and> (of_char c :: nat) \<le> 90 then of_char c + 32 else of_char c)"
  by (auto simp: lower_char_def char_le_conv)

lemma lower_char_idem: "lower_char (lower_char c) = lower_char c"
proof -
  have "(of_char (lower_char (lower_char c)) :: nat) = of_char (lower_char c)"
    unfolding of_lower_char by auto
  then show ?thesis by simp
qed

lemma canon_loop_idem: "canon_loop b (canon_loop b s) = canon_loop b s"
  by (induction b s rule: canon_loop.induct) (auto simp: Let_def upper_char_idem lower_char_idem)

lemma token_char_case: "token_char c \<Longrightarrow> token_char (upper_char c)" "token_char c \<Longrightarrow> token_char (lower_char c)"
proof -
  have "upper_char c = c \<or> (CHR ''A'' \<le> upper_char c \<and> upper_char c \<le> CHR ''Z'')"
    unfolding char_le_conv of_upper_char by (auto simp: upper_char_def char_le_conv)
  then show "token_char c \<Longrightarrow> token_char (upper_char c)" by (auto simp: token_char_def)
  have "lower_char c = c \<or> (CHR ''a'' \<le> lower_char c \<and> lower_char c \<le> CHR ''z'')"
    unfolding char_le_conv of_lower_char by (auto simp: lower_char_def char_le_conv)
  then show "token_char c \<Longrightarrow> token_char (lower_char c)" by (auto simp: token_char_def)
qed

lemma canon_loop_tokens: "list_all token_char s \<Longrightarrow> list_all token_char (canon_loop b s)"
  by (induction b s rule: canon_loop.induct) (auto simp: Let_def token_char_case)

text \<open>A name that has been made canonical is read back as it is.\<close>

lemma CanonicalHeaderKey_idem: "CanonicalHeaderKey (CanonicalHeaderKey s) = CanonicalHeaderKey s"
  by (auto simp: CanonicalHeaderKey_def canon_loop_idem canon_loop_tokens)

lemma canonical_names [simp]:
  "CanonicalHeaderKey ''X-User-Id'' = ''X-User-Id''" "CanonicalHeaderKey ''Authorization'' = ''Authorization''"
  by code_simp+

lemma header_Del_same [simp]: "header_Del ''X-User-Id'' h ''X-User-Id'' = []"
  by (simp add: header_Del_def)

lemma header_Del_sub: "header_Del k h n = h n \<or> header_Del k h n = []"
  by (simp add: header_Del_def)

lemma proxy_header_sub: "proxy_header h k = h k \<or> proxy_header h k = []"
proof -
  have "foldl (\<lambda>h k. header_Del k h) h ks k = h k \<or> foldl (\<lambda>h k. header_Del k h) h ks k = []" for ks
  proof (induction ks arbitrary: h)
    case (Cons a ks)
    show ?case using Cons [of "header_Del a h"] header_Del_sub [of a h k] by auto
  qed simp
  then show ?thesis unfolding proxy_header_def .
qed

subsection \<open>Routing\<close>

lemma newProxy_forward:
  "newProxy prefix a r = GwForward addr r' \<Longrightarrow> rq_Header r' = proxy_header (rq_Header r) \<and> rq_Method r' = rq_Method r \<and> rq_Body r' = rq_Body r"
  by (auto simp: newProxy_def reverse_proxy_def split: option.splits)

lemma patterns_forward:
  assumes "(pat, handler) \<in> set (gateway_patterns getenv)" "handler r = GwForward addr r'"
  shows "rq_Header r' = proxy_header (rq_Header r) \<and> rq_Method r' = rq_Method r \<and> rq_Body r' = rq_Body r"
  using assms by (auto simp: gateway_patterns_def Let_def newNoStripProxy_def reverse_proxy_def dest!: newProxy_forward)

lemma foldl_longer_in: "foldl longer p qs \<in> insert p (set qs)"
  by (induction qs arbitrary: p) (auto simp: longer_def)

lemma mux_match_in: "mux_match ps path = Some x \<Longrightarrow> x \<in> set ps"
  using foldl_longer_in by (fastforce simp: mux_match_def split: list.splits dest: filter_eq_ConsD)

lemma serve_mux_forward:
  assumes "serve_mux ps r = GwForward addr r'"
  obtains pat handler where "(pat, handler) \<in> set ps" "handler r = GwForward addr r'"
proof -
  obtain pat handler where "mux_match ps (cleanPath (rq_Path r)) = Some (pat, handler)" "handler r = GwForward addr r'"
    using assms by (auto simp: serve_mux_def Let_def split: option.splits if_splits)
  then show thesis using mux_match_in that by blast
qed

text \<open>What a path without a token reaches.\<close>

definition public_targets :: "environ \<Rightarrow> (string \<times> string) list" where
  "public_targets getenv =
     map (\<lambda>p. (envOr getenv ''AUTH_SVC_ADDR'' ''auth-svc:8081'', p))
       [''/register'', ''/verify-email'', ''/resend-verification'', ''/login'', ''/refresh'', ''/forgot-password'', ''/reset-password''] @
     [(envOr getenv ''TRANSFERS_SVC_ADDR'' ''transfers-svc:8084'', ''/webhooks/stripe'')]"

lemmas mux_simps = gateway_patterns_def routes_def serve_mux_def mux_match_def pattern_matches_def is_subtree_def longer_def
  cleanPath_def Let_def newProxy_def newNoStripProxy_def reverse_proxy_def CutPrefix_def

abbreviation mux_patterns :: "environ \<Rightarrow> http_request \<Rightarrow> (string \<times> (http_request \<Rightarrow> gateway_result)) list" where
  "mux_patterns getenv r \<equiv> (if rq_Method r = ''GET'' \<or> rq_Method r = ''HEAD'' then [(''/ws'', GwWebSocket)] else []) @ gateway_patterns getenv"

lemma public_reach:
  assumes "rq_Path r \<in> set publicPaths" and f: "serve_mux (mux_patterns getenv r) r = GwForward addr r'"
  shows "(addr, rq_Path r') \<in> set (public_targets getenv)"
proof -
  consider (root) "rq_Path r = ''/''" | (health) "rq_Path r = ''/healthz''" | (register) "rq_Path r = ''/auth/register''"
    | (verify) "rq_Path r = ''/auth/verify-email''" | (resend) "rq_Path r = ''/auth/resend-verification''" | (login) "rq_Path r = ''/auth/login''"
    | (refresh) "rq_Path r = ''/auth/refresh''" | (forgot) "rq_Path r = ''/auth/forgot-password''" | (reset) "rq_Path r = ''/auth/reset-password''"
    | (stripe) "rq_Path r = ''/webhooks/stripe''" | (ws) "rq_Path r = ''/ws''"
    using assms(1) unfolding publicPaths_def by auto
  then show ?thesis
  proof cases
    case root then show ?thesis using f by (auto simp: mux_simps split: if_splits)
  next
    case health then show ?thesis using f by (auto simp: mux_simps split: if_splits)
  next
    case register then show ?thesis using f by (auto simp: mux_simps public_targets_def split: if_splits)
  next
    case verify then show ?thesis using f by (auto simp: mux_simps public_targets_def split: if_splits)
  next
    case resend then show ?thesis using f by (auto simp: mux_simps public_targets_def split: if_splits)
  next
    case login then show ?thesis using f by (auto simp: mux_simps public_targets_def split: if_splits)
  next
    case refresh then show ?thesis using f by (auto simp: mux_simps public_targets_def split: if_splits)
  next
    case forgot then show ?thesis using f by (auto simp: mux_simps public_targets_def split: if_splits)
  next
    case reset then show ?thesis using f by (auto simp: mux_simps public_targets_def split: if_splits)
  next
    case stripe then show ?thesis using f by (auto simp: mux_simps public_targets_def split: if_splits)
  next
    case ws then show ?thesis using f by (auto simp: mux_simps split: if_splits)
  qed
qed

lemma mux_header:
  assumes "serve_mux (mux_patterns getenv r) r = GwForward addr r'"
  shows "rq_Header r' = proxy_header (rq_Header r)"
  using assms
proof (rule serve_mux_forward)
  fix pat handler
  assume "(pat, handler) \<in> set (mux_patterns getenv r)" "handler r = GwForward addr r'"
  then show ?thesis using patterns_forward by (auto split: if_splits)
qed

text \<open>
  C12: A service can trust the header X-User-Id. A request that the gateway forwards either came for a public path, then
  it carries no X-User-Id and goes to one of seven paths of auth-svc or to the Stripe webhook; or it carried a bearer
  token that verifies with the secret, then the service reads the user of that token or, when the client named the
  header in Connection, no user at all. Whatever headers the client sends, in whatever spelling, none of them is read as X-User-Id.
\<close>

theorem gateway_vouches_for_user:
  assumes "newHandler jwt getenv secret r = GwForward addr r'" "rq_Header r = read_header wire"
  shows "((rq_Path r \<in> set publicPaths \<and> rq_Header r' ''X-User-Id'' = [] \<and> (addr, rq_Path r') \<in> set (public_targets getenv)) \<or>
     (\<exists>token userID. CutPrefix (header_Get ''Authorization'' (read_header wire)) ''Bearer '' = Some token \<and>
        jwt token secret [''HS256''] = Some userID \<and> userID \<noteq> [] \<and> rq_Header r' ''X-User-Id'' \<in> {[userID], []})) \<and>
    (\<forall>k. CanonicalHeaderKey k = ''X-User-Id'' \<and> rq_Header r' k \<noteq> [] \<longrightarrow> k = ''X-User-Id'')"
proof -
  let ?r = "r\<lparr>rq_Header := header_Del ''X-User-Id'' (rq_Header r)\<rparr>"
  let ?serve = "\<lambda>r. serve_mux (mux_patterns getenv r) r"
  have auth: "header_Get ''Authorization'' (rq_Header ?r) = header_Get ''Authorization'' (read_header wire)"
    by (simp add: header_Get_def header_Del_def assms(2))
  have spelled: "rq_Header r k = []" if "CanonicalHeaderKey k = ''X-User-Id''" "k \<noteq> ''X-User-Id''" for k
    using that CanonicalHeaderKey_idem by (fastforce simp: assms(2) read_header_def filter_empty_conv)
  consider (public) "rq_Path r \<in> set publicPaths" "?serve ?r = GwForward addr r'"
    | (token) token userID where "CutPrefix (header_Get ''Authorization'' (rq_Header ?r)) ''Bearer '' = Some token"
      "parseAccessToken jwt token secret = Some userID" "?serve (?r\<lparr>rq_Header := header_Set ''X-User-Id'' userID (rq_Header ?r)\<rparr>) = GwForward addr r'"
    using assms(1) by (auto simp: newHandler_def jwtMiddleware_def Let_def split: if_splits option.splits)
  then show ?thesis
  proof cases
    case public
    then have h: "rq_Header r' = proxy_header (header_Del ''X-User-Id'' (rq_Header r))" using mux_header by fastforce
    then have "rq_Header r' ''X-User-Id'' = []"
      using proxy_header_sub [of "header_Del ''X-User-Id'' (rq_Header r)" "''X-User-Id''"] by simp
    moreover have "(addr, rq_Path r') \<in> set (public_targets getenv)"
      using public_reach [of ?r getenv addr r'] public by simp
    moreover have "k = ''X-User-Id''" if "CanonicalHeaderKey k = ''X-User-Id''" "rq_Header r' k \<noteq> []" for k
      using that spelled [of k] proxy_header_sub [of "header_Del ''X-User-Id'' (rq_Header r)" k] header_Del_sub [of "''X-User-Id''" "rq_Header r" k]
      unfolding h by auto
    ultimately show ?thesis using public(1) by blast
  next
    case token
    let ?h = "header_Set ''X-User-Id'' userID (header_Del ''X-User-Id'' (rq_Header r))"
    have h: "rq_Header r' = proxy_header ?h" using mux_header [OF token(3)] by simp
    have v: "jwt token secret [''HS256''] = Some userID" "userID \<noteq> []"
      using token(2) by (auto simp: parseAccessToken_def split: option.splits if_splits)
    have "rq_Header r' ''X-User-Id'' \<in> {[userID], []}"
      using proxy_header_sub [of ?h "''X-User-Id''"] unfolding h by (auto simp: header_Set_def)
    moreover have "k = ''X-User-Id''" if "CanonicalHeaderKey k = ''X-User-Id''" "rq_Header r' k \<noteq> []" for k
      using that spelled [of k] proxy_header_sub [of ?h k] unfolding h
      by (auto simp: header_Set_def header_Del_def split: if_splits)
    ultimately show ?thesis using token(1) v unfolding auth by blast
  qed
qed

text \<open>A client that claims to be someone else, with and without a token of its own.\<close>

definition sample_jwt :: jwt_library where
  "sample_jwt token secret methods = (if token = ''tok-7'' \<and> secret = ''s'' then Some ''user-7'' else None)"

definition forged_wire :: "(string \<times> string) list" where
  "forged_wire = [(''x-USER-id'', ''user-1''), (''Authorization'', ''Bearer tok-7'')]"

definition forged_request :: http_request where
  "forged_request = \<lparr>rq_Method = ''GET'', rq_Path = ''/accounts/me'', rq_Header = read_header forged_wire, rq_Body = []\<rparr>"

theorem gateway_vouches_for_user_witness:
  "\<exists>addr r'. newHandler sample_jwt (\<lambda>_. []) ''s'' forged_request = GwForward addr r' \<and> rq_Header r' ''X-User-Id'' = [''user-7'']"
proof -
  have "case newHandler sample_jwt (\<lambda>_. []) ''s'' forged_request of GwForward addr r' \<Rightarrow> rq_Header r' ''X-User-Id'' \<noteq> [] | _ \<Rightarrow> False"
    by code_simp
  then obtain addr r' where f: "newHandler sample_jwt (\<lambda>_. []) ''s'' forged_request = GwForward addr r'" "rq_Header r' ''X-User-Id'' \<noteq> []"
    by (auto split: gateway_result.splits)
  have "rq_Header r' ''X-User-Id'' = [''user-7'']"
    using gateway_vouches_for_user [OF f(1), of forged_wire] f(2)
    by (auto simp: forged_request_def sample_jwt_def split: if_splits)
  with f show ?thesis by blast
qed

subsection \<open>The registry of connections\<close>

text \<open>
  A run of the WebSocket handler: connections arrive, each with a first message, and registered ones leave (a closed
  connection, a missed pong, a failed write, a shutdown). \<open>live\<close> are the connections between the two, with their users.
\<close>

inductive ws_run :: "jwt_library \<Rightarrow> string \<Rightarrow> int \<Rightarrow> wsRegistry \<Rightarrow> (nat \<times> string) set \<Rightarrow> nat set \<Rightarrow> bool"
  for jwt :: jwt_library and secret :: string and most :: int where
  start: "ws_run jwt secret most (\<lambda>_. None) {} {}"
| accepted: "ws_run jwt secret most reg' (insert (conn, userID) live) (insert conn seen)"
  if "ws_run jwt secret most reg live seen" "conn \<notin> seen" "handleWS_auth jwt secret most reg conn first = (reg', Inr userID)"
| refused: "ws_run jwt secret most reg' live (insert conn seen)"
  if "ws_run jwt secret most reg live seen" "conn \<notin> seen" "handleWS_auth jwt secret most reg conn first = (reg', Inl close)"
| leaves: "ws_run jwt secret most (registry_remove reg userID conn) (live - {(conn, userID)}) seen"
  if "ws_run jwt secret most reg live seen" "(conn, userID) \<in> live"

lemma conns_of_remove: "conns_of (registry_remove reg u c) v = (if v = u then conns_of reg u - {c} else conns_of reg v)"
  by (auto simp: registry_remove_def conns_of_def Let_def split: option.splits)

lemma handleWS_auth_Inr:
  assumes "handleWS_auth jwt secret most reg conn first = (reg', Inr u)"
  shows "reg' = reg(u \<mapsto> insert conn (conns_of reg u)) \<and> int (card (conns_of reg u)) < most \<and> (\<exists>token. jwt token secret [''HS256''] = Some u)"
  using assms by (auto simp: handleWS_auth_def registry_add_def parseAccessToken_def split: option.splits if_splits prod.splits bool.splits)

lemma handleWS_auth_Inl: "handleWS_auth jwt secret most reg conn first = (reg', Inl close) \<Longrightarrow> reg' = reg"
  by (auto simp: handleWS_auth_def registry_add_def split: option.splits if_splits prod.splits bool.splits)

definition registry_ok :: "jwt_library \<Rightarrow> string \<Rightarrow> int \<Rightarrow> wsRegistry \<Rightarrow> (nat \<times> string) set \<Rightarrow> bool" where
  "registry_ok jwt secret most reg live \<longleftrightarrow>
     (\<forall>u. conns_of reg u = {c. (c, u) \<in> live} \<and> reg u \<noteq> Some {} \<and> int (card (conns_of reg u)) \<le> max 0 most) \<and>
     (\<forall>(c, u) \<in> live. \<exists>token. jwt token secret [''HS256''] = Some u)"

lemma registry_okI:
  assumes "\<And>u. conns_of reg u = {c. (c, u) \<in> live}" "\<And>u. reg u \<noteq> Some {}" "\<And>u. int (card (conns_of reg u)) \<le> max 0 most"
    "\<And>c u. (c, u) \<in> live \<Longrightarrow> \<exists>token. jwt token secret [''HS256''] = Some u"
  shows "registry_ok jwt secret most reg live"
  using assms by (auto simp only: registry_ok_def)

lemma registry_okD:
  assumes "registry_ok jwt secret most reg live"
  shows "conns_of reg u = {c. (c, u) \<in> live}" "reg u \<noteq> Some {}" "int (card (conns_of reg u)) \<le> max 0 most"
    "(c, u) \<in> live \<Longrightarrow> \<exists>token. jwt token secret [''HS256''] = Some u"
  using assms unfolding registry_ok_def by blast+

lemma registry_finite: "registry_ok jwt secret most reg live \<Longrightarrow> finite live \<Longrightarrow> finite (conns_of reg u)"
  by (rule finite_subset [of _ "fst ` live"]) (force simp: registry_okD(1))+

lemma ws_run_ok: "ws_run jwt secret most reg live seen \<Longrightarrow> registry_ok jwt secret most reg live \<and> finite live \<and> fst ` live \<subseteq> seen"
proof (induction rule: ws_run.induct)
  case start
  show ?case by (simp add: registry_ok_def conns_of_def)
next
  case (accepted reg live seen conn first reg' userID)
  note a = handleWS_auth_Inr [OF accepted.hyps(3)] and ok = registry_okD [OF conjunct1 [OF accepted.IH]]
  have fin: "finite (conns_of reg userID)" using accepted.IH registry_finite by blast
  have c: "conns_of reg' u = (if u = userID then insert conn (conns_of reg u) else conns_of reg u)" for u
    using a by (simp add: conns_of_def)
  have "registry_ok jwt secret most reg' (insert (conn, userID) live)"
  proof (rule registry_okI)
    show "conns_of reg' u = {c. (c, u) \<in> insert (conn, userID) live}" for u
      unfolding c ok(1) by auto
    show "reg' u \<noteq> Some {}" for u using a ok(2) [of u] by auto
    show "int (card (conns_of reg' u)) \<le> max 0 most" for u
    proof (cases "u = userID")
      case True
      then have "card (conns_of reg' u) \<le> Suc (card (conns_of reg userID))"
        unfolding c using fin by (simp add: card_insert_if)
      then show ?thesis using a by linarith
    next
      case False
      then have "conns_of reg' u = conns_of reg u" unfolding c by (rule if_not_P)
      then show ?thesis using ok(3) [of u] by (simp only:)
    qed
    show "\<exists>token. jwt token secret [''HS256''] = Some u" if "(c, u) \<in> insert (conn, userID) live" for c u
      using that a ok(4) by blast
  qed
  then show ?case using accepted.IH by auto
next
  case (refused reg live seen conn first reg' close)
  from handleWS_auth_Inl [OF refused.hyps(3)] have "reg' = reg" .
  with refused.IH show ?case by (simp add: subset_insertI2)
next
  case (leaves reg live seen conn userID)
  let ?reg = "registry_remove reg userID conn"
  note ok = registry_okD [OF conjunct1 [OF leaves.IH]]
  have fin: "finite (conns_of reg u)" for u using leaves.IH registry_finite by blast
  have "registry_ok jwt secret most ?reg (live - {(conn, userID)})"
  proof (rule registry_okI)
    show "conns_of ?reg u = {c. (c, u) \<in> live - {(conn, userID)}}" for u
      unfolding conns_of_remove ok(1) by auto
    show "?reg u \<noteq> Some {}" for u using ok(2) [of u] by (simp add: registry_remove_def Let_def)
    show "int (card (conns_of ?reg u)) \<le> max 0 most" for u
    proof -
      have "card (conns_of ?reg u) \<le> card (conns_of reg u)"
        unfolding conns_of_remove using fin [of u] by (auto intro: card_mono)
      then show ?thesis using ok(3) [of u] by linarith
    qed
    show "\<exists>token. jwt token secret [''HS256''] = Some u" if "(c, u) \<in> live - {(conn, userID)}" for c u
      using that ok(4) by blast
  qed
  then show ?case using leaves.IH by auto
qed

text \<open>
  C27: The registry of WebSocket connections holds exactly the connections that are open and authenticated, each under the
  user of a token that verified, and at no time more than the configured number for one user; a user without connections
  has no entry left behind. Nothing is sent to a connection before it is authenticated, since messages go to registered ones only.
\<close>

theorem ws_registry_exact:
  assumes "ws_run jwt secret most reg live seen"
  shows "(\<forall>u. conns_of reg u = {c. (c, u) \<in> live} \<and> reg u \<noteq> Some {} \<and> int (card (conns_of reg u)) \<le> max 0 most) \<and>
    (\<forall>c u. (c, u) \<in> live \<longrightarrow> (\<exists>token. jwt token secret [''HS256''] = Some u)) \<and>
    (\<forall>u m c. (c, m) \<in> registry_send reg u (m :: ws_message) \<longrightarrow> (c, u) \<in> live)"
proof -
  note ok = registry_okD [OF conjunct1 [OF ws_run_ok [OF assms]]]
  show ?thesis
  proof (intro conjI allI impI)
    fix u m c
    assume "(c, m) \<in> registry_send reg u (m :: ws_message)"
    then have "c \<in> conns_of reg u" unfolding registry_send_def by blast
    then show "(c, u) \<in> live" unfolding ok(1) by simp
  qed (fact ok ok(4))+
qed

definition sample_auth :: "wsAuthMessage option" where
  "sample_auth = Some \<lparr>au_Type = ''auth'', au_Token = ''tok-7''\<rparr>"

lemma sample_ws_run: "ws_run sample_jwt ''s'' 1 [''user-7'' \<mapsto> {0}] {(0, ''user-7'')} {0, 1}"
proof -
  have p: "parseAccessToken sample_jwt ''tok-7'' ''s'' = Some ''user-7''" by code_simp
  have "handleWS_auth sample_jwt ''s'' 1 (\<lambda>_. None) 0 sample_auth = ([''user-7'' \<mapsto> {0}], Inr ''user-7'')"
    by (simp add: handleWS_auth_def sample_auth_def p registry_add_def conns_of_def)
  from ws_run.accepted [OF ws_run.start _ this] have 1: "ws_run sample_jwt ''s'' 1 [''user-7'' \<mapsto> {0}] {(0, ''user-7'')} {0}" by simp
  have "handleWS_auth sample_jwt ''s'' 1 [''user-7'' \<mapsto> {0}] 1 sample_auth =
      ([''user-7'' \<mapsto> {0}], Inl (wsCloseTooManyConns, ''too many connections for this user''))"
    by (simp add: handleWS_auth_def sample_auth_def p registry_add_def conns_of_def)
  from ws_run.refused [OF 1 _ this] show ?thesis by (simp add: insert_commute)
qed

theorem ws_registry_exact_witness: "conns_of [''user-7'' \<mapsto> {0}] ''user-7'' = {c. (c, ''user-7'') \<in> {(0 :: nat, ''user-7'')}}"
  using ws_registry_exact [OF sample_ws_run, THEN conjunct1, THEN spec, THEN conjunct1] .

subsection \<open>Who is to get which signal\<close>

definition transfer_due :: "(string \<rightharpoonup> string) \<Rightarrow> string \<Rightarrow> string \<Rightarrow> string \<Rightarrow> string \<Rightarrow> (string \<times> ws_message) set" where
  "transfer_due owner t tid sender recipient =
     {(u, m). (owner sender = Some u \<and> (m = TransferUpdated tid \<or> t = eventTypeTransferCompleted \<and> m = BalanceChanged)) \<or>
        (t = eventTypeTransferCompleted \<and> owner recipient = Some u \<and> (m = TransferUpdated tid \<or> m = BalanceChanged))}"

definition deposit_due :: "(string \<rightharpoonup> string) \<Rightarrow> string \<Rightarrow> string \<Rightarrow> (string \<times> ws_message) set" where
  "deposit_due owner did a = {(u, m). owner a = Some u \<and> (m = DepositUpdated did \<or> m = BalanceChanged)}"

definition signals_due :: "(string \<rightharpoonup> string) \<Rightarrow> notifier \<Rightarrow> kafka_message \<Rightarrow> (string \<times> ws_message) set" where
  "signals_due owner nf msg =
     (let v = km_Value msg; t = eventTypeOf msg in
      if t = eventTypeTransferCompleted then
        (case um_TransferCompleted nf v of Inl _ \<Rightarrow> {} | Inr e \<Rightarrow> transfer_due owner t (tc_TransferId e) (tc_SenderAccountId e) (tc_RecipientAccountId e))
      else if t = eventTypeTransferFailed then
        (case um_TransferFailed nf v of Inl _ \<Rightarrow> {} | Inr e \<Rightarrow> transfer_due owner t (tf_TransferId e) (tf_SenderAccountId e) (tf_RecipientAccountId e))
      else if t = eventTypeTransferRejected then
        (case um_TransferRejected nf v of Inl _ \<Rightarrow> {} | Inr e \<Rightarrow> transfer_due owner t (tr_TransferId e) (tr_SenderAccountId e) (tr_RecipientAccountId e))
      else if t = eventTypeDepositCredited then
        (case um_DepositCredited nf v of Inl _ \<Rightarrow> {} | Inr e \<Rightarrow> deposit_due owner (dc_DepositId e) (dc_AccountId e))
      else {})"

text \<open>A message of account.events that announces an account with its owner, or announces none.\<close>

definition announces :: "(string \<rightharpoonup> string) \<Rightarrow> notifier \<Rightarrow> kafka_message \<Rightarrow> bool" where
  "announces owner nf msg \<longleftrightarrow> (\<forall>ev. eventTypeOf msg = eventTypeAccountCreated \<and> um_AccountCreated nf (km_Value msg) = Inr ev \<longrightarrow>
     owner (ac_AccountId ev) = Some (ac_UserId ev))"

text \<open>The caches that the two consumers of a gateway can get to, with any times and failures.\<close>

inductive cache_run :: "(string \<Rightarrow> account_answer) set \<Rightarrow> (string \<rightharpoonup> string) \<Rightarrow> notifier \<Rightarrow> accountCache \<Rightarrow> bool"
  for answers :: "(string \<Rightarrow> account_answer) set" and owner :: "string \<rightharpoonup> string" and nf :: notifier where
  started: "cache_run answers owner nf \<lparr>ac_entries = (\<lambda>_. None), ac_ttl = ttl\<rparr>"
| account_event: "cache_run answers owner nf (consume_account_event nf t msg c)"
  if "cache_run answers owner nf c" "announces owner nf msg"
| transfer_event: "cache_run answers owner nf c'"
  if "cache_run answers owner nf c" "\<forall>i. asks i \<in> answers" "handleTransferMessage nf at asks msg c reg = (c', out)"

subsection \<open>The directory of accounts\<close>

text \<open>A cache that says of every account it knows who owns it.\<close>

definition truthful :: "(string \<rightharpoonup> string) \<Rightarrow> accountCache \<Rightarrow> bool" where
  "truthful owner c \<longleftrightarrow> (\<forall>a e. ac_entries c a = Some e \<longrightarrow> owner a = Some (ce_userID e))"

lemma empty_truthful: "truthful owner \<lparr>ac_entries = (\<lambda>_. None), ac_ttl = ttl\<rparr>"
  by (simp add: truthful_def)

text \<open>
  What the gateway needs of accounts-svc: an answer that it accepts names the owner. \<open>answers\<close> are the behaviours a
  request may meet, failures among them.
\<close>

locale account_directory =
  fixes answers :: "(string \<Rightarrow> account_answer) set" and owner :: "string \<rightharpoonup> string"
  assumes honest: "ask \<in> answers \<Longrightarrow> fetchFromAccountsSvc (ask a) = Some u \<Longrightarrow> owner a = Some u"
begin

lemma truthful_set: "truthful owner c \<Longrightarrow> owner a = Some u \<Longrightarrow> truthful owner (cache_set t a u c)"
  by (simp add: truthful_def cache_set_def)

lemma truthful_get: "truthful owner c \<Longrightarrow> cache_get t a c = Some u \<Longrightarrow> owner a = Some u"
  by (auto simp: truthful_def cache_get_def split: option.splits if_splits)

lemma resolve_sound:
  assumes "truthful owner c" "ask \<in> answers" "cache_resolve t ask a c = (c', r)"
  shows "truthful owner c'" "r = Some u \<Longrightarrow> owner a = Some u" "(\<And>u. owner a = Some u \<Longrightarrow> fetchFromAccountsSvc (ask a) = Some u) \<Longrightarrow> r = owner a"
proof -
  consider (hit) u where "cache_get t a c = Some u" "c' = c" "r = Some u"
    | (unknown) "fetchFromAccountsSvc (ask a) = None" "c' = c" "r = None"
    | (fetched) u where "fetchFromAccountsSvc (ask a) = Some u" "c' = cache_set t a u c" "r = Some u"
    using assms(3) by (auto simp: cache_resolve_def split: option.splits)
  note cs = this
  show "truthful owner c'" using cs by cases (use assms truthful_set honest in auto)
  show "r = Some u \<Longrightarrow> owner a = Some u" using cs by cases (use assms truthful_get honest in auto)
  show "(\<And>u. owner a = Some u \<Longrightarrow> fetchFromAccountsSvc (ask a) = Some u) \<Longrightarrow> r = owner a"
    using cs
  proof cases
    case unknown
    assume "\<And>u. owner a = Some u \<Longrightarrow> fetchFromAccountsSvc (ask a) = Some u"
    with unknown show ?thesis by (cases "owner a") auto
  qed (use assms truthful_get honest in auto)
qed

lemma signals_transfer_sound:
  assumes "truthful owner c" "\<And>i. asks i \<in> answers"
    "signalsForTransferEvent t tid s r (\<lambda>i. cache_resolve (at i) (asks i)) c = (c', out)"
  shows "truthful owner c' \<and> set out \<subseteq> transfer_due owner t tid s r \<and>
    ((\<forall>i a u. owner a = Some u \<longrightarrow> fetchFromAccountsSvc (asks i a) = Some u) \<longrightarrow> set out = transfer_due owner t tid s r)"
proof -
  obtain c1 su where s: "cache_resolve (at 0) (asks 0) s c = (c1, su)" by fastforce
  obtain c2 ru where r: "cache_resolve (at 1) (asks 1) r c1 = (c2, ru)" by fastforce
  note s' = resolve_sound [OF assms(1,2) s] note r' = resolve_sound [OF s'(1) assms(2) r]
  have c': "c' = (if t = eventTypeTransferCompleted then c2 else c1)"
    and out: "out = (case su of None \<Rightarrow> [] | Some u \<Rightarrow> (if t = eventTypeTransferCompleted then [(u, BalanceChanged)] else []) @ [(u, TransferUpdated tid)])
      @ (if t = eventTypeTransferCompleted then case ru of None \<Rightarrow> [] | Some u \<Rightarrow> [(u, BalanceChanged), (u, TransferUpdated tid)] else [])"
    using assms(3) s r by (simp_all add: signalsForTransferEvent_def Let_def split: if_splits del: One_nat_def)
  have "truthful owner c'" using c' s'(1) r'(1) by simp
  moreover have "set out \<subseteq> transfer_due owner t tid s r"
    by (cases su; cases ru; cases "t = eventTypeTransferCompleted") (simp_all add: out transfer_due_def s'(2) r'(2))
  moreover have "set out = transfer_due owner t tid s r"
    if "\<forall>i a u. owner a = Some u \<longrightarrow> fetchFromAccountsSvc (asks i a) = Some u"
  proof -
    have "su = owner s" "ru = owner r" using that s'(3) r'(3) by auto
    then show ?thesis
      by (cases "owner s"; cases "owner r"; cases "t = eventTypeTransferCompleted") (auto simp: out transfer_due_def)
  qed
  ultimately show ?thesis by blast
qed

lemma signals_deposit_sound:
  assumes "truthful owner c" "\<And>i. asks i \<in> answers"
    "signalsForDepositEvent did a (\<lambda>i. cache_resolve (at i) (asks i)) c = (c', out)"
  shows "truthful owner c' \<and> set out \<subseteq> deposit_due owner did a \<and>
    ((\<forall>i a u. owner a = Some u \<longrightarrow> fetchFromAccountsSvc (asks i a) = Some u) \<longrightarrow> set out = deposit_due owner did a)"
proof -
  obtain c1 su where s: "cache_resolve (at 0) (asks 0) a c = (c1, su)" by fastforce
  note s' = resolve_sound [OF assms(1,2) s]
  have c': "c' = c1" and out: "out = (case su of None \<Rightarrow> [] | Some u \<Rightarrow> [(u, BalanceChanged), (u, DepositUpdated did)])"
    using assms(3) s by (auto simp: signalsForDepositEvent_def)
  have "set out \<subseteq> deposit_due owner did a"
    using s'(2) unfolding out deposit_due_def by (auto split: option.splits)
  moreover have "set out = deposit_due owner did a"
    if "\<forall>i a u. owner a = Some u \<longrightarrow> fetchFromAccountsSvc (asks i a) = Some u"
  proof -
    have "su = owner a" using that s'(3) by auto
    then show ?thesis unfolding out deposit_due_def by (auto split: option.splits)
  qed
  ultimately show ?thesis using s'(1) c' by blast
qed

lemma signals_sound:
  assumes "truthful owner c" "\<And>i. asks i \<in> answers"
    "transfer_signals nf msg (\<lambda>i. cache_resolve (at i) (asks i)) c = (c', out)"
  shows "truthful owner c' \<and> set out \<subseteq> signals_due owner nf msg \<and>
    ((\<forall>i a u. owner a = Some u \<longrightarrow> fetchFromAccountsSvc (asks i a) = Some u) \<longrightarrow> set out = signals_due owner nf msg)"
proof -
  note ev = eventTypeTransferCompleted_def eventTypeTransferFailed_def eventTypeTransferRejected_def eventTypeDepositCredited_def
  consider (completed) "eventTypeOf msg = eventTypeTransferCompleted" | (failed) "eventTypeOf msg = eventTypeTransferFailed"
    | (rejected) "eventTypeOf msg = eventTypeTransferRejected" | (deposit) "eventTypeOf msg = eventTypeDepositCredited"
    | (other) "eventTypeOf msg \<notin> {eventTypeTransferCompleted, eventTypeTransferFailed, eventTypeTransferRejected, eventTypeDepositCredited}"
    by blast
  then show ?thesis
  proof cases
    case completed
    with assms show ?thesis
      by (cases "um_TransferCompleted nf (km_Value msg)") (auto simp: transfer_signals_def signals_due_def dest: signals_transfer_sound)
  next
    case failed
    then have "eventTypeOf msg \<noteq> eventTypeTransferCompleted" by (simp add: ev)
    with failed assms show ?thesis
      by (cases "um_TransferFailed nf (km_Value msg)") (auto simp: transfer_signals_def signals_due_def dest: signals_transfer_sound)
  next
    case rejected
    then have "eventTypeOf msg \<noteq> eventTypeTransferCompleted" "eventTypeOf msg \<noteq> eventTypeTransferFailed" by (simp_all add: ev)
    with rejected assms show ?thesis
      by (cases "um_TransferRejected nf (km_Value msg)") (auto simp: transfer_signals_def signals_due_def dest: signals_transfer_sound)
  next
    case deposit
    then have "eventTypeOf msg \<noteq> eventTypeTransferCompleted" "eventTypeOf msg \<noteq> eventTypeTransferFailed" "eventTypeOf msg \<noteq> eventTypeTransferRejected"
      by (simp_all add: ev)
    with deposit assms show ?thesis
      by (cases "um_DepositCredited nf (km_Value msg)") (auto simp: transfer_signals_def signals_due_def dest: signals_deposit_sound)
  next
    case other
    with assms show ?thesis by (auto simp: transfer_signals_def signals_due_def)
  qed
qed

lemma cache_run_truthful: "cache_run answers owner nf c \<Longrightarrow> truthful owner c"
proof (induction rule: cache_run.induct)
  case (started ttl)
  show ?case by (rule empty_truthful)
next
  case (account_event c msg t)
  then show ?case
    by (auto simp: consume_account_event_def announces_def split: sum.splits intro: truthful_set)
next
  case (transfer_event c asks at msg reg c' out)
  obtain d signals where s: "transfer_signals nf msg (\<lambda>i. cache_resolve (at i) (asks i)) c = (d, signals)" by fastforce
  with transfer_event show ?case using signals_sound [OF _ _ s] by (auto simp: handleTransferMessage_def)
qed

lemma deliveries_sound:
  assumes "cache_run answers owner nf c" "\<And>i. asks i \<in> answers" "handleTransferMessage nf at asks msg c reg = (c', out)"
  shows "out \<subseteq> {(conn, m). \<exists>u. conn \<in> conns_of reg u \<and> (u, m) \<in> signals_due owner nf msg} \<and>
    ((\<forall>i a u. owner a = Some u \<longrightarrow> fetchFromAccountsSvc (asks i a) = Some u) \<longrightarrow>
     out = {(conn, m). \<exists>u. conn \<in> conns_of reg u \<and> (u, m) \<in> signals_due owner nf msg})"
proof -
  obtain d signals where s: "transfer_signals nf msg (\<lambda>i. cache_resolve (at i) (asks i)) c = (d, signals)" by fastforce
  have out: "out = {(conn, m). \<exists>u. conn \<in> conns_of reg u \<and> (u, m) \<in> set signals}"
    using assms(3) s by (auto simp: handleTransferMessage_def registry_send_def)
  from signals_sound [OF cache_run_truthful [OF assms(1)] assms(2) s] show ?thesis unfolding out by blast
qed

end

text \<open>The answer of accounts-svc to the request for an account; the body of an error has no \<open>user_id\<close>.\<close>

definition account_reply :: "accounts_body http_response \<Rightarrow> nat \<times> string option" where
  "account_reply r = (http_status r, case http_body r of JAccount acc \<Rightarrow> Some (acc_UserID acc) | _ \<Rightarrow> Some [])"

definition svc_owner :: "runtime \<Rightarrow> accounts_db \<Rightarrow> string \<rightharpoonup> string" where
  "svc_owner rt db a = (case uuid_in rt a of None \<Rightarrow> None | Some u \<Rightarrow> account_owner db u)"

text \<open>A request fails, or it is answered from the tables as they are now or were before.\<close>

definition svc_answers :: "runtime \<Rightarrow> string \<Rightarrow> accounts_db \<Rightarrow> (string \<Rightarrow> account_answer) set" where
  "svc_answers rt bc db = {ask. \<forall>a. ask a = None \<or>
     (\<exists>db0 e. accounts_run rt bc db0 db \<and> ask a = Some (account_reply (getAccountHandler rt e db0 a)))}"

lemma fetch_reply:
  assumes "fetchFromAccountsSvc (Some (account_reply (getAccountHandler rt e db a))) = Some u"
  shows "svc_owner rt db a = Some u"
  using assms
  by (auto simp: fetchFromAccountsSvc_def account_reply_def getAccountHandler_def getAccountByID_def scan_account_def svc_owner_def
      account_owner_find writeJSONError_def split: option.splits sum.splits if_splits)

lemma svc_owner_kept: "accounts_run rt bc db0 db \<Longrightarrow> svc_owner rt db0 a = Some u \<Longrightarrow> svc_owner rt db a = Some u"
  using accounts_run_owner [of rt bc db0 db] by (auto simp: svc_owner_def map_le_def dom_def split: option.splits)

lemma svc_answer_cases:
  assumes "ask \<in> svc_answers rt bc db" "ask a \<noteq> None"
  obtains db0 e where "accounts_run rt bc db0 db" "ask a = Some (account_reply (getAccountHandler rt e db0 a))"
proof -
  have "ask a = None \<or> (\<exists>db0 e. accounts_run rt bc db0 db \<and> ask a = Some (account_reply (getAccountHandler rt e db0 a)))"
    using assms(1) unfolding svc_answers_def mem_Collect_eq by (rule spec)
  then show thesis
  proof
    assume "\<exists>db0 e. accounts_run rt bc db0 db \<and> ask a = Some (account_reply (getAccountHandler rt e db0 a))"
    then show thesis by (elim exE conjE) (rule that)
  qed (use assms(2) in simp)
qed

interpretation svc: account_directory "svc_answers rt bc db" "svc_owner rt db"
proof
  fix ask a u
  assume ask: "ask \<in> svc_answers rt bc db" and u: "fetchFromAccountsSvc (ask a) = Some u"
  then have "ask a \<noteq> None" by (auto simp: fetchFromAccountsSvc_def split: option.splits)
  with ask obtain db0 e where "accounts_run rt bc db0 db" "ask a = Some (account_reply (getAccountHandler rt e db0 a))"
    by (rule svc_answer_cases)
  with u show "svc_owner rt db a = Some u" using fetch_reply svc_owner_kept by metis
qed

text \<open>
  C26: Signals reach the owners of the money only. Whatever events the gateway has consumed and however its calls to
  accounts-svc and the clock behaved, a message of transfer.events is pushed only to open, authenticated connections of the
  user who owns the sender's account; the recipient's owner gets a push only when the transfer is completed, and the
  balance signal is sent only then or for a deposit. When accounts-svc answers for the accounts it has, every connection
  of these owners gets its signals.
\<close>

theorem signals_reach_owners:
  assumes "cache_run (svc_answers rt bc db) (svc_owner rt db) nf c" "\<forall>i. asks i \<in> svc_answers rt bc db"
    "ws_run jwt secret most reg live seen" "handleTransferMessage nf at asks msg c reg = (c', out)"
  shows "out \<subseteq> {(conn, m). \<exists>u. (conn, u) \<in> live \<and> (u, m) \<in> signals_due (svc_owner rt db) nf msg} \<and>
    ((\<forall>i a u. svc_owner rt db a = Some u \<longrightarrow> fetchFromAccountsSvc (asks i a) = Some u) \<longrightarrow>
     out = {(conn, m). \<exists>u. (conn, u) \<in> live \<and> (u, m) \<in> signals_due (svc_owner rt db) nf msg})"
proof -
  have conns: "conn \<in> conns_of reg u \<longleftrightarrow> (conn, u) \<in> live" for conn u
    using registry_okD(1) [OF conjunct1 [OF ws_run_ok [OF assms(3)]]] by simp
  from assms(2) have "asks i \<in> svc_answers rt bc db" for i by blast
  from svc.deliveries_sound [OF assms(1) this assms(4)] show ?thesis unfolding conns .
qed

text \<open>A transfer that failed: the sender's owner hears of it, without a balance signal, and the recipient's does not.\<close>

definition failed_transfer :: TransferFailed where
  "failed_transfer = \<lparr>tf_EventId = ''e1'', tf_TransferId = ''t1'', tf_SenderAccountId = ''a1'', tf_RecipientAccountId = ''a2'', tf_Amount = 100,
     tf_Reason = ''insufficient_funds'', tf_OccurredAt = None\<rparr>"

definition gateway_codec :: notifier where
  "gateway_codec = \<lparr>nf_rt = plain_runtime, nf_smtpFrom = [],
     um_UserActivated = (\<lambda>v. Inl (errors_New v)), um_ProfileUpdated = (\<lambda>v. Inl (errors_New v)), um_AccountCreated = (\<lambda>v. Inl (errors_New v)),
     um_TransferCompleted = (\<lambda>v. Inl (errors_New v)), um_TransferFailed = (\<lambda>v. Inr failed_transfer),
     um_TransferRejected = (\<lambda>v. Inl (errors_New v)), um_DepositCredited = (\<lambda>v. Inl (errors_New v)), unicode_quote = (\<lambda>v. v)\<rparr>"

definition two_owners :: accounts_db where
  "two_owners = migrated_accounts\<lparr>accounts := map (\<lambda>(i, u). \<lparr>acc_ID = i, acc_UserID = u, acc_AccountNumber = i, acc_IBAN = Some i, acc_Status = ''active'',
     acc_CreatedAt = 0, acc_UpdatedAt = 0\<rparr>) [(''a1'', ''user-7''), (''a2'', ''user-8'')]\<rparr>"

definition two_owners_answer :: "string \<Rightarrow> account_answer" where
  "two_owners_answer a = Some (account_reply (getAccountHandler plain_runtime (sample_env 1) two_owners a))"

definition failed_message :: kafka_message where
  "failed_message = \<lparr>km_Key = [], km_Value = [], km_Headers = [(''event_type'', ''TransferFailed'')], km_Partition = 0, km_Offset = 0\<rparr>"

abbreviation empty_cache :: accountCache where "empty_cache \<equiv> \<lparr>ac_entries = (\<lambda>_. None), ac_ttl = 60\<rparr>"

lemma two_owners_answers: "two_owners_answer \<in> svc_answers plain_runtime ''NEOB'' two_owners"
  unfolding svc_answers_def two_owners_answer_def by blast

lemma two_owners_fetch: "svc_owner plain_runtime two_owners a = Some u \<Longrightarrow> fetchFromAccountsSvc (two_owners_answer a) = Some u"
  by (auto simp: svc_owner_def account_owner_def two_owners_def two_owners_answer_def account_reply_def getAccountHandler_def getAccountByID_def
      scan_account_def fetchFromAccountsSvc_def sample_env_def fails_def split: if_splits)

theorem signals_reach_owners_witness:
  "snd (handleTransferMessage gateway_codec (\<lambda>_. 0) (\<lambda>_. two_owners_answer) failed_message empty_cache [''user-7'' \<mapsto> {0}]) = {(0, TransferUpdated ''t1'')}"
proof -
  have due: "signals_due (svc_owner plain_runtime two_owners) gateway_codec failed_message = {(''user-7'', TransferUpdated ''t1'')}"
    by (auto simp: signals_due_def failed_message_def eventTypeOf_def eventTypeHeader_def eventTypeTransferCompleted_def eventTypeTransferFailed_def
        gateway_codec_def failed_transfer_def transfer_due_def svc_owner_def account_owner_def two_owners_def)
  obtain c' out where r: "handleTransferMessage gateway_codec (\<lambda>_. 0) (\<lambda>_. two_owners_answer) failed_message empty_cache [''user-7'' \<mapsto> {0}] = (c', out)"
    by fastforce
  have "out = {(conn, m). \<exists>u. (conn, u) \<in> {(0, ''user-7'')} \<and> (u, m) \<in> signals_due (svc_owner plain_runtime two_owners) gateway_codec failed_message}"
    using signals_reach_owners [OF cache_run.started _ sample_ws_run r] two_owners_answers two_owners_fetch by blast
  then show ?thesis unfolding r due by auto
qed

subsection \<open>Who may close an account\<close>

lemma clean_status_path:
  assumes "CHR ''/'' \<notin> set i" "i \<notin> {[], ''.'', ''..''}"
  shows "cleanPath (''/accounts/'' @ i @ ''/status'') = ''/accounts/'' @ i @ ''/status''"
proof -
  have "split_at CHR ''/'' (''/accounts/'' @ i @ ''/status'') = [[], ''accounts'', i, ''status'']"
    using split_at_sep [of "CHR ''/''" i "''status''"] assms(1) by simp
  moreover have "(''/accounts/'' @ i @ ''/status'') ! (length (''/accounts/'' @ i @ ''/status'') - 1) = CHR ''s''"
    by (simp add: nth_append)
  ultimately show ?thesis using assms(2) unfolding cleanPath_def by (simp add: Let_def)
qed

lemma status_path_forwarded:
  assumes "CHR ''/'' \<notin> set i" "i \<notin> {[], ''.'', ''..''}" "rq_Path r = ''/accounts/'' @ i @ ''/status''" "rq_Method r = ''PATCH''"
  shows "serve_mux (mux_patterns getenv r) r = reverse_proxy (envOr getenv ''ACCOUNTS_SVC_ADDR'' ''accounts-svc:8082'') (r\<lparr>rq_Path := ''/'' @ i @ ''/status''\<rparr>)"
proof -
  have m: "mux_match (mux_patterns getenv r) (''/accounts/'' @ i @ ''/status'') =
      Some (''/accounts/'', newProxy ''/accounts'' (envOr getenv ''ACCOUNTS_SVC_ADDR'' ''accounts-svc:8082''))"
    using assms(4) by (simp add: mux_match_def gateway_patterns_def routes_def Let_def pattern_matches_def is_subtree_def longer_def)
  have s: "\<not> is_subtree (''/accounts/'' @ i @ ''/status'')" by (simp add: is_subtree_def nth_append)
  have n: "(''/accounts/'' @ i @ ''/status'') @ ''/'' \<notin> set (map fst (mux_patterns getenv r))"
    using assms(4) by (simp add: gateway_patterns_def routes_def Let_def)
  show ?thesis
    using n s unfolding serve_mux_def assms(3) clean_status_path [OF assms(1,2)] Let_def m
    by (simp add: newProxy_def CutPrefix_def assms(3))
qed

text \<open>
  C40: Any user can close any account. A PATCH of /accounts/{id}/status with the bearer token of whatever user is forwarded
  to accounts-svc, whose handler does not look at the user: it closes the account with that id and answers 200. (The
  OpenAPI document calls the path internal; the gateway routes it like the others, and closed is final.)
\<close>

theorem any_user_closes_account:
  assumes "jwt token secret [''HS256''] = Some userID" "userID \<noteq> []" "token \<noteq> []"
    and "distinct (map acc_ID (accounts db))" "a \<in> set (accounts db)" "uuid_in rt (acc_ID a) = Some (acc_ID a)"
    and "acc_Status a \<noteq> ''closed''" "acc_IBAN a \<noteq> None" "\<forall>k. \<not> fails e k" "CHR ''/'' \<notin> set (acc_ID a)" "acc_ID a \<notin> {[], ''.'', ''..''}"
  shows "\<exists>r' db' resp. newHandler jwt getenv secret
        \<lparr>rq_Method = ''PATCH'', rq_Path = ''/accounts/'' @ acc_ID a @ ''/status'', rq_Header = read_header [(''Authorization'', ''Bearer '' @ token)], rq_Body = body\<rparr> =
        GwForward (envOr getenv ''ACCOUNTS_SVC_ADDR'' ''accounts-svc:8082'') r' \<and>
      rq_Method r' = ''PATCH'' \<and> rq_Path r' = ''/'' @ acc_ID a @ ''/status'' \<and> rq_Body r' = body \<and>
      updateAccountStatusHandler rt e db (acc_ID a) (Some ''closed'') = (db', resp) \<and> http_status resp = 200 \<and>
      (\<exists>a'\<in>set (accounts db'). acc_ID a' = acc_ID a \<and> acc_UserID a' = acc_UserID a \<and> acc_Status a' = ''closed'')"
proof -
  let ?p = "''/accounts/'' @ acc_ID a @ ''/status''"
  let ?r = "\<lparr>rq_Method = ''PATCH'', rq_Path = ?p, rq_Header = read_header [(''Authorization'', ''Bearer '' @ token)], rq_Body = body\<rparr>"
  have gated: "?p \<notin> set publicPaths" by (simp add: publicPaths_def)
  have auth: "header_Get ''Authorization'' (header_Del ''X-User-Id'' (rq_Header ?r)) = ''Bearer '' @ token"
    by (simp add: header_Get_def header_Del_def read_header_def)
  have user: "parseAccessToken jwt token secret = Some userID" using assms(1,2) by (simp add: parseAccessToken_def)
  have cut: "CutPrefix (''Bearer '' @ token) ''Bearer '' = Some token" by (simp add: CutPrefix_def)
  let ?r1 = "?r\<lparr>rq_Header := header_Set ''X-User-Id'' userID (header_Del ''X-User-Id'' (rq_Header ?r))\<rparr>"
  have "newHandler jwt getenv secret ?r = serve_mux (mux_patterns getenv ?r1) ?r1"
    using gated auth user cut assms(3) by (simp add: newHandler_def jwtMiddleware_def Let_def)
  also have "\<dots> = reverse_proxy (envOr getenv ''ACCOUNTS_SVC_ADDR'' ''accounts-svc:8082'') (?r1\<lparr>rq_Path := ''/'' @ acc_ID a @ ''/status''\<rparr>)"
    by (rule status_path_forwarded [OF assms(10,11)]) simp_all
  finally have f: "newHandler jwt getenv secret ?r = \<dots>" .
  have "find (\<lambda>x. acc_ID x = acc_ID a) (accounts db) = Some a"
    using assms(4,5) by (auto intro: find_unique)
  then have u: "updateAccountStatusHandler rt e db (acc_ID a) (Some ''closed'') =
      (db\<lparr>accounts := update_where (\<lambda>x. acc_ID x = acc_ID a) (set_account_status e ''closed'') (accounts db)\<rparr>,
       \<lparr>http_status = 200, http_body = JAccount (set_account_status e ''closed'' a)\<rparr>)"
    using assms(6-9) by (auto simp: updateAccountStatusHandler_def updateAccountStatus_def validAccountStatuses_def persist_NoFault)
  have "\<exists>a'\<in>set (update_where (\<lambda>x. acc_ID x = acc_ID a) (set_account_status e ''closed'') (accounts db)).
      acc_ID a' = acc_ID a \<and> acc_UserID a' = acc_UserID a \<and> acc_Status a' = ''closed''"
    using assms(5) by (intro bexI [of _ "set_account_status e ''closed'' a"]) (auto simp: in_set_update_where set_account_status_def)
  then show ?thesis unfolding f u reverse_proxy_def by simp
qed

theorem any_user_closes_account_witness:
  "\<exists>r' db' resp. newHandler sample_jwt (\<lambda>_. []) ''s''
        \<lparr>rq_Method = ''PATCH'', rq_Path = ''/accounts/a2/status'', rq_Header = read_header [(''Authorization'', ''Bearer tok-7'')], rq_Body = []\<rparr> =
        GwForward ''accounts-svc:8082'' r' \<and> rq_Path r' = ''/a2/status'' \<and>
      updateAccountStatusHandler plain_runtime (sample_env 1) two_owners ''a2'' (Some ''closed'') = (db', resp) \<and>
      (\<exists>a'\<in>set (accounts db'). acc_UserID a' = ''user-8'' \<and> acc_Status a' = ''closed'')"
proof -
  let ?a = "\<lparr>acc_ID = ''a2'', acc_UserID = ''user-8'', acc_AccountNumber = ''a2'', acc_IBAN = Some ''a2'', acc_Status = ''active'', acc_CreatedAt = 0, acc_UpdatedAt = 0\<rparr>"
  have "sample_jwt ''tok-7'' ''s'' [''HS256''] = Some ''user-7''" "?a \<in> set (accounts two_owners)" "distinct (map acc_ID (accounts two_owners))"
    "\<forall>k. \<not> fails (sample_env 1) k"
    by (simp_all add: sample_jwt_def two_owners_def sample_env_def fails_def)
  then show ?thesis
    using any_user_closes_account [where a = ?a and jwt = sample_jwt and token = "''tok-7''" and secret = "''s''" and userID = "''user-7''"
        and db = two_owners and e = "sample_env 1" and rt = plain_runtime and getenv = "\<lambda>_. []" and body = "[]"]
    by (auto simp: envOr_def)
qed

end
