(* ===== verification/Auth.thy ===== *)
theory Auth
  imports Outbox Cursor Emails
begin

text \<open>
  services/auth-svc: registration (register.go), verification of the address (verify.go), login, refresh and logout
  (login.go) and the reset of a password (reset.go). The profile is in \<open>Auth_Profile\<close>.

  A transaction runs alone from its begin to its commit; failures of statements and commits come from the
  environment as everywhere. Redis is a map with expiry times, read at the clock of the call. Argon2, SHA-256,
  the signature of a JWT and \<open>mail.ParseAddress\<close> are parameters.
\<close>

subsection \<open>Libraries and configuration\<close>

record accessTokenClaims =
  cl_UserID :: string
  cl_Email :: string
  cl_IssuedAt :: int
  cl_ExpiresAt :: int

record auth_lib =
  lb_runtime :: runtime
  mail_ParseAddress :: "string \<Rightarrow> bool"
  sha256_Sum256 :: "string \<Rightarrow> byte list"
  argon2_IDKey :: "string \<Rightarrow> char list \<Rightarrow> nat \<Rightarrow> nat \<Rightarrow> nat \<Rightarrow> nat \<Rightarrow> char list"   \<comment> \<open>password, salt, time, memory, threads, length\<close>
  jwt_SignedString :: "string \<Rightarrow> accessTokenClaims \<Rightarrow> string option"

record auth_svc =
  sv_lib :: auth_lib
  sv_smtpFrom :: string
  sv_jwtSecret :: string
  sv_dummyPasswordHash :: string

text \<open>What a request meets: the environment of its statements, the draw of \<open>crand.Int\<close> and the mail server.\<close>

record auth_env =
  ae_env :: env
  ae_draw :: "int option"
  ae_smtp :: smtp_answer

subsection \<open>Tables\<close>

record user =
  us_id :: string
  us_email :: string
  us_password_hash :: string
  us_status :: string
  us_created_at :: int
  us_updated_at :: int
  us_display_name :: "string option"
  us_avatar_key :: "string option"
  us_avatar_updated_at :: "int option"

record verification_code =
  vc_id :: string
  vc_user_id :: string
  vc_purpose :: string
  vc_code_hash :: string
  vc_expires_at :: int
  vc_attempts_remaining :: int
  vc_used_at :: "int option"
  vc_created_at :: int

datatype user_event =
    UserActivatedEvent (ue_UserId: string) (ue_Email: string) (ue_OccurredAt: int) (ue_EventId: string)
  | ProfileUpdatedEvent (ue_UserId: string) (ue_DisplayName: string) (ue_OccurredAt: int) (ue_EventId: string)

record upload_attempt =
  ut_user_id :: string
  ut_attempted_at :: int

record auth_db =
  users :: "user list"
  verification_codes :: "verification_code list"
  auth_outbox :: "user_event outbox_table"
  avatar_upload_attempts :: "upload_attempt list"

definition migrated_auth :: auth_db where
  "migrated_auth = \<lparr>users = [], verification_codes = [], auth_outbox = empty_outbox, avatar_upload_attempts = []\<rparr>"

datatype auth_error = AuthStatement | AuthRandom | AuthHashFormat | AuthRedis | AuthSign | AuthPanic

text \<open>A parameter with a NUL byte makes the statement fail.\<close>

definition pg_text :: "string \<Rightarrow> bool" where
  "pg_text s \<longleftrightarrow> CHR 0x00 \<notin> set s"

subsection \<open>Redis\<close>

datatype redis_value = RString string | RSet "string set"

type_synonym redis = "string \<rightharpoonup> redis_value \<times> int"

definition redis_get :: "int \<Rightarrow> string \<Rightarrow> redis \<Rightarrow> redis_value option" where
  "redis_get t k rd = (case rd k of None \<Rightarrow> None | Some (v, expires) \<Rightarrow> if t < expires then Some v else None)"

definition redis_SetNX :: "int \<Rightarrow> string \<Rightarrow> string \<Rightarrow> int \<Rightarrow> redis \<Rightarrow> redis \<times> (auth_error + bool)" where
  "redis_SetNX t k v ttl rd =
     (if redis_get t k rd = None then (rd(k \<mapsto> (RString v, t + ttl)), Inr True) else (rd, Inr False))"

text \<open>\<open>redis.Nil\<close> is the value \<open>None\<close>.\<close>

definition redis_GetDel :: "int \<Rightarrow> string \<Rightarrow> redis \<Rightarrow> redis \<times> (auth_error + string option)" where
  "redis_GetDel t k rd =
     (case redis_get t k rd of
        None \<Rightarrow> (rd, Inr None)
      | Some (RString v) \<Rightarrow> (rd(k := None), Inr (Some v))
      | Some (RSet _) \<Rightarrow> (rd, Inl AuthRedis))"

definition redis_SRem :: "int \<Rightarrow> string \<Rightarrow> string \<Rightarrow> redis \<Rightarrow> redis \<times> (auth_error + unit)" where
  "redis_SRem t k m rd =
     (case rd k of
        Some (RSet S, expires) \<Rightarrow>
          (if t < expires then (if S - {m} = {} then rd(k := None) else rd(k \<mapsto> (RSet (S - {m}), expires))) else rd, Inr ())
      | Some (RString _, expires) \<Rightarrow> (rd, if t < expires then Inl AuthRedis else Inr ())
      | None \<Rightarrow> (rd, Inr ()))"

definition redis_SMembers :: "int \<Rightarrow> string \<Rightarrow> redis \<Rightarrow> auth_error + string set" where
  "redis_SMembers t k rd =
     (case redis_get t k rd of None \<Rightarrow> Inr {} | Some (RSet S) \<Rightarrow> Inr S | Some (RString _) \<Rightarrow> Inl AuthRedis)"

definition redis_Del :: "string set \<Rightarrow> redis \<Rightarrow> redis" where
  "redis_Del ks rd = (\<lambda>k. if k \<in> ks then None else rd k)"

text \<open>A command at site \<open>i\<close>: it may not reach the server, or its answer may be lost.\<close>

definition redis_do :: "env \<Rightarrow> nat \<Rightarrow> (redis \<Rightarrow> redis \<times> (auth_error + 'r)) \<Rightarrow> redis \<Rightarrow> redis \<times> (auth_error + 'r)" where
  "redis_do e i f rd =
     (case fault_at e i of
        NoFault \<Rightarrow> f rd
      | Lost \<Rightarrow> (rd, Inl AuthRedis)
      | AppliedLost \<Rightarrow> (fst (f rd), Inl AuthRedis))"

subsection \<open>Answers\<close>

record tokenPairResponse =
  tp_AccessToken :: string
  tp_RefreshToken :: string

record Profile =
  pf_UserID :: string
  pf_DisplayName :: "string option"
  pf_AvatarKey :: "string option"
  pf_AvatarUpdatedAt :: "int option"
  pf_AvatarURL64 :: "string option"
  pf_AvatarURL256 :: "string option"

datatype auth_body = AuthError string | AuthStatus string | AuthMessage string | AuthWrongCode string int
  | AuthTokens tokenPairResponse | AuthProfile Profile | AuthUpload string string

definition json_error :: "nat \<Rightarrow> string \<Rightarrow> auth_body http_response" where
  "json_error status message = \<lparr>http_status = status, http_body = AuthError message\<rparr>"

definition json_ok :: "nat \<Rightarrow> auth_body \<Rightarrow> auth_body http_response" where
  "json_ok status body = \<lparr>http_status = status, http_body = body\<rparr>"

subsection \<open>Passwords and codes\<close>

text \<open>\<open>base64.RawStdEncoding\<close>: as the URL alphabet, with plus and slash for the last two values.\<close>

definition std64_char :: "nat \<Rightarrow> char" where
  "std64_char v = (if v = 62 then CHR ''+'' else if v = 63 then CHR ''/'' else b64_char v)"

definition std64_val :: "char \<Rightarrow> nat option" where
  "std64_val c =
     (if c = CHR ''+'' then Some 62 else if c = CHR ''/'' then Some 63
      else if c = CHR ''-'' \<or> c = CHR ''_'' then None else b64_val c)"

definition StdEncode :: "char list \<Rightarrow> string" where
  "StdEncode bs = map std64_char (sextets bs)"

definition StdDecode :: "string \<Rightarrow> char list option" where
  "StdDecode s =
     (let vs = map std64_val (filter (\<lambda>c. c \<notin> {CHR 0x0A, CHR 0x0D}) s) in
      if None \<in> set vs then None else decode_values (map the vs))"

definition argonTime :: nat where "argonTime = 2"
definition argonMemory :: nat where "argonMemory = 19 * 1024"
definition argonThreads :: nat where "argonThreads = 1"
definition argonKeyLen :: nat where "argonKeyLen = 32"
definition saltLen :: nat where "saltLen = 16"
definition argon2_Version :: nat where "argon2_Version = 19"

text \<open>\<open>crand.Read\<close> fills a buffer of \<open>n\<close> zero bytes.\<close>

definition filled :: "nat \<Rightarrow> byte list \<Rightarrow> char list" where
  "filled n r = map (\<lambda>b. char_of (unat b)) (take n (r @ replicate n 0))"

definition phc_string :: "char list \<Rightarrow> char list \<Rightarrow> string" where
  "phc_string salt hash =
     ''$argon2id$v='' @ show_int (int argon2_Version) @ ''$m='' @ show_int (int argonMemory) @ '',t='' @ show_int (int argonTime) @
     '',p='' @ show_int (int argonThreads) @ ''$'' @ StdEncode salt @ ''$'' @ StdEncode hash"

definition hashPassword :: "auth_lib \<Rightarrow> byte list option \<Rightarrow> string \<Rightarrow> auth_error + string" where
  "hashPassword lib rand password =
     (case rand of
        None \<Rightarrow> Inl AuthRandom
      | Some r \<Rightarrow>
          (let salt = filled saltLen r
           in Inr (phc_string salt (argon2_IDKey lib password salt argonTime argonMemory argonThreads argonKeyLen))))"

text \<open>\<open>strconv.ParseUint(s, 10, 32)\<close>, and whether \<open>fmt.Sscanf\<close> finds an integer for the format \<open>v=%d\<close> (blanks before it are skipped).\<close>

definition ParseUint32 :: "string \<Rightarrow> nat option" where
  "ParseUint32 s = (if s = [] \<or> \<not> list_all is_digit s \<or> num_of s \<ge> 2 ^ 32 then None else Some (num_of s))"

definition scans_version :: "string \<Rightarrow> bool" where
  "scans_version s \<longleftrightarrow> take 2 s = ''v='' \<and>
     (let r = dropWhile (\<lambda>c. c = CHR '' '') (drop 2 s);
          negative = (r \<noteq> [] \<and> hd r = CHR ''-'');
          d = takeWhile is_digit (if r \<noteq> [] \<and> hd r \<in> {CHR ''+'', CHR ''-''} then drop 1 r else r)
      in d \<noteq> [] \<and> in_int64 (if negative then - int (num_of d) else int (num_of d)))"

text \<open>\<open>strings.SplitN(p, "=", 2)\<close>, when there is a separator.\<close>

definition split_param :: "string \<Rightarrow> (string \<times> string) option" where
  "split_param p = (if CHR ''='' \<in> set p then Some (takeWhile (\<lambda>c. c \<noteq> CHR ''='') p, drop 1 (dropWhile (\<lambda>c. c \<noteq> CHR ''='') p)) else None)"

record argon_params =
  ap_memory :: nat
  ap_time :: nat
  ap_threads :: nat

fun params_loop :: "string list \<Rightarrow> argon_params \<Rightarrow> argon_params option" where
  "params_loop [] ps = Some ps"
| "params_loop (p # rest) ps =
     (case split_param p of
        None \<Rightarrow> None
      | Some (k, v) \<Rightarrow>
          (case ParseUint32 v of
             None \<Rightarrow> None
           | Some n \<Rightarrow>
               if k = ''m'' then params_loop rest (ps\<lparr>ap_memory := n\<rparr>)
               else if k = ''t'' then params_loop rest (ps\<lparr>ap_time := n\<rparr>)
               else if k = ''p'' then params_loop rest (ps\<lparr>ap_threads := n mod 256\<rparr>)
               else None))"

text \<open>\<open>argon2.IDKey\<close> panics when the time or the number of threads is 0.\<close>

definition verifyPassword :: "auth_lib \<Rightarrow> string \<Rightarrow> string \<Rightarrow> auth_error + bool" where
  "verifyPassword lib password encodedHash =
     (let parts = split_at CHR ''$'' encodedHash in
      if length parts \<noteq> 6 \<or> parts ! 1 \<noteq> ''argon2id'' \<or> \<not> scans_version (parts ! 2) then Inl AuthHashFormat
      else (let params = split_at CHR '','' (parts ! 3) in
        if length params \<noteq> 3 then Inl AuthHashFormat
        else (case params_loop params \<lparr>ap_memory = 0, ap_time = 0, ap_threads = 0\<rparr> of
                None \<Rightarrow> Inl AuthHashFormat
              | Some ps \<Rightarrow>
                  (case (StdDecode (parts ! 4), StdDecode (parts ! 5)) of
                     (Some salt, Some storedHash) \<Rightarrow>
                       if ap_time ps = 0 \<or> ap_threads ps = 0 then Inl AuthPanic
                       else Inr (storedHash = argon2_IDKey lib password salt (ap_time ps) (ap_memory ps) (ap_threads ps) (length storedHash))
                   | _ \<Rightarrow> Inl AuthHashFormat))))"

definition pad6 :: "int \<Rightarrow> string" where
  "pad6 n = (let d = show_int n in replicate (6 - length d) CHR ''0'' @ d)"

text \<open>\<open>crand.Int\<close> returns a number from 0 up to but not including its bound.\<close>

definition generateCode :: "int option \<Rightarrow> string option" where
  "generateCode draw = map_option (\<lambda>n. pad6 (n mod 1000000)) draw"

definition hashCode :: "auth_lib \<Rightarrow> string \<Rightarrow> string" where
  "hashCode lib code = hex_bytes (sha256_Sum256 lib code)"

definition code_mail :: "string \<Rightarrow> string \<Rightarrow> string \<Rightarrow> string \<Rightarrow> string \<Rightarrow> mail" where
  "code_mail subject line sender to code =
     \<lparr>ml_from = sender, ml_to = to,
      ml_text = ''From: '' @ sender @ crlf @ ''To: '' @ to @ crlf @ ''Subject: '' @ subject @ crlf @ crlf @
        line @ code @ crlf @ ''It expires in 10 minutes.'' @ crlf\<rparr>"

definition sendVerificationEmail :: "smtp_answer \<Rightarrow> string \<Rightarrow> string \<Rightarrow> string \<Rightarrow> mail list \<times> go_err option" where
  "sendVerificationEmail ans sender to code =
     SendMail ans (code_mail ''Verify your Neo-Bank email'' ''Your verification code is: '' sender to code)"

definition sendPasswordResetEmail :: "smtp_answer \<Rightarrow> string \<Rightarrow> string \<Rightarrow> string \<Rightarrow> mail list \<times> go_err option" where
  "sendPasswordResetEmail ans sender to code =
     SendMail ans (code_mail ''Reset your Neo-Bank password'' ''Your password reset code is: '' sender to code)"

subsection \<open>register.go\<close>

text \<open>Sites: 0 begin, 1 the SELECT of the user, 2 the write to users, 3 and 4 the two statements on codes, 5 commit.\<close>

definition user_by_email :: "env \<Rightarrow> nat \<Rightarrow> auth_db \<Rightarrow> string \<Rightarrow> auth_error + user option" where
  "user_by_email e i db email =
     (if fails e i \<or> \<not> pg_text email then Inl AuthStatement else Inr (find (\<lambda>u. us_email u = email) (users db)))"

definition new_user :: "env \<Rightarrow> string \<Rightarrow> string \<Rightarrow> user" where
  "new_user e email passwordHash =
     \<lparr>us_id = gen_random_uuid e 0, us_email = email, us_password_hash = passwordHash, us_status = ''pending_verification'',
      us_created_at = now e, us_updated_at = now e, us_display_name = None, us_avatar_key = None, us_avatar_updated_at = None\<rparr>"

definition set_password :: "env \<Rightarrow> string \<Rightarrow> user \<Rightarrow> user" where
  "set_password e passwordHash u = u\<lparr>us_password_hash := passwordHash, us_updated_at := now e\<rparr>"

definition unused_code :: "string \<Rightarrow> string \<Rightarrow> verification_code \<Rightarrow> bool" where
  "unused_code userID purpose c \<longleftrightarrow> vc_user_id c = userID \<and> vc_purpose c = purpose \<and> vc_used_at c = None"

definition new_code :: "env \<Rightarrow> string \<Rightarrow> string \<Rightarrow> string \<Rightarrow> verification_code" where
  "new_code e userID purpose codeHash =
     \<lparr>vc_id = gen_random_uuid e 1, vc_user_id = userID, vc_purpose = purpose, vc_code_hash = codeHash, vc_expires_at = now e + 600000000,
      vc_attempts_remaining = 5, vc_used_at = None, vc_created_at = now e\<rparr>"

definition mark_used :: "env \<Rightarrow> verification_code \<Rightarrow> verification_code" where
  "mark_used e c = c\<lparr>vc_used_at := Some (now e)\<rparr>"

definition invalidateAndIssueCode :: "env \<Rightarrow> auth_db \<Rightarrow> string \<Rightarrow> string \<Rightarrow> string \<Rightarrow> auth_error + auth_db" where
  "invalidateAndIssueCode e db userID purpose codeHash =
     (if fails e 3 \<or> fails e 4 \<or> gen_random_uuid e 1 \<in> vc_id ` set (verification_codes db) then Inl AuthStatement
      else Inr (db\<lparr>verification_codes :=
             update_where (unused_code userID purpose) (mark_used e) (verification_codes db) @ [new_code e userID purpose codeHash]\<rparr>))"

text \<open>An id that is taken is a unique violation too.\<close>

definition registerUserAndIssueCode :: "env \<Rightarrow> auth_db \<Rightarrow> string \<Rightarrow> string \<Rightarrow> string \<Rightarrow> auth_db \<times> (auth_error + bool)" where
  "registerUserAndIssueCode e db email passwordHash codeHash =
     (if fails e 0 then (db, Inl AuthStatement)
      else case user_by_email e 1 db email of
        Inl err \<Rightarrow> (db, Inl err)
      | Inr None \<Rightarrow>
          if fails e 2 then (db, Inl AuthStatement)
          else if gen_random_uuid e 0 \<in> us_id ` set (users db) then (db, Inr True)
          else (case invalidateAndIssueCode e (db\<lparr>users := users db @ [new_user e email passwordHash]\<rparr>) (gen_random_uuid e 0) ''email_verify'' codeHash of
                  Inl err \<Rightarrow> (db, Inl err)
                | Inr db' \<Rightarrow> persist e 5 db db' AuthStatement False)
      | Inr (Some u) \<Rightarrow>
          if us_status u \<noteq> ''pending_verification'' then (db, Inr True)
          else if fails e 2 then (db, Inl AuthStatement)
          else (case invalidateAndIssueCode e (db\<lparr>users := update_where (\<lambda>v. us_id v = us_id u) (set_password e passwordHash) (users db)\<rparr>)
                       (us_id u) ''email_verify'' codeHash of
                  Inl err \<Rightarrow> (db, Inl err)
                | Inr db' \<Rightarrow> persist e 5 db db' AuthStatement False))"

text \<open>A request is \<open>None\<close> when its body cannot be decoded.\<close>

definition registerHandler ::
  "auth_svc \<Rightarrow> auth_env \<Rightarrow> (string \<times> string) option \<Rightarrow> auth_db \<Rightarrow> auth_db \<times> mail list \<times> auth_body http_response" where
  "registerHandler sv ae req db =
     (case req of
        None \<Rightarrow> (db, [], json_error 400 ''invalid_request_body'')
      | Some (email, password) \<Rightarrow>
          if \<not> mail_ParseAddress (sv_lib sv) email then (db, [], json_error 400 ''invalid_email'')
          else if length password < 8 then (db, [], json_error 400 ''password_too_short'')
          else (case hashPassword (sv_lib sv) (crand_read (ae_env ae) 0) password of
                  Inl err \<Rightarrow> (db, [], json_error 500 ''internal_error'')
                | Inr passwordHash \<Rightarrow>
                    (case generateCode (ae_draw ae) of
                       None \<Rightarrow> (db, [], json_error 500 ''internal_error'')
                     | Some code \<Rightarrow>
                         (case registerUserAndIssueCode (ae_env ae) db email passwordHash (hashCode (sv_lib sv) code) of
                            (db', Inl err) \<Rightarrow> (db', [], json_error 500 ''internal_error'')
                          | (db', Inr True) \<Rightarrow> (db', [], json_error 409 ''email_already_registered'')
                          | (db', Inr False) \<Rightarrow>
                              (case sendVerificationEmail (ae_smtp ae) (sv_smtpFrom sv) email code of
                                 (mails, Some err) \<Rightarrow> (db', mails, json_error 500 ''verification_email_send_failed'')
                               | (mails, None) \<Rightarrow> (db', mails, json_ok 201 (AuthStatus ''pending_verification'')))))))"

subsection \<open>verify.go\<close>

datatype verifyOutcome = verifyOK | verifyUserNotFound | verifyNoActiveCode | verifyCodeExpired | verifyTooManyAttempts | verifyWrongCode

text \<open>\<open>ORDER BY created_at DESC LIMIT 1\<close>. Sites: 2 the SELECT of the code, 3 the UPDATE.\<close>

definition newest_code :: "auth_db \<Rightarrow> string \<Rightarrow> string \<Rightarrow> verification_code option" where
  "newest_code db userID purpose =
     (case sort_desc vc_created_at (filter (unused_code userID purpose) (verification_codes db)) of [] \<Rightarrow> None | c # _ \<Rightarrow> Some c)"

definition wrong_guess :: "verification_code \<Rightarrow> verification_code" where
  "wrong_guess c = c\<lparr>vc_attempts_remaining := vc_attempts_remaining c - 1\<rparr>"

definition change_code :: "string \<Rightarrow> (verification_code \<Rightarrow> verification_code) \<Rightarrow> auth_db \<Rightarrow> auth_db" where
  "change_code i f db = db\<lparr>verification_codes := update_where (\<lambda>c. vc_id c = i) f (verification_codes db)\<rparr>"

definition consumeVerificationCode ::
  "auth_lib \<Rightarrow> env \<Rightarrow> auth_db \<Rightarrow> string \<Rightarrow> string \<Rightarrow> string \<Rightarrow> auth_error + (auth_db \<times> verifyOutcome \<times> int)" where
  "consumeVerificationCode lib e db userID purpose code =
     (if fails e 2 then Inl AuthStatement
      else case newest_code db userID purpose of
        None \<Rightarrow> Inr (db, verifyNoActiveCode, 0)
      | Some c \<Rightarrow>
          if clock e > vc_expires_at c then Inr (db, verifyCodeExpired, 0)
          else if vc_attempts_remaining c \<le> 0 then Inr (db, verifyTooManyAttempts, 0)
          else if fails e 3 then Inl AuthStatement
          else if hashCode lib code \<noteq> vc_code_hash c then Inr (change_code (vc_id c) wrong_guess db, verifyWrongCode, vc_attempts_remaining c - 1)
          else Inr (change_code (vc_id c) (mark_used e) db, verifyOK, 0))"

definition activate :: "env \<Rightarrow> user \<Rightarrow> user" where
  "activate e u = u\<lparr>us_status := ''active'', us_updated_at := now e\<rparr>"

text \<open>Sites: 0 begin, 1 the SELECT of the user, 2 and 3 the code, 4 the UPDATE of the user, 5 the outbox, 6 commit.\<close>

definition verifyEmailCode ::
  "auth_lib \<Rightarrow> env \<Rightarrow> auth_db \<Rightarrow> string \<Rightarrow> string \<Rightarrow> auth_db \<times> (auth_error + verifyOutcome \<times> string \<times> int)" where
  "verifyEmailCode lib e db email code =
     (if fails e 0 then (db, Inl AuthStatement)
      else case user_by_email e 1 db email of
        Inl err \<Rightarrow> (db, Inl err)
      | Inr None \<Rightarrow> (db, Inr (verifyUserNotFound, [], 0))
      | Inr (Some u) \<Rightarrow>
          (case consumeVerificationCode lib e db (us_id u) ''email_verify'' code of
             Inl err \<Rightarrow> (db, Inl err)
           | Inr (db', outcome, attemptsRemaining) \<Rightarrow>
               if outcome \<noteq> verifyOK then persist e 6 db db' AuthStatement (outcome, [], attemptsRemaining)
               else if fails e 4 then (db, Inl AuthStatement)
               else (case GenerateEventID e 0 of
                       None \<Rightarrow> (db, Inl AuthRandom)
                     | Some eventID \<Rightarrow>
                         (case InsertEvent (lb_runtime lib) e 5 eventID ''UserActivated'' (us_id u)
                                 (UserActivatedEvent (us_id u) email (clock e) eventID) (auth_outbox db') of
                            None \<Rightarrow> (db, Inl AuthStatement)
                          | Some ob \<Rightarrow>
                              persist e 6 db (db'\<lparr>users := update_where (\<lambda>v. us_id v = us_id u) (activate e) (users db'), auth_outbox := ob\<rparr>)
                                AuthStatement (verifyOK, us_id u, 0)))))"

definition verifyEmailHandler :: "auth_svc \<Rightarrow> env \<Rightarrow> (string \<times> string) option \<Rightarrow> auth_db \<Rightarrow> auth_db \<times> auth_body http_response" where
  "verifyEmailHandler sv e req db =
     (case req of
        None \<Rightarrow> (db, json_error 400 ''invalid_request_body'')
      | Some (email, code) \<Rightarrow>
          (case verifyEmailCode (sv_lib sv) e db email code of
             (db', Inl err) \<Rightarrow> (db', json_error 500 ''internal_error'')
           | (db', Inr (outcome, userID, attemptsRemaining)) \<Rightarrow>
               (db', case outcome of
                  verifyOK \<Rightarrow> json_ok 200 (AuthStatus ''active'')
                | verifyUserNotFound \<Rightarrow> json_error 400 ''user_not_found''
                | verifyNoActiveCode \<Rightarrow> json_error 400 ''no_active_verification_code''
                | verifyCodeExpired \<Rightarrow> json_error 400 ''verification_code_expired''
                | verifyTooManyAttempts \<Rightarrow> json_error 400 ''too_many_verification_attempts''
                | verifyWrongCode \<Rightarrow> json_ok 400 (AuthWrongCode ''invalid_verification_code'' attemptsRemaining))))"

datatype resendOutcome = resendOK | resendUserNotFound | resendNotPending

definition resendCooldown :: int where "resendCooldown = 60000000"

definition resendVerificationCode :: "env \<Rightarrow> auth_db \<Rightarrow> string \<Rightarrow> string \<Rightarrow> auth_db \<times> (auth_error + resendOutcome)" where
  "resendVerificationCode e db email codeHash =
     (if fails e 0 then (db, Inl AuthStatement)
      else case user_by_email e 1 db email of
        Inl err \<Rightarrow> (db, Inl err)
      | Inr None \<Rightarrow> (db, Inr resendUserNotFound)
      | Inr (Some u) \<Rightarrow>
          if us_status u \<noteq> ''pending_verification'' then (db, Inr resendNotPending)
          else (case invalidateAndIssueCode e db (us_id u) ''email_verify'' codeHash of
                  Inl err \<Rightarrow> (db, Inl err)
                | Inr db' \<Rightarrow> persist e 5 db db' AuthStatement resendOK))"

text \<open>Site 7 is the cooldown key in Redis.\<close>

definition resendVerificationHandler ::
  "auth_svc \<Rightarrow> auth_env \<Rightarrow> string option \<Rightarrow> auth_db \<Rightarrow> redis \<Rightarrow> auth_db \<times> redis \<times> mail list \<times> auth_body http_response" where
  "resendVerificationHandler sv ae req db rd =
     (let e = ae_env ae in
      case req of
        None \<Rightarrow> (db, rd, [], json_error 400 ''invalid_request_body'')
      | Some email \<Rightarrow>
          if \<not> mail_ParseAddress (sv_lib sv) email then (db, rd, [], json_error 400 ''invalid_email'')
          else (case redis_do e 7 (redis_SetNX (clock e) (''resend-verification:'' @ email) ''1'' resendCooldown) rd of
                  (rd', Inl err) \<Rightarrow> (db, rd', [], json_error 500 ''internal_error'')
                | (rd', Inr False) \<Rightarrow> (db, rd', [], json_error 429 ''verification_code_cooldown'')
                | (rd', Inr True) \<Rightarrow>
                    (case generateCode (ae_draw ae) of
                       None \<Rightarrow> (db, rd', [], json_error 500 ''internal_error'')
                     | Some code \<Rightarrow>
                         (case resendVerificationCode e db email (hashCode (sv_lib sv) code) of
                            (db', Inl err) \<Rightarrow> (db', rd', [], json_error 500 ''internal_error'')
                          | (db', Inr resendUserNotFound) \<Rightarrow> (db', rd', [], json_error 400 ''user_not_found'')
                          | (db', Inr resendNotPending) \<Rightarrow> (db', rd', [], json_error 400 ''email_already_verified'')
                          | (db', Inr resendOK) \<Rightarrow>
                              (case sendVerificationEmail (ae_smtp ae) (sv_smtpFrom sv) email code of
                                 (mails, Some err) \<Rightarrow> (db', rd', mails, json_error 500 ''verification_email_send_failed'')
                               | (mails, None) \<Rightarrow> (db', rd', mails, json_ok 200 (AuthStatus ''pending_verification'')))))))"

subsection \<open>login.go\<close>

datatype loginOutcome = loginOK | loginInvalidCredentials | loginNotVerified
datatype refreshOutcome = refreshOK | refreshInvalidToken | refreshAccountNotActive

definition accessTokenTTL :: int where "accessTokenTTL = 15 * 60 * 1000000"
definition refreshTokenTTL :: int where "refreshTokenTTL = 7 * 24 * 3600 * 1000000"

definition refresh_key :: "string \<Rightarrow> string" where "refresh_key token = ''refresh:'' @ token"
definition user_refresh_key :: "string \<Rightarrow> string" where "user_refresh_key userID = ''user_refresh:'' @ userID"

definition findUserByEmail :: "env \<Rightarrow> auth_db \<Rightarrow> string \<Rightarrow> auth_error + user option" where
  "findUserByEmail e db email = user_by_email e 0 db email"

definition findUserByID :: "runtime \<Rightarrow> env \<Rightarrow> auth_db \<Rightarrow> string \<Rightarrow> auth_error + user option" where
  "findUserByID rt e db i =
     (if fails e 0 then Inl AuthStatement
      else case uuid_in rt i of None \<Rightarrow> Inl AuthStatement | Some u \<Rightarrow> Inr (find (\<lambda>v. us_id v = u) (users db)))"

definition zero_user :: user where
  "zero_user = \<lparr>us_id = [], us_email = [], us_password_hash = [], us_status = [], us_created_at = 0, us_updated_at = 0,
     us_display_name = None, us_avatar_key = None, us_avatar_updated_at = None\<rparr>"

definition authenticateUser :: "auth_svc \<Rightarrow> env \<Rightarrow> auth_db \<Rightarrow> string \<Rightarrow> string \<Rightarrow> auth_error + user \<times> loginOutcome" where
  "authenticateUser sv e db email password =
     (case findUserByEmail e db email of
        Inl err \<Rightarrow> Inl err
      | Inr found \<Rightarrow>
          (case verifyPassword (sv_lib sv) password (case found of None \<Rightarrow> sv_dummyPasswordHash sv | Some u \<Rightarrow> us_password_hash u) of
             Inl err \<Rightarrow> Inl err
           | Inr ok \<Rightarrow>
               (case found of
                  None \<Rightarrow> Inr (zero_user, loginInvalidCredentials)
                | Some u \<Rightarrow>
                    if \<not> ok then Inr (zero_user, loginInvalidCredentials)
                    else if us_status u \<noteq> ''active'' then Inr (zero_user, loginNotVerified)
                    else Inr (u, loginOK))))"

text \<open>\<open>jwt.NewNumericDate\<close> cuts a time to whole seconds.\<close>

definition newAccessToken :: "auth_lib \<Rightarrow> env \<Rightarrow> string \<Rightarrow> string \<Rightarrow> string \<Rightarrow> string option" where
  "newAccessToken lib e jwtSecret userID email =
     jwt_SignedString lib jwtSecret
       \<lparr>cl_UserID = userID, cl_Email = email, cl_IssuedAt = clock e div 1000000, cl_ExpiresAt = (clock e + accessTokenTTL) div 1000000\<rparr>"

definition generateRefreshToken :: "byte list option \<Rightarrow> string option" where
  "generateRefreshToken rand = map_option (\<lambda>r. EncodeToString (filled 32 r)) rand"

text \<open>SET, SADD and EXPIRE as one transaction of Redis; a key of the wrong type fails the SADD only.\<close>

definition store_refresh :: "int \<Rightarrow> string \<Rightarrow> string \<Rightarrow> redis \<Rightarrow> redis \<times> (auth_error + unit)" where
  "store_refresh t userID token rd =
     (let rd1 = rd(refresh_key token \<mapsto> (RString userID, t + refreshTokenTTL)); k = user_refresh_key userID in
      case redis_get t k rd1 of
        None \<Rightarrow> (rd1(k \<mapsto> (RSet {token}, t + refreshTokenTTL)), Inr ())
      | Some (RSet S) \<Rightarrow> (rd1(k \<mapsto> (RSet (insert token S), t + refreshTokenTTL)), Inr ())
      | Some (RString v) \<Rightarrow> (rd1(k \<mapsto> (RString v, t + refreshTokenTTL)), Inl AuthRedis))"

text \<open>Site 10 is the transaction of Redis; draw 1 is the refresh token's.\<close>

definition issueTokenPair :: "auth_svc \<Rightarrow> env \<Rightarrow> user \<Rightarrow> redis \<Rightarrow> redis \<times> (auth_error + tokenPairResponse)" where
  "issueTokenPair sv e u rd =
     (case newAccessToken (sv_lib sv) e (sv_jwtSecret sv) (us_id u) (us_email u) of
        None \<Rightarrow> (rd, Inl AuthSign)
      | Some accessToken \<Rightarrow>
          (case generateRefreshToken (crand_read e 1) of
             None \<Rightarrow> (rd, Inl AuthRandom)
           | Some refreshToken \<Rightarrow>
               (case redis_do e 10 (store_refresh (clock e) (us_id u) refreshToken) rd of
                  (rd', Inl err) \<Rightarrow> (rd', Inl err)
                | (rd', Inr _) \<Rightarrow> (rd', Inr \<lparr>tp_AccessToken = accessToken, tp_RefreshToken = refreshToken\<rparr>))))"

definition loginHandler :: "auth_svc \<Rightarrow> env \<Rightarrow> (string \<times> string) option \<Rightarrow> auth_db \<Rightarrow> redis \<Rightarrow> redis \<times> auth_body http_response" where
  "loginHandler sv e req db rd =
     (case req of
        None \<Rightarrow> (rd, json_error 400 ''invalid_request_body'')
      | Some (email, password) \<Rightarrow>
          (case authenticateUser sv e db email password of
             Inl err \<Rightarrow> (rd, json_error 500 ''internal_error'')
           | Inr (_, loginInvalidCredentials) \<Rightarrow> (rd, json_error 401 ''invalid_credentials'')
           | Inr (_, loginNotVerified) \<Rightarrow> (rd, json_error 403 ''email_not_verified'')
           | Inr (u, loginOK) \<Rightarrow>
               (case issueTokenPair sv e u rd of
                  (rd', Inl err) \<Rightarrow> (rd', json_error 500 ''internal_error'')
                | (rd', Inr pair) \<Rightarrow> (rd', json_ok 200 (AuthTokens pair)))))"

text \<open>Sites 8 and 9 are GETDEL and SREM.\<close>

definition consumeRefreshToken :: "runtime \<Rightarrow> env \<Rightarrow> auth_db \<Rightarrow> string \<Rightarrow> redis \<Rightarrow> redis \<times> (auth_error + user \<times> refreshOutcome)" where
  "consumeRefreshToken rt e db token rd =
     (case redis_do e 8 (redis_GetDel (clock e) (refresh_key token)) rd of
        (rd1, Inl err) \<Rightarrow> (rd1, Inl err)
      | (rd1, Inr None) \<Rightarrow> (rd1, Inr (zero_user, refreshInvalidToken))
      | (rd1, Inr (Some userID)) \<Rightarrow>
          (case redis_do e 9 (redis_SRem (clock e) (user_refresh_key userID) token) rd1 of
             (rd2, Inl err) \<Rightarrow> (rd2, Inl err)
           | (rd2, Inr _) \<Rightarrow>
               (rd2, case findUserByID rt e db userID of
                  Inl err \<Rightarrow> Inl err
                | Inr None \<Rightarrow> Inr (zero_user, refreshAccountNotActive)
                | Inr (Some u) \<Rightarrow> if us_status u \<noteq> ''active'' then Inr (zero_user, refreshAccountNotActive) else Inr (u, refreshOK))))"

definition refreshHandler :: "auth_svc \<Rightarrow> env \<Rightarrow> string option \<Rightarrow> auth_db \<Rightarrow> redis \<Rightarrow> redis \<times> auth_body http_response" where
  "refreshHandler sv e req db rd =
     (case req of
        None \<Rightarrow> (rd, json_error 400 ''invalid_request_body'')
      | Some token \<Rightarrow>
          (case consumeRefreshToken (lb_runtime (sv_lib sv)) e db token rd of
             (rd1, Inl err) \<Rightarrow> (rd1, json_error 500 ''internal_error'')
           | (rd1, Inr (_, refreshInvalidToken)) \<Rightarrow> (rd1, json_error 401 ''invalid_refresh_token'')
           | (rd1, Inr (_, refreshAccountNotActive)) \<Rightarrow> (rd1, json_error 401 ''account_not_active'')
           | (rd1, Inr (u, refreshOK)) \<Rightarrow>
               (case issueTokenPair sv e u rd1 of
                  (rd2, Inl err) \<Rightarrow> (rd2, json_error 500 ''internal_error'')
                | (rd2, Inr pair) \<Rightarrow> (rd2, json_ok 200 (AuthTokens pair)))))"

definition logoutHandler :: "env \<Rightarrow> string option \<Rightarrow> redis \<Rightarrow> redis \<times> auth_body http_response" where
  "logoutHandler e req rd =
     (case req of
        None \<Rightarrow> (rd, json_error 400 ''invalid_request_body'')
      | Some token \<Rightarrow>
          (case redis_do e 8 (redis_GetDel (clock e) (refresh_key token)) rd of
             (rd1, Inl err) \<Rightarrow> (rd1, json_error 500 ''internal_error'')
           | (rd1, Inr None) \<Rightarrow> (rd1, json_ok 200 (AuthStatus ''logged_out''))
           | (rd1, Inr (Some userID)) \<Rightarrow>
               (case redis_do e 9 (redis_SRem (clock e) (user_refresh_key userID) token) rd1 of
                  (rd2, Inl err) \<Rightarrow> (rd2, json_error 500 ''internal_error'')
                | (rd2, Inr _) \<Rightarrow> (rd2, json_ok 200 (AuthStatus ''logged_out'')))))"

subsection \<open>reset.go\<close>

definition forgotPasswordCooldown :: int where "forgotPasswordCooldown = 60000000"

definition issuePasswordResetCode :: "env \<Rightarrow> auth_db \<Rightarrow> string \<Rightarrow> string \<Rightarrow> auth_db \<times> (auth_error + bool)" where
  "issuePasswordResetCode e db email codeHash =
     (if fails e 0 then (db, Inl AuthStatement)
      else case user_by_email e 1 db email of
        Inl err \<Rightarrow> (db, Inl err)
      | Inr None \<Rightarrow> (db, Inr False)
      | Inr (Some u) \<Rightarrow>
          (case invalidateAndIssueCode e db (us_id u) ''password_reset'' codeHash of
             Inl err \<Rightarrow> (db, Inl err)
           | Inr db' \<Rightarrow> persist e 5 db db' AuthStatement True))"

definition forgotPasswordHandler ::
  "auth_svc \<Rightarrow> auth_env \<Rightarrow> string option \<Rightarrow> auth_db \<Rightarrow> redis \<Rightarrow> auth_db \<times> redis \<times> mail list \<times> auth_body http_response" where
  "forgotPasswordHandler sv ae req db rd =
     (let e = ae_env ae in
      case req of
        None \<Rightarrow> (db, rd, [], json_error 400 ''invalid_request_body'')
      | Some email \<Rightarrow>
          if \<not> mail_ParseAddress (sv_lib sv) email then (db, rd, [], json_error 400 ''invalid_email'')
          else (case redis_do e 7 (redis_SetNX (clock e) (''forgot-password:'' @ email) ''1'' forgotPasswordCooldown) rd of
                  (rd', Inl err) \<Rightarrow> (db, rd', [], json_error 500 ''internal_error'')
                | (rd', Inr False) \<Rightarrow> (db, rd', [], json_error 429 ''verification_code_cooldown'')
                | (rd', Inr True) \<Rightarrow>
                    (case generateCode (ae_draw ae) of
                       None \<Rightarrow> (db, rd', [], json_error 500 ''internal_error'')
                     | Some code \<Rightarrow>
                         (case issuePasswordResetCode e db email (hashCode (sv_lib sv) code) of
                            (db', Inl err) \<Rightarrow> (db', rd', [], json_error 500 ''internal_error'')
                          | (db', Inr issued) \<Rightarrow>
                              (db', rd', if issued then fst (sendPasswordResetEmail (ae_smtp ae) (sv_smtpFrom sv) email code) else [],
                               json_ok 200 (AuthMessage ''if the email is registered, a reset code has been sent''))))))"

text \<open>Sites: 0 begin, 1 the SELECT of the user, 2 and 3 the code, 4 the UPDATE of the user, 5 commit.\<close>

definition resetPassword ::
  "auth_lib \<Rightarrow> env \<Rightarrow> auth_db \<Rightarrow> string \<Rightarrow> string \<Rightarrow> string \<Rightarrow> auth_db \<times> (auth_error + verifyOutcome \<times> string)" where
  "resetPassword lib e db email code newPassword =
     (if fails e 0 then (db, Inl AuthStatement)
      else case user_by_email e 1 db email of
        Inl err \<Rightarrow> (db, Inl err)
      | Inr None \<Rightarrow> (db, Inr (verifyUserNotFound, []))
      | Inr (Some u) \<Rightarrow>
          (case consumeVerificationCode lib e db (us_id u) ''password_reset'' code of
             Inl err \<Rightarrow> (db, Inl err)
           | Inr (db', outcome, _) \<Rightarrow>
               if outcome \<noteq> verifyOK then persist e 5 db db' AuthStatement (outcome, [])
               else (case hashPassword lib (crand_read e 0) newPassword of
                       Inl err \<Rightarrow> (db, Inl err)
                     | Inr newHash \<Rightarrow>
                         if fails e 4 then (db, Inl AuthStatement)
                         else persist e 5 db (db'\<lparr>users := update_where (\<lambda>v. us_id v = us_id u) (set_password e newHash) (users db')\<rparr>)
                                AuthStatement (verifyOK, us_id u))))"

text \<open>Sites 8 and 9 are SMEMBERS and DEL.\<close>

definition revokeAllUserRefreshTokens :: "env \<Rightarrow> string \<Rightarrow> redis \<Rightarrow> redis \<times> (auth_error + unit)" where
  "revokeAllUserRefreshTokens e userID rd =
     (if fails e 8 then (rd, Inl AuthRedis)
      else case redis_SMembers (clock e) (user_refresh_key userID) rd of
        Inl err \<Rightarrow> (rd, Inl err)
      | Inr tokens \<Rightarrow> redis_do e 9 (\<lambda>rd. (redis_Del (insert (user_refresh_key userID) (refresh_key ` tokens)) rd, Inr ())) rd)"

definition resetPasswordHandler ::
  "auth_svc \<Rightarrow> env \<Rightarrow> (string \<times> string \<times> string) option \<Rightarrow> auth_db \<Rightarrow> redis \<Rightarrow> auth_db \<times> redis \<times> auth_body http_response" where
  "resetPasswordHandler sv e req db rd =
     (case req of
        None \<Rightarrow> (db, rd, json_error 400 ''invalid_request_body'')
      | Some (email, code, newPassword) \<Rightarrow>
          if length newPassword < 8 then (db, rd, json_error 400 ''password_too_short'')
          else (case resetPassword (sv_lib sv) e db email code newPassword of
                  (db', Inl err) \<Rightarrow> (db', rd, json_error 500 ''internal_error'')
                | (db', Inr (verifyUserNotFound, _)) \<Rightarrow> (db', rd, json_error 400 ''invalid_reset_code'')
                | (db', Inr (verifyNoActiveCode, _)) \<Rightarrow> (db', rd, json_error 400 ''invalid_reset_code'')
                | (db', Inr (verifyCodeExpired, _)) \<Rightarrow> (db', rd, json_error 400 ''verification_code_expired'')
                | (db', Inr (verifyTooManyAttempts, _)) \<Rightarrow> (db', rd, json_error 400 ''too_many_verification_attempts'')
                | (db', Inr (verifyWrongCode, _)) \<Rightarrow> (db', rd, json_error 400 ''invalid_verification_code'')
                | (db', Inr (verifyOK, userID)) \<Rightarrow>
                    (db', fst (revokeAllUserRefreshTokens e userID rd), json_ok 200 (AuthStatus ''password_reset''))))"

end
