(* ===== verification/Auth_Profile.thy ===== *)
theory Auth_Profile
  imports Auth
begin

text \<open>
  services/auth-svc: the profile (profile.go), avatars (avatar.go), their rate limit (avatar\_rate\_limit.go), the sweep of
  abandoned uploads (avatar\_cleanup.go) and the object storage (storage.go).

  The bucket is a list of objects with different keys. Decoding, scaling and encoding of images and the signatures of
  URLs are parameters; what decides whether a file is decoded at all is not.
\<close>

subsection \<open>Runes\<close>

text \<open>
  \<open>utf8.DecodeRune\<close> on a non-empty string: the code point and its width; an invalid sequence is U+FFFD of width 1.
\<close>

definition continuation :: "nat \<Rightarrow> nat \<Rightarrow> nat \<Rightarrow> bool" where
  "continuation lo hi b \<longleftrightarrow> lo \<le> b \<and> b \<le> hi"

definition second_range :: "nat \<Rightarrow> nat \<times> nat" where
  "second_range b0 =
     (if b0 = 0xE0 then (0xA0, 0xBF) else if b0 = 0xED then (0x80, 0x9F)
      else if b0 = 0xF0 then (0x90, 0xBF) else if b0 = 0xF4 then (0x80, 0x8F) else (0x80, 0xBF))"

definition DecodeRune :: "nat list \<Rightarrow> nat \<times> nat" where
  "DecodeRune bs =
     (let b0 = bs ! 0; b1 = bs ! 1; b2 = bs ! 2; b3 = bs ! 3; lo = fst (second_range b0); hi = snd (second_range b0) in
      if b0 < 0x80 then (b0, 1)
      else if 0xC2 \<le> b0 \<and> b0 \<le> 0xDF \<and> 2 \<le> length bs \<and> continuation lo hi b1 then ((b0 - 0xC0) * 64 + (b1 - 0x80), 2)
      else if 0xE0 \<le> b0 \<and> b0 \<le> 0xEF \<and> 3 \<le> length bs \<and> continuation lo hi b1 \<and> continuation 0x80 0xBF b2
        then ((b0 - 0xE0) * 4096 + (b1 - 0x80) * 64 + (b2 - 0x80), 3)
      else if 0xF0 \<le> b0 \<and> b0 \<le> 0xF4 \<and> 4 \<le> length bs \<and> continuation lo hi b1 \<and> continuation 0x80 0xBF b2 \<and> continuation 0x80 0xBF b3
        then ((b0 - 0xF0) * 262144 + (b1 - 0x80) * 4096 + (b2 - 0x80) * 64 + (b3 - 0x80), 4)
      else (0xFFFD, 1))"

lemma DecodeRune_width: "1 \<le> snd (DecodeRune bs)"
  by (simp add: DecodeRune_def Let_def)

text \<open>The runes of a string, each with its bytes.\<close>

function runes :: "string \<Rightarrow> (nat \<times> string) list" where
  "runes s =
     (if s = [] then []
      else (let (r, n) = DecodeRune (map of_char s) in (r, take n s) # runes (drop n s)))"
  by auto
termination
proof (relation "measure length")
  fix s :: string and x r n
  assume "s \<noteq> []" "x = DecodeRune (map of_char s)" "(r, n) = x"
  then show "(drop n s, s) \<in> measure length" using DecodeRune_width [of "map of_char s"] by (auto simp: prod_eq_iff)
qed simp

declare runes.simps [simp del]

definition IsControl :: "nat \<Rightarrow> bool" where
  "IsControl r \<longleftrightarrow> r < 0x20 \<or> (0x7F \<le> r \<and> r < 0xA0)"

definition IsSpace :: "nat \<Rightarrow> bool" where
  "IsSpace r \<longleftrightarrow> (9 \<le> r \<and> r \<le> 13) \<or> (0x2000 \<le> r \<and> r \<le> 0x200A) \<or>
     r \<in> {0x20, 0x85, 0xA0, 0x1680, 0x2028, 0x2029, 0x202F, 0x205F, 0x3000}"

definition TrimSpace :: "string \<Rightarrow> string" where
  "TrimSpace s = concat (map snd (rev (dropWhile (IsSpace \<circ> fst) (rev (dropWhile (IsSpace \<circ> fst) (runes s))))))"

subsection \<open>profile.go\<close>

definition maxDisplayNameLength :: nat where "maxDisplayNameLength = 50"

definition bidiControlChars :: "nat list" where
  "bidiControlChars = [0x202A, 0x202B, 0x202C, 0x202D, 0x202E, 0x2066, 0x2067, 0x2068, 0x2069]"

definition validateDisplayName :: "string \<Rightarrow> string option" where
  "validateDisplayName s =
     (if length (runes s) > maxDisplayNameLength then Some ''display_name_too_long''
      else if \<exists>r\<in>set (map fst (runes s)). IsControl r \<or> r \<in> set bidiControlChars then Some ''display_name_invalid_characters''
      else None)"

definition profile_of :: "user \<Rightarrow> Profile" where
  "profile_of u = \<lparr>pf_UserID = us_id u, pf_DisplayName = us_display_name u, pf_AvatarKey = us_avatar_key u,
     pf_AvatarUpdatedAt = us_avatar_updated_at u, pf_AvatarURL64 = None, pf_AvatarURL256 = None\<rparr>"

definition getProfile :: "runtime \<Rightarrow> env \<Rightarrow> nat \<Rightarrow> auth_db \<Rightarrow> string \<Rightarrow> auth_error + Profile option" where
  "getProfile rt e i db userID =
     (if fails e i then Inl AuthStatement
      else case uuid_in rt userID of
        None \<Rightarrow> Inl AuthStatement
      | Some w \<Rightarrow> Inr (map_option profile_of (find (\<lambda>u. us_id u = w) (users db))))"

definition set_display_name :: "env \<Rightarrow> string option \<Rightarrow> user \<Rightarrow> user" where
  "set_display_name e displayName u = u\<lparr>us_display_name := displayName, us_updated_at := now e\<rparr>"

text \<open>Sites: 0 begin, 1 the UPDATE, 2 the outbox, 3 commit.\<close>

definition updateProfile :: "runtime \<Rightarrow> env \<Rightarrow> auth_db \<Rightarrow> string \<Rightarrow> string option \<Rightarrow> auth_db \<times> (auth_error + Profile option)" where
  "updateProfile rt e db userID displayName =
     (if fails e 0 \<or> fails e 1 then (db, Inl AuthStatement)
      else case uuid_in rt userID of
        None \<Rightarrow> (db, Inl AuthStatement)
      | Some w \<Rightarrow>
          (case find (\<lambda>u. us_id u = w) (users db) of
             None \<Rightarrow> (db, Inr None)
           | Some u \<Rightarrow>
               (case GenerateEventID e 0 of
                  None \<Rightarrow> (db, Inl AuthRandom)
                | Some eventID \<Rightarrow>
                    (case InsertEvent rt e 2 eventID ''ProfileUpdated'' userID
                            (ProfileUpdatedEvent userID (case displayName of None \<Rightarrow> [] | Some n \<Rightarrow> n) (clock e) eventID) (auth_outbox db) of
                       None \<Rightarrow> (db, Inl AuthStatement)
                     | Some ob \<Rightarrow>
                         persist e 3 db (db\<lparr>users := update_where (\<lambda>v. us_id v = us_id u) (set_display_name e displayName) (users db), auth_outbox := ob\<rparr>)
                           AuthStatement (Some (profile_of (set_display_name e displayName u)))))))"

subsection \<open>storage.go\<close>

record stored_object =
  so_Key :: string
  so_Data :: string
  so_LastModified :: int

type_synonym bucket = "stored_object list"

definition find_object :: "string \<Rightarrow> bucket \<Rightarrow> stored_object option" where
  "find_object key b = find (\<lambda>obj. so_Key obj = key) b"

definition remove_object :: "string \<Rightarrow> bucket \<Rightarrow> bucket" where
  "remove_object key b = filter (\<lambda>obj. so_Key obj \<noteq> key) b"

text \<open>Reads give \<open>None\<close> for an error, a missing object among them; removing a missing object is no error.\<close>

definition statObject :: "env \<Rightarrow> nat \<Rightarrow> string \<Rightarrow> bucket \<Rightarrow> nat option" where
  "statObject e i key b = (if fails e i then None else map_option (\<lambda>obj. length (so_Data obj)) (find_object key b))"

definition getObject :: "env \<Rightarrow> nat \<Rightarrow> string \<Rightarrow> bucket \<Rightarrow> string option" where
  "getObject e i key b = (if fails e i then None else map_option so_Data (find_object key b))"

definition putObject :: "env \<Rightarrow> nat \<Rightarrow> string \<Rightarrow> string \<Rightarrow> bucket \<Rightarrow> bucket \<times> (unit + unit)" where
  "putObject e i key data b = persist e i b (remove_object key b @ [\<lparr>so_Key = key, so_Data = data, so_LastModified = clock e\<rparr>]) () ()"

definition removeObject :: "env \<Rightarrow> nat \<Rightarrow> string \<Rightarrow> bucket \<Rightarrow> bucket \<times> (unit + unit)" where
  "removeObject e i key b = persist e i b (remove_object key b) () ()"

record post_policy =
  po_Key :: string
  po_MinLength :: nat
  po_MaxLength :: nat
  po_Expires :: int

text \<open>The signatures of the client for the public address: a URL for a policy and for a key, or an error.\<close>

record avatarStorage =
  st_PresignedPostPolicy :: "post_policy \<Rightarrow> string option"
  st_PresignedGetObject :: "string \<Rightarrow> string option"

definition avatarUploadURLTTL :: int where "avatarUploadURLTTL = 5 * 60 * 1000000"

definition presignedUploadURL :: "avatarStorage \<Rightarrow> env \<Rightarrow> string \<Rightarrow> nat \<Rightarrow> (string \<times> string) option" where
  "presignedUploadURL st e userID maxBytes =
     (case GenerateEventID e 0 of
        None \<Rightarrow> None
      | Some uploadID \<Rightarrow>
          (let key = ''avatars/'' @ userID @ ''/'' @ uploadID
           in map_option (\<lambda>url. (url, key))
                (st_PresignedPostPolicy st \<lparr>po_Key = key, po_MinLength = 1, po_MaxLength = maxBytes, po_Expires = clock e + avatarUploadURLTTL\<rparr>)))"

definition presignedGetURL :: "avatarStorage \<Rightarrow> string \<Rightarrow> string option" where
  "presignedGetURL st key = st_PresignedGetObject st key"

subsection \<open>avatar.go\<close>

definition maxAvatarUploadBytes :: nat where "maxAvatarUploadBytes = 8 * 1024 * 1024"
definition maxAvatarPixels :: int where "maxAvatarPixels = 20000000"
definition avatarThumbnailSize :: nat where "avatarThumbnailSize = 64"
definition avatarStandardSize :: nat where "avatarStandardSize = 256"
definition avatarJPEGQuality :: nat where "avatarJPEGQuality = 85"

datatype avatar_error = errAvatarTooLarge | errAvatarUnsupportedType | errAvatarTooManyPixels | errAvatarDecodeFailed

fun avatarErrorCode :: "avatar_error \<Rightarrow> string" where
  "avatarErrorCode errAvatarTooLarge = ''avatar_too_large''"
| "avatarErrorCode errAvatarUnsupportedType = ''avatar_unsupported_type''"
| "avatarErrorCode errAvatarTooManyPixels = ''avatar_too_many_pixels''"
| "avatarErrorCode errAvatarDecodeFailed = ''avatar_decode_failed''"

definition avatarKeyOwnedBy :: "string \<Rightarrow> string \<Rightarrow> bool" where
  "avatarKeyOwnedBy key userID =
     (let parts = split_at CHR ''/'' key in length parts = 3 \<and> parts ! 0 = ''avatars'' \<and> parts ! 1 = userID \<and> parts ! 2 \<noteq> [])"

definition avatarThumbnailKey :: "string \<Rightarrow> nat \<Rightarrow> string" where
  "avatarThumbnailKey base px = base @ ''/'' @ show_int (int px)"

text \<open>A rectangle: its corner and its opposite corner. The image library on images of type \<open>'i\<close>.\<close>

record rectangle =
  rc_MinX :: int
  rc_MinY :: int
  rc_MaxX :: int
  rc_MaxY :: int

record 'i image_lib =
  im_DecodeConfig :: "string \<Rightarrow> (int \<times> int) option"
  im_Decode :: "string \<Rightarrow> 'i option"
  im_Bounds :: "'i \<Rightarrow> rectangle"
  im_Scale :: "'i \<Rightarrow> rectangle \<Rightarrow> nat \<Rightarrow> 'i"       \<comment> \<open>onto a white square of that size\<close>
  im_EncodeJPEG :: "'i \<Rightarrow> nat \<Rightarrow> string option"

text \<open>Of the types that \<open>http.DetectContentType\<close> knows, PNG and JPEG have these signatures, which no earlier entry of its table matches.\<close>

definition DetectContentType :: "string \<Rightarrow> string" where
  "DetectContentType data =
     (if take 8 data = [CHR 0x89, CHR ''P'', CHR ''N'', CHR ''G'', CHR 0x0D, CHR 0x0A, CHR 0x1A, CHR 0x0A] then ''image/png''
      else if take 3 data = [CHR 0xFF, CHR 0xD8, CHR 0xFF] then ''image/jpeg''
      else ''application/octet-stream'')"

definition allowedAvatarContentTypes :: "string list" where
  "allowedAvatarContentTypes = [''image/jpeg'', ''image/png'']"

definition decodeAvatarImage :: "'i image_lib \<Rightarrow> string \<Rightarrow> avatar_error + 'i" where
  "decodeAvatarImage im data =
     (if length data > maxAvatarUploadBytes then Inl errAvatarTooLarge
      else if DetectContentType (take 512 data) \<notin> set allowedAvatarContentTypes then Inl errAvatarUnsupportedType
      else case im_DecodeConfig im data of
        None \<Rightarrow> Inl errAvatarDecodeFailed
      | Some (cw, ch) \<Rightarrow>
          if wrap64 (cw * ch) > maxAvatarPixels then Inl errAvatarTooManyPixels
          else (case im_Decode im data of None \<Rightarrow> Inl errAvatarDecodeFailed | Some img \<Rightarrow> Inr img))"

definition crop_rectangle :: "rectangle \<Rightarrow> rectangle" where
  "crop_rectangle b =
     (let w = rc_MaxX b - rc_MinX b; h = rc_MaxY b - rc_MinY b;
          side = (if h < w then h else w);
          left = rc_MinX b + (w - side) div 2;
          top = rc_MinY b + (h - side) div 2
      in \<lparr>rc_MinX = left, rc_MinY = top, rc_MaxX = left + side, rc_MaxY = top + side\<rparr>)"

definition cropAndResize :: "'i image_lib \<Rightarrow> 'i \<Rightarrow> nat \<Rightarrow> 'i" where
  "cropAndResize im img px = im_Scale im img (crop_rectangle (im_Bounds im img)) px"

definition with_url :: "avatarStorage \<Rightarrow> string \<Rightarrow> nat \<Rightarrow> string option" where
  "with_url st key px = presignedGetURL st (avatarThumbnailKey key px)"

definition withAvatarURLs :: "avatarStorage \<Rightarrow> Profile \<Rightarrow> Profile" where
  "withAvatarURLs st p =
     (case pf_AvatarKey p of
        None \<Rightarrow> p
      | Some key \<Rightarrow> p\<lparr>pf_AvatarURL64 := with_url st key avatarThumbnailSize, pf_AvatarURL256 := with_url st key avatarStandardSize\<rparr>)"

definition getProfileHandler :: "runtime \<Rightarrow> avatarStorage \<Rightarrow> env \<Rightarrow> auth_db \<Rightarrow> string \<Rightarrow> auth_body http_response" where
  "getProfileHandler rt st e db userID =
     (if userID = [] then json_error 400 ''missing_user_id_header''
      else case getProfile rt e 0 db userID of
        Inl err \<Rightarrow> json_error 500 ''internal_error''
      | Inr None \<Rightarrow> json_error 404 ''user_not_found''
      | Inr (Some p) \<Rightarrow> json_ok 200 (AuthProfile (withAvatarURLs st p)))"

definition updateProfileHandler ::
  "runtime \<Rightarrow> avatarStorage \<Rightarrow> env \<Rightarrow> auth_db \<Rightarrow> string \<Rightarrow> string option \<Rightarrow> auth_db \<times> auth_body http_response" where
  "updateProfileHandler rt st e db userID req =
     (if userID = [] then (db, json_error 400 ''missing_user_id_header'')
      else case req of
        None \<Rightarrow> (db, json_error 400 ''invalid_request_body'')
      | Some requested \<Rightarrow>
          (let trimmed = TrimSpace requested; invalid = (if trimmed = [] then None else validateDisplayName trimmed) in
           case invalid of
             Some message \<Rightarrow> (db, json_error 400 message)
           | None \<Rightarrow>
               (case updateProfile rt e db userID (if trimmed = [] then None else Some trimmed) of
                  (db', Inl err) \<Rightarrow> (db', json_error 500 ''internal_error'')
                | (db', Inr None) \<Rightarrow> (db', json_error 404 ''user_not_found'')
                | (db', Inr (Some p)) \<Rightarrow> (db', json_ok 200 (AuthProfile (withAvatarURLs st p))))))"

subsection \<open>avatar\_rate\_limit.go\<close>

definition recordAvatarUploadAttempt :: "runtime \<Rightarrow> env \<Rightarrow> nat \<Rightarrow> auth_db \<Rightarrow> string \<Rightarrow> int \<Rightarrow> int \<Rightarrow> auth_db \<times> (auth_error + bool)" where
  "recordAvatarUploadAttempt rt e i db userID limit window =
     (case uuid_in rt userID of
        None \<Rightarrow> (db, Inl AuthStatement)
      | Some u \<Rightarrow>
          if int (length (filter (\<lambda>a. ut_user_id a = u \<and> now e - window < ut_attempted_at a) (avatar_upload_attempts db))) < limit
          then persist e i db (db\<lparr>avatar_upload_attempts := avatar_upload_attempts db @ [\<lparr>ut_user_id = u, ut_attempted_at = now e\<rparr>]\<rparr>) AuthStatement True
          else persist e i db db AuthStatement False)"

definition avatarUploadAttemptsRetention :: int where "avatarUploadAttemptsRetention = 3600000000"

definition deleteStaleAvatarUploadAttempts :: "env \<Rightarrow> auth_db \<Rightarrow> int \<Rightarrow> auth_db \<times> (auth_error + nat)" where
  "deleteStaleAvatarUploadAttempts e db retention =
     (let stale = (\<lambda>a. ut_attempted_at a < now e - retention) in
      persist e 0 db (db\<lparr>avatar_upload_attempts := filter (\<lambda>a. \<not> stale a) (avatar_upload_attempts db)\<rparr>) AuthStatement
        (length (filter stale (avatar_upload_attempts db))))"

definition uploadAvatarURLHandler ::
  "runtime \<Rightarrow> avatarStorage \<Rightarrow> int \<Rightarrow> int \<Rightarrow> env \<Rightarrow> auth_db \<Rightarrow> string \<Rightarrow> auth_db \<times> auth_body http_response" where
  "uploadAvatarURLHandler rt st rateLimit rateWindow e db userID =
     (if userID = [] then (db, json_error 400 ''missing_user_id_header'')
      else case recordAvatarUploadAttempt rt e 0 db userID rateLimit rateWindow of
        (db', Inl err) \<Rightarrow> (db', json_error 500 ''internal_error'')
      | (db', Inr False) \<Rightarrow> (db', json_error 429 ''avatar_upload_rate_limited'')
      | (db', Inr True) \<Rightarrow>
          (case presignedUploadURL st e userID maxAvatarUploadBytes of
             None \<Rightarrow> (db', json_error 500 ''internal_error'')
           | Some (url, key) \<Rightarrow> (db', json_ok 200 (AuthUpload url key))))"

subsection \<open>Confirming an upload\<close>

definition set_avatar :: "env \<Rightarrow> string \<Rightarrow> user \<Rightarrow> user" where
  "set_avatar e key u = u\<lparr>us_avatar_key := Some key, us_avatar_updated_at := Some (now e)\<rparr>"

text \<open>Sites: 0 begin, 1 the SELECT, 2 the UPDATE, 3 commit. The result is the old key of the user, when there is the user.\<close>

definition swapAvatarKey :: "runtime \<Rightarrow> env \<Rightarrow> auth_db \<Rightarrow> string \<Rightarrow> string \<Rightarrow> auth_db \<times> (auth_error + string option option)" where
  "swapAvatarKey rt e db userID newKey =
     (if fails e 0 \<or> fails e 1 then (db, Inl AuthStatement)
      else case uuid_in rt userID of
        None \<Rightarrow> (db, Inl AuthStatement)
      | Some w \<Rightarrow>
          (case find (\<lambda>u. us_id u = w) (users db) of
             None \<Rightarrow> (db, Inr None)
           | Some u \<Rightarrow>
               if fails e 2 then (db, Inl AuthStatement)
               else persist e 3 db (db\<lparr>users := update_where (\<lambda>v. us_id v = w) (set_avatar e newKey) (users db)\<rparr>) AuthStatement (Some (us_avatar_key u))))"

text \<open>The last part of the handler: the thumbnails are stored. Sites 24 to 26 are removals, 4 reads the profile.\<close>

definition finish_confirm ::
  "runtime \<Rightarrow> avatarStorage \<Rightarrow> env \<Rightarrow> auth_db \<Rightarrow> bucket \<Rightarrow> string \<Rightarrow> string \<Rightarrow> auth_db \<times> bucket \<times> auth_body http_response" where
  "finish_confirm rt st e db b userID key =
     (let b1 = fst (removeObject e 24 key b) in
      case swapAvatarKey rt e db userID key of
        (db', Inl err) \<Rightarrow> (db', b1, json_error 500 ''internal_error'')
      | (db', Inr None) \<Rightarrow> (db', b1, json_error 404 ''user_not_found'')
      | (db', Inr (Some oldKey)) \<Rightarrow>
          (let b2 = (case oldKey of
                       None \<Rightarrow> b1
                     | Some old \<Rightarrow>
                         if old = key then b1
                         else fst (removeObject e 26 (avatarThumbnailKey old avatarStandardSize)
                                (fst (removeObject e 25 (avatarThumbnailKey old avatarThumbnailSize) b1))))
           in (db', b2, case getProfile rt e 4 db' userID of
                          Inr (Some p) \<Rightarrow> json_ok 200 (AuthProfile (withAvatarURLs st p))
                        | _ \<Rightarrow> json_error 500 ''internal_error'')))"

text \<open>Sites 20 to 23: stat, get and the two puts.\<close>

definition confirmAvatarHandler ::
  "runtime \<Rightarrow> avatarStorage \<Rightarrow> 'i image_lib \<Rightarrow> env \<Rightarrow> auth_db \<Rightarrow> bucket \<Rightarrow> string \<Rightarrow> string option
   \<Rightarrow> auth_db \<times> bucket \<times> auth_body http_response" where
  "confirmAvatarHandler rt st im e db b userID req =
     (if userID = [] then (db, b, json_error 400 ''missing_user_id_header'')
      else case req of
        None \<Rightarrow> (db, b, json_error 400 ''invalid_request_body'')
      | Some key \<Rightarrow>
          if \<not> avatarKeyOwnedBy key userID then (db, b, json_error 400 ''invalid_key'')
          else (case statObject e 20 key b of
            None \<Rightarrow> (db, b, json_error 404 ''avatar_upload_not_found'')
          | Some len \<Rightarrow>
              if len > maxAvatarUploadBytes then (db, b, json_error 400 ''avatar_too_large'')
              else (case getObject e 21 key b of
                None \<Rightarrow> (db, b, json_error 500 ''internal_error'')
              | Some data \<Rightarrow>
                  (case decodeAvatarImage im data of
                     Inl err \<Rightarrow> (db, b, json_error 400 (avatarErrorCode err))
                   | Inr img \<Rightarrow>
                       (case (im_EncodeJPEG im (cropAndResize im img avatarThumbnailSize) avatarJPEGQuality,
                              im_EncodeJPEG im (cropAndResize im img avatarStandardSize) avatarJPEGQuality) of
                          (Some thumb64, Some thumb256) \<Rightarrow>
                            (case putObject e 22 (avatarThumbnailKey key avatarThumbnailSize) thumb64 b of
                               (b1, Inl _) \<Rightarrow> (db, b1, json_error 500 ''internal_error'')
                             | (b1, Inr _) \<Rightarrow>
                                 (case putObject e 23 (avatarThumbnailKey key avatarStandardSize) thumb256 b1 of
                                    (b2, Inl _) \<Rightarrow> (db, b2, json_error 500 ''internal_error'')
                                  | (b2, Inr _) \<Rightarrow> finish_confirm rt st e db b2 userID key))
                        | _ \<Rightarrow> (db, b, json_error 500 ''internal_error''))))))"

subsection \<open>avatar\_cleanup.go\<close>

definition avatarCleanupRetention :: int where "avatarCleanupRetention = 24 * 3600 * 1000000"

text \<open>
  The loop over the listing, one removal per site; \<open>stop\<close> is the number of objects after which the listing fails, when it does.
\<close>

fun cleanup_loop :: "env \<Rightarrow> nat option \<Rightarrow> nat \<Rightarrow> int \<Rightarrow> stored_object list \<Rightarrow> bucket \<Rightarrow> nat \<Rightarrow> bucket \<times> (nat + nat)" where
  "cleanup_loop e stop i cutoff [] b deleted = (b, if stop = Some i then Inl deleted else Inr deleted)"
| "cleanup_loop e stop i cutoff (obj # objs) b deleted =
     (if stop = Some i then (b, Inl deleted)
      else if count_list (so_Key obj) CHR ''/'' \<noteq> 2 \<or> so_LastModified obj > cutoff
        then cleanup_loop e stop (Suc i) cutoff objs b deleted
      else (case removeObject e i (so_Key obj) b of
              (b', Inl _) \<Rightarrow> cleanup_loop e stop (Suc i) cutoff objs b' deleted
            | (b', Inr _) \<Rightarrow> cleanup_loop e stop (Suc i) cutoff objs b' (Suc deleted)))"

definition cleanupStalePendingAvatars :: "env \<Rightarrow> nat option \<Rightarrow> int \<Rightarrow> bucket \<Rightarrow> bucket \<times> (nat + nat)" where
  "cleanupStalePendingAvatars e stop retention b =
     cleanup_loop e stop 0 (clock e - retention) (filter (\<lambda>obj. take 8 (so_Key obj) = ''avatars/'') b) b 0"

end
