(* ===== verification/Auth_Passwords.thy ===== *)
theory Auth_Passwords
  imports Auth_Profile
begin

text \<open>
  The format of auth-svc's password hashes: what \<open>hashPassword\<close> writes, \<open>verifyPassword\<close> reads back. The file ends with
  the library stand-ins that the examples of the properties share.
\<close>

subsection \<open>Password hashes\<close>

lemma std64_val_char [simp]:
  assumes "v < 64"
  shows "std64_val (std64_char v) = Some v"
proof -
  consider "v < 62" | "v = 62" | "v = 63" using assms by linarith
  then show ?thesis
  proof cases
    case 1
    then have "(of_char (b64_char v) :: nat) \<notin> {43, 45, 47, 95}"
      unfolding b64_char_cases [OF assms] by auto
    then have "b64_char v \<notin> {CHR ''+'', CHR ''/'', CHR ''-'', CHR ''_''}" by auto
    then show ?thesis using 1 assms by (simp add: std64_val_def std64_char_def)
  qed (simp_all add: std64_val_def std64_char_def)
qed

lemma of_std64_char: "v < 64 \<Longrightarrow> (of_char (std64_char v) :: nat) =
    (if v < 26 then 65 + v else if v < 52 then 71 + v else if v < 62 then v - 4 else if v = 62 then 43 else 47)"
  using b64_char_cases [of v] by (auto simp: std64_char_def)

lemma std64_char_not:
  assumes "v < 64"
  shows "std64_char v \<noteq> CHR 0x0A" "std64_char v \<noteq> CHR 0x0D" "std64_char v \<noteq> CHR ''$''"
  using of_std64_char [OF assms] by (auto split: if_splits)

lemma StdDecode_StdEncode: "StdDecode (StdEncode bs) = Some bs"
proof -
  have small: "v < 64" if "v \<in> set (sextets bs)" for v using sextets_small that by blast
  have "filter (\<lambda>c. c \<notin> {CHR 0x0A, CHR 0x0D}) (StdEncode bs) = StdEncode bs"
    using small by (auto simp: StdEncode_def filter_id_conv std64_char_not)
  moreover have vals: "map std64_val (StdEncode bs) = map Some (sextets bs)"
    using small by (simp add: StdEncode_def)
  ultimately show ?thesis
    by (simp only: StdDecode_def Let_def vals) (auto simp: comp_def decode_sextets)
qed

lemma StdEncode_no_dollar: "CHR ''$'' \<notin> set (StdEncode bs)"
  using sextets_small [of bs] std64_char_not(3) by (force simp: StdEncode_def)

lemma phc_parts:
  "split_at CHR ''$'' (phc_string salt hash) = [[], ''argon2id'', ''v=19'', ''m=19456,t=2,p=1'', StdEncode salt, StdEncode hash]"
proof -
  have "phc_string salt hash = [] @ CHR ''$'' # ''argon2id'' @ CHR ''$'' # ''v=19'' @ CHR ''$'' # ''m=19456,t=2,p=1'' @ CHR ''$'' # StdEncode salt @ CHR ''$'' # StdEncode hash"
  proof -
    have "show_int (int argon2_Version) = ''19''" "show_int (int argonMemory) = ''19456''" "show_int (int argonTime) = ''2''" "show_int (int argonThreads) = ''1''"
      by code_simp+
    then show ?thesis by (simp add: phc_string_def)
  qed
  then show ?thesis
    by (simp only: split_at_sep split_at_word StdEncode_no_dollar set_simps) (simp add: split_at_sep split_at_word StdEncode_no_dollar)
qed

lemma phc_params:
  "scans_version ''v=19''" "split_at CHR '','' ''m=19456,t=2,p=1'' = [''m=19456'', ''t=2'', ''p=1'']"
  "params_loop [''m=19456'', ''t=2'', ''p=1''] \<lparr>ap_memory = 0, ap_time = 0, ap_threads = 0\<rparr> =
     Some \<lparr>ap_memory = argonMemory, ap_time = argonTime, ap_threads = argonThreads\<rparr>"
proof -
  have p: "split_param ''m=19456'' = Some (''m'', ''19456'')" "split_param ''t=2'' = Some (''t'', ''2'')" "split_param ''p=1'' = Some (''p'', ''1'')"
    by (simp_all add: split_param_def)
  have n: "ParseUint32 ''19456'' = Some 19456" "ParseUint32 ''2'' = Some 2" "ParseUint32 ''1'' = Some 1"
    by (simp_all add: ParseUint32_def is_digit_conv num_of_def digit_val_def)
  show "params_loop [''m=19456'', ''t=2'', ''p=1''] \<lparr>ap_memory = 0, ap_time = 0, ap_threads = 0\<rparr> =
     Some \<lparr>ap_memory = argonMemory, ap_time = argonTime, ap_threads = argonThreads\<rparr>"
    by (simp add: p n argonMemory_def argonTime_def argonThreads_def)
qed (simp_all add: scans_version_def is_digit_conv num_of_def digit_val_def in_int64_def)

lemma argon_positive [simp]: "argonTime \<noteq> 0" "argonThreads \<noteq> 0"
  by (simp_all add: argonTime_def argonThreads_def)

lemma verify_phc:
  assumes "length key = argonKeyLen"
  shows "verifyPassword lib p (phc_string salt key) = Inr (key = argon2_IDKey lib p salt argonTime argonMemory argonThreads argonKeyLen)"
  unfolding verifyPassword_def phc_parts Let_def
  by (simp add: phc_params StdDecode_StdEncode assms del: params_loop.simps)

text \<open>
  C35: A stored password hash is read back with the salt and the costs it was made with: checking a password against the
  hash of another never fails and says whether Argon2 gives both the same key under that salt. So the password itself
  is always accepted.
\<close>

theorem password_hash_roundtrip:
  assumes "hashPassword lib rand password = Inr h" "\<And>p s t m k n. length (argon2_IDKey lib p s t m k n) = n"
  shows "\<exists>salt. length salt = saltLen \<and>
    (\<forall>p. verifyPassword lib p h = Inr (argon2_IDKey lib password salt argonTime argonMemory argonThreads argonKeyLen =
                                       argon2_IDKey lib p salt argonTime argonMemory argonThreads argonKeyLen))"
proof -
  from assms(1) obtain r where r: "rand = Some r" by (auto simp: hashPassword_def split: option.splits)
  have "h = phc_string (filled saltLen r) (argon2_IDKey lib password (filled saltLen r) argonTime argonMemory argonThreads argonKeyLen)"
    using assms(1) r by (simp add: hashPassword_def Let_def)
  then show ?thesis using verify_phc [OF assms(2)] by (intro exI [of _ "filled saltLen r"]) (simp add: filled_def)
qed

subsection \<open>Stand-ins for the examples\<close>

text \<open>Argon2, SHA-256 and the signature of a JWT are stood in for by simple functions.\<close>

definition sample_auth_lib :: auth_lib where
  "sample_auth_lib = \<lparr>lb_runtime = plain_runtime, mail_ParseAddress = (\<lambda>_. True), sha256_Sum256 = (\<lambda>s. if s = ''123456'' then [1] else []),
     argon2_IDKey = (\<lambda>p s t m k n. take n (p @ replicate n CHR ''x'')), jwt_SignedString = (\<lambda>secret c. Some (secret @ cl_UserID c))\<rparr>"

definition sample_auth_svc :: auth_svc where
  "sample_auth_svc = \<lparr>sv_lib = sample_auth_lib, sv_smtpFrom = ''bank'', sv_jwtSecret = ''s'', sv_dummyPasswordHash = phc_string [] []\<rparr>"

definition sample_password_hash :: string where
  "sample_password_hash = projr (hashPassword sample_auth_lib (Some (replicate 16 0)) ''password'')"

lemma sample_hash: "hashPassword sample_auth_lib (Some (replicate 16 0)) ''password'' = Inr sample_password_hash"
  by (simp add: sample_password_hash_def hashPassword_def Let_def)

lemma sample_auth_lib_sel [simp]: "mail_ParseAddress sample_auth_lib email" "lb_runtime sample_auth_lib = plain_runtime"
  by (simp_all add: sample_auth_lib_def)

lemma sample_argon [simp]: "length (argon2_IDKey sample_auth_lib p s t m k n) = n"
  by (simp add: sample_auth_lib_def)

lemma sample_password_verifies: "verifyPassword sample_auth_lib ''password'' sample_password_hash = Inr True"
  unfolding sample_password_hash_def hashPassword_def Let_def option.case sum.sel by (simp add: verify_phc)

theorem password_hash_roundtrip_witness: "verifyPassword sample_auth_lib ''password'' sample_password_hash = Inr True"
  using password_hash_roundtrip [OF sample_hash sample_argon] by auto

end
