(* ===== verification/Auth_Effects.thy ===== *)
theory Auth_Effects
  imports Auth_Passwords
begin

text \<open>
  What every operation of auth-svc does to the tables of users and codes, as one of six effects, and the invariant of
  those tables that each effect keeps.
\<close>

subsection \<open>What the operations do to users and codes\<close>

text \<open>The columns that the rules about activation are about.\<close>

definition us_row :: "user \<Rightarrow> string \<times> string \<times> string" where
  "us_row u = (us_id u, us_email u, us_status u)"

definition issued :: "env \<Rightarrow> string \<Rightarrow> string \<Rightarrow> string \<Rightarrow> verification_code list \<Rightarrow> verification_code list" where
  "issued e i purpose codeHash cs = update_where (unused_code i purpose) (mark_used e) cs @ [new_code e i purpose codeHash]"

definition guessed :: "string \<Rightarrow> (verification_code \<Rightarrow> verification_code) \<Rightarrow> verification_code list \<Rightarrow> verification_code list" where
  "guessed i f cs = update_where (\<lambda>c. vc_id c = i) f cs"

text \<open>
  The effects of one operation on the two tables, with the events it inserts and the code it judged. A guess is judged
  when it is compared with the hash of a code.
\<close>

inductive auth_effect :: "auth_db \<Rightarrow> auth_db \<Rightarrow> user_event list \<Rightarrow> string option \<Rightarrow> bool" where
  kept: "auth_effect db db' evs None"
  if "map us_row (users db') = map us_row (users db)" "verification_codes db' = verification_codes db" "filter is_UserActivatedEvent evs = []"
| enrolled: "auth_effect db db' [] None"
  if "us_id u \<notin> us_id ` set (users db)" "us_email u \<notin> us_email ` set (users db)" "us_status u = ''pending_verification''"
    "users db' = users db @ [u]" "verification_codes db' = issued e (us_id u) p h (verification_codes db)" "gen_random_uuid e 1 \<notin> vc_id ` set (verification_codes db)"
| issuing: "auth_effect db db' [] None"
  if "map us_row (users db') = map us_row (users db)" "u \<in> set (users db)" "p = ''email_verify'' \<longrightarrow> us_status u = ''pending_verification''"
    "verification_codes db' = issued e (us_id u) p h (verification_codes db)" "gen_random_uuid e 1 \<notin> vc_id ` set (verification_codes db)"
| wrong: "auth_effect db db' [] (Some (vc_id c))"
  if "users db' = users db" "c \<in> set (verification_codes db)" "unused_code i p c" "0 < vc_attempts_remaining c"
    "verification_codes db' = guessed (vc_id c) wrong_guess (verification_codes db)"
| reset: "auth_effect db db' [] (Some (vc_id c))"
  if "map us_row (users db') = map us_row (users db)" "c \<in> set (verification_codes db)" "unused_code i p c" "0 < vc_attempts_remaining c"
    "verification_codes db' = guessed (vc_id c) (mark_used e) (verification_codes db)"
| activated: "auth_effect db db' [UserActivatedEvent (us_id u) (us_email u) t ev] (Some (vc_id c))"
  if "u \<in> set (users db)" "c \<in> set (verification_codes db)" "unused_code (us_id u) ''email_verify'' c" "0 < vc_attempts_remaining c"
    "verification_codes db' = guessed (vc_id c) (mark_used e) (verification_codes db)"
    "map us_row (users db') = map us_row (update_where (\<lambda>v. us_id v = us_id u) (activate e) (users db))"

text \<open>The events an operation inserts: the outbox only grows at its end.\<close>

definition new_events :: "auth_db \<Rightarrow> auth_db \<Rightarrow> user_event list" where
  "new_events db db' = map o_payload (drop (length (ob_rows (auth_outbox db))) (ob_rows (auth_outbox db')))"

lemma new_events_same [simp]: "auth_outbox db' = auth_outbox db \<Longrightarrow> new_events db db' = []"
  by (simp add: new_events_def)

lemma new_events_InsertEvent:
  assumes "InsertEvent rt e i eventID ty k p (auth_outbox db) = Some ob" "auth_outbox db' = ob"
  shows "new_events db db' = [p]"
  using assms(1) by (rule InsertEvent_SomeD) (simp add: new_events_def assms(2) new_row_def)

lemma user_by_email_Inr:
  assumes "user_by_email e i db email = Inr r"
  shows "r = find (\<lambda>u. us_email u = email) (users db)"
  using assms by (auto simp: user_by_email_def split: if_splits)

lemma user_by_email_Some:
  assumes "user_by_email e i db email = Inr (Some u)"
  shows "u \<in> set (users db)" "us_email u = email"
proof -
  have "find (\<lambda>u. us_email u = email) (users db) = Some u" using user_by_email_Inr [OF assms] by simp
  from find_Some_in [OF this] show "u \<in> set (users db)" "us_email u = email" by simp_all
qed

lemma user_by_email_None: "user_by_email e i db email = Inr None \<Longrightarrow> email \<notin> us_email ` set (users db)"
  using user_by_email_Inr [of e i db email None] find_None_in [of "\<lambda>u. us_email u = email" "users db"] by (metis imageE)

lemma invalidateAndIssueCode_Inr:
  assumes "invalidateAndIssueCode e db i p h = Inr db'"
  shows "db' = db\<lparr>verification_codes := issued e i p h (verification_codes db)\<rparr>" "gen_random_uuid e 1 \<notin> vc_id ` set (verification_codes db)"
  using assms by (auto simp: invalidateAndIssueCode_def issued_def split: if_splits)

lemma update_where_rows: "(\<And>u. us_row (f u) = us_row u) \<Longrightarrow> map us_row (update_where p f us) = map us_row us"
  by (simp add: row_simps)

lemma newest_code_in:
  assumes "newest_code db i p = Some c"
  shows "c \<in> set (verification_codes db)" "unused_code i p c"
proof -
  from assms obtain cs where "sort_desc vc_created_at (filter (unused_code i p) (verification_codes db)) = c # cs"
    by (auto simp: newest_code_def split: list.splits)
  then have "c \<in> set (sort_desc vc_created_at (filter (unused_code i p) (verification_codes db)))" by (metis list.set_intros(1))
  then show "c \<in> set (verification_codes db)" "unused_code i p c" by simp_all
qed

lemma consume_cases:
  assumes "consumeVerificationCode lib e db i p code = Inr (db', outcome, n)"
  obtains (unjudged) "db' = db" "outcome \<notin> {verifyOK, verifyWrongCode}"
    | (wrong) c where "newest_code db i p = Some c" "0 < vc_attempts_remaining c" "hashCode lib code \<noteq> vc_code_hash c"
        "db' = change_code (vc_id c) wrong_guess db" "outcome = verifyWrongCode" "\<not> clock e > vc_expires_at c"
    | (right) c where "newest_code db i p = Some c" "0 < vc_attempts_remaining c" "hashCode lib code = vc_code_hash c"
        "db' = change_code (vc_id c) (mark_used e) db" "outcome = verifyOK" "\<not> clock e > vc_expires_at c"
proof (cases "newest_code db i p")
  case None
  then show thesis using assms by (intro unjudged) (auto simp: consumeVerificationCode_def split: if_splits)
next
  case (Some c)
  consider "clock e > vc_expires_at c \<or> vc_attempts_remaining c \<le> 0" | "\<not> clock e > vc_expires_at c" "0 < vc_attempts_remaining c" "hashCode lib code = vc_code_hash c"
    | "\<not> clock e > vc_expires_at c" "0 < vc_attempts_remaining c" "hashCode lib code \<noteq> vc_code_hash c" by linarith
  then show thesis
  proof cases
    case 1
    then show thesis using assms Some by (intro unjudged) (auto simp: consumeVerificationCode_def split: if_splits)
  next
    case 2
    then show thesis using assms Some by (intro right [OF Some]) (auto simp: consumeVerificationCode_def split: if_splits)
  next
    case 3
    then show thesis using assms Some by (intro wrong [OF Some]) (auto simp: consumeVerificationCode_def split: if_splits)
  qed
qed

lemma change_code_sel [simp]:
  "users (change_code i f db) = users db" "auth_outbox (change_code i f db) = auth_outbox db"
  "verification_codes (change_code i f db) = guessed i f (verification_codes db)"
  by (simp_all add: change_code_def guessed_def)

lemma kept_same [simp]: "auth_effect db db [] None"
  by (rule kept) simp_all

lemma persist_effect:
  assumes "persist e i db db1 err r = (db', x)" "auth_effect db db1 evs j" "new_events db db1 = evs"
  shows "\<exists>j'. auth_effect db db' (new_events db db') j' \<and> (\<forall>y. x = Inr y \<longrightarrow> y = r \<and> j' = j)"
  using assms(1)
proof (cases rule: persist_cases)
  case lost
  have "auth_effect db db' (new_events db db') None" using lost(2) by simp
  then show ?thesis using lost(3) by blast
qed (use assms(2,3) in auto)

lemma persist_some_effect:
  assumes "persist e i db db1 err r = (db', x)" "auth_effect db db1 [] j" "auth_outbox db1 = auth_outbox db"
  shows "\<exists>j'. auth_effect db db' (new_events db db') j'"
  using persist_effect [OF assms(1,2)] assms(3) by auto

lemma register_effect:
  assumes "registerUserAndIssueCode e db email passwordHash h = (db', r)"
  shows "\<exists>j. auth_effect db db' (new_events db db') j"
proof -
  have same: ?thesis if "db' = db" using that by (intro exI [of _ None]) simp
  note d = assms [unfolded registerUserAndIssueCode_def]
  show ?thesis
  proof (cases "fails e 0")
    case False
    show ?thesis
    proof (cases "user_by_email e 1 db email")
      case (Inr found)
      show ?thesis
      proof (cases found)
        case None
        let ?u = "new_user e email passwordHash" let ?db = "db\<lparr>users := users db @ [?u]\<rparr>"
        show ?thesis
        proof (cases "fails e 2 \<or> gen_random_uuid e 0 \<in> us_id ` set (users db)")
          case True
          then show ?thesis using d Inr None False by (intro same) (auto split: if_splits)
        next
          case free: False
          show ?thesis
          proof (cases "invalidateAndIssueCode e ?db (gen_random_uuid e 0) ''email_verify'' h")
            case (Inl err)
            then show ?thesis using d Inr None False free by (intro same) auto
          next
            case (Inr db1)
            have eff: "auth_effect db db1 [] None"
              using invalidateAndIssueCode_Inr [OF Inr] free user_by_email_None [of e 1 db email] \<open>user_by_email e 1 db email = Inr found\<close> None
              by (intro enrolled [of ?u]) (auto simp: new_user_def)
            have "auth_outbox db1 = auth_outbox db" using invalidateAndIssueCode_Inr [OF Inr] by simp
            moreover have "persist e 5 db db1 AuthStatement False = (db', r)"
              using d Inr \<open>user_by_email e 1 db email = Inr found\<close> None False free by simp
            ultimately show ?thesis using persist_some_effect [OF _ eff] by simp
          qed
        qed
      next
        case (Some u)
        let ?db = "db\<lparr>users := update_where (\<lambda>v. us_id v = us_id u) (set_password e passwordHash) (users db)\<rparr>"
        note u = user_by_email_Some [OF Inr [unfolded Some]]
        show ?thesis
        proof (cases "us_status u \<noteq> ''pending_verification'' \<or> fails e 2")
          case True
          then show ?thesis using d Inr Some False by (intro same) (auto split: if_splits)
        next
          case pending: False
          show ?thesis
          proof (cases "invalidateAndIssueCode e ?db (us_id u) ''email_verify'' h")
            case (Inl err)
            then show ?thesis using d Inr Some False pending by (intro same) auto
          next
            case issue: (Inr db1)
            have eff: "auth_effect db db1 [] None"
              using invalidateAndIssueCode_Inr [OF issue] pending u
              by (intro issuing [of db1 db u]) (auto intro!: update_where_rows simp: set_password_def us_row_def)
            have "auth_outbox db1 = auth_outbox db" using invalidateAndIssueCode_Inr [OF issue] by simp
            moreover have "persist e 5 db db1 AuthStatement False = (db', r)"
              using d Inr Some False pending issue by simp
            ultimately show ?thesis using persist_some_effect [OF _ eff] by simp
          qed
        qed
      qed
    qed (use d False same in auto)
  qed (use d same in auto)
qed

text \<open>Resending a code and the code for a reset.\<close>

lemma issue_effect:
  assumes "invalidateAndIssueCode e db (us_id u) p h = Inr db1" "u \<in> set (users db)" "p = ''email_verify'' \<longrightarrow> us_status u = ''pending_verification''"
    "persist e i db db1 err r = (db', x)"
  shows "\<exists>j. auth_effect db db' (new_events db db') j"
proof -
  have "auth_effect db db1 [] None"
    using invalidateAndIssueCode_Inr [OF assms(1)] assms(2,3) by (intro issuing [of db1 db u]) auto
  from persist_some_effect [OF assms(4) this] show ?thesis using invalidateAndIssueCode_Inr [OF assms(1)] by simp
qed

lemma resend_effect:
  assumes "resendVerificationCode e db email h = (db', r)"
  shows "\<exists>j. auth_effect db db' (new_events db db') j"
proof (cases "\<exists>u db1. user_by_email e 1 db email = Inr (Some u) \<and> us_status u = ''pending_verification'' \<and> \<not> fails e 0 \<and>
    invalidateAndIssueCode e db (us_id u) ''email_verify'' h = Inr db1")
  case True
  then obtain u db1 where u: "user_by_email e 1 db email = Inr (Some u)" "us_status u = ''pending_verification''" "\<not> fails e 0"
    "invalidateAndIssueCode e db (us_id u) ''email_verify'' h = Inr db1" by blast
  have "persist e 5 db db1 AuthStatement resendOK = (db', r)" using assms u by (simp add: resendVerificationCode_def)
  from issue_effect [OF u(4) user_by_email_Some(1) [OF u(1)] _ this] show ?thesis using u(2) by simp
next
  case False
  then have "db' = db" using assms by (auto simp: resendVerificationCode_def split: if_splits sum.splits option.splits)
  then show ?thesis by (intro exI [of _ None]) simp
qed

lemma reset_code_effect:
  assumes "issuePasswordResetCode e db email h = (db', r)"
  shows "\<exists>j. auth_effect db db' (new_events db db') j"
proof (cases "\<exists>u db1. user_by_email e 1 db email = Inr (Some u) \<and> \<not> fails e 0 \<and> invalidateAndIssueCode e db (us_id u) ''password_reset'' h = Inr db1")
  case True
  then obtain u db1 where u: "user_by_email e 1 db email = Inr (Some u)" "\<not> fails e 0"
    "invalidateAndIssueCode e db (us_id u) ''password_reset'' h = Inr db1" by blast
  have "persist e 5 db db1 AuthStatement True = (db', r)" using assms u by (simp add: issuePasswordResetCode_def)
  from issue_effect [OF u(3) user_by_email_Some(1) [OF u(1)] _ this] show ?thesis by simp
next
  case False
  then have "db' = db" using assms by (auto simp: issuePasswordResetCode_def split: if_splits sum.splits option.splits)
  then show ?thesis by (intro exI [of _ None]) simp
qed

text \<open>Which code an answer tells something about: the newest one of the user with the address.\<close>

definition judged :: "auth_db \<Rightarrow> string \<Rightarrow> string \<Rightarrow> string list" where
  "judged db email p =
     (case find (\<lambda>u. us_email u = email) (users db) of
        None \<Rightarrow> []
      | Some u \<Rightarrow> (case newest_code db (us_id u) p of None \<Rightarrow> [] | Some c \<Rightarrow> [vc_id c]))"

lemma judged_user: "user_by_email e i db email = Inr (Some u) \<Longrightarrow> newest_code db (us_id u) p = Some c \<Longrightarrow> judged db email p = [vc_id c]"
  using user_by_email_Inr [of e i db email "Some u", symmetric] by (simp add: judged_def)

lemma verify_effect:
  assumes "verifyEmailCode lib e db email code = (db', r)"
  shows "\<exists>j. auth_effect db db' (new_events db db') j \<and>
    (\<forall>out x. r = Inr (out, x) \<and> out \<in> {verifyOK, verifyWrongCode} \<longrightarrow> (\<exists>i. j = Some i \<and> judged db email ''email_verify'' = [i]))"
proof -
  have same: ?thesis if "db' = db" "\<And>out x. r = Inr (out, x) \<Longrightarrow> out \<notin> {verifyOK, verifyWrongCode}"
  proof -
    have "auth_effect db db' (new_events db db') None" using that(1) by simp
    then show ?thesis using that(2) by blast
  qed
  show ?thesis
  proof (cases "\<exists>u db1 out n. \<not> fails e 0 \<and> user_by_email e 1 db email = Inr (Some u) \<and>
      consumeVerificationCode lib e db (us_id u) ''email_verify'' code = Inr (db1, out, n)")
    case False
    then show ?thesis using assms
      by (intro same) (auto simp: verifyEmailCode_def split: if_splits sum.splits option.splits)
  next
    case True
    then obtain u db1 out n where u: "user_by_email e 1 db email = Inr (Some u)" and f: "\<not> fails e 0"
      and c: "consumeVerificationCode lib e db (us_id u) ''email_verify'' code = Inr (db1, out, n)" by blast
    note us = user_by_email_Some [OF u] and d = assms [unfolded verifyEmailCode_def]
    from c show ?thesis
    proof (cases rule: consume_cases)
      case unjudged
      then have "persist e 6 db db AuthStatement (out, [], n) = (db', r)" using d u f c by auto
      then show ?thesis using unjudged(2) by (cases rule: persist_cases) (intro same; auto)+
    next
      case (wrong c1)
      have "auth_effect db db1 [] (Some (vc_id c1))"
        using newest_code_in [OF wrong(1)] wrong(2,4) by (intro auth_effect.wrong) auto
      moreover have "persist e 6 db db1 AuthStatement (out, [], n) = (db', r)" using d u f c wrong(5) by auto
      moreover have "new_events db db1 = []" using wrong(4) by simp
      ultimately show ?thesis using persist_effect judged_user [OF u wrong(1)] by fast
    next
      case (right c1)
      show ?thesis
      proof (cases "\<exists>ev ob. \<not> fails e 4 \<and> GenerateEventID e 0 = Some ev \<and>
          InsertEvent (lb_runtime lib) e 5 ev ''UserActivated'' (us_id u) (UserActivatedEvent (us_id u) email (clock e) ev) (auth_outbox db1) = Some ob")
        case False
        then show ?thesis using d u f c right(5) by (intro same) (auto split: if_splits option.splits)
      next
        case True
        then obtain ev ob where g: "\<not> fails e 4" "GenerateEventID e 0 = Some ev"
          "InsertEvent (lb_runtime lib) e 5 ev ''UserActivated'' (us_id u) (UserActivatedEvent (us_id u) email (clock e) ev) (auth_outbox db1) = Some ob"
          by blast
        let ?db = "db1\<lparr>users := update_where (\<lambda>v. us_id v = us_id u) (activate e) (users db1), auth_outbox := ob\<rparr>"
        have "auth_effect db ?db [UserActivatedEvent (us_id u) (us_email u) (clock e) ev] (Some (vc_id c1))"
          using newest_code_in [OF right(1)] right(2,4) us(1) by (intro activated) auto
        moreover have "new_events db ?db = [UserActivatedEvent (us_id u) (us_email u) (clock e) ev]"
          using new_events_InsertEvent [OF g(3) [unfolded right(4), simplified], of ?db] us(2) by simp
        moreover have "persist e 6 db ?db AuthStatement (verifyOK, us_id u, 0) = (db', r)" using d u f c right(5) g by auto
        ultimately show ?thesis using persist_effect judged_user [OF u right(1)] by fast
      qed
    qed
  qed
qed

lemma reset_effect:
  assumes "resetPassword lib e db email code newPassword = (db', r)"
  shows "\<exists>j. auth_effect db db' (new_events db db') j \<and>
    (\<forall>out x. r = Inr (out, x) \<and> out \<in> {verifyOK, verifyWrongCode} \<longrightarrow> (\<exists>i. j = Some i \<and> judged db email ''password_reset'' = [i]))"
proof -
  have same: ?thesis if "db' = db" "\<And>out x. r = Inr (out, x) \<Longrightarrow> out \<notin> {verifyOK, verifyWrongCode}"
  proof -
    have "auth_effect db db' (new_events db db') None" using that(1) by simp
    then show ?thesis using that(2) by blast
  qed
  show ?thesis
  proof (cases "\<exists>u db1 out n. \<not> fails e 0 \<and> user_by_email e 1 db email = Inr (Some u) \<and>
      consumeVerificationCode lib e db (us_id u) ''password_reset'' code = Inr (db1, out, n)")
    case False
    then show ?thesis using assms
      by (intro same) (auto simp: resetPassword_def split: if_splits sum.splits option.splits)
  next
    case True
    then obtain u db1 out n where u: "user_by_email e 1 db email = Inr (Some u)" and f: "\<not> fails e 0"
      and c: "consumeVerificationCode lib e db (us_id u) ''password_reset'' code = Inr (db1, out, n)" by blast
    note us = user_by_email_Some [OF u] and d = assms [unfolded resetPassword_def]
    from c show ?thesis
    proof (cases rule: consume_cases)
      case unjudged
      then have "persist e 5 db db AuthStatement (out, []) = (db', r)" using d u f c by auto
      then show ?thesis using unjudged(2) by (cases rule: persist_cases) (intro same; auto)+
    next
      case (wrong c1)
      have "auth_effect db db1 [] (Some (vc_id c1))"
        using newest_code_in [OF wrong(1)] wrong(2,4) by (intro auth_effect.wrong) auto
      moreover have "persist e 5 db db1 AuthStatement (out, []) = (db', r)" using d u f c wrong(5) by auto
      moreover have "new_events db db1 = []" using wrong(4) by simp
      ultimately show ?thesis using persist_effect judged_user [OF u wrong(1)] by fast
    next
      case (right c1)
      show ?thesis
      proof (cases "\<exists>h. hashPassword lib (crand_read e 0) newPassword = Inr h \<and> \<not> fails e 4")
        case False
        then show ?thesis using d u f c right(5) by (intro same) (auto split: if_splits sum.splits)
      next
        case True
        then obtain h where g: "hashPassword lib (crand_read e 0) newPassword = Inr h" "\<not> fails e 4" by blast
        let ?db = "db1\<lparr>users := update_where (\<lambda>v. us_id v = us_id u) (set_password e h) (users db1)\<rparr>"
        have "auth_effect db ?db [] (Some (vc_id c1))"
          using newest_code_in [OF right(1)] right(2,4)
          by (intro auth_effect.reset) (auto intro!: update_where_rows simp: set_password_def us_row_def)
        moreover have "new_events db ?db = []" using right(4) by simp
        moreover have "persist e 5 db ?db AuthStatement (verifyOK, us_id u) = (db', r)" using d u f c right(5) g by auto
        ultimately show ?thesis using persist_effect judged_user [OF u right(1)] by fast
      qed
    qed
  qed
qed

lemma profile_effect:
  assumes "updateProfile rt e db userID name = (db', r)"
  shows "auth_effect db db' (new_events db db') None"
proof (cases "\<exists>w u ev ob. \<not> fails e 0 \<and> \<not> fails e 1 \<and> uuid_in rt userID = Some w \<and> find (\<lambda>u. us_id u = w) (users db) = Some u \<and> GenerateEventID e 0 = Some ev \<and>
    InsertEvent rt e 2 ev ''ProfileUpdated'' userID
      (ProfileUpdatedEvent userID (case name of None \<Rightarrow> [] | Some n \<Rightarrow> n) (clock e) ev) (auth_outbox db) = Some ob")
  case True
  then obtain w u ev ob where g: "\<not> fails e 0" "\<not> fails e 1" "uuid_in rt userID = Some w" "find (\<lambda>u. us_id u = w) (users db) = Some u" "GenerateEventID e 0 = Some ev"
    "InsertEvent rt e 2 ev ''ProfileUpdated'' userID (ProfileUpdatedEvent userID (case name of None \<Rightarrow> [] | Some n \<Rightarrow> n) (clock e) ev) (auth_outbox db) = Some ob"
    by blast
  let ?db = "db\<lparr>users := update_where (\<lambda>v. us_id v = us_id u) (set_display_name e name) (users db), auth_outbox := ob\<rparr>"
  have p: "persist e 3 db ?db AuthStatement (Some (profile_of (set_display_name e name u))) = (db', r)"
    using assms g by (simp add: updateProfile_def)
  have ev: "new_events db ?db = [ProfileUpdatedEvent userID (case name of None \<Rightarrow> [] | Some n \<Rightarrow> n) (clock e) ev]"
    using new_events_InsertEvent [OF g(6), of ?db] by simp
  have "auth_effect db ?db (new_events db ?db) None"
    unfolding ev by (rule kept) (auto intro!: update_where_rows simp: set_display_name_def us_row_def)
  with p show ?thesis by (cases rule: persist_cases) auto
next
  case False
  then have "db' = db" using assms by (auto simp: updateProfile_def split: if_splits option.splits)
  then show ?thesis by simp
qed

lemma swap_effect:
  assumes "swapAvatarKey rt e db userID key = (db', r)"
  shows "auth_effect db db' [] None \<and> new_events db db' = []"
proof (cases "\<exists>w u. \<not> fails e 0 \<and> \<not> fails e 1 \<and> \<not> fails e 2 \<and> uuid_in rt userID = Some w \<and> find (\<lambda>u. us_id u = w) (users db) = Some u")
  case True
  then obtain w u where g: "\<not> fails e 0" "\<not> fails e 1" "\<not> fails e 2" "uuid_in rt userID = Some w" "find (\<lambda>u. us_id u = w) (users db) = Some u" by blast
  let ?db = "db\<lparr>users := update_where (\<lambda>v. us_id v = w) (set_avatar e key) (users db)\<rparr>"
  have "persist e 3 db ?db AuthStatement (Some (us_avatar_key u)) = (db', r)" using assms g by (simp add: swapAvatarKey_def)
  moreover have "auth_effect db ?db [] None"
    by (rule kept) (auto intro!: update_where_rows simp: set_avatar_def us_row_def)
  ultimately show ?thesis by (cases rule: persist_cases) auto
next
  case False
  then have "db' = db" using assms by (auto simp: swapAvatarKey_def split: if_splits option.splits)
  then show ?thesis by simp
qed

subsection \<open>The invariant\<close>

definition rows_ok :: "(string \<times> string \<times> string) list \<Rightarrow> bool" where
  "rows_ok rows \<longleftrightarrow> distinct (map fst rows) \<and> distinct (map (fst \<circ> snd) rows) \<and> (\<forall>r\<in>set rows. snd (snd r) \<in> {''pending_verification'', ''active''})"

definition codes_ok :: "(string \<times> string \<times> string) list \<Rightarrow> verification_code list \<Rightarrow> bool" where
  "codes_ok rows cs \<longleftrightarrow> distinct (map vc_id cs) \<and> (\<forall>c\<in>set cs. vc_user_id c \<in> fst ` set rows) \<and>
     (\<forall>c\<in>set cs. \<forall>d\<in>set cs. vc_used_at c = None \<and> vc_used_at d = None \<and> vc_user_id c = vc_user_id d \<and> vc_purpose c = vc_purpose d \<longrightarrow> c = d) \<and>
     (\<forall>c\<in>set cs. vc_used_at c = None \<and> vc_purpose c = ''email_verify'' \<longrightarrow> (\<forall>r\<in>set rows. fst r = vc_user_id c \<longrightarrow> snd (snd r) = ''pending_verification''))"

text \<open>How often a code with an id may still be judged; an id that is not in the table yet counts in full.\<close>

definition budget :: "verification_code list \<Rightarrow> string \<Rightarrow> nat" where
  "budget cs i = (case find (\<lambda>c. vc_id c = i) cs of None \<Rightarrow> 5 | Some c \<Rightarrow> if vc_used_at c = None then nat (vc_attempts_remaining c) else 0)"

definition log_ok :: "(string \<times> string \<times> string) list \<Rightarrow> user_event list \<Rightarrow> bool" where
  "log_ok rows evs \<longleftrightarrow> distinct (map ue_UserId (filter is_UserActivatedEvent evs)) \<and>
     (\<lambda>ev. (ue_UserId ev, ue_Email ev)) ` set (filter is_UserActivatedEvent evs) = {(i, em). (i, em, ''active'') \<in> set rows}"

definition auth_ok :: "auth_db \<Rightarrow> user_event list \<Rightarrow> string list \<Rightarrow> bool" where
  "auth_ok db evs told \<longleftrightarrow> rows_ok (map us_row (users db)) \<and> codes_ok (map us_row (users db)) (verification_codes db) \<and>
     log_ok (map us_row (users db)) evs \<and> (\<forall>i. count_list told i + budget (verification_codes db) i \<le> 5)"

lemma rows_ok_snoc: "rows_ok rows \<Longrightarrow> i \<notin> fst ` set rows \<Longrightarrow> em \<notin> (fst \<circ> snd) ` set rows \<Longrightarrow> rows_ok (rows @ [(i, em, ''pending_verification'')])"
  by (auto simp: rows_ok_def)

definition activate_row :: "string \<Rightarrow> string \<times> string \<times> string \<Rightarrow> string \<times> string \<times> string" where
  "activate_row i r = (if fst r = i then (fst r, fst (snd r), ''active'') else r)"

lemma activate_row_sel [simp]: "fst (activate_row i r) = fst r" "fst (snd (activate_row i r)) = fst (snd r)"
  by (simp_all add: activate_row_def)

lemma rows_activated: "map us_row (update_where (\<lambda>v. us_id v = i) (activate e) us) = map (activate_row i) (map us_row us)"
  by (auto simp: update_where_def us_row_def activate_def activate_row_def)

lemma rows_ok_activate: "rows_ok rows \<Longrightarrow> rows_ok (map (activate_row i) rows)"
  by (auto simp: rows_ok_def comp_def) (auto simp: activate_row_def)

lemma budget_wrong:
  assumes "distinct (map vc_id cs)" "c \<in> set cs" "vc_used_at c = None" "0 < vc_attempts_remaining c"
  shows "Suc (budget (guessed (vc_id c) wrong_guess cs) (vc_id c)) \<le> budget cs (vc_id c)"
    "i \<noteq> vc_id c \<Longrightarrow> budget (guessed (vc_id c) wrong_guess cs) i = budget cs i"
proof -
  have f: "find (\<lambda>x. vc_id x = i) (guessed j wrong_guess cs) = map_option (\<lambda>x. if vc_id x = j then wrong_guess x else x) (find (\<lambda>x. vc_id x = i) cs)" for i j
    by (induction cs) (auto simp: guessed_def update_where_def wrong_guess_def)
  have c: "find (\<lambda>x. vc_id x = vc_id c) cs = Some c" using assms(1,2) by (rule find_unique) simp
  show "Suc (budget (guessed (vc_id c) wrong_guess cs) (vc_id c)) \<le> budget cs (vc_id c)"
    using assms(3,4) by (simp add: budget_def f c wrong_guess_def)
  show "i \<noteq> vc_id c \<Longrightarrow> budget (guessed (vc_id c) wrong_guess cs) i = budget cs i"
    by (auto simp: budget_def f split: option.splits dest!: find_Some_in)
qed

lemma budget_right:
  assumes "distinct (map vc_id cs)" "c \<in> set cs" "vc_used_at c = None" "0 < vc_attempts_remaining c"
  shows "Suc (budget (guessed (vc_id c) (mark_used e) cs) (vc_id c)) \<le> budget cs (vc_id c)"
    "i \<noteq> vc_id c \<Longrightarrow> budget (guessed (vc_id c) (mark_used e) cs) i = budget cs i"
proof -
  have f: "find (\<lambda>x. vc_id x = i) (guessed j (mark_used e) cs) = map_option (\<lambda>x. if vc_id x = j then mark_used e x else x) (find (\<lambda>x. vc_id x = i) cs)" for i j
    by (induction cs) (auto simp: guessed_def update_where_def mark_used_def)
  have c: "find (\<lambda>x. vc_id x = vc_id c) cs = Some c" using assms(1,2) by (rule find_unique) simp
  show "Suc (budget (guessed (vc_id c) (mark_used e) cs) (vc_id c)) \<le> budget cs (vc_id c)"
    using assms(3,4) by (simp add: budget_def f c mark_used_def)
  show "i \<noteq> vc_id c \<Longrightarrow> budget (guessed (vc_id c) (mark_used e) cs) i = budget cs i"
    by (auto simp: budget_def f split: option.splits dest!: find_Some_in)
qed

lemma budget_issued:
  assumes "gen_random_uuid e 1 \<notin> vc_id ` set cs"
  shows "budget (issued e u p h cs) i \<le> budget cs i"
proof -
  have f: "find (\<lambda>x. vc_id x = i) (update_where (unused_code u p) (mark_used e) cs) =
      map_option (\<lambda>x. if unused_code u p x then mark_used e x else x) (find (\<lambda>x. vc_id x = i) cs)"
    by (induction cs) (auto simp: update_where_def mark_used_def)
  have app: "find P (xs @ [x]) = (case find P xs of None \<Rightarrow> if P x then Some x else None | Some y \<Rightarrow> Some y)" for P and xs :: "verification_code list" and x
    by (induction xs) auto
  show ?thesis
    by (auto simp: budget_def issued_def app f new_code_def mark_used_def unused_code_def split: option.splits)
qed

lemma codes_ok_issued:
  assumes "codes_ok rows cs" "gen_random_uuid e 1 \<notin> vc_id ` set cs" "u \<in> fst ` set rows"
    "p = ''email_verify'' \<longrightarrow> (\<forall>r\<in>set rows. fst r = u \<longrightarrow> snd (snd r) = ''pending_verification'')"
  shows "codes_ok rows (issued e u p h cs)"
proof -
  have ids: "map vc_id (issued e u p h cs) = map vc_id cs @ [gen_random_uuid e 1]"
    by (auto simp: issued_def update_where_def mark_used_def new_code_def)
  have mark: "vc_used_at (mark_used e x) = Some (now e)" for x by (simp add: mark_used_def)
  have unused: "(c \<in> set (issued e u p h cs) \<and> vc_used_at c = None) \<longleftrightarrow>
      c = new_code e u p h \<or> (c \<in> set cs \<and> vc_used_at c = None \<and> \<not> (vc_user_id c = u \<and> vc_purpose c = p))" for c
    by (auto simp: issued_def in_set_update_where unused_code_def new_code_def mark split: if_splits) (metis mark option.distinct(1))
  have new: "vc_user_id (new_code e u p h) = u" "vc_purpose (new_code e u p h) = p" by (simp_all add: new_code_def)
  show ?thesis unfolding codes_ok_def
  proof (intro conjI)
    show "distinct (map vc_id (issued e u p h cs))" using assms(1,2) by (simp add: ids codes_ok_def)
    show "\<forall>c\<in>set (issued e u p h cs). vc_user_id c \<in> fst ` set rows"
      using assms(1,3) by (auto simp: issued_def in_set_update_where mark_used_def new_code_def codes_ok_def)
    show "\<forall>c\<in>set (issued e u p h cs). \<forall>d\<in>set (issued e u p h cs).
        vc_used_at c = None \<and> vc_used_at d = None \<and> vc_user_id c = vc_user_id d \<and> vc_purpose c = vc_purpose d \<longrightarrow> c = d"
    proof (intro ballI impI, elim conjE)
      fix c d assume "c \<in> set (issued e u p h cs)" "d \<in> set (issued e u p h cs)" and n: "vc_used_at c = None" "vc_used_at d = None"
        and eq: "vc_user_id c = vc_user_id d" "vc_purpose c = vc_purpose d"
      with unused [of c] unused [of d] consider "c = new_code e u p h" "d = new_code e u p h"
        | "c \<in> set cs" "d \<in> set cs" using new by metis
      then show "c = d" using assms(1) n eq by cases (auto simp: codes_ok_def)
    qed
    show "\<forall>c\<in>set (issued e u p h cs). vc_used_at c = None \<and> vc_purpose c = ''email_verify'' \<longrightarrow>
        (\<forall>r\<in>set rows. fst r = vc_user_id c \<longrightarrow> snd (snd r) = ''pending_verification'')"
    proof (intro ballI impI, elim conjE)
      fix c r assume c: "c \<in> set (issued e u p h cs)" "vc_used_at c = None" "vc_purpose c = ''email_verify''" and r: "r \<in> set rows" "fst r = vc_user_id c"
      from unused [of c] c(1,2) consider "c = new_code e u p h" | "c \<in> set cs" by blast
      then show "snd (snd r) = ''pending_verification''" using assms(1,4) c(2,3) r new by cases (auto simp: codes_ok_def)
    qed
  qed
qed

lemma codes_ok_guessed:
  assumes "codes_ok rows cs" "\<And>c. vc_id (f c) = vc_id c \<and> vc_user_id (f c) = vc_user_id c \<and> vc_purpose (f c) = vc_purpose c"
    "\<And>c. vc_used_at (f c) = None \<Longrightarrow> vc_used_at c = None"
  shows "codes_ok rows (guessed i f cs)"
proof -
  have from_old: "\<exists>c0\<in>set cs. c = (if vc_id c0 = i then f c0 else c0)" if "c \<in> set (guessed i f cs)" for c
    using that by (auto simp: guessed_def in_set_update_where)
  have keep: "vc_user_id c = vc_user_id c0 \<and> vc_purpose c = vc_purpose c0 \<and> (vc_used_at c = None \<longrightarrow> vc_used_at c0 = None)"
    if "c = (if vc_id c0 = i then f c0 else c0)" for c c0
    using that assms(2,3) by (auto split: if_splits)
  have "map vc_id (guessed i f cs) = map vc_id cs" using assms(2) by (auto simp: guessed_def update_where_def)
  then show ?thesis using assms(1) unfolding codes_ok_def
    by (intro conjI) (simp, (metis from_old keep)+)
qed

lemma count_told:
  assumes "\<forall>i. count_list told i + budget cs i \<le> 5" "v \<in> {[], [j]}" "Suc (budget cs' j) \<le> budget cs j" "\<And>i. i \<noteq> j \<Longrightarrow> budget cs' i = budget cs i"
  shows "count_list (told @ v) i + budget cs' i \<le> 5"
proof (cases "i = j")
  case True
  have "count_list (told @ v) j \<le> Suc (count_list told j)" using assms(2) by auto
  moreover have "count_list told j + budget cs j \<le> 5" using assms(1) by blast
  ultimately show ?thesis using assms(3) unfolding True by linarith
next
  case False
  then have "count_list (told @ v) i = count_list told i" using assms(2) by auto
  moreover have "count_list told i + budget cs i \<le> 5" using assms(1) by blast
  ultimately show ?thesis using assms(4) [OF False] by simp
qed

lemma budget_smaller: "\<forall>i. count_list told i + budget cs i \<le> 5 \<Longrightarrow> (\<And>i. budget cs' i \<le> budget cs i) \<Longrightarrow> count_list told i + budget cs' i \<le> 5"
  by (meson add_left_mono order_trans)

lemma log_ok_more: "log_ok rows evs \<Longrightarrow> filter is_UserActivatedEvent new = [] \<Longrightarrow> log_ok rows (evs @ new)"
  by (simp add: log_ok_def)

lemma log_ok_pending: "log_ok rows evs \<Longrightarrow> log_ok (rows @ [(i, em, ''pending_verification'')]) evs"
  by (simp add: log_ok_def)

lemma pending_row:
  assumes "codes_ok (map us_row us) cs" "u \<in> set us" "c \<in> set cs" "unused_code (us_id u) ''email_verify'' c"
  shows "us_status u = ''pending_verification''"
proof -
  have "us_row u \<in> set (map us_row us)" using assms(2) by simp
  then have "snd (snd (us_row u)) = ''pending_verification''"
    using assms(1,3,4) unfolding codes_ok_def unused_code_def by (metis fst_conv us_row_def)
  then show ?thesis by (simp add: us_row_def)
qed

lemma log_ok_activate:
  assumes "rows_ok rows" "log_ok rows evs" "(i, em, ''pending_verification'') \<in> set rows"
  shows "log_ok (map (activate_row i) rows) (evs @ [UserActivatedEvent i em t ev])"
proof -
  let ?act = "filter is_UserActivatedEvent evs"
  have only: "r = (i, em, ''pending_verification'')" if "r \<in> set rows" "fst r = i" for r
    using assms(1,3) that by (auto simp: rows_ok_def distinct_map inj_on_def)
  have dist: "distinct (map ue_UserId ?act)"
    and acts: "(\<lambda>ev. (ue_UserId ev, ue_Email ev)) ` set ?act = {(i, em). (i, em, ''active'') \<in> set rows}"
    using assms(2) unfolding log_ok_def by (rule conjunct1, rule conjunct2)
  have ids: "ue_UserId ` set ?act = {j. \<exists>em. (j, em, ''active'') \<in> set rows}"
  proof -
    have 1: "ue_UserId ` set ?act = fst ` ((\<lambda>ev. (ue_UserId ev, ue_Email ev)) ` set ?act)" by (simp only: image_image fst_conv)
    show ?thesis unfolding 1 acts by force
  qed
  have new: "i \<notin> ue_UserId ` set ?act" unfolding ids using only by force
  have rows: "{(j, em'). (j, em', ''active'') \<in> set (map (activate_row i) rows)} = insert (i, em) {(j, em'). (j, em', ''active'') \<in> set rows}"
  proof -
    have "(j, em', ''active'') \<in> set (map (activate_row i) rows) \<longleftrightarrow> (j, em') = (i, em) \<or> (j, em', ''active'') \<in> set rows" for j em'
    proof
      assume "(j, em', ''active'') \<in> set (map (activate_row i) rows)"
      then obtain r where r: "r \<in> set rows" "(j, em', ''active'') = activate_row i r" by auto
      then show "(j, em') = (i, em) \<or> (j, em', ''active'') \<in> set rows"
        using only [OF r(1)] by (cases "fst r = i") (auto simp: activate_row_def)
    next
      assume "(j, em') = (i, em) \<or> (j, em', ''active'') \<in> set rows"
      then show "(j, em', ''active'') \<in> set (map (activate_row i) rows)"
      proof
        assume "(j, em') = (i, em)"
        then have "(j, em', ''active'') = activate_row i (i, em, ''pending_verification'')" by (simp add: activate_row_def)
        then show ?thesis unfolding set_map by (rule image_eqI [OF _ assms(3)])
      next
        assume a: "(j, em', ''active'') \<in> set rows"
        then have "activate_row i (j, em', ''active'') = (j, em', ''active'')" by (simp add: activate_row_def)
        then show ?thesis unfolding set_map by (rule image_eqI [OF sym a])
      qed
    qed
    then show ?thesis by auto
  qed
  have "filter is_UserActivatedEvent (evs @ [UserActivatedEvent i em t ev]) = ?act @ [UserActivatedEvent i em t ev]" by simp
  then show ?thesis unfolding log_ok_def rows using dist new acts by simp
qed

lemma codes_ok_rows:
  assumes "codes_ok rows cs" "fst ` set rows \<subseteq> fst ` set rows'" "\<And>r c. r \<in> set rows' \<Longrightarrow> c \<in> set cs \<Longrightarrow> vc_used_at c = None \<Longrightarrow> vc_purpose c = ''email_verify'' \<Longrightarrow>
    fst r = vc_user_id c \<Longrightarrow> snd (snd r) = ''pending_verification''"
  shows "codes_ok rows' cs"
  using assms unfolding codes_ok_def by blast

lemma auth_effect_ok:
  assumes "auth_effect db db' evs' j" "auth_ok db evs told" "v = [] \<or> (\<exists>i. j = Some i \<and> v = [i])"
  shows "auth_ok db' (evs @ evs') (told @ v)"
  using assms(1)
proof cases
  case kept
  then have "v = []" using assms(3) by simp
  then show ?thesis using assms(2) kept log_ok_more by (simp add: auth_ok_def)
next
  case (enrolled u p h e)
  let ?r = "map us_row (users db)"
  have v: "v = []" using enrolled(2) assms(3) by simp
  have row: "map us_row (users db') = ?r @ [(us_id u, us_email u, ''pending_verification'')]" using enrolled by (simp add: us_row_def)
  have ids: "us_id u \<notin> fst ` set ?r" "us_email u \<notin> (fst \<circ> snd) ` set ?r" using enrolled(3,4) by (auto simp: us_row_def)
  have codes: "codes_ok ?r (verification_codes db)" using assms(2) by (simp add: auth_ok_def)
  have "codes_ok (map us_row (users db')) (verification_codes db)"
  proof (rule codes_ok_rows [OF codes])
    show "fst ` set ?r \<subseteq> fst ` set (map us_row (users db'))" unfolding row by auto
    fix r c
    assume "r \<in> set (map us_row (users db'))" and c: "c \<in> set (verification_codes db)" "vc_used_at c = None" "vc_purpose c = ''email_verify''" "fst r = vc_user_id c"
    then consider "r \<in> set ?r" | "r = (us_id u, us_email u, ''pending_verification'')" unfolding row by auto
    then show "snd (snd r) = ''pending_verification''" using codes c by cases (auto simp: codes_ok_def)
  qed
  moreover have "\<forall>r\<in>set (map us_row (users db')). fst r = us_id u \<longrightarrow> snd (snd r) = ''pending_verification''"
  proof (intro ballI impI)
    fix r assume "r \<in> set (map us_row (users db'))" "fst r = us_id u"
    then consider "r \<in> set ?r" | "r = (us_id u, us_email u, ''pending_verification'')" unfolding row by auto
    then show "snd (snd r) = ''pending_verification''"
    proof cases
      case 1
      then have "us_id u \<in> fst ` set ?r" using \<open>fst r = us_id u\<close> by (metis image_eqI)
      then show ?thesis using ids(1) by blast
    qed simp
  qed
  ultimately have "codes_ok (map us_row (users db')) (verification_codes db')"
    unfolding enrolled(7) using enrolled(8) row by (intro codes_ok_issued) auto
  moreover have "rows_ok (map us_row (users db'))" "log_ok (map us_row (users db')) evs"
    unfolding row using rows_ok_snoc log_ok_pending ids assms(2) by (auto simp: auth_ok_def)
  moreover have "count_list told i + budget (verification_codes db') i \<le> 5" for i
    using budget_smaller budget_issued [OF enrolled(8)] assms(2) unfolding enrolled(7) auth_ok_def by blast
  ultimately show ?thesis by (simp add: auth_ok_def enrolled(1) v)
next
  case (issuing u p e h)
  have v: "v = []" using issuing(2) assms(3) by simp
  have "us_id u \<in> fst ` set (map us_row (users db))" using issuing(4) by (force simp: us_row_def)
  moreover have "p = ''email_verify'' \<longrightarrow> (\<forall>r\<in>set (map us_row (users db)). fst r = us_id u \<longrightarrow> snd (snd r) = ''pending_verification'')"
    using issuing(4,5) assms(2) by (auto simp: auth_ok_def rows_ok_def distinct_map inj_on_def us_row_def)
  ultimately have "codes_ok (map us_row (users db')) (verification_codes db')"
    using assms(2) issuing(7) unfolding issuing(3,6) auth_ok_def by (intro codes_ok_issued) auto
  moreover have "count_list told i + budget (verification_codes db') i \<le> 5" for i
    using budget_smaller budget_issued [OF issuing(7)] assms(2) unfolding issuing(6) auth_ok_def by blast
  ultimately show ?thesis using assms(2) by (simp add: auth_ok_def issuing(1,3) v)
next
  case (wrong c i p)
  have v: "v \<in> {[], [vc_id c]}" using wrong(2) assms(3) by auto
  have d: "distinct (map vc_id (verification_codes db))" "vc_used_at c = None"
    using assms(2) wrong(5) by (auto simp: auth_ok_def codes_ok_def unused_code_def)
  have "count_list (told @ v) i + budget (verification_codes db') i \<le> 5" for i
    unfolding wrong(7) using assms(2) v budget_wrong [OF d(1) wrong(4) d(2) wrong(6)] by (intro count_told [of told "verification_codes db"]) (auto simp: auth_ok_def)
  moreover have "codes_ok (map us_row (users db)) (verification_codes db')"
    unfolding wrong(7) using assms(2) by (intro codes_ok_guessed) (auto simp: auth_ok_def wrong_guess_def)
  ultimately show ?thesis using assms(2) by (simp add: auth_ok_def wrong(1,3))
next
  case (reset c i p e)
  have v: "v \<in> {[], [vc_id c]}" using reset(2) assms(3) by auto
  have d: "distinct (map vc_id (verification_codes db))" "vc_used_at c = None"
    using assms(2) reset(5) by (auto simp: auth_ok_def codes_ok_def unused_code_def)
  have "count_list (told @ v) i + budget (verification_codes db') i \<le> 5" for i
    unfolding reset(7) using assms(2) v budget_right [OF d(1) reset(4) d(2) reset(6)] by (intro count_told [of told "verification_codes db"]) (auto simp: auth_ok_def)
  moreover have "codes_ok (map us_row (users db)) (verification_codes db')"
    unfolding reset(7) using assms(2) by (intro codes_ok_guessed) (auto simp: auth_ok_def mark_used_def)
  ultimately show ?thesis using assms(2) by (simp add: auth_ok_def reset(1,3))
next
  case (activated u c e t ev)
  let ?r = "map us_row (users db)"
  have v: "v \<in> {[], [vc_id c]}" using activated(2) assms(3) by auto
  have ok: "codes_ok ?r (verification_codes db)" "rows_ok ?r" "log_ok ?r evs" using assms(2) by (simp_all add: auth_ok_def)
  have d: "distinct (map vc_id (verification_codes db))" "vc_used_at c = None" "vc_user_id c = us_id u" "vc_purpose c = ''email_verify''"
    using ok(1) activated(5) by (auto simp: codes_ok_def unused_code_def)
  have row: "map us_row (users db') = map (activate_row (us_id u)) ?r" unfolding activated(8) by (rule rows_activated)
  have pending: "us_row u \<in> set ?r" "us_row u = (us_id u, us_email u, ''pending_verification'')"
    using pending_row [OF ok(1) activated(3,4,5)] activated(3) by (auto simp: us_row_def)
  have "count_list (told @ v) i + budget (verification_codes db') i \<le> 5" for i
    unfolding activated(7) using assms(2) v budget_right [OF d(1) activated(4) d(2) activated(6)]
    by (intro count_told [of told "verification_codes db"]) (auto simp: auth_ok_def)
  moreover have "rows_ok (map us_row (users db'))" unfolding row using ok(2) by (rule rows_ok_activate)
  moreover have "log_ok (map us_row (users db')) (evs @ evs')"
    unfolding row activated(1) using pending by (intro log_ok_activate [OF ok(2,3)]) simp
  moreover have "codes_ok (map us_row (users db')) (verification_codes db')"
  proof (rule codes_ok_rows)
    show g: "codes_ok ?r (verification_codes db')"
      unfolding activated(7) using ok(1) by (intro codes_ok_guessed) (auto simp: mark_used_def)
    show "fst ` set ?r \<subseteq> fst ` set (map us_row (users db'))" unfolding row by (simp add: image_image)
    fix r c'
    assume r: "r \<in> set (map us_row (users db'))" and c': "c' \<in> set (verification_codes db')" "vc_used_at c' = None" "vc_purpose c' = ''email_verify''" "fst r = vc_user_id c'"
    obtain r0 where r0: "r0 \<in> set ?r" "r = activate_row (us_id u) r0"
      using r unfolding row set_map [of "activate_row (us_id u)"] by (elim imageE) (rule that)
    obtain c0 where "c0 \<in> set (verification_codes db)" "c' = (if vc_id c0 = vc_id c then mark_used e c0 else c0)"
      using c'(1) unfolding activated(7) guessed_def in_set_update_where by blast
    moreover have "vc_used_at (mark_used e c0) \<noteq> None" by (simp add: mark_used_def)
    ultimately have "c' \<in> set (verification_codes db) \<and> vc_id c' \<noteq> vc_id c" using c'(2) by metis
    then have "vc_user_id c' \<noteq> us_id u"
      using ok(1) activated(4) c'(2,3) d(2,3,4) unfolding codes_ok_def by metis
    then have "r = r0" using r0(2) c'(4) by (auto simp: activate_row_def split: if_splits)
    then show "snd (snd r) = ''pending_verification''" using g c' r0(1) by (auto simp: codes_ok_def)
  qed
  ultimately show ?thesis by (simp add: auth_ok_def)
qed

end
