(* ===== verification/Auth_Properties.thy ===== *)
theory Auth_Properties
  imports Auth_Effects
begin

text \<open>
  Properties of auth-svc's tables in every run of its requests and workers: how often a code may be guessed, when an
  account becomes active and who hears of it.
\<close>

subsection \<open>Runs of the service\<close>

text \<open>
  The tables with two logs: the events that operations inserted into the outbox, and the codes that an answer told a
  client something about, each time it did.
\<close>

record auth_trace =
  at_db :: auth_db
  at_events :: "user_event list"
  at_told :: "string list"

definition tells :: "auth_body http_response \<Rightarrow> bool" where
  "tells resp \<longleftrightarrow> http_status resp = 200 \<or> http_body resp = AuthError ''invalid_verification_code'' \<or> (case http_body resp of AuthWrongCode m n \<Rightarrow> True | _ \<Rightarrow> False)"

definition told_codes :: "auth_db \<Rightarrow> string \<Rightarrow> string \<Rightarrow> auth_body http_response \<Rightarrow> string list" where
  "told_codes db email p resp = (if tells resp then judged db email p else [])"

definition advance :: "auth_db \<Rightarrow> string list \<Rightarrow> auth_trace \<Rightarrow> auth_trace" where
  "advance db' v s = \<lparr>at_db = db', at_events = at_events s @ new_events (at_db s) db', at_told = at_told s @ v\<rparr>"

inductive auth_run :: "auth_svc \<Rightarrow> auth_trace \<Rightarrow> bool" for sv :: auth_svc where
  run_start: "auth_run sv \<lparr>at_db = migrated_auth, at_events = [], at_told = []\<rparr>"
| run_register: "auth_run sv (advance db' [] s)" if "auth_run sv s" "registerHandler sv ae req (at_db s) = (db', mails, resp)"
| run_verify: "auth_run sv (advance db' (told_codes (at_db s) email ''email_verify'' resp) s)"
  if "auth_run sv s" "verifyEmailHandler sv e (Some (email, code)) (at_db s) = (db', resp)"
| run_resend: "auth_run sv (advance db' [] s)" if "auth_run sv s" "resendVerificationHandler sv ae email' (at_db s) rd = (db', rd', mails, resp)"
| run_forgot: "auth_run sv (advance db' [] s)" if "auth_run sv s" "forgotPasswordHandler sv ae email' (at_db s) rd = (db', rd', mails, resp)"
| run_reset: "auth_run sv (advance db' (told_codes (at_db s) email ''password_reset'' resp) s)"
  if "auth_run sv s" "resetPasswordHandler sv e (Some (email, code, password)) (at_db s) rd = (db', rd', resp)"
| run_profile: "auth_run sv (advance db' [] s)" if "auth_run sv s" "updateProfileHandler (lb_runtime (sv_lib sv)) st e (at_db s) userID name = (db', resp)"
| run_avatar: "auth_run sv (advance db' [] s)" if "auth_run sv s" "swapAvatarKey (lb_runtime (sv_lib sv)) e (at_db s) userID key = (db', r)"
| run_upload: "auth_run sv (advance db' [] s)" if "auth_run sv s" "uploadAvatarURLHandler (lb_runtime (sv_lib sv)) st lim window e (at_db s) userID = (db', resp)"
| run_sweep: "auth_run sv (advance db' [] s)" if "auth_run sv s" "deleteStaleAvatarUploadAttempts e (at_db s) retention = (db', n)"
| run_relay: "auth_run sv (advance ((at_db s)\<lparr>auth_outbox := ob\<rparr>) [] s)"
  if "auth_run sv s" "RelayBatch e w locked batch (topic, auth_outbox (at_db s)) = (topic', ob)"
| run_cleanup: "auth_run sv (advance ((at_db s)\<lparr>auth_outbox := ob\<rparr>) [] s)"
  if "auth_run sv s" "CleanupPublished e retention (auth_outbox (at_db s)) = (ob, n')"

lemma register_handler_db:
  assumes "registerHandler sv ae req db = (db', mails, resp)"
  shows "db' = db \<or> (\<exists>email h c r. registerUserAndIssueCode (ae_env ae) db email h c = (db', r))"
  using assms by (auto simp: registerHandler_def split: option.splits prod.splits if_splits sum.splits bool.splits)

lemma resend_handler_db:
  assumes "resendVerificationHandler sv ae req db rd = (db', rd', mails, resp)"
  shows "db' = db \<or> (\<exists>email c r. resendVerificationCode (ae_env ae) db email c = (db', r))"
  using assms
  by (auto simp: resendVerificationHandler_def Let_def split: option.splits prod.splits if_splits sum.splits bool.splits resendOutcome.splits)

lemma forgot_handler_db:
  assumes "forgotPasswordHandler sv ae req db rd = (db', rd', mails, resp)"
  shows "db' = db \<or> (\<exists>email c r. issuePasswordResetCode (ae_env ae) db email c = (db', r))"
  using assms
  by (auto simp: forgotPasswordHandler_def Let_def split: option.splits prod.splits if_splits sum.splits bool.splits)

lemma verify_handler_tells:
  assumes "verifyEmailHandler sv e (Some (email, code)) db = (db', resp)"
  shows "\<exists>r. verifyEmailCode (sv_lib sv) e db email code = (db', r) \<and>
    (tells resp \<longrightarrow> (\<exists>out x. r = Inr (out, x) \<and> out \<in> {verifyOK, verifyWrongCode}))"
  using assms
  by (auto simp: verifyEmailHandler_def tells_def json_error_def json_ok_def split: prod.splits sum.splits verifyOutcome.splits)

lemma reset_handler_tells:
  assumes "resetPasswordHandler sv e (Some (email, code, password)) db rd = (db', rd', resp)"
  shows "(db' = db \<and> \<not> tells resp) \<or> (\<exists>r. resetPassword (sv_lib sv) e db email code password = (db', r) \<and>
    (tells resp \<longrightarrow> (\<exists>out x. r = Inr (out, x) \<and> out \<in> {verifyOK, verifyWrongCode})))"
  using assms
  by (auto simp: resetPasswordHandler_def tells_def json_error_def json_ok_def split: prod.splits sum.splits verifyOutcome.splits if_splits)

lemma profile_handler_db:
  assumes "updateProfileHandler rt st e db userID req = (db', resp)"
  shows "db' = db \<or> (\<exists>n r. updateProfile rt e db userID n = (db', r))"
  using assms by (auto simp: updateProfileHandler_def Let_def split: option.splits prod.splits if_splits sum.splits)

lemma upload_keeps:
  assumes "uploadAvatarURLHandler rt st lim window e db userID = (db', resp)"
  shows "users db' = users db \<and> verification_codes db' = verification_codes db \<and> auth_outbox db' = auth_outbox db"
  using assms
  by (auto simp: uploadAvatarURLHandler_def recordAvatarUploadAttempt_def persist_def
      split: option.splits prod.splits if_splits sum.splits bool.splits fault.splits)

lemma relay_loop_length: "relay_loop e w k batch topic ob = (topic', ob', ok) \<Longrightarrow> length (ob_rows ob') = length (ob_rows ob)"
  by (induction batch arbitrary: k topic ob) (auto simp: Let_def mark_published_def split: if_splits)

lemma relay_length: "RelayBatch e w locked batch (topic, ob) = (topic', ob') \<Longrightarrow> length (ob_rows ob') = length (ob_rows ob)"
  using relay_loop_length by (fastforce simp: RelayBatch_def fst_persist split: if_splits prod.splits)

lemma cleanup_length: "CleanupPublished e retention ob = (ob', n) \<Longrightarrow> length (ob_rows ob') \<le> length (ob_rows ob)"
  by (auto simp: CleanupPublished_def persist_def split: fault.splits)

lemma outbox_only: "length (ob_rows ob) \<le> length (ob_rows (auth_outbox db)) \<Longrightarrow>
    auth_effect db (db\<lparr>auth_outbox := ob\<rparr>) (new_events db (db\<lparr>auth_outbox := ob\<rparr>)) None"
  by (rule kept) (simp_all add: new_events_def)

text \<open>Every step has an effect, and what it tells is about the code of that effect.\<close>

lemma auth_ok_step:
  assumes "auth_ok (at_db s) (at_events s) (at_told s)" "auth_effect (at_db s) db' (new_events (at_db s) db') j" "v = [] \<or> (\<exists>i. j = Some i \<and> v = [i])"
  shows "auth_ok (at_db (advance db' v s)) (at_events (advance db' v s)) (at_told (advance db' v s))"
  using auth_effect_ok [OF assms(2,1,3)] by (simp add: advance_def)

lemma judged_step:
  assumes ok: "auth_ok (at_db s) (at_events s) (at_told s)"
    and eff: "\<exists>j. auth_effect (at_db s) db' (new_events (at_db s) db') j \<and>
      (\<forall>out x. r = Inr (out, x) \<and> out \<in> {verifyOK, verifyWrongCode} \<longrightarrow> (\<exists>i. j = Some i \<and> judged (at_db s) email p = [i]))"
    and told: "tells resp \<longrightarrow> (\<exists>out x. r = Inr (out, x) \<and> out \<in> {verifyOK, verifyWrongCode})"
  shows "auth_ok (at_db (advance db' (told_codes (at_db s) email p resp) s)) (at_events (advance db' (told_codes (at_db s) email p resp) s))
    (at_told (advance db' (told_codes (at_db s) email p resp) s))"
proof -
  from eff obtain j where j: "auth_effect (at_db s) db' (new_events (at_db s) db') j \<and>
      (\<forall>out x. r = Inr (out, x) \<and> out \<in> {verifyOK, verifyWrongCode} \<longrightarrow> (\<exists>i. j = Some i \<and> judged (at_db s) email p = [i]))" by (rule exE)
  have "told_codes (at_db s) email p resp = [] \<or> (\<exists>i. j = Some i \<and> told_codes (at_db s) email p resp = [i])"
  proof (cases "tells resp")
    case True
    then have "\<exists>i. j = Some i \<and> judged (at_db s) email p = [i]" using told conjunct2 [OF j] by blast
    then show ?thesis using True by (simp add: told_codes_def)
  qed (simp add: told_codes_def)
  then show ?thesis by (rule auth_ok_step [OF ok conjunct1 [OF j]])
qed

lemma auth_run_ok: "auth_run sv s \<Longrightarrow> auth_ok (at_db s) (at_events s) (at_told s)"
proof (induction rule: auth_run.induct)
  case run_start
  show ?case by (simp add: auth_ok_def migrated_auth_def rows_ok_def codes_ok_def log_ok_def budget_def)
next
  case (run_register s ae req db' mails resp)
  obtain j where "auth_effect (at_db s) db' (new_events (at_db s) db') j"
    using register_handler_db [OF run_register(2)] register_effect kept_same new_events_same by metis
  then show ?case using auth_ok_step run_register by blast
next
  case (run_verify s e email code db' resp)
  from verify_handler_tells [OF run_verify(2)] obtain r where r': "verifyEmailCode (sv_lib sv) e (at_db s) email code = (db', r) \<and>
    (tells resp \<longrightarrow> (\<exists>out x. r = Inr (out, x) \<and> out \<in> {verifyOK, verifyWrongCode}))" by (rule exE)
  note r = conjunct1 [OF r'] conjunct2 [OF r']
  show ?case by (rule judged_step [OF run_verify(3) verify_effect [OF r(1)] r(2)])
next
  case (run_resend s ae email' rd db' rd' mails resp)
  obtain j where "auth_effect (at_db s) db' (new_events (at_db s) db') j"
    using resend_handler_db [OF run_resend(2)] resend_effect kept_same new_events_same by metis
  then show ?case using auth_ok_step run_resend by blast
next
  case (run_forgot s ae email' rd db' rd' mails resp)
  obtain j where "auth_effect (at_db s) db' (new_events (at_db s) db') j"
    using forgot_handler_db [OF run_forgot(2)] reset_code_effect kept_same new_events_same by metis
  then show ?case using auth_ok_step run_forgot by blast
next
  case (run_reset s e email code password rd db' rd' resp)
  from reset_handler_tells [OF run_reset(2)] consider "db' = at_db s" "\<not> tells resp"
    | r where "resetPassword (sv_lib sv) e (at_db s) email code password = (db', r)"
      "tells resp \<longrightarrow> (\<exists>out x. r = Inr (out, x) \<and> out \<in> {verifyOK, verifyWrongCode})" by blast
  then show ?case
  proof cases
    case 1
    then have "auth_effect (at_db s) db' (new_events (at_db s) db') None" "told_codes (at_db s) email ''password_reset'' resp = []"
      by (simp_all add: told_codes_def)
    then show ?thesis using auth_ok_step run_reset(3) by metis
  next
    case 2
    show ?thesis by (rule judged_step [OF run_reset(3) reset_effect [OF 2(1)] 2(2)])
  qed
next
  case (run_profile s st e userID name db' resp)
  have "auth_effect (at_db s) db' (new_events (at_db s) db') None"
    using profile_handler_db [OF run_profile(2)] profile_effect kept_same new_events_same by metis
  then show ?case using auth_ok_step run_profile by blast
next
  case (run_avatar s e userID key db' r)
  from swap_effect [OF run_avatar(2)] have "auth_effect (at_db s) db' (new_events (at_db s) db') None" by simp
  then show ?case using auth_ok_step run_avatar by blast
next
  case (run_upload s st lim window e userID db' resp)
  have "auth_effect (at_db s) db' (new_events (at_db s) db') None"
    using upload_keeps [OF run_upload(2)] by (intro kept) simp_all
  then show ?case using auth_ok_step run_upload by blast
next
  case (run_sweep s e retention db' n)
  have "auth_effect (at_db s) db' (new_events (at_db s) db') None"
    using run_sweep(2) by (intro kept) (auto simp: deleteStaleAvatarUploadAttempts_def Let_def persist_def split: fault.splits)
  then show ?case using auth_ok_step run_sweep by blast
next
  case (run_relay s e w locked batch topic topic' ob)
  have "auth_effect (at_db s) ((at_db s)\<lparr>auth_outbox := ob\<rparr>) (new_events (at_db s) ((at_db s)\<lparr>auth_outbox := ob\<rparr>)) None"
    using relay_length [OF run_relay(2)] by (intro outbox_only) simp
  then show ?case using auth_ok_step run_relay by blast
next
  case (run_cleanup s e retention ob n')
  have "auth_effect (at_db s) ((at_db s)\<lparr>auth_outbox := ob\<rparr>) (new_events (at_db s) ((at_db s)\<lparr>auth_outbox := ob\<rparr>)) None"
    using cleanup_length [OF run_cleanup(2)] by (intro outbox_only) simp
  then show ?case using auth_ok_step run_cleanup by blast
qed

text \<open>
  C14: A code is guessed at most five times. Whatever requests arrive in whatever order, with any failures, at most five
  answers of the service ever tell whether a guess hit a given code; and a user has at most one code per purpose that
  can still be guessed, so new codes do not add up.
\<close>

theorem code_guesses_bounded:
  assumes "auth_run sv s"
  shows "count_list (at_told s) i \<le> 5 \<and>
    (\<forall>c\<in>set (verification_codes (at_db s)). \<forall>d\<in>set (verification_codes (at_db s)).
       vc_used_at c = None \<and> vc_used_at d = None \<and> vc_user_id c = vc_user_id d \<and> vc_purpose c = vc_purpose d \<longrightarrow> c = d)"
proof -
  have "count_list (at_told s) i + budget (verification_codes (at_db s)) i \<le> 5"
    and "codes_ok (map us_row (users (at_db s))) (verification_codes (at_db s))"
    using auth_run_ok [OF assms] by (simp_all add: auth_ok_def)
  then show ?thesis unfolding codes_ok_def by (metis add_leD1)
qed

text \<open>
  C13: An activation is announced exactly once. In every run the UserActivated events ever written name different users,
  and they are exactly the active users, each with the address it registered; ids and addresses are unique, and nobody is
  anything but pending or active.
\<close>

theorem activation_announced_once:
  assumes "auth_run sv s"
  shows "distinct (map ue_UserId (filter is_UserActivatedEvent (at_events s))) \<and>
    (\<lambda>ev. (ue_UserId ev, ue_Email ev)) ` set (filter is_UserActivatedEvent (at_events s)) =
      {(us_id u, us_email u) | u. u \<in> set (users (at_db s)) \<and> us_status u = ''active''} \<and>
    distinct (map us_id (users (at_db s))) \<and> distinct (map us_email (users (at_db s))) \<and>
    (\<forall>u\<in>set (users (at_db s)). us_status u \<in> {''pending_verification'', ''active''})"
proof -
  let ?us = "users (at_db s)"
  have ok: "log_ok (map us_row ?us) (at_events s)" "rows_ok (map us_row ?us)" using auth_run_ok [OF assms] by (simp_all add: auth_ok_def)
  have "{(i, em). (i, em, ''active'') \<in> set (map us_row ?us)} = {(us_id u, us_email u) | u. u \<in> set ?us \<and> us_status u = ''active''}"
    by (force simp: us_row_def)
  moreover have "map (fst \<circ> us_row) ?us = map us_id ?us" "map (fst \<circ> snd \<circ> us_row) ?us = map us_email ?us"
    by (simp_all add: us_row_def comp_def)
  ultimately show ?thesis using ok unfolding log_ok_def rows_ok_def map_map by (simp add: us_row_def comp_def)
qed

subsection \<open>An example\<close>

text \<open>One user registers, guesses wrong once and then enters the code. Argon2 and SHA-256 are stood in for by simple functions.\<close>

definition auth_sample_env :: "int \<Rightarrow> string \<Rightarrow> env" where
  "auth_sample_env t i = calm t (\<lambda>n. if n = 0 then ''u'' @ i else ''c'' @ i)"

definition auth_sample_ae :: "int \<Rightarrow> string \<Rightarrow> int \<Rightarrow> auth_env" where
  "auth_sample_ae t i n = \<lparr>ae_env = auth_sample_env t i, ae_draw = Some n, ae_smtp = SmtpAccepted\<rparr>"

definition sample_registered :: "auth_db \<times> mail list \<times> auth_body http_response" where
  "sample_registered = registerHandler sample_auth_svc (auth_sample_ae 1 ''1'' 123456) (Some (''a@b'', ''password'')) migrated_auth"

definition sample_wrong :: "auth_db \<times> auth_body http_response" where
  "sample_wrong = verifyEmailHandler sample_auth_svc (auth_sample_env 2 ''2'') (Some (''a@b'', ''000000'')) (fst sample_registered)"

definition sample_verified :: "auth_db \<times> auth_body http_response" where
  "sample_verified = verifyEmailHandler sample_auth_svc (auth_sample_env 3 ''3'') (Some (''a@b'', ''123456'')) (fst sample_wrong)"

definition sample_auth_trace :: auth_trace where
  "sample_auth_trace = advance (fst sample_verified) (told_codes (fst sample_wrong) ''a@b'' ''email_verify'' (snd sample_verified))
     (advance (fst sample_wrong) (told_codes (fst sample_registered) ''a@b'' ''email_verify'' (snd sample_wrong))
       (advance (fst sample_registered) [] \<lparr>at_db = migrated_auth, at_events = [], at_told = []\<rparr>))"

lemma sample_auth_run: "auth_run sample_auth_svc sample_auth_trace"
proof -
  let ?s0 = "\<lparr>at_db = migrated_auth, at_events = [], at_told = []\<rparr>"
  let ?s1 = "advance (fst sample_registered) [] ?s0"
  have "registerHandler sample_auth_svc (auth_sample_ae 1 ''1'' 123456) (Some (''a@b'', ''password'')) (at_db ?s0) =
      (fst sample_registered, fst (snd sample_registered), snd (snd sample_registered))" by (simp add: sample_registered_def)
  from auth_run.run_register [OF auth_run.run_start this] have 1: "auth_run sample_auth_svc ?s1" .
  have "verifyEmailHandler sample_auth_svc (auth_sample_env 2 ''2'') (Some (''a@b'', ''000000'')) (at_db ?s1) = (fst sample_wrong, snd sample_wrong)"
    by (simp add: sample_wrong_def advance_def)
  from auth_run.run_verify [OF 1 this]
  have 2: "auth_run sample_auth_svc (advance (fst sample_wrong) (told_codes (fst sample_registered) ''a@b'' ''email_verify'' (snd sample_wrong)) ?s1)"
    by (simp add: advance_def)
  have "verifyEmailHandler sample_auth_svc (auth_sample_env 3 ''3'') (Some (''a@b'', ''123456'')) (fst sample_wrong) = (fst sample_verified, snd sample_verified)"
    by (simp add: sample_verified_def)
  with auth_run.run_verify [OF 2] show ?thesis unfolding sample_auth_trace_def by (simp add: advance_def)
qed

text \<open>The tables after each step.\<close>

lemma sample_code [simp]: "generateCode (Some 123456) = Some ''123456''"
  by code_simp

lemma sample_hashCode [simp]: "hashCode sample_auth_lib ''123456'' = ''01''" "hashCode sample_auth_lib ''000000'' = []"
  by (simp_all add: hashCode_def sample_auth_lib_def hexdigit_def)

lemma auth_sample_env_sel [simp]:
  "\<not> fails (auth_sample_env t i) k" "fault_at (auth_sample_env t i) k = NoFault" "now (auth_sample_env t i) = t" "clock (auth_sample_env t i) = t"
  "gen_random_uuid (auth_sample_env t i) 0 = ''u'' @ i" "gen_random_uuid (auth_sample_env t i) (Suc 0) = ''c'' @ i" "crand_read (auth_sample_env t i) k = Some (replicate 16 0)"
  by (simp_all add: auth_sample_env_def)

definition sample_user :: user where
  "sample_user = new_user (auth_sample_env 1 ''1'') ''a@b'' sample_password_hash"

definition sample_vc :: verification_code where
  "sample_vc = new_code (auth_sample_env 1 ''1'') ''u1'' ''email_verify'' ''01''"

lemma sample_user_sel [simp]: "us_id sample_user = ''u1''" "us_email sample_user = ''a@b''" "us_status sample_user = ''pending_verification''"
  "us_password_hash sample_user = sample_password_hash"
  by (simp_all add: sample_user_def new_user_def)

lemma sample_vc_sel [simp]: "vc_id sample_vc = ''c1''" "vc_user_id sample_vc = ''u1''" "vc_purpose sample_vc = ''email_verify''" "vc_code_hash sample_vc = ''01''"
  "vc_used_at sample_vc = None" "vc_attempts_remaining sample_vc = 5" "vc_expires_at sample_vc = 600000001"
  by (simp_all add: sample_vc_def new_code_def)

lemma sample_registered: "fst sample_registered = migrated_auth\<lparr>users := [sample_user], verification_codes := [sample_vc]\<rparr>"
  using sample_hash
  by (simp add: sample_registered_def registerHandler_def auth_sample_ae_def sample_auth_svc_def registerUserAndIssueCode_def user_by_email_def pg_text_def
      migrated_auth_def invalidateAndIssueCode_def update_where_def persist_NoFault sample_user_def sample_vc_def sendVerificationEmail_def SendMail_def
      code_mail_def valid_line_def new_user_def split: prod.splits)

lemma sample_registered_told: "told_codes (fst sample_registered) ''a@b'' ''email_verify'' r = (if tells r then [''c1''] else [])"
  by (simp add: sample_registered told_codes_def judged_def user_by_email_def newest_code_def sort_desc_def unused_code_def migrated_auth_def pg_text_def)

lemma sample_wrong: "sample_wrong = (migrated_auth\<lparr>users := [sample_user], verification_codes := [wrong_guess sample_vc]\<rparr>, json_ok 400 (AuthWrongCode ''invalid_verification_code'' 4))"
  by (simp add: sample_wrong_def sample_registered sample_auth_svc_def verifyEmailHandler_def verifyEmailCode_def user_by_email_def pg_text_def consumeVerificationCode_def
      newest_code_def sort_desc_def unused_code_def migrated_auth_def change_code_def update_where_def persist_NoFault)

definition sample_event_id :: string where
  "sample_event_id = the (GenerateEventID (auth_sample_env 3 ''3'') 0)"

lemma sample_event_id: "GenerateEventID (auth_sample_env 3 ''3'') 0 = Some sample_event_id"
  by (simp add: sample_event_id_def GenerateEventID_def)

lemma sample_guessed_vc [simp]: "vc_id (wrong_guess sample_vc) = ''c1''" "vc_user_id (wrong_guess sample_vc) = ''u1''"
  "vc_purpose (wrong_guess sample_vc) = ''email_verify''" "vc_code_hash (wrong_guess sample_vc) = ''01''" "vc_used_at (wrong_guess sample_vc) = None"
  "vc_attempts_remaining (wrong_guess sample_vc) = 4" "vc_expires_at (wrong_guess sample_vc) = 600000001"
  by (simp_all add: wrong_guess_def)

lemma sample_wrong_told: "told_codes (fst sample_wrong) ''a@b'' ''email_verify'' r = (if tells r then [''c1''] else [])"
  by (simp add: sample_wrong told_codes_def judged_def newest_code_def sort_desc_def unused_code_def)

lemma sample_verified: "sample_verified =
    (migrated_auth\<lparr>users := [activate (auth_sample_env 3 ''3'') sample_user], verification_codes := [mark_used (auth_sample_env 3 ''3'') (wrong_guess sample_vc)],
       auth_outbox := \<lparr>ob_next = 2, ob_rows = [new_row (auth_sample_env 3 ''3'') 1 sample_event_id ''UserActivated'' ''u1''
         (UserActivatedEvent ''u1'' ''a@b'' 3 sample_event_id)]\<rparr>\<rparr>,
     json_ok 200 (AuthStatus ''active''))"
  using sample_event_id
  by (simp add: sample_verified_def sample_wrong sample_auth_svc_def verifyEmailHandler_def verifyEmailCode_def user_by_email_def pg_text_def consumeVerificationCode_def
      newest_code_def sort_desc_def unused_code_def migrated_auth_def change_code_def update_where_def persist_NoFault InsertEvent_def empty_outbox_def)

lemma sample_auth_told: "at_told sample_auth_trace = [''c1'', ''c1'']"
  unfolding sample_auth_trace_def sample_registered_told sample_wrong_told
  by (simp add: advance_def sample_wrong sample_verified tells_def json_ok_def)

lemma sample_auth_activated: "at_events sample_auth_trace = [UserActivatedEvent ''u1'' ''a@b'' 3 sample_event_id]"
  by (simp add: sample_auth_trace_def advance_def sample_registered sample_wrong sample_verified new_events_def migrated_auth_def empty_outbox_def new_row_def)

theorem code_guesses_bounded_witness: "count_list (at_told sample_auth_trace) ''c1'' \<le> 5 \<and> at_told sample_auth_trace \<noteq> []"
  using code_guesses_bounded [OF sample_auth_run, of "''c1''"] sample_auth_told by simp

theorem activation_announced_once_witness:
  "distinct (map ue_UserId (filter is_UserActivatedEvent (at_events sample_auth_trace))) \<and> length (filter is_UserActivatedEvent (at_events sample_auth_trace)) = 1 \<and>
   distinct (map us_id (users (at_db sample_auth_trace)))"
  using activation_announced_once [OF sample_auth_run] unfolding sample_auth_activated by (elim conjE) (intro conjI, assumption, simp, assumption)

end
