(* ===== verification/Auth_Sessions.thy ===== *)
theory Auth_Sessions
  imports Auth_Properties
begin

text \<open>
  The sessions of auth-svc: the refresh tokens in Redis. A token is one key, and the set of its user has it as a member
  for as long as the key lives; login, refresh, logout and the reset of a password rest on that.
\<close>

subsection \<open>Keys\<close>

lemma refresh_key_inj [simp]: "refresh_key a = refresh_key b \<longleftrightarrow> a = b"
  by (simp add: refresh_key_def)

lemma user_refresh_key_inj [simp]: "user_refresh_key a = user_refresh_key b \<longleftrightarrow> a = b"
  by (simp add: user_refresh_key_def)

lemma session_keys_apart [simp]:
  "refresh_key a \<noteq> user_refresh_key b" "user_refresh_key b \<noteq> refresh_key a"
  "refresh_key a \<noteq> ''resend-verification:'' @ s" "refresh_key a \<noteq> ''forgot-password:'' @ s"
  "user_refresh_key a \<noteq> ''resend-verification:'' @ s" "user_refresh_key a \<noteq> ''forgot-password:'' @ s"
  by (simp_all add: refresh_key_def user_refresh_key_def)

subsection \<open>The invariant\<close>

text \<open>The user a token belongs to at a time, and what holds of the keys from a time on.\<close>

definition session_of :: "int \<Rightarrow> string \<Rightarrow> redis \<Rightarrow> string option" where
  "session_of t tok rd = (case redis_get t (refresh_key tok) rd of Some (RString u) \<Rightarrow> Some u | _ \<Rightarrow> None)"

definition member_of :: "redis \<Rightarrow> string \<Rightarrow> string \<Rightarrow> int \<Rightarrow> bool" where
  "member_of rd tok u x \<longleftrightarrow> (\<exists>S y. rd (user_refresh_key u) = Some (RSet S, y) \<and> tok \<in> S \<and> x \<le> y)"

definition sessions_ok :: "int \<Rightarrow> redis \<Rightarrow> bool" where
  "sessions_ok t rd \<longleftrightarrow>
     (\<forall>tok v x. rd (refresh_key tok) = Some (v, x) \<longrightarrow> (\<exists>u. v = RString u \<and> (t < x \<longrightarrow> x \<le> t + refreshTokenTTL \<and> member_of rd tok u x))) \<and>
     (\<forall>u v y. rd (user_refresh_key u) = Some (v, y) \<longrightarrow> (\<exists>S. v = RSet S))"

lemma sessions_okI:
  assumes "\<And>tok v x. rd (refresh_key tok) = Some (v, x) \<Longrightarrow> \<exists>u. v = RString u \<and> (t < x \<longrightarrow> x \<le> t + refreshTokenTTL \<and> member_of rd tok u x)"
    "\<And>u v y. rd (user_refresh_key u) = Some (v, y) \<Longrightarrow> \<exists>S. v = RSet S"
  shows "sessions_ok t rd"
  using assms unfolding sessions_ok_def by blast

lemma sessions_okD:
  assumes "sessions_ok t rd"
  shows "rd (refresh_key tok) = Some (v, x) \<Longrightarrow> \<exists>u. v = RString u \<and> (t < x \<longrightarrow> x \<le> t + refreshTokenTTL \<and> member_of rd tok u x)"
    "rd (user_refresh_key u) = Some (w, y) \<Longrightarrow> \<exists>S. w = RSet S"
  using assms unfolding sessions_ok_def by blast+

lemma sessions_ok_empty: "sessions_ok t Map.empty"
  by (simp add: sessions_ok_def)

lemma sessions_ok_later:
  assumes "sessions_ok t rd" "t \<le> t'"
  shows "sessions_ok t' rd"
proof (rule sessions_okI)
  fix tok v x
  assume "rd (refresh_key tok) = Some (v, x)"
  from sessions_okD(1) [OF assms(1) this] show "\<exists>u. v = RString u \<and> (t' < x \<longrightarrow> x \<le> t' + refreshTokenTTL \<and> member_of rd tok u x)"
    using assms(2) by force
qed (rule sessions_okD(2) [OF assms(1)])

text \<open>A state that differs in other keys only.\<close>

lemma sessions_ok_same:
  assumes "sessions_ok t rd" "\<And>tok. rd' (refresh_key tok) = rd (refresh_key tok)" "\<And>u. rd' (user_refresh_key u) = rd (user_refresh_key u)"
  shows "sessions_ok t rd'"
  using assms unfolding sessions_ok_def member_of_def by simp

lemma redis_get_Some: "redis_get t k rd = Some v \<longleftrightarrow> (\<exists>x. rd k = Some (v, x) \<and> t < x)"
  by (auto simp: redis_get_def split: option.splits if_splits)

lemma redis_get_None: "redis_get t k rd = None \<longleftrightarrow> (\<forall>v x. rd k = Some (v, x) \<longrightarrow> x \<le> t)"
  by (auto simp: redis_get_def split: option.splits if_splits)

lemma session_of_Some: "session_of t tok rd = Some u \<longleftrightarrow> (\<exists>x. rd (refresh_key tok) = Some (RString u, x) \<and> t < x)"
  by (auto simp: session_of_def redis_get_def split: option.splits redis_value.splits if_splits)

lemma session_of_member:
  assumes "sessions_ok t rd" "session_of t tok rd = Some u"
  obtains S y where "rd (user_refresh_key u) = Some (RSet S, y)" "tok \<in> S" "t < y"
proof -
  from assms(2) obtain x where x: "rd (refresh_key tok) = Some (RString u, x)" "t < x" by (auto simp: session_of_Some)
  then have "member_of rd tok u x" using sessions_okD(1) [OF assms(1) x(1)] by simp
  then show thesis using x(2) that by (auto simp: member_of_def)
qed

subsection \<open>The commands\<close>

lemma store_refresh_conv:
  assumes "sessions_ok t rd"
  obtains S where "store_refresh t u tok rd =
      (rd(refresh_key tok \<mapsto> (RString u, t + refreshTokenTTL), user_refresh_key u \<mapsto> (RSet (insert tok S), t + refreshTokenTTL)), Inr ())"
    "\<And>S0 y. rd (user_refresh_key u) = Some (RSet S0, y) \<Longrightarrow> t < y \<Longrightarrow> S = S0"
proof -
  let ?rd1 = "rd(refresh_key tok \<mapsto> (RString u, t + refreshTokenTTL))"
  have same: "?rd1 (user_refresh_key u) = rd (user_refresh_key u)" by simp
  show thesis
  proof (cases "redis_get t (user_refresh_key u) ?rd1")
    case None
    then have dead: "\<And>v x. rd (user_refresh_key u) = Some (v, x) \<Longrightarrow> x \<le> t" using same by (auto simp: redis_get_None)
    have "store_refresh t u tok rd =
      (rd(refresh_key tok \<mapsto> (RString u, t + refreshTokenTTL), user_refresh_key u \<mapsto> (RSet (insert tok {}), t + refreshTokenTTL)), Inr ())"
      using None by (simp add: store_refresh_def)
    then show thesis by (rule that) (use dead in fastforce)
  next
    case (Some v)
    then obtain x where x: "rd (user_refresh_key u) = Some (v, x)" using same by (auto simp: redis_get_Some)
    from sessions_okD(2) [OF assms x] obtain S where S: "v = RSet S" by blast
    have "store_refresh t u tok rd =
      (rd(refresh_key tok \<mapsto> (RString u, t + refreshTokenTTL), user_refresh_key u \<mapsto> (RSet (insert tok S), t + refreshTokenTTL)), Inr ())"
      using Some S by (simp add: store_refresh_def)
    then show thesis by (rule that) (use x S in simp)
  qed
qed

lemma store_refresh_ok:
  assumes "sessions_ok t rd"
  shows "sessions_ok t (fst (store_refresh t u tok rd))"
proof -
  obtain S where S: "store_refresh t u tok rd =
      (rd(refresh_key tok \<mapsto> (RString u, t + refreshTokenTTL), user_refresh_key u \<mapsto> (RSet (insert tok S), t + refreshTokenTTL)), Inr ())"
    and keeps: "\<And>S0 y. rd (user_refresh_key u) = Some (RSet S0, y) \<Longrightarrow> t < y \<Longrightarrow> S = S0" using store_refresh_conv [OF assms] by blast
  let ?rd = "fst (store_refresh t u tok rd)"
  have at: "?rd (refresh_key k) = (if k = tok then Some (RString u, t + refreshTokenTTL) else rd (refresh_key k))"
    "?rd (user_refresh_key w) = (if w = u then Some (RSet (insert tok S), t + refreshTokenTTL) else rd (user_refresh_key w))" for k w
    unfolding S by auto
  show ?thesis
  proof (rule sessions_okI)
    fix k v x
    assume k: "?rd (refresh_key k) = Some (v, x)"
    show "\<exists>w. v = RString w \<and> (t < x \<longrightarrow> x \<le> t + refreshTokenTTL \<and> member_of ?rd k w x)"
    proof (cases "k = tok")
      case True
      then show ?thesis using k unfolding at member_of_def by auto
    next
      case False
      then have k': "rd (refresh_key k) = Some (v, x)" using k unfolding at by simp
      from sessions_okD(1) [OF assms this] obtain w where w: "v = RString w" "t < x \<longrightarrow> x \<le> t + refreshTokenTTL \<and> member_of rd k w x" by blast
      have "member_of ?rd k w x" if "t < x"
      proof -
        from w(2) that obtain S0 y where y: "rd (user_refresh_key w) = Some (RSet S0, y)" "k \<in> S0" "x \<le> y" "x \<le> t + refreshTokenTTL"
          unfolding member_of_def by blast
        show ?thesis
        proof (cases "w = u")
          case True
          then have "S = S0" using keeps y that by auto
          then show ?thesis using True y unfolding member_of_def at by simp
        qed (use y in \<open>simp add: member_of_def at\<close>)
      qed
      then show ?thesis using w by blast
    qed
  next
    fix w v y
    assume "?rd (user_refresh_key w) = Some (v, y)"
    then show "\<exists>S. v = RSet S" using sessions_okD(2) [OF assms] unfolding at by (auto split: if_splits)
  qed
qed

lemma store_refresh_session:
  assumes "sessions_ok t rd"
  shows "session_of t' k (fst (store_refresh t u tok rd)) =
    (if k = tok then (if t' < t + refreshTokenTTL then Some u else None) else session_of t' k rd)"
proof -
  obtain S where S: "store_refresh t u tok rd =
      (rd(refresh_key tok \<mapsto> (RString u, t + refreshTokenTTL), user_refresh_key u \<mapsto> (RSet (insert tok S), t + refreshTokenTTL)), Inr ())"
    by (rule store_refresh_conv [OF assms, of u tok])
  show ?thesis unfolding S fst_conv by (simp add: session_of_def redis_get_def)
qed

text \<open>GETDEL: the token is gone, nothing else changes, and the answer is the session.\<close>

lemma getdel_conv:
  assumes "sessions_ok t rd"
  shows "redis_GetDel t (refresh_key tok) rd =
    (if session_of t tok rd = None then (rd, Inr None) else (rd(refresh_key tok := None), Inr (session_of t tok rd)))"
proof (cases "redis_get t (refresh_key tok) rd")
  case None
  then show ?thesis by (simp add: redis_GetDel_def session_of_def)
next
  case (Some v)
  then obtain x where "rd (refresh_key tok) = Some (v, x)" by (auto simp: redis_get_Some)
  from sessions_okD(1) [OF assms this] obtain u where "v = RString u" by blast
  with Some show ?thesis by (simp add: redis_GetDel_def session_of_def)
qed

lemma forget_ok:
  assumes "sessions_ok t rd"
  shows "sessions_ok t (rd(refresh_key tok := None))"
proof (rule sessions_okI)
  fix k v x
  assume "(rd(refresh_key tok := None)) (refresh_key k) = Some (v, x)"
  then have "rd (refresh_key k) = Some (v, x)" by (simp split: if_splits)
  from sessions_okD(1) [OF assms this] show "\<exists>u. v = RString u \<and> (t < x \<longrightarrow> x \<le> t + refreshTokenTTL \<and> member_of (rd(refresh_key tok := None)) k u x)"
    by (simp add: member_of_def)
qed (use sessions_okD(2) [OF assms] in simp)

lemma session_of_forget: "session_of t k (rd(refresh_key tok := None)) = (if k = tok then None else session_of t k rd)"
  by (simp add: session_of_def redis_get_def)

lemma srem_ok:
  assumes "sessions_ok t rd" "rd (refresh_key tok) = None"
  shows "sessions_ok t (fst (redis_SRem t (user_refresh_key u) tok rd))"
proof -
  let ?rd = "fst (redis_SRem t (user_refresh_key u) tok rd)"
  have tokens: "?rd (refresh_key k) = rd (refresh_key k)" for k
    by (auto simp: redis_SRem_def split: option.splits prod.splits redis_value.splits)
  have member: "member_of ?rd k w x" if "member_of rd k w x" "k \<noteq> tok" for k w x
    using that by (auto simp: member_of_def redis_SRem_def split: option.splits prod.splits redis_value.splits)
  show ?thesis
  proof (rule sessions_okI)
    fix k v x
    assume "?rd (refresh_key k) = Some (v, x)"
    then have k: "rd (refresh_key k) = Some (v, x)" "k \<noteq> tok" using assms(2) tokens by auto
    from sessions_okD(1) [OF assms(1) k(1)] show "\<exists>u. v = RString u \<and> (t < x \<longrightarrow> x \<le> t + refreshTokenTTL \<and> member_of ?rd k u x)"
      using member k(2) by blast
  next
    fix w v y
    assume "?rd (user_refresh_key w) = Some (v, y)"
    then show "\<exists>S. v = RSet S"
      using sessions_okD(2) [OF assms(1)] by (auto simp: redis_SRem_def split: option.splits prod.splits redis_value.splits if_splits)
  qed
qed

lemma srem_session: "session_of t' k (fst (redis_SRem t (user_refresh_key u) tok rd)) = session_of t' k rd"
  by (auto simp: session_of_def redis_get_def redis_SRem_def split: option.splits prod.splits redis_value.splits)

subsection \<open>The operations\<close>

definition fewer :: "int \<Rightarrow> redis \<Rightarrow> redis \<Rightarrow> bool" where
  "fewer t rd rd' \<longleftrightarrow> (\<forall>k t'. t \<le> t' \<longrightarrow> session_of t' k rd' = None \<or> session_of t' k rd' = session_of t' k rd)"

lemma fewer_refl [simp]: "fewer t rd rd"
  by (simp add: fewer_def)

lemma fewer_trans: "fewer t a b \<Longrightarrow> fewer t b c \<Longrightarrow> fewer t a c"
  unfolding fewer_def by metis

lemma redis_do_cases:
  assumes "redis_do e i f rd = (rd', r)"
  obtains "rd' = rd" "r = Inl AuthRedis" | "rd' = fst (f rd)" "r = snd (f rd) \<or> r = Inl AuthRedis"
  using assms by (auto simp: redis_do_def split: fault.splits)

lemma issue_cases:
  assumes "issueTokenPair sv e u rd = (rd', r)"
  obtains (none) "rd' = rd" "\<And>p. r \<noteq> Inr p"
  | (stored) tok where "generateRefreshToken (crand_read e 1) = Some tok" "rd' = fst (store_refresh (clock e) (us_id u) tok rd)"
      "\<And>p. r = Inr p \<Longrightarrow> tp_RefreshToken p = tok \<and>
         newAccessToken (sv_lib sv) e (sv_jwtSecret sv) (us_id u) (us_email u) = Some (tp_AccessToken p)"
proof (cases "newAccessToken (sv_lib sv) e (sv_jwtSecret sv) (us_id u) (us_email u)")
  case None
  then show thesis using assms none by (auto simp: issueTokenPair_def)
next
  case a: (Some acc)
  show thesis
  proof (cases "generateRefreshToken (crand_read e 1)")
    case None
    then show thesis using assms a none by (auto simp: issueTokenPair_def)
  next
    case (Some tok)
    obtain rd1 r1 where d: "redis_do e 10 (store_refresh (clock e) (us_id u) tok) rd = (rd1, r1)" by (cases "redis_do e 10 (store_refresh (clock e) (us_id u) tok) rd")
    have out: "rd' = rd1" "\<And>p. r = Inr p \<Longrightarrow> p = \<lparr>tp_AccessToken = acc, tp_RefreshToken = tok\<rparr> \<and> (\<exists>w. r1 = Inr w)"
      using assms a Some d by (auto simp: issueTokenPair_def split: sum.splits)
    from d show thesis
    proof (cases rule: redis_do_cases)
      case 1
      then show thesis using none out by auto
    next
      case 2
      have "newAccessToken (sv_lib sv) e (sv_jwtSecret sv) (us_id u) (us_email u) = Some (tp_AccessToken p) \<and> tp_RefreshToken p = tok" if "r = Inr p" for p
        using out(2) [OF that] a by simp
      then show thesis using 2 out(1) by (intro stored [OF Some]) auto
    qed
  qed
qed

text \<open>GETDEL at site 8 and SREM at site 9, as refresh and logout have them.\<close>

lemma take_token:
  assumes "sessions_ok (clock e) rd" "redis_do e 8 (redis_GetDel (clock e) (refresh_key tok)) rd = (rd1, r)"
  shows "sessions_ok (clock e) rd1 \<and> fewer (clock e) rd rd1 \<and>
    (\<forall>u. r = Inr (Some u) \<longrightarrow> session_of (clock e) tok rd = Some u \<and> rd1 (refresh_key tok) = None)"
proof -
  have f: "fewer (clock e) rd (rd(refresh_key tok := None))" by (simp add: fewer_def session_of_forget)
  from assms(2) show ?thesis
  proof (cases rule: redis_do_cases)
    case 1
    then show ?thesis using assms(1) by simp
  next
    case 2
    then show ?thesis unfolding getdel_conv [OF assms(1)]
      using assms(1) forget_ok [OF assms(1)] f by (auto split: if_splits)
  qed
qed

lemma drop_member:
  assumes "sessions_ok (clock e) rd" "rd (refresh_key tok) = None" "redis_do e 9 (redis_SRem (clock e) (user_refresh_key u) tok) rd = (rd1, r)"
  shows "sessions_ok (clock e) rd1 \<and> fewer (clock e) rd rd1 \<and> session_of t tok rd1 = None"
proof -
  have none: "session_of t tok rd = None" using assms(2) by (simp add: session_of_def redis_get_def)
  have f: "fewer (clock e) rd (fst (redis_SRem (clock e) (user_refresh_key u) tok rd))" by (simp add: fewer_def srem_session)
  from assms(3) show ?thesis
  proof (cases rule: redis_do_cases)
    case 1
    then show ?thesis using assms(1) none by simp
  next
    case 2
    then show ?thesis using srem_ok [OF assms(1,2)] none f srem_session by auto
  qed
qed

lemma consume_token:
  assumes "sessions_ok (clock e) rd" "consumeRefreshToken rt e db tok rd = (rd', r)"
  shows "sessions_ok (clock e) rd' \<and> fewer (clock e) rd rd' \<and>
    (\<forall>u. r = Inr (u, refreshOK) \<longrightarrow> session_of (clock e) tok rd' = None \<and>
       (\<exists>userID. session_of (clock e) tok rd = Some userID \<and> findUserByID rt e db userID = Inr (Some u) \<and> us_status u = ''active''))"
proof -
  obtain rd1 r1 where d: "redis_do e 8 (redis_GetDel (clock e) (refresh_key tok)) rd = (rd1, r1)" by fastforce
  note t = take_token [OF assms(1) d]
  show ?thesis
  proof (cases "\<exists>u. r1 = Inr (Some u)")
    case False
    then have "rd' = rd1" "\<And>u. r \<noteq> Inr (u, refreshOK)"
      using assms(2) d by (auto simp: consumeRefreshToken_def split: sum.splits option.splits)
    then show ?thesis using t by blast
  next
    case True
    then obtain userID where u: "r1 = Inr (Some userID)" by blast
    obtain rd2 r2 where d2: "redis_do e 9 (redis_SRem (clock e) (user_refresh_key userID) tok) rd1 = (rd2, r2)" by fastforce
    have t1: "sessions_ok (clock e) rd1" "fewer (clock e) rd rd1" "session_of (clock e) tok rd = Some userID" "rd1 (refresh_key tok) = None"
      using t u by blast+
    note t2 = drop_member [OF t1(1,4) d2]
    have out: "rd' = rd2" "\<And>v. r = Inr (v, refreshOK) \<Longrightarrow> findUserByID rt e db userID = Inr (Some v) \<and> us_status v = ''active''"
      using assms(2) d d2 u by (auto simp: consumeRefreshToken_def split: sum.splits option.splits if_splits)
    show ?thesis unfolding out(1) using t2 t1 fewer_trans out(2) by blast
  qed
qed

lemma logout_token:
  assumes "sessions_ok (clock e) rd" "logoutHandler e req rd = (rd', resp)"
  shows "sessions_ok (clock e) rd' \<and> fewer (clock e) rd rd'"
proof (cases req)
  case None
  then show ?thesis using assms by (simp add: logoutHandler_def)
next
  case (Some tok)
  obtain rd1 r1 where d: "redis_do e 8 (redis_GetDel (clock e) (refresh_key tok)) rd = (rd1, r1)" by fastforce
  note t = take_token [OF assms(1) d]
  show ?thesis
  proof (cases "\<exists>u. r1 = Inr (Some u)")
    case False
    then have "rd' = rd1" using assms(2) d Some by (auto simp: logoutHandler_def split: sum.splits option.splits)
    then show ?thesis using t by blast
  next
    case True
    then obtain userID where u: "r1 = Inr (Some userID)" by blast
    obtain rd2 r2 where d2: "redis_do e 9 (redis_SRem (clock e) (user_refresh_key userID) tok) rd1 = (rd2, r2)" by fastforce
    have "rd' = rd2" using assms(2) d d2 u Some by (auto simp: logoutHandler_def split: sum.splits)
    moreover have t1: "sessions_ok (clock e) rd1" "fewer (clock e) rd rd1" "rd1 (refresh_key tok) = None" using t u by blast+
    ultimately show ?thesis using drop_member [OF t1(1,3) d2] fewer_trans by blast
  qed
qed

text \<open>The reset deletes the set of the user and every token in it.\<close>

lemma revoked_ok:
  assumes "sessions_ok t rd" "redis_SMembers t (user_refresh_key u) rd = Inr S"
  shows "sessions_ok t (redis_Del (insert (user_refresh_key u) (refresh_key ` S)) rd)"
    "\<And>k t'. t \<le> t' \<Longrightarrow> session_of t' k (redis_Del (insert (user_refresh_key u) (refresh_key ` S)) rd) =
       (if session_of t' k rd = Some u \<or> k \<in> S then None else session_of t' k rd)"
proof -
  let ?rd = "redis_Del (insert (user_refresh_key u) (refresh_key ` S)) rd"
  have at: "?rd (refresh_key k) = (if k \<in> S then None else rd (refresh_key k))" "?rd (user_refresh_key w) = (if w = u then None else rd (user_refresh_key w))" for k w
    by (auto simp: redis_Del_def)
  have in_S: "k \<in> S" if k: "rd (refresh_key k) = Some (RString u, x)" "t < x" for k x
  proof -
    from sessions_okD(1) [OF assms(1) k(1)] k(2) obtain S0 y where "rd (user_refresh_key u) = Some (RSet S0, y)" "k \<in> S0" "x \<le> y" by (auto simp: member_of_def)
    then show ?thesis using assms(2) k(2) by (simp add: redis_SMembers_def redis_get_def)
  qed
  show "sessions_ok t ?rd"
  proof (rule sessions_okI)
    fix k v x
    assume "?rd (refresh_key k) = Some (v, x)"
    then have k: "rd (refresh_key k) = Some (v, x)" "k \<notin> S" unfolding at by (auto split: if_splits)
    from sessions_okD(1) [OF assms(1) k(1)] obtain w where w: "v = RString w" "t < x \<longrightarrow> x \<le> t + refreshTokenTTL \<and> member_of rd k w x" by blast
    have "member_of ?rd k w x" if "t < x"
    proof -
      have "w \<noteq> u" using in_S k w(1) that by blast
      then show ?thesis using w(2) that unfolding member_of_def at by simp
    qed
    then show "\<exists>w. v = RString w \<and> (t < x \<longrightarrow> x \<le> t + refreshTokenTTL \<and> member_of ?rd k w x)" using w by blast
  next
    fix w v y
    assume "?rd (user_refresh_key w) = Some (v, y)"
    then show "\<exists>S. v = RSet S" using sessions_okD(2) [OF assms(1)] unfolding at by (auto split: if_splits)
  qed
  fix k t'
  assume "t \<le> t'"
  have S: "k \<in> S" if "session_of t' k rd = Some u" using that in_S \<open>t \<le> t'\<close> by (auto simp: session_of_Some)
  have "session_of t' k ?rd = (if k \<in> S then None else session_of t' k rd)" unfolding session_of_def redis_get_def at by simp
  then show "session_of t' k ?rd = (if session_of t' k rd = Some u \<or> k \<in> S then None else session_of t' k rd)" using S by auto
qed

subsection \<open>Runs\<close>

text \<open>
  The requests that reach Redis, in any order and with any failures; each names the tables it finds. A login issues
  tokens or changes nothing, a refresh takes its token and then issues new ones: other requests may come in between.
  Two logs are kept: the tokens that were drawn for a pair, and those that a refresh accepted.
\<close>

record session_log =
  sl_now :: int
  sl_redis :: redis
  sl_drawn :: "string list"
  sl_redeemed :: "string list"

definition drawn_token :: "env \<Rightarrow> string list" where
  "drawn_token e = (case generateRefreshToken (crand_read e 1) of None \<Rightarrow> [] | Some tok \<Rightarrow> [tok])"

definition accepted_token :: "string \<Rightarrow> auth_error + user \<times> refreshOutcome \<Rightarrow> string list" where
  "accepted_token tok r = (case r of Inr (u, refreshOK) \<Rightarrow> [tok] | _ \<Rightarrow> [])"

inductive session_run :: "auth_svc \<Rightarrow> session_log \<Rightarrow> bool" for sv :: auth_svc where
  sessions_start: "session_run sv \<lparr>sl_now = t, sl_redis = Map.empty, sl_drawn = [], sl_redeemed = []\<rparr>"
| sessions_login: "session_run sv (s\<lparr>sl_now := clock e, sl_redis := rd', sl_drawn := sl_drawn s @ drawn_token e\<rparr>)"
  if "session_run sv s" "sl_now s \<le> clock e" "loginHandler sv e req db (sl_redis s) = (rd', resp)"
| sessions_consume: "session_run sv (s\<lparr>sl_now := clock e, sl_redis := rd', sl_redeemed := sl_redeemed s @ accepted_token tok r\<rparr>)"
  if "session_run sv s" "sl_now s \<le> clock e" "consumeRefreshToken (lb_runtime (sv_lib sv)) e db tok (sl_redis s) = (rd', r)"
| sessions_issue: "session_run sv (s\<lparr>sl_now := clock e, sl_redis := rd', sl_drawn := sl_drawn s @ drawn_token e\<rparr>)"
  if "session_run sv s" "sl_now s \<le> clock e" "issueTokenPair sv e u (sl_redis s) = (rd', r')"
| sessions_logout: "session_run sv (s\<lparr>sl_now := clock e, sl_redis := rd'\<rparr>)"
  if "session_run sv s" "sl_now s \<le> clock e" "logoutHandler e tok' (sl_redis s) = (rd', resp)"
| sessions_reset: "session_run sv (s\<lparr>sl_now := clock e, sl_redis := rd'\<rparr>)"
  if "session_run sv s" "sl_now s \<le> clock e" "resetPasswordHandler sv e req' db (sl_redis s) = (db', rd', resp)"
| sessions_resend: "session_run sv (s\<lparr>sl_now := clock (ae_env ae), sl_redis := rd'\<rparr>)"
  if "session_run sv s" "sl_now s \<le> clock (ae_env ae)" "resendVerificationHandler sv ae email db (sl_redis s) = (db', rd', mails, resp)"
| sessions_forgot: "session_run sv (s\<lparr>sl_now := clock (ae_env ae), sl_redis := rd'\<rparr>)"
  if "session_run sv s" "sl_now s \<le> clock (ae_env ae)" "forgotPasswordHandler sv ae email db (sl_redis s) = (db', rd', mails, resp)"

definition live :: "session_log \<Rightarrow> string \<Rightarrow> nat" where
  "live s k = (if session_of (sl_now s) k (sl_redis s) = None then 0 else 1)"

definition sessions_inv :: "session_log \<Rightarrow> bool" where
  "sessions_inv s \<longleftrightarrow> sessions_ok (sl_now s) (sl_redis s) \<and> (\<forall>k. count_list (sl_redeemed s) k + live s k \<le> count_list (sl_drawn s) k)"

lemma session_of_later: "t \<le> t' \<Longrightarrow> session_of t k rd = None \<Longrightarrow> session_of t' k rd = None"
  by (force simp: session_of_def redis_get_def split: option.splits if_splits redis_value.splits)

lemma live_fewer: "fewer t (sl_redis s) rd \<Longrightarrow> sl_now s \<le> t \<Longrightarrow> (if session_of t k rd = None then 0 else 1) \<le> live s k"
  using session_of_later [of "sl_now s" t k "sl_redis s"] unfolding fewer_def live_def
  by (cases "session_of t k rd = None") (simp, metis order_refl)

lemma inv_fewer:
  assumes "sessions_inv s" "sl_now s \<le> t" "sessions_ok t rd" "fewer t (sl_redis s) rd"
  shows "sessions_inv (s\<lparr>sl_now := t, sl_redis := rd\<rparr>)"
proof -
  have "count_list (sl_redeemed s) k + (if session_of t k rd = None then 0 else 1) \<le> count_list (sl_drawn s) k" for k
    using assms(1) live_fewer [OF assms(4,2), of k] unfolding sessions_inv_def by (meson add_left_mono order_trans)
  then show ?thesis using assms(3) by (simp add: sessions_inv_def live_def)
qed

lemma inv_issue:
  assumes "sessions_inv s" "sl_now s \<le> clock e" "issueTokenPair sv e u (sl_redis s) = (rd', r)"
  shows "sessions_inv (s\<lparr>sl_now := clock e, sl_redis := rd', sl_drawn := sl_drawn s @ drawn_token e\<rparr>)"
proof -
  have ok: "sessions_ok (clock e) (sl_redis s)" using assms(1,2) sessions_ok_later by (auto simp: sessions_inv_def)
  have old: "count_list (sl_redeemed s) k + (if session_of (clock e) k (sl_redis s) = None then 0 else 1) \<le> count_list (sl_drawn s) k" for k
    using assms(1) live_fewer [OF fewer_refl assms(2), of k] unfolding sessions_inv_def by (meson add_left_mono order_trans)
  from assms(3) show ?thesis
  proof (cases rule: issue_cases)
    case none
    then show ?thesis using old ok by (simp add: sessions_inv_def live_def trans_le_add1)
  next
    case (stored tok)
    have "count_list (sl_redeemed s) k + (if session_of (clock e) k rd' = None then 0 else 1) \<le> count_list (sl_drawn s @ drawn_token e) k" for k
      using old [of k] unfolding stored(2) store_refresh_session [OF ok] by (simp add: drawn_token_def stored(1) [unfolded One_nat_def] split: if_splits)
    then show ?thesis using store_refresh_ok [OF ok] stored(2) by (simp add: sessions_inv_def live_def)
  qed
qed

lemma cooldown_ok:
  assumes "sessions_ok t rd" "redis_do e 7 (redis_SetNX t k v ttl) rd = (rd', r)" "\<And>tok. refresh_key tok \<noteq> k" "\<And>u. user_refresh_key u \<noteq> k"
  shows "sessions_ok t rd' \<and> fewer t rd rd'"
proof -
  have same: "rd' (refresh_key tok) = rd (refresh_key tok)" "rd' (user_refresh_key u) = rd (user_refresh_key u)" for tok u
    using assms(2,3,4) by (auto simp: redis_do_def redis_SetNX_def split: fault.splits if_splits)
  then have "fewer t rd rd'" by (simp add: fewer_def session_of_def redis_get_def)
  then show ?thesis using sessions_ok_same [OF assms(1) same] by blast
qed

lemma resend_redis:
  assumes "sessions_ok (clock (ae_env ae)) rd" "resendVerificationHandler sv ae email db rd = (db', rd', mails, resp)"
  shows "sessions_ok (clock (ae_env ae)) rd' \<and> fewer (clock (ae_env ae)) rd rd'"
proof -
  from assms(2) have "rd' = rd \<or> (\<exists>em r. redis_do (ae_env ae) 7 (redis_SetNX (clock (ae_env ae)) (''resend-verification:'' @ em) ''1'' resendCooldown) rd = (rd', r))"
    by (auto simp: resendVerificationHandler_def Let_def split: option.splits prod.splits if_splits sum.splits bool.splits resendOutcome.splits)
  then show ?thesis
  proof (elim disjE exE)
    fix em r
    assume "redis_do (ae_env ae) 7 (redis_SetNX (clock (ae_env ae)) (''resend-verification:'' @ em) ''1'' resendCooldown) rd = (rd', r)"
    then show ?thesis by (rule cooldown_ok [OF assms(1)]) (rule session_keys_apart)+
  qed (use assms(1) in simp)
qed

lemma forgot_redis:
  assumes "sessions_ok (clock (ae_env ae)) rd" "forgotPasswordHandler sv ae email db rd = (db', rd', mails, resp)"
  shows "sessions_ok (clock (ae_env ae)) rd' \<and> fewer (clock (ae_env ae)) rd rd'"
proof -
  from assms(2) have "rd' = rd \<or> (\<exists>em r. redis_do (ae_env ae) 7 (redis_SetNX (clock (ae_env ae)) (''forgot-password:'' @ em) ''1'' forgotPasswordCooldown) rd = (rd', r))"
    by (auto simp: forgotPasswordHandler_def Let_def split: option.splits prod.splits if_splits sum.splits bool.splits)
  then show ?thesis
  proof (elim disjE exE)
    fix em r
    assume "redis_do (ae_env ae) 7 (redis_SetNX (clock (ae_env ae)) (''forgot-password:'' @ em) ''1'' forgotPasswordCooldown) rd = (rd', r)"
    then show ?thesis by (rule cooldown_ok [OF assms(1)]) (rule session_keys_apart)+
  qed (use assms(1) in simp)
qed

text \<open>A reset that finds the set deletes the sessions of the user; otherwise nothing.\<close>

lemma revoke_redis:
  assumes "sessions_ok (clock e) rd" "revokeAllUserRefreshTokens e userID rd = (rd', r)"
  shows "sessions_ok (clock e) rd' \<and> fewer (clock e) rd rd' \<and>
    (\<not> fails e 8 \<and> \<not> fails e 9 \<longrightarrow> (\<forall>k t. clock e \<le> t \<longrightarrow> session_of t k rd' \<noteq> Some userID))"
proof (cases "fails e 8")
  case True
  then show ?thesis using assms by (simp add: revokeAllUserRefreshTokens_def)
next
  case no: False
  obtain S where S: "redis_SMembers (clock e) (user_refresh_key userID) rd = Inr S"
  proof (cases "redis_get (clock e) (user_refresh_key userID) rd")
    case None
    then show thesis using that by (simp add: redis_SMembers_def)
  next
    case (Some v)
    then obtain x where "rd (user_refresh_key userID) = Some (v, x)" by (auto simp: redis_get_Some)
    from sessions_okD(2) [OF assms(1) this] Some show thesis using that by (auto simp: redis_SMembers_def)
  qed
  let ?del = "redis_Del (insert (user_refresh_key userID) (refresh_key ` S))"
  have f: "fewer (clock e) rd (?del rd)" unfolding fewer_def using revoked_ok(2) [OF assms(1) S] by simp
  have gone: "session_of t k (?del rd) \<noteq> Some userID" if "clock e \<le> t" for t k using revoked_ok(2) [OF assms(1) S that, of k] by auto
  have d: "redis_do e 9 (\<lambda>rd. (?del rd, Inr ())) rd = (rd', r)" using assms(2) no S by (simp add: revokeAllUserRefreshTokens_def)
  have 9: "rd' = ?del rd" if "\<not> fails e 9" using d that by (auto simp: redis_do_def fails_def split: fault.splits)
  from d show ?thesis
  proof (cases rule: redis_do_cases)
    case 1
    then show ?thesis using assms(1) gone 9 by auto
  next
    case 2
    then show ?thesis using revoked_ok(1) [OF assms(1) S] f gone by simp
  qed
qed

lemma reset_handler_redis:
  assumes "resetPasswordHandler sv e req db rd = (db', rd', resp)"
  shows "rd' = rd \<or> (\<exists>userID. rd' = fst (revokeAllUserRefreshTokens e userID rd))"
  using assms
  by (auto simp: resetPasswordHandler_def split: option.splits prod.splits if_splits sum.splits verifyOutcome.splits)

lemma session_run_inv: "session_run sv s \<Longrightarrow> sessions_inv s"
proof (induction rule: session_run.induct)
  case (sessions_start t)
  show ?case by (simp add: sessions_inv_def sessions_ok_empty live_def session_of_def redis_get_def)
next
  case (sessions_login s e req db rd' resp)
  have "rd' = sl_redis s \<or> (\<exists>u r. issueTokenPair sv e u (sl_redis s) = (rd', r))"
    using sessions_login(3) by (auto simp: loginHandler_def split: option.splits prod.splits sum.splits loginOutcome.splits)
  then show ?case
  proof (elim disjE exE)
    assume same: "rd' = sl_redis s"
    have "sessions_inv (s\<lparr>sl_now := clock e, sl_redis := rd'\<rparr>)"
      unfolding same using sessions_login(2,4) sessions_ok_later by (intro inv_fewer) (auto simp: sessions_inv_def)
    then show ?case by (simp add: sessions_inv_def live_def trans_le_add1)
  next
    fix u r assume "issueTokenPair sv e u (sl_redis s) = (rd', r)"
    then show ?case by (rule inv_issue [OF sessions_login(4,2)])
  qed
next
  case (sessions_consume s e db tok rd' r)
  have ok: "sessions_ok (clock e) (sl_redis s)" using sessions_consume(2,4) sessions_ok_later by (auto simp: sessions_inv_def)
  note c = consume_token [OF ok sessions_consume(3)]
  show ?case
  proof (cases "\<exists>u. r = Inr (u, refreshOK)")
    case False
    then have "accepted_token tok r = []" by (auto simp: accepted_token_def split: sum.splits refreshOutcome.splits)
    then show ?thesis using inv_fewer [OF sessions_consume(4,2)] c by simp
  next
    case True
    then have log: "accepted_token tok r = [tok]" by (auto simp: accepted_token_def)
    have was: "session_of (clock e) tok (sl_redis s) \<noteq> None" and now_none: "session_of (clock e) tok rd' = None" using c True by auto
    have tok: "live s tok = 1" using was session_of_later [OF sessions_consume(2)] unfolding live_def by metis
    have "count_list (sl_redeemed s @ [tok]) k + (if session_of (clock e) k rd' = None then 0 else 1) \<le> count_list (sl_drawn s) k" for k
    proof (cases "k = tok")
      case True
      have "count_list (sl_redeemed s) tok + live s tok \<le> count_list (sl_drawn s) tok" using sessions_consume(4) by (simp add: sessions_inv_def)
      then show ?thesis unfolding True now_none tok by simp
    next
      case False
      have "(if session_of (clock e) k rd' = None then 0 else 1) \<le> live s k" using live_fewer c sessions_consume(2) by blast
      moreover have "count_list (sl_redeemed s) k + live s k \<le> count_list (sl_drawn s) k" using sessions_consume(4) by (simp add: sessions_inv_def)
      ultimately show ?thesis using False by simp
    qed
    then show ?thesis using c unfolding log by (simp add: sessions_inv_def live_def)
  qed
next
  case (sessions_issue s e u rd' r')
  then show ?case using inv_issue by blast
next
  case (sessions_logout s e tok' rd' resp)
  have ok: "sessions_ok (clock e) (sl_redis s)" using sessions_logout(2,4) sessions_ok_later by (auto simp: sessions_inv_def)
  show ?case using inv_fewer [OF sessions_logout(4,2)] logout_token [OF ok sessions_logout(3)] by blast
next
  case (sessions_reset s e req' db db' rd' resp)
  have ok: "sessions_ok (clock e) (sl_redis s)" using sessions_reset(2,4) sessions_ok_later by (auto simp: sessions_inv_def)
  have "sessions_ok (clock e) rd' \<and> fewer (clock e) (sl_redis s) rd'"
    using reset_handler_redis [OF sessions_reset(3)]
  proof (elim disjE exE)
    fix userID assume "rd' = fst (revokeAllUserRefreshTokens e userID (sl_redis s))"
    then obtain r where "revokeAllUserRefreshTokens e userID (sl_redis s) = (rd', r)" by (metis prod.collapse)
    then show ?thesis using revoke_redis [OF ok] by blast
  qed (use ok in simp)
  then show ?case using inv_fewer [OF sessions_reset(4,2)] by blast
next
  case (sessions_resend s ae email db db' rd' mails resp)
  have ok: "sessions_ok (clock (ae_env ae)) (sl_redis s)" using sessions_resend(2,4) sessions_ok_later by (auto simp: sessions_inv_def)
  show ?case using inv_fewer [OF sessions_resend(4,2)] resend_redis [OF ok sessions_resend(3)] by blast
next
  case (sessions_forgot s ae email db db' rd' mails resp)
  have ok: "sessions_ok (clock (ae_env ae)) (sl_redis s)" using sessions_forgot(2,4) sessions_ok_later by (auto simp: sessions_inv_def)
  show ?case using inv_fewer [OF sessions_forgot(4,2)] forgot_redis [OF ok sessions_forgot(3)] by blast
qed

lemma distinct_count_list: "distinct xs \<longleftrightarrow> (\<forall>x. count_list xs x \<le> 1)"
proof (induction xs)
  case (Cons a xs)
  have "(\<forall>x. count_list (a # xs) x \<le> 1) \<longleftrightarrow> count_list xs a = 0 \<and> (\<forall>x. count_list xs x \<le> 1)"
  proof (intro iffI conjI allI)
    assume l: "\<forall>x. count_list (a # xs) x \<le> 1"
    show "count_list xs a = 0" using spec [OF l, of a] by simp
    fix x show "count_list xs x \<le> 1" using spec [OF l, of x] by (simp split: if_splits)
  next
    fix x assume "count_list xs a = 0 \<and> (\<forall>x. count_list xs x \<le> 1)"
    then show "count_list (a # xs) x \<le> 1" by (cases "a = x") simp_all
  qed
  then show ?case unfolding Cons.IH distinct.simps count_list_0_iff by blast
qed simp

subsection \<open>Properties\<close>

text \<open>
  C17: A refresh token is redeemed at most once. In every run, with refreshes, logouts, resets and failures interleaved in
  any way, a token is accepted at most as often as it was drawn, less one while it is still live; so when no two draws
  are equal, no token is ever accepted twice and none that was not issued.
\<close>

theorem refresh_token_redeemed_once:
  assumes "session_run sv s"
  shows "(\<forall>tok. count_list (sl_redeemed s) tok + live s tok \<le> count_list (sl_drawn s) tok) \<and>
    (distinct (sl_drawn s) \<longrightarrow> distinct (sl_redeemed s)) \<and> set (sl_redeemed s) \<subseteq> set (sl_drawn s)"
proof -
  have c: "count_list (sl_redeemed s) tok + live s tok \<le> count_list (sl_drawn s) tok" for tok
    using session_run_inv [OF assms] by (simp add: sessions_inv_def)
  then have le: "count_list (sl_redeemed s) tok \<le> count_list (sl_drawn s) tok" for tok using add_leD1 by blast
  have "set (sl_redeemed s) \<subseteq> set (sl_drawn s)"
  proof
    fix tok assume "tok \<in> set (sl_redeemed s)"
    then have "count_list (sl_redeemed s) tok \<noteq> 0" by (simp add: count_list_0_iff)
    then have "count_list (sl_drawn s) tok \<noteq> 0" using le [of tok] by linarith
    then show "tok \<in> set (sl_drawn s)" by (simp add: count_list_0_iff)
  qed
  moreover have "distinct (sl_drawn s) \<longrightarrow> distinct (sl_redeemed s)" unfolding distinct_count_list using le order_trans by blast
  ultimately show ?thesis using c by blast
qed

text \<open>
  C15: After the reset of a password every session of the user is over. When the new password is stored and neither Redis
  command fails, the answer is 200, from then on no refresh token belongs to the user, and every refresh with a token
  that did is refused with 401.
\<close>

theorem reset_ends_sessions:
  assumes "session_run sv s" "sl_now s \<le> clock e" "\<not> fails e 8" "\<not> fails e 9" "8 \<le> length password"
    "resetPassword (sv_lib sv) e db email code password = (db', Inr (verifyOK, userID))"
    "resetPasswordHandler sv e (Some (email, code, password)) db (sl_redis s) = (db2, rd', resp)"
  shows "resp = json_ok 200 (AuthStatus ''password_reset'') \<and> (\<forall>tok t. clock e \<le> t \<longrightarrow> session_of t tok rd' \<noteq> Some userID) \<and>
    (\<forall>tok e' db3. session_of (clock e) tok (sl_redis s) = Some userID \<and> clock e \<le> clock e' \<and> \<not> fails e' 8 \<longrightarrow>
       refreshHandler sv e' (Some tok) db3 rd' = (rd', json_error 401 ''invalid_refresh_token''))"
proof -
  have ok: "sessions_ok (clock e) (sl_redis s)"
    using session_run_inv [OF assms(1)] sessions_ok_later [OF _ assms(2)] by (simp add: sessions_inv_def)
  have out: "resp = json_ok 200 (AuthStatus ''password_reset'')" "rd' = fst (revokeAllUserRefreshTokens e userID (sl_redis s))"
    using assms(5,6,7) by (auto simp: resetPasswordHandler_def)
  obtain r where r: "revokeAllUserRefreshTokens e userID (sl_redis s) = (rd', r)" using out(2) by (metis prod.collapse)
  have after: "sessions_ok (clock e) rd'" "fewer (clock e) (sl_redis s) rd'" and gone: "\<And>k t. clock e \<le> t \<Longrightarrow> session_of t k rd' \<noteq> Some userID"
    using revoke_redis [OF ok r] assms(3,4) by blast+
  have "refreshHandler sv e' (Some tok) db3 rd' = (rd', json_error 401 ''invalid_refresh_token'')"
    if t: "session_of (clock e) tok (sl_redis s) = Some userID" "clock e \<le> clock e'" "\<not> fails e' 8" for tok e' db3
  proof -
    have "session_of (clock e) tok rd' = None" using after(2) gone [of "clock e" tok] t(1) unfolding fewer_def by (metis order_refl)
    then have "session_of (clock e') tok rd' = None" by (rule session_of_later [OF t(2)])
    then have "redis_GetDel (clock e') (refresh_key tok) rd' = (rd', Inr None)"
      using getdel_conv [OF sessions_ok_later [OF after(1) t(2)]] by simp
    then show ?thesis using t(3) by (simp add: refreshHandler_def consumeRefreshToken_def redis_do_def fails_def split: fault.splits)
  qed
  then show ?thesis using out(1) gone by blast
qed

text \<open>
  C39: A refresh under way escapes the reset. A refresh has taken its token when the password is reset and every session
  revoked; the pair it issues afterwards is live for the full seven days, although
  \<open>revokeAllUserRefreshTokens\<close> is documented as forcing a new login everywhere.
\<close>

theorem refresh_survives_reset:
  assumes "session_run sv s" "sl_now s \<le> clock e0" "clock e0 \<le> clock e1" "clock e1 \<le> clock e2"
    "consumeRefreshToken (lb_runtime (sv_lib sv)) e0 db tok (sl_redis s) = (rd1, Inr (u, refreshOK))"
    "resetPasswordHandler sv e1 req db1 rd1 = (db2, rd2, json_ok 200 (AuthStatus ''password_reset''))"
    "issueTokenPair sv e2 u rd2 = (rd3, Inr pair)"
  shows "\<forall>t. clock e2 \<le> t \<and> t < clock e2 + refreshTokenTTL \<longrightarrow> session_of t (tp_RefreshToken pair) rd3 = Some (us_id u)"
proof -
  have ok0: "sessions_ok (clock e0) (sl_redis s)"
    using session_run_inv [OF assms(1)] sessions_ok_later [OF _ assms(2)] by (simp add: sessions_inv_def)
  have ok1: "sessions_ok (clock e1) rd1" using consume_token [OF ok0 assms(5)] sessions_ok_later [OF _ assms(3)] by blast
  have "sessions_ok (clock e1) rd2" using reset_handler_redis [OF assms(6)]
  proof (elim disjE exE)
    fix userID assume "rd2 = fst (revokeAllUserRefreshTokens e1 userID rd1)"
    then obtain r where "revokeAllUserRefreshTokens e1 userID rd1 = (rd2, r)" by (metis prod.collapse)
    then show ?thesis using revoke_redis [OF ok1] by blast
  qed (use ok1 in simp)
  then have ok2: "sessions_ok (clock e2) rd2" by (rule sessions_ok_later [OF _ assms(4)])
  from assms(7) obtain tok' where "rd3 = fst (store_refresh (clock e2) (us_id u) tok' rd2)" "tp_RefreshToken pair = tok'"
    by (cases rule: issue_cases) blast+
  then show ?thesis using store_refresh_session [OF ok2] by simp
qed

subsection \<open>Examples\<close>

text \<open>An active user, a login, and then a refresh or a reset.\<close>

definition sample_active :: user where
  "sample_active = activate (auth_sample_env 3 ''3'') sample_user"

definition sample_reset_vc :: verification_code where
  "sample_reset_vc = new_code (auth_sample_env 3 ''3'') ''u1'' ''password_reset'' ''01''"

definition sample_auth_db :: auth_db where
  "sample_auth_db = migrated_auth\<lparr>users := [sample_active], verification_codes := [sample_reset_vc]\<rparr>"

definition sample_refresh_token :: string where
  "sample_refresh_token = EncodeToString (filled 32 (replicate 16 0))"

lemma sample_active_sel [simp]: "us_id sample_active = ''u1''" "us_email sample_active = ''a@b''" "us_status sample_active = ''active''"
  by (simp_all add: sample_active_def activate_def)

lemma sample_reset_vc_sel [simp]: "vc_id sample_reset_vc = ''c3''" "vc_user_id sample_reset_vc = ''u1''" "vc_purpose sample_reset_vc = ''password_reset''"
  "vc_code_hash sample_reset_vc = ''01''" "vc_used_at sample_reset_vc = None" "vc_attempts_remaining sample_reset_vc = 5" "vc_expires_at sample_reset_vc = 600000003"
  by (simp_all add: sample_reset_vc_def new_code_def)

lemma sample_refresh_token [simp]: "generateRefreshToken (Some (replicate 16 0)) = Some sample_refresh_token"
  by (simp add: generateRefreshToken_def sample_refresh_token_def)

definition sample_pair :: tokenPairResponse where
  "sample_pair = \<lparr>tp_AccessToken = ''su1'', tp_RefreshToken = sample_refresh_token\<rparr>"

lemma sample_issue: "sessions_ok t rd \<Longrightarrow> issueTokenPair sample_auth_svc (auth_sample_env t i) sample_active rd =
    (fst (store_refresh t ''u1'' sample_refresh_token rd), Inr sample_pair)"
  by (rule store_refresh_conv [of t rd "''u1''" sample_refresh_token], assumption)
    (simp add: issueTokenPair_def newAccessToken_def sample_auth_svc_def sample_auth_lib_def redis_do_def sample_pair_def)

definition sample_stored :: redis where
  "sample_stored = fst (store_refresh 4 ''u1'' sample_refresh_token Map.empty)"

definition sample_logged_in :: session_log where
  "sample_logged_in = \<lparr>sl_now = 4, sl_redis = sample_stored, sl_drawn = [sample_refresh_token], sl_redeemed = []\<rparr>"

lemma sample_drawn: "drawn_token (auth_sample_env t i) = [sample_refresh_token]"
  by (simp add: drawn_token_def)

lemma sample_logged_in_run: "session_run sample_auth_svc sample_logged_in"
proof -
  have "issueTokenPair sample_auth_svc (auth_sample_env 4 ''4'') sample_active Map.empty = (sample_stored, Inr sample_pair)"
    unfolding sample_issue [OF sessions_ok_empty] sample_stored_def ..
  with session_run.sessions_issue [OF session_run.sessions_start [of _ 4], of "auth_sample_env 4 ''4''"] show ?thesis
    by (simp add: sample_logged_in_def sample_drawn)
qed

lemma sample_stored_session: "session_of t k sample_stored = (if k = sample_refresh_token \<and> t < 4 + refreshTokenTTL then Some ''u1'' else None)"
  unfolding sample_stored_def store_refresh_session [OF sessions_ok_empty] by (simp add: session_of_def redis_get_def)

lemma sample_stored_ok: "sessions_ok 4 sample_stored"
  unfolding sample_stored_def by (rule store_refresh_ok [OF sessions_ok_empty])

lemma sample_found: "findUserByID plain_runtime (auth_sample_env t i) sample_auth_db ''u1'' = Inr (Some sample_active)"
  by (simp add: findUserByID_def sample_auth_db_def)

lemma sample_srem: "snd (redis_SRem t (user_refresh_key u) k rd) = Inr () \<or> (\<exists>v x. rd (user_refresh_key u) = Some (RString v, x))"
  by (auto simp: redis_SRem_def split: option.splits redis_value.splits)

lemma sample_consume: "\<exists>rd. consumeRefreshToken plain_runtime (auth_sample_env 5 ''5'') sample_auth_db sample_refresh_token sample_stored = (rd, Inr (sample_active, refreshOK))"
proof -
  have ok: "sessions_ok 5 sample_stored" by (rule sessions_ok_later [OF sample_stored_ok]) simp
  have s: "session_of 5 sample_refresh_token sample_stored = Some ''u1''" by (simp add: sample_stored_session refreshTokenTTL_def)
  let ?rd = "sample_stored(refresh_key sample_refresh_token := None)"
  have "snd (redis_SRem 5 (user_refresh_key ''u1'') sample_refresh_token ?rd) = Inr ()"
    using sample_srem [of 5 "''u1''" sample_refresh_token ?rd] sessions_okD(2) [OF forget_ok [OF ok]] by blast
  then show ?thesis
    by (cases "redis_SRem 5 (user_refresh_key ''u1'') sample_refresh_token ?rd")
      (simp add: consumeRefreshToken_def redis_do_def getdel_conv [OF ok] s sample_found)
qed

definition sample_taken :: redis where
  "sample_taken = fst (consumeRefreshToken plain_runtime (auth_sample_env 5 ''5'') sample_auth_db sample_refresh_token sample_stored)"

lemma sample_taken: "consumeRefreshToken plain_runtime (auth_sample_env 5 ''5'') sample_auth_db sample_refresh_token sample_stored = (sample_taken, Inr (sample_active, refreshOK))"
  using sample_consume by (auto simp: sample_taken_def)

definition sample_refreshing :: session_log where
  "sample_refreshing = sample_logged_in\<lparr>sl_now := 5, sl_redis := sample_taken, sl_redeemed := [sample_refresh_token]\<rparr>"

lemma sample_refreshing_run: "session_run sample_auth_svc sample_refreshing"
  using session_run.sessions_consume [OF sample_logged_in_run, of "auth_sample_env 5 ''5''" sample_auth_db sample_refresh_token sample_taken "Inr (sample_active, refreshOK)"]
    sample_taken
  by (simp add: sample_logged_in_def sample_auth_svc_def sample_refreshing_def accepted_token_def)

theorem refresh_token_redeemed_once_witness: "count_list (sl_redeemed sample_refreshing) sample_refresh_token = 1 \<and> live sample_refreshing sample_refresh_token = 0"
proof -
  have "count_list (sl_redeemed sample_refreshing) sample_refresh_token + live sample_refreshing sample_refresh_token \<le> count_list (sl_drawn sample_refreshing) sample_refresh_token"
    using refresh_token_redeemed_once [OF sample_refreshing_run] by blast
  then show ?thesis by (simp add: sample_refreshing_def sample_logged_in_def)
qed

lemma sample_reset: "\<exists>db. resetPassword sample_auth_lib (auth_sample_env t i) sample_auth_db ''a@b'' ''123456'' ''password'' = (db, Inr (verifyOK, ''u1''))" if "t \<le> 600000003"
  using that sample_hash
  by (simp add: resetPassword_def user_by_email_def pg_text_def sample_auth_db_def consumeVerificationCode_def newest_code_def sort_desc_def unused_code_def
      persist_NoFault)

lemma sample_reset_handler: "t \<le> 600000003 \<Longrightarrow> \<exists>db rd'. resetPasswordHandler sample_auth_svc (auth_sample_env t i) (Some (''a@b'', ''123456'', ''password'')) sample_auth_db rd =
    (db, rd', json_ok 200 (AuthStatus ''password_reset''))"
  using sample_reset [of t i] by (auto simp: resetPasswordHandler_def sample_auth_svc_def)

theorem reset_ends_sessions_witness:
  "\<exists>db rd. resetPasswordHandler sample_auth_svc (auth_sample_env 6 ''6'') (Some (''a@b'', ''123456'', ''password'')) sample_auth_db sample_stored =
      (db, rd, json_ok 200 (AuthStatus ''password_reset'')) \<and>
    session_of 6 sample_refresh_token sample_stored = Some ''u1'' \<and>
    refreshHandler sample_auth_svc (auth_sample_env 7 ''7'') (Some sample_refresh_token) sample_auth_db rd = (rd, json_error 401 ''invalid_refresh_token'')"
proof -
  obtain db' where db': "resetPassword sample_auth_lib (auth_sample_env 6 ''6'') sample_auth_db ''a@b'' ''123456'' ''password'' = (db', Inr (verifyOK, ''u1''))"
    using sample_reset [of 6 "''6''"] by auto
  obtain db rd where h: "resetPasswordHandler sample_auth_svc (auth_sample_env 6 ''6'') (Some (''a@b'', ''123456'', ''password'')) sample_auth_db sample_stored =
      (db, rd, json_ok 200 (AuthStatus ''password_reset''))" using sample_reset_handler [of 6 "''6''" sample_stored] by auto
  have s: "session_of 6 sample_refresh_token sample_stored = Some ''u1''" by (simp add: sample_stored_session refreshTokenTTL_def)
  have "refreshHandler sample_auth_svc (auth_sample_env 7 ''7'') (Some sample_refresh_token) sample_auth_db rd = (rd, json_error 401 ''invalid_refresh_token'')"
    using reset_ends_sessions [OF sample_logged_in_run, of "auth_sample_env 6 ''6''" "''password''" sample_auth_db "''a@b''" "''123456''" db' "''u1''" db rd
        "json_ok 200 (AuthStatus ''password_reset'')"] db' h s
    by (simp add: sample_logged_in_def sample_auth_svc_def)
  then show ?thesis using h s by blast
qed

theorem refresh_survives_reset_witness:
  "\<exists>db2 rd2 rd3 pair. resetPasswordHandler sample_auth_svc (auth_sample_env 6 ''6'') (Some (''a@b'', ''123456'', ''password'')) sample_auth_db sample_taken =
      (db2, rd2, json_ok 200 (AuthStatus ''password_reset'')) \<and>
    issueTokenPair sample_auth_svc (auth_sample_env 7 ''7'') sample_active rd2 = (rd3, Inr pair) \<and>
    session_of 8 (tp_RefreshToken pair) rd3 = Some ''u1''"
proof -
  obtain db2 rd2 where h: "resetPasswordHandler sample_auth_svc (auth_sample_env 6 ''6'') (Some (''a@b'', ''123456'', ''password'')) sample_auth_db sample_taken =
      (db2, rd2, json_ok 200 (AuthStatus ''password_reset''))" using sample_reset_handler [of 6 "''6''" sample_taken] by auto
  from session_run.sessions_reset [OF sample_refreshing_run, of "auth_sample_env 6 ''6''"] h
  have "session_run sample_auth_svc (sample_refreshing\<lparr>sl_now := 6, sl_redis := rd2\<rparr>)" by (simp add: sample_refreshing_def)
  from session_run_inv [OF this] have "sessions_ok 6 rd2" by (simp add: sessions_inv_def)
  then have ok: "sessions_ok 7 rd2" by (rule sessions_ok_later) simp
  note i = sample_issue [OF ok, of "''7''"]
  have c: "consumeRefreshToken (lb_runtime (sv_lib sample_auth_svc)) (auth_sample_env 5 ''5'') sample_auth_db sample_refresh_token (sl_redis sample_logged_in) =
      (sample_taken, Inr (sample_active, refreshOK))" using sample_taken by (simp add: sample_auth_svc_def sample_logged_in_def)
  have "session_of 8 (tp_RefreshToken sample_pair) (fst (store_refresh 7 ''u1'' sample_refresh_token rd2)) = Some ''u1''"
    using refresh_survives_reset [OF sample_logged_in_run _ _ _ c h i] by (simp add: sample_logged_in_def refreshTokenTTL_def)
  then show ?thesis using h i by blast
qed

end
