(* ===== verification/Auth_Gateway.thy ===== *)
theory Auth_Gateway
  imports Auth_Sessions Gateway_Properties
begin

text \<open>
  auth-svc and the gateway together: the access token that a login returns is the one the gateway lets in, and the
  gateway hands auth-svc the user that logged in.
\<close>

lemma login_cases:
  assumes "loginHandler sv e (Some (email, password)) db rd = (rd', json_ok 200 (AuthTokens pair))"
  obtains u where "u \<in> set (users db)" "us_email u = email" "us_status u = ''active''"
    "verifyPassword (sv_lib sv) password (us_password_hash u) = Inr True"
    "newAccessToken (sv_lib sv) e (sv_jwtSecret sv) (us_id u) (us_email u) = Some (tp_AccessToken pair)"
proof -
  obtain u out where a: "authenticateUser sv e db email password = Inr (u, out)"
    using assms by (cases "authenticateUser sv e db email password") (auto simp: loginHandler_def json_error_def json_ok_def)
  have out: "out = loginOK" using assms a by (cases out) (auto simp: loginHandler_def json_error_def json_ok_def)
  obtain rd1 r where i: "issueTokenPair sv e u rd = (rd1, r)" by fastforce
  have r: "r = Inr pair" using assms a out i by (cases r) (auto simp: loginHandler_def json_error_def json_ok_def)
  have "newAccessToken (sv_lib sv) e (sv_jwtSecret sv) (us_id u) (us_email u) = Some (tp_AccessToken pair)"
    using i by (cases rule: issue_cases) (use r in auto)
  moreover have "u \<in> set (users db) \<and> us_email u = email \<and> us_status u = ''active'' \<and> verifyPassword (sv_lib sv) password (us_password_hash u) = Inr True"
    using a unfolding out by (auto simp: authenticateUser_def findUserByEmail_def user_by_email_def split: sum.splits option.splits if_splits dest: find_Some_in)
  ultimately show thesis using that by blast
qed

text \<open>\<open>GET /profile\<close> with a token, and where the gateway sends it.\<close>

definition profile_request :: "string \<Rightarrow> http_request" where
  "profile_request token = \<lparr>rq_Method = ''GET'', rq_Path = ''/profile'', rq_Header = read_header [(''Authorization'', ''Bearer '' @ token)], rq_Body = []\<rparr>"

lemma profile_forwarded:
  assumes "rq_Path r = ''/profile''" "rq_Method r = ''GET''"
  shows "serve_mux (mux_patterns getenv r) r = reverse_proxy (envOr getenv ''AUTH_SVC_ADDR'' ''auth-svc:8081'') r"
proof -
  have m: "mux_match (mux_patterns getenv r) ''/profile'' = Some (''/profile'', newNoStripProxy (envOr getenv ''AUTH_SVC_ADDR'' ''auth-svc:8081''))"
    using assms(2) by (simp add: mux_match_def gateway_patterns_def routes_def Let_def pattern_matches_def is_subtree_def longer_def)
  have c: "cleanPath ''/profile'' = ''/profile''" by code_simp
  show ?thesis unfolding serve_mux_def assms(1) c Let_def m by (simp add: newNoStripProxy_def)
qed

lemma hop_names: "list_all (\<lambda>k. CanonicalHeaderKey k \<noteq> ''X-User-Id'') hopHeaders"
  by code_simp

lemma hop_deleted: "list_all (\<lambda>k. CanonicalHeaderKey k \<noteq> n) ks \<Longrightarrow> foldl (\<lambda>h k. header_Del k h) h ks n = h n"
  by (induction ks arbitrary: h) (auto simp: header_Del_def)

lemma profile_header:
  "proxy_header (header_Set ''X-User-Id'' userID (header_Del ''X-User-Id'' (read_header [(''Authorization'', v)]))) ''X-User-Id'' = [userID]"
proof -
  let ?h = "header_Set ''X-User-Id'' userID (header_Del ''X-User-Id'' (read_header [(''Authorization'', v)]))"
  have "connection_headers ?h = []" by (simp add: connection_headers_def header_Del_def header_Set_def read_header_def)
  then show ?thesis unfolding proxy_header_def by (simp add: hop_deleted [OF hop_names] header_Set_def)
qed

lemma profile_request_served:
  assumes "jwt token secret [''HS256''] = Some userID" "userID \<noteq> []" "token \<noteq> []"
  shows "\<exists>r'. newHandler jwt getenv secret (profile_request token) = GwForward (envOr getenv ''AUTH_SVC_ADDR'' ''auth-svc:8081'') r' \<and>
    rq_Method r' = ''GET'' \<and> rq_Path r' = ''/profile'' \<and> rq_Header r' ''X-User-Id'' = [userID]"
proof -
  let ?r = "profile_request token"
  have gated: "rq_Path ?r \<notin> set publicPaths" by (simp add: publicPaths_def profile_request_def)
  have auth: "header_Get ''Authorization'' (header_Del ''X-User-Id'' (rq_Header ?r)) = ''Bearer '' @ token"
    by (simp add: header_Get_def header_Del_def read_header_def profile_request_def)
  have user: "parseAccessToken jwt token secret = Some userID" using assms(1,2) by (simp add: parseAccessToken_def)
  have cut: "CutPrefix (''Bearer '' @ token) ''Bearer '' = Some token" by (simp add: CutPrefix_def)
  let ?r1 = "?r\<lparr>rq_Header := header_Set ''X-User-Id'' userID (header_Del ''X-User-Id'' (rq_Header ?r))\<rparr>"
  have "newHandler jwt getenv secret ?r = serve_mux (mux_patterns getenv ?r1) ?r1"
    using gated auth user cut assms(3) by (simp add: newHandler_def jwtMiddleware_def Let_def)
  also have "\<dots> = reverse_proxy (envOr getenv ''AUTH_SVC_ADDR'' ''auth-svc:8081'') ?r1"
    by (rule profile_forwarded) (simp_all add: profile_request_def)
  finally show ?thesis by (simp add: reverse_proxy_def profile_request_def profile_header)
qed

lemma profile_request_refused:
  assumes "jwt token secret [''HS256''] = None" "token \<noteq> []"
  shows "newHandler jwt getenv secret (profile_request token) = GwAnswer 401 ''invalid_token''"
proof -
  let ?r = "profile_request token"
  have "rq_Path ?r \<notin> set publicPaths" by (simp add: publicPaths_def profile_request_def)
  moreover have "header_Get ''Authorization'' (header_Del ''X-User-Id'' (rq_Header ?r)) = ''Bearer '' @ token"
    by (simp add: header_Get_def header_Del_def read_header_def profile_request_def)
  moreover have "CutPrefix (''Bearer '' @ token) ''Bearer '' = Some token" by (simp add: CutPrefix_def)
  ultimately show ?thesis using assms by (simp add: newHandler_def jwtMiddleware_def Let_def parseAccessToken_def)
qed

text \<open>
  C16: A login opens the user's own profile, for fifteen minutes. When a login answers with tokens, the password was that of
  an active user with the address; until its expiry the gateway forwards GET /profile with the access token to auth-svc as
  a request of that user, who is shown their profile, and from then on answers 401. Of the JWT library it assumes that a
  token it signed verifies under the same secret exactly while it has not expired, with the claims it was signed with.
\<close>

theorem login_opens_profile:
  assumes login: "loginHandler sv e (Some (email, password)) db rd = (rd', json_ok 200 (AuthTokens pair))"
    and jwt: "\<And>claims token. jwt_SignedString (sv_lib sv) (sv_jwtSecret sv) claims = Some token \<Longrightarrow>
      token \<noteq> [] \<and> jwt token (sv_jwtSecret sv) [''HS256''] = (if seconds < cl_ExpiresAt claims then Some (cl_UserID claims) else None)"
    and ids: "distinct (map us_id (users db))" "\<And>u. u \<in> set (users db) \<Longrightarrow> us_id u \<noteq> [] \<and> uuid_in rt (us_id u) = Some (us_id u)"
    and read: "\<not> fails e' 0"
  shows "\<exists>u\<in>set (users db). us_email u = email \<and> us_status u = ''active'' \<and> verifyPassword (sv_lib sv) password (us_password_hash u) = Inr True \<and>
    (if seconds < (clock e + accessTokenTTL) div 1000000
     then \<exists>r'. newHandler jwt getenv (sv_jwtSecret sv) (profile_request (tp_AccessToken pair)) = GwForward (envOr getenv ''AUTH_SVC_ADDR'' ''auth-svc:8081'') r' \<and>
       rq_Method r' = ''GET'' \<and> rq_Path r' = ''/profile'' \<and> rq_Header r' ''X-User-Id'' = [us_id u] \<and>
       getProfileHandler rt st e' db (us_id u) = json_ok 200 (AuthProfile (withAvatarURLs st (profile_of u)))
     else newHandler jwt getenv (sv_jwtSecret sv) (profile_request (tp_AccessToken pair)) = GwAnswer 401 ''invalid_token'')"
proof -
  from login_cases [OF login] obtain u where u: "u \<in> set (users db)" "us_email u = email" "us_status u = ''active''"
    "verifyPassword (sv_lib sv) password (us_password_hash u) = Inr True"
    "newAccessToken (sv_lib sv) e (sv_jwtSecret sv) (us_id u) (us_email u) = Some (tp_AccessToken pair)" by blast
  have id: "us_id u \<noteq> []" "uuid_in rt (us_id u) = Some (us_id u)" using ids(2) [OF u(1)] by simp_all
  have "find (\<lambda>v. us_id v = us_id u) (users db) = Some u" using ids(1) u(1) by (auto intro: find_unique)
  then have p: "getProfileHandler rt st e' db (us_id u) = json_ok 200 (AuthProfile (withAvatarURLs st (profile_of u)))"
    using id read by (simp add: getProfileHandler_def getProfile_def)
  note t = jwt [OF u(5) [unfolded newAccessToken_def]]
  show ?thesis
  proof (cases "seconds < (clock e + accessTokenTTL) div 1000000")
    case True
    then have "jwt (tp_AccessToken pair) (sv_jwtSecret sv) [''HS256''] = Some (us_id u)" using t by simp
    from profile_request_served [where getenv = getenv and jwt = jwt and token = "tp_AccessToken pair", OF this id(1) conjunct1 [OF t]] show ?thesis using True u p by auto
  next
    case False
    then have "jwt (tp_AccessToken pair) (sv_jwtSecret sv) [''HS256''] = None" using t by simp
    from profile_request_refused [where getenv = getenv and jwt = jwt and token = "tp_AccessToken pair", OF this conjunct1 [OF t]] show ?thesis using False u by auto
  qed
qed

text \<open>A stand-in for the JWT library whose tokens carry the expiry and the user.\<close>

definition sample_sign :: "string \<Rightarrow> accessTokenClaims \<Rightarrow> string option" where
  "sample_sign secret c = Some (replicate (nat (cl_ExpiresAt c)) CHR ''x'' @ CHR ''.'' # cl_UserID c)"

definition sample_parse :: "int \<Rightarrow> jwt_library" where
  "sample_parse t token secret methods =
     (let n = length (takeWhile (\<lambda>c. c = CHR ''x'') token) in if t < int n then Some (drop (Suc n) token) else None)"

lemma sample_parse_sign: "0 \<le> t \<Longrightarrow> sample_sign secret c = Some token \<Longrightarrow>
    token \<noteq> [] \<and> sample_parse t token secret methods = (if t < cl_ExpiresAt c then Some (cl_UserID c) else None)"
  by (cases "0 \<le> cl_ExpiresAt c") (auto simp: sample_sign_def sample_parse_def Let_def takeWhile_append split: if_splits)

definition sample_gateway_svc :: auth_svc where
  "sample_gateway_svc = sample_auth_svc\<lparr>sv_lib := sample_auth_lib\<lparr>jwt_SignedString := sample_sign\<rparr>\<rparr>"

lemma sample_gateway_svc_sel [simp]: "sv_lib sample_gateway_svc = sample_auth_lib\<lparr>jwt_SignedString := sample_sign\<rparr>" "sv_jwtSecret sample_gateway_svc = ''s''"
  by (simp_all add: sample_gateway_svc_def sample_auth_svc_def)

lemma sample_login: "\<exists>rd acc. loginHandler sample_gateway_svc (auth_sample_env 4 ''4'') (Some (''a@b'', ''password'')) sample_auth_db Map.empty =
    (rd, json_ok 200 (AuthTokens \<lparr>tp_AccessToken = acc, tp_RefreshToken = sample_refresh_token\<rparr>))"
proof -
  have v: "verifyPassword (sample_auth_lib\<lparr>jwt_SignedString := sample_sign\<rparr>) ''password'' sample_password_hash = Inr True"
  proof -
    have same: "argon2_IDKey (sample_auth_lib\<lparr>jwt_SignedString := sample_sign\<rparr>) = argon2_IDKey sample_auth_lib" by simp
    show ?thesis using sample_password_verifies unfolding verifyPassword_def same .
  qed
  have p: "us_password_hash sample_active = sample_password_hash" by (simp add: sample_active_def activate_def)
  have s: "snd (store_refresh t u k Map.empty) = Inr ()" for t u k by (simp add: store_refresh_def redis_get_def Let_def refresh_key_def user_refresh_key_def)
  show ?thesis
    by (cases "store_refresh 4 ''u1'' sample_refresh_token Map.empty")
      (use s [of 4 "''u1''" sample_refresh_token] in \<open>simp add: loginHandler_def authenticateUser_def findUserByEmail_def user_by_email_def pg_text_def sample_auth_db_def p v
        issueTokenPair_def newAccessToken_def sample_sign_def redis_do_def\<close>, rule exI, rule refl)
qed

theorem login_opens_profile_witness:
  "\<exists>rd pair r'. loginHandler sample_gateway_svc (auth_sample_env 4 ''4'') (Some (''a@b'', ''password'')) sample_auth_db Map.empty = (rd, json_ok 200 (AuthTokens pair)) \<and>
     newHandler (sample_parse 10) (\<lambda>_. []) ''s'' (profile_request (tp_AccessToken pair)) = GwForward ''auth-svc:8081'' r' \<and> rq_Header r' ''X-User-Id'' = [''u1'']"
proof -
  obtain rd pair where l: "loginHandler sample_gateway_svc (auth_sample_env 4 ''4'') (Some (''a@b'', ''password'')) sample_auth_db Map.empty = (rd, json_ok 200 (AuthTokens pair))"
    using sample_login by blast
  have j: "jwt_SignedString (sv_lib sample_gateway_svc) (sv_jwtSecret sample_gateway_svc) claims = Some token \<Longrightarrow> token \<noteq> [] \<and>
      sample_parse 10 token (sv_jwtSecret sample_gateway_svc) [''HS256''] = (if 10 < cl_ExpiresAt claims then Some (cl_UserID claims) else None)" for claims token
    using sample_parse_sign [of 10] by simp
  have i: "distinct (map us_id (users sample_auth_db))" "u \<in> set (users sample_auth_db) \<Longrightarrow> us_id u \<noteq> [] \<and> uuid_in plain_runtime (us_id u) = Some (us_id u)" for u
    by (auto simp: sample_auth_db_def)
  from login_opens_profile [where jwt = "sample_parse 10" and seconds = 10 and getenv = "\<lambda>_. []" and e' = "auth_sample_env 5 ''5''" and rt = plain_runtime, OF l j i]
  have "\<exists>r'. newHandler (sample_parse 10) (\<lambda>_. []) ''s'' (profile_request (tp_AccessToken pair)) = GwForward ''auth-svc:8081'' r' \<and> rq_Header r' ''X-User-Id'' = [''u1'']"
    by (auto simp: sample_auth_db_def accessTokenTTL_def envOr_def)
  then show ?thesis using l by blast
qed

end
