(* ===== verification/Auth_Profile_Properties.thy ===== *)
theory Auth_Profile_Properties
  imports Auth_Properties
begin

text \<open>
  Properties of auth-svc's profiles: runes and \<open>strings.TrimSpace\<close>, the form of every display name that is stored, and
  whose password an activated account has.
\<close>

subsection \<open>Runes of a part of a string\<close>

lemma DecodeRune_length: "bs \<noteq> [] \<Longrightarrow> snd (DecodeRune bs) \<le> length bs"
  by (cases bs) (simp_all add: DecodeRune_def Let_def)

text \<open>A rune depends on its own bytes only: cutting the string behind it leaves it as it is.\<close>

lemma DecodeRune_take:
  assumes "snd (DecodeRune bs) \<le> n"
  shows "DecodeRune (take n bs) = DecodeRune bs"
proof (cases "length bs \<le> n")
  case False
  then have l: "length (take n bs) = n" by simp
  have pos: "0 < n" using DecodeRune_width [of bs] assms by linarith
  then have 0: "take n bs ! 0 = bs ! 0" by simp
  have nth: "i < n \<Longrightarrow> take n bs ! i = bs ! i" for i by simp
  show ?thesis
  proof (cases "n < 4")
    case True
    then consider "n = 1" | "n = 2" | "n = 3" using pos by linarith
    then show ?thesis
      by cases (use assms False l nth in \<open>auto simp: DecodeRune_def Let_def split: if_splits\<close>)
  next
    case False
    then have "4 \<le> length (take n bs)" "4 \<le> length bs" using \<open>\<not> length bs \<le> n\<close> l by linarith+
    then have lens: "(2 \<le> length (take n bs)) = True" "(3 \<le> length (take n bs)) = True" "(4 \<le> length (take n bs)) = True"
      "(2 \<le> length bs) = True" "(3 \<le> length bs) = True" "(4 \<le> length bs) = True" by auto
    have nths: "take n bs ! 0 = bs ! 0" "take n bs ! 1 = bs ! 1" "take n bs ! 2 = bs ! 2" "take n bs ! 3 = bs ! 3" using False by simp_all
    show ?thesis unfolding DecodeRune_def lens nths ..
  qed
qed simp

lemma runes_Nil [simp]: "runes [] = []"
  by (simp add: runes.simps)

lemma runes_Cons: "s \<noteq> [] \<Longrightarrow> runes s = (fst (DecodeRune (map of_char s)), take (snd (DecodeRune (map of_char s))) s) # runes (drop (snd (DecodeRune (map of_char s))) s)"
  by (subst runes.simps) (simp add: split_beta)

lemma concat_runes: "concat (map snd (runes s)) = s"
proof (induction s rule: length_induct)
  case (1 s)
  show ?case
  proof (cases "s = []")
    case False
    let ?n = "snd (DecodeRune (map of_char s))"
    have "length (drop ?n s) < length s" using False DecodeRune_width [of "map of_char s"] by (cases s) simp_all
    then have "concat (map snd (runes (drop ?n s))) = drop ?n s" using 1 by blast
    then show ?thesis unfolding runes_Cons [OF False] by simp
  qed simp
qed

lemma runes_drop: "runes (concat (map snd (drop k (runes s)))) = drop k (runes s)"
proof (induction k arbitrary: s)
  case (Suc k)
  then show ?case by (cases "s = []") (simp_all add: runes_Cons)
qed (simp add: concat_runes)

lemma runes_take: "runes (concat (map snd (take k (runes s)))) = take k (runes s)"
proof (induction k arbitrary: s)
  case (Suc k)
  show ?case
  proof (cases "s = []")
    case False
    let ?n = "snd (DecodeRune (map of_char s))" let ?rest = "concat (map snd (take k (runes (drop ?n s))))"
    have n: "1 \<le> ?n" "?n \<le> length s" using DecodeRune_width [of "map of_char s"] DecodeRune_length [of "map of_char s :: nat list"] False by simp_all
    have "drop ?n s = ?rest @ concat (map snd (drop k (runes (drop ?n s))))"
      by (metis append_take_drop_id concat_append concat_runes map_append)
    then have s: "take ?n s @ ?rest = take (?n + length ?rest) s" using n by (metis append_eq_conv_conj take_add)
    let ?m = "?n + length ?rest"
    have d: "DecodeRune (map of_char (take ?m s)) = DecodeRune (map of_char s)"
      unfolding take_map [symmetric] by (rule DecodeRune_take) simp
    have ne: "take ?m s \<noteq> []" using n False by auto
    have parts: "take ?n (take ?m s) = take ?n s" "drop ?n (take ?m s) = ?rest" using n unfolding s [symmetric] by simp_all
    have "concat (map snd (take (Suc k) (runes s))) = take ?m s" unfolding runes_Cons [OF False] using s by simp
    then show ?thesis unfolding runes_Cons [OF False] by (simp add: runes_Cons [OF ne] d parts Suc)
  qed simp
qed simp

subsection \<open>TrimSpace\<close>

lemma dropWhile_drop: "\<exists>k. dropWhile P xs = drop k xs"
  by (metis append_eq_conv_conj takeWhile_dropWhile_id)

lemma strip_take: "\<exists>k. rev (dropWhile P (rev xs)) = take k xs"
  by (metis dropWhile_drop rev_drop rev_rev_ident)

definition strip :: "('r \<Rightarrow> bool) \<Rightarrow> 'r list \<Rightarrow> 'r list" where
  "strip P xs = rev (dropWhile P (rev (dropWhile P xs)))"

lemma strip_ends: "strip P xs \<noteq> [] \<Longrightarrow> \<not> P (hd (strip P xs)) \<and> \<not> P (last (strip P xs))"
proof -
  assume ne: "strip P xs \<noteq> []"
  let ?d = "dropWhile P xs"
  obtain k where k: "strip P xs = take k ?d" unfolding strip_def using strip_take [of P ?d] by blast
  then have "hd (strip P xs) = hd ?d" "?d \<noteq> []" using ne by auto
  then have "\<not> P (hd (strip P xs))" using hd_dropWhile [of P xs] by simp
  moreover have "last (strip P xs) = hd (dropWhile P (rev ?d))" "dropWhile P (rev ?d) \<noteq> []"
    using ne by (simp_all add: strip_def last_rev)
  ultimately show ?thesis using hd_dropWhile [of P "rev ?d"] by simp
qed

lemma strip_idem: "strip P (strip P xs) = strip P xs"
proof (cases "strip P xs = []")
  case False
  then have e: "\<not> P (hd (strip P xs))" "\<not> P (last (strip P xs))" using strip_ends by blast+
  have "dropWhile P (strip P xs) = strip P xs" using e(1) False by (cases "strip P xs") simp_all
  moreover have "dropWhile P (rev (strip P xs)) = rev (strip P xs)"
    using e(2) False by (cases "rev (strip P xs)") (simp_all add: hd_rev [symmetric])
  ultimately show ?thesis unfolding strip_def [of P "strip P xs"] by simp
next
  case True
  show ?thesis unfolding True by (simp add: strip_def)
qed

lemma runes_TrimSpace: "runes (TrimSpace s) = strip (IsSpace \<circ> fst) (runes s)"
proof -
  obtain k where k: "dropWhile (IsSpace \<circ> fst) (runes s) = drop k (runes s)" using dropWhile_drop by blast
  obtain m where m: "rev (dropWhile (IsSpace \<circ> fst) (rev (drop k (runes s)))) = take m (drop k (runes s))" using strip_take by blast
  obtain t where t: "drop k (runes s) = runes t" using runes_drop by metis
  have "TrimSpace s = concat (map snd (take m (runes t)))" unfolding TrimSpace_def k m unfolding t ..
  then show ?thesis unfolding strip_def k m unfolding t by (simp only: runes_take)
qed

lemma TrimSpace_strip: "TrimSpace s = concat (map snd (strip (IsSpace \<circ> fst) (runes s)))"
  by (simp add: TrimSpace_def strip_def)

lemma TrimSpace_idem: "TrimSpace (TrimSpace s) = TrimSpace s"
  unfolding TrimSpace_strip [of "TrimSpace s"] runes_TrimSpace strip_idem by (rule TrimSpace_strip [symmetric])

subsection \<open>Display names\<close>

definition stored_name_ok :: "string option \<Rightarrow> bool" where
  "stored_name_ok name \<longleftrightarrow>
     (case name of
        None \<Rightarrow> True
      | Some n \<Rightarrow> n \<noteq> [] \<and> TrimSpace n = n \<and> length (runes n) \<le> maxDisplayNameLength \<and>
          (\<forall>r\<in>set (map fst (runes n)). \<not> IsControl r \<and> r \<notin> set bidiControlChars))"

definition all_users :: "(user \<Rightarrow> bool) \<Rightarrow> auth_db \<Rightarrow> bool" where
  "all_users P db \<longleftrightarrow> (\<forall>u\<in>set (users db). P u)"

lemma all_users_same: "users db' = users db \<Longrightarrow> all_users P db' = all_users P db"
  by (simp add: all_users_def)

lemma all_users_update:
  assumes "all_users P db" "users db' = update_where q f (users db)" "\<And>u. P u \<Longrightarrow> q u \<Longrightarrow> P (f u)"
  shows "all_users P db'"
  using assms by (auto simp: all_users_def in_set_update_where)

lemma all_users_persist: "all_users P db \<Longrightarrow> all_users P db' \<Longrightarrow> persist e i db db' err r = (d, x) \<Longrightarrow> all_users P d"
  using persist_keeps [of "all_users P" db db' e i err r] by simp

lemma all_users_issue:
  assumes "invalidateAndIssueCode e db i p h = Inr db'"
  shows "all_users P db' = all_users P db"
  using invalidateAndIssueCode_Inr(1) [OF assms] by (simp add: all_users_def)

lemma all_users_issue_persist:
  assumes "invalidateAndIssueCode e db i p h = Inr db1" "persist e k db db1 err r = (d, x)" "all_users P db"
  shows "all_users P d"
  by (rule all_users_persist [OF assms(3) _ assms(2)]) (simp only: all_users_issue [OF assms(1)] assms(3))

lemma consume_users: "consumeVerificationCode lib e db i p code = Inr (db', x) \<Longrightarrow> users db' = users db"
  by (auto simp: consumeVerificationCode_def split: if_splits option.splits)

text \<open>The handler checks the trimmed name before it stores it.\<close>

lemma checked_name: "TrimSpace s \<noteq> [] \<Longrightarrow> validateDisplayName (TrimSpace s) = None \<Longrightarrow> stored_name_ok (Some (TrimSpace s))"
  by (auto simp: stored_name_ok_def validateDisplayName_def TrimSpace_idem split: if_splits)

text \<open>
  A law on the rows of users that registration, a new password, activation and a new name keep: every operation but the
  change of the avatar then keeps it too.
\<close>

locale user_law =
  fixes P :: "user \<Rightarrow> bool"
  assumes law_new: "P (new_user e email h)"
    and law_password: "P u \<Longrightarrow> P (set_password e h u)"
    and law_activate: "P u \<Longrightarrow> P (activate e u)"
    and law_profile: "P u \<Longrightarrow> stored_name_ok name \<Longrightarrow> P (set_display_name e name u)"
begin

lemma law_register:
  assumes "all_users P db" "registerUserAndIssueCode e db email h c = (db', r)"
  shows "all_users P db'"
proof (cases "fails e 0")
  case no: False
  note d = assms(2) [unfolded registerUserAndIssueCode_def]
  show ?thesis
  proof (cases "user_by_email e 1 db email")
    case (Inl err)
    then show ?thesis using assms d no by simp
  next
    case found: (Inr f)
    show ?thesis
    proof (cases f)
      case None
      let ?db = "db\<lparr>users := users db @ [new_user e email h]\<rparr>"
      have ok: "all_users P ?db" using assms(1) by (auto simp: all_users_def law_new)
      show ?thesis
      proof (cases "invalidateAndIssueCode e ?db (gen_random_uuid e 0) ''email_verify'' c")
        case (Inl err)
        then show ?thesis using assms d no found None by (auto split: if_splits)
      next
        case (Inr db1)
        then have "all_users P db1" using ok all_users_issue by blast
        then show ?thesis using assms(1) d no found None Inr by (auto split: if_splits intro: all_users_persist)
      qed
    next
      case (Some u)
      let ?db = "db\<lparr>users := update_where (\<lambda>v. us_id v = us_id u) (set_password e h) (users db)\<rparr>"
      have ok: "all_users P ?db" by (rule all_users_update [OF assms(1), where f = "set_password e h"]) (simp_all add: law_password)
      show ?thesis
      proof (cases "invalidateAndIssueCode e ?db (us_id u) ''email_verify'' c")
        case (Inl err)
        then show ?thesis using assms d no found Some by (auto split: if_splits)
      next
        case (Inr db1)
        then have "all_users P db1" using ok all_users_issue by blast
        then show ?thesis using assms(1) d no found Some Inr by (auto split: if_splits intro: all_users_persist)
      qed
    qed
  qed
qed (use assms in \<open>simp add: registerUserAndIssueCode_def\<close>)

lemma law_resend: "all_users P db \<Longrightarrow> resendVerificationCode e db email c = (db', r) \<Longrightarrow> all_users P db'"
  by (auto simp: resendVerificationCode_def split: if_splits sum.splits option.splits intro: all_users_issue_persist)

lemma law_forgot: "all_users P db \<Longrightarrow> issuePasswordResetCode e db email c = (db', r) \<Longrightarrow> all_users P db'"
  by (auto simp: issuePasswordResetCode_def split: if_splits sum.splits option.splits intro: all_users_issue_persist)

lemma law_verify:
  assumes "all_users P db" "verifyEmailCode lib e db email code = (db', r)"
  shows "all_users P db'"
proof (cases "\<exists>u db1 out n. \<not> fails e 0 \<and> user_by_email e 1 db email = Inr (Some u) \<and> consumeVerificationCode lib e db (us_id u) ''email_verify'' code = Inr (db1, out, n)")
  case True
  then obtain u db1 out n where g: "\<not> fails e 0" "user_by_email e 1 db email = Inr (Some u)"
    "consumeVerificationCode lib e db (us_id u) ''email_verify'' code = Inr (db1, out, n)" by blast
  have ok: "all_users P db1" using assms(1) consume_users [OF g(3)] all_users_same by blast
  let ?db = "\<lambda>ob. db1\<lparr>users := update_where (\<lambda>v. us_id v = us_id u) (activate e) (users db1), auth_outbox := ob\<rparr>"
  have ok': "all_users P (?db ob)" for ob by (rule all_users_update [OF ok, where f = "activate e"]) (simp_all add: law_activate)
  show ?thesis
    using assms g ok ok' by (auto simp: verifyEmailCode_def split: if_splits option.splits intro: all_users_persist)
qed (use assms in \<open>auto simp: verifyEmailCode_def split: if_splits sum.splits option.splits prod.splits\<close>)

lemma law_reset:
  assumes "all_users P db" "resetPassword lib e db email code password = (db', r)"
  shows "all_users P db'"
proof (cases "\<exists>u db1 out n. \<not> fails e 0 \<and> user_by_email e 1 db email = Inr (Some u) \<and> consumeVerificationCode lib e db (us_id u) ''password_reset'' code = Inr (db1, out, n)")
  case True
  then obtain u db1 out n where g: "\<not> fails e 0" "user_by_email e 1 db email = Inr (Some u)"
    "consumeVerificationCode lib e db (us_id u) ''password_reset'' code = Inr (db1, out, n)" by blast
  have ok: "all_users P db1" using assms(1) consume_users [OF g(3)] all_users_same by blast
  let ?db = "\<lambda>h. db1\<lparr>users := update_where (\<lambda>v. us_id v = us_id u) (set_password e h) (users db1)\<rparr>"
  have ok': "all_users P (?db h)" for h by (rule all_users_update [OF ok, where f = "set_password e h"]) (simp_all add: law_password)
  show ?thesis
    using assms g ok ok' by (auto simp: resetPassword_def split: if_splits sum.splits intro: all_users_persist)
qed (use assms in \<open>auto simp: resetPassword_def split: if_splits sum.splits option.splits prod.splits\<close>)

lemma law_swap:
  assumes "all_users P db" "swapAvatarKey rt e db userID key = (db', r)" "\<And>u. P u \<Longrightarrow> uuid_in rt userID = Some (us_id u) \<Longrightarrow> P (set_avatar e key u)"
  shows "all_users P db'"
proof -
  have "all_users P (db\<lparr>users := update_where (\<lambda>v. us_id v = w) (set_avatar e key) (users db)\<rparr>)" if "uuid_in rt userID = Some w" for w
    by (rule all_users_update [OF assms(1), where q = "\<lambda>v. us_id v = w" and f = "set_avatar e key"]) (use assms(3) that in auto)
  then show ?thesis
    using assms by (auto simp: swapAvatarKey_def split: if_splits option.splits intro: all_users_persist)
qed

lemma law_update:
  assumes "all_users P db" "updateProfile rt e db userID name = (db', r)" "stored_name_ok name"
  shows "all_users P db'"
proof -
  have "all_users P (db\<lparr>users := update_where (\<lambda>v. us_id v = w) (set_display_name e name) (users db), auth_outbox := ob\<rparr>)" for w ob
    by (rule all_users_update [OF assms(1), where f = "set_display_name e name"]) (simp_all add: law_profile assms(3))
  then show ?thesis
    using assms by (auto simp: updateProfile_def split: if_splits option.splits intro: all_users_persist)
qed

lemma law_profile_handler:
  assumes "all_users P db" "updateProfileHandler rt st e db userID req = (db', resp)"
  shows "all_users P db'"
proof -
  from assms(2) have "db' = db \<or> (\<exists>name r. updateProfile rt e db userID name = (db', r) \<and> stored_name_ok name)"
  proof (cases "userID = [] \<or> req = None")
    case False
    then obtain s where s: "req = Some s" by blast
    let ?name = "if TrimSpace s = [] then None else Some (TrimSpace s)"
    show ?thesis
    proof (cases "if TrimSpace s = [] then None else validateDisplayName (TrimSpace s)")
      case None
      then have "stored_name_ok ?name" using checked_name [of s] by (auto simp: stored_name_ok_def split: if_splits)
      moreover obtain r where "updateProfile rt e db userID ?name = (db', r)"
        using assms(2) None s False by (cases "updateProfile rt e db userID ?name") (auto simp: updateProfileHandler_def Let_def split: sum.splits option.splits if_splits)
      ultimately show ?thesis by blast
    qed (use assms(2) s False in \<open>simp add: updateProfileHandler_def Let_def\<close>)
  next
    case True
    then show ?thesis using assms(2) by (cases "userID = []") (auto simp: updateProfileHandler_def)
  qed
  then show ?thesis using law_update assms(1) by blast
qed

end

interpretation names: user_law "\<lambda>u. stored_name_ok (us_display_name u)"
  by unfold_locales (auto simp: stored_name_ok_def new_user_def set_password_def activate_def set_display_name_def)

text \<open>
  C19: Every display name that is stored has the form the profile promises. In every run of the service, with any requests,
  workers and failures, the name of every user is absent or a non-empty string of at most fifty runes, without blanks at
  either end, without control characters and without characters that change the direction of the text.
\<close>

theorem display_names_wellformed:
  assumes "auth_run sv s" "u \<in> set (users (at_db s))"
  shows "stored_name_ok (us_display_name u)"
proof -
  have "all_users (\<lambda>u. stored_name_ok (us_display_name u)) (at_db s)"
    using assms(1)
  proof (induction rule: auth_run.induct)
    case run_start
    show ?case by (simp add: all_users_def migrated_auth_def)
  next
    case (run_register s ae req db' mails resp)
    then show ?case using register_handler_db [OF run_register(2)] names.law_register by (auto simp: advance_def)
  next
    case (run_verify s e email code db' resp)
    then show ?case using verify_handler_tells [OF run_verify(2)] names.law_verify by (auto simp: advance_def)
  next
    case (run_resend s ae email' rd db' rd' mails resp)
    then show ?case using resend_handler_db [OF run_resend(2)] names.law_resend by (auto simp: advance_def)
  next
    case (run_forgot s ae email' rd db' rd' mails resp)
    then show ?case using forgot_handler_db [OF run_forgot(2)] names.law_forgot by (auto simp: advance_def)
  next
    case (run_reset s e email code password rd db' rd' resp)
    then show ?case using reset_handler_tells [OF run_reset(2)] names.law_reset by (auto simp: advance_def)
  next
    case (run_profile s st e userID name db' resp)
    then show ?case using names.law_profile_handler by (auto simp: advance_def)
  next
    case (run_avatar s e userID key db' r)
    then show ?case using names.law_swap [OF run_avatar(3)] by (auto simp: advance_def set_avatar_def)
  next
    case (run_upload s st lim window e userID db' resp)
    from all_users_same [OF conjunct1 [OF upload_keeps [OF run_upload(2)]]] show ?case using run_upload(3) by (simp add: advance_def)
  next
    case (run_sweep s e retention db' n)
    have "users db' = users (at_db s)" using run_sweep(2) by (auto simp: deleteStaleAvatarUploadAttempts_def Let_def persist_def split: fault.splits)
    from all_users_same [OF this] show ?case using run_sweep(3) by (simp add: advance_def)
  qed (simp_all add: advance_def all_users_def)
  then show ?thesis using assms(2) by (simp add: all_users_def)
qed

subsection \<open>Whose password an activated account has\<close>

lemma find_appended: "find P xs = None \<Longrightarrow> P x \<Longrightarrow> find P (xs @ [x]) = Some x"
  by (induction xs) (auto split: if_splits)

lemma find_updated: "find P us = Some u \<Longrightarrow> Q u \<Longrightarrow> (\<And>v. P (f v) = P v) \<Longrightarrow> find P (update_where Q f us) = Some (f u)"
  by (induction us) (auto simp: update_where_def split: if_splits)

lemma register_handler_created:
  assumes "registerHandler sv ae (Some (email, password)) db = (db', mails, resp)" "http_status resp = 201"
  obtains h code where "hashPassword (sv_lib sv) (crand_read (ae_env ae) 0) password = Inr h" "generateCode (ae_draw ae) = Some code"
    "registerUserAndIssueCode (ae_env ae) db email h (hashCode (sv_lib sv) code) = (db', Inr False)"
  using assms
  by (auto simp: registerHandler_def json_error_def json_ok_def split: if_splits sum.splits option.splits prod.splits bool.splits)

text \<open>What a registration leaves behind: the row of the address has the password just given, and only the new code can be used.\<close>

lemma issued_unused: "filter (unused_code i p) (issued e i p h cs) = [new_code e i p h]"
proof -
  have "filter (unused_code i p) (update_where (unused_code i p) (mark_used e) cs) = []"
    by (induction cs) (auto simp: update_where_def mark_used_def unused_code_def)
  then show ?thesis by (simp add: issued_def unused_code_def new_code_def)
qed

lemma registered_password:
  assumes "registerUserAndIssueCode e db email h c = (db', Inr False)"
  shows "\<exists>v. find (\<lambda>u. us_email u = email) (users db') = Some v \<and> us_password_hash v = h \<and> us_status v = ''pending_verification'' \<and>
    filter (unused_code (us_id v) ''email_verify'') (verification_codes db') = [new_code e (us_id v) ''email_verify'' c]"
proof -
  have ne: "\<not> fails e 0" "\<not> fails e 5" using assms(1)
    by (auto simp: registerUserAndIssueCode_def persist_def fails_def split: if_splits sum.splits option.splits fault.splits)
  obtain f where f: "user_by_email e 1 db email = Inr f" using assms(1) ne
    by (cases "user_by_email e 1 db email") (auto simp: registerUserAndIssueCode_def)
  show ?thesis
  proof (cases f)
    case None
    then have none: "find (\<lambda>u. us_email u = email) (users db) = None" using f by (auto simp: user_by_email_def split: if_splits)
    obtain db1 where d: "invalidateAndIssueCode e (db\<lparr>users := users db @ [new_user e email h]\<rparr>) (gen_random_uuid e 0) ''email_verify'' c = Inr db1" "db' = db1"
      using assms(1) f None ne by (auto simp: registerUserAndIssueCode_def persist_NoFault split: if_splits sum.splits)
    have us: "users db' = users db @ [new_user e email h]"
      and vc: "verification_codes db' = issued e (gen_random_uuid e 0) ''email_verify'' c (verification_codes db)"
      using invalidateAndIssueCode_Inr(1) [OF d(1)] d(2) by simp_all
    show ?thesis unfolding us vc using find_appended [OF none, of "new_user e email h"] by (simp add: new_user_def issued_unused)
  next
    case (Some u)
    then have u: "find (\<lambda>u. us_email u = email) (users db) = Some u" using f by (auto simp: user_by_email_def split: if_splits)
    obtain db1 where d: "invalidateAndIssueCode e (db\<lparr>users := update_where (\<lambda>v. us_id v = us_id u) (set_password e h) (users db)\<rparr>) (us_id u) ''email_verify'' c = Inr db1"
      "db' = db1" "us_status u = ''pending_verification''"
      using assms(1) f Some ne by (auto simp: registerUserAndIssueCode_def persist_NoFault split: if_splits sum.splits)
    have us: "users db' = update_where (\<lambda>v. us_id v = us_id u) (set_password e h) (users db)"
      and vc: "verification_codes db' = issued e (us_id u) ''email_verify'' c (verification_codes db)"
      using invalidateAndIssueCode_Inr(1) [OF d(1)] d(2) by simp_all
    have "find (\<lambda>u. us_email u = email) (update_where (\<lambda>v. us_id v = us_id u) (set_password e h) (users db)) = Some (set_password e h u)"
      by (rule find_updated [OF u]) (simp_all add: set_password_def)
    then show ?thesis unfolding us vc using d(3) by (simp add: set_password_def issued_unused)
  qed
qed

lemma verified_user:
  assumes "verifyEmailHandler sv e (Some (email, code)) db = (db', json_ok 200 (AuthStatus ''active''))"
    "find (\<lambda>u. us_email u = email) (users db) = Some v" "filter (unused_code (us_id v) ''email_verify'') (verification_codes db) = [c]"
  shows "find (\<lambda>u. us_email u = email) (users db') = Some (activate e v) \<and> hashCode (sv_lib sv) code = vc_code_hash c"
proof -
  let ?lib = "sv_lib sv"
  obtain i n where r: "verifyEmailCode ?lib e db email code = (db', Inr (verifyOK, i, n))"
    using assms(1) by (auto simp: verifyEmailHandler_def json_error_def json_ok_def split: prod.splits sum.splits verifyOutcome.splits)
  have u: "user_by_email e 1 db email = Inr (Some v)" "\<not> fails e 0" using r assms(2)
    by (auto simp: verifyEmailCode_def user_by_email_def split: if_splits)
  have new: "newest_code db (us_id v) ''email_verify'' = Some c" by (simp add: newest_code_def assms(3) sort_desc_def)
  obtain db1 out m where k: "consumeVerificationCode ?lib e db (us_id v) ''email_verify'' code = Inr (db1, out, m)"
    using r u by (cases "consumeVerificationCode ?lib e db (us_id v) ''email_verify'' code") (auto simp: verifyEmailCode_def)
  have out: "out = verifyOK"
    using r u k by (cases "out = verifyOK") (auto simp: verifyEmailCode_def persist_def split: fault.splits)
  have code: "hashCode ?lib code = vc_code_hash c" using k new unfolding out by (auto simp: consumeVerificationCode_def split: if_splits)
  obtain ob where "db' = db1\<lparr>users := update_where (\<lambda>w. us_id w = us_id v) (activate e) (users db1), auth_outbox := ob\<rparr>"
    using r u k unfolding out by (auto simp: verifyEmailCode_def persist_def split: if_splits option.splits fault.splits)
  then have "users db' = update_where (\<lambda>w. us_id w = us_id v) (activate e) (users db)" using consume_users [OF k] by simp
  then show ?thesis using find_updated [OF assms(2), of "\<lambda>w. us_id w = us_id v" "activate e"] code by (simp add: activate_def)
qed

text \<open>
  C38: The last registration decides. When an address that is not yet verified is registered again, by whoever knows it,
  the new password replaces the one of the first registration; the code that the address then receives activates the
  account with the new password, and the first person is not told. (Only the second code works.)
\<close>

theorem last_registration_wins:
  assumes "registerHandler sv ae1 (Some (email, password1)) db0 = (db1, mails1, resp1)" "http_status resp1 = 201"
    "registerHandler sv ae2 (Some (email, password2)) db1 = (db2, mails2, resp2)" "http_status resp2 = 201"
    "verifyEmailHandler sv e (Some (email, code)) db2 = (db3, json_ok 200 (AuthStatus ''active''))"
  shows "\<exists>v1 v3 code2. find (\<lambda>u. us_email u = email) (users db1) = Some v1 \<and>
    hashPassword (sv_lib sv) (crand_read (ae_env ae1) 0) password1 = Inr (us_password_hash v1) \<and>
    find (\<lambda>u. us_email u = email) (users db3) = Some v3 \<and> us_status v3 = ''active'' \<and>
    hashPassword (sv_lib sv) (crand_read (ae_env ae2) 0) password2 = Inr (us_password_hash v3) \<and>
    generateCode (ae_draw ae2) = Some code2 \<and> hashCode (sv_lib sv) code = hashCode (sv_lib sv) code2"
proof -
  obtain h1 c1 where 1: "hashPassword (sv_lib sv) (crand_read (ae_env ae1) 0) password1 = Inr h1"
    "registerUserAndIssueCode (ae_env ae1) db0 email h1 (hashCode (sv_lib sv) c1) = (db1, Inr False)"
    using register_handler_created [OF assms(1,2)] by blast
  obtain h2 c2 where 2: "hashPassword (sv_lib sv) (crand_read (ae_env ae2) 0) password2 = Inr h2" "generateCode (ae_draw ae2) = Some c2"
    "registerUserAndIssueCode (ae_env ae2) db1 email h2 (hashCode (sv_lib sv) c2) = (db2, Inr False)"
    using register_handler_created [OF assms(3,4)] by blast
  obtain v1 where v1: "find (\<lambda>u. us_email u = email) (users db1) = Some v1" "us_password_hash v1 = h1"
    using registered_password [OF 1(2)] by blast
  obtain v2 where v2: "find (\<lambda>u. us_email u = email) (users db2) = Some v2" "us_password_hash v2 = h2"
    "filter (unused_code (us_id v2) ''email_verify'') (verification_codes db2) = [new_code (ae_env ae2) (us_id v2) ''email_verify'' (hashCode (sv_lib sv) c2)]"
    using registered_password [OF 2(3)] by blast
  note v3 = verified_user [OF assms(5) v2(1,3)]
  have "us_status (activate e v2) = ''active''" "us_password_hash (activate e v2) = h2" using v2(2) by (simp_all add: activate_def)
  moreover have "hashCode (sv_lib sv) code = hashCode (sv_lib sv) c2" using v3 by (simp add: new_code_def)
  ultimately show ?thesis using 1(1) 2(1,2) v1 v3 by blast
qed

subsection \<open>Examples\<close>

text \<open>A user who gives a name with a blank in front of it.\<close>

definition no_storage :: avatarStorage where
  "no_storage = \<lparr>st_PresignedPostPolicy = (\<lambda>_. None), st_PresignedGetObject = (\<lambda>_. None)\<rparr>"

lemma runes_ascii: "of_char c < (128 :: nat) \<Longrightarrow> runes (c # s) = (of_char c, [c]) # runes s"
  by (simp add: runes_Cons DecodeRune_def)

lemma sample_name: "TrimSpace '' Ann'' = ''Ann''" "validateDisplayName ''Ann'' = None"
  by (simp_all add: TrimSpace_def validateDisplayName_def runes_ascii IsSpace_def IsControl_def maxDisplayNameLength_def bidiControlChars_def)

definition sample_profile_trace :: auth_trace where
  "sample_profile_trace = advance (fst sample_registered) [] \<lparr>at_db = migrated_auth, at_events = [], at_told = []\<rparr>"

definition sample_named :: auth_db where
  "sample_named = fst (updateProfileHandler plain_runtime no_storage (auth_sample_env 4 ''4'') (fst sample_registered) ''u1'' (Some '' Ann''))"

lemma sample_named: "map us_display_name (users sample_named) = [Some ''Ann'']"
  by (simp add: sample_named_def updateProfileHandler_def sample_name updateProfile_def sample_registered GenerateEventID_def InsertEvent_def migrated_auth_def
      empty_outbox_def persist_NoFault update_where_def Let_def set_display_name_def)

lemma sample_named_run: "auth_run sample_auth_svc (advance sample_named [] sample_profile_trace)"
proof -
  let ?s0 = "\<lparr>at_db = migrated_auth, at_events = [], at_told = []\<rparr>"
  have "registerHandler sample_auth_svc (auth_sample_ae 1 ''1'' 123456) (Some (''a@b'', ''password'')) (at_db ?s0) =
      (fst sample_registered, fst (snd sample_registered), snd (snd sample_registered))" by (simp add: sample_registered_def)
  from auth_run.run_register [OF auth_run.run_start this] have 1: "auth_run sample_auth_svc sample_profile_trace" unfolding sample_profile_trace_def .
  have "updateProfileHandler (lb_runtime (sv_lib sample_auth_svc)) no_storage (auth_sample_env 4 ''4'') (at_db sample_profile_trace) ''u1'' (Some '' Ann'') =
      (sample_named, snd (updateProfileHandler plain_runtime no_storage (auth_sample_env 4 ''4'') (fst sample_registered) ''u1'' (Some '' Ann'')))"
    by (simp add: sample_named_def sample_profile_trace_def advance_def sample_auth_svc_def)
  from auth_run.run_profile [OF 1 this] show ?thesis .
qed

theorem display_names_wellformed_witness: "\<exists>u\<in>set (users sample_named). us_display_name u = Some ''Ann'' \<and> stored_name_ok (Some ''Ann'')"
proof -
  obtain u where u: "u \<in> set (users sample_named)" "us_display_name u = Some ''Ann''" using sample_named by (cases "users sample_named") auto
  then show ?thesis using display_names_wellformed [OF sample_named_run, of u] by (intro bexI [of _ u]) (simp_all add: advance_def)
qed

text \<open>Someone else registers the address of the first example before it is verified.\<close>

definition second_hash :: string where
  "second_hash = projr (hashPassword sample_auth_lib (Some (replicate 16 0)) ''attacker'')"

lemma second_hash: "hashPassword sample_auth_lib (Some (replicate 16 0)) ''attacker'' = Inr second_hash"
  by (simp add: second_hash_def hashPassword_def Let_def)

definition second_registration :: "auth_db \<times> mail list \<times> auth_body http_response" where
  "second_registration = registerHandler sample_auth_svc (auth_sample_ae 2 ''2'' 123456) (Some (''a@b'', ''attacker'')) (fst sample_registered)"

lemma sample_status: "http_status (snd (snd sample_registered)) = 201"
  using sample_hash
  by (simp add: sample_registered_def registerHandler_def auth_sample_ae_def sample_auth_svc_def registerUserAndIssueCode_def user_by_email_def pg_text_def
      migrated_auth_def invalidateAndIssueCode_def update_where_def persist_NoFault sendVerificationEmail_def SendMail_def json_ok_def
      code_mail_def valid_line_def new_user_def split: prod.splits)

definition second_user :: user where
  "second_user = set_password (auth_sample_env 2 ''2'') second_hash sample_user"

definition second_vc :: verification_code where
  "second_vc = new_code (auth_sample_env 2 ''2'') ''u1'' ''email_verify'' ''01''"

lemma second_sel [simp]: "us_id second_user = ''u1''" "us_email second_user = ''a@b''" "vc_id second_vc = ''c2''" "vc_user_id second_vc = ''u1''"
  "vc_purpose second_vc = ''email_verify''" "vc_code_hash second_vc = ''01''" "vc_used_at second_vc = None" "vc_attempts_remaining second_vc = 5" "vc_expires_at second_vc = 600000002"
  by (simp_all add: second_user_def set_password_def second_vc_def new_code_def)

lemma second_registration:
  "fst second_registration = migrated_auth\<lparr>users := [second_user], verification_codes := [mark_used (auth_sample_env 2 ''2'') sample_vc, second_vc]\<rparr>"
  "http_status (snd (snd second_registration)) = 201"
  using second_hash
  by (simp_all add: second_registration_def sample_registered registerHandler_def auth_sample_ae_def sample_auth_svc_def registerUserAndIssueCode_def user_by_email_def
      pg_text_def migrated_auth_def invalidateAndIssueCode_def update_where_def unused_code_def persist_NoFault second_user_def second_vc_def sendVerificationEmail_def
      SendMail_def json_ok_def code_mail_def valid_line_def split: prod.splits)

definition second_verified :: auth_db where
  "second_verified = fst (verifyEmailHandler sample_auth_svc (auth_sample_env 3 ''3'') (Some (''a@b'', ''123456'')) (fst second_registration))"

lemma second_verified: "verifyEmailHandler sample_auth_svc (auth_sample_env 3 ''3'') (Some (''a@b'', ''123456'')) (fst second_registration) =
    (second_verified, json_ok 200 (AuthStatus ''active''))"
  using sample_event_id
  by (simp add: second_verified_def second_registration sample_auth_svc_def verifyEmailHandler_def verifyEmailCode_def user_by_email_def pg_text_def consumeVerificationCode_def
      newest_code_def sort_desc_def unused_code_def mark_used_def migrated_auth_def change_code_def update_where_def persist_NoFault InsertEvent_def empty_outbox_def)

theorem last_registration_wins_witness:
  "\<exists>v. find (\<lambda>u. us_email u = ''a@b'') (users second_verified) = Some v \<and> us_status v = ''active'' \<and> us_password_hash v = second_hash"
proof -
  have 1: "registerHandler sample_auth_svc (auth_sample_ae 1 ''1'' 123456) (Some (''a@b'', ''password'')) migrated_auth =
      (fst sample_registered, fst (snd sample_registered), snd (snd sample_registered))" by (simp add: sample_registered_def)
  have 2: "registerHandler sample_auth_svc (auth_sample_ae 2 ''2'' 123456) (Some (''a@b'', ''attacker'')) (fst sample_registered) =
      (fst second_registration, fst (snd second_registration), snd (snd second_registration))" by (simp add: second_registration_def)
  obtain v where "find (\<lambda>u. us_email u = ''a@b'') (users second_verified) = Some v" "us_status v = ''active''"
    "hashPassword sample_auth_lib (Some (replicate 16 0)) ''attacker'' = Inr (us_password_hash v)"
    using last_registration_wins [OF 1 sample_status 2 second_registration(2) second_verified]
    by (auto simp: sample_auth_svc_def auth_sample_ae_def)
  then show ?thesis using second_hash by auto
qed

subsection \<open>Avatars\<close>

text \<open>What \<open>avatarKeyOwnedBy\<close> accepts: three parts, the second being the user.\<close>

lemma split_at_join: "concat (map (\<lambda>w. sep # w) (split_at sep s)) = sep # s"
  by (induction s) (auto split: list.splits)

lemma split_at_parts: "w \<in> set (split_at sep s) \<Longrightarrow> sep \<notin> set w"
  by (induction s arbitrary: w) (auto split: list.splits if_splits)

lemma owned_key:
  assumes "avatarKeyOwnedBy key userID"
  obtains x where "key = ''avatars/'' @ userID @ CHR ''/'' # x" "CHR ''/'' \<notin> set userID" "CHR ''/'' \<notin> set x"
proof -
  let ?parts = "split_at CHR ''/'' key"
  have p: "length ?parts = 3" "?parts ! 0 = ''avatars''" "?parts ! 1 = userID" using assms by (auto simp: avatarKeyOwnedBy_def Let_def)
  then obtain x where x: "?parts = [''avatars'', userID, x]" by (auto simp: numeral_3_eq_3 length_Suc_conv)
  have "CHR ''/'' # key = ''/avatars/'' @ userID @ CHR ''/'' # x" using split_at_join [of "CHR ''/''" key] unfolding x by simp
  moreover have "CHR ''/'' \<notin> set userID" "CHR ''/'' \<notin> set x" using split_at_parts [of _ "CHR ''/''" key] unfolding x by auto
  ultimately show thesis using that by simp
qed

lemma count_list_zero [simp]: "c \<notin> set s \<Longrightarrow> count_list s c = 0"
  by (simp add: count_list_0_iff)

lemma owned_slashes: "avatarKeyOwnedBy key userID \<Longrightarrow> count_list key CHR ''/'' = 2"
  by (erule owned_key) simp

lemma thumbnail_names: "avatarThumbnailKey key avatarThumbnailSize = key @ ''/64''" "avatarThumbnailKey key avatarStandardSize = key @ ''/256''"
proof -
  have "show_int (int 64) = ''64''" "show_int (int 256) = ''256''" by code_simp+
  then show "avatarThumbnailKey key avatarThumbnailSize = key @ ''/64''" "avatarThumbnailKey key avatarStandardSize = key @ ''/256''"
    by (simp_all only: avatarThumbnailKey_def avatarThumbnailSize_def avatarStandardSize_def append.simps)
qed

text \<open>A user's avatar is shown from two objects.\<close>

definition stored :: "bucket \<Rightarrow> string set" where
  "stored b = so_Key ` set b"

definition avatar_stored :: "bucket \<Rightarrow> user \<Rightarrow> bool" where
  "avatar_stored b u \<longleftrightarrow>
     (case us_avatar_key u of
        None \<Rightarrow> True
      | Some key \<Rightarrow> avatarKeyOwnedBy key (us_id u) \<and> avatarThumbnailKey key avatarThumbnailSize \<in> stored b \<and> avatarThumbnailKey key avatarStandardSize \<in> stored b)"

interpretation avatars: user_law "avatar_stored b" for b
  by unfold_locales (auto simp: avatar_stored_def new_user_def set_password_def activate_def set_display_name_def split: option.splits)

lemma stored_remove: "stored (remove_object k b) = stored b - {k}"
  by (auto simp: stored_def remove_object_def)

lemma stored_removeObject: "removeObject e i k b = (b', r) \<Longrightarrow> stored b - {k} \<subseteq> stored b' \<and> stored b' \<subseteq> stored b"
  using stored_remove [of k b] by (auto simp: removeObject_def persist_def split: fault.splits)

lemma stored_fst_remove: "stored b - {k} \<subseteq> stored (fst (removeObject e i k b))"
  using stored_remove [of k b] by (auto simp: removeObject_def persist_def split: fault.splits)

lemma stored_putObject: "putObject e i k data b = (b', r) \<Longrightarrow> stored b \<subseteq> stored b' \<and> (r = Inr () \<longrightarrow> k \<in> stored b') \<and> stored b' \<subseteq> insert k (stored b)"
  by (auto simp: putObject_def persist_def stored_def remove_object_def split: fault.splits)

text \<open>The sweep removes keys with two slashes only.\<close>

lemma cleanup_loop_keeps: "cleanup_loop e stop i cutoff objs b n = (b', r) \<Longrightarrow> k \<in> stored b \<Longrightarrow> count_list k CHR ''/'' \<noteq> 2 \<Longrightarrow> k \<in> stored b'"
proof (induction objs arbitrary: i b n)
  case (Cons obj objs)
  show ?case
  proof (cases "stop = Some i \<or> count_list (so_Key obj) CHR ''/'' \<noteq> 2 \<or> so_LastModified obj > cutoff")
    case True
    then show ?thesis using Cons by (auto split: if_splits)
  next
    case False
    obtain b1 r1 where d: "removeObject e i (so_Key obj) b = (b1, r1)" by fastforce
    have "k \<in> stored b1" using stored_removeObject [OF d] Cons.prems(2,3) False by auto
    moreover obtain n1 where "cleanup_loop e stop (Suc i) cutoff objs b1 n1 = (b', r)" using Cons.prems(1) False d by (cases r1) auto
    ultimately show ?thesis using Cons.IH Cons.prems(3) by blast
  qed
qed (auto split: if_splits)

lemma thumbnails_apart:
  assumes "avatarKeyOwnedBy key u"
  shows "avatarThumbnailKey key avatarThumbnailSize \<noteq> raw \<or> \<not> avatarKeyOwnedBy raw v" "avatarThumbnailKey key avatarStandardSize \<noteq> raw \<or> \<not> avatarKeyOwnedBy raw v"
    "avatarThumbnailKey key avatarThumbnailSize = avatarThumbnailKey k avatarThumbnailSize \<longleftrightarrow> key = k"
    "avatarThumbnailKey key avatarStandardSize = avatarThumbnailKey k avatarStandardSize \<longleftrightarrow> key = k"
    "avatarThumbnailKey key avatarThumbnailSize \<noteq> avatarThumbnailKey k avatarStandardSize"
    "avatarThumbnailKey key avatarStandardSize \<noteq> avatarThumbnailKey k avatarThumbnailSize"
proof -
  have "count_list (key @ ''/64'') CHR ''/'' = 3" "count_list (key @ ''/256'') CHR ''/'' = 3" using owned_slashes [OF assms] by simp_all
  then show "avatarThumbnailKey key avatarThumbnailSize \<noteq> raw \<or> \<not> avatarKeyOwnedBy raw v" "avatarThumbnailKey key avatarStandardSize \<noteq> raw \<or> \<not> avatarKeyOwnedBy raw v"
    using owned_slashes [of raw v] unfolding thumbnail_names by auto
  have "last (key @ ''/64'') \<noteq> last (k @ ''/256'')" "last (key @ ''/256'') \<noteq> last (k @ ''/64'')" by simp_all
  then show "avatarThumbnailKey key avatarThumbnailSize \<noteq> avatarThumbnailKey k avatarStandardSize"
    "avatarThumbnailKey key avatarStandardSize \<noteq> avatarThumbnailKey k avatarThumbnailSize" unfolding thumbnail_names by metis+
qed (simp_all add: thumbnail_names)

lemma avatar_stored_mono: "avatar_stored b u \<Longrightarrow> stored b \<subseteq> stored b' \<Longrightarrow> avatar_stored b' u"
  by (auto simp: avatar_stored_def split: option.splits)

lemma all_avatars_mono: "all_users (avatar_stored b) db \<Longrightarrow> stored b \<subseteq> stored b' \<Longrightarrow> all_users (avatar_stored b') db"
  using avatar_stored_mono by (auto simp: all_users_def)

lemma avatar_stored_without_raw:
  assumes "avatar_stored b u" "stored b - {raw} \<subseteq> stored b'" "avatarKeyOwnedBy raw v"
  shows "avatar_stored b' u"
proof (cases "us_avatar_key u")
  case (Some key)
  then have k: "avatarKeyOwnedBy key (us_id u)" using assms(1) by (simp add: avatar_stored_def)
  show ?thesis using assms Some thumbnails_apart(1,2) [OF k, of raw v] by (auto simp: avatar_stored_def)
qed (simp add: avatar_stored_def)

lemma swap_answer:
  assumes "swapAvatarKey rt e db userID key = (db', Inr (Some oldKey))" "uuid_in rt userID = Some userID"
  obtains u where "u \<in> set (users db)" "us_id u = userID" "us_avatar_key u = oldKey"
    "users db' = update_where (\<lambda>v. us_id v = userID) (set_avatar e key) (users db)"
  using assms by (auto simp: swapAvatarKey_def persist_def split: if_splits option.splits fault.splits dest: find_Some_in)

lemma finish_avatars:
  assumes all: "all_users (avatar_stored b) db" and key: "avatarKeyOwnedBy key userID" and id: "uuid_in rt userID = Some userID"
    and thumbs: "avatarThumbnailKey key avatarThumbnailSize \<in> stored b" "avatarThumbnailKey key avatarStandardSize \<in> stored b"
    and f: "finish_confirm rt st e db b userID key = (db', b', resp)"
  shows "all_users (avatar_stored b') db'"
proof -
  let ?b1 = "fst (removeObject e 24 key b)"
  have sub: "stored b - {key} \<subseteq> stored ?b1" by (rule stored_fst_remove)
  have all1: "all_users (avatar_stored ?b1) db" using all avatar_stored_without_raw [OF _ sub key] by (simp add: all_users_def)
  have thumbs1: "avatarThumbnailKey key avatarThumbnailSize \<in> stored ?b1" "avatarThumbnailKey key avatarStandardSize \<in> stored ?b1"
    using thumbs sub thumbnails_apart(1,2) [OF key, of key userID] key by auto
  obtain r where s: "swapAvatarKey rt e db userID key = (db', r)" using f by (cases "swapAvatarKey rt e db userID key") (auto simp: finish_confirm_def Let_def split: sum.splits option.splits)
  have law: "all_users (avatar_stored ?b1) db'"
    by (rule avatars.law_swap [OF all1 s]) (use key id thumbs1 in \<open>simp add: avatar_stored_def set_avatar_def\<close>)
  show ?thesis
  proof (cases "\<exists>old. r = Inr (Some (Some old)) \<and> old \<noteq> key")
    case False
    then have "b' = ?b1" using f s by (auto simp: finish_confirm_def Let_def split: sum.splits option.splits if_splits)
    then show ?thesis using law by simp
  next
    case True
    then obtain old where old: "r = Inr (Some (Some old))" "old \<noteq> key" by blast
    obtain u where u: "u \<in> set (users db)" "us_id u = userID" "us_avatar_key u = Some old"
      and us: "users db' = update_where (\<lambda>v. us_id v = userID) (set_avatar e key) (users db)"
      using swap_answer [OF s [unfolded old(1)] id] by blast
    have own: "avatarKeyOwnedBy old userID" using u all by (auto simp: all_users_def avatar_stored_def)
    let ?b2 = "fst (removeObject e 25 (avatarThumbnailKey old avatarThumbnailSize) ?b1)"
    have b': "b' = fst (removeObject e 26 (avatarThumbnailKey old avatarStandardSize) ?b2)"
      using f s old by (auto simp: finish_confirm_def Let_def split: sum.splits option.splits)
    have sub': "stored ?b1 - {avatarThumbnailKey old avatarThumbnailSize, avatarThumbnailKey old avatarStandardSize} \<subseteq> stored b'"
      using stored_fst_remove [of ?b1 "avatarThumbnailKey old avatarThumbnailSize" e 25] stored_fst_remove [of ?b2 "avatarThumbnailKey old avatarStandardSize" e 26]
      unfolding b' by blast
    have "avatar_stored b' v" if v: "v \<in> set (users db')" for v
    proof (cases "us_avatar_key v")
      case (Some k)
      have k: "avatarKeyOwnedBy k (us_id v)" "avatarThumbnailKey k avatarThumbnailSize \<in> stored ?b1" "avatarThumbnailKey k avatarStandardSize \<in> stored ?b1"
        using law v Some by (auto simp: all_users_def avatar_stored_def)
      have "k \<noteq> old"
      proof (cases "us_id v = userID")
        case True
        obtain w where w: "v = (if us_id w = userID then set_avatar e key w else w)" using v unfolding us in_set_update_where by blast
        have "us_id w = userID" using True w by (cases "us_id w = userID") (simp_all add: set_avatar_def)
        then have "k = key" using w Some by (simp add: set_avatar_def)
        then show ?thesis using old(2) by simp
      next
        case False
        then show ?thesis using k(1) own by (auto simp: avatarKeyOwnedBy_def Let_def)
      qed
      then have "avatarThumbnailKey k avatarThumbnailSize \<in> stored b'" "avatarThumbnailKey k avatarStandardSize \<in> stored b'"
        using k(2,3) sub' thumbnails_apart(3-6) [OF k(1), of old] by auto
      then show ?thesis using Some k(1) by (simp add: avatar_stored_def)
    qed (simp add: avatar_stored_def)
    then show ?thesis by (simp add: all_users_def)
  qed
qed

lemma confirm_avatars:
  assumes all: "all_users (avatar_stored b) db" and id: "uuid_in rt userID = Some userID"
    and c: "confirmAvatarHandler rt st im e db b userID req = (db', b', resp)"
  shows "all_users (avatar_stored b') db'"
proof (cases "\<exists>key len data img t64 t256. userID \<noteq> [] \<and> req = Some key \<and> avatarKeyOwnedBy key userID \<and> statObject e 20 key b = Some len \<and> \<not> len > maxAvatarUploadBytes \<and>
    getObject e 21 key b = Some data \<and> decodeAvatarImage im data = Inr img \<and>
    im_EncodeJPEG im (cropAndResize im img avatarThumbnailSize) avatarJPEGQuality = Some t64 \<and>
    im_EncodeJPEG im (cropAndResize im img avatarStandardSize) avatarJPEGQuality = Some t256")
  case False
  then have "db' = db \<and> b' = b" using c
    by (auto simp: confirmAvatarHandler_def split: option.splits if_splits sum.splits)
  then show ?thesis using all by simp
next
  case True
  then obtain key len data img t64 t256 where g: "userID \<noteq> []" "req = Some key" "avatarKeyOwnedBy key userID" "statObject e 20 key b = Some len"
    "\<not> len > maxAvatarUploadBytes" "getObject e 21 key b = Some data" "decodeAvatarImage im data = Inr img"
    "im_EncodeJPEG im (cropAndResize im img avatarThumbnailSize) avatarJPEGQuality = Some t64"
    "im_EncodeJPEG im (cropAndResize im img avatarStandardSize) avatarJPEGQuality = Some t256" by blast
  obtain b1 r1 where p1: "putObject e 22 (avatarThumbnailKey key avatarThumbnailSize) t64 b = (b1, r1)" by fastforce
  obtain b2 r2 where p2: "putObject e 23 (avatarThumbnailKey key avatarStandardSize) t256 b1 = (b2, r2)" by fastforce
  note s1 = stored_putObject [OF p1] note s2 = stored_putObject [OF p2]
  show ?thesis
  proof (cases r1)
    case (Inl a)
    then have "db' = db" "b' = b1" using c g p1 by (auto simp: confirmAvatarHandler_def)
    then show ?thesis using all_avatars_mono [OF all] s1 by simp
  next
    case r1: (Inr a)
    show ?thesis
    proof (cases r2)
      case (Inl a)
      then have "db' = db" "b' = b2" using c g p1 r1 p2 by (auto simp: confirmAvatarHandler_def)
      then show ?thesis using all_avatars_mono [OF all] s1 s2 by blast
    next
      case (Inr a')
      then have "finish_confirm rt st e db b2 userID key = (db', b', resp)" using c g p1 r1 p2 by (auto simp: confirmAvatarHandler_def)
      moreover have "all_users (avatar_stored b2) db" using all_avatars_mono [OF all] s1 s2 by blast
      moreover have "avatarThumbnailKey key avatarThumbnailSize \<in> stored b2" "avatarThumbnailKey key avatarStandardSize \<in> stored b2"
        using s1 s2 r1 Inr by auto
      ultimately show ?thesis using finish_avatars [OF _ g(3) id] by blast
    qed
  qed
qed

lemma cleanup_avatars:
  assumes "all_users (avatar_stored b) db" "cleanupStalePendingAvatars e stop retention b = (b', r)"
  shows "all_users (avatar_stored b') db"
proof -
  have kept: "k \<in> stored b'" if "k \<in> stored b" "count_list k CHR ''/'' \<noteq> 2" for k
    using assms(2) cleanup_loop_keeps that unfolding cleanupStalePendingAvatars_def by blast
  have "avatar_stored b' u" if u: "u \<in> set (users db)" for u
  proof (cases "us_avatar_key u")
    case (Some key)
    have k: "avatarKeyOwnedBy key (us_id u)" "key @ ''/64'' \<in> stored b" "key @ ''/256'' \<in> stored b"
      using assms(1) u Some by (auto simp: all_users_def avatar_stored_def thumbnail_names)
    then show ?thesis using kept [of "key @ ''/64''"] kept [of "key @ ''/256''"] owned_slashes [OF k(1)] Some
      by (simp add: avatar_stored_def thumbnail_names)
  qed (simp add: avatar_stored_def)
  then show ?thesis by (simp add: all_users_def)
qed

text \<open>
  The service with its bucket: the requests on users and codes, as in \<open>auth_run\<close>; confirmations, of the user the gateway
  names; what a client uploads under a policy, which is one raw object; and the sweep.
\<close>

inductive avatar_run :: "auth_svc \<Rightarrow> 'i image_lib \<Rightarrow> auth_db \<Rightarrow> bucket \<Rightarrow> bool" for sv :: auth_svc and im :: "'i image_lib" where
  avatars_start: "avatar_run sv im migrated_auth []"
| avatars_register: "avatar_run sv im db' b" if "avatar_run sv im db b" "registerHandler sv ae req db = (db', mails, resp)"
| avatars_verify: "avatar_run sv im db' b" if "avatar_run sv im db b" "verifyEmailHandler sv e (Some (email, code)) db = (db', resp)"
| avatars_resend: "avatar_run sv im db' b" if "avatar_run sv im db b" "resendVerificationHandler sv ae email' db rd = (db', rd', mails, resp)"
| avatars_forgot: "avatar_run sv im db' b" if "avatar_run sv im db b" "forgotPasswordHandler sv ae email' db rd = (db', rd', mails, resp)"
| avatars_reset: "avatar_run sv im db' b" if "avatar_run sv im db b" "resetPasswordHandler sv e (Some (email, code, password)) db rd = (db', rd', resp)"
| avatars_profile: "avatar_run sv im db' b" if "avatar_run sv im db b" "updateProfileHandler (lb_runtime (sv_lib sv)) st e db userID name = (db', resp)"
| avatars_url: "avatar_run sv im db' b" if "avatar_run sv im db b" "uploadAvatarURLHandler (lb_runtime (sv_lib sv)) st lim window e db userID = (db', resp)"
| avatars_uploaded: "avatar_run sv im db (remove_object key b @ [\<lparr>so_Key = key, so_Data = data, so_LastModified = t\<rparr>])"
  if "avatar_run sv im db b" "avatarKeyOwnedBy key userID"
| avatars_confirm: "avatar_run sv im db' b'"
  if "avatar_run sv im db b" "uuid_in (lb_runtime (sv_lib sv)) userID = Some userID" "confirmAvatarHandler (lb_runtime (sv_lib sv)) st im e db b userID key' = (db', b', resp)"
| avatars_cleanup: "avatar_run sv im db b'" if "avatar_run sv im db b" "cleanupStalePendingAvatars e stop retention b = (b', n)"

text \<open>
  C18: The avatar that a profile names is always there. In every run, with confirmations that fail at any command, uploads
  and sweeps in between, each user's avatar key is a key of that user and both thumbnails the profile links to are in the
  bucket: replacing an avatar removes only the thumbnails of the old one, and the sweep removes only raw uploads.
\<close>

theorem avatars_stay_stored:
  assumes "avatar_run sv im db b" "u \<in> set (users db)" "us_avatar_key u = Some key"
  shows "avatarKeyOwnedBy key (us_id u) \<and> avatarThumbnailKey key avatarThumbnailSize \<in> stored b \<and> avatarThumbnailKey key avatarStandardSize \<in> stored b"
proof -
  have "all_users (avatar_stored b) db"
    using assms(1)
  proof (induction rule: avatar_run.induct)
    case avatars_start
    show ?case by (simp add: all_users_def migrated_auth_def)
  next
    case (avatars_register db b ae req db' mails resp)
    then show ?case using register_handler_db [OF avatars_register(2)] avatars.law_register by blast
  next
    case (avatars_verify db b e email code db' resp)
    then show ?case using verify_handler_tells [OF avatars_verify(2)] avatars.law_verify by blast
  next
    case (avatars_resend db b ae email' rd db' rd' mails resp)
    then show ?case using resend_handler_db [OF avatars_resend(2)] avatars.law_resend by blast
  next
    case (avatars_forgot db b ae email' rd db' rd' mails resp)
    then show ?case using forgot_handler_db [OF avatars_forgot(2)] avatars.law_forgot by blast
  next
    case (avatars_reset db b e email code password rd db' rd' resp)
    then show ?case using reset_handler_tells [OF avatars_reset(2)] avatars.law_reset by blast
  next
    case (avatars_profile db b st e userID name db' resp)
    then show ?case using avatars.law_profile_handler by blast
  next
    case (avatars_url db b st lim window e userID db' resp)
    from all_users_same [OF conjunct1 [OF upload_keeps [OF avatars_url(2)]]] show ?case using avatars_url(3) by blast
  next
    case (avatars_uploaded db b key userID data t)
    have "stored b \<subseteq> stored (remove_object key b @ [\<lparr>so_Key = key, so_Data = data, so_LastModified = t\<rparr>])"
      by (auto simp: stored_def remove_object_def)
    then show ?case using all_avatars_mono avatars_uploaded(3) by blast
  next
    case (avatars_confirm db b userID st e key' db' b' resp)
    then show ?case using confirm_avatars by blast
  next
    case (avatars_cleanup db b e stop retention b' n)
    then show ?case using cleanup_avatars by blast
  qed
  then show ?thesis using assms(2,3) by (auto simp: all_users_def avatar_stored_def)
qed

text \<open>An upload that is confirmed, with an image library that accepts everything.\<close>

definition sample_images :: "unit image_lib" where
  "sample_images = \<lparr>im_DecodeConfig = (\<lambda>_. Some (1, 1)), im_Decode = (\<lambda>_. Some ()), im_Bounds = (\<lambda>_. \<lparr>rc_MinX = 0, rc_MinY = 0, rc_MaxX = 1, rc_MaxY = 1\<rparr>),
     im_Scale = (\<lambda>i r n. ()), im_EncodeJPEG = (\<lambda>i q. Some ''jpeg'')\<rparr>"

definition sample_upload :: bucket where
  "sample_upload = [\<lparr>so_Key = ''avatars/u1/r'', so_Data = [CHR 0xFF, CHR 0xD8, CHR 0xFF], so_LastModified = 4\<rparr>]"

lemma sample_owned: "avatarKeyOwnedBy ''avatars/u1/r'' ''u1''"
  by code_simp

lemma sample_uploaded_run: "avatar_run sample_auth_svc sample_images (fst sample_registered) sample_upload"
proof -
  have "registerHandler sample_auth_svc (auth_sample_ae 1 ''1'' 123456) (Some (''a@b'', ''password'')) migrated_auth =
      (fst sample_registered, fst (snd sample_registered), snd (snd sample_registered))" by (simp add: sample_registered_def)
  from avatar_run.avatars_uploaded [where data = "[CHR 0xFF, CHR 0xD8, CHR 0xFF]" and t = 4,
      OF avatar_run.avatars_register [OF avatar_run.avatars_start [of _ sample_images] this] sample_owned]
  show ?thesis by (simp add: remove_object_def sample_upload_def)
qed

definition sample_confirmed :: "auth_db \<times> bucket \<times> auth_body http_response" where
  "sample_confirmed = confirmAvatarHandler plain_runtime no_storage sample_images (auth_sample_env 5 ''5'') (fst sample_registered) sample_upload ''u1'' (Some ''avatars/u1/r'')"

lemma sample_jpeg: "decodeAvatarImage sample_images [CHR 0xFF, CHR 0xD8, CHR 0xFF] = Inr ()"
  by (simp add: decodeAvatarImage_def sample_images_def maxAvatarUploadBytes_def DetectContentType_def allowedAvatarContentTypes_def wrap64_def maxAvatarPixels_def)

lemma sample_confirmed: "map us_avatar_key (users (fst sample_confirmed)) = [Some ''avatars/u1/r'']"
proof -
  have e: "im_EncodeJPEG sample_images i q = Some ''jpeg''" for i q by (simp add: sample_images_def)
  show ?thesis
    by (simp add: sample_confirmed_def confirmAvatarHandler_def sample_owned sample_upload_def statObject_def getObject_def find_object_def maxAvatarUploadBytes_def
        sample_jpeg e putObject_def persist_NoFault finish_confirm_def removeObject_def swapAvatarKey_def sample_registered migrated_auth_def update_where_def
        set_avatar_def sample_user_def new_user_def Let_def split: option.splits sum.splits)
qed

theorem avatars_stay_stored_witness:
  "\<exists>u\<in>set (users (fst sample_confirmed)). us_avatar_key u = Some ''avatars/u1/r'' \<and> ''avatars/u1/r/64'' \<in> stored (fst (snd sample_confirmed))"
proof -
  obtain u where u: "u \<in> set (users (fst sample_confirmed))" "us_avatar_key u = Some ''avatars/u1/r''"
    using sample_confirmed by (cases "users (fst sample_confirmed)") auto
  have id: "uuid_in (lb_runtime (sv_lib sample_auth_svc)) ''u1'' = Some ''u1''" by (simp add: sample_auth_svc_def)
  have "confirmAvatarHandler (lb_runtime (sv_lib sample_auth_svc)) no_storage sample_images (auth_sample_env 5 ''5'') (fst sample_registered) sample_upload ''u1'' (Some ''avatars/u1/r'') =
      (fst sample_confirmed, fst (snd sample_confirmed), snd (snd sample_confirmed))" by (simp add: sample_confirmed_def sample_auth_svc_def)
  from avatars_stay_stored [OF avatar_run.avatars_confirm [OF sample_uploaded_run id this] u] u show ?thesis by (auto simp: thumbnail_names)
qed

end
