(* ===== verification/Ledger_Tools.thy ===== *)
theory Ledger_Tools
  imports Reconcile
begin

text \<open>
  The tools that put money into a ledger from outside the service: services/ledger-svc/cmd/devtopup and cmd/seed, and
  \<open>fundAccounts\<close> of loadtest/cmd/lt/setup.go. They write tables of ledger-svc themselves where its API cannot, and
  call it where it can. The minting functions of devtopup and setup carry out the same statements and
  are one definition here; so is seed's \<open>ensureLedgerAccount\<close>. A tool that ends with \<open>log.Fatal\<close> returns \<open>Inl\<close>.

  The minting keeps the books and every account but the two of the system solvent; the seeding does not keep the cache.
\<close>

subsection \<open>Minting\<close>

definition externalWorldAccountID :: string where
  "externalWorldAccountID = ''00000000-0000-0000-0000-000000000000''"

definition systemAccountIDs :: "string list" where
  "systemAccountIDs = [genesisAccountID, externalWorldAccountID]"

definition genesisMintChunk :: int where
  "genesisMintChunk = 1000000000000"

text \<open>The upsert, at site \<open>i\<close> with the generated id \<open>g\<close>.\<close>

definition ensureLedgerAccountRow ::
  "runtime \<Rightarrow> env \<Rightarrow> nat \<Rightarrow> nat \<Rightarrow> ledger_db \<Rightarrow> string \<Rightarrow> ledger_db \<times> (ledger_error + string)" where
  "ensureLedgerAccountRow rt e i g db accountID =
     (case uuid_in rt accountID of
        None \<Rightarrow> (db, Inl ErrDB)
      | Some u \<Rightarrow>
          (case find_account db u of
             Some la \<Rightarrow> persist e i db db ErrDB (la_id la)
           | None \<Rightarrow>
               if gen_random_uuid e g \<in> la_id ` set (ledger_accounts db) then (db, Inl ErrDB)
               else persist e i db
                 (db\<lparr>ledger_accounts := ledger_accounts db @
                    [\<lparr>la_id = gen_random_uuid e g, la_account_id = u, la_created_at = now e\<rparr>]\<rparr>)
                 ErrDB (gen_random_uuid e g)))"

definition sumEntries :: "env \<Rightarrow> nat \<Rightarrow> ledger_db \<Rightarrow> string \<Rightarrow> ledger_error + int" where
  "sumEntries e i db lid =
     (if fails e i then Inl ErrDB
      else case bigint (sum_entries (entries db) lid) of None \<Rightarrow> Inl ErrDB | Some s \<Rightarrow> Inr s)"

definition recomputeCachedBalance :: "env \<Rightarrow> nat \<Rightarrow> string \<Rightarrow> ledger_db \<Rightarrow> ledger_db option" where
  "recomputeCachedBalance e i lid db =
     do {
       guard_ok e i;
       s \<leftarrow> bigint (sum_entries (entries db) lid);
       Some (db\<lparr>account_balances := (account_balances db)(lid \<mapsto> s)\<rparr>)
     }"

text \<open>The statements of the mint transaction, up to its commit.\<close>

definition mint_entries :: "env \<Rightarrow> int \<Rightarrow> string \<Rightarrow> string \<Rightarrow> ledger_db \<Rightarrow> ledger_db option" where
  "mint_entries e mint genesisLid externalLid db =
     do {
       guard_ok e 4;
       let txid = gen_random_uuid e 2;
       db1 \<leftarrow> insert_entry e 3 txid genesisLid mint None db;
       db2 \<leftarrow> insert_entry e 4 txid externalLid (- mint) None db1;
       db3 \<leftarrow> recomputeCachedBalance e 5 genesisLid db2;
       recomputeCachedBalance e 6 externalLid db3
     }"

definition ensureGenesisFunded :: "runtime \<Rightarrow> env \<Rightarrow> ledger_db \<Rightarrow> int \<Rightarrow> ledger_db \<times> (ledger_error + unit)" where
  "ensureGenesisFunded rt e db amount =
     (case ensureLedgerAccountRow rt e 0 0 db genesisAccountID of
        (db1, Inl err) \<Rightarrow> (db1, Inl err)
      | (db1, Inr genesisLid) \<Rightarrow>
          (case sumEntries e 1 db1 genesisLid of
             Inl err \<Rightarrow> (db1, Inl err)
           | Inr spendable \<Rightarrow>
               if amount \<le> spendable then (db1, Inr ())
               else (case ensureLedgerAccountRow rt e 2 1 db1 externalWorldAccountID of
                       (db2, Inl err) \<Rightarrow> (db2, Inl err)
                     | (db2, Inr externalLid) \<Rightarrow>
                         let missing = wrap64 (amount - spendable);
                             mint = (if missing < genesisMintChunk then genesisMintChunk else missing)
                         in if fails e 3 then (db2, Inl ErrDB)
                            else (case mint_entries e mint genesisLid externalLid db2 of
                                    None \<Rightarrow> (db2, Inl ErrDB)
                                  | Some db3 \<Rightarrow> persist e 7 db2 db3 ErrDB ()))))"

subsection \<open>devtopup\<close>

datatype tool_error = Refused | ByLedger grpc_status | ByDatabase ledger_error

definition devtopup ::
  "runtime \<Rightarrow> env \<Rightarrow> ledger_db ledger_client \<Rightarrow> string \<Rightarrow> int \<Rightarrow> ledger_db \<Rightarrow> ledger_db \<times> (tool_error + string \<times> int)" where
  "devtopup rt e lc accountID amount db =
     (if accountID = '''' then (db, Inl Refused)
      else if amount \<le> 0 then (db, Inl Refused)
      else if accountID = genesisAccountID \<or> accountID = externalWorldAccountID then (db, Inl Refused)
      else case lc_CreateLedgerAccount lc 0 genesisAccountID db of
        (db1, Inl status) \<Rightarrow> (db1, Inl (ByLedger status))
      | (db1, Inr _) \<Rightarrow>
          (case lc_CreateLedgerAccount lc 1 accountID db1 of
             (db2, Inl status) \<Rightarrow> (db2, Inl (ByLedger status))
           | (db2, Inr _) \<Rightarrow>
               (case ensureGenesisFunded rt e db2 amount of
                  (db3, Inl err) \<Rightarrow> (db3, Inl (ByDatabase err))
                | (db3, Inr _) \<Rightarrow>
                    (case lc_ExecuteTransfer lc 2 genesisAccountID accountID amount '''' db3 of
                       (db4, Inl status) \<Rightarrow> (db4, Inl (ByLedger status))
                     | (db4, Inr transactionID) \<Rightarrow>
                         (case lc_GetBalance lc 3 accountID db4 of
                            (db5, Inl status) \<Rightarrow> (db5, Inl (ByLedger status))
                          | (db5, Inr balance) \<Rightarrow> (db5, Inr (transactionID, balance)))))))"

subsection \<open>The load test's funding\<close>

fun shortfalls ::
  "ledger_db ledger_client \<Rightarrow> nat \<Rightarrow> string list \<Rightarrow> int \<Rightarrow> ledger_db \<Rightarrow> ledger_db \<times> (grpc_status + int list)" where
  "shortfalls lc i [] target db = (db, Inr [])"
| "shortfalls lc i (u # users) target db =
     (case lc_GetBalance lc i u db of
        (db', Inl status) \<Rightarrow> (db', Inl status)
      | (db', Inr bal) \<Rightarrow>
          (let missing = wrap64 (target - bal) in
           case shortfalls lc (Suc i) users target db' of
             (db2, Inl status) \<Rightarrow> (db2, Inl status)
           | (db2, Inr rest) \<Rightarrow> (db2, Inr ((if 0 < missing then missing else 0) # rest))))"

text \<open>Go's running sum, in the order of the users.\<close>

definition total_shortfall :: "int list \<Rightarrow> int" where
  "total_shortfall xs = fold (\<lambda>m acc. wrap64 (acc + m)) xs 0"

fun fund_loop ::
  "ledger_db ledger_client \<Rightarrow> nat \<Rightarrow> (string \<times> int) list \<Rightarrow> ledger_db \<Rightarrow> ledger_db \<times> (grpc_status + unit)" where
  "fund_loop lc i [] db = (db, Inr ())"
| "fund_loop lc i ((u, m) # rest) db =
     (if m = 0 then fund_loop lc i rest db
      else case lc_ExecuteTransfer lc i genesisAccountID u m '''' db of
        (db', Inl status) \<Rightarrow> (db', Inl status)
      | (db', Inr _) \<Rightarrow> fund_loop lc (Suc i) rest db')"

definition fundAccounts ::
  "runtime \<Rightarrow> env \<Rightarrow> ledger_db ledger_client \<Rightarrow> string list \<Rightarrow> int \<Rightarrow> ledger_db \<Rightarrow> ledger_db \<times> (tool_error + unit)" where
  "fundAccounts rt e lc users target db =
     (case lc_CreateLedgerAccount lc 0 genesisAccountID db of
        (db1, Inl status) \<Rightarrow> (db1, Inl (ByLedger status))
      | (db1, Inr _) \<Rightarrow>
          (case shortfalls lc 1 users target db1 of
             (db2, Inl status) \<Rightarrow> (db2, Inl (ByLedger status))
           | (db2, Inr missing) \<Rightarrow>
               if total_shortfall missing = 0 then (db2, Inr ())
               else (case ensureGenesisFunded rt e db2 (total_shortfall missing) of
                       (db3, Inl err) \<Rightarrow> (db3, Inl (ByDatabase err))
                     | (db3, Inr _) \<Rightarrow>
                         (case fund_loop lc (1 + length users) (zip users missing) db3 of
                            (db4, Inl status) \<Rightarrow> (db4, Inl (ByLedger status))
                          | (db4, Inr _) \<Rightarrow> (db4, Inr ())))))"

subsection \<open>seed\<close>

definition seedTransaction ::
  "env \<Rightarrow> nat \<Rightarrow> nat \<Rightarrow> ledger_db \<Rightarrow> string \<Rightarrow> string \<Rightarrow> string \<Rightarrow> int \<Rightarrow> ledger_db \<times> (ledger_error + unit)" where
  "seedTransaction e k g db transactionID fromLid toLid amount =
     (if fails e k then (db, Inl ErrDB)
      else if transactionID \<in> e_transaction_id ` set (entries db) then (db, Inr ())
      else if fails e (k + 1) then (db, Inl ErrDB)
      else case do {
             guard_ok e (k + 2);
             db1 \<leftarrow> insert_entry e g transactionID fromLid (- amount) None db;
             guard_ok e (k + 3);
             insert_entry e (g + 1) transactionID toLid amount None db1
           } of
        None \<Rightarrow> (db, Inl ErrDB)
      | Some db2 \<Rightarrow> persist e (k + 4) db db2 ErrDB ())"

definition sampleAccount1ID :: string where "sampleAccount1ID = ''00000000-0000-0000-0000-000000000002''"
definition sampleAccount2ID :: string where "sampleAccount2ID = ''00000000-0000-0000-0000-000000000003''"
definition genesisToAccount1TxnID :: string where "genesisToAccount1TxnID = ''00000000-0000-0000-0000-000000000101''"
definition genesisToAccount2TxnID :: string where "genesisToAccount2TxnID = ''00000000-0000-0000-0000-000000000102''"
definition account1StartingBalance :: int where "account1StartingBalance = 500000"
definition account2StartingBalance :: int where "account2StartingBalance = 250000"

definition seed :: "runtime \<Rightarrow> env \<Rightarrow> ledger_db \<Rightarrow> ledger_db \<times> (ledger_error + unit)" where
  "seed rt e db =
     (case ensureLedgerAccountRow rt e 0 0 db genesisAccountID of
        (db1, Inl err) \<Rightarrow> (db1, Inl err)
      | (db1, Inr genesisRowID) \<Rightarrow>
          (case ensureLedgerAccountRow rt e 1 1 db1 sampleAccount1ID of
             (db2, Inl err) \<Rightarrow> (db2, Inl err)
           | (db2, Inr account1RowID) \<Rightarrow>
               (case ensureLedgerAccountRow rt e 2 2 db2 sampleAccount2ID of
                  (db3, Inl err) \<Rightarrow> (db3, Inl err)
                | (db3, Inr account2RowID) \<Rightarrow>
                    (case seedTransaction e 3 3 db3 genesisToAccount1TxnID genesisRowID account1RowID account1StartingBalance of
                       (db4, Inl err) \<Rightarrow> (db4, Inl err)
                     | (db4, Inr _) \<Rightarrow> seedTransaction e 8 5 db4 genesisToAccount2TxnID genesisRowID account2RowID account2StartingBalance))))"

subsection \<open>What minting keeps\<close>

definition system_canonical :: "runtime \<Rightarrow> bool" where
  "system_canonical rt \<longleftrightarrow> (\<forall>a\<in>set systemAccountIDs. uuid_in rt a = Some a)"

lemma system_canonicalD:
  "system_canonical rt \<Longrightarrow> genesis_canonical rt"
  "system_canonical rt \<Longrightarrow> uuid_in rt externalWorldAccountID = Some externalWorldAccountID"
  by (simp_all add: system_canonical_def systemAccountIDs_def genesis_canonical_def)

lemma system_canonical_plain [simp]: "system_canonical plain_runtime"
  by (simp add: system_canonical_def)

text \<open>The upsert does what an account creation of the service does.\<close>

lemma ensureLedgerAccountRow_step:
  "fst (ensureLedgerAccountRow rt e i g db a) =
   ledger_step rt (e\<lparr>gen_random_uuid := \<lambda>_. gen_random_uuid e g, fault_at := \<lambda>_. fault_at e i\<rparr>) (OpCreate a) db"
  by (simp add: ensureLedgerAccountRow_def createLedgerAccount_def fst_persist split: option.splits)

lemma ensureLedgerAccountRow_id:
  assumes "ensureLedgerAccountRow rt e i g db a = (db', Inr lid)"
  shows "account_of rt db' a = Some lid"
  using assms
  by (auto simp: ensureLedgerAccountRow_def account_of_def find_account_def find_append find_None_in
      split: option.splits if_splits elim!: persist_cases)
    (auto dest!: find_Some_in)

lemma ensureLedgerAccountRow_keeps:
  assumes "ensureLedgerAccountRow rt e i g db a = (db', r)" "ledger_ok db" "solvent A db"
  shows "ledger_ok db'" "solvent A db'"
proof -
  have d: "db' = fst (ensureLedgerAccountRow rt e i g db a)" by (simp add: assms(1))
  show "ledger_ok db'" unfolding d ensureLedgerAccountRow_step by (rule ledger_step_ok [OF assms(2)]) simp
  show "solvent A db'" unfolding d ensureLedgerAccountRow_step
    using createLedgerAccount_solvent assms(2,3) by (simp add: ledger_ok_def ledger_inv_def)
qed

lemma recomputeCachedBalance_SomeD:
  assumes "recomputeCachedBalance e i lid db = Some db'"
  shows "ledger_accounts db' = ledger_accounts db" "entries db' = entries db" "in_int64 (sum_entries (entries db) lid)"
    "cached db' l = (if l = lid then sum_entries (entries db) lid else cached db l)"
  using assms by (auto simp: recomputeCachedBalance_def guard_ok_def bigint_def cached_def split: if_splits)

lemma mint_entries_SomeD:
  assumes "mint_entries e m g x db = Some db'"
  obtains new where "entries db' = entries db @ new" "ledger_accounts db' = ledger_accounts db"
    "map e_amount new = [m, - m]" "map e_ledger_account_id new = [g, x]" "map e_reference new = [None, None]"
    "map e_transaction_id new = [gen_random_uuid e 2, gen_random_uuid e 2]"
    "distinct (map e_id new)" "e_id ` set new \<inter> e_id ` set (entries db) = {}"
    "\<forall>l. cached db' l = (if l \<in> {g, x} then sum_entries (entries db') l else cached db l)"
    "in_int64 (sum_entries (entries db') g)" "in_int64 (sum_entries (entries db') x)"
proof -
  from assms obtain db1 db2 db3 where s: "insert_entry e 3 (gen_random_uuid e 2) g m None db = Some db1"
    "insert_entry e 4 (gen_random_uuid e 2) x (- m) None db1 = Some db2"
    "recomputeCachedBalance e 5 g db2 = Some db3" "recomputeCachedBalance e 6 x db3 = Some db'"
    by (auto simp: mint_entries_def Let_def guard_ok_def split: if_splits bind_splits)
  note d1 = insert_entry_SomeD [OF s(1)] and d2 = insert_entry_SomeD [OF s(2)]
    and d3 = recomputeCachedBalance_SomeD [OF s(3)] and d4 = recomputeCachedBalance_SomeD [OF s(4)]
  have c: "cached db2 l = cached db l" for l using d1(2) d2(2) by (simp add: cached_def)
  show thesis
    by (rule that [of "drop (length (entries db)) (entries db')"])
      (use d1(1,3,4) d2(1,3,4) d3 d4 c in auto)
qed

lemma mint_entries_keeps:
  assumes "mint_entries e m g x db = Some db'" "ledger_ok db" "0 < m"
    and "g \<in> la_id ` set (ledger_accounts db)" "x \<in> la_id ` set (ledger_accounts db)"
  shows "ledger_ok db'"
    and "solvent A db \<Longrightarrow> (\<And>la. la \<in> set (ledger_accounts db) \<Longrightarrow> la_id la = x \<Longrightarrow> la_account_id la \<in> A) \<Longrightarrow> solvent A db'"
proof -
  obtain new where new: "entries db' = entries db @ new" "ledger_accounts db' = ledger_accounts db"
    "map e_amount new = [m, - m]" "map e_ledger_account_id new = [g, x]" "map e_reference new = [None, None]"
    "map e_transaction_id new = [gen_random_uuid e 2, gen_random_uuid e 2]"
    "distinct (map e_id new)" "e_id ` set new \<inter> e_id ` set (entries db) = {}"
    and c: "\<forall>l. cached db' l = (if l \<in> {g, x} then sum_entries (entries db') l else cached db l)"
    and b: "in_int64 (sum_entries (entries db') g)" "in_int64 (sum_entries (entries db') x)"
    by (rule mint_entries_SomeD [OF assms(1)])
  from new(3-6) obtain n1 n2 where n: "new = [n1, n2]" "e_amount n1 = m" "e_amount n2 = - m"
    "e_ledger_account_id n1 = g" "e_ledger_account_id n2 = x" "e_reference n1 = None" "e_reference n2 = None"
    "e_transaction_id n1 = gen_random_uuid e 2" "e_transaction_id n2 = gen_random_uuid e 2"
    by (auto simp: map_eq_Cons_conv)
  have sums: "sum_entries (entries db') l = sum_entries (entries db) l + (if l = g then m else 0) - (if l = x then m else 0)" for l
    by (simp add: new(1) n sum_entries_append)
  have tx: "tx_sum new t = 0" "sum_list (map e_amount new) = 0" for t by (simp_all add: n)
  have inv: "ledger_keys db" "ledger_books db" using assms(2) by (simp_all add: ledger_ok_def ledger_inv_def)
  have "ledger_keys db'"
    using inv(1) new(1,2,7,8) assms(4,5) by (auto simp: ledger_keys_def n)
  moreover have cs: "cached db' l = sum_entries (entries db') l" "in_int64 (sum_entries (entries db') l)" for l
    using c [THEN spec, of l] b sums [of l] inv(2) by (auto simp: ledger_books_def)
  then have "ledger_books db'"
    unfolding ledger_books_def using inv(2) tx by (simp add: ledger_books_def) (simp add: new(1) sum_entries_append)
  moreover have "debit_first db'"
    using assms(2) by (auto simp: ledger_ok_def debit_first_def new(1) n find_append split: option.splits)
  ultimately show "ledger_ok db'" by (simp add: ledger_ok_def ledger_inv_def)
  show "solvent A db'" if "solvent A db" "\<And>la. la \<in> set (ledger_accounts db) \<Longrightarrow> la_id la = x \<Longrightarrow> la_account_id la \<in> A"
    using that sums assms(3) by (force simp: solvent_def new(2))
qed

lemma ensureGenesisFunded_keeps:
  assumes "system_canonical rt" "ledger_ok db" "solvent (set systemAccountIDs) db"
  shows "ledger_ok (fst (ensureGenesisFunded rt e db amount))" "solvent (set systemAccountIDs) (fst (ensureGenesisFunded rt e db amount))"
proof -
  let ?A = "set systemAccountIDs"
  obtain db1 r1 where 1: "ensureLedgerAccountRow rt e 0 0 db genesisAccountID = (db1, r1)" by fastforce
  obtain db2 r2 where 2: "ensureLedgerAccountRow rt e 2 1 db1 externalWorldAccountID = (db2, r2)" by fastforce
  note k1 = ensureLedgerAccountRow_keeps [OF 1 assms(2,3)]
  note k2 = ensureLedgerAccountRow_keeps [OF 2 k1]
  have mint: "ledger_ok db3 \<and> solvent ?A db3"
    if "mint_entries e m g x db2 = Some db3" "r1 = Inr g" "r2 = Inr x" "0 < m" for m g x db3
  proof -
    have g: "account_of rt db1 genesisAccountID = Some g" "account_of rt db2 externalWorldAccountID = Some x"
      using ensureLedgerAccountRow_id 1 2 that(2,3) by simp_all
    obtain more where more: "ledger_accounts db2 = ledger_accounts db1 @ more"
      using 2 ensureLedgerAccountRow_step [of rt e 2 1 db1 externalWorldAccountID] ledger_step_accounts by (metis fst_conv)
    have ids: "g \<in> la_id ` set (ledger_accounts db2)" "x \<in> la_id ` set (ledger_accounts db2)"
      using account_of_in [OF g(1)] account_of_in [OF g(2)] more by auto
    have "la_account_id la \<in> ?A" if "la \<in> set (ledger_accounts db2)" "la_id la = x" for la
    proof -
      from g(2) system_canonicalD(2) [OF assms(1)] obtain lb where lb: "lb \<in> set (ledger_accounts db2)" "la_id lb = x"
        "la_account_id lb = externalWorldAccountID"
        by (auto simp: account_of_def find_account_def dest!: find_Some_in)
      have "ledger_keys db2" using k2(1) by (simp add: ledger_ok_def ledger_inv_def)
      from ledger_keys_id_inj [OF this that(1) lb(1)] that(2) lb show ?thesis by (simp add: systemAccountIDs_def)
    qed
    with mint_entries_keeps [OF that(1) k2(1) that(4) ids] k2(2) show ?thesis by blast
  qed
  have "ledger_ok (fst (ensureGenesisFunded rt e db amount)) \<and> solvent ?A (fst (ensureGenesisFunded rt e db amount))"
    using k1 k2 mint
    by (auto simp: ensureGenesisFunded_def 1 2 Let_def fst_persist genesisMintChunk_def simp del: One_nat_def split: sum.splits option.splits)
  then show "ledger_ok (fst (ensureGenesisFunded rt e db amount))" "solvent ?A (fst (ensureGenesisFunded rt e db amount))" by simp_all
qed

lemma rpc_execute_cases:
  assumes "lc_ExecuteTransfer (ledger_rpc rt es ns) i f t a r l = (l', res)"
  obtains (same) "l' = l" | (executed) e where "l' = fst (executeTransfer rt e l f t a r)"
proof -
  have "l' = l \<or> (\<exists>e. l' = fst (executeTransfer rt e l f t a r))"
    using assms by (auto simp: ledger_rpc_def ExecuteTransfer_def elim!: call_cases split: prod.splits sum.splits) (metis fst_conv)+
  then show thesis using that by blast
qed

subsection \<open>Ledgers with money in them\<close>

text \<open>
  What a development ledger can be: the migrated tables, after calls of the service, mints, and runs of the two tools
  that mint, in any order and with any failures. No deposit is reversed.
\<close>

inductive stocked :: "runtime \<Rightarrow> ledger_db \<Rightarrow> bool" for rt where
  stocked_start: "stocked rt migrated_ledger"
| stocked_call: "stocked rt db \<Longrightarrow> \<not> is_reverse op \<Longrightarrow> op_int64 op \<Longrightarrow> stocked rt (ledger_step rt e op db)"
| stocked_mint: "stocked rt db \<Longrightarrow> stocked rt (fst (ensureGenesisFunded rt e db amount))"

lemma stocked_reach: "ledger_reach rt (\<lambda>op. \<not> is_reverse op) db \<Longrightarrow> stocked rt db"
  by (induction rule: ledger_reach.induct) (auto intro: stocked.intros)

lemma stocked_keeps:
  assumes "stocked rt db" "system_canonical rt"
  shows "ledger_ok db \<and> solvent (set systemAccountIDs) db"
  using assms(1)
proof induction
  case stocked_start
  then show ?case by (simp add: ledger_reach_ok [OF ledger_start]) (simp add: solvent_def migrated_ledger_def)
next
  case (stocked_call db op e)
  then have "ledger_keys db" by (simp add: ledger_ok_def ledger_inv_def)
  with stocked_call show ?case
    using ledger_step_ok ledger_step_solvent [OF system_canonicalD(1) [OF assms(2)]] by (simp add: systemAccountIDs_def)
next
  case (stocked_mint db e amount)
  then show ?case using ensureGenesisFunded_keeps [OF assms(2)] by blast
qed

lemma stocked_execute:
  assumes "stocked rt l" "lc_ExecuteTransfer (ledger_rpc rt es ns) i f t a r l = (l', res)" "in_int64 a"
  shows "stocked rt l'"
  using assms(2)
proof (cases rule: rpc_execute_cases)
  case (executed e)
  then show ?thesis using stocked_call [OF assms(1), of "OpTransfer f t a r"] assms(3) by simp
qed (use assms(1) in simp)

lemma stocked_create:
  assumes "stocked rt l" "lc_CreateLedgerAccount (ledger_rpc rt es ns) i a l = (l', res)"
  shows "stocked rt l'"
proof -
  have "l' = l \<or> (\<exists>e. l' = ledger_step rt e (OpCreate a) l)"
    using assms(2) by (auto simp: ledger_rpc_def CreateLedgerAccount_def elim!: call_cases split: prod.splits sum.splits) (metis fst_conv)+
  then show ?thesis using assms(1) stocked_call [OF assms(1), of "OpCreate a"] by auto
qed

lemma rpc_balance_same: "lc_GetBalance (ledger_rpc rt es ns) i a l = (l', res) \<Longrightarrow> l' = l"
  by (auto simp: ledger_rpc_def elim!: call_cases)

lemma stocked_funding:
  assumes "stocked rt l" "ensureGenesisFunded rt e l amount = (l', res)"
  shows "stocked rt l'"
  using stocked_mint [OF assms(1), of e amount] assms(2) by simp

lemma devtopup_stocked:
  assumes "stocked rt l" "in_int64 amount"
  shows "stocked rt (fst (devtopup rt e (ledger_rpc rt es ns) a amount l))"
proof -
  let ?lc = "ledger_rpc rt es ns"
  obtain l1 r1 where 1: "lc_CreateLedgerAccount ?lc 0 genesisAccountID l = (l1, r1)" by fastforce
  obtain l2 r2 where 2: "lc_CreateLedgerAccount ?lc 1 a l1 = (l2, r2)" by fastforce
  obtain l3 r3 where 3: "ensureGenesisFunded rt e l2 amount = (l3, r3)" by fastforce
  obtain l4 r4 where 4: "lc_ExecuteTransfer ?lc 2 genesisAccountID a amount '''' l3 = (l4, r4)" by fastforce
  obtain l5 r5 where 5: "lc_GetBalance ?lc 3 a l4 = (l5, r5)" by fastforce
  note k1 = stocked_create [OF assms(1) 1]
  note k2 = stocked_create [OF k1 2]
  note k3 = stocked_funding [OF k2 3]
  note k4 = stocked_execute [OF k3 4 assms(2)]
  from assms(1) k1 k2 k3 k4 rpc_balance_same [OF 5] show ?thesis
    by (simp add: devtopup_def 1 2 [unfolded One_nat_def] 3 4 5 split: sum.split)
qed

lemma shortfalls_same:
  "shortfalls (ledger_rpc rt es ns) i users target l = (l', res) \<Longrightarrow>
   l' = l \<and> (\<forall>ms. res = Inr ms \<longrightarrow> (\<forall>m\<in>set ms. 0 \<le> m \<and> in_int64 m))"
  by (induction users arbitrary: i l l' res)
    (fastforce simp: Let_def split: prod.splits sum.splits if_splits dest!: rpc_balance_same)+

lemma fund_loop_stocked:
  assumes "stocked rt l" "\<forall>(u, m)\<in>set todo. in_int64 m"
  shows "stocked rt (fst (fund_loop (ledger_rpc rt es ns) i todo l))"
  using assms
proof (induction "ledger_rpc rt es ns" i todo l rule: fund_loop.induct)
  case (2 i u m rest db)
  then show ?case using stocked_execute [OF 2(3), of es ns i genesisAccountID u m "[]"]
    by (auto split: prod.splits sum.splits)
qed simp

lemma fundAccounts_stocked:
  assumes "stocked rt l"
  shows "stocked rt (fst (fundAccounts rt e (ledger_rpc rt es ns) users target l))"
proof -
  let ?lc = "ledger_rpc rt es ns"
  obtain l1 r1 where 1: "lc_CreateLedgerAccount ?lc 0 genesisAccountID l = (l1, r1)" by fastforce
  obtain l2 r2 where 2: "shortfalls ?lc 1 users target l1 = (l2, r2)" by fastforce
  note s = shortfalls_same [OF 2]
  note k1 = stocked_create [OF assms 1]
  show ?thesis
  proof (cases r2)
    case (Inl status)
    then show ?thesis using k1 s by (simp add: fundAccounts_def 1 2 [unfolded One_nat_def] split: sum.split)
  next
    case (Inr ms)
    obtain l3 r3 where 3: "ensureGenesisFunded rt e l2 (total_shortfall ms) = (l3, r3)" by fastforce
    have k2: "stocked rt l2" using k1 s by simp
    note k3 = stocked_funding [OF k2 3]
    obtain l4 r4 where 4: "fund_loop ?lc (1 + length users) (zip users ms) l3 = (l4, r4)" by fastforce
    have "stocked rt (fst (fund_loop ?lc (1 + length users) (zip users ms) l3))"
      using s Inr by (intro fund_loop_stocked [OF k3]) (auto dest!: set_zip_rightD)
    then have k4: "stocked rt l4" by (simp only: 4 fst_conv)
    show ?thesis using k1 k2 k3 k4 Inr
      by (simp add: fundAccounts_def 1 2 [unfolded One_nat_def] 3 4 [unfolded plus_1_eq_Suc] split: sum.split)
  qed
qed

text \<open>
  The seeding writes entries and leaves the cache as it was: afterwards the balance that the service shows for a sample account
  is not the sum of its entries.
\<close>

lemma seed_leaves_cache:
  "case seed plain_runtime (sample_env 9) migrated_ledger of
     (db, r) \<Rightarrow> r = Inr () \<and> account_of plain_runtime db sampleAccount1ID = Some (sample_ids 9 1) \<and>
       sum_entries (entries db) (sample_ids 9 1) = 500000 \<and> getBalance plain_runtime (sample_env 10) db sampleAccount1ID = Inr 0"
  by code_simp

end
