(* ===== verification/Loadtest.thy ===== *)
theory Loadtest
  imports Settlement Ledger_Tools
begin

text \<open>
  loadtest/cmd/lt/verify.go: the checks that the load test runs over the tables afterwards. A check reads the tables of
  ledger-svc and transfers-svc; \<open>cohort\<close> are the accounts the load test made. The texts of a report are left out, the rows
  it lists are kept. The queries are taken to reach the database; a malformed account id, or a value that leaves the range of
  its type, ends the command (\<open>None\<close>).

  Where a query has a LIMIT and no order, the rows come in the order of the table here. \<open>collectStats\<close>, which only counts,
  and the printing are left out.
\<close>

subsection \<open>The checks\<close>

text \<open>The rows a check lists, by check.\<close>

datatype report_row =
    NegativeRow bool string int                   \<comment> \<open>in the cohort, account, balance\<close>
  | DriftRow string int int                       \<comment> \<open>account, cached, logged\<close>
  | PairRow string int int int int int            \<comment> \<open>transfer, amount, entries, net, sender side, recipient side\<close>
  | UnsettledRow string string int int            \<comment> \<open>transfer, status, entries, net\<close>
  | DeltaRow string int int                       \<comment> \<open>account, by the transfers, by the ledger\<close>

record checkResult =
  cr_Name :: string
  cr_Passed :: bool
  cr_Detail :: "report_row list"

text \<open>The parameter of type \<open>uuid[]\<close>.\<close>

definition uuid_array :: "runtime \<Rightarrow> string list \<Rightarrow> string list option" where
  "uuid_array rt xs = those (map (uuid_in rt) xs)"

text \<open>A join of entries with their account.\<close>

definition entry_account :: "ledger_db \<Rightarrow> entry_row \<Rightarrow> string option" where
  "entry_account l x = map_option la_account_id (find (\<lambda>la. la_id la = e_ledger_account_id x) (ledger_accounts l))"

definition amounts :: "entry_row list \<Rightarrow> int" where
  "amounts es = sum_list (map e_amount es)"

definition side :: "ledger_db \<Rightarrow> string \<Rightarrow> entry_row list \<Rightarrow> int" where
  "side l a es = amounts (filter (\<lambda>x. entry_account l x = Some a) es)"

definition checkEntriesSumZero :: "ledger_db \<Rightarrow> checkResult option" where
  "checkEntriesSumZero l =
     map_option (\<lambda>s. \<lparr>cr_Name = ''entries_sum_zero'', cr_Passed = (s = 0), cr_Detail = []\<rparr>) (bigint (amounts (entries l)))"

text \<open>\<open>ORDER BY in_cohort DESC, balance LIMIT 20\<close>.\<close>

definition negative_rows :: "ledger_db \<Rightarrow> string list \<Rightarrow> (string \<times> int) list" where
  "negative_rows l cohort =
     (let rows = concat (map (\<lambda>la. case account_balances l (la_id la) of
                                 Some b \<Rightarrow> if b < 0 \<and> la_account_id la \<notin> set systemAccountIDs then [(la_account_id la, b)] else []
                               | None \<Rightarrow> []) (ledger_accounts l))
      in take 20 (sort_key (\<lambda>r. fst r \<notin> set cohort) (sort_key snd rows)))"

definition checkNoNegativeBalances :: "ledger_db \<Rightarrow> string list \<Rightarrow> checkResult option" where
  "checkNoNegativeBalances l cohort =
     (let rows = negative_rows l cohort in
      Some \<lparr>cr_Name = ''no_negative_balances'', cr_Passed = (filter (\<lambda>r. fst r \<in> set cohort) rows = []),
        cr_Detail = map (\<lambda>r. NegativeRow (fst r \<in> set cohort) (fst r) (snd r)) rows\<rparr>)"

text \<open>The sums of the accounts are cast to BIGINT.\<close>

definition checkBalanceCacheMatchesLog :: "ledger_db \<Rightarrow> checkResult option" where
  "checkBalanceCacheMatchesLog l =
     (if \<not> list_all (\<lambda>x. in_int64 (sum_entries (entries l) (e_ledger_account_id x))) (entries l) then None
      else (let drift = take 20 (filter (\<lambda>la. cached l (la_id la) \<noteq> sum_entries (entries l) (la_id la)) (ledger_accounts l)) in
            Some \<lparr>cr_Name = ''balance_cache_matches_log'', cr_Passed = (drift = []),
              cr_Detail = map (\<lambda>la. DriftRow (la_account_id la) (cached l (la_id la)) (sum_entries (entries l) (la_id la))) drift\<rparr>))"

text \<open>The sums of the other queries are numeric; a row that is read must fit into \<open>int64\<close>.\<close>

definition scan_row :: "report_row \<Rightarrow> report_row option" where
  "scan_row r =
     (let ok = (case r of
          NegativeRow c a b \<Rightarrow> in_int64 b
        | DriftRow a c g \<Rightarrow> in_int64 c \<and> in_int64 g
        | PairRow t am n net s p \<Rightarrow> in_int64 net \<and> in_int64 s \<and> in_int64 p
        | UnsettledRow t st n net \<Rightarrow> in_int64 net
        | DeltaRow a x y \<Rightarrow> in_int64 x \<and> in_int64 y)
      in if ok then Some r else None)"

definition listed :: "string \<Rightarrow> report_row list \<Rightarrow> checkResult option" where
  "listed name rows =
     map_option (\<lambda>detail. \<lparr>cr_Name = name, cr_Passed = (detail = []), cr_Detail = detail\<rparr>) (those (map scan_row (take 20 rows)))"

definition completed_of :: "Transfer list \<Rightarrow> string list \<Rightarrow> Transfer list" where
  "completed_of ts cohort = filter (\<lambda>t. t_Status t = ''completed'' \<and> t_SenderAccountID t \<in> set cohort) ts"

definition pair_row :: "ledger_db \<Rightarrow> Transfer \<Rightarrow> report_row" where
  "pair_row l t =
     (let es = ref_entries l (t_ID t) in
      PairRow (t_ID t) (t_Amount t) (int (length es)) (amounts es) (side l (t_SenderAccountID t) es) (side l (t_RecipientAccountID t) es))"

definition malformed :: "report_row \<Rightarrow> bool" where
  "malformed r = (case r of PairRow t am n net s p \<Rightarrow> n \<noteq> 2 \<or> net \<noteq> 0 \<or> s \<noteq> - am \<or> p \<noteq> am | _ \<Rightarrow> False)"

definition checkTransferEntriesPaired :: "Transfer list \<Rightarrow> ledger_db \<Rightarrow> string list \<Rightarrow> checkResult option" where
  "checkTransferEntriesPaired ts l cohort =
     listed ''transfer_entries_paired'' (filter malformed (map (pair_row l) (completed_of ts cohort)))"

definition checkNoEntriesForUnsettledTransfers :: "Transfer list \<Rightarrow> ledger_db \<Rightarrow> string list \<Rightarrow> checkResult option" where
  "checkNoEntriesForUnsettledTransfers ts l cohort =
     listed ''no_entries_for_failed_or_rejected''
       (map (\<lambda>t. UnsettledRow (t_ID t) (t_Status t) (int (length (ref_entries l (t_ID t)))) (amounts (ref_entries l (t_ID t))))
         (filter (\<lambda>t. t_SenderAccountID t \<in> set cohort \<and> t_Status t \<in> {''failed'', ''rejected''} \<and> ref_entries l (t_ID t) \<noteq> []) ts))"

definition expected_delta :: "Transfer list \<Rightarrow> string \<Rightarrow> int" where
  "expected_delta settled a =
     sum_list (map t_Amount (filter (\<lambda>t. t_RecipientAccountID t = a) settled)) - sum_list (map t_Amount (filter (\<lambda>t. t_SenderAccountID t = a) settled))"

definition actual_delta :: "Transfer list \<Rightarrow> ledger_db \<Rightarrow> string \<Rightarrow> int" where
  "actual_delta settled l a =
     side l a (filter (\<lambda>x. case e_reference x of None \<Rightarrow> False | Some r \<Rightarrow> r \<in> t_ID ` set settled) (entries l))"

text \<open>\<open>unnest\<close> keeps an account that is listed twice, so the join has it four times.\<close>

definition checkBalanceDeltaMatchesTransfers :: "Transfer list \<Rightarrow> ledger_db \<Rightarrow> string list \<Rightarrow> checkResult option" where
  "checkBalanceDeltaMatchesTransfers ts l cohort =
     (let settled = completed_of ts cohort;
          joined = concat (map (\<lambda>a. filter (\<lambda>b. b = a) cohort) cohort)
      in listed ''balance_delta_matches_transfers''
           (map (\<lambda>a. DeltaRow a (expected_delta settled a) (actual_delta settled l a))
             (filter (\<lambda>a. expected_delta settled a \<noteq> actual_delta settled l a) joined)))"

definition cohort_entries :: "ledger_db \<Rightarrow> string list \<Rightarrow> entry_row list" where
  "cohort_entries l cohort = filter (\<lambda>x. case entry_account l x of None \<Rightarrow> False | Some a \<Rightarrow> a \<in> set cohort) (entries l)"

definition checkCohortMoneyConserved :: "ledger_db \<Rightarrow> string list \<Rightarrow> checkResult option" where
  "checkCohortMoneyConserved l cohort =
     (case (bigint (amounts (cohort_entries l cohort)), bigint (amounts (filter (\<lambda>x. e_reference x = None) (cohort_entries l cohort)))) of
        (Some held, Some funded) \<Rightarrow> Some \<lparr>cr_Name = ''cohort_money_conserved'', cr_Passed = (held = funded), cr_Detail = []\<rparr>
      | _ \<Rightarrow> None)"

definition checkNoDuplicateIdempotencyKeys :: "Transfer list \<Rightarrow> string list \<Rightarrow> checkResult option" where
  "checkNoDuplicateIdempotencyKeys ts cohort =
     (let keys = map t_IdempotencyKey (filter (\<lambda>t. t_SenderAccountID t \<in> set cohort) ts) in
      Some \<lparr>cr_Name = ''no_duplicate_idempotency_keys'', cr_Passed = (length keys = length (remdups keys)), cr_Detail = []\<rparr>)"

text \<open>The checks in their order; the report and whether the command ends without an error.\<close>

definition runVerify :: "runtime \<Rightarrow> Transfer list \<Rightarrow> ledger_db \<Rightarrow> string list \<Rightarrow> (checkResult list \<times> bool) option" where
  "runVerify rt ts l accounts =
     (case uuid_array rt accounts of
        None \<Rightarrow> None
      | Some cohort \<Rightarrow>
          map_option (\<lambda>checks. (checks, list_all cr_Passed checks))
            (those [checkEntriesSumZero l, checkNoNegativeBalances l cohort, checkBalanceCacheMatchesLog l,
               checkTransferEntriesPaired ts l cohort, checkNoEntriesForUnsettledTransfers ts l cohort,
               checkBalanceDeltaMatchesTransfers ts l cohort, checkCohortMoneyConserved l cohort, checkNoDuplicateIdempotencyKeys ts cohort]))"

end
