(* ===== verification/Loadtest_Properties.thy ===== *)
theory Loadtest_Properties
  imports Loadtest
begin

text \<open>
  What the checks of the load test say of the program: the bank in the model is the saga of transfers over a run of
  ledger-svc, and after every run all checks pass, whatever failed on the way, up to the transfers that
  are recorded as failed without knowing whether the ledger moved the money.
\<close>

subsection \<open>The bank\<close>

text \<open>
  transfers-svc as in \<open>Settlement\<close>, over a ledger that the tools may have put money into and that takes the calls of other
  clients in between, none of which reverses a deposit or uses the id of a transfer as its reference.
\<close>

inductive bank_run :: "runtime \<Rightarrow> saga \<Rightarrow> bool" for rt where
  bank_start: "stocked rt l \<Longrightarrow> bank_run rt (saga_start l)"
| bank_saga: "bank_run rt s \<Longrightarrow> saga_step rt s s' \<Longrightarrow> sg_ledger s' = sg_ledger s \<Longrightarrow> bank_run rt s'"
| bank_execute: "bank_run rt s \<Longrightarrow> sg_live s i = Some (PApproved t) \<Longrightarrow>
    lc_ExecuteTransfer (ledger_rpc rt es ns) 0 (t_SenderAccountID t) (t_RecipientAccountID t) (t_Amount t) (t_ID t) (sg_ledger s) = (l', res) \<Longrightarrow>
    bank_run rt (s\<lparr>sg_ledger := l', sg_live := (sg_live s)(i \<mapsto> PAnswered t (settle_decide res))\<rparr>)"
| bank_ledger: "bank_run rt s \<Longrightarrow> \<not> is_reverse op \<Longrightarrow> op_int64 op \<Longrightarrow> l' = ledger_step rt e op (sg_ledger s) \<Longrightarrow>
    (\<And>t. t \<in> set (transfers (sg_db s)) \<Longrightarrow> ref_entries l' (t_ID t) = ref_entries (sg_ledger s) (t_ID t)) \<Longrightarrow>
    bank_run rt (s\<lparr>sg_ledger := l'\<rparr>)"

subsection \<open>Both sides of a transfer\<close>

definition paired :: "ledger_db \<Rightarrow> Transfer \<Rightarrow> bool" where
  "paired l t \<longleftrightarrow> ref_entries l (t_ID t) = [] \<or>
     (\<exists>x y. ref_entries l (t_ID t) = [x, y] \<and> e_amount x = - t_Amount t \<and> e_amount y = t_Amount t \<and>
        entry_account l x = Some (t_SenderAccountID t) \<and> entry_account l y = Some (t_RecipientAccountID t))"

definition own_text :: "runtime \<Rightarrow> Transfer \<Rightarrow> bool" where
  "own_text rt t \<longleftrightarrow> uuid_in rt (t_SenderAccountID t) = Some (t_SenderAccountID t) \<and>
     uuid_in rt (t_RecipientAccountID t) = Some (t_RecipientAccountID t)"

lemma same_transfer_cong:
  "same_transfer t t' \<Longrightarrow> paired l t' \<longleftrightarrow> paired l t" "same_transfer t t' \<Longrightarrow> own_text rt t' \<longleftrightarrow> own_text rt t"
  by (simp_all add: same_transfer_def paired_def own_text_def)

lemma paired_none: "ref_entries l (t_ID t) = [] \<Longrightarrow> paired l t"
  by (simp add: paired_def)

lemma entry_account_append:
  "entry_account l x = Some a \<Longrightarrow> ledger_accounts l' = ledger_accounts l @ new \<Longrightarrow> entry_account l' x = Some a"
  by (auto simp: entry_account_def find_append)

lemma paired_ledger:
  "ref_entries l' (t_ID t) = ref_entries l (t_ID t) \<Longrightarrow> ledger_accounts l' = ledger_accounts l @ new \<Longrightarrow> paired l t \<Longrightarrow> paired l' t"
  by (auto simp: paired_def intro: entry_account_append)

lemma entry_account_own:
  assumes "ledger_keys l" "account_of rt l a = Some (e_ledger_account_id x)" "uuid_in rt a = Some a"
  shows "entry_account l x = Some a"
proof -
  from assms(2,3) obtain la where la: "la \<in> set (ledger_accounts l)" "la_account_id la = a" "la_id la = e_ledger_account_id x"
    by (auto simp: account_of_def find_account_def dest!: find_Some_in)
  then obtain lb where lb: "find (\<lambda>lb. la_id lb = e_ledger_account_id x) (ledger_accounts l) = Some lb"
    by (cases "find (\<lambda>lb. la_id lb = e_ledger_account_id x) (ledger_accounts l)") (auto simp: find_None_in)
  from find_Some_in [OF lb] la ledger_keys_id_inj [OF assms(1), of lb la] show ?thesis
    using lb by (simp add: entry_account_def)
qed

lemma paired_booked: "paired l t \<Longrightarrow> 0 < t_Amount t \<Longrightarrow> booked l (t_ID t) = [] \<longleftrightarrow> ref_entries l (t_ID t) = []"
  by (auto simp: paired_def booked_refs)

subsection \<open>The invariant\<close>

definition bank_inv :: "runtime \<Rightarrow> saga \<Rightarrow> bool" where
  "bank_inv rt s \<longleftrightarrow> saga_inv rt s \<and> solvent (set systemAccountIDs) (sg_ledger s) \<and>
     (\<forall>t\<in>set (transfers (sg_db s)). own_text rt t \<and> paired (sg_ledger s) t)"

text \<open>A row after a step was there before, or is new and has no entries.\<close>

lemma same_in: "t \<in> set ts \<Longrightarrow> \<exists>t'\<in>set ts. same_transfer t' t"
  using same_transfer_refl by blast

lemma writes_status_rows:
  assumes "writes_status rt db db'" "t' \<in> set (transfers db')"
  shows "\<exists>t\<in>set (transfers db). same_transfer t t'"
proof -
  from assms(1) obtain e p upd where w: "transfers db' = update_where p upd (transfers db)" "status_update e upd"
    by (auto simp: writes_status_def status_write_def)
  have "same_transfer t (upd t)" for t using w(2) by (auto simp: status_update_def)
  with assms(2) w(1) show ?thesis by (auto simp: in_set_update_where split: if_splits intro: same_transfer_refl)
qed

lemma mark_rows:
  "mark_row rt e db i upd ty payload = (db', r) \<Longrightarrow> status_update e upd \<Longrightarrow> t' \<in> set (transfers db') \<Longrightarrow>
     \<exists>t\<in>set (transfers db). same_transfer t t'"
  "mark_if_pending rt e db t upd ty payload2 = (db', r2) \<Longrightarrow> status_update e upd \<Longrightarrow> t' \<in> set (transfers db') \<Longrightarrow>
     \<exists>t\<in>set (transfers db). same_transfer t t'"
  using mark_row_writes mark_if_pending_writes writes_status_rows same_in by metis+

lemma marked_rows:
  "markTransferCompleted rt e db i x = (db', r) \<Longrightarrow> t' \<in> set (transfers db') \<Longrightarrow> \<exists>t\<in>set (transfers db). same_transfer t t'"
  "markTransferFailed rt e db i x = (db', r) \<Longrightarrow> t' \<in> set (transfers db') \<Longrightarrow> \<exists>t\<in>set (transfers db). same_transfer t t'"
  "markTransferRejected rt e db i x = (db', r) \<Longrightarrow> t' \<in> set (transfers db') \<Longrightarrow> \<exists>t\<in>set (transfers db). same_transfer t t'"
  "markTransferCompletedIfPending rt e db t x = (db', r2) \<Longrightarrow> t' \<in> set (transfers db') \<Longrightarrow> \<exists>t\<in>set (transfers db). same_transfer t t'"
  "markTransferFailedIfPending rt e db t x = (db', r2) \<Longrightarrow> t' \<in> set (transfers db') \<Longrightarrow> \<exists>t\<in>set (transfers db). same_transfer t t'"
  unfolding mark_defs mark_pending_defs
  by (auto split: option.splits intro: same_in elim: mark_rows [OF _ status_update_intros(1)] mark_rows [OF _ status_update_intros(2)]
      mark_rows [OF _ status_update_intros(3)])

lemma settle_record_rows:
  assumes "settle_record rt e db t d = (db', r)" "t' \<in> set (transfers db')"
  shows "\<exists>t\<in>set (transfers db). same_transfer t t'"
proof (cases d)
  case (MarkCompleted tx)
  with assms show ?thesis
    by (auto simp: settle_record_def split: prod.splits sum.splits dest: marked_rows)
next
  case (MarkFailed reason)
  with assms show ?thesis
    by (auto simp: settle_record_def split: prod.splits sum.splits dest: marked_rows)
next
  case LeavePending
  with assms show ?thesis by (auto simp: settle_record_def intro: same_transfer_refl)
qed

lemma saga_rows:
  assumes "saga_step rt s s'" "sg_ledger s' = sg_ledger s" "canonical_uuids rt" "t' \<in> set (transfers (sg_db s'))"
  shows "(\<exists>t\<in>set (transfers (sg_db s)). same_transfer t t') \<or> own_text rt t' \<and> ref_entries (sg_ledger s) (t_ID t') = []"
  using assms(1)
proof cases
  case (sg_insert e i key sender recipient amount db' r)
  from sg_insert(2) show ?thesis
  proof (cases rule: insert_transfer_cases)
    case unchanged
    then show ?thesis using assms(4) sg_insert(1) by (intro disjI1 same_in) simp
  next
    case (inserted su ru)
    from assms(4) sg_insert(1) inserted(6) consider "t' \<in> set (transfers (sg_db s))" | "t' = pending_row e key su ru amount" by auto
    then show ?thesis
    proof cases
      case 1
      then show ?thesis by (intro disjI1 same_in)
    next
      case 2
      then show ?thesis using canonical_uuidsD [OF assms(3)] inserted(1,2) sg_insert(5) by (simp add: own_text_def pending_row_def)
    qed
  qed
next
  case (sg_reject i t e rule db' r2)
  with assms(4) show ?thesis by (auto dest: marked_rows)
next
  case (sg_record i t d e db' r3)
  with assms(4) show ?thesis by (auto dest: settle_record_rows)
next
  case (sg_resolve_found t resp e db' r4)
  with assms(4) show ?thesis by (auto dest: marked_rows)
next
  case (sg_resolve_missing t resp e db' r4)
  with assms(4) show ?thesis by (auto dest: marked_rows)
qed (use assms(2,4) in \<open>auto intro: same_in\<close>)

text \<open>The call of the ledger writes both sides.\<close>

lemma execute_pairs:
  assumes "ledger_keys l" "own_text rt t" "stored_reference rt (t_ID t)" "ref_entries l (t_ID t) = []"
  shows "paired (fst (executeTransfer rt e l (t_SenderAccountID t) (t_RecipientAccountID t) (t_Amount t) (t_ID t))) t"
proof -
  obtain l' r where x: "executeTransfer rt e l (t_SenderAccountID t) (t_RecipientAccountID t) (t_Amount t) (t_ID t) = (l', r)" by fastforce
  then show ?thesis
  proof (cases rule: executeTransfer_cases)
    case unchanged
    then show ?thesis using assms(4) by (simp add: x paired_def)
  next
    case (posted fl tol ref)
    have ref: "ref = Some (t_ID t)" using posted(5) assms(3) by (simp add: reference_param_def stored_reference_def)
    have keys: "ledger_accounts l' = ledger_accounts l" using posted(6) by (simp add: posted_def)
    have own: "entry_account l x = Some a" if "account_of rt l a = Some (e_ledger_account_id x)" "uuid_in rt a = Some a" for x a
      by (rule entry_account_own [OF assms(1) that])
    have e: "ref_entries l' (t_ID t) = pair_entries e fl tol (t_Amount t) ref"
      using ref_entries_posted [OF posted(6), of "t_ID t"] ref assms(4) by simp
    have acc: "entry_account l' x = entry_account l x" for x by (simp add: entry_account_def keys)
    from assms(2) own posted(2,3) show ?thesis
      unfolding x fst_conv paired_def e acc by (simp add: pair_entries_def own_text_def)
  qed
qed

lemma execute_refs:
  assumes "stored_reference rt r" "r' \<noteq> r"
  shows "ref_entries (fst (executeTransfer rt e l f t a r)) r' = ref_entries l r'"
proof -
  obtain l' res where x: "executeTransfer rt e l f t a r = (l', res)" by fastforce
  then show ?thesis
    by (cases rule: executeTransfer_cases)
      (use x assms in \<open>auto simp: ref_entries_posted reference_param_def stored_reference_def\<close>)
qed

lemma bank_execute_inv:
  assumes "bank_inv rt s" "sg_live s i = Some (PApproved t)"
    and x: "lc_ExecuteTransfer (ledger_rpc rt es ns) 0 (t_SenderAccountID t) (t_RecipientAccountID t) (t_Amount t) (t_ID t) (sg_ledger s) = (l', res)"
  shows "bank_inv rt (s\<lparr>sg_ledger := l', sg_live := (sg_live s)(i \<mapsto> PAnswered t (settle_decide res))\<rparr>)"
proof -
  let ?l = "sg_ledger s"
  from assms(1) have inv: "saga_inv rt s" and solv: "solvent (set systemAccountIDs) ?l"
    and rows: "\<And>t. t \<in> set (transfers (sg_db s)) \<Longrightarrow> own_text rt t \<and> paired ?l t" by (auto simp: bank_inv_def)
  note live = saga_inv_live [OF inv assms(2)]
  obtain t0 where t0: "t0 \<in> set (transfers (sg_db s))" "same_transfer t0 t" using live(5) by auto
  have keys: "ledger_keys ?l" using inv by (simp add: saga_inv_def ledger_ok_def ledger_inv_def)
  have i: "t_ID t = i" "booked ?l i = []" using live by simp_all
  have good: "stored_reference rt (t_ID t)" using live(3) i by simp
  have "0 < t_Amount t0" using inv t0(1) by (simp add: saga_inv_def transfers_inv_def)
  with paired_booked rows [OF t0(1)] i t0(2) have none: "ref_entries ?l i = []" by (auto simp: same_transfer_def)
  have t: "own_text rt t" using same_transfer_cong(2) [OF t0(2)] rows [OF t0(1)] by simp
  have "solvent (set systemAccountIDs) l' \<and> (\<forall>x\<in>set (transfers (sg_db s)). paired l' x)"
    using x
  proof (cases rule: rpc_execute_cases)
    case same
    then show ?thesis using solv rows by simp
  next
    case (executed e)
    have "paired l' x" if "x \<in> set (transfers (sg_db s))" for x
    proof (cases "t_ID x = i")
      case True
      then have "x = t0" using that t0 i inv by (auto simp: saga_inv_def transfers_inv_def distinct_map inj_on_def same_transfer_def)
      then show ?thesis
        using execute_pairs [OF keys t good] none i executed same_transfer_cong(1) [OF t0(2), of l'] by simp
    next
      case False
      have "ref_entries l' (t_ID x) = ref_entries ?l (t_ID x)" using execute_refs [OF good] False i executed by metis
      from paired_ledger [OF this, of "[]"] show ?thesis using rows [OF that] executed by (simp add: executeTransfer_accounts)
    qed
    with executed show ?thesis using executeTransfer_solvent [OF solv] by blast
  qed
  with rows saga_execute [OF inv assms(2) x] show ?thesis by (simp add: bank_inv_def)
qed

lemma bank_run_inv:
  assumes "canonical_uuids rt" "system_canonical rt" "bank_run rt s"
  shows "bank_inv rt s"
  using assms(3)
proof induction
  case (bank_start l)
  then have l: "ledger_ok l" "solvent (set systemAccountIDs) l" using stocked_keeps [OF _ assms(2)] by blast+
  then have "saga_reach rt (saga_start l)" by (auto simp: saga_reach_def)
  then show ?case using saga_reach_inv l(2)
    by (simp add: bank_inv_def) (simp add: saga_start_def migrated_transfers_def)
next
  case (bank_saga s s')
  have "own_text rt t' \<and> paired (sg_ledger s') t'" if "t' \<in> set (transfers (sg_db s'))" for t'
    using saga_rows [OF bank_saga.hyps(2,3) assms(1) that] bank_saga.IH bank_saga.hyps(3) same_transfer_cong
    by (auto simp: bank_inv_def intro: paired_none)
  with bank_saga saga_step_inv [OF bank_saga.hyps(2)] show ?case by (simp add: bank_inv_def)
next
  case bank_execute
  then show ?case using bank_execute_inv by blast
next
  case (bank_ledger s op l' e)
  have ok: "ledger_keys (sg_ledger s)" "ledger_ok (sg_ledger s)"
    using bank_ledger.IH by (auto simp: bank_inv_def saga_inv_def ledger_ok_def ledger_inv_def)
  obtain new where new: "ledger_accounts l' = ledger_accounts (sg_ledger s) @ new"
    using ledger_step_accounts bank_ledger.hyps(4) by metis
  have "solvent (set systemAccountIDs) l'"
    using ledger_step_solvent [OF system_canonicalD(1) [OF assms(2)] ok(1) _ _ bank_ledger.hyps(2)] bank_ledger.IH bank_ledger.hyps(4)
    by (simp add: bank_inv_def systemAccountIDs_def)
  moreover have "ledger_ok l'" using ledger_step_ok [OF ok(2) bank_ledger.hyps(3)] bank_ledger.hyps(4) by simp
  then have "saga_inv rt (s\<lparr>sg_ledger := l'\<rparr>)"
    using saga_step_inv [OF saga_step.sg_ledger_other [OF _ bank_ledger.hyps(5)]] bank_ledger.IH by (simp add: bank_inv_def)
  moreover have "paired l' t" if "t \<in> set (transfers (sg_db s))" for t
    using paired_ledger [OF bank_ledger.hyps(5) [OF that] new] bank_ledger.IH that by (simp add: bank_inv_def)
  ultimately show ?case using bank_ledger.IH by (simp add: bank_inv_def)
qed

subsection \<open>Sums of entries\<close>

lemma sum_filter_or:
  assumes "\<And>x. x \<in> set es \<Longrightarrow> \<not> (p x \<and> q x)"
  shows "sum_list (map f (filter (\<lambda>x. p x \<or> q x) es)) = sum_list (map f (filter p es)) + (sum_list (map f (filter q es)) :: int)"
  using assms by (induction es) auto

definition refers :: "Transfer list \<Rightarrow> entry_row \<Rightarrow> bool" where
  "refers ts x \<longleftrightarrow> (\<exists>t\<in>set ts. e_reference x = Some (t_ID t))"

text \<open>The entries that refer to some of \<open>ts\<close>, summed transfer by transfer.\<close>

lemma sum_by_transfer:
  assumes "distinct (map t_ID ts)"
  shows "amounts (filter (\<lambda>x. p x \<and> refers ts x) (entries l)) = sum_list (map (\<lambda>t. amounts (filter p (ref_entries l (t_ID t)))) ts)"
  using assms
proof (induction ts)
  case Nil
  then show ?case by (simp add: refers_def amounts_def)
next
  case (Cons t ts)
  have "(\<lambda>x. p x \<and> refers (t # ts) x) = (\<lambda>x. (e_reference x = Some (t_ID t) \<and> p x) \<or> (p x \<and> refers ts x))"
    by (auto simp: refers_def)
  moreover have "\<not> ((e_reference x = Some (t_ID t) \<and> p x) \<and> p x \<and> refers ts x)" for x
    using Cons.prems by (auto simp: refers_def)
  ultimately show ?case
    using Cons sum_filter_or [of "entries l" "\<lambda>x. e_reference x = Some (t_ID t) \<and> p x" "\<lambda>x. p x \<and> refers ts x" e_amount]
    by (simp add: amounts_def ref_entries_def conj_commute)
qed

lemma paired_side:
  assumes "paired l t" "ref_entries l (t_ID t) \<noteq> [] \<or> t_Amount t = 0"
  shows "side l a (ref_entries l (t_ID t)) =
    (if t_RecipientAccountID t = a then t_Amount t else 0) - (if t_SenderAccountID t = a then t_Amount t else 0)"
  using assms by (auto simp: paired_def side_def amounts_def)

lemma paired_amounts: "paired l t \<Longrightarrow> amounts (ref_entries l (t_ID t)) = 0"
  by (auto simp: paired_def amounts_def)

subsection \<open>The checks pass\<close>

text \<open>
  What the load test does, seen from the tables: its accounts send to each other only, and what reached them with a
  reference are those transfers.
\<close>

definition load_test :: "Transfer list \<Rightarrow> ledger_db \<Rightarrow> string list \<Rightarrow> bool" where
  "load_test ts l cohort \<longleftrightarrow>
     (\<forall>t\<in>set ts. t_SenderAccountID t \<in> set cohort \<longrightarrow>
        t_RecipientAccountID t \<in> set cohort \<and> t_RecipientAccountID t \<noteq> t_SenderAccountID t) \<and>
     (\<forall>x\<in>set (cohort_entries l cohort). e_reference x \<noteq> None \<longrightarrow>
        refers (filter (\<lambda>t. t_SenderAccountID t \<in> set cohort) ts) x)"

lemma bank_inv_row:
  assumes "bank_inv rt s" "t \<in> set (transfers (sg_db s))"
  shows "paired (sg_ledger s) t" "0 < t_Amount t"
    "t_Status t = ''completed'' \<Longrightarrow> ref_entries (sg_ledger s) (t_ID t) \<noteq> []"
    "nothing_moved t \<Longrightarrow> ref_entries (sg_ledger s) (t_ID t) = []"
proof -
  have inv: "saga_inv rt s" using assms(1) by (simp add: bank_inv_def)
  show p: "paired (sg_ledger s) t" and a: "0 < t_Amount t"
    using assms inv by (simp_all add: bank_inv_def saga_inv_def transfers_inv_def)
  have r: "row_ok rt (ref_entries (sg_ledger s) (t_ID t)) (booked (sg_ledger s) (t_ID t)) (sg_live s (t_ID t) \<noteq> None) t"
    by (rule saga_inv_row [OF inv assms(2)])
  show "t_Status t = ''completed'' \<Longrightarrow> ref_entries (sg_ledger s) (t_ID t) \<noteq> []"
    "nothing_moved t \<Longrightarrow> ref_entries (sg_ledger s) (t_ID t) = []"
    using r paired_booked [OF p a] by (auto simp: row_ok_def)
qed

lemma bank_inv_distinct:
  assumes "bank_inv rt s"
  shows "distinct (map t_ID (filter p (transfers (sg_db s))))" "distinct (map t_IdempotencyKey (filter p (transfers (sg_db s))))"
  using assms by (simp_all add: bank_inv_def saga_inv_def transfers_inv_def distinct_map_filter)

lemma bank_inv_books:
  assumes "bank_inv rt s"
  shows "amounts (entries (sg_ledger s)) = 0" "cached (sg_ledger s) i = sum_entries (entries (sg_ledger s)) i"
    "in_int64 (sum_entries (entries (sg_ledger s)) i)" "solvent (set systemAccountIDs) (sg_ledger s)"
  using assms by (simp_all add: bank_inv_def saga_inv_def ledger_ok_def ledger_inv_def ledger_books_def amounts_def) metis

lemma check_cohort_balances:
  assumes "bank_inv rt s"
  shows "\<exists>d. checkNoNegativeBalances (sg_ledger s) cohort = Some \<lparr>cr_Name = ''no_negative_balances'', cr_Passed = True, cr_Detail = d\<rparr>"
proof -
  have "fst r \<notin> set cohort" if "r \<in> set (negative_rows (sg_ledger s) cohort)" for r
  proof -
    from that obtain la b where r: "la \<in> set (ledger_accounts (sg_ledger s))" "account_balances (sg_ledger s) (la_id la) = Some b"
      "b < 0" "la_account_id la \<notin> set systemAccountIDs"
      by (auto simp: negative_rows_def Let_def split: option.splits if_splits dest!: in_set_takeD) metis
    then have "sum_entries (entries (sg_ledger s)) (la_id la) < 0" using bank_inv_books(2) [OF assms, of "la_id la"] by (simp add: cached_def)
    with r bank_inv_books(4) [OF assms] show ?thesis by (force simp: solvent_def)
  qed
  then show ?thesis by (auto simp: checkNoNegativeBalances_def Let_def)
qed

lemma check_cache:
  assumes "bank_inv rt s"
  shows "checkBalanceCacheMatchesLog (sg_ledger s) =
    Some \<lparr>cr_Name = ''balance_cache_matches_log'', cr_Passed = True, cr_Detail = []\<rparr>"
  using bank_inv_books(2,3) [OF assms] by (simp add: checkBalanceCacheMatchesLog_def list_all_iff Let_def)

lemma check_pairs:
  assumes "bank_inv rt s" "load_test (transfers (sg_db s)) (sg_ledger s) cohort"
  shows "checkTransferEntriesPaired (transfers (sg_db s)) (sg_ledger s) cohort =
    Some \<lparr>cr_Name = ''transfer_entries_paired'', cr_Passed = True, cr_Detail = []\<rparr>"
proof -
  have "\<not> malformed (pair_row (sg_ledger s) t)" if "t \<in> set (completed_of (transfers (sg_db s)) cohort)" for t
  proof -
    from that have t: "t \<in> set (transfers (sg_db s))" "t_Status t = ''completed''" "t_SenderAccountID t \<in> set cohort"
      by (auto simp: completed_of_def)
    note row = bank_inv_row [OF assms(1) t(1)]
    have "length (ref_entries (sg_ledger s) (t_ID t)) = 2" using row(1,3) t(2) by (auto simp: paired_def)
    then show ?thesis
      using paired_side [OF row(1)] paired_amounts [OF row(1)] row(3) [OF t(2)] t assms(2)
      by (auto simp: malformed_def pair_row_def Let_def load_test_def)
  qed
  then have "filter malformed (map (pair_row (sg_ledger s)) (completed_of (transfers (sg_db s)) cohort)) = []"
    by (auto simp: filter_empty_conv)
  then show ?thesis by (simp add: checkTransferEntriesPaired_def listed_def)
qed

lemma check_delta:
  assumes "bank_inv rt s"
  shows "checkBalanceDeltaMatchesTransfers (transfers (sg_db s)) (sg_ledger s) cohort =
    Some \<lparr>cr_Name = ''balance_delta_matches_transfers'', cr_Passed = True, cr_Detail = []\<rparr>"
proof -
  let ?S = "completed_of (transfers (sg_db s)) cohort"
  let ?l = "sg_ledger s"
  have "actual_delta ?S ?l a = expected_delta ?S a" for a
  proof -
    have "actual_delta ?S ?l a = amounts (filter (\<lambda>x. entry_account ?l x = Some a \<and> refers ?S x) (entries ?l))"
      unfolding actual_delta_def side_def filter_filter
      by (rule arg_cong [where f = amounts], rule filter_cong) (auto simp: refers_def split: option.splits)
    also have "\<dots> = sum_list (map (\<lambda>t. side ?l a (ref_entries ?l (t_ID t))) ?S)"
      unfolding side_def by (rule sum_by_transfer) (simp add: completed_of_def bank_inv_distinct [OF assms])
    also have "\<dots> = sum_list (map (\<lambda>t. (if t_RecipientAccountID t = a then t_Amount t else 0) - (if t_SenderAccountID t = a then t_Amount t else 0)) ?S)"
      using bank_inv_row(1,3) [OF assms]
      by (intro arg_cong [where f = sum_list] map_cong refl paired_side) (auto simp: completed_of_def)
    also have "\<dots> = expected_delta ?S a"
      by (simp add: expected_delta_def sum_list_subtractf sum_list_map_filter')
    finally show ?thesis .
  qed
  then show ?thesis by (simp add: checkBalanceDeltaMatchesTransfers_def listed_def Let_def)
qed

lemma amounts_split: "amounts es = amounts (filter p es) + amounts (filter (\<lambda>x. \<not> p x) es)"
  by (induction es) (simp_all add: amounts_def)

lemma check_conserved:
  assumes "bank_inv rt s" "load_test (transfers (sg_db s)) (sg_ledger s) cohort" "in_int64 (amounts (cohort_entries (sg_ledger s) cohort))"
  shows "checkCohortMoneyConserved (sg_ledger s) cohort =
    Some \<lparr>cr_Name = ''cohort_money_conserved'', cr_Passed = True, cr_Detail = []\<rparr>"
proof -
  let ?l = "sg_ledger s"
  let ?ours = "\<lambda>x. case entry_account ?l x of None \<Rightarrow> False | Some a \<Rightarrow> a \<in> set cohort"
  let ?T = "filter (\<lambda>t. t_SenderAccountID t \<in> set cohort) (transfers (sg_db s))"
  let ?es = "cohort_entries ?l cohort"
  have known: "refers ?T x" if "x \<in> set (entries ?l)" "?ours x" "e_reference x \<noteq> None" for x
    using that assms(2) by (simp add: load_test_def cohort_entries_def)
  have known': "refers ?T x \<Longrightarrow> e_reference x \<noteq> None" for x by (auto simp: refers_def)
  have "amounts (filter (\<lambda>x. e_reference x \<noteq> None) ?es) = amounts (filter (\<lambda>x. ?ours x \<and> refers ?T x) (entries ?l))"
    using known known' unfolding cohort_entries_def filter_filter
    by (intro arg_cong [where f = amounts] filter_cong refl) auto
  also have "\<dots> = sum_list (map (\<lambda>t. amounts (filter ?ours (ref_entries ?l (t_ID t)))) ?T)"
    by (rule sum_by_transfer) (rule bank_inv_distinct(1) [OF assms(1)])
  also have "\<dots> = sum_list (map (\<lambda>t. 0) ?T)"
    using bank_inv_row(1) [OF assms(1)] assms(2)
    by (intro arg_cong [where f = sum_list] map_cong refl) (fastforce simp: paired_def amounts_def load_test_def)
  finally have "amounts (filter (\<lambda>x. e_reference x \<noteq> None) ?es) = 0" by simp
  moreover have "amounts ?es = amounts (filter (\<lambda>x. e_reference x = None) ?es) + amounts (filter (\<lambda>x. e_reference x \<noteq> None) ?es)"
    by (rule amounts_split)
  ultimately show ?thesis using assms(3) by (simp add: checkCohortMoneyConserved_def bigint_def)
qed

lemma check_keys:
  assumes "bank_inv rt s"
  shows "checkNoDuplicateIdempotencyKeys (transfers (sg_db s)) cohort =
    Some \<lparr>cr_Name = ''no_duplicate_idempotency_keys'', cr_Passed = True, cr_Detail = []\<rparr>"
  using bank_inv_distinct(2) [OF assms] by (simp add: checkNoDuplicateIdempotencyKeys_def Let_def distinct_remdups_id)

text \<open>The one check that can fail: the transfers that failed without an answer to whether the money moved.\<close>

lemma check_unsettled:
  assumes "bank_inv rt s"
  obtains d where "checkNoEntriesForUnsettledTransfers (transfers (sg_db s)) (sg_ledger s) cohort =
      Some \<lparr>cr_Name = ''no_entries_for_failed_or_rejected'', cr_Passed = (d = []), cr_Detail = d\<rparr>"
    and "d = [] \<longleftrightarrow> (\<forall>t\<in>set (transfers (sg_db s)). t_SenderAccountID t \<in> set cohort \<and> t_Status t = ''failed'' \<and> \<not> nothing_moved t \<longrightarrow>
      ref_entries (sg_ledger s) (t_ID t) = [])"
proof -
  let ?bad = "filter (\<lambda>t. t_SenderAccountID t \<in> set cohort \<and> t_Status t \<in> {''failed'', ''rejected''} \<and> ref_entries (sg_ledger s) (t_ID t) \<noteq> [])
    (transfers (sg_db s))"
  let ?row = "\<lambda>t. UnsettledRow (t_ID t) (t_Status t) (int (length (ref_entries (sg_ledger s) (t_ID t)))) (amounts (ref_entries (sg_ledger s) (t_ID t)))"
  have scan: "scan_row (?row t) = Some (?row t)" if "t \<in> set ?bad" for t
    using paired_amounts bank_inv_row(1) [OF assms] that by (simp add: scan_row_def in_int64_def)
  have "those (map scan_row (map ?row ts)) = Some (map ?row ts)" if "set ts \<subseteq> set ?bad" for ts
    using that scan by (induction ts) auto
  from this [OF set_take_subset, of 20] have "those (map scan_row (take 20 (map ?row ?bad))) = Some (map ?row (take 20 ?bad))"
    by (simp only: take_map)
  then have "checkNoEntriesForUnsettledTransfers (transfers (sg_db s)) (sg_ledger s) cohort =
      Some \<lparr>cr_Name = ''no_entries_for_failed_or_rejected'', cr_Passed = (map ?row (take 20 ?bad) = []), cr_Detail = map ?row (take 20 ?bad)\<rparr>"
    by (simp add: checkNoEntriesForUnsettledTransfers_def listed_def)
  moreover have "?bad = [] \<longleftrightarrow> (\<forall>t\<in>set (transfers (sg_db s)). t_SenderAccountID t \<in> set cohort \<and> t_Status t = ''failed'' \<and> \<not> nothing_moved t \<longrightarrow>
      ref_entries (sg_ledger s) (t_ID t) = [])"
    using bank_inv_row(4) [OF assms] by (auto simp: filter_empty_conv nothing_moved_def)
  ultimately show thesis using that [of "map ?row (take 20 ?bad)"] by simp
qed

text \<open>
  C9: the load test's verdict on this program. Take any state that the bank reaches with whatever requests, crashes and
  lost messages, and with calls of the ledger other than reversals that book nothing under the id of a transfer. Assume of
  it what the load test does and \<open>load_test\<close> says: the accounts of its cohort send to other accounts of the cohort only, and
  every entry with a reference on one of them is of such a transfer (their opening balances are top-ups without a
  reference); and the sum of the cohort's entries fits 64 bits. (A deposit from outside the test, which carries a
  reference, makes \<open>cohort_money_conserved\<close> fail, as it should.) With every query answered, the command's checks then all
  run and seven of the eight pass; the eighth, \<open>no_entries_for_failed_or_rejected\<close>, and with it the whole verdict, passes
  exactly if no transfer of the cohort that failed with an unclear reason (an internal error of the ledger, or a timeout
  that was not resolved) has entries.
\<close>

theorem verify_judges_bank:
  assumes "canonical_uuids rt" "system_canonical rt" "bank_run rt s" "uuid_array rt accounts = Some cohort"
    and "load_test (transfers (sg_db s)) (sg_ledger s) cohort" "in_int64 (amounts (cohort_entries (sg_ledger s) cohort))"
  shows "\<exists>checks passed. runVerify rt (transfers (sg_db s)) (sg_ledger s) accounts = Some (checks, passed) \<and> length checks = 8 \<and>
    (\<forall>c\<in>set checks. cr_Passed c \<or> cr_Name c = ''no_entries_for_failed_or_rejected'') \<and>
    (passed \<longleftrightarrow> (\<forall>t\<in>set (transfers (sg_db s)). t_SenderAccountID t \<in> set cohort \<and> t_Status t = ''failed'' \<and> \<not> nothing_moved t \<longrightarrow>
       ref_entries (sg_ledger s) (t_ID t) = []))"
proof -
  have inv: "bank_inv rt s" by (rule bank_run_inv [OF assms(1-3)])
  have zero: "checkEntriesSumZero (sg_ledger s) = Some \<lparr>cr_Name = ''entries_sum_zero'', cr_Passed = True, cr_Detail = []\<rparr>"
    using bank_inv_books(1) [OF inv] by (simp add: checkEntriesSumZero_def bigint_def in_int64_def)
  obtain d2 where neg: "checkNoNegativeBalances (sg_ledger s) cohort = Some \<lparr>cr_Name = ''no_negative_balances'', cr_Passed = True, cr_Detail = d2\<rparr>"
    using check_cohort_balances [OF inv] by blast
  obtain d where d: "checkNoEntriesForUnsettledTransfers (transfers (sg_db s)) (sg_ledger s) cohort =
      Some \<lparr>cr_Name = ''no_entries_for_failed_or_rejected'', cr_Passed = (d = []), cr_Detail = d\<rparr>"
    "d = [] \<longleftrightarrow> (\<forall>t\<in>set (transfers (sg_db s)). t_SenderAccountID t \<in> set cohort \<and> t_Status t = ''failed'' \<and> \<not> nothing_moved t \<longrightarrow>
      ref_entries (sg_ledger s) (t_ID t) = [])"
    by (rule check_unsettled [OF inv])
  show ?thesis
    unfolding d(2) [symmetric]
    by (simp add: runVerify_def assms(4) zero neg d(1) check_cache [OF inv] check_pairs [OF inv assms(5)] check_delta [OF inv]
        check_conserved [OF inv assms(5,6)] check_keys [OF inv])
qed

text \<open>Two accounts that the load test's setup tops up to 100, and a transfer whose ledger call meets \<open>e\<close>.\<close>

definition topped_up_ledger :: ledger_db where
  "topped_up_ledger =
     fst (fundAccounts plain_runtime (sample_env 3) (ledger_rpc plain_runtime (\<lambda>i. sample_env (10 + i)) (\<lambda>_. Delivered)) [''a'', ''b''] 100
      (ledger_step plain_runtime (sample_env 2) (OpCreate ''b'')
       (ledger_step plain_runtime (sample_env 1) (OpCreate ''a'') migrated_ledger)))"

lemma topped_up_ledger_stocked: "stocked plain_runtime topped_up_ledger"
  unfolding topped_up_ledger_def by (intro fundAccounts_stocked stocked.intros) simp_all

definition load_execute :: "env \<Rightarrow> ledger_db \<times> (grpc_status + string)" where
  "load_execute e = lc_ExecuteTransfer (ledger_rpc plain_runtime (\<lambda>_. e) (\<lambda>_. Delivered)) 0 (t_SenderAccountID sample_row)
     (t_RecipientAccountID sample_row) (t_Amount sample_row) (t_ID sample_row) topped_up_ledger"

definition load_record :: "env \<Rightarrow> transfers_db \<times> (svc_error + Transfer \<times> settlementOutcome)" where
  "load_record e = settle_record plain_runtime (sample_env 22) (fst sample_insert) sample_row (settle_decide (snd (load_execute e)))"

definition load_saga :: "env \<Rightarrow> saga" where
  "load_saga e = \<lparr>sg_db = fst (load_record e), sg_ledger = fst (load_execute e), sg_live = Map.empty, sg_looked = {}\<rparr>"

lemma load_saga_run: "bank_run plain_runtime (load_saga e)"
proof -
  let ?i = "t_ID sample_row"
  let ?s1 = "(saga_start topped_up_ledger)\<lparr>sg_db := fst sample_insert, sg_live := [?i \<mapsto> PCreated sample_row]\<rparr>"
  let ?s2 = "?s1\<lparr>sg_live := [?i \<mapsto> PApproved sample_row]\<rparr>"
  let ?s3 = "?s2\<lparr>sg_ledger := fst (load_execute e), sg_live := [?i \<mapsto> PAnswered sample_row (settle_decide (snd (load_execute e)))]\<rparr>"
  have 0: "bank_run plain_runtime (saga_start topped_up_ledger)" by (rule bank_start [OF topped_up_ledger_stocked])
  have i: "snd sample_insert = Inr sample_row" by code_simp
  have "stored_reference plain_runtime (gen_random_uuid (sample_env 20) 0)" "ref_entries topped_up_ledger (gen_random_uuid (sample_env 20) 0) = []"
    by code_simp+
  then have "saga_step plain_runtime (saga_start topped_up_ledger) ?s1"
    using saga_step.sg_insert [of plain_runtime "sample_env 20" 1 "saga_start topped_up_ledger" "''key''" "''a''" "''b''" 30
        "fst sample_insert" "snd sample_insert"] i
    by (simp add: saga_start_def sample_insert_def in_int64_def)
  from bank_saga [OF 0 this] have 1: "bank_run plain_runtime ?s1" by simp
  have "saga_step plain_runtime ?s1 ?s2" using saga_step.sg_approve [of ?s1 ?i sample_row plain_runtime] by simp
  from bank_saga [OF 1 this] have 2: "bank_run plain_runtime ?s2" by simp
  have 3: "bank_run plain_runtime ?s3"
    using bank_execute [OF 2, of ?i sample_row "\<lambda>_. e" "\<lambda>_. Delivered" "fst (load_execute e)" "snd (load_execute e)"]
    by (simp add: load_execute_def saga_start_def)
  have "saga_step plain_runtime ?s3 (load_saga e)"
    using saga_step.sg_record [of ?s3 ?i sample_row "settle_decide (snd (load_execute e))" plain_runtime "sample_env 22"
        "fst (load_record e)" "snd (load_record e)"]
    by (simp add: load_record_def load_saga_def saga_start_def)
  from bank_saga [OF 3 this] show ?thesis by (simp add: load_saga_def)
qed

text \<open>The ledger commits the transfer and does not hear of it; it answers with an internal error, and the transfer is marked failed.\<close>

definition lost_commit :: env where
  "lost_commit = (sample_env 21)\<lparr>fault_at := \<lambda>i. if i = 8 then AppliedLost else NoFault\<rparr>"

theorem verify_judges_bank_witness:
  "(\<exists>checks. runVerify plain_runtime (transfers (sg_db (load_saga (sample_env 21)))) (sg_ledger (load_saga (sample_env 21))) [''a'', ''b'']
      = Some (checks, True)) \<and>
   (\<exists>checks. runVerify plain_runtime (transfers (sg_db (load_saga lost_commit))) (sg_ledger (load_saga lost_commit)) [''a'', ''b'']
      = Some (checks, False)) \<and>
   map (\<lambda>t. (t_Status t, t_FailureReason t)) (transfers (sg_db (load_saga lost_commit))) = [(''failed'', Some ''ledger_internal_error'')]"
proof -
  have cohort: "uuid_array plain_runtime [''a'', ''b''] = Some [''a'', ''b'']" by code_simp
  have a: "load_test (transfers (sg_db (load_saga (sample_env 21)))) (sg_ledger (load_saga (sample_env 21))) [''a'', ''b'']"
    "in_int64 (amounts (cohort_entries (sg_ledger (load_saga (sample_env 21))) [''a'', ''b'']))" by code_simp+
  have "\<forall>t\<in>set (transfers (sg_db (load_saga (sample_env 21)))). t_Status t = ''completed''" by code_simp
  then have 1: "\<exists>checks. runVerify plain_runtime (transfers (sg_db (load_saga (sample_env 21)))) (sg_ledger (load_saga (sample_env 21))) [''a'', ''b'']
      = Some (checks, True)"
    using verify_judges_bank [OF plain_runtime_sel(2) system_canonical_plain load_saga_run cohort a] by auto
  have b: "load_test (transfers (sg_db (load_saga lost_commit))) (sg_ledger (load_saga lost_commit)) [''a'', ''b'']"
    "in_int64 (amounts (cohort_entries (sg_ledger (load_saga lost_commit)) [''a'', ''b'']))" by code_simp+
  have "\<exists>t\<in>set (transfers (sg_db (load_saga lost_commit))). t_SenderAccountID t = ''a'' \<and> t_Status t = ''failed'' \<and> \<not> nothing_moved t \<and>
      ref_entries (sg_ledger (load_saga lost_commit)) (t_ID t) \<noteq> []" by code_simp
  then have 2: "\<exists>checks. runVerify plain_runtime (transfers (sg_db (load_saga lost_commit))) (sg_ledger (load_saga lost_commit)) [''a'', ''b'']
      = Some (checks, False)"
    using verify_judges_bank [OF plain_runtime_sel(2) system_canonical_plain load_saga_run cohort b] by auto
  have 3: "map (\<lambda>t. (t_Status t, t_FailureReason t)) (transfers (sg_db (load_saga lost_commit))) = [(''failed'', Some ''ledger_internal_error'')]"
    by code_simp
  from 1 2 3 show ?thesis by (intro conjI)
qed

text \<open>On a database that was seeded the third check fails before anything ran.\<close>

lemma verify_fails_after_seed:
  "case checkBalanceCacheMatchesLog (fst (seed plain_runtime (sample_env 9) migrated_ledger)) of
     None \<Rightarrow> False | Some c \<Rightarrow> \<not> cr_Passed c \<and> length (cr_Detail c) = 3"
  by code_simp

end
