(* ===== verification/Spec2Isabelle.thy ===== *)
theory Spec2Isabelle
  imports Outbox Settlement Deposit_Saga Fraud Transfers_Http_Properties Notifications_Properties Gateway_Properties Auth_Gateway Auth_Profile_Properties Loadtest_Properties
begin

text \<open>
  A verification development of Neo-Bank: a bank built from services that own one Postgres database each
  and call each other over gRPC and Kafka.

  \<^bold>\<open>The program.\<close> A user registers with auth-svc, which mails a code, activates the account when the code comes back
  and then issues access tokens (JWTs) and refresh tokens (in Redis). The gateway takes every request from outside,
  checks the access token and forwards the request to a service with the user in a header. transfers-svc asks accounts-svc for
  the accounts, fraud-svc for a decision and ledger-svc to move the money, and records the outcome
  together with an event in its outbox. ledger-svc keeps the double-entry log: entries that sum to zero per
  transaction, and a cached balance per account. Deposits come from Stripe through a webhook and are credited by a
  worker; withdrawals are simulated. A second worker resolves transfers whose settlement got no answer.
  accounts-svc gives every activated user one account with an IBAN and an account in the ledger. notifications-svc
  consumes the events of the other services and mails the parties; the gateway consumes them too and signals the
  WebSocket connections of the owners.

  \<^bold>\<open>How it is modelled.\<close> A database is a record of tables, a table a list of rows, a row a record with the
  fields of the Go struct. An operation is a function from the database and its arguments to the new
  database and a result, \<open>Inl\<close> for an error; it runs as one step, and where the code calls another service
  between two statements, an argument \<open>meanwhile\<close> says what others did to the database. What an
  operation meets is an \<open>env\<close>: the clock, the generated ids, and for each statement (numbered in the
  order of the source, beginning with 0) whether it is carried out, fails, or is carried out with its answer lost.
  A call of another service goes through \<open>call\<close>, which delivers it, loses the request or loses the reply.
  Programs outside the repository are parameters: Postgres' uuid input, Unicode case mapping and MD5
  (\<open>runtime\<close>), Stripe's API and its signature check, the JSON text of a cursor, the decoding of request bodies,
  Argon2, SHA-256, the JWT library, the image library and the signatures of the object storage.

  \<^bold>\<open>Theories and sources.\<close>
  \<^item> Prelude: Go integers and strings, \<open>env\<close>, \<open>persist\<close> (a commit), \<open>call\<close>, rows.
  \<^item> Iban (pkg/iban/iban.go): \<open>Generate\<close>, \<open>Validate\<close>, \<open>Normalize\<close>, \<open>Format\<close>. A generated IBAN validates and
    its parts can be read back; one character replaced by another of its kind never passes, and in an Irish IBAN
    by any other capital letter or digit.
  \<^item> Outbox (pkg/outbox): event ids, \<open>InsertEvent\<close>, \<open>RelayBatch\<close>, \<open>CleanupPublished\<close>. No event is lost,
    and passes without failures publish every event in order.
  \<^item> Ledger, Ledger\_Properties (ledger-svc/ledger.go): transfers, deposits, reversals, accounts, rebuilds and
    histories. The books balance in every reachable state, no account is overdrawn, a reference is
    posted once, histories are exact.
  \<^item> Ledger\_Server (ledger-svc/grpc\_server.go): the RPCs, and the locale \<open>ledger_service\<close> with the laws the
    clients rely on; its interpretation \<open>ledger_svc\<close> proves them for ledger-svc behind any network.
  \<^item> Transfers\_DB, Transfers, Transfers\_Properties, Reconcile (transfers-svc/transfer.go, reconcile.go): creation under
    an idempotency key, fraud check, settlement, the status writers and the worker.
  \<^item> Settlement: the step relation of all requests, workers, crashes and messages around a transfer; in every
    interleaving it is booked at most once, and a completed, rejected or definitely failed row agrees with the ledger.
    The functions of the code are shown to be runs of these steps, whatever happens while they wait.
  \<^item> Deposits, Webhook, Deposit\_Saga (deposit.go, deposit\_reconcile.go, webhook.go): the same for deposits and
    refunds, with Stripe's events in any order; a credit needs a paid payment intent. A late event puts a credited row back.
  \<^item> Withdrawals (withdrawal.go): the simulated payout and the ledger agree; every row written is true.
  \<^item> Paging, Cursor, History, History\_Properties (history.go, cursor.go, the history queries of transfer.go): the merge of
    three keyset-paged sources equals one page of the whole feed, and following the cursors reads
    everything once.
  \<^item> Transfers\_Http, Transfers\_Http\_Properties (http.go): the handlers; what each status code means, that a repeated
    request moves nothing, and, over accounts-svc and ledger-svc, that completed means paid.
  \<^item> Fraud (fraud-svc/fraud.go, grpc\_server.go): scoring, logging and the velocity limits, which hold
    as long as the checks of one account do not overlap; the queries of a check may see different states of the tables.
  \<^item> Accounts, Accounts\_Server, Accounts\_Properties, Resolve (accounts-svc): accounts and their numbers and IBANs, the rate
    limit, the backfill, the consumer, both servers; uniqueness, closed accounts, the rate limit, resolving.
  \<^item> Pgha (pkg/pgha): which errors mean an unavailable database, the bounded retry, the wait for a writable node.
  \<^item> Emails, Notifications, Notifications\_Properties (notifications-svc/money.go, email.go, contacts.go, kafka.go): amounts
    and mails, the idempotency barrier, the handlers, retries and dead letters. The locale \<open>event_peer\<close> says what
    the other consumers may do between two statements of a handler; its interpretations show it of their handlers. No event
    is lost, a settled event mails nothing, only the parties are mailed, the retries end.
  \<^item> Gateway, Gateway\_Properties (gateway): authentication, routing, the registry of connections, the cache of owners, the
    signals. The locale \<open>account_directory\<close> is what the cache relies on, and its interpretation \<open>svc\<close> shows it of
    accounts-svc's answers. A service takes the caller for the user of the token, the registry is exact, signals
    reach the owners only.
  \<^item> Auth, Auth\_Profile (auth-svc: register.go, verify.go, login.go, reset.go, and profile.go, avatar.go,
    avatar\_rate\_limit.go, avatar\_cleanup.go, storage.go): the tables, Redis and the bucket with every handler and worker.
  \<^item> Auth\_Passwords: the text of a password hash can be read back. Auth\_Effects: each operation is one of six effects
    on users and codes, and each keeps the invariant. Auth\_Properties: in every run a code is guessed at most five
    times and an activation is announced once.
  \<^item> Auth\_Sessions: refresh tokens in every interleaving of the requests; redeemed once, ended by a reset, but for a
    refresh under way. Auth\_Gateway: the token of a login opens the user's own profile through the gateway.
  \<^item> Auth\_Profile\_Properties: the locale \<open>user_law\<close> (a law on the rows of users that all but the change of an avatar
    keep), interpreted for display names (\<open>names\<close>) and for avatars (\<open>avatars\<close>); names are well formed, avatars stay
    stored, and the last registration of a pending address decides on its password.

  \<^item> Ledger\_Tools (ledger-svc/cmd/devtopup, cmd/seed, fundAccounts of loadtest/cmd/lt/setup.go): the tools that put money
    into a ledger. Minting keeps the books and every account but genesis and the outside world solvent; seeding
    leaves the cache behind the log.
  \<^item> Loadtest, Loadtest\_Properties (loadtest/cmd/lt/verify.go): the eight checks the load test runs over the tables, and
    what they say of the saga over such a ledger: in a run as the load test makes it, seven pass, and the eighth
    exactly if no transfer that failed for an unclear reason was booked after all.

  \<^bold>\<open>Bounds and loops.\<close> Loops over rows are structural recursions over the list of rows; the ten attempts of
  \<open>createAccountForUser\<close> are the code's own bound. \<open>read_feed\<close> takes a number of pages as fuel, and
  the theorem on it shows that one more than the number of operations suffices. \<open>retry_message\<close> is total by the measure of
  the attempts left on either budget (at most 155 in all), \<open>Retry\<close> calls at most 29 times, \<open>runes\<close> ends as every
  rune has at least one byte. Amounts are integers; the range of
  64 bits is checked where Postgres checks it and wraps around where Go does.

  \<^bold>\<open>Atomicity.\<close> A function with \<open>meanwhile\<close> is two steps, one without is one. Where that matters, the step relations
  are finer: Settlement and Deposit\_Saga (each statement group and call, linked to the functions), Fraud (each query
  of a check reads its own state), Auth\_Sessions (both halves of a refresh), Notifications (between the statements
  of a handler). The three queries of \<open>getOperationHistoryPage\<close> read one state of the tables; history.go runs them one
  after the other, so a page read while rows change may mix two states. The confirmation of an avatar is one step.

  \<^bold>\<open>Not modelled.\<close> Rows locked by concurrent transactions of ledger-svc: its operations are atomic, as SELECT
  FOR UPDATE in a fixed order makes them. Spans, logs and metrics. The start-up of the services, migrations beyond
  the tables they leave, tickers (their calls are steps of the run relations). Redis is one server with one clock, and
  each handler's commands run without others in between, but for a refresh, whose two halves are separate steps. How
  images are decoded and scaled, and TCP and WebSocket framing. pkg/tracing and pkg/health, the tools
  under infra, and of the load test all but its checks and its funding: they drive the system from outside or print.
  A tool's operation is one step like any other, so a recomputation of the cache that races with a transfer
  is not seen. \<open>balanceHistoryHandler\<close> of accounts-svc. Of Go's ReverseProxy: that it puts the Upgrade and Te headers
  back, and the path of a CONNECT request. In \<open>handleTransferMessage\<close> of notifications-svc the dead letter and the closing of
  the event are one result, of which either may fail without the other.
\<close>

end
